(* ===== verification/Prelude.thy ===== *)
theory Prelude
  imports Main "HOL-Library.Word" "HOL-Library.Multiset"
begin

unbundle bit_operations_syntax

text \<open>
  Shared material of the kumofs development: machine integers and byte strings,
  the errors the C++ code throws, the platform a build runs on (byte order and
  the SHA-1 function of the crypto library), loads and stores of multi-byte
  integers, and the generic list lemmas the components share.
\<close>

section \<open>Types\<close>

type_synonym u8 = "8 word"
type_synonym u16 = "16 word"
type_synonym u32 = "32 word"
type_synonym u64 = "64 word"
type_synonym bytes = "8 word list"

text \<open>
  The exceptions of the sources. \<open>Undefined_behaviour\<close> stands for a read or a
  write outside an object, which C++ leaves undefined: a model that meets one stops
  there instead of computing on an arbitrary value.
\<close>

datatype kerror =
    Runtime_error string
  | Logic_error string
  | Type_error
  | Unknown_method_error
  | Storage_error string
  | Storage_init_error string
  | Storage_backup_error string
  | Bad_alloc
  | Undefined_behaviour

type_synonym 'a result = "kerror + 'a"

text \<open>
  The platform: the byte order of the host, whether \<open>__LITTLE_ENDIAN__\<close> is
  defined when \<open>storage.h\<close> is compiled (the macro is not defined by every
  compiler, and it selects \<open>kumo_be64\<close>), and \<open>SHA1\<close> of the crypto library.
\<close>

datatype byte_order = Little | Big

record platform =
  host_order :: byte_order
  le_macro :: bool
  sha1 :: "bytes \<Rightarrow> bytes"

named_theorems kumo_defs \<open>definitions of small accessors and tests\<close>
named_theorems wf_intros \<open>preservation of the components' invariants\<close>

section \<open>Loads and stores\<close>

text \<open>Integers as runs of bytes, least significant first, and most significant first.\<close>

primrec word_of_le :: "bytes \<Rightarrow> 'a::len word" where
  "word_of_le [] = 0"
| "word_of_le (b # bs) = ucast b OR push_bit 8 (word_of_le bs)"

primrec le_of_word :: "nat \<Rightarrow> 'a::len word \<Rightarrow> bytes" where
  "le_of_word 0 w = []"
| "le_of_word (Suc n) w = ucast w # le_of_word n (drop_bit 8 w)"

definition load_word :: "byte_order \<Rightarrow> bytes \<Rightarrow> 'a::len word" where
  "load_word bo bs = (case bo of Little \<Rightarrow> word_of_le bs | Big \<Rightarrow> word_of_le (rev bs))"

definition store_word :: "byte_order \<Rightarrow> nat \<Rightarrow> 'a::len word \<Rightarrow> bytes" where
  "store_word bo n w = (case bo of Little \<Rightarrow> le_of_word n w | Big \<Rightarrow> rev (le_of_word n w))"

lemma length_le_of_word [simp]: "length (le_of_word n w) = n"
  by (induction n arbitrary: w) auto

lemma length_store_word [simp]: "length (store_word bo n w) = n"
  by (simp add: store_word_def split: byte_order.splits)

lemma bit_word_of_le_le_of_word:
  fixes w :: "'a::len word"
  shows "bit (word_of_le (le_of_word n w) :: 'a word) i \<longleftrightarrow> i < 8 * n \<and> i < LENGTH('a) \<and> bit w i"
proof (induction n arbitrary: w i)
  case 0
  then show ?case by simp
next
  case (Suc n)
  show ?case
    by (auto simp: bit_simps Suc.IH)
qed

lemma word_of_le_le_of_word:
  fixes w :: "'a::len word"
  assumes "LENGTH('a) \<le> 8 * n"
  shows "word_of_le (le_of_word n w) = w"
  by (rule bit_word_eqI) (use assms in \<open>auto simp: bit_word_of_le_le_of_word dest: bit_imp_le_length\<close>)

lemma load_store_word:
  fixes w :: "'a::len word"
  assumes "LENGTH('a) \<le> 8 * n"
  shows "load_word bo (store_word bo n w) = w"
  using word_of_le_le_of_word [OF assms]
  by (simp add: load_word_def store_word_def split: byte_order.splits)

lemma load_store_u64 [simp]: "load_word bo (store_word bo 8 w) = (w :: u64)"
  by (rule load_store_word) simp

lemma load_store_u16 [simp]: "load_word bo (store_word bo 2 w) = (w :: u16)"
  by (rule load_store_word) simp

lemma le_of_word_cong:
  fixes v w :: "'a::len word"
  shows "(\<And>i. i < 8 * n \<Longrightarrow> bit v i \<longleftrightarrow> bit w i) \<Longrightarrow> le_of_word n v = le_of_word n w"
proof (induction n arbitrary: v w)
  case (Suc n)
  have "(ucast v :: u8) = ucast w"
    by (rule bit_word_eqI) (use Suc.prems in \<open>auto simp: bit_simps\<close>)
  moreover have "le_of_word n (drop_bit 8 v) = le_of_word n (drop_bit 8 w)"
    by (rule Suc.IH) (use Suc.prems in \<open>auto simp: bit_simps\<close>)
  ultimately show ?case by simp
qed simp

lemma le_of_word_of_le:
  "8 * length bs \<le> LENGTH('a) \<Longrightarrow> le_of_word (length bs) (word_of_le bs :: 'a::len word) = bs"
proof (induction bs)
  case (Cons b bs)
  let ?w = "word_of_le bs :: 'a word"
  have "(ucast (ucast b OR push_bit 8 ?w) :: u8) = b"
    by (rule bit_word_eqI) (use Cons.prems in \<open>auto simp: bit_simps\<close>)
  moreover have "le_of_word (length bs) (drop_bit 8 (ucast b OR push_bit 8 ?w)) = le_of_word (length bs) ?w"
    by (rule le_of_word_cong) (use Cons.prems in \<open>auto simp: bit_simps dest: bit_imp_le_length\<close>)
  ultimately show ?case using Cons by simp
qed simp

lemma store_load_word:
  "length bs = n \<Longrightarrow> 8 * n \<le> LENGTH('a) \<Longrightarrow> store_word bo n (load_word bo bs :: 'a::len word) = bs"
  using le_of_word_of_le [of bs, where 'a = 'a] le_of_word_of_le [of "rev bs", where 'a = 'a]
  by (auto simp: load_word_def store_word_def split: byte_order.splits)

lemma store_load_u64: "length bs = 8 \<Longrightarrow> store_word bo 8 (load_word bo bs :: u64) = bs"
  by (rule store_load_word) simp_all

text \<open>\<open>__bswap_64\<close>: the eight bytes in the opposite order.\<close>

definition bswap64 :: "u64 \<Rightarrow> u64" where
  "bswap64 x = load_word Big (store_word Little 8 x)"

lemma load_rev: "load_word Big bs = load_word Little (rev bs)" "load_word Little bs = load_word Big (rev bs)"
  by (simp_all add: load_word_def)

lemma store_rev: "store_word Big n w = rev (store_word Little n w)"
  by (simp add: store_word_def)

lemma bswap64_bswap64 [simp]: "bswap64 (bswap64 x) = x"
  unfolding bswap64_def by (simp add: load_rev(1) store_load_u64)

lemma word_of_le_append_zeros: 
  "word_of_le (bs @ replicate k 0) = (word_of_le bs :: 'a::len word)"
proof (induction bs)
  case Nil
  show ?case by (induction k) simp_all
qed simp

lemma word_of_le_zeros_append: 
  "word_of_le (replicate k 0 @ bs) = push_bit (8 * k) (word_of_le bs :: 'a::len word)"
  by (induction k) simp_all

lemma le_of_word_nth: "i < n \<Longrightarrow> le_of_word n w ! i = ucast (drop_bit (8 * i) w)"
proof (induction n arbitrary: i w)
  case (Suc n)
  then show ?case by (cases i) (simp_all add: drop_bit_drop_bit add.commute)
qed simp

lemma ucast_u16_u64 [simp]: "(ucast (ucast (m :: u16) :: u64) :: u16) = m"
  by (rule bit_word_eqI) (auto simp: bit_simps)

lemma bswap_ucast16: "(ucast (bswap64 (ucast (m :: u16))) :: u16) = 0"
proof -
  have z: "(ucast (drop_bit k (ucast m :: u64)) :: u8) = 0" if "16 \<le> k" for k
    by (rule bit_word_eqI) (use that in \<open>auto simp: bit_simps dest: bit_imp_le_length\<close>)
  have "le_of_word 8 (ucast m :: u64) = [ucast (ucast m :: u64), ucast (drop_bit 8 (ucast m :: u64))] @ replicate 6 0"
  proof (rule nth_equalityI)
    fix i assume "i < length (le_of_word 8 (ucast m :: u64))"
    then show "le_of_word 8 (ucast m :: u64) ! i = ([ucast (ucast m :: u64), ucast (drop_bit 8 (ucast m :: u64))] @ replicate 6 0) ! i"
      using z [of "8 * i"] by (cases "i < 2") (auto simp: le_of_word_nth nth_append less_2_cases_iff)
  qed simp
  then have "bswap64 (ucast m) = push_bit 48 (word_of_le [ucast (drop_bit 8 (ucast m :: u64)), ucast (ucast m :: u64)])"
    using word_of_le_zeros_append [of 6 "[ucast (drop_bit 8 (ucast m :: u64)), ucast (ucast m :: u64)]", where 'a = 64]
    by (simp add: bswap64_def load_word_def store_word_def)
  then show ?thesis
    by (intro bit_word_eqI) (auto simp: bit_simps)
qed


section \<open>Standard algorithms on vectors\<close>

text \<open>
  \<open>std::lower_bound\<close>: the halving loop of the standard library over the range that
  starts at \<open>first\<close> and has \<open>len\<close> elements; \<open>P x\<close> is "\<open>x\<close> is less than the key".
\<close>

function lower_bound_loop :: "('a \<Rightarrow> bool) \<Rightarrow> 'a list \<Rightarrow> nat \<Rightarrow> nat \<Rightarrow> nat" where
  "lower_bound_loop P xs first len =
     (if 0 < len then
        (let half = len div 2; middle = first + half
         in if P (xs ! middle) then lower_bound_loop P xs (Suc middle) (len - half - 1)
            else lower_bound_loop P xs first half)
      else first)"
  by pat_completeness auto
termination
  by (relation "measure (\<lambda>(P, xs, first, len). len)") auto

declare lower_bound_loop.simps [simp del]

definition lower_bound :: "('a \<Rightarrow> bool) \<Rightarrow> 'a list \<Rightarrow> nat" where
  "lower_bound P xs = lower_bound_loop P xs 0 (length xs)"

definition binary_search :: "'a::linorder \<Rightarrow> 'a list \<Rightarrow> bool" where
  "binary_search key xs =
     (let i = lower_bound (\<lambda>x. x < key) xs in i < length xs \<and> \<not> key < xs ! i)"

text \<open>\<open>std::find_if\<close> as the index of the first element, the length when there is none.\<close>

primrec find_index :: "('a \<Rightarrow> bool) \<Rightarrow> 'a list \<Rightarrow> nat" where
  "find_index P [] = 0"
| "find_index P (x # xs) = (if P x then 0 else Suc (find_index P xs))"

text \<open>A vector is partitioned by \<open>P\<close> when no element that satisfies \<open>P\<close> follows one that does not.\<close>

definition partitioned :: "('a \<Rightarrow> bool) \<Rightarrow> 'a list \<Rightarrow> bool" where
  "partitioned P xs \<longleftrightarrow> (\<forall>i j. i \<le> j \<longrightarrow> j < length xs \<longrightarrow> P (xs ! j) \<longrightarrow> P (xs ! i))"

lemma partitioned_sorted:
  "sorted (map f xs) \<Longrightarrow> partitioned (\<lambda>x. f x < k) xs"
  unfolding partitioned_def by (auto dest!: sorted_nth_mono intro: le_less_trans)

lemma lower_bound_loop_bounds:
  "(\<forall>i < first. P (xs ! i)) \<Longrightarrow> (\<forall>i. first + len \<le> i \<longrightarrow> i < length xs \<longrightarrow> \<not> P (xs ! i)) \<Longrightarrow>
   partitioned P xs \<Longrightarrow> first + len \<le> length xs \<Longrightarrow>
   (let r = lower_bound_loop P xs first len
    in first \<le> r \<and> r \<le> length xs \<and> (\<forall>i < r. P (xs ! i)) \<and> (\<forall>i. r \<le> i \<longrightarrow> i < length xs \<longrightarrow> \<not> P (xs ! i)))"
proof (induction P xs first len rule: lower_bound_loop.induct)
  case (1 P xs first len)
  let ?half = "len div 2" and ?mid = "first + len div 2"
  show ?case
  proof (cases "0 < len")
    case False
    with 1(3,4,6) show ?thesis by (simp add: lower_bound_loop.simps [of P xs first 0])
  next
    case len: True
    then have mid: "?mid < first + len" by simp
    show ?thesis
    proof (cases "P (xs ! ?mid)")
      case True
      have "\<forall>i < Suc ?mid. P (xs ! i)"
        using True 1(5,6) mid unfolding partitioned_def by (meson less_Suc_eq_le less_le_trans)
      moreover have "Suc ?mid + (len - ?half - 1) = first + len" using len by linarith
      ultimately have "let r = lower_bound_loop P xs (Suc ?mid) (len - ?half - 1)
        in Suc ?mid \<le> r \<and> r \<le> length xs \<and> (\<forall>i < r. P (xs ! i)) \<and>
           (\<forall>i. r \<le> i \<longrightarrow> i < length xs \<longrightarrow> \<not> P (xs ! i))"
        using 1(1) [OF len refl refl True] 1(4,5,6) by simp
      with len True show ?thesis
        by (simp add: lower_bound_loop.simps [of P xs first len] Let_def)
    next
      case False
      have "\<forall>i. ?mid \<le> i \<longrightarrow> i < length xs \<longrightarrow> \<not> P (xs ! i)"
        using False 1(5) unfolding partitioned_def by blast
      then have "let r = lower_bound_loop P xs first ?half
        in first \<le> r \<and> r \<le> length xs \<and> (\<forall>i < r. P (xs ! i)) \<and>
           (\<forall>i. r \<le> i \<longrightarrow> i < length xs \<longrightarrow> \<not> P (xs ! i))"
        using 1(2) [OF len refl refl False] 1(3,5,6) mid by simp
      with len False show ?thesis
        by (simp add: lower_bound_loop.simps [of P xs first len] Let_def)
    qed
  qed
qed

lemma lower_bound_partition:
  assumes "partitioned P xs"
  shows "lower_bound P xs \<le> length xs"
    and "\<And>i. i < lower_bound P xs \<Longrightarrow> P (xs ! i)"
    and "\<And>i. lower_bound P xs \<le> i \<Longrightarrow> i < length xs \<Longrightarrow> \<not> P (xs ! i)"
  using lower_bound_loop_bounds [of 0 P xs "length xs"] assms
  by (auto simp: lower_bound_def Let_def)

lemma binary_search_sorted: "sorted xs \<Longrightarrow> binary_search k xs \<longleftrightarrow> k \<in> set xs"
proof
  assume "sorted xs"
  then have part: "partitioned (\<lambda>x. x < k) xs" using partitioned_sorted [of id xs] by simp
  note lb = lower_bound_partition [OF part]
  show "binary_search k xs \<Longrightarrow> k \<in> set xs"
    using lb(3) [OF order_refl] by (auto simp: binary_search_def Let_def) (metis linorder_neqE nth_mem)
  assume "k \<in> set xs"
  then obtain j where j: "j < length xs" "xs ! j = k" by (auto simp: in_set_conv_nth)
  have "lower_bound (\<lambda>x. x < k) xs \<le> j"
    using lb(2) [of j] j by (meson less_irrefl not_le)
  with \<open>sorted xs\<close> j show "binary_search k xs"
    by (auto simp: binary_search_def Let_def not_less intro: sorted_nth_mono)
qed

lemma find_index_less_iff: "find_index P xs < length xs \<longleftrightarrow> (\<exists>x \<in> set xs. P x)"
  by (induction xs) auto

lemma find_index_le: "find_index P xs \<le> length xs"
  by (induction xs) auto

lemma find_index_nth: "find_index P xs < length xs \<Longrightarrow> P (xs ! find_index P xs)"
  by (induction xs) auto

lemma find_index_find:
  "find_index P xs < length xs \<Longrightarrow> find P xs = Some (xs ! find_index P xs)"
  by (induction xs) auto

lemma find_index_none: "find_index P xs = length xs \<Longrightarrow> find P xs = None"
  by (metis find_None_iff2 find_index_less_iff less_irrefl)

section \<open>First occurrences, filters and stable sorting\<close>

primrec uniq :: "'a list \<Rightarrow> 'a list" where
  "uniq [] = []"
| "uniq (x # xs) = x # filter (\<lambda>y. y \<noteq> x) (uniq xs)"

lemma set_uniq [simp]: "set (uniq xs) = set xs"
  by (induction xs) auto

lemma distinct_uniq [simp]: "distinct (uniq xs)"
  by (induction xs) auto

lemma uniq_filter: "uniq (filter P xs) = filter P (uniq xs)"
  by (induction xs) (auto intro!: filter_cong)

lemma uniq_map_inj: "inj_on f (set xs) \<Longrightarrow> uniq (map f xs) = map f (uniq xs)"
proof (induction xs)
  case (Cons x xs)
  have "filter (\<lambda>y. y \<noteq> f x) (map f (uniq xs)) = map f (filter (\<lambda>y. y \<noteq> x) (uniq xs))"
    using Cons.prems by (auto simp: filter_map inj_on_def intro!: arg_cong [where f = "map f"] filter_cong)
  with Cons show ?case by simp
qed simp

lemma length_uniq: "length (uniq xs) = card (set xs)"
  by (metis distinct_card distinct_uniq set_uniq)

lemma sort_key_sort_key_append:
  "sort_key f (sort_key f xs @ ys) = sort_key f (xs @ ys)"
proof (rule properties_for_sort_key)
  fix k
  have "filter (\<lambda>x. f k = f x) zs = filter (\<lambda>x. f x = f k) zs" for zs
    by (rule filter_cong) auto
  then show "filter (\<lambda>x. f k = f x) (sort_key f (xs @ ys)) = filter (\<lambda>x. f k = f x) (sort_key f xs @ ys)"
    by (simp add: sort_key_stable)
qed simp_all

lemma filter_neq_id [simp]: "x \<notin> set xs \<Longrightarrow> filter (\<lambda>y. y \<noteq> x) xs = xs"
  by (auto simp: filter_id_conv)

lemma take_filter_notin:
  assumes "x \<notin> set (take k xs)"
  shows "take k (filter (\<lambda>y. y \<noteq> x) xs) = take k xs"
proof -
  have "filter (\<lambda>y. y \<noteq> x) (take k xs) = take k xs"
    using assms by (auto intro: filter_True)
  then have "filter (\<lambda>y. y \<noteq> x) xs = take k xs @ filter (\<lambda>y. y \<noteq> x) (drop k xs)"
    by (metis append_take_drop_id filter_append)
  then show ?thesis by (cases "k \<le> length xs") simp_all
qed

lemma take_filter_in:
  "distinct xs \<Longrightarrow> x \<in> set (take (Suc k) xs) \<Longrightarrow>
   filter (\<lambda>y. y \<noteq> x) (take (Suc k) xs) = take k (filter (\<lambda>y. y \<noteq> x) xs)"
proof (induction xs arbitrary: k)
  case (Cons y ys)
  show ?case
  proof (cases "y = x")
    case True
    with Cons.prems have n: "x \<notin> set ys" by simp
    then have "filter (\<lambda>y. y \<noteq> x) ys = ys" "filter (\<lambda>y. y \<noteq> x) (take k ys) = take k ys"
      by (auto intro!: filter_True dest: in_set_takeD)
    with True show ?thesis by simp
  next
    case False
    with Cons.prems obtain k' where "k = Suc k'" by (cases k) auto
    with Cons False show ?thesis by auto
  qed
qed simp

lemma insort_key_map: "insort_key f (g x) (map g xs) = map g (insort_key (\<lambda>y. f (g y)) x xs)"
  by (induction xs) auto

lemma sort_key_map: "sort_key f (map g xs) = map g (sort_key (\<lambda>y. f (g y)) xs)"
  by (induction xs) (simp_all add: insort_key_map)

lemma uniq_Cons_filter: "uniq (x # xs) = x # uniq (filter (\<lambda>y. y \<notin> set [x]) xs)"
  by (simp add: uniq_filter)

lemma filter_filter_notin:
  "filter (\<lambda>y. y \<notin> set [b]) (filter (\<lambda>y. y \<notin> set [a]) xs) = filter (\<lambda>y. y \<notin> set [a, b]) xs"
  by (auto intro: filter_cong)

lemma filter_take_drop:
  assumes "k \<le> length vs" "\<And>i. i < k \<Longrightarrow> P (vs ! i)" "\<And>i. k \<le> i \<Longrightarrow> i < length vs \<Longrightarrow> \<not> P (vs ! i)"
  shows "filter P vs = take k vs" "filter (\<lambda>x. \<not> P x) vs = drop k vs"
proof -
  have t: "\<forall>x \<in> set (take k vs). P x" using assms(1,2) by (auto simp: in_set_conv_nth)
  have d: "\<forall>x \<in> set (drop k vs). \<not> P x" using assms(1,3) by (auto simp: in_set_conv_nth)
  have "filter P (take k vs @ drop k vs) = take k vs" "filter (\<lambda>x. \<not> P x) (take k vs @ drop k vs) = drop k vs"
    using t d by (simp_all del: append_take_drop_id)
  then show "filter P vs = take k vs" "filter (\<lambda>x. \<not> P x) vs = drop k vs" by simp_all
qed

section \<open>A concrete platform\<close>

text \<open>
  A little-endian host whose digest function pads its input, on which the properties that
  take a platform are applied to concrete data.
\<close>

definition sample_platform :: platform where
  "sample_platform = \<lparr>host_order = Little, le_macro = False, sha1 = (\<lambda>bs. take 20 (bs @ replicate 20 0))\<rparr>"

end
