(* ===== verification/Clock.thy ===== *)
theory Clock
  imports Prelude
begin

unbundle bit_operations_syntax

text \<open>
  The Lamport clocks of kumofs (\<open>logic/clock.h\<close>, \<open>logic/clock_logic.h\<close>): the 32-bit
  wrap-around \<open>Clock\<close>, the 64-bit \<open>ClockTime\<close> that puts a wall-clock time above it,
  and the clock every node keeps.
\<close>

section \<open>Clock\<close>

definition clock_less :: "u32 \<Rightarrow> u32 \<Rightarrow> bool" where
  "clock_less x y =
     (if (x < push_bit 10 1 \<and> push_bit 22 1 < y) \<or> (y < push_bit 10 1 \<and> push_bit 22 1 < x)
      then x > y else x < y)"

text \<open>
  \<open>Clock::get_incr\<close> returns the value before the increment. \<open>Clock::update\<close> retries a
  compare-and-swap until it succeeds or the cell is no longer older: the loop run
  without interference is one conditional assignment.
\<close>

record clock =
  clock_m :: u32

definition Clock_get_incr :: "clock \<Rightarrow> u32 \<times> clock" where
  "Clock_get_incr c = (clock_m c, c\<lparr>clock_m := clock_m c + 1\<rparr>)"

definition Clock_get :: "clock \<Rightarrow> u32" where
  "Clock_get c = clock_m c"

definition Clock_update :: "clock \<Rightarrow> u32 \<Rightarrow> clock" where
  "Clock_update c o' = (if \<not> clock_less (clock_m c) o' then c else c\<lparr>clock_m := o'\<rparr>)"

text \<open>
  The same loop with interference: every thread that updates is at the head of the
  loop (\<open>U_read\<close>), or has read \<open>x\<close> and is about to swap (\<open>U_cas x\<close>), or has
  returned; \<open>get_incr\<close> of any thread may happen between two such steps.
\<close>

datatype update_pc = U_read | U_cas u32 | U_done

record clock_sys =
  cell :: u32
  pcs :: "nat \<Rightarrow> update_pc"
  arg :: "nat \<Rightarrow> u32"

inductive clock_step :: "clock_sys \<Rightarrow> clock_sys \<Rightarrow> bool" where
  incr: "clock_step s (s\<lparr>cell := cell s + 1\<rparr>)"
| read_stale: "pcs s i = U_read \<Longrightarrow> \<not> clock_less (cell s) (arg s i) \<Longrightarrow>
    clock_step s (s\<lparr>pcs := (pcs s)(i := U_done)\<rparr>)"
| read_older: "pcs s i = U_read \<Longrightarrow> clock_less (cell s) (arg s i) \<Longrightarrow>
    clock_step s (s\<lparr>pcs := (pcs s)(i := U_cas (cell s))\<rparr>)"
| cas_hit: "pcs s i = U_cas x \<Longrightarrow> cell s = x \<Longrightarrow>
    clock_step s (s\<lparr>cell := arg s i, pcs := (pcs s)(i := U_done)\<rparr>)"
| cas_miss: "pcs s i = U_cas x \<Longrightarrow> cell s \<noteq> x \<Longrightarrow>
    clock_step s (s\<lparr>pcs := (pcs s)(i := U_read)\<rparr>)"

inductive_cases clock_stepE: "clock_step s t"

section \<open>ClockTime\<close>

definition time_error_margin :: int where
  "time_error_margin = 5"

text \<open>\<open>std::abs\<close> on a 32-bit \<open>int\<close>; on two's complement hosts \<open>abs(INT_MIN)\<close> is \<open>INT_MIN\<close>.\<close>

definition abs_int32 :: "u32 \<Rightarrow> int" where
  "abs_int32 w = (if sint w < 0 then sint (- w) else sint w)"

definition clocktime_less :: "u64 \<Rightarrow> u64 \<Rightarrow> bool" where
  "clocktime_less x y =
     (let xt = ucast (drop_bit 32 x) :: u32; yt = ucast (drop_bit 32 y) :: u32
      in if abs_int32 (xt - yt) < time_error_margin
         then clock_less (ucast (x AND 0xffffffff)) (ucast (y AND 0xffffffff))
         else xt < yt)"

datatype clocktime = ClockTime (ct_get: u64)

definition clocktime_of_clock :: "u32 \<Rightarrow> u32 \<Rightarrow> clocktime" where
  "clocktime_of_clock c t = ClockTime (push_bit 32 (ucast t) OR ucast c)"

definition ct_clock :: "clocktime \<Rightarrow> u32" where
  "ct_clock x = ucast (ct_get x AND 0xffffffff)"

definition before_sec :: "clocktime \<Rightarrow> u32 \<Rightarrow> clocktime" where
  "before_sec x sec = ClockTime (ct_get x - push_bit 32 (ucast sec))"

definition ct_less :: "clocktime \<Rightarrow> clocktime \<Rightarrow> bool" where
  "ct_less x y = clocktime_less (ct_get x) (ct_get y)"

definition ct_greater :: "clocktime \<Rightarrow> clocktime \<Rightarrow> bool" where
  "ct_greater x y = clocktime_less (ct_get y) (ct_get x)"

definition ct_le :: "clocktime \<Rightarrow> clocktime \<Rightarrow> bool" where
  "ct_le x y \<longleftrightarrow> \<not> ct_greater x y"

definition ct_ge :: "clocktime \<Rightarrow> clocktime \<Rightarrow> bool" where
  "ct_ge x y \<longleftrightarrow> \<not> ct_less x y"

text \<open>The wall-clock half, which the code reads only inside \<open>clocktime_less\<close>.\<close>

definition ct_time :: "clocktime \<Rightarrow> u32" where
  "ct_time x = ucast (drop_bit 32 (ct_get x))"

section \<open>The clock of a node\<close>

record clock_logic =
  m_clock :: clock
  m_time :: u32

definition clock_update_time :: "u32 \<Rightarrow> clock_logic \<Rightarrow> clock_logic" where
  "clock_update_time now cl = cl\<lparr>m_time := now\<rparr>"

definition clock_update :: "u32 \<Rightarrow> clock_logic \<Rightarrow> clock_logic" where
  "clock_update c cl = cl\<lparr>m_clock := Clock_update (m_clock cl) c\<rparr>"

definition clocktime_now :: "clock_logic \<Rightarrow> clocktime" where
  "clocktime_now cl = clocktime_of_clock (Clock_get (m_clock cl)) (m_time cl)"

definition clock_incr :: "clock_logic \<Rightarrow> u32 \<times> clock_logic" where
  "clock_incr cl = (case Clock_get_incr (m_clock cl) of (c, k) \<Rightarrow> (c, cl\<lparr>m_clock := k\<rparr>))"

definition clock_incr_clocktime :: "clock_logic \<Rightarrow> clocktime \<times> clock_logic" where
  "clock_incr_clocktime cl =
     (case Clock_get_incr (m_clock cl) of
        (c, k) \<Rightarrow> (clocktime_of_clock c (m_time cl), cl\<lparr>m_clock := k\<rparr>))"

lemmas clock_defs =
  Clock_get_incr_def Clock_get_def Clock_update_def clock_update_def
  clocktime_now_def clock_incr_def clock_incr_clocktime_def clock_update_time_def

section \<open>The order on clocks\<close>

lemma clock_less_nat:
  "clock_less x y \<longleftrightarrow>
     (if (unat x < 1024 \<and> 4194304 < unat y) \<or> (unat y < 1024 \<and> 4194304 < unat x)
      then unat y < unat x else unat x < unat y)"
  by (simp add: clock_less_def word_less_nat_alt)

lemma clock_less_irrefl [simp]: "\<not> clock_less x x"
  by (simp add: clock_less_def)

lemma clock_less_asym: "clock_less x y \<Longrightarrow> \<not> clock_less y x"
  by (auto simp: clock_less_nat split: if_splits)

lemma clock_less_linear: "x \<noteq> y \<Longrightarrow> clock_less x y \<or> clock_less y x"
  by (auto simp: clock_less_nat word_unat_eq_iff split: if_splits)

lemma unat_u32_less: "unat (x::u32) < 4294967296"
  using unsigned_less [of x, where ?'a = nat] by simp

lemma sint_u32: "sint (w::u32) = (if uint w < 2147483648 then uint w else uint w - 4294967296)"
proof -
  have tk: "take_bit 32 (uint w) = uint w"
    using uint_bounded [of w] by (simp add: take_bit_int_eq_self)
  show ?thesis
    using sint_greater_eq [of w] sint_less [of w] uint_bounded [of w]
    by (cases "bit (uint w) 31") (auto simp: sint_uint signed_take_bit_eq_take_bit_minus tk)
qed

lemma clock_less_advance:
  "0 < k \<Longrightarrow> k \<le> 1024 \<Longrightarrow> clock_less x (x + of_nat k)"
  using unat_u32_less [of x]
  by (auto simp: clock_less_nat unat_word_ariths unat_of_nat mod_if)

lemma ct_time_of [simp]: "ct_time (clocktime_of_clock c t) = t"
  unfolding ct_time_def clocktime_of_clock_def
  by (rule bit_word_eqI) (auto simp: bit_simps dest: bit_imp_le_length)

lemma mask32: "(0xffffffff :: u64) = mask 32" by (simp add: mask_eq_exp_minus_1)

lemma ct_clock_of [simp]: "ct_clock (clocktime_of_clock c t) = c"
  unfolding ct_clock_def clocktime_of_clock_def mask32
  by (rule bit_word_eqI) (auto simp: bit_simps)

lemma clocktime_of_parts: "clocktime_of_clock (ct_clock x) (ct_time x) = x"
proof (cases x)
  case (ClockTime m)
  have "push_bit 32 (ucast (ucast (drop_bit 32 m) :: u32)) OR ucast (ucast (m AND mask 32) :: u32) = m"
    by (rule bit_word_eqI) (auto simp: bit_simps)
  with ClockTime show ?thesis
    unfolding ct_clock_def ct_time_def clocktime_of_clock_def mask32 by simp
qed

lemma ct_less_parts:
  "ct_less x y \<longleftrightarrow>
     (if abs_int32 (ct_time x - ct_time y) < time_error_margin
      then clock_less (ct_clock x) (ct_clock y) else ct_time x < ct_time y)"
  by (simp add: ct_less_def clocktime_less_def ct_time_def ct_clock_def Let_def)

lemma abs_int32_uminus: "abs_int32 (- w) = abs_int32 w"
proof -
  have "uint w = 0 \<or> 0 < uint w" using uint_ge_0 [of w] by linarith
  then show ?thesis
    unfolding abs_int32_def sint_u32 using uint_bounded [of w]
    by (auto simp: uint_word_ariths mod_if zmod_zminus1_eq_if)
qed

lemma abs_int32_commute: "abs_int32 (a - b) = abs_int32 (b - a)"
  using abs_int32_uminus [of "a - b"] by simp

lemma ct_less_asym: "ct_less x y \<Longrightarrow> \<not> ct_less y x"
  using abs_int32_commute [of "ct_time x" "ct_time y"]
  by (auto simp: ct_less_parts dest: clock_less_asym split: if_splits)

lemma abs_int32_near: "b \<le> a \<Longrightarrow> unat a - unat b < 5 \<Longrightarrow> abs_int32 (a - b) < 5"
proof -
  assume "b \<le> a" and near: "unat a - unat b < 5"
  then have le: "uint b \<le> uint a" by (simp add: word_le_def)
  have "int (unat a) - int (unat b) < 5" using near by linarith
  then have "uint a - uint b < 5" by simp
  with le show ?thesis unfolding abs_int32_def sint_u32 by (simp add: uint_sub_if')
qed

lemma ct_less_later:
  assumes "clock_less c c'" and "unat t < unat t' + 5"
  shows "ct_less (clocktime_of_clock c t) (clocktime_of_clock c' t')"
proof (cases "t < t'")
  case True
  with assms show ?thesis by (simp add: ct_less_parts)
next
  case False
  with assms abs_int32_near [of t' t] show ?thesis
    by (auto simp: ct_less_parts time_error_margin_def not_less word_le_nat_alt)
qed

lemma ct_le_total: "ct_le x y \<or> ct_le y x"
  using ct_less_asym by (auto simp: ct_le_def ct_greater_def ct_less_def)

lemma ct_clock_ucast: "ct_clock x = ucast (ct_get x)"
  unfolding ct_clock_def mask32 by (rule bit_word_eqI) (auto simp: bit_simps)

lemma div_mod_high:
  fixes a s b c :: int
  assumes "0 < b" and "0 \<le> c"
  shows "((a - s * b) mod (b * c)) div b = (a div b - s) mod c"
proof -
  have "(a - s * b) div b = a div b - s"
    using div_mult_self1 [of b a "- s"] assms by simp
  with assms show ?thesis by (simp add: zmod_zmult2_eq)
qed

lemma uint_ct_time: "uint (ct_time x) = uint (ct_get x) div 4294967296"
proof -
  have lt: "uint (ct_get x) < 18446744073709551616"
    using uint_bounded [of "ct_get x"] by simp
  then have "uint (ct_get x) div 4294967296 < 4294967296" by linarith
  moreover have "0 \<le> uint (ct_get x) div 4294967296" by (simp add: pos_imp_zdiv_nonneg_iff)
  ultimately have "take_bit 32 (drop_bit 32 (take_bit 64 (uint (ct_get x)))) = uint (ct_get x) div 4294967296"
    using lt by (simp add: drop_bit_eq_div take_bit_eq_mod)
  then show ?thesis
    by (simp add: ct_time_def unsigned_ucast_eq unsigned_drop_bit_eq)
qed

lemma uint_ct_clock: "uint (ct_clock x) = uint (ct_get x) mod 4294967296"
  by (simp add: ct_clock_ucast unsigned_ucast_eq take_bit_eq_mod)

lemma uint_before_sec:
  "uint (ct_get (before_sec x s)) = (uint (ct_get x) - uint s * 4294967296) mod 18446744073709551616"
proof -
  have "take_bit 64 (push_bit 32 (take_bit 64 (uint s))) = uint s * 4294967296"
    using uint_bounded [of s] by (simp add: push_bit_eq_mult take_bit_eq_mod)
  then show ?thesis
    by (simp add: before_sec_def uint_word_ariths unsigned_push_bit_eq unsigned_ucast_eq)
qed

lemma ct_clock_before_sec [simp]: "ct_clock (before_sec x s) = ct_clock x"
proof -
  have "uint (ct_clock (before_sec x s)) = (uint (ct_get x) - uint s * 4294967296) mod 4294967296"
    unfolding uint_ct_clock uint_before_sec by (simp add: mod_mod_cancel)
  also have "\<dots> = uint (ct_clock x)"
    unfolding uint_ct_clock using mod_mult_self1 [of "uint (ct_get x)" "- uint s" 4294967296] by simp
  finally show ?thesis by (simp add: word_uint_eq_iff)
qed

lemma ct_time_before_sec [simp]: "ct_time (before_sec x s) = ct_time x - s"
proof -
  have "uint (ct_time (before_sec x s)) = (uint (ct_get x) div 4294967296 - uint s) mod 4294967296"
    unfolding uint_ct_time uint_before_sec
    using div_mod_high [of 4294967296 4294967296 "uint (ct_get x)" "uint s"] by simp
  also have "\<dots> = uint (ct_time x - s)"
    by (simp add: uint_word_ariths uint_ct_time)
  finally show ?thesis by (simp add: word_uint_eq_iff)
qed

section \<open>What the clock guarantees\<close>

text \<open>
  Two stamps a node draws one after the other are strictly increasing, across the
  wrap-around of the 32-bit clock, as long as the wall clock is not set back by five
  seconds or more between them.
\<close>

theorem stamps_increase:
  assumes "unat (m_time cl) < unat now + 5"
  shows "ct_less (fst (clock_incr_clocktime cl))
           (fst (clock_incr_clocktime (clock_update_time now (snd (clock_incr_clocktime cl)))))"
  using assms clock_less_advance [of 1 "clock_m (m_clock cl)"]
  by (simp add: clock_defs ct_less_later)

theorem stamps_increase_witness:
  "ct_less (fst (clock_incr_clocktime \<lparr>m_clock = \<lparr>clock_m = 0xffffffff\<rparr>, m_time = 1000\<rparr>))
     (fst (clock_incr_clocktime (clock_update_time 998
        (snd (clock_incr_clocktime \<lparr>m_clock = \<lparr>clock_m = 0xffffffff\<rparr>, m_time = 1000\<rparr>)))))"
  by (rule stamps_increase) simp

text \<open>
  The states of the compare-and-swap loop that can be reached: a thread about to swap
  has read a value older than its argument.
\<close>

inductive clock_reach :: "clock_sys \<Rightarrow> bool" where
  start: "(\<And>i. pcs s i = U_read) \<Longrightarrow> clock_reach s"
| step: "clock_reach s \<Longrightarrow> clock_step s t \<Longrightarrow> clock_reach t"

lemma clock_reach_cas: "clock_reach s \<Longrightarrow> pcs s i = U_cas x \<Longrightarrow> clock_less x (arg s i)"
proof (induction arbitrary: i x rule: clock_reach.induct)
  case (start s)
  then show ?case by simp
next
  case (step s t)
  from step.hyps(2) step.prems step.IH show ?case
    by (auto elim!: clock_stepE split: if_splits)
qed

text \<open>
  Under every interleaving of \<open>Clock::update\<close> and \<open>Clock::get_incr\<close> the shared
  cell only moves forward: a step leaves it alone or replaces it by a later clock.
\<close>

theorem clock_cell_forward:
  assumes "clock_reach s" and "clock_step s t"
  shows "cell t = cell s \<or> clock_less (cell s) (cell t)"
  using assms(2) clock_reach_cas [OF assms(1)] clock_less_advance [of 1 "cell s"]
  by (auto elim!: clock_stepE)

theorem clock_cell_forward_witness:
  "cell \<lparr>cell = 0, pcs = \<lambda>_. U_read, arg = \<lambda>_. 7\<rparr> = cell \<lparr>cell = - 1, pcs = \<lambda>_. U_read, arg = \<lambda>_. 7\<rparr>
   \<or> clock_less (cell \<lparr>cell = - 1, pcs = \<lambda>_. U_read, arg = \<lambda>_. 7\<rparr>)
       (cell \<lparr>cell = 0, pcs = \<lambda>_. U_read, arg = \<lambda>_. 7\<rparr>)"
proof -
  have r: "clock_reach \<lparr>cell = - 1, pcs = \<lambda>_. U_read, arg = \<lambda>_. 7\<rparr>"
    by (rule clock_reach.start) simp
  have s: "clock_step \<lparr>cell = - 1, pcs = \<lambda>_. U_read, arg = \<lambda>_. 7\<rparr>
             \<lparr>cell = 0, pcs = \<lambda>_. U_read, arg = \<lambda>_. 7\<rparr>"
    using clock_step.incr [of "\<lparr>cell = - 1, pcs = \<lambda>_. U_read, arg = \<lambda>_. 7\<rparr>"] by simp
  show ?thesis by (rule clock_cell_forward [OF r s])
qed

text \<open>
  The order on \<open>ClockTime\<close> is asymmetric and \<open>\<le>\<close> compares any two stamps, so a
  conditional update decides for one of two stamps; stepping back \<open>sec\<close> seconds leaves
  the clock half alone and subtracts from the time half modulo \<open>2^32\<close>.
\<close>

lemma clocktime_order:
  "\<not> (ct_less x y \<and> ct_less y x) \<and> (ct_le x y \<or> ct_le y x) \<and> (ct_le x y = (\<not> ct_less y x)) \<and>
   ct_clock (before_sec x s) = ct_clock x \<and> ct_time (before_sec x s) = ct_time x - s"
  using ct_less_asym ct_le_total by (auto simp: ct_le_def ct_greater_def ct_less_def)

text \<open>
  The order is not transitive, and a node can draw a stamp that is older than its
  previous one: a node at clock 1023 draws a stamp, adopts the clock 5000000 of a
  message (1024 is older than it), and its next stamp compares older than the first.
\<close>

theorem stamps_go_back_after_update:
  "let cl = \<lparr>m_clock = \<lparr>clock_m = 1023\<rparr>, m_time = t\<rparr>;
       (s1, cl1) = clock_incr_clocktime cl;
       (s2, cl2) = clock_incr_clocktime (clock_update 5000000 cl1)
   in ct_less s2 s1 \<and> \<not> ct_less s1 s2"
  by (simp add: clock_defs ct_less_parts abs_int32_def time_error_margin_def clock_less_nat Let_def)

end
