(* ===== verification/Storage.thy ===== *)
theory Storage
  imports Prelude Clock "HOL-Library.Monad_Syntax"
begin

text \<open>
  The storage layer (\<open>storage/storage.h\<close>, \<open>storage/storage.cc\<close>,
  \<open>storage/interface.h\<close>, \<open>storage/buffer_queue.h\<close>): the layout of keys and
  values, the table of functions a storage module provides, the queue of garbage, and
  the operations of \<open>Storage\<close>. The locale \<open>kumo_storage\<close> states what the operations
  rely on; \<open>Tchdb\<close> shows that the Tokyo Cabinet module keeps it.
\<close>

section \<open>The layout of keys and values\<close>

definition KEY_META_SIZE :: nat where "KEY_META_SIZE = 8"

definition VALUE_CLOCKTIME_SIZE :: nat where "VALUE_CLOCKTIME_SIZE = 8"

definition VALUE_META_SIZE :: nat where "VALUE_META_SIZE = VALUE_CLOCKTIME_SIZE + 2"

definition kumo_be64 :: "platform \<Rightarrow> u64 \<Rightarrow> u64" where
  "kumo_be64 p x = (if le_macro p then bswap64 x else x)"

definition clocktime_of :: "platform \<Rightarrow> bytes \<Rightarrow> clocktime" where
  "clocktime_of p raw_val = ClockTime (kumo_be64 p (load_word (host_order p) (take 8 raw_val)))"

definition clocktime_to :: "platform \<Rightarrow> clocktime \<Rightarrow> bytes \<Rightarrow> bytes" where
  "clocktime_to p ct raw_val = store_word (host_order p) 8 (kumo_be64 p (ct_get ct)) @ drop 8 raw_val"

text \<open>
  The 16-bit field goes through the 64-bit \<open>kumo_be64\<close>: it is widened, swapped when
  the macro is on, and cut to its low 16 bits.
\<close>

definition meta_of :: "platform \<Rightarrow> bytes \<Rightarrow> u16" where
  "meta_of p raw_val =
     ucast (kumo_be64 p (ucast (load_word (host_order p) (take 2 (drop VALUE_CLOCKTIME_SIZE raw_val)) :: u16)))"

definition meta_to :: "platform \<Rightarrow> u16 \<Rightarrow> bytes \<Rightarrow> bytes" where
  "meta_to p meta raw_val =
     take VALUE_CLOCKTIME_SIZE raw_val @
     store_word (host_order p) 2 (ucast (kumo_be64 p (ucast meta)) :: u16) @
     drop VALUE_META_SIZE raw_val"

definition hash_of :: "platform \<Rightarrow> bytes \<Rightarrow> u64" where
  "hash_of p raw_key = kumo_be64 p (load_word (host_order p) (take 8 raw_key))"

definition hash_to :: "platform \<Rightarrow> u64 \<Rightarrow> bytes \<Rightarrow> bytes" where
  "hash_to p h raw_key = store_word (host_order p) 8 (kumo_be64 p h) @ drop 8 raw_key"

lemma kumo_be64_twice [simp]: "kumo_be64 p (kumo_be64 p x) = x"
  by (simp add: kumo_be64_def)

lemma size_consts [simp]: "KEY_META_SIZE = 8" "VALUE_CLOCKTIME_SIZE = 8" "VALUE_META_SIZE = 10"
  by (simp_all add: KEY_META_SIZE_def VALUE_CLOCKTIME_SIZE_def VALUE_META_SIZE_def)

lemma clocktime_of_to [simp]: "clocktime_of p (clocktime_to p ct raw @ rest) = ct"
  by (simp add: clocktime_of_def clocktime_to_def)

lemma clocktime_of_to' [simp]: "clocktime_of p (clocktime_to p ct raw) = ct"
  using clocktime_of_to [of p ct raw "[]"] by simp

lemma hash_of_to [simp]: "hash_of p (hash_to p h raw @ rest) = h"
  by (simp add: hash_of_def hash_to_def)

lemma hash_to_of: "8 \<le> length raw \<Longrightarrow> hash_to p (hash_of p raw) [] @ drop 8 raw = raw"
  by (simp add: hash_of_def hash_to_def store_load_u64)

lemma length_clocktime_to: "8 \<le> length raw \<Longrightarrow> length (clocktime_to p ct raw) = length raw"
  by (simp add: clocktime_to_def)

lemma length_meta_to: "10 \<le> length raw \<Longrightarrow> length (meta_to p m raw) = length raw"
  by (simp add: meta_to_def)

lemma length_hash_to: "8 \<le> length raw \<Longrightarrow> length (hash_to p h raw) = length raw"
  by (simp add: hash_to_def)

lemma clocktime_of_meta_to [simp]:
  "8 \<le> length raw \<Longrightarrow> clocktime_of p (meta_to p m raw @ rest) = clocktime_of p raw"
  by (simp add: clocktime_of_def meta_to_def)

lemma meta_of_to:
  "8 \<le> length raw \<Longrightarrow> \<not> le_macro p \<Longrightarrow> meta_of p (meta_to p m raw @ rest) = m"
  by (simp add: meta_of_def meta_to_def kumo_be64_def)

lemma meta_of_swapped: "le_macro p \<Longrightarrow> meta_of p raw = 0"
  by (simp add: meta_of_def kumo_be64_def bswap_ucast16)

section \<open>The queue of garbage\<close>

record buffer_queue =
  m_total_size :: u64
  m_queue :: "bytes list"

definition buffer_queue_new :: buffer_queue where
  "buffer_queue_new = \<lparr>m_total_size = 0, m_queue = []\<rparr>"

definition bq_push :: "bytes \<Rightarrow> buffer_queue \<Rightarrow> buffer_queue" where
  "bq_push buf q = q\<lparr>m_queue := m_queue q @ [buf], m_total_size := m_total_size q + of_nat (length buf)\<rparr>"

definition bq_front :: "buffer_queue \<Rightarrow> bytes option" where
  "bq_front q = (case m_queue q of [] \<Rightarrow> None | e # _ \<Rightarrow> Some e)"

text \<open>\<open>pop\<close> on an empty \<open>std::queue\<close> is undefined; the only caller has just seen a front.\<close>

definition bq_pop :: "buffer_queue \<Rightarrow> buffer_queue" where
  "bq_pop q = (case m_queue q of [] \<Rightarrow> q
     | e # es \<Rightarrow> q\<lparr>m_total_size := m_total_size q - of_nat (length e), m_queue := es\<rparr>)"

definition bq_ok :: "buffer_queue \<Rightarrow> bool" where
  "bq_ok q \<longleftrightarrow> m_total_size q = of_nat (sum_list (map length (m_queue q)))"

lemma bq_ok_new [wf_intros]: "bq_ok buffer_queue_new"
  by (simp add: bq_ok_def buffer_queue_new_def)

lemma bq_ok_push [wf_intros]: "bq_ok q \<Longrightarrow> bq_ok (bq_push b q)"
  by (simp add: bq_ok_def bq_push_def)

lemma bq_ok_pop [wf_intros]: "bq_ok q \<Longrightarrow> bq_ok (bq_pop q)"
  by (simp add: bq_ok_def bq_pop_def split: list.splits)

section \<open>The table of a storage module\<close>

text \<open>
  \<open>kumo_storage_op\<close>, with the module's data as the type parameter. A compare procedure
  with its data is a predicate on the old value. \<open>for_each\<close> of a module is a
  loop, and the table has its two steps: starting the iteration and fetching the next record.
  The iterator passed to the callback is the record it stands on. A module whose iteration is
  not of this form has its own, related to this one or treated beside it.
\<close>

record 'd kumo_storage_op =
  op_create :: "'d option"
  op_open :: "'d \<Rightarrow> string \<Rightarrow> bool \<times> 'd"
  op_get :: "'d \<Rightarrow> bytes \<Rightarrow> bytes option"
  op_get_header :: "'d \<Rightarrow> bytes \<Rightarrow> nat \<Rightarrow> int \<times> bytes"
  op_set :: "'d \<Rightarrow> bytes \<Rightarrow> bytes \<Rightarrow> bool \<times> 'd"
  op_del :: "'d \<Rightarrow> bytes \<Rightarrow> (bytes \<Rightarrow> bool) \<Rightarrow> bool \<times> 'd"
  op_update :: "'d \<Rightarrow> bytes \<Rightarrow> bytes \<Rightarrow> (bytes \<Rightarrow> bool) \<Rightarrow> bool \<times> 'd"
  op_rnum :: "'d \<Rightarrow> u64"
  op_backup :: "'d \<Rightarrow> string \<Rightarrow> bool \<times> 'd"
  op_error :: "'d \<Rightarrow> string"
  op_iter_init :: "'d \<Rightarrow> bool \<times> 'd"
  op_iter_next :: "'d \<Rightarrow> (bytes \<times> bytes) option \<times> 'd"
  op_iterator_del :: "'d \<Rightarrow> bytes \<Rightarrow> (bytes \<Rightarrow> bool) \<Rightarrow> bool \<times> 'd"
  op_iterator_del_force :: "'d \<Rightarrow> bytes \<Rightarrow> bool \<times> 'd"

text \<open>The loop of \<open>for_each\<close>: it stops when there is no next record or when the callback fails.\<close>

partial_function (option) for_each_loop ::
    "'d kumo_storage_op \<Rightarrow> (bytes \<Rightarrow> bytes \<Rightarrow> 'u \<times> 'd \<Rightarrow> int \<times> 'u \<times> 'd) \<Rightarrow> 'u \<times> 'd \<Rightarrow> (int \<times> 'u \<times> 'd) option" where
  "for_each_loop op func s =
     (let (kv, d) = op_iter_next op (snd s)
      in if kv = None then Some (0, fst s, d)
         else let (ret, s') = func (fst (the kv)) (snd (the kv)) (fst s, d)
              in if ret < 0 then Some (ret, s') else for_each_loop op func s')"

definition kumo_for_each ::
    "'d kumo_storage_op \<Rightarrow> (bytes \<Rightarrow> bytes \<Rightarrow> 'u \<times> 'd \<Rightarrow> int \<times> 'u \<times> 'd) \<Rightarrow> 'u \<times> 'd \<Rightarrow> (int \<times> 'u \<times> 'd) option" where
  "kumo_for_each op func s =
     (let (ok, d) = op_iter_init op (snd s)
      in if \<not> ok then Some (-1, fst s, d) else for_each_loop op func (fst s, d))"

section \<open>Storage\<close>

record 'd storage =
  m_data :: 'd
  m_garbage :: buffer_queue
  m_garbage_min_time :: u32
  m_garbage_max_time :: u32
  m_garbage_mem_limit :: u64

definition storage_open ::
    "'d kumo_storage_op \<Rightarrow> string \<Rightarrow> u32 \<Rightarrow> u32 \<Rightarrow> u64 \<Rightarrow> 'd storage result" where
  "storage_open op path gmin gmax glimit =
     (case op_create op of
        None \<Rightarrow> Inl (Storage_init_error ''failed to initialize storage module'')
      | Some d \<Rightarrow>
          (case op_open op d path of
             (False, d') \<Rightarrow> Inl (Storage_init_error (op_error op d'))
           | (True, d') \<Rightarrow> Inr \<lparr>m_data = d', m_garbage = buffer_queue_new, m_garbage_min_time = gmin,
                              m_garbage_max_time = gmax, m_garbage_mem_limit = glimit\<rparr>))"

definition storage_get :: "'d kumo_storage_op \<Rightarrow> 'd storage \<Rightarrow> bytes \<Rightarrow> bytes option" where
  "storage_get op st raw_key =
     (case op_get op (m_data st) raw_key of
        None \<Rightarrow> None
      | Some raw_val \<Rightarrow> if length raw_val < VALUE_META_SIZE then None else Some raw_val)"

definition cache_is_valid ::
    "platform \<Rightarrow> 'd kumo_storage_op \<Rightarrow> 'd storage \<Rightarrow> bytes \<Rightarrow> clocktime \<Rightarrow> bool" where
  "cache_is_valid p op st raw_key cache_clocktime =
     (let (n, meta_buf) = op_get_header op (m_data st) raw_key KEY_META_SIZE
      in if n < int KEY_META_SIZE then False else ct_le (clocktime_of p meta_buf) cache_clocktime)"

definition storage_set ::
    "'d kumo_storage_op \<Rightarrow> 'd storage \<Rightarrow> bytes \<Rightarrow> bytes \<Rightarrow> kerror option \<times> 'd storage" where
  "storage_set op st raw_key raw_val =
     (let (ok, d) = op_set op (m_data st) raw_key raw_val
      in (if ok then None else Some (Storage_error ''set failed''), st\<lparr>m_data := d\<rparr>))"

definition storage_updateproc_eq :: "platform \<Rightarrow> clocktime \<Rightarrow> bytes \<Rightarrow> bool" where
  "storage_updateproc_eq p update_clocktime oldval =
     (if length oldval < VALUE_CLOCKTIME_SIZE then True
      else ct_le (clocktime_of p oldval) update_clocktime)"

definition storage_updateproc :: "platform \<Rightarrow> clocktime \<Rightarrow> bytes \<Rightarrow> bool" where
  "storage_updateproc p update_clocktime oldval =
     (if length oldval < VALUE_CLOCKTIME_SIZE then True
      else ct_less (clocktime_of p oldval) update_clocktime)"

definition storage_update ::
    "platform \<Rightarrow> 'd kumo_storage_op \<Rightarrow> 'd storage \<Rightarrow> bytes \<Rightarrow> bytes \<Rightarrow> bool \<times> 'd storage" where
  "storage_update p op st raw_key raw_val =
     (let update_clocktime = clocktime_of p raw_val;
          (r, d) = op_update op (m_data st) raw_key raw_val (storage_updateproc p update_clocktime)
      in (r, st\<lparr>m_data := d\<rparr>))"

definition storage_casproc :: "platform \<Rightarrow> clocktime \<Rightarrow> bytes \<Rightarrow> bool" where
  "storage_casproc p compare oldval =
     (if length oldval < VALUE_CLOCKTIME_SIZE then False else compare = clocktime_of p oldval)"

definition storage_cas ::
    "platform \<Rightarrow> 'd kumo_storage_op \<Rightarrow> 'd storage \<Rightarrow> bytes \<Rightarrow> bytes \<Rightarrow> clocktime \<Rightarrow> bool \<times> 'd storage" where
  "storage_cas p op st raw_key raw_val compare =
     (let (r, d) = op_update op (m_data st) raw_key raw_val (storage_casproc p compare)
      in (r, st\<lparr>m_data := d\<rparr>))"

text \<open>\<open>scoped_clock_key\<close>: an entry of the garbage queue, the clocktime in host order before the key.\<close>

definition clock_key :: "platform \<Rightarrow> bytes \<Rightarrow> clocktime \<Rightarrow> bytes" where
  "clock_key p key ct = store_word (host_order p) 8 (ct_get ct) @ key"

definition wrap_key :: "bytes \<Rightarrow> bytes" where
  "wrap_key buf = drop 8 buf"

definition wrap_clocktime :: "platform \<Rightarrow> bytes \<Rightarrow> clocktime" where
  "wrap_clocktime p buf = ClockTime (load_word (host_order p) (take 8 buf))"

text \<open>One deletion of the collector: the record goes unless it is newer than the garbage entry.\<close>

definition gc_del :: "platform \<Rightarrow> 'd kumo_storage_op \<Rightarrow> bytes \<Rightarrow> 'd storage \<Rightarrow> 'd storage" where
  "gc_del p op data st =
     (let ct = wrap_clocktime p data
      in st\<lparr>m_data := snd (op_del op (m_data st) (wrap_key data) (storage_updateproc_eq p ct))\<rparr>)"

definition gc_pop :: "'d storage \<Rightarrow> 'd storage" where
  "gc_pop st = st\<lparr>m_garbage := bq_pop (m_garbage st)\<rparr>"

function gc_loop :: "platform \<Rightarrow> 'd kumo_storage_op \<Rightarrow> clocktime \<Rightarrow> 'd storage \<Rightarrow> 'd storage" where
  "gc_loop p op ct st =
     (case bq_front (m_garbage st) of
        None \<Rightarrow> st
      | Some data \<Rightarrow>
          if m_total_size (m_garbage st) > m_garbage_mem_limit st then
            gc_loop p op ct (gc_pop
              (if ct_less (wrap_clocktime p data) (before_sec ct (m_garbage_min_time st))
               then gc_del p op data st else st))
          else if ct_less (wrap_clocktime p data) (before_sec ct (m_garbage_max_time st)) then
            gc_loop p op ct (gc_pop (gc_del p op data st))
          else st)"
  by pat_completeness auto
termination
  by (relation "measure (\<lambda>(p, op, ct, st). length (m_queue (m_garbage st)))")
    (auto simp: gc_pop_def gc_del_def bq_pop_def bq_front_def Let_def split: list.splits)

declare gc_loop.simps [simp del]

definition storage_remove ::
    "platform \<Rightarrow> 'd kumo_storage_op \<Rightarrow> 'd storage \<Rightarrow> bytes \<Rightarrow> clocktime \<Rightarrow> bool \<times> 'd storage" where
  "storage_remove p op st raw_key update_clocktime =
     (let clockbuf = clocktime_to p update_clocktime (replicate 8 0);
          (removed, st1) = storage_update p op st raw_key clockbuf
      in if \<not> removed then (False, st1)
         else (True, gc_loop p op update_clocktime
                (st1\<lparr>m_garbage := bq_push (clock_key p raw_key update_clocktime) (m_garbage st1)\<rparr>)))"

text \<open>
  \<open>for_each_collect\<close>: values too short to hold a record are dropped when they are old
  (with a limit of zero they stay), all others go to the callback; an exception of the
  callback, \<open>False\<close> here, ends the iteration with \<open>-1\<close>.
\<close>

definition for_each_collect ::
    "platform \<Rightarrow> 'd kumo_storage_op \<Rightarrow> clocktime \<Rightarrow> (bytes \<Rightarrow> bytes \<Rightarrow> 'u \<times> 'd \<Rightarrow> bool \<times> 'u \<times> 'd) \<Rightarrow>
     bytes \<Rightarrow> bytes \<Rightarrow> 'u \<times> 'd \<Rightarrow> int \<times> 'u \<times> 'd" where
  "for_each_collect p op limit callback key val s =
     (if length val < VALUE_META_SIZE then
        (0, if ct_get limit \<noteq> 0 \<and>
               (length val < VALUE_CLOCKTIME_SIZE \<or> ct_less (clocktime_of p val) limit)
            then (fst s, snd (op_iterator_del op (snd s) key (storage_updateproc p limit)))
            else s)
      else let (ok, s') = callback key val s in (if ok then 0 else -1, s'))"

definition storage_for_each ::
    "platform \<Rightarrow> 'd kumo_storage_op \<Rightarrow> (bytes \<Rightarrow> bytes \<Rightarrow> 'u \<times> 'd \<Rightarrow> bool \<times> 'u \<times> 'd) \<Rightarrow> clocktime \<Rightarrow>
     'u \<times> 'd storage \<Rightarrow> (kerror option \<times> 'u \<times> 'd storage) option" where
  "storage_for_each p op callback ct s =
     do {
       (ret, u, d) \<leftarrow> kumo_for_each op
         (for_each_collect p op (before_sec ct (m_garbage_max_time (snd s))) callback)
         (fst s, m_data (snd s));
       Some (if ret < 0 then Some (Storage_error ''error while iterating database'') else None,
             u, (snd s)\<lparr>m_data := d\<rparr>)
     }"

definition storage_rnum :: "'d kumo_storage_op \<Rightarrow> 'd storage \<Rightarrow> u64" where
  "storage_rnum op st = op_rnum op (m_data st)"

definition storage_backup ::
    "'d kumo_storage_op \<Rightarrow> 'd storage \<Rightarrow> string \<Rightarrow> kerror option \<times> 'd storage" where
  "storage_backup op st dstpath =
     (let (ok, d) = op_backup op (m_data st) dstpath
      in (if ok then None else Some (Storage_backup_error (op_error op d)), st\<lparr>m_data := d\<rparr>))"

section \<open>The collector of garbage\<close>

text \<open>
  The collector changes a record only by deleting it, for an entry of the queue with that
  key that is old enough, and only if the record is not newer than the entry.
\<close>

definition gc_may_drop :: "platform \<Rightarrow> clocktime \<Rightarrow> 'd storage \<Rightarrow> bytes \<Rightarrow> bytes \<Rightarrow> bool" where
  "gc_may_drop p ct st k old \<longleftrightarrow>
     (\<exists>data \<in> set (m_queue (m_garbage st)). wrap_key data = k \<and>
        (ct_less (wrap_clocktime p data) (before_sec ct (m_garbage_min_time st)) \<or>
         ct_less (wrap_clocktime p data) (before_sec ct (m_garbage_max_time st))) \<and>
        (8 \<le> length old \<longrightarrow> ct_le (clocktime_of p old) (wrap_clocktime p data)))"

lemma gc_pop_frame [simp]:
  "m_data (gc_pop st) = m_data st" "m_garbage (gc_pop st) = bq_pop (m_garbage st)"
  "m_garbage_min_time (gc_pop st) = m_garbage_min_time st"
  "m_garbage_max_time (gc_pop st) = m_garbage_max_time st"
  "m_garbage_mem_limit (gc_pop st) = m_garbage_mem_limit st"
  by (simp_all add: gc_pop_def)

lemma gc_del_frame [simp]:
  "m_garbage (gc_del p op data st) = m_garbage st"
  "m_garbage_min_time (gc_del p op data st) = m_garbage_min_time st"
  "m_garbage_max_time (gc_del p op data st) = m_garbage_max_time st"
  "m_garbage_mem_limit (gc_del p op data st) = m_garbage_mem_limit st"
  by (simp_all add: gc_del_def Let_def)

lemma gc_may_drop_pop:
  "gc_may_drop p ct (gc_pop st) k old \<Longrightarrow> gc_may_drop p ct st k old"
  "gc_may_drop p ct (gc_pop (gc_del p op data st)) k old \<Longrightarrow> gc_may_drop p ct st k old"
  unfolding gc_may_drop_def by (auto simp: bq_pop_def split: list.splits)

lemma in_set_bq_pop: "x \<in> set (m_queue (bq_pop q)) \<Longrightarrow> x \<in> set (m_queue q)"
  by (auto simp: bq_pop_def split: list.splits)

definition gc_frame :: "'d storage \<Rightarrow> 'd storage \<Rightarrow> bool" where
  "gc_frame st s \<longleftrightarrow> set (m_queue (m_garbage s)) \<subseteq> set (m_queue (m_garbage st)) \<and>
     m_garbage_min_time s = m_garbage_min_time st \<and> m_garbage_max_time s = m_garbage_max_time st \<and>
     m_garbage_mem_limit s = m_garbage_mem_limit st"

lemma gc_loop_rule:
  assumes "P st"
    and "\<And>st data. P st \<Longrightarrow> bq_front (m_garbage st) = Some data \<Longrightarrow> P (gc_pop st)"
    and "\<And>st data. P st \<Longrightarrow> bq_front (m_garbage st) = Some data \<Longrightarrow>
      ct_less (wrap_clocktime p data) (before_sec ct (m_garbage_min_time st)) \<or>
      ct_less (wrap_clocktime p data) (before_sec ct (m_garbage_max_time st)) \<Longrightarrow>
      P (gc_pop (gc_del p op data st))"
  shows "P (gc_loop p op ct st)"
  using assms
proof (induction p op ct st rule: gc_loop.induct)
  case (1 p op ct st)
  show ?case
  proof (cases "bq_front (m_garbage st)")
    case None
    with 1(3) show ?thesis by (simp add: gc_loop.simps [of p op ct st])
  next
    case (Some data)
    note ih = 1(1,2) [OF Some]
    note P = 1(3) and steps = 1(4,5) [OF P Some]
    show ?thesis
      using ih P steps 1(4,5) by (subst gc_loop.simps) (simp add: Some)
  qed
qed

text \<open>
  The loop ends with an empty queue, or under the memory limit with a front entry that is
  younger than the maximal time.
\<close>

lemma gc_loop_done:
  "case bq_front (m_garbage (gc_loop p op ct st)) of None \<Rightarrow> True
   | Some data \<Rightarrow> m_total_size (m_garbage (gc_loop p op ct st)) \<le> m_garbage_mem_limit st \<and>
       \<not> ct_less (wrap_clocktime p data) (before_sec ct (m_garbage_max_time st))"
proof (induction p op ct st rule: gc_loop.induct)
  case (1 p op ct st)
  show ?case
    using 1 by (subst (1 2) gc_loop.simps) (auto simp: not_less split: option.splits)
qed

text \<open>Garbage that an iteration may delete.\<close>

definition expired :: "platform \<Rightarrow> clocktime \<Rightarrow> bytes \<Rightarrow> bool" where
  "expired p limit v \<longleftrightarrow> length v < 10 \<and> ct_get limit \<noteq> 0 \<and>
     (length v < 8 \<or> ct_less (clocktime_of p v) limit)"

section \<open>What the operations rely on\<close>

text \<open>
  The operations on single records. Some modules report an absent key to \<open>get_header\<close> with a
  negative number and some with zero.
\<close>

locale kumo_storage_kv =
  fixes op :: "'d kumo_storage_op"
    and abs :: "'d \<Rightarrow> bytes \<Rightarrow> bytes option"
  assumes get_law: "op_get op d k = abs d k"
    and get_header_law: "case abs d k of None \<Rightarrow> fst (op_get_header op d k n) \<le> 0
      | Some v \<Rightarrow> op_get_header op d k n = (int (min n (length v)), take n v)"
    and set_law: "op_set op d k v = (r, d') \<Longrightarrow> abs d' = (if r then (abs d)(k \<mapsto> v) else abs d)"
    and del_law: "op_del op d k proc = (r, d') \<Longrightarrow>
      abs d' = (if r then (abs d)(k := None) else abs d) \<and> (r \<longrightarrow> (\<exists>old. abs d k = Some old \<and> proc old))"
    and update_law: "op_update op d k v proc = (r, d') \<Longrightarrow>
      abs d' = (if r then (abs d)(k \<mapsto> v) else abs d) \<and> (r \<longrightarrow> (\<forall>old. abs d k = Some old \<longrightarrow> proc old))"
begin

lemma storage_get_abs:
  "storage_get op st k = (case abs (m_data st) k of None \<Rightarrow> None
     | Some v \<Rightarrow> if length v < 10 then None else Some v)"
  by (simp add: storage_get_def get_law cong: option.case_cong)

lemma cache_is_valid_abs:
  "cache_is_valid p op st k ct \<longleftrightarrow>
   (\<exists>v. abs (m_data st) k = Some v \<and> 8 \<le> length v \<and> ct_le (clocktime_of p v) ct)"
proof (cases "abs (m_data st) k")
  case None
  with get_header_law [of "m_data st" k 8] show ?thesis
    by (auto simp: cache_is_valid_def Let_def split: prod.splits)
next
  case (Some v)
  with get_header_law [of "m_data st" k 8] show ?thesis
    by (auto simp: cache_is_valid_def clocktime_of_def)
qed

lemma storage_set_abs:
  "storage_set op st k v = (e, st') \<Longrightarrow>
   abs (m_data st') = (if e = None then (abs (m_data st))(k \<mapsto> v) else abs (m_data st)) \<and>
   m_garbage st' = m_garbage st"
  by (auto simp: storage_set_def Let_def split: prod.splits if_splits dest!: set_law)

lemma storage_update_abs:
  "storage_update p op st k v = (r, st') \<Longrightarrow>
   abs (m_data st') = (if r then (abs (m_data st))(k \<mapsto> v) else abs (m_data st)) \<and>
   (r \<longrightarrow> (\<forall>old. abs (m_data st) k = Some old \<longrightarrow> 8 \<le> length old \<longrightarrow>
      ct_less (clocktime_of p old) (clocktime_of p v))) \<and>
   m_garbage st' = m_garbage st \<and> m_garbage_min_time st' = m_garbage_min_time st \<and>
   m_garbage_max_time st' = m_garbage_max_time st \<and> m_garbage_mem_limit st' = m_garbage_mem_limit st"
  by (auto simp: storage_update_def Let_def storage_updateproc_def split: prod.splits if_splits dest!: update_law)

lemma storage_cas_abs:
  "storage_cas p op st k v compare = (r, st') \<Longrightarrow>
   abs (m_data st') = (if r then (abs (m_data st))(k \<mapsto> v) else abs (m_data st)) \<and>
   (r \<longrightarrow> (\<forall>old. abs (m_data st) k = Some old \<longrightarrow> 8 \<le> length old \<and> clocktime_of p old = compare)) \<and>
   m_garbage st' = m_garbage st"
  by (auto simp: storage_cas_def Let_def storage_casproc_def split: prod.splits if_splits dest!: update_law)

lemma gc_del_abs:
  "abs (m_data (gc_del p op data st)) k = abs (m_data st) k \<or>
   (k = wrap_key data \<and> abs (m_data (gc_del p op data st)) k = None \<and>
    (\<exists>old. abs (m_data st) k = Some old \<and>
      (8 \<le> length old \<longrightarrow> ct_le (clocktime_of p old) (wrap_clocktime p data))))"
proof -
  obtain r d where rd: "op_del op (m_data st) (wrap_key data) (storage_updateproc_eq p (wrap_clocktime p data)) = (r, d)"
    by fastforce
  show ?thesis
    using del_law [OF rd] rd
    by (auto simp: gc_del_def Let_def storage_updateproc_eq_def split: if_splits)
qed

lemma gc_loop_abs:
  "abs (m_data (gc_loop p op ct st)) k = abs (m_data st) k \<or>
   (abs (m_data (gc_loop p op ct st)) k = None \<and>
    (\<exists>old. abs (m_data st) k = Some old \<and> gc_may_drop p ct st k old))"
proof -
  let ?P = "\<lambda>s. gc_frame st s \<and> (abs (m_data s) k = abs (m_data st) k \<or>
    (abs (m_data s) k = None \<and> (\<exists>old. abs (m_data st) k = Some old \<and> gc_may_drop p ct st k old)))"
  have "?P (gc_loop p op ct st)"
  proof (rule gc_loop_rule)
    fix s data
    assume P: "?P s" and front: "bq_front (m_garbage s) = Some data"
      and old: "ct_less (wrap_clocktime p data) (before_sec ct (m_garbage_min_time s)) \<or>
        ct_less (wrap_clocktime p data) (before_sec ct (m_garbage_max_time s))"
    have "data \<in> set (m_queue (m_garbage st))"
      using P front by (auto simp: gc_frame_def bq_front_def split: list.splits)
    with P old gc_del_abs [of p data s k] show "?P (gc_pop (gc_del p op data s))"
      by (auto simp: gc_frame_def gc_may_drop_def dest: in_set_bq_pop)
  qed (auto simp: gc_frame_def dest: in_set_bq_pop)
  then show ?thesis by blast
qed

end

text \<open>With the iteration: the keys still to come, which deletions of other keys leave alone.\<close>

locale kumo_storage = kumo_storage_kv op abs for op :: "'d kumo_storage_op" and abs :: "'d \<Rightarrow> bytes \<Rightarrow> bytes option" +
  fixes pending :: "'d \<Rightarrow> bytes list"
  assumes iter_init_law: "op_iter_init op d = (r, d') \<Longrightarrow>
      abs d' = abs d \<and> (r \<longrightarrow> distinct (pending d') \<and> set (pending d') = dom (abs d))"
    and iter_end_law: "pending d = [] \<Longrightarrow> \<exists>d'. op_iter_next op d = (None, d') \<and> abs d' = abs d"
    and iter_next_law: "pending d = k # ks \<Longrightarrow> abs d k = Some v \<Longrightarrow>
      \<exists>d'. op_iter_next op d = (Some (k, v), d') \<and> abs d' = abs d \<and> pending d' = ks"
    and iterator_del_law: "op_iterator_del op d k proc = (r, d') \<Longrightarrow> k \<notin> set (pending d) \<Longrightarrow>
      pending d' = pending d \<and> abs d' = (if r then (abs d)(k := None) else abs d) \<and>
      (r \<longrightarrow> (\<exists>old. abs d k = Some old \<and> proc old))"
    and iterator_del_force_law: "op_iterator_del_force op d k = (r, d') \<Longrightarrow> k \<notin> set (pending d) \<Longrightarrow>
      pending d' = pending d \<and> abs d' = (if r then (abs d)(k := None) else abs d)"
begin

lemma for_each_loop_rule:
  assumes step: "\<And>vis k v u d ret u' d'. I vis u (abs d) \<Longrightarrow> abs d k = Some v \<Longrightarrow> k \<notin> set (pending d) \<Longrightarrow>
      k \<notin> set vis \<Longrightarrow> func k v (u, d) = (ret, u', d') \<Longrightarrow>
      pending d' = pending d \<and> (\<forall>k' \<in> set (pending d). abs d' k' = abs d k') \<and>
      (if ret < 0 then E u' (abs d') else I (vis @ [k]) u' (abs d'))"
    and "I vis u (abs d)" and "distinct (vis @ pending d)" and "set (pending d) \<subseteq> dom (abs d)"
  shows "\<exists>ret u' d'. for_each_loop op func (u, d) = Some (ret, u', d') \<and>
    (if ret < 0 then E u' (abs d') else I (vis @ pending d) u' (abs d'))"
  using assms(2-)
proof (induction "pending d" arbitrary: vis u d)
  case Nil
  then obtain d' where "op_iter_next op d = (None, d')" "abs d' = abs d"
    using iter_end_law [of d] by auto
  with Nil show ?case by (simp add: for_each_loop.simps)
next
  case (Cons k ks)
  have "k \<in> dom (abs d)" using Cons.prems(3) Cons.hyps(2) [symmetric] by auto
  then obtain v where v: "abs d k = Some v" by blast
  obtain d1 where d1: "op_iter_next op d = (Some (k, v), d1)" "abs d1 = abs d" "pending d1 = ks"
    using iter_next_law [OF Cons.hyps(2) [symmetric] v] by blast
  obtain ret u' d' where f: "func k v (u, d1) = (ret, u', d')" by (metis prod_cases3)
  have kd: "k \<notin> set (pending d1)" "k \<notin> set vis" "pending d = k # ks"
    using Cons.prems(2) Cons.hyps(2) [symmetric] d1(3) by auto
  have I1: "I vis u (abs d1)" and v1: "abs d1 k = Some v"
    using Cons.prems(1) v by (simp_all add: d1(2))
  note st = step [OF I1 v1 kd(1,2) f, unfolded d1(2,3)]
  show ?case
  proof (cases "ret < 0")
    case True
    with st d1 f show ?thesis by (subst for_each_loop.simps) simp
  next
    case False
    have "set ks \<subseteq> dom (abs d')"
      using st Cons.prems(3) unfolding kd(3) by (auto simp: domIff)
    moreover have "distinct ((vis @ [k]) @ pending d')" "I (vis @ [k]) u' (abs d')"
      using Cons.prems(2) st False unfolding kd(3) by auto
    ultimately obtain ret2 u2 d2 where "for_each_loop op func (u', d') = Some (ret2, u2, d2)"
      "if ret2 < 0 then E u2 (abs d2) else I ((vis @ [k]) @ ks) u2 (abs d2)"
      using Cons.hyps(1) [of d' "vis @ [k]" u'] st by auto
    with False d1 f kd(3) show ?thesis
      by (subst for_each_loop.simps) (auto split: if_splits)
  qed
qed

lemma for_each_rule:
  assumes step: "\<And>vis k v u d ret u' d'. I vis u (abs d) \<Longrightarrow> abs d k = Some v \<Longrightarrow> k \<notin> set (pending d) \<Longrightarrow>
      k \<notin> set vis \<Longrightarrow> func k v (u, d) = (ret, u', d') \<Longrightarrow>
      pending d' = pending d \<and> (\<forall>k' \<in> set (pending d). abs d' k' = abs d k') \<and>
      (if ret < 0 then E u' (abs d') else I (vis @ [k]) u' (abs d'))"
    and "I [] u (abs d)" and "E u (abs d)"
  shows "\<exists>ret u' d'. kumo_for_each op func (u, d) = Some (ret, u', d') \<and>
    (if ret < 0 then E u' (abs d') else \<exists>ks. distinct ks \<and> set ks = dom (abs d) \<and> I ks u' (abs d'))"
proof -
  obtain ok d1 where init: "op_iter_init op d = (ok, d1)" by fastforce
  note law = iter_init_law [OF init]
  show ?thesis
  proof (cases ok)
    case False
    with init law assms(3) show ?thesis by (simp add: kumo_for_each_def)
  next
    case True
    with law have p: "distinct (pending d1)" "set (pending d1) = dom (abs d)" "abs d1 = abs d" by simp_all
    then have "\<exists>ret u' d'. for_each_loop op func (u, d1) = Some (ret, u', d') \<and>
      (if ret < 0 then E u' (abs d') else I ([] @ pending d1) u' (abs d'))"
      by (intro for_each_loop_rule [where I = I and E = E], intro step) (use assms(2) in auto)
    with True init p show ?thesis by (auto simp: kumo_for_each_def split: if_splits)
  qed
qed

text \<open>
  Iterating with a callback that reads: it runs once on every record long enough to be a
  value, and the iteration itself deletes nothing but expired garbage.
\<close>

lemma for_each_visits:
  fixes g :: "bytes \<Rightarrow> bytes \<Rightarrow> 'u \<Rightarrow> 'u" and ct :: clocktime and st :: "'d storage"
  defines "limit \<equiv> before_sec ct (m_garbage_max_time st)"
  shows "\<exists>e u' st'. storage_for_each p op (\<lambda>k v (u, d). (True, g k v u, d)) ct (u, st) = Some (e, u', st') \<and>
    (\<forall>k. abs (m_data st') k = abs (m_data st) k \<or>
       (abs (m_data st') k = None \<and> (\<exists>v. abs (m_data st) k = Some v \<and> expired p limit v))) \<and>
    (e = None \<longrightarrow> (\<exists>ks. distinct ks \<and> set ks = dom (abs (m_data st)) \<and>
       u' = fold (\<lambda>k u. let v = the (abs (m_data st) k) in if length v < 10 then u else g k v u) ks u)) \<and>
    (e \<noteq> None \<longrightarrow> e = Some (Storage_error ''error while iterating database''))"
proof -
  let ?m = "abs (m_data st)"
  let ?h = "\<lambda>k u. let v = the (?m k) in if length v < 10 then u else g k v u"
  let ?K = "\<lambda>vis m. \<forall>k. m k = ?m k \<or> (k \<in> vis \<and> m k = None \<and> (\<exists>v. ?m k = Some v \<and> expired p limit v))"
  let ?I = "\<lambda>vis u' m. ?K (set vis) m \<and> u' = fold ?h vis u"
  let ?func = "for_each_collect p op limit (\<lambda>k v (u, d). (True, g k v u, d))"
  have step: "pending d' = pending d \<and> (\<forall>k' \<in> set (pending d). abs d' k' = abs d k') \<and>
      (if ret < 0 then ?K UNIV (abs d') else ?I (vis @ [k]) u' (abs d'))"
    if I: "?I vis u0 (abs d)" and v: "abs d k = Some v" and k: "k \<notin> set (pending d)" "k \<notin> set vis"
      and f: "?func k v (u0, d) = (ret, u', d')" for vis k v u0 d ret u' d'
  proof -
    have mk: "?m k = Some v" using I v k by (metis option.simps(3))
    obtain r d2 where del: "op_iterator_del op d k (storage_updateproc p limit) = (r, d2)" by fastforce
    show ?thesis
      using I v k f mk del iterator_del_law [OF del k(1)]
      by (auto simp: for_each_collect_def expired_def split: if_splits)
  qed
  have "\<exists>ret u' d'. kumo_for_each op ?func (u, m_data st) = Some (ret, u', d') \<and>
    (if ret < 0 then ?K UNIV (abs d') else \<exists>ks. distinct ks \<and> set ks = dom ?m \<and> ?I ks u' (abs d'))"
    by (rule for_each_rule [where I = ?I and E = "\<lambda>u m. ?K UNIV m"], rule step) auto
  then show ?thesis
    by (auto simp: storage_for_each_def limit_def split: if_splits)
qed

end

text \<open>Values whose stamps the order of clocktimes compares as a linear order.\<close>

definition lww_linear :: "platform \<Rightarrow> bytes set \<Rightarrow> bool" where
  "lww_linear p V \<longleftrightarrow> (\<forall>v \<in> V. 8 \<le> length v) \<and>
     (\<forall>v \<in> V. \<forall>w \<in> V. v \<noteq> w \<longrightarrow> ct_less (clocktime_of p v) (clocktime_of p w) \<or>
        ct_less (clocktime_of p w) (clocktime_of p v)) \<and>
     (\<forall>u \<in> V. \<forall>v \<in> V. \<forall>w \<in> V. ct_less (clocktime_of p u) (clocktime_of p v) \<longrightarrow>
        ct_less (clocktime_of p v) (clocktime_of p w) \<longrightarrow> ct_less (clocktime_of p u) (clocktime_of p w))"

lemma lww_linear_mono: "lww_linear p V \<Longrightarrow> W \<subseteq> V \<Longrightarrow> lww_linear p W"
  unfolding lww_linear_def by (meson subsetD)

lemma ct_less_irrefl: "\<not> ct_less c c"
  using ct_less_asym by blast

locale kumo_storage_kv_io = kumo_storage_kv +
  assumes set_ok: "fst (op_set op d k v)"
    and del_ok: "abs d k = Some old \<Longrightarrow> proc old \<Longrightarrow> fst (op_del op d k proc)"
    and update_ok: "(\<And>old. abs d k = Some old \<Longrightarrow> proc old) \<Longrightarrow> fst (op_update op d k v proc)"
begin

lemma update_result:
  "fst (storage_update p op st k v) \<longleftrightarrow>
   (\<forall>old. abs (m_data st) k = Some old \<longrightarrow> 8 \<le> length old \<longrightarrow> ct_less (clocktime_of p old) (clocktime_of p v))"
  (is "?l \<longleftrightarrow> ?r")
proof
  assume ?l
  then show ?r using storage_update_abs [of p st k v True] by (metis prod.collapse)
next
  assume ?r
  then have "fst (op_update op (m_data st) k v (storage_updateproc p (clocktime_of p v)))"
    by (intro update_ok) (auto simp: storage_updateproc_def)
  then show ?l by (simp add: storage_update_def Let_def case_prod_beta)
qed

lemma update_abs:
  "abs (m_data (snd (storage_update p op st k v))) =
   (if \<forall>old. abs (m_data st) k = Some old \<longrightarrow> 8 \<le> length old \<longrightarrow> ct_less (clocktime_of p old) (clocktime_of p v)
    then (abs (m_data st))(k \<mapsto> v) else abs (m_data st))"
  using storage_update_abs [of p st k v "fst (storage_update p op st k v)"] update_result [of p st k v]
  by (metis prod.collapse)

lemma cas_result:
  "fst (storage_cas p op st k v c) \<longleftrightarrow>
   (\<forall>old. abs (m_data st) k = Some old \<longrightarrow> 8 \<le> length old \<and> clocktime_of p old = c)"
  (is "?l \<longleftrightarrow> ?r")
proof
  assume ?l
  then show ?r using storage_cas_abs [of p st k v c True] by (metis prod.collapse)
next
  assume ?r
  then have "fst (op_update op (m_data st) k v (storage_casproc p c))"
    by (intro update_ok) (auto simp: storage_casproc_def)
  then show ?l by (simp add: storage_cas_def Let_def case_prod_beta)
qed

lemma cas_abs:
  "abs (m_data (snd (storage_cas p op st k v c))) =
   (if \<forall>old. abs (m_data st) k = Some old \<longrightarrow> 8 \<le> length old \<and> clocktime_of p old = c
    then (abs (m_data st))(k \<mapsto> v) else abs (m_data st))"
  using storage_cas_abs [of p st k v c "fst (storage_cas p op st k v c)"] cas_result [of p st k v c]
  by (metis prod.collapse)

lemma update_fold_wins:
  fixes k :: bytes
  defines "C msgs st \<equiv> {v. (k, v) \<in> set msgs} \<union> set_option (abs (m_data st) k)"
  assumes "lww_linear p (C msgs st)"
  shows "case abs (m_data (fold (\<lambda>(k, v) st. snd (storage_update p op st k v)) msgs st)) k of
      None \<Rightarrow> C msgs st = {}
    | Some w \<Rightarrow> w \<in> C msgs st \<and> (\<forall>v \<in> C msgs st. \<not> ct_less (clocktime_of p w) (clocktime_of p v))"
  using assms(2)
proof (induction msgs rule: rev_induct)
  case Nil
  then show ?case by (auto simp: C_def ct_less_irrefl split: option.splits)
next
  case (snoc m msgs)
  obtain k' v where m: "m = (k', v)" by fastforce
  let ?s = "fold (\<lambda>(k, v) st. snd (storage_update p op st k v)) msgs st"
  have C: "C (msgs @ [m]) st = (if k' = k then insert v (C msgs st) else C msgs st)"
    by (auto simp: C_def m)
  have sub: "C msgs st \<subseteq> C (msgs @ [m]) st" by (auto simp: C)
  have lin: "lww_linear p (C msgs st)"
    using snoc.prems sub by (rule lww_linear_mono)
  note ih = snoc.IH [OF lin]
  show ?case
  proof (cases "k' = k")
    case False
    with ih C show ?thesis by (auto simp: m update_abs split: option.splits)
  next
    case True
    note C' = C [unfolded if_P [OF True]]
    show ?thesis
    proof (cases "abs (m_data ?s) k")
      case None
      with ih True C' show ?thesis by (simp add: m update_abs ct_less_irrefl)
    next
      case (Some w)
      with ih have w: "w \<in> C msgs st" "\<forall>u \<in> C msgs st. \<not> ct_less (clocktime_of p w) (clocktime_of p u)"
        by simp_all
      have len: "8 \<le> length w" using lin w(1) by (simp add: lww_linear_def)
      have "\<not> ct_less (clocktime_of p v) (clocktime_of p u)"
        if "u \<in> C msgs st" and "ct_less (clocktime_of p w) (clocktime_of p v)" for u
        using snoc.prems w that unfolding C' lww_linear_def by (meson insertCI)
      with Some True w len C' show ?thesis
        by (auto simp: m update_abs ct_less_irrefl)
    qed
  qed
qed

end

locale kumo_storage_io = kumo_storage op abs pending + kumo_storage_kv_io op abs
  for op :: "'d kumo_storage_op" and abs :: "'d \<Rightarrow> bytes \<Rightarrow> bytes option" and pending :: "'d \<Rightarrow> bytes list" +
  assumes iter_init_ok: "fst (op_iter_init op d)"

end
