(* ===== verification/Tchdb.thy ===== *)
theory Tchdb
  imports Storage
begin

text \<open>
  The storage module on Tokyo Cabinet's hash database (\<open>storage/tchdb.cc\<close>). The
  database library is a parameter: a table of its functions and the locale
  \<open>tokyo_cabinet\<close> of what its manual promises. The module's table of operations keeps the
  contract \<open>kumo_storage\<close> of the storage layer.
\<close>

section \<open>The library\<close>

text \<open>What the callback of \<open>tchdbputproc\<close> answers: keep the record, remove it, or store a new value.\<close>

datatype proc_result = Proc_keep | Proc_remove | Proc_put bytes

text \<open>
  The functions of the library the module calls; \<open>tcatoix\<close> is the number parser of its
  utilities, and \<open>path_fsync\<close> and \<open>path_rename\<close> are the two calls of the operating
  system that finish a backup.
\<close>

record 'h tchdb_api =
  tchdbnew :: "'h option"
  tchdbsetmutex :: "'h \<Rightarrow> bool \<times> 'h"
  tchdbsetcache :: "'h \<Rightarrow> int \<Rightarrow> bool \<times> 'h"
  tchdbsetxmsiz :: "'h \<Rightarrow> int \<Rightarrow> bool \<times> 'h"
  tchdbopen :: "'h \<Rightarrow> string \<Rightarrow> bool \<times> 'h"
  tchdbget :: "'h \<Rightarrow> bytes \<Rightarrow> bytes option"
  tchdbget3 :: "'h \<Rightarrow> bytes \<Rightarrow> nat \<Rightarrow> int \<times> bytes"
  tchdbput :: "'h \<Rightarrow> bytes \<Rightarrow> bytes \<Rightarrow> bool \<times> 'h"
  tchdbputproc :: "'h \<Rightarrow> bytes \<Rightarrow> bytes option \<Rightarrow> (bytes \<Rightarrow> proc_result) \<Rightarrow> bool \<times> 'h"
  tchdbout :: "'h \<Rightarrow> bytes \<Rightarrow> bool \<times> 'h"
  tchdbrnum :: "'h \<Rightarrow> u64"
  tchdbcopy :: "'h \<Rightarrow> string \<Rightarrow> bool \<times> 'h"
  tchdbiterinit :: "'h \<Rightarrow> bool \<times> 'h"
  tchdbiternext3 :: "'h \<Rightarrow> (bytes \<times> bytes) option \<times> 'h"
  tchdberrmsg :: "'h \<Rightarrow> string"
  tcatoix :: "string \<Rightarrow> int"
  path_fsync :: "string \<Rightarrow> bool"
  path_rename :: "string \<Rightarrow> string \<Rightarrow> bool"

section \<open>Opening\<close>

text \<open>\<open>strrchr\<close> and \<open>strchr\<close> as splits of the string around the last and the first occurrence.\<close>

definition split_last :: "char \<Rightarrow> string \<Rightarrow> (string \<times> string) option" where
  "split_last c s =
     (if c \<in> set s
      then Some (rev (tl (dropWhile (\<lambda>x. x \<noteq> c) (rev s))), rev (takeWhile (\<lambda>x. x \<noteq> c) (rev s)))
      else None)"

definition split_first :: "char \<Rightarrow> string \<Rightarrow> (string \<times> string) option" where
  "split_first c s =
     (if c \<in> set s then Some (takeWhile (\<lambda>x. x \<noteq> c) s, tl (dropWhile (\<lambda>x. x \<noteq> c) s)) else None)"

record tchdb_params =
  rcnum :: "int option"
  xmsiz :: "int option"

lemma split_last_shorter: "split_last c s = Some (a, b) \<Longrightarrow> length a < length s"
proof -
  assume s: "split_last c s = Some (a, b)"
  then have "c \<in> set (rev s)" by (auto simp: split_last_def split: if_splits)
  then obtain y ys where y: "dropWhile (\<lambda>x. x \<noteq> c) (rev s) = y # ys"
    by (cases "dropWhile (\<lambda>x. x \<noteq> c) (rev s)") (auto simp: dropWhile_eq_Nil_conv)
  then have "length ys < length s"
    using length_dropWhile_le [of "\<lambda>x. x \<noteq> c" "rev s"] by simp
  moreover have "a = rev ys" using s y by (auto simp: split_last_def split: if_splits)
  ultimately show ?thesis by simp
qed

text \<open>
  The path carries its parameters after \<open>#\<close> signs, the last one first; one without \<open>=\<close>
  makes the whole path invalid, one with an unknown name is dropped. \<open>rcnum\<close> is an
  \<open>int32_t\<close> and takes the low 32 bits.
\<close>

function parse_param :: "(string \<Rightarrow> int) \<Rightarrow> string \<Rightarrow> tchdb_params \<Rightarrow> (string \<times> tchdb_params) option" where
  "parse_param atoix str ps =
     (case split_last (CHR ''#'') str of
        None \<Rightarrow> Some (str, ps)
      | Some (str', param) \<Rightarrow>
          (case split_first (CHR ''='') param of
             None \<Rightarrow> None
           | Some (key, val) \<Rightarrow>
               parse_param atoix str'
                 (if key = ''rcnum'' then ps\<lparr>rcnum := Some (signed_take_bit 31 (atoix val))\<rparr>
                  else if key = ''xmsiz'' then ps\<lparr>xmsiz := Some (atoix val)\<rparr>
                  else ps)))"
  by pat_completeness auto
termination
  by (relation "measure (\<lambda>(atoix, str, ps). length str)") (auto dest: split_last_shorter)

declare parse_param.simps [simp del]

definition kumo_tchdb_create :: "'h tchdb_api \<Rightarrow> 'h option" where
  "kumo_tchdb_create api =
     (case tchdbnew api of None \<Rightarrow> None
      | Some h \<Rightarrow> (let (ok, h') = tchdbsetmutex api h in if ok then Some h' else None))"

definition kumo_tchdb_open :: "'h tchdb_api \<Rightarrow> 'h \<Rightarrow> string \<Rightarrow> bool \<times> 'h" where
  "kumo_tchdb_open api h path =
     (case parse_param (tcatoix api) path \<lparr>rcnum = None, xmsiz = None\<rparr> of
        None \<Rightarrow> (False, h)
      | Some (path', ps) \<Rightarrow>
          (let (ok1, h1) = (case rcnum ps of None \<Rightarrow> (True, h) | Some n \<Rightarrow> tchdbsetcache api h n)
           in if \<not> ok1 then (False, h1)
              else let (ok2, h2) = (case xmsiz ps of None \<Rightarrow> (True, h1) | Some n \<Rightarrow> tchdbsetxmsiz api h1 n)
                   in if \<not> ok2 then (False, h2) else tchdbopen api h2 path'))"

section \<open>Records\<close>

definition kumo_tchdb_get :: "'h tchdb_api \<Rightarrow> 'h \<Rightarrow> bytes \<Rightarrow> bytes option" where
  "kumo_tchdb_get api h key = tchdbget api h key"

definition kumo_tchdb_get_header :: "'h tchdb_api \<Rightarrow> 'h \<Rightarrow> bytes \<Rightarrow> nat \<Rightarrow> int \<times> bytes" where
  "kumo_tchdb_get_header api h key vallen = tchdbget3 api h key vallen"

definition kumo_tchdb_set :: "'h tchdb_api \<Rightarrow> 'h \<Rightarrow> bytes \<Rightarrow> bytes \<Rightarrow> bool \<times> 'h" where
  "kumo_tchdb_set api h key val = tchdbput api h key val"

definition kumo_tchdb_del_proc :: "(bytes \<Rightarrow> bool) \<Rightarrow> bytes \<Rightarrow> proc_result" where
  "kumo_tchdb_del_proc proc vbuf = (if proc vbuf then Proc_remove else Proc_keep)"

text \<open>\<open>delctx.deleted\<close> starts as true and the callback only ever sets it to true.\<close>

definition kumo_tchdb_del :: "'h tchdb_api \<Rightarrow> 'h \<Rightarrow> bytes \<Rightarrow> (bytes \<Rightarrow> bool) \<Rightarrow> bool \<times> 'h" where
  "kumo_tchdb_del api h key proc =
     (let deleted = True;
          (ret, h') = tchdbputproc api h key None (kumo_tchdb_del_proc proc)
      in if \<not> ret then (False, h') else (deleted, h'))"

definition kumo_tchdb_update_proc :: "bytes \<Rightarrow> (bytes \<Rightarrow> bool) \<Rightarrow> bytes \<Rightarrow> proc_result" where
  "kumo_tchdb_update_proc val proc vbuf = (if proc vbuf then Proc_put val else Proc_keep)"

definition kumo_tchdb_update :: "'h tchdb_api \<Rightarrow> 'h \<Rightarrow> bytes \<Rightarrow> bytes \<Rightarrow> (bytes \<Rightarrow> bool) \<Rightarrow> bool \<times> 'h" where
  "kumo_tchdb_update api h key val proc =
     tchdbputproc api h key (Some val) (kumo_tchdb_update_proc val proc)"

definition sync_rename :: "'h tchdb_api \<Rightarrow> string \<Rightarrow> string \<Rightarrow> bool" where
  "sync_rename api src dst = (if \<not> path_fsync api src then False else path_rename api src dst)"

definition kumo_tchdb_backup :: "'h tchdb_api \<Rightarrow> 'h \<Rightarrow> string \<Rightarrow> bool \<times> 'h" where
  "kumo_tchdb_backup api h dstpath =
     (let tmppath = dstpath @ ''.tmp''; (ok, h') = tchdbcopy api h tmppath
      in if \<not> ok then (False, h') else (sync_rename api tmppath dstpath, h'))"

definition kumo_tchdb_iterator_del :: "'h tchdb_api \<Rightarrow> 'h \<Rightarrow> bytes \<Rightarrow> (bytes \<Rightarrow> bool) \<Rightarrow> bool \<times> 'h" where
  "kumo_tchdb_iterator_del api h key proc = kumo_tchdb_del api h key proc"

definition kumo_tchdb_iterator_del_force :: "'h tchdb_api \<Rightarrow> 'h \<Rightarrow> bytes \<Rightarrow> bool \<times> 'h" where
  "kumo_tchdb_iterator_del_force api h key = tchdbout api h key"

definition kumo_tchdb_op :: "'h tchdb_api \<Rightarrow> 'h kumo_storage_op" where
  "kumo_tchdb_op api =
     \<lparr>op_create = kumo_tchdb_create api,
      op_open = kumo_tchdb_open api,
      op_get = kumo_tchdb_get api,
      op_get_header = kumo_tchdb_get_header api,
      op_set = kumo_tchdb_set api,
      op_del = kumo_tchdb_del api,
      op_update = kumo_tchdb_update api,
      op_rnum = tchdbrnum api,
      op_backup = kumo_tchdb_backup api,
      op_error = tchdberrmsg api,
      op_iter_init = tchdbiterinit api,
      op_iter_next = tchdbiternext3 api,
      op_iterator_del = kumo_tchdb_iterator_del api,
      op_iterator_del_force = kumo_tchdb_iterator_del_force api\<rparr>"

section \<open>What the manual promises\<close>

text \<open>
  A record is added by \<open>tchdbputproc\<close> when there is none and a value is given; otherwise
  the callback decides. The function reports true when the database changed. During an
  iteration, records already fetched may be updated or removed.
\<close>

definition putproc_effect ::
    "(bytes \<Rightarrow> bytes option) \<Rightarrow> bytes \<Rightarrow> bytes option \<Rightarrow> (bytes \<Rightarrow> proc_result) \<Rightarrow> (bytes \<Rightarrow> bytes option) option" where
  "putproc_effect m k vbuf proc =
     (case m k of
        None \<Rightarrow> (case vbuf of None \<Rightarrow> None | Some v \<Rightarrow> Some (m(k \<mapsto> v)))
      | Some old \<Rightarrow> (case proc old of Proc_keep \<Rightarrow> None
          | Proc_remove \<Rightarrow> Some (m(k := None)) | Proc_put v \<Rightarrow> Some (m(k \<mapsto> v))))"

locale tokyo_cabinet =
  fixes api :: "'h tchdb_api"
    and recs :: "'h \<Rightarrow> bytes \<Rightarrow> bytes option"
    and todo :: "'h \<Rightarrow> bytes list"
  assumes tchdbget_doc: "tchdbget api h k = recs h k"
    and tchdbget3_doc: "case recs h k of None \<Rightarrow> fst (tchdbget3 api h k n) < 0
      | Some v \<Rightarrow> tchdbget3 api h k n = (int (min n (length v)), take n v)"
    and tchdbput_doc: "tchdbput api h k v = (r, h') \<Longrightarrow> recs h' = (if r then (recs h)(k \<mapsto> v) else recs h)"
    and tchdbputproc_doc: "tchdbputproc api h k vbuf proc = (r, h') \<Longrightarrow>
      (if r then putproc_effect (recs h) k vbuf proc = Some (recs h') else recs h' = recs h) \<and>
      (k \<notin> set (todo h) \<longrightarrow> todo h' = todo h)"
    and tchdbout_doc: "tchdbout api h k = (r, h') \<Longrightarrow>
      recs h' = (if r then (recs h)(k := None) else recs h) \<and> (k \<notin> set (todo h) \<longrightarrow> todo h' = todo h)"
    and tchdbiterinit_doc: "tchdbiterinit api h = (r, h') \<Longrightarrow>
      recs h' = recs h \<and> (r \<longrightarrow> distinct (todo h') \<and> set (todo h') = dom (recs h))"
    and tchdbiternext3_end_doc: "todo h = [] \<Longrightarrow> \<exists>h'. tchdbiternext3 api h = (None, h') \<and> recs h' = recs h"
    and tchdbiternext3_doc: "todo h = k # ks \<Longrightarrow> recs h k = Some v \<Longrightarrow>
      \<exists>h'. tchdbiternext3 api h = (Some (k, v), h') \<and> recs h' = recs h \<and> todo h' = ks"

locale tokyo_cabinet_io = tokyo_cabinet +
  assumes tchdbput_io: "fst (tchdbput api h k v)"
    and tchdbputproc_io: "putproc_effect (recs h) k vbuf proc \<noteq> None \<Longrightarrow> fst (tchdbputproc api h k vbuf proc)"
    and tchdbiterinit_io: "fst (tchdbiterinit api h)"

lemmas tchdb_defs = kumo_tchdb_op_def kumo_tchdb_get_def kumo_tchdb_get_header_def kumo_tchdb_set_def
  kumo_tchdb_del_def kumo_tchdb_update_def kumo_tchdb_iterator_del_def kumo_tchdb_iterator_del_force_def

sublocale tokyo_cabinet \<subseteq> tc: kumo_storage "kumo_tchdb_op api" recs todo
proof
  have del: "(if r then recs d' = (recs d)(k := None) else recs d' = recs d) \<and>
      (k \<notin> set (todo d) \<longrightarrow> todo d' = todo d) \<and> (r \<longrightarrow> (\<exists>old. recs d k = Some old \<and> proc old))"
    if "kumo_tchdb_del api d k proc = (r, d')" for d d' k proc r
    using that tchdbputproc_doc [of d k None "kumo_tchdb_del_proc proc"]
    by (fastforce simp: kumo_tchdb_del_def kumo_tchdb_del_proc_def putproc_effect_def Let_def
        split: prod.splits if_splits option.splits)
  fix d d' k v proc r
  show "op_del (kumo_tchdb_op api) d k proc = (r, d') \<Longrightarrow>
      recs d' = (if r then (recs d)(k := None) else recs d) \<and> (r \<longrightarrow> (\<exists>old. recs d k = Some old \<and> proc old))"
    using del [of d k proc r d'] by (auto simp: kumo_tchdb_op_def)
  show "op_iterator_del (kumo_tchdb_op api) d k proc = (r, d') \<Longrightarrow> k \<notin> set (todo d) \<Longrightarrow>
      todo d' = todo d \<and> recs d' = (if r then (recs d)(k := None) else recs d) \<and>
      (r \<longrightarrow> (\<exists>old. recs d k = Some old \<and> proc old))"
    using del [of d k proc r d'] by (auto simp: kumo_tchdb_op_def kumo_tchdb_iterator_del_def)
  show "op_update (kumo_tchdb_op api) d k v proc = (r, d') \<Longrightarrow>
      recs d' = (if r then (recs d)(k \<mapsto> v) else recs d) \<and> (r \<longrightarrow> (\<forall>old. recs d k = Some old \<longrightarrow> proc old))"
    using tchdbputproc_doc [of d k "Some v" "kumo_tchdb_update_proc v proc" r d']
    by (fastforce simp: kumo_tchdb_op_def kumo_tchdb_update_def kumo_tchdb_update_proc_def putproc_effect_def
        split: if_splits option.splits)
  show "case recs d k of None \<Rightarrow> fst (op_get_header (kumo_tchdb_op api) d k n) \<le> 0
      | Some v \<Rightarrow> op_get_header (kumo_tchdb_op api) d k n = (int (min n (length v)), take n v)" for n
    using tchdbget3_doc [of d k n] by (simp add: tchdb_defs split: option.splits)
qed (use tchdbget_doc tchdbput_doc tchdbout_doc tchdbiterinit_doc tchdbiternext3_end_doc
    tchdbiternext3_doc in \<open>simp_all add: tchdb_defs\<close>)

sublocale tokyo_cabinet_io \<subseteq> tc_io: kumo_storage_io "kumo_tchdb_op api" recs todo
proof
  fix d k v old proc
  show "recs d k = Some old \<Longrightarrow> proc old \<Longrightarrow> fst (op_del (kumo_tchdb_op api) d k proc)"
    using tchdbputproc_io [of d k None "kumo_tchdb_del_proc proc"]
    by (simp add: kumo_tchdb_op_def kumo_tchdb_del_def kumo_tchdb_del_proc_def putproc_effect_def
        case_prod_beta Let_def)
  show "(\<And>old. recs d k = Some old \<Longrightarrow> proc old) \<Longrightarrow> fst (op_update (kumo_tchdb_op api) d k v proc)"
    using tchdbputproc_io [of d k "Some v" "kumo_tchdb_update_proc v proc"]
    by (simp add: kumo_tchdb_op_def kumo_tchdb_update_def kumo_tchdb_update_proc_def putproc_effect_def
        split: option.splits)
qed (simp_all add: tchdb_defs tchdbput_io tchdbiterinit_io)

context tokyo_cabinet_io
begin

lemma module_contract: "kumo_storage_io (kumo_tchdb_op api) recs todo"
  by (rule tc_io.kumo_storage_io_axioms)

end

section \<open>A database in memory\<close>

text \<open>
  A concrete instance of the library's contract: an association list and the keys an
  iteration has still to visit. The properties that assume the contract are applied to it.
\<close>

record mem_db =
  mem_recs :: "(bytes \<times> bytes) list"
  mem_todo :: "bytes list"

definition mem_put :: "mem_db \<Rightarrow> bytes \<Rightarrow> bytes \<Rightarrow> mem_db" where
  "mem_put h k v = h\<lparr>mem_recs := (k, v) # filter (\<lambda>r. fst r \<noteq> k) (mem_recs h)\<rparr>"

definition mem_out :: "mem_db \<Rightarrow> bytes \<Rightarrow> mem_db" where
  "mem_out h k = h\<lparr>mem_recs := filter (\<lambda>r. fst r \<noteq> k) (mem_recs h)\<rparr>"

definition mem_putproc :: "mem_db \<Rightarrow> bytes \<Rightarrow> bytes option \<Rightarrow> (bytes \<Rightarrow> proc_result) \<Rightarrow> bool \<times> mem_db" where
  "mem_putproc h k vbuf proc =
     (case map_of (mem_recs h) k of
        None \<Rightarrow> (case vbuf of None \<Rightarrow> (False, h) | Some v \<Rightarrow> (True, mem_put h k v))
      | Some old \<Rightarrow> (case proc old of Proc_keep \<Rightarrow> (False, h)
          | Proc_remove \<Rightarrow> (True, mem_out h k) | Proc_put v \<Rightarrow> (True, mem_put h k v)))"

definition mem_iternext :: "mem_db \<Rightarrow> (bytes \<times> bytes) option \<times> mem_db" where
  "mem_iternext h =
     (case mem_todo h of [] \<Rightarrow> (None, h)
      | k # ks \<Rightarrow> (map_option (\<lambda>v. (k, v)) (map_of (mem_recs h) k), h\<lparr>mem_todo := ks\<rparr>))"

definition mem_api :: "mem_db tchdb_api" where
  "mem_api =
     \<lparr>tchdbnew = Some \<lparr>mem_recs = [], mem_todo = []\<rparr>,
      tchdbsetmutex = (\<lambda>h. (True, h)), tchdbsetcache = (\<lambda>h n. (True, h)),
      tchdbsetxmsiz = (\<lambda>h n. (True, h)), tchdbopen = (\<lambda>h path. (True, h)),
      tchdbget = (\<lambda>h k. map_of (mem_recs h) k),
      tchdbget3 = (\<lambda>h k n. case map_of (mem_recs h) k of None \<Rightarrow> (-1, [])
                            | Some v \<Rightarrow> (int (min n (length v)), take n v)),
      tchdbput = (\<lambda>h k v. (True, mem_put h k v)),
      tchdbputproc = mem_putproc,
      tchdbout = (\<lambda>h k. (map_of (mem_recs h) k \<noteq> None, mem_out h k)),
      tchdbrnum = (\<lambda>h. of_nat (length (mem_recs h))), tchdbcopy = (\<lambda>h path. (True, h)),
      tchdbiterinit = (\<lambda>h. (True, h\<lparr>mem_todo := remdups (map fst (mem_recs h))\<rparr>)),
      tchdbiternext3 = mem_iternext, tchdberrmsg = (\<lambda>h. []), tcatoix = (\<lambda>s. 0),
      path_fsync = (\<lambda>s. True), path_rename = (\<lambda>s t. True)\<rparr>"

definition mem_map :: "mem_db \<Rightarrow> bytes \<Rightarrow> bytes option" where
  "mem_map h = map_of (mem_recs h)"

lemma map_of_filter_neq: "map_of (filter (\<lambda>r. fst r \<noteq> k) xs) = (map_of xs)(k := None)"
  by (induction xs) (auto simp: fun_eq_iff)

lemma mem_map_simps [simp]:
  "mem_map (mem_put h k v) = (mem_map h)(k \<mapsto> v)" "mem_map (mem_out h k) = (mem_map h)(k := None)"
  "mem_todo (mem_put h k v) = mem_todo h" "mem_todo (mem_out h k) = mem_todo h"
  "mem_map (h\<lparr>mem_todo := ks\<rparr>) = mem_map h"
  by (simp_all add: mem_map_def mem_put_def mem_out_def map_of_filter_neq)

lemma mem_putproc_effect:
  "mem_putproc h k vbuf proc = (r, h') \<Longrightarrow>
   putproc_effect (mem_map h) k vbuf proc = (if r then Some (mem_map h') else None) \<and>
   (\<not> r \<longrightarrow> h' = h) \<and> mem_todo h' = mem_todo h"
  by (auto simp: mem_putproc_def putproc_effect_def mem_map_def [symmetric]
      split: option.splits proc_result.splits)

interpretation mem: tokyo_cabinet_io mem_api mem_map mem_todo
proof
  fix h h' k ks v r vbuf proc n
  show "tchdbputproc mem_api h k vbuf proc = (r, h') \<Longrightarrow>
      (if r then putproc_effect (mem_map h) k vbuf proc = Some (mem_map h') else mem_map h' = mem_map h) \<and>
      (k \<notin> set (mem_todo h) \<longrightarrow> mem_todo h' = mem_todo h)"
    using mem_putproc_effect [of h k vbuf proc r h'] by (auto simp: mem_api_def)
  show "putproc_effect (mem_map h) k vbuf proc \<noteq> None \<Longrightarrow> fst (tchdbputproc mem_api h k vbuf proc)"
    using mem_putproc_effect [of h k vbuf proc "fst (mem_putproc h k vbuf proc)" "snd (mem_putproc h k vbuf proc)"]
    by (auto simp: mem_api_def split: if_splits)
  show "case mem_map h k of None \<Rightarrow> fst (tchdbget3 mem_api h k n) < 0
      | Some v \<Rightarrow> tchdbget3 mem_api h k n = (int (min n (length v)), take n v)"
    by (simp add: mem_api_def mem_map_def split: option.splits)
  show "tchdbout mem_api h k = (r, h') \<Longrightarrow>
      mem_map h' = (if r then (mem_map h)(k := None) else mem_map h) \<and>
      (k \<notin> set (mem_todo h) \<longrightarrow> mem_todo h' = mem_todo h)"
    by (auto simp: mem_api_def mem_map_def [symmetric])
  show "mem_todo h = k # ks \<Longrightarrow> mem_map h k = Some v \<Longrightarrow>
      \<exists>h'. tchdbiternext3 mem_api h = (Some (k, v), h') \<and> mem_map h' = mem_map h \<and> mem_todo h' = ks"
    by (simp add: mem_api_def mem_iternext_def mem_map_def)
  show "tchdbiterinit mem_api h = (r, h') \<Longrightarrow>
      mem_map h' = mem_map h \<and> (r \<longrightarrow> distinct (mem_todo h') \<and> set (mem_todo h') = dom (mem_map h))"
    by (force simp: mem_api_def mem_map_def dom_map_of_conv_image_fst)
qed (auto simp: mem_api_def mem_iternext_def mem_map_def [symmetric])

end
