(* ===== verification/StorageTheorems.thy ===== *)
theory StorageTheorems
  imports Tchdb
begin

text \<open>
  The properties of the storage layer, for every storage module that keeps the contract
  \<open>kumo_storage\<close>, and the module on Tokyo Cabinet in particular.
\<close>

section \<open>Sample data\<close>

definition sample_val :: "u64 \<Rightarrow> u8 \<Rightarrow> bytes" where
  "sample_val stamp b = clocktime_to sample_platform (ClockTime stamp) (replicate 10 0) @ [b]"

definition sample_store :: "mem_db storage" where
  "sample_store = \<lparr>m_data = \<lparr>mem_recs = [], mem_todo = []\<rparr>, m_garbage = buffer_queue_new,
     m_garbage_min_time = 60, m_garbage_max_time = 3600, m_garbage_mem_limit = 2048\<rparr>"

lemma mem_storage: "kumo_storage (kumo_tchdb_op mem_api) mem_map mem_todo"
  by (rule mem.tc.kumo_storage_axioms)

lemma mem_storage_io: "kumo_storage_io (kumo_tchdb_op mem_api) mem_map mem_todo"
  by (rule mem.tc_io.kumo_storage_io_axioms)

lemma mem_storage_kv: "kumo_storage_kv (kumo_tchdb_op mem_api) mem_map"
  by (rule mem.tc.kumo_storage_kv_axioms)

lemma mem_storage_kv_io: "kumo_storage_kv_io (kumo_tchdb_op mem_api) mem_map"
  by (rule mem.tc_io.kumo_storage_kv_io_axioms)

lemma sample_store_empty [simp]: "mem_map (m_data sample_store) k = None"
  by (simp add: sample_store_def mem_map_def)

lemma sample_val_clocktime [simp]: "clocktime_of sample_platform (sample_val s b) = ClockTime s"
  by (simp add: sample_val_def)

lemma sample_val_length [simp]: "length (sample_val s b) = 11"
  by (simp add: sample_val_def length_clocktime_to)

section \<open>The module on Tokyo Cabinet\<close>

text \<open>
  The operations of the Tokyo Cabinet module implement the contract of the storage
  layer: from what the manual of the library promises, every operation of the table has the
  effect on the records that \<open>Storage\<close> relies on, and deletions during an iteration do
  not disturb it.
\<close>

theorem tchdb_implements_storage:
  assumes "tokyo_cabinet_io api recs todo"
  shows "kumo_storage_io (kumo_tchdb_op api) recs todo"
  using assms by (rule tokyo_cabinet_io.module_contract)

theorem tchdb_implements_storage_witness: "kumo_storage_io (kumo_tchdb_op mem_api) mem_map mem_todo"
  by (rule tchdb_implements_storage [OF mem.tokyo_cabinet_io_axioms])

section \<open>Reading and writing\<close>

text \<open>
  C2: \<open>Storage::update\<close> is last-writer-wins. It stores the value and answers true exactly
  when the key is absent, the old record is too short to carry a stamp, or the old stamp is
  before the new one; otherwise the record stays and the answer is false. A repeated update
  changes nothing, and \<open>get\<close> after a successful one returns the value.
\<close>

theorem update_last_writer_wins:
  assumes "kumo_storage_kv_io op recs" and "10 \<le> length v"
  shows "\<exists>r st'. storage_update p op st k v = (r, st') \<and>
    (r \<longleftrightarrow> (case recs (m_data st) k of None \<Rightarrow> True
        | Some old \<Rightarrow> length old < 8 \<or> ct_less (clocktime_of p old) (clocktime_of p v))) \<and>
    recs (m_data st') = (if r then (recs (m_data st))(k \<mapsto> v) else recs (m_data st)) \<and>
    (r \<longrightarrow> storage_get op st' k = Some v) \<and>
    (r \<longrightarrow> \<not> fst (storage_update p op st' k v))"
proof -
  have c: "kumo_storage_kv op recs" using assms(1) by (rule kumo_storage_kv_io.axioms(1))
  obtain r st' where u: "storage_update p op st k v = (r, st')" by fastforce
  have r: "r \<longleftrightarrow> (\<forall>old. recs (m_data st) k = Some old \<longrightarrow> 8 \<le> length old \<longrightarrow>
      ct_less (clocktime_of p old) (clocktime_of p v))"
    using kumo_storage_kv_io.update_result [OF assms(1), of p st k v] u by simp
  have a: "recs (m_data st') = (if r then (recs (m_data st))(k \<mapsto> v) else recs (m_data st))"
    using kumo_storage_kv.storage_update_abs [OF c u] by blast
  have "r \<Longrightarrow> storage_get op st' k = Some v"
    using a assms(2) by (simp add: kumo_storage_kv.storage_get_abs [OF c])
  moreover have "r \<Longrightarrow> \<not> fst (storage_update p op st' k v)"
    using a assms(2) by (simp add: kumo_storage_kv_io.update_result [OF assms(1)] ct_less_irrefl)
  ultimately show ?thesis
    using u a r by (auto split: option.splits)
qed

theorem update_last_writer_wins_witness:
  "\<exists>st'. storage_update sample_platform (kumo_tchdb_op mem_api) sample_store [1] (sample_val 5 7) = (True, st') \<and>
     storage_get (kumo_tchdb_op mem_api) st' [1] = Some (sample_val 5 7)"
  using update_last_writer_wins [OF mem_storage_kv_io, of "sample_val 5 7" sample_platform sample_store "[1]"]
  by auto

text \<open>
  C1: replicas converge. Two replicas, on the same storage module or on different ones, that
  start with the same records and receive the same set of updates, in any order and with any
  repetitions, hold the same records at the end, provided that the stamps of the values of one
  key are linearly ordered.
\<close>

theorem replicas_converge:
  assumes "kumo_storage_kv_io op1 recs1" and "kumo_storage_kv_io op2 recs2"
    and "set msgs1 = set msgs2" and "recs1 (m_data st1) = recs2 (m_data st2)"
    and "\<forall>k. lww_linear p ({v. (k, v) \<in> set msgs1} \<union> set_option (recs1 (m_data st1) k))"
  shows "recs1 (m_data (fold (\<lambda>(k, v) st. snd (storage_update p op1 st k v)) msgs1 st1)) =
         recs2 (m_data (fold (\<lambda>(k, v) st. snd (storage_update p op2 st k v)) msgs2 st2))"
proof
  fix k
  let ?a = "recs1 (m_data (fold (\<lambda>(k, v) st. snd (storage_update p op1 st k v)) msgs1 st1)) k"
  let ?b = "recs2 (m_data (fold (\<lambda>(k, v) st. snd (storage_update p op2 st k v)) msgs2 st2)) k"
  let ?C = "{v. (k, v) \<in> set msgs1} \<union> set_option (recs1 (m_data st1) k)"
  have lin: "lww_linear p ?C" using assms(5) by blast
  have a: "case ?a of None \<Rightarrow> ?C = {} | Some w \<Rightarrow> w \<in> ?C \<and> (\<forall>v \<in> ?C. \<not> ct_less (clocktime_of p w) (clocktime_of p v))"
    by (rule kumo_storage_kv_io.update_fold_wins [OF assms(1) lin])
  have b: "case ?b of None \<Rightarrow> ?C = {} | Some w \<Rightarrow> w \<in> ?C \<and> (\<forall>v \<in> ?C. \<not> ct_less (clocktime_of p w) (clocktime_of p v))"
    unfolding assms(3,4) by (rule kumo_storage_kv_io.update_fold_wins [OF assms(2) lin [unfolded assms(3,4)]])
  show "?a = ?b"
  proof (cases ?a)
    case None
    with a b show ?thesis by (auto split: option.splits)
  next
    case (Some w)
    with a b obtain w' where w': "?b = Some w'" by (cases ?b) auto
    have wC: "w \<in> ?C" "w' \<in> ?C" and "\<not> ct_less (clocktime_of p w) (clocktime_of p w')"
      "\<not> ct_less (clocktime_of p w') (clocktime_of p w)"
      using a b unfolding Some w' option.case by blast+
    with lin have "w = w'" unfolding lww_linear_def by blast
    with Some w' show ?thesis by simp
  qed
qed

theorem replicas_converge_witness:
  "mem_map (m_data (fold (\<lambda>(k, v) st. snd (storage_update sample_platform (kumo_tchdb_op mem_api) st k v))
      [([1], sample_val 5 7), ([1], sample_val 6 8)] sample_store)) =
   mem_map (m_data (fold (\<lambda>(k, v) st. snd (storage_update sample_platform (kumo_tchdb_op mem_api) st k v))
      [([1], sample_val 6 8), ([1], sample_val 5 7), ([1], sample_val 6 8)] sample_store))"
proof (rule replicas_converge [OF mem_storage_kv_io mem_storage_kv_io])
  have less: "ct_less (ClockTime 5) (ClockTime 6)" "\<not> ct_less (ClockTime 6) (ClockTime 5)"
    by (simp_all add: ct_less_def clocktime_less_def clock_less_def abs_int32_def time_error_margin_def)
  have sub: "{v. (k, v) \<in> set [([1], sample_val 5 7), ([1], sample_val 6 8)]} \<union>
      set_option (mem_map (m_data sample_store) k) \<subseteq> {sample_val 5 7, sample_val 6 8}" for k
    by auto
  have "lww_linear sample_platform {sample_val 5 7, sample_val 6 8}"
    using less by (auto simp: lww_linear_def ct_less_irrefl)
  with sub show "\<forall>k. lww_linear sample_platform ({v. (k, v) \<in> set [([1], sample_val 5 7), ([1], sample_val 6 8)]} \<union>
      set_option (mem_map (m_data sample_store) k))"
    using lww_linear_mono by blast
qed auto

text \<open>
  \<open>Storage::cas\<close> replaces a record exactly when its stamp is the expected one, and
  creates the record when there is none, whatever stamp is expected.
\<close>

theorem cas_compares_stamp:
  assumes "kumo_storage_kv_io op recs"
  shows "\<exists>r st'. storage_cas p op st k v c = (r, st') \<and>
    (r \<longleftrightarrow> (case recs (m_data st) k of None \<Rightarrow> True
        | Some old \<Rightarrow> 8 \<le> length old \<and> clocktime_of p old = c)) \<and>
    recs (m_data st') = (if r then (recs (m_data st))(k \<mapsto> v) else recs (m_data st))"
proof -
  obtain r st' where u: "storage_cas p op st k v c = (r, st')" by fastforce
  then show ?thesis
    using kumo_storage_kv_io.cas_result [OF assms, of p st k v c] kumo_storage_kv_io.cas_abs [OF assms, of p st k v c]
    by (auto split: option.splits)
qed

theorem cas_compares_stamp_witness:
  "fst (storage_cas sample_platform (kumo_tchdb_op mem_api) sample_store [1] (sample_val 5 7) (ClockTime 3))"
  using cas_compares_stamp [OF mem_storage_kv_io, of sample_platform sample_store "[1]" "sample_val 5 7" "ClockTime 3"]
  by auto

section \<open>Deleting\<close>

text \<open>
  C11: \<open>Storage::remove\<close> either changes nothing and answers false, or leaves the key
  unreadable; and the collector it runs deletes another record only for a garbage entry of
  that key which is older than the minimal time, and only if the record is not newer than
  that entry. A record written after its deletion is never collected.
\<close>

theorem remove_and_collect_safe:
  assumes "kumo_storage_kv op recs" and "storage_remove p op st k ct = (r, st')"
  shows "(\<not> r \<longrightarrow> recs (m_data st') = recs (m_data st)) \<and>
    (r \<longrightarrow> storage_get op st' k = None) \<and>
    (k' \<noteq> k \<longrightarrow> recs (m_data st) k' = Some v \<longrightarrow>
       recs (m_data st') k' = Some v \<or>
       (\<exists>data \<in> set (m_queue (m_garbage st)). wrap_key data = k' \<and>
          (ct_less (wrap_clocktime p data) (before_sec ct (m_garbage_min_time st)) \<or>
           ct_less (wrap_clocktime p data) (before_sec ct (m_garbage_max_time st))) \<and>
          (8 \<le> length v \<longrightarrow> ct_le (clocktime_of p v) (wrap_clocktime p data))))"
proof -
  let ?buf = "clocktime_to p ct (replicate 8 0)"
  have len: "length ?buf = 8" by (simp add: length_clocktime_to)
  obtain ok st1 where u: "storage_update p op st k ?buf = (ok, st1)" by fastforce
  note up = kumo_storage_kv.storage_update_abs [OF assms(1) u]
  show ?thesis
  proof (cases ok)
    case False
    with u up assms(2) show ?thesis by (auto simp: storage_remove_def)
  next
    case True
    let ?st2 = "st1\<lparr>m_garbage := bq_push (clock_key p k ct) (m_garbage st1)\<rparr>"
    have res: "r" "st' = gc_loop p op ct ?st2" using u True assms(2) by (auto simp: storage_remove_def Let_def)
    have "recs (m_data st') k = Some ?buf \<or> recs (m_data st') k = None"
      using kumo_storage_kv.gc_loop_abs [OF assms(1), of p ct ?st2 k] up True res by auto
    then have "storage_get op st' k = None"
      using len by (auto simp: kumo_storage_kv.storage_get_abs [OF assms(1)])
    moreover have "recs (m_data st') k' = Some v \<or> gc_may_drop p ct ?st2 k' v"
      if "k' \<noteq> k" "recs (m_data st) k' = Some v"
      using kumo_storage_kv.gc_loop_abs [OF assms(1), of p ct ?st2 k'] up True res that by auto
    moreover have "wrap_key (clock_key p k ct) = k" by (simp add: wrap_key_def clock_key_def)
    ultimately show ?thesis
      using up res(1) by (auto simp: gc_may_drop_def bq_push_def)
  qed
qed

definition two_record_store :: "mem_db storage" where
  "two_record_store = sample_store\<lparr>m_data := \<lparr>mem_recs = [([1], sample_val 5 7), ([2], sample_val 6 8)], mem_todo = []\<rparr>\<rparr>"

theorem remove_and_collect_safe_witness:
  "\<exists>st'. storage_remove sample_platform (kumo_tchdb_op mem_api) two_record_store [1] (ClockTime 9) = (True, st') \<and>
     storage_get (kumo_tchdb_op mem_api) st' [1] = None \<and> mem_map (m_data st') [2] = Some (sample_val 6 8)"
proof -
  let ?buf = "clocktime_to sample_platform (ClockTime 9) (replicate 8 0)"
  have recs: "mem_map (m_data two_record_store) [1] = Some (sample_val 5 7)" "mem_map (m_data two_record_store) [2] = Some (sample_val 6 8)"
    by (simp_all add: two_record_store_def mem_map_def)
  have "ct_less (ClockTime 5) (ClockTime 9)" by (simp add: ct_less_def clocktime_less_def clock_less_def abs_int32_def time_error_margin_def)
  then have "fst (storage_update sample_platform (kumo_tchdb_op mem_api) two_record_store [1] ?buf)"
    using kumo_storage_kv_io.update_result [OF mem_storage_kv_io, of sample_platform two_record_store "[1]" ?buf] recs by simp
  then obtain st' where u: "storage_remove sample_platform (kumo_tchdb_op mem_api) two_record_store [1] (ClockTime 9) = (True, st')"
    by (auto simp: storage_remove_def Let_def case_prod_beta)
  have "m_queue (m_garbage two_record_store) = []" by (simp add: two_record_store_def sample_store_def buffer_queue_new_def)
  with remove_and_collect_safe [OF mem_storage_kv u, of "[2]" "sample_val 6 8"] recs u show ?thesis by auto
qed

text \<open>
  C37: the collector always ends: with an empty queue, or with at most the allowed amount of
  garbage and a front entry that is not yet older than the maximal time. The byte count of
  the queue is exact throughout (modulo the width of \<open>size_t\<close>).
\<close>

theorem collector_bounds_garbage:
  assumes "bq_ok (m_garbage st)"
  shows "bq_ok (m_garbage (gc_loop p op ct st)) \<and>
    (m_queue (m_garbage (gc_loop p op ct st)) = [] \<or>
     m_total_size (m_garbage (gc_loop p op ct st)) \<le> m_garbage_mem_limit st \<and>
     \<not> ct_less (wrap_clocktime p (hd (m_queue (m_garbage (gc_loop p op ct st)))))
         (before_sec ct (m_garbage_max_time st)))"
proof -
  have "bq_ok (m_garbage (gc_loop p op ct st))"
    by (rule gc_loop_rule [where P = "\<lambda>s. bq_ok (m_garbage s)"]) (simp_all add: assms wf_intros)
  with gc_loop_done [of p op ct st] show ?thesis
    by (auto simp: bq_front_def split: list.splits)
qed

theorem collector_bounds_garbage_witness:
  "let st = sample_store\<lparr>m_garbage := bq_push (replicate 20 1) (bq_push (replicate 2100 0) buffer_queue_new)\<rparr>;
       st' = gc_loop sample_platform (kumo_tchdb_op mem_api) (ClockTime 9) st
   in bq_ok (m_garbage st') \<and> (m_queue (m_garbage st') = [] \<or> m_total_size (m_garbage st') \<le> 2048)"
proof -
  let ?st = "sample_store\<lparr>m_garbage := bq_push (replicate 20 1) (bq_push (replicate 2100 0) buffer_queue_new)\<rparr>"
  have "bq_ok (m_garbage ?st)" by (simp add: wf_intros)
  moreover have "m_garbage_mem_limit ?st = 2048" by (simp add: sample_store_def)
  ultimately show ?thesis
    using collector_bounds_garbage [of ?st sample_platform "kumo_tchdb_op mem_api" "ClockTime 9"] unfolding Let_def by metis
qed

section \<open>Iterating\<close>

text \<open>
  \<open>Storage::for_each\<close> ends, and when it reports no error it has run the callback
  exactly once on every record that is long enough to be a value; the iteration itself
  deletes nothing but garbage older than the limit.
\<close>

theorem for_each_visits_values_once:
  assumes "kumo_storage op recs pending"
  shows "\<exists>e visited st'.
    storage_for_each p op (\<lambda>k v (u, d). (True, u @ [(k, v)], d)) ct ([], st) = Some (e, visited, st') \<and>
    (e = None \<longrightarrow> distinct visited \<and>
       set visited = {(k, v). recs (m_data st) k = Some v \<and> 10 \<le> length v}) \<and>
    (\<forall>k. recs (m_data st') k = recs (m_data st) k \<or>
       (recs (m_data st') k = None \<and>
        (\<exists>v. recs (m_data st) k = Some v \<and> expired p (before_sec ct (m_garbage_max_time st)) v)))"
proof -
  let ?m = "recs (m_data st)"
  let ?f = "\<lambda>k u. let v = the (?m k) in if length v < 10 then u else u @ [(k, v)]"
  have fold: "fold ?f ks u = u @ map (\<lambda>k. (k, the (?m k))) (filter (\<lambda>k. 10 \<le> length (the (?m k))) ks)" for ks u
    by (induction ks arbitrary: u) (simp_all add: Let_def not_less)
  have "distinct (fold ?f ks []) \<and> set (fold ?f ks []) = {(k, v). ?m k = Some v \<and> 10 \<le> length v}"
    if "distinct ks" "set ks = dom ?m" for ks
    unfolding fold using that by (auto simp: distinct_map inj_on_def)
  then show ?thesis
    using kumo_storage.for_each_visits [OF assms, of p "\<lambda>k v u. u @ [(k, v)]" ct "[]" st]
    by (metis (lifting))
qed

theorem for_each_visits_values_once_witness:
  "\<exists>e visited st'.
    storage_for_each sample_platform (kumo_tchdb_op mem_api) (\<lambda>k v (u, d). (True, u @ [(k, v)], d))
      (ClockTime 9) ([], sample_store) = Some (e, visited, st')"
  using for_each_visits_values_once [OF mem_storage, of sample_platform "ClockTime 9" sample_store] by blast

section \<open>The 16-bit field of a value\<close>

text \<open>
  When \<open>__LITTLE_ENDIAN__\<close> is defined, the 16-bit field of a value is lost: it is
  written and read through the 64-bit byte swap, whose low 16 bits are always zero. Without
  the macro it is kept.
\<close>

lemma meta_field_lost_when_swapped:
  "if le_macro p then meta_of p raw = 0 \<and> take 2 (drop 8 (meta_to p m (replicate 10 0))) = [0, 0]
   else meta_of p (meta_to p m (replicate 10 0)) = m"
proof -
  have "store_word bo 2 (0 :: u16) = [0, 0]" for bo
    by (cases bo) (simp_all add: store_word_def numeral_2_eq_2)
  then show ?thesis
    using meta_of_to [of "replicate 10 0" p m "[]"]
    by (auto simp: meta_of_swapped meta_to_def kumo_be64_def bswap_ucast16)
qed

end
