(* ===== verification/Address.thy ===== *)
theory Address
  imports Prelude "HOL-Library.List_Lexorder"
begin

text \<open>
  \<open>rpc::address\<close> (\<open>rpc/address.h\<close>, \<open>rpc/address.cc\<close>) in the build without
  \<open>KUMO_IPV6\<close>, which no build file defines: an array of eight bytes, the port in
  network byte order, the IPv4 address, and two zero bytes.
\<close>

datatype address = Address (m_serial_address: bytes)

text \<open>\<open>struct sockaddr_in\<close>, whose port and address are kept in network byte order.\<close>

record sockaddr_in =
  sin_port :: bytes
  sin_addr :: bytes

definition sockaddr_ok :: "sockaddr_in \<Rightarrow> bool" where
  "sockaddr_ok sa \<longleftrightarrow> length (sin_port sa) = 2 \<and> length (sin_addr sa) = 4"

definition address_nil :: address where
  "address_nil = Address (replicate 8 0)"

definition address_of_sockaddr :: "sockaddr_in \<Rightarrow> address" where
  "address_of_sockaddr sa = Address (sin_port sa @ sin_addr sa @ [0, 0])"

definition address_of_dump :: "bytes \<Rightarrow> address result" where
  "address_of_dump ptr =
     (if length ptr \<noteq> 6 then Inl (Runtime_error ''unknown address type'')
      else Inr (Address (ptr @ [0, 0])))"

definition dump_size :: "address \<Rightarrow> nat" where
  "dump_size a = 6"

definition dump :: "address \<Rightarrow> bytes" where
  "dump a = take (dump_size a) (m_serial_address a)"

definition max_dump_size :: nat where
  "max_dump_size = 22"

definition raw_port :: "address \<Rightarrow> bytes" where
  "raw_port a = take 2 (m_serial_address a)"

definition port :: "address \<Rightarrow> u16" where
  "port a = load_word Big (raw_port a)"

definition set_port :: "u16 \<Rightarrow> address \<Rightarrow> address" where
  "set_port p a = Address (store_word Big 2 p @ drop 2 (m_serial_address a))"

definition connectable :: "address \<Rightarrow> bool" where
  "connectable a \<longleftrightarrow> raw_port a \<noteq> [0, 0]"

definition getaddr :: "address \<Rightarrow> sockaddr_in" where
  "getaddr a = \<lparr>sin_port = raw_port a, sin_addr = take 4 (drop 2 (m_serial_address a))\<rparr>"

text \<open>\<open>memcmp\<close> on the eight bytes, and the comparisons made of it.\<close>

fun memcmp :: "nat \<Rightarrow> bytes \<Rightarrow> bytes \<Rightarrow> int" where
  "memcmp (Suc n) (a # as) (b # bs) = (if a = b then memcmp n as bs else if a < b then -1 else 1)"
| "memcmp n as bs = 0"

definition address_eq :: "address \<Rightarrow> address \<Rightarrow> bool" where
  "address_eq a b \<longleftrightarrow> memcmp 8 (m_serial_address a) (m_serial_address b) = 0"

definition address_less :: "address \<Rightarrow> address \<Rightarrow> bool" where
  "address_less a b \<longleftrightarrow> memcmp 8 (m_serial_address a) (m_serial_address b) < 0"

definition address_greater :: "address \<Rightarrow> address \<Rightarrow> bool" where
  "address_greater a b \<longleftrightarrow> memcmp 8 (m_serial_address a) (m_serial_address b) > 0"

text \<open>What every constructor of the class establishes.\<close>

definition address_ok :: "address \<Rightarrow> bool" where
  "address_ok a \<longleftrightarrow> length (m_serial_address a) = 8 \<and> drop 6 (m_serial_address a) = [0, 0]"

section \<open>Addresses as a linear order\<close>

instantiation address :: linorder
begin

definition less_address :: "address \<Rightarrow> address \<Rightarrow> bool" where
  "less_address a b \<longleftrightarrow> m_serial_address a < m_serial_address b"

definition less_eq_address :: "address \<Rightarrow> address \<Rightarrow> bool" where
  "less_eq_address a b \<longleftrightarrow> m_serial_address a \<le> m_serial_address b"

instance
  by standard (auto simp: less_address_def less_eq_address_def address.expand)

end

lemma memcmp_less: "length as = n \<Longrightarrow> length bs = n \<Longrightarrow> memcmp n as bs < 0 \<longleftrightarrow> as < bs"
  by (induction n as bs rule: memcmp.induct) auto

lemma memcmp_eq: "length as = n \<Longrightarrow> length bs = n \<Longrightarrow> memcmp n as bs = 0 \<longleftrightarrow> as = bs"
  by (induction n as bs rule: memcmp.induct) auto

lemma memcmp_greater: "length as = n \<Longrightarrow> length bs = n \<Longrightarrow> memcmp n as bs > 0 \<longleftrightarrow> bs < as"
  using memcmp_less [of as n bs] memcmp_eq [of as n bs] by force

lemma address_cmp:
  assumes "address_ok a" and "address_ok b"
  shows "address_eq a b \<longleftrightarrow> a = b" and "address_less a b \<longleftrightarrow> a < b" and "address_greater a b \<longleftrightarrow> b < a"
  using assms memcmp_less memcmp_eq memcmp_greater
  by (auto simp: address_ok_def address_eq_def address_less_def address_greater_def
      less_address_def address.expand)

lemma address_ok_ctors [simp]:
  "address_ok address_nil"
  "sockaddr_ok sa \<Longrightarrow> address_ok (address_of_sockaddr sa)"
  "address_of_dump bs = Inr a \<Longrightarrow> address_ok a"
  by (auto simp: address_ok_def address_nil_def address_of_sockaddr_def sockaddr_ok_def
      address_of_dump_def eval_nat_numeral split: if_splits)

lemma address_ok_set_port [simp]: "address_ok a \<Longrightarrow> address_ok (set_port p a)"
  by (auto simp: address_ok_def set_port_def)

lemma dump_inverse: "address_ok a \<Longrightarrow> address_of_dump (dump a) = Inr a"
  by (cases a) (metis (no_types, lifting) address.sel address_of_dump_def address_ok_def
      append_take_drop_id dump_def dump_size_def length_take min_def numeral_le_iff semiring_norm(69,71,72))

lemma dump_inj: "address_ok a \<Longrightarrow> address_ok b \<Longrightarrow> dump a = dump b \<Longrightarrow> a = b"
  by (metis dump_inverse sum.inject(2))

text \<open>
  An address survives the trip over the wire and the trip through a socket
  address, a dump of any length but six is refused, and \<open>operator==\<close> and
  \<open>operator<\<close> are equality and a linear order on addresses.
\<close>

lemma address_roundtrip:
  assumes "address_ok a" and "address_ok b"
  shows "address_of_dump (dump a) = Inr a \<and> address_of_sockaddr (getaddr a) = a \<and>
    (length bs \<noteq> 6 \<longrightarrow> address_of_dump bs = Inl (Runtime_error ''unknown address type'')) \<and>
    (address_eq a b \<longleftrightarrow> a = b) \<and> (address_less a b \<longleftrightarrow> a < b) \<and> port (set_port p a) = p"
proof -
  have "take 2 (m_serial_address a) @ take 4 (drop 2 (m_serial_address a)) @ [0, 0] = m_serial_address a"
    using assms(1) append_take_drop_id [of 6 "m_serial_address a"] take_add [of 2 4 "m_serial_address a"]
    by (simp add: address_ok_def)
  then have "address_of_sockaddr (getaddr a) = a"
    by (cases a) (simp add: address_of_sockaddr_def getaddr_def raw_port_def)
  moreover have "length bs \<noteq> 6 \<longrightarrow> address_of_dump bs = Inl (Runtime_error ''unknown address type'')"
    by (simp add: address_of_dump_def)
  moreover have "port (set_port p a) = p"
    by (simp add: port_def raw_port_def set_port_def)
  ultimately show ?thesis
    using dump_inverse [OF assms(1)] address_cmp [OF assms] by blast
qed

end
