(* ===== verification/HashSpace.thy ===== *)
theory HashSpace
  imports Prelude Clock Address
begin

text \<open>
  The consistent-hashing ring (\<open>logic/hash.h\<close>, \<open>logic/hash.cc\<close>), its compact form
  \<open>Seed\<close> that travels between processes, and the walk \<open>EACH_ASSIGN\<close>
  (\<open>logic/server/framework.h\<close>) that lists the nodes a key belongs to.

  A ring keeps the list of its nodes and the vector of their virtual nodes, 128 for
  each, in the order of their hashes. The lemmas show what the vector holds after every
  sequence of operations, that the walk lists the first three different nodes clockwise,
  and how the assignment of a key changes when a server joins, leaves or fails.
\<close>

section \<open>Data\<close>

record node =
  m_addr :: address
  m_active :: bool

record virtual_node =
  m_hash :: u64
  m_real :: node

record hashspace =
  m_hashspace :: "virtual_node list"
  m_nodes :: "node list"
  m_timestamp :: clocktime

record seed =
  seed_nodes :: "node list"
  seed_clocktime :: clocktime

definition HASHSPACE_VIRTUAL_NODE_NUMBER :: nat where
  "HASHSPACE_VIRTUAL_NODE_NUMBER = 128"

definition node_fault :: "node \<Rightarrow> node" where
  "node_fault n = n\<lparr>m_active := False\<rparr>"

definition node_recover :: "node \<Rightarrow> node" where
  "node_recover n = n\<lparr>m_active := True\<rparr>"

definition node_address_equal :: "address \<Rightarrow> node \<Rightarrow> bool" where
  "node_address_equal a n \<longleftrightarrow> a = m_addr n"

section \<open>Construction and membership\<close>

definition hashspace_new :: "clocktime \<Rightarrow> hashspace" where
  "hashspace_new ct = \<lparr>m_hashspace = [], m_nodes = [], m_timestamp = ct\<rparr>"

text \<open>The first eight bytes of the SHA-1 digest, read in the byte order of the host.\<close>

definition hash :: "platform \<Rightarrow> bytes \<Rightarrow> u64" where
  "hash p data = load_word (host_order p) (take 8 (sha1 p data))"

text \<open>The loop of \<open>add_virtual_nodes\<close>: \<open>k\<close> more virtual nodes, each at the hash of the last one.\<close>

primrec add_virtual_nodes_loop ::
    "platform \<Rightarrow> node \<Rightarrow> nat \<Rightarrow> u64 \<Rightarrow> virtual_node list \<Rightarrow> virtual_node list" where
  "add_virtual_nodes_loop p n 0 x vs = vs"
| "add_virtual_nodes_loop p n (Suc k) x vs =
     (let x' = hash p (store_word (host_order p) 8 x)
      in add_virtual_nodes_loop p n k x' (vs @ [\<lparr>m_hash = x', m_real = n\<rparr>]))"

definition add_virtual_nodes :: "platform \<Rightarrow> node \<Rightarrow> virtual_node list \<Rightarrow> virtual_node list" where
  "add_virtual_nodes p n vs =
     (let x = hash p (dump (m_addr n))
      in add_virtual_nodes_loop p n (HASHSPACE_VIRTUAL_NODE_NUMBER - 1) x
           (vs @ [\<lparr>m_hash = x, m_real = n\<rparr>]))"

definition rehash :: "platform \<Rightarrow> hashspace \<Rightarrow> hashspace" where
  "rehash p hs = hs\<lparr>m_hashspace := sort_key m_hash (fold (add_virtual_nodes p) (m_nodes hs) [])\<rparr>"

definition add_server :: "platform \<Rightarrow> clocktime \<Rightarrow> address \<Rightarrow> hashspace \<Rightarrow> hashspace" where
  "add_server p ct a hs =
     (let n = \<lparr>m_addr = a, m_active = True\<rparr>
      in hs\<lparr>m_timestamp := ct, m_nodes := m_nodes hs @ [n],
            m_hashspace := sort_key m_hash (add_virtual_nodes p n (m_hashspace hs))\<rparr>)"

definition erase_at :: "nat \<Rightarrow> 'a list \<Rightarrow> 'a list" where
  "erase_at i xs = take i xs @ drop (Suc i) xs"

definition remove_server :: "platform \<Rightarrow> clocktime \<Rightarrow> address \<Rightarrow> hashspace \<Rightarrow> hashspace \<times> bool" where
  "remove_server p ct a hs =
     (let it = find_index (node_address_equal a) (m_nodes hs)
      in if it \<noteq> length (m_nodes hs)
         then (rehash p (hs\<lparr>m_nodes := erase_at it (m_nodes hs), m_timestamp := ct\<rparr>), True)
         else (hs, False))"

definition fault_server :: "clocktime \<Rightarrow> address \<Rightarrow> hashspace \<Rightarrow> hashspace \<times> bool" where
  "fault_server ct a hs =
     (let it = find_index (node_address_equal a) (m_nodes hs)
      in if it \<noteq> length (m_nodes hs)
         then (hs\<lparr>m_nodes := (m_nodes hs)[it := node_fault (m_nodes hs ! it)], m_timestamp := ct\<rparr>, True)
         else (hs, False))"

definition recover_server :: "clocktime \<Rightarrow> address \<Rightarrow> hashspace \<Rightarrow> hashspace \<times> bool" where
  "recover_server ct a hs =
     (let it = find_index (node_address_equal a) (m_nodes hs)
      in if it \<noteq> length (m_nodes hs)
         then (hs\<lparr>m_nodes := (m_nodes hs)[it := node_recover (m_nodes hs ! it)], m_timestamp := ct\<rparr>, True)
         else (hs, False))"

text \<open>The erasing loop of \<open>remove_fault_servers\<close>: the nodes that stay, and whether one was erased.\<close>

primrec erase_fault :: "node list \<Rightarrow> node list \<times> bool" where
  "erase_fault [] = ([], False)"
| "erase_fault (n # ns) =
     (let (ns', ret) = erase_fault ns
      in if \<not> m_active n then (ns', True) else (n # ns', ret))"

definition remove_fault_servers :: "platform \<Rightarrow> clocktime \<Rightarrow> hashspace \<Rightarrow> hashspace \<times> bool" where
  "remove_fault_servers p ct hs =
     (let (ns, ret) = erase_fault (m_nodes hs)
      in if ret then (rehash p (hs\<lparr>m_nodes := ns, m_timestamp := ct\<rparr>), True)
         else (hs\<lparr>m_nodes := ns\<rparr>, False))"

definition seed_of :: "hashspace \<Rightarrow> seed" where
  "seed_of hs = \<lparr>seed_nodes = m_nodes hs, seed_clocktime = m_timestamp hs\<rparr>"

definition hashspace_of_seed :: "platform \<Rightarrow> seed \<Rightarrow> hashspace" where
  "hashspace_of_seed p s =
     rehash p \<lparr>m_hashspace = [], m_nodes = seed_nodes s, m_timestamp = seed_clocktime s\<rparr>"

section \<open>Queries\<close>

definition hashspace_eq :: "hashspace \<Rightarrow> hashspace \<Rightarrow> bool" where
  "hashspace_eq a b \<longleftrightarrow> m_nodes a = m_nodes b"

definition hashspace_eq_seed :: "hashspace \<Rightarrow> seed \<Rightarrow> bool" where
  "hashspace_eq_seed hs s \<longleftrightarrow> m_nodes hs = seed_nodes s"

primrec no_active :: "node list \<Rightarrow> bool" where
  "no_active [] = True"
| "no_active (n # ns) = (if m_active n then False else no_active ns)"

definition hs_empty :: "hashspace \<Rightarrow> bool" where
  "hs_empty hs = no_active (m_nodes hs)"

definition seed_empty :: "seed \<Rightarrow> bool" where
  "seed_empty s = no_active (seed_nodes s)"

primrec count_active :: "nat \<Rightarrow> node list \<Rightarrow> nat" where
  "count_active k [] = k"
| "count_active k (n # ns) = count_active (if m_active n then Suc k else k) ns"

definition active_node_count :: "hashspace \<Rightarrow> nat" where
  "active_node_count hs = count_active 0 (m_nodes hs)"

definition get_active_nodes :: "hashspace \<Rightarrow> address list \<Rightarrow> address list" where
  "get_active_nodes hs result =
     fold (\<lambda>n r. if m_active n then r @ [m_addr n] else r) (m_nodes hs) result"

definition nodes_diff :: "hashspace \<Rightarrow> hashspace \<Rightarrow> address list \<Rightarrow> address list" where
  "nodes_diff hs other result =
     fold (\<lambda>n r. if find_index (node_address_equal (m_addr n)) (m_nodes other) = length (m_nodes other)
                  then r @ [m_addr n] else r) (m_nodes hs) result"

definition server_is_include :: "hashspace \<Rightarrow> address \<Rightarrow> bool" where
  "server_is_include hs a \<longleftrightarrow> find_index (node_address_equal a) (m_nodes hs) \<noteq> length (m_nodes hs)"

definition server_is_active :: "hashspace \<Rightarrow> address \<Rightarrow> bool" where
  "server_is_active hs a =
     (let it = find_index (node_address_equal a) (m_nodes hs)
      in it \<noteq> length (m_nodes hs) \<and> m_active (m_nodes hs ! it))"

definition server_is_fault :: "hashspace \<Rightarrow> address \<Rightarrow> bool" where
  "server_is_fault hs a =
     (let it = find_index (node_address_equal a) (m_nodes hs)
      in it \<noteq> length (m_nodes hs) \<and> \<not> m_active (m_nodes hs ! it))"

section \<open>The walk around the ring\<close>

text \<open>An iterator is an index into the vector; \<open>find\<close> on an empty vector gives its end.\<close>

definition find_it :: "hashspace \<Rightarrow> u64 \<Rightarrow> nat" where
  "find_it hs h =
     (let it = lower_bound (\<lambda>v. m_hash v < h) (m_hashspace hs)
      in if it = length (m_hashspace hs) then 0 else it)"

definition it_next :: "virtual_node list \<Rightarrow> nat \<Rightarrow> nat" where
  "it_next vs it = (if Suc it = length vs then 0 else Suc it)"

text \<open>
  The loop \<open>for(; _it_ != _origin_; ++_it_)\<close> of \<open>EACH_ASSIGN\<close>, which passes over the nodes
  already seen; the result is the iterator at which the body runs, if it runs.
\<close>

function find_other :: "virtual_node list \<Rightarrow> nat \<Rightarrow> node list \<Rightarrow> nat \<Rightarrow> nat option" where
  "find_other vs origin seen it =
     (if it = origin \<or> length vs \<le> it \<or> length vs \<le> origin then None
      else if m_real (vs ! it) \<in> set seen then find_other vs origin seen (it_next vs it)
      else Some it)"
  by pat_completeness auto
termination
proof (relation "measure (\<lambda>(vs, origin, seen, it). if it \<le> origin then origin - it else origin + length vs - it)")
qed (auto simp: it_next_def)

declare find_other.simps [simp del]

definition each_assign :: "hashspace \<Rightarrow> u64 \<Rightarrow> node list result" where
  "each_assign hs h =
     (let vs = m_hashspace hs; origin = find_it hs h
      in if length vs \<le> origin then Inl Undefined_behaviour
         else let real = m_real (vs ! origin)
              in case find_other vs origin [real] (it_next vs origin) of
                   None \<Rightarrow> Inr [real]
                 | Some i \<Rightarrow>
                     let rep1 = m_real (vs ! i)
                     in case find_other vs origin [real, rep1] (it_next vs i) of
                          None \<Rightarrow> Inr [real, rep1]
                        | Some j \<Rightarrow> Inr [real, rep1, m_real (vs ! j)])"

section \<open>Virtual nodes\<close>

primrec hash_chain :: "platform \<Rightarrow> nat \<Rightarrow> u64 \<Rightarrow> u64 list" where
  "hash_chain p 0 x = []"
| "hash_chain p (Suc k) x =
     (let x' = hash p (store_word (host_order p) 8 x) in x' # hash_chain p k x')"

definition vnode_hashes :: "platform \<Rightarrow> address \<Rightarrow> u64 list" where
  "vnode_hashes p a = hash p (dump a) # hash_chain p 127 (hash p (dump a))"

definition vnodes :: "platform \<Rightarrow> node \<Rightarrow> virtual_node list" where
  "vnodes p n = map (\<lambda>x. \<lparr>m_hash = x, m_real = n\<rparr>) (vnode_hashes p (m_addr n))"

definition ring :: "platform \<Rightarrow> node list \<Rightarrow> virtual_node list" where
  "ring p ns = sort_key m_hash (concat (map (vnodes p) ns))"

lemma length_hash_chain [simp]: "length (hash_chain p k x) = k"
  by (induction k arbitrary: x) (simp_all add: Let_def)

lemma length_vnodes [simp]: "length (vnodes p n) = 128"
  by (simp add: vnodes_def vnode_hashes_def)

lemma add_virtual_nodes_loop_eq:
  "add_virtual_nodes_loop p n k x vs = vs @ map (\<lambda>x. \<lparr>m_hash = x, m_real = n\<rparr>) (hash_chain p k x)"
  by (induction k arbitrary: x vs) (simp_all add: Let_def)

lemma add_virtual_nodes_eq: "add_virtual_nodes p n vs = vs @ vnodes p n"
  by (simp add: add_virtual_nodes_def add_virtual_nodes_loop_eq vnodes_def vnode_hashes_def
      HASHSPACE_VIRTUAL_NODE_NUMBER_def Let_def)

lemma fold_add_virtual_nodes: "fold (add_virtual_nodes p) ns vs = vs @ concat (map (vnodes p) ns)"
  by (induction ns arbitrary: vs) (simp_all add: add_virtual_nodes_eq)

lemma rehash_ring: "rehash p hs = hs\<lparr>m_hashspace := ring p (m_nodes hs)\<rparr>"
  by (simp add: rehash_def fold_add_virtual_nodes ring_def)

lemma sorted_ring [simp]: "sorted (map m_hash (ring p ns))"
  by (simp add: ring_def)

lemma ring_append: "sort_key m_hash (ring p ns @ vnodes p n) = ring p (ns @ [n])"
  by (simp add: ring_def sort_key_sort_key_append)

lemma length_ring: "length (ring p ns) = 128 * length ns"
  by (simp add: ring_def length_concat comp_def sum_list_triv)

lemma set_ring_real: "m_real ` set (ring p ns) = set ns"
proof -
  have "m_real ` set (vnodes p n) = {n}" for n
    by (auto simp: vnodes_def vnode_hashes_def)
  then show ?thesis by (simp add: ring_def image_UN)
qed

section \<open>The walk\<close>

definition arc :: "virtual_node list \<Rightarrow> nat \<Rightarrow> nat \<Rightarrow> virtual_node list" where
  "arc vs it origin = (if it \<le> origin then take (origin - it) (drop it vs) else drop it vs @ take origin vs)"

definition walk :: "virtual_node list \<Rightarrow> u64 \<Rightarrow> virtual_node list" where
  "walk vs h = filter (\<lambda>v. \<not> m_hash v < h) vs @ filter (\<lambda>v. m_hash v < h) vs"

definition assigned :: "virtual_node list \<Rightarrow> u64 \<Rightarrow> node list" where
  "assigned vs h = take 3 (uniq (map m_real (walk vs h)))"

lemma it_next_less: "it < length vs \<Longrightarrow> it_next vs it < length vs"
  by (auto simp: it_next_def)

lemma arc_step:
  assumes "it < length vs" "origin < length vs" "it \<noteq> origin"
  shows "arc vs it origin = vs ! it # arc vs (it_next vs it) origin"
proof -
  have d: "drop it vs = vs ! it # drop (Suc it) vs"
    using assms(1) by (rule Cons_nth_drop_Suc [symmetric])
  show ?thesis
  proof (cases "it < origin")
    case True
    then have "origin - it = Suc (origin - Suc it)" by simp
    with True assms d show ?thesis by (simp add: arc_def it_next_def)
  next
    case False
    with assms d show ?thesis by (auto simp: arc_def it_next_def)
  qed
qed

lemma arc_full:
  assumes "origin < length vs"
  shows "vs ! origin # arc vs (it_next vs origin) origin = drop origin vs @ take origin vs"
  using Cons_nth_drop_Suc [OF assms] assms by (auto simp: arc_def it_next_def)

lemma find_other_less: "find_other vs origin seen it = Some j \<Longrightarrow> j < length vs"
  by (induction vs origin seen it rule: find_other.induct)
    (metis find_other.simps not_le option.distinct(1) option.inject)

lemma find_other_filter:
  "it < length vs \<Longrightarrow> origin < length vs \<Longrightarrow>
   filter (\<lambda>n. n \<notin> set seen) (map m_real (arc vs it origin)) =
   (case find_other vs origin seen it of None \<Rightarrow> []
    | Some j \<Rightarrow> m_real (vs ! j) # filter (\<lambda>n. n \<notin> set seen) (map m_real (arc vs (it_next vs j) origin)))"
proof (induction vs origin seen it rule: find_other.induct)
  case (1 vs origin seen it)
  show ?case
  proof (cases "it = origin")
    case True
    then show ?thesis by (simp add: find_other.simps [of vs origin seen origin] arc_def)
  next
    case False
    note step = arc_step [OF 1(2,3) False]
    show ?thesis
    proof (cases "m_real (vs ! it) \<in> set seen")
      case True
      with 1 False show ?thesis
        by (simp add: step find_other.simps [of vs origin seen it] it_next_less)
    next
      case notin: False
      with False 1(2,3) show ?thesis
        by (simp add: step find_other.simps [of vs origin seen it])
    qed
  qed
qed

lemma each_assign_rotated:
  assumes o: "find_it hs h < length (m_hashspace hs)"
  shows "each_assign hs h = Inr (take 3 (uniq (map m_real
    (drop (find_it hs h) (m_hashspace hs) @ take (find_it hs h) (m_hashspace hs)))))"
proof -
  define vs o0 r0 where defs: "vs = m_hashspace hs" "o0 = find_it hs h" "r0 = m_real (vs ! o0)"
  have less: "o0 < length vs" using o by (simp add: defs)
  have uni: "uniq (map m_real (drop o0 vs @ take o0 vs)) =
      r0 # uniq (filter (\<lambda>n. n \<notin> set [r0]) (map m_real (arc vs (it_next vs o0) o0)))"
    unfolding arc_full [OF less, symmetric] list.map uniq_Cons_filter by (simp add: defs)
  note f1 = find_other_filter [OF it_next_less [OF less] less, of "[r0]"]
  show ?thesis
  proof (cases "find_other vs o0 [r0] (it_next vs o0)")
    case None
    then show ?thesis
      using less uni f1 by (simp add: each_assign_def defs [symmetric] Let_def)
  next
    case (Some i)
    define r1 where "r1 = m_real (vs ! i)"
    have i: "i < length vs" using Some by (rule find_other_less)
    note f2 = find_other_filter [OF it_next_less [OF i] less, of "[r0, r1]"]
    have uni2: "uniq (map m_real (drop o0 vs @ take o0 vs)) =
        r0 # r1 # uniq (filter (\<lambda>n. n \<notin> set [r0, r1]) (map m_real (arc vs (it_next vs i) o0)))"
      unfolding uni f1 Some option.case uniq_Cons_filter filter_filter_notin by (simp add: r1_def)
    show ?thesis
    proof (cases "find_other vs o0 [r0, r1] (it_next vs i)")
      case None
      then show ?thesis
        using less uni2 f2 Some by (simp add: each_assign_def defs [symmetric] Let_def r1_def)
    next
      case (Some j)
      then show ?thesis
        using less uni2 f2 \<open>find_other vs o0 [r0] (it_next vs o0) = Some i\<close>
        by (simp add: each_assign_def defs [symmetric] Let_def r1_def numeral_3_eq_3)
    qed
  qed
qed

lemma walk_rotated:
  assumes "sorted (map m_hash (m_hashspace hs))"
  shows "walk (m_hashspace hs) h = drop (find_it hs h) (m_hashspace hs) @ take (find_it hs h) (m_hashspace hs)"
proof -
  note lb = lower_bound_partition [OF partitioned_sorted [OF assms, of h]]
  let ?k = "lower_bound (\<lambda>v. m_hash v < h) (m_hashspace hs)"
  have fl: "filter (\<lambda>v. m_hash v < h) (m_hashspace hs) = take ?k (m_hashspace hs)"
    "filter (\<lambda>v. \<not> m_hash v < h) (m_hashspace hs) = drop ?k (m_hashspace hs)"
    using filter_take_drop [OF lb(1), of "\<lambda>v. m_hash v < h"] lb(2,3) by blast+
  show ?thesis
    unfolding walk_def fl find_it_def Let_def by auto
qed

lemma each_assign_assigned:
  assumes "sorted (map m_hash (m_hashspace hs))" and "m_hashspace hs \<noteq> []"
  shows "each_assign hs h = Inr (assigned (m_hashspace hs) h)"
proof -
  have "find_it hs h < length (m_hashspace hs)"
    using assms lower_bound_partition(1) [OF partitioned_sorted [OF assms(1), of h]]
    by (auto simp: find_it_def Let_def)
  from each_assign_rotated [OF this] show ?thesis
    unfolding assigned_def walk_rotated [OF assms(1)] .
qed


section \<open>Joining, leaving and failing\<close>

lemma walk_filter: "walk (filter P vs) h = filter P (walk vs h)"
  by (simp add: walk_def filter_filter conj_commute)

lemma assigned_join_leave:
  fixes n vs h
  defines "vs0 \<equiv> filter (\<lambda>v. m_real v \<noteq> n) vs"
  shows "if n \<in> set (assigned vs h) then filter (\<lambda>m. m \<noteq> n) (assigned vs h) = take 2 (assigned vs0 h)
         else assigned vs h = assigned vs0 h"
proof -
  let ?u = "uniq (map m_real (walk vs h))"
  have u: "uniq (map m_real (walk vs0 h)) = filter (\<lambda>m. m \<noteq> n) ?u"
    by (simp add: vs0_def walk_filter uniq_filter [symmetric] filter_map comp_def)
  show ?thesis
    using take_filter_in [of ?u n 2] take_filter_notin [of n 3 ?u]
    by (simp add: assigned_def u eval_nat_numeral)
qed

lemma filter_ring: "filter (\<lambda>v. Q (m_real v)) (ring p ns) = ring p (filter Q ns)"
proof -
  have v: "filter (\<lambda>v. Q (m_real v)) (vnodes p n) = (if Q n then vnodes p n else [])" for n
    by (simp add: vnodes_def filter_map comp_def)
  have "filter (\<lambda>v. Q (m_real v)) (concat (map (vnodes p) ns)) = concat (map (vnodes p) (filter Q ns))"
    by (induction ns) (simp_all add: v)
  then show ?thesis by (simp add: ring_def filter_sort)
qed

lemma ring_map:
  assumes "\<And>n. m_addr (f n) = m_addr n"
  shows "ring p (map f ns) = map (\<lambda>v. v\<lparr>m_real := f (m_real v)\<rparr>) (ring p ns)"
proof -
  have v: "vnodes p (f n) = map (\<lambda>v. v\<lparr>m_real := f (m_real v)\<rparr>) (vnodes p n)" for n
    by (simp add: vnodes_def assms)
  have "concat (map (vnodes p) (map f ns)) = map (\<lambda>v. v\<lparr>m_real := f (m_real v)\<rparr>) (concat (map (vnodes p) ns))"
    by (induction ns) (simp_all add: v)
  then show ?thesis by (simp add: ring_def sort_key_map comp_def)
qed

lemma assigned_map:
  assumes "inj_on f (m_real ` set vs)"
  shows "assigned (map (\<lambda>v. v\<lparr>m_real := f (m_real v)\<rparr>) vs) h = map f (assigned vs h)"
proof -
  have "walk (map (\<lambda>v. v\<lparr>m_real := f (m_real v)\<rparr>) vs) h = map (\<lambda>v. v\<lparr>m_real := f (m_real v)\<rparr>) (walk vs h)"
    by (simp add: walk_def filter_map comp_def)
  moreover have "inj_on f (set (map m_real (walk vs h)))"
    using assms by (rule inj_on_subset) (auto simp: walk_def)
  ultimately show ?thesis
    by (simp add: assigned_def comp_def take_map uniq_map_inj [of f "map m_real (walk vs h)", simplified map_map comp_def])
qed

lemma set_assigned: "set (assigned (ring p ns) h) \<subseteq> set ns"
  unfolding set_ring_real [of p ns, symmetric] by (auto simp: assigned_def walk_def dest!: in_set_takeD)

lemma length_assigned: "length (assigned (ring p ns) h) = min 3 (card (set ns))"
proof -
  have "set (map m_real (walk (ring p ns) h)) = m_real ` set (ring p ns)"
    by (auto simp: walk_def)
  then show ?thesis
    by (simp add: assigned_def length_uniq set_ring_real del: set_map)
qed


section \<open>Sequences of operations\<close>

datatype hs_op =
    Op_add clocktime address
  | Op_remove clocktime address
  | Op_fault clocktime address
  | Op_recover clocktime address
  | Op_remove_fault clocktime
  | Op_reseed

fun hs_apply :: "platform \<Rightarrow> hs_op \<Rightarrow> hashspace \<Rightarrow> hashspace" where
  "hs_apply p (Op_add ct a) hs = add_server p ct a hs"
| "hs_apply p (Op_remove ct a) hs = fst (remove_server p ct a hs)"
| "hs_apply p (Op_fault ct a) hs = fst (fault_server ct a hs)"
| "hs_apply p (Op_recover ct a) hs = fst (recover_server ct a hs)"
| "hs_apply p (Op_remove_fault ct) hs = fst (remove_fault_servers p ct hs)"
| "hs_apply p Op_reseed hs = hashspace_of_seed p (seed_of hs)"

definition strip :: "virtual_node \<Rightarrow> u64 \<times> address" where
  "strip v = (m_hash v, m_addr (m_real v))"

definition ring_addr :: "platform \<Rightarrow> address list \<Rightarrow> (u64 \<times> address) list" where
  "ring_addr p as = sort_key fst (concat (map (\<lambda>a. map (\<lambda>x. (x, a)) (vnode_hashes p a)) as))"

definition hs_inv :: "platform \<Rightarrow> hashspace \<Rightarrow> bool" where
  "hs_inv p hs \<longleftrightarrow> map strip (m_hashspace hs) = ring_addr p (map m_addr (m_nodes hs))"

lemma map_strip_sort: "map strip (sort_key m_hash vs) = sort_key fst (map strip vs)"
  by (simp add: sort_key_map strip_def)

lemma map_strip_vnodes: "map strip (vnodes p n) = map (\<lambda>x. (x, m_addr n)) (vnode_hashes p (m_addr n))"
  by (simp add: vnodes_def strip_def)

lemma map_strip_ring: "map strip (ring p ns) = ring_addr p (map m_addr ns)"
  by (simp add: ring_def ring_addr_def map_strip_sort map_concat comp_def map_strip_vnodes)

lemma ring_addr_snoc:
  "sort_key fst (ring_addr p as @ map (\<lambda>x. (x, a)) (vnode_hashes p a)) = ring_addr p (as @ [a])"
  by (simp add: ring_addr_def sort_key_sort_key_append)

lemma hs_inv_rehash [simp]: "hs_inv p (rehash p hs)"
  by (simp add: hs_inv_def rehash_ring map_strip_ring)

lemma erase_fault_eq: "erase_fault ns = (filter m_active ns, \<exists>n \<in> set ns. \<not> m_active n)"
  by (induction ns) auto

lemma map_addr_fault: "map m_addr (ns[i := node_fault (ns ! i)]) = map m_addr ns"
  by (cases "i < length ns") (simp_all add: map_update node_fault_def list_update_same_conv list_update_beyond)

lemma map_addr_recover: "map m_addr (ns[i := node_recover (ns ! i)]) = map m_addr ns"
  by (cases "i < length ns") (simp_all add: map_update node_recover_def list_update_same_conv list_update_beyond)

lemma erase_at_distinct:
  assumes "distinct xs" and "i < length xs"
  shows "erase_at i xs = filter (\<lambda>x. x \<noteq> xs ! i) xs"
proof -
  have split: "xs = take i xs @ xs ! i # drop (Suc i) xs"
    using assms(2) by (rule id_take_nth_drop)
  with assms(1) have "xs ! i \<notin> set (take i xs)" "xs ! i \<notin> set (drop (Suc i) xs)"
    by (metis distinct.simps(2) distinct_append not_distinct_conv_prefix disjoint_iff list.set_intros(1))+
  then have "filter (\<lambda>x. x \<noteq> xs ! i) (take i xs @ xs ! i # drop (Suc i) xs) = take i xs @ drop (Suc i) xs"
    by simp
  with split show ?thesis by (simp add: erase_at_def)
qed

lemma hs_inv_apply: "hs_inv p hs \<Longrightarrow> hs_inv p (hs_apply p op hs)"
proof (cases op)
  case (Op_add ct a)
  assume "hs_inv p hs"
  then show ?thesis
    by (simp add: Op_add hs_inv_def add_server_def Let_def add_virtual_nodes_eq map_strip_sort
        map_strip_vnodes ring_addr_snoc)
next
  case (Op_remove_fault ct)
  assume "hs_inv p hs"
  moreover have "\<not> (\<exists>n \<in> set (m_nodes hs). \<not> m_active n) \<Longrightarrow> filter m_active (m_nodes hs) = m_nodes hs"
    by (auto intro: filter_True)
  ultimately show ?thesis
    by (auto simp: Op_remove_fault remove_fault_servers_def erase_fault_eq hs_inv_def [of p "hs\<lparr>m_nodes := ns\<rparr>" for ns] hs_inv_def [of p hs])
qed (auto simp: remove_server_def fault_server_def recover_server_def hashspace_of_seed_def Let_def
    hs_inv_def [of p "hs\<lparr>m_nodes := ns, m_timestamp := ct\<rparr>" for ns ct] map_addr_fault map_addr_recover hs_inv_def [of p hs])

lemma hs_inv_run: "hs_inv p (fold (hs_apply p) ops (hashspace_new ct))"
proof -
  have "hs_inv p hs \<Longrightarrow> hs_inv p (fold (hs_apply p) ops hs)" for hs
    by (induction ops arbitrary: hs) (simp_all add: hs_inv_apply)
  then show ?thesis by (simp add: hashspace_new_def hs_inv_def ring_addr_def)
qed

lemma sorted_ring_addr: "sorted (map fst (ring_addr p as))"
  by (simp add: ring_addr_def)

lemma hs_inv_sorted: "hs_inv p hs \<Longrightarrow> sorted (map m_hash (m_hashspace hs))"
proof -
  have "map fst (map strip (m_hashspace hs)) = map m_hash (m_hashspace hs)"
    by (simp add: strip_def)
  then show "hs_inv p hs \<Longrightarrow> ?thesis"
    unfolding hs_inv_def using sorted_ring_addr [of p "map m_addr (m_nodes hs)"] by simp
qed

lemma hs_inv_length: "hs_inv p hs \<Longrightarrow> length (m_hashspace hs) = 128 * length (m_nodes hs)"
  by (metis hs_inv_def length_map length_ring map_strip_ring)

text \<open>
  C34: after any sequence of ring operations from an empty ring, the vector of virtual
  nodes is sorted by hash, holds exactly the 128 points of each server of the node list,
  and the ring that a receiver builds from the seed is the one the node list describes.
\<close>

theorem hashspace_invariant:
  "let hs = fold (hs_apply p) ops (hashspace_new ct)
   in sorted (map m_hash (m_hashspace hs)) \<and>
      map (\<lambda>v. (m_hash v, m_addr (m_real v))) (m_hashspace hs) = ring_addr p (map m_addr (m_nodes hs)) \<and>
      length (m_hashspace hs) = 128 * length (m_nodes hs) \<and>
      m_hashspace (hashspace_of_seed p (seed_of hs)) = ring p (m_nodes hs) \<and>
      hashspace_eq_seed hs (seed_of hs)"
  using hs_inv_sorted [OF hs_inv_run] hs_inv_length [OF hs_inv_run] hs_inv_run [of p ops ct]
  by (auto simp: Let_def hashspace_of_seed_def rehash_ring seed_of_def hashspace_eq_seed_def
      hs_inv_def strip_def [abs_def])

definition hs_synced :: "platform \<Rightarrow> hashspace \<Rightarrow> bool" where
  "hs_synced p hs \<longleftrightarrow> m_hashspace hs = ring p (m_nodes hs)"

lemma ring_nil_iff: "ring p ns = [] \<longleftrightarrow> ns = []"
  using length_ring [of p ns] by (metis length_0_conv mult_is_0 zero_neq_numeral)

lemma each_assign_synced:
  "hs_synced p hs \<Longrightarrow> m_nodes hs \<noteq> [] \<Longrightarrow> each_assign hs h = Inr (assigned (ring p (m_nodes hs)) h)"
  by (metis each_assign_assigned hs_synced_def ring_nil_iff sorted_ring)

lemma each_assign_empty: "hs_synced p hs \<Longrightarrow> m_nodes hs = [] \<Longrightarrow> each_assign hs h = Inl Undefined_behaviour"
  by (simp add: hs_synced_def ring_def each_assign_def Let_def)

lemma hs_synced_intros [wf_intros]:
  "hs_synced p (hashspace_new ct)"
  "hs_synced p (hashspace_of_seed p s)"
  "hs_synced p hs \<Longrightarrow> hs_synced p (add_server p ct a hs)"
  "hs_synced p hs \<Longrightarrow> hs_synced p (fst (remove_server p ct a hs))"
  "hs_synced p hs \<Longrightarrow> hs_synced p (fst (remove_fault_servers p ct hs))"
proof -
  have "\<not> (\<exists>n \<in> set (m_nodes hs). \<not> m_active n) \<Longrightarrow> filter m_active (m_nodes hs) = m_nodes hs"
    by (auto intro: filter_True)
  then show "hs_synced p hs \<Longrightarrow> hs_synced p (fst (remove_fault_servers p ct hs))"
    by (auto simp: hs_synced_def remove_fault_servers_def erase_fault_eq rehash_ring)
qed (simp_all add: hs_synced_def hashspace_new_def hashspace_of_seed_def rehash_ring ring_def [of p "[]"]
    add_server_def remove_server_def Let_def add_virtual_nodes_eq ring_append)

lemma each_assign_seed:
  assumes "seed_nodes s \<noteq> []"
  shows "each_assign (hashspace_of_seed p s) h = Inr (assigned (ring p (seed_nodes s)) h)"
proof -
  have "m_nodes (hashspace_of_seed p s) = seed_nodes s"
    by (simp add: hashspace_of_seed_def rehash_ring)
  with each_assign_synced [OF hs_synced_intros(2), of p s h] assms show ?thesis by simp
qed

text \<open>A ring of two servers, on which the properties are applied.\<close>

definition sample_addr :: "u8 \<Rightarrow> address" where
  "sample_addr i = Address [0x4c, 0xf4, 10, 0, 0, i, 0, 0]"

definition sample_ring :: hashspace where
  "sample_ring = add_server sample_platform (ClockTime 1) (sample_addr 2)
     (add_server sample_platform (ClockTime 0) (sample_addr 1) (hashspace_new (ClockTime 0)))"

lemma sample_ring_synced: "hs_synced sample_platform sample_ring"
  by (simp add: sample_ring_def wf_intros)

lemma sample_ring_nodes:
  "m_nodes sample_ring = [\<lparr>m_addr = sample_addr 1, m_active = True\<rparr>, \<lparr>m_addr = sample_addr 2, m_active = True\<rparr>]"
  by (simp add: sample_ring_def add_server_def Let_def hashspace_new_def)

text \<open>
  C9: on a ring that matches its node list, \<open>EACH_ASSIGN\<close> visits the first three different
  nodes met clockwise from the hash (at or after it first, then from the start of the
  vector), never a node twice, only nodes of the ring, and three of them as soon as the
  ring has three; on a ring without nodes it reads past the end of the vector.
\<close>

theorem each_assign_clockwise:
  assumes "hs_synced p hs"
  shows "if m_nodes hs = [] then each_assign hs h = Inl Undefined_behaviour
    else \<exists>ns. each_assign hs h = Inr ns \<and>
      ns = take 3 (uniq (map m_real (filter (\<lambda>v. h \<le> m_hash v) (m_hashspace hs) @
                                     filter (\<lambda>v. m_hash v < h) (m_hashspace hs)))) \<and>
      distinct ns \<and> set ns \<subseteq> set (m_nodes hs) \<and> length ns = min 3 (card (set (m_nodes hs)))"
proof (cases "m_nodes hs = []")
  case True
  with assms show ?thesis by (simp add: each_assign_empty)
next
  case False
  have "distinct (assigned (ring p (m_nodes hs)) h)" by (simp add: assigned_def)
  with False assms set_assigned [of p "m_nodes hs" h] length_assigned [of p "m_nodes hs" h] show ?thesis
    by (simp add: each_assign_synced, simp add: assigned_def walk_def not_less hs_synced_def)
qed

theorem each_assign_clockwise_witness:
  "hs_synced sample_platform sample_ring \<and>
   (\<exists>ns. each_assign sample_ring 7 = Inr ns \<and> distinct ns \<and> length ns = 2)"
  using each_assign_clockwise [OF sample_ring_synced, of 7] sample_ring_synced
  by (auto simp: sample_ring_nodes sample_addr_def)

text \<open>
  C7: a server that joins takes keys only for itself. If it is among the nodes a key is
  assigned to, the other two are the first two of the old assignment, in the same order;
  if it is not, the assignment is unchanged. This holds for every hash function, ties
  between virtual nodes included.
\<close>

theorem join_moves_keys_only_to_new_server:
  assumes "hs_synced p hs" and "\<not> server_is_include hs a" and "m_nodes hs \<noteq> []"
  shows "\<exists>old new. each_assign hs h = Inr old \<and> each_assign (add_server p ct a hs) h = Inr new \<and>
    (if \<lparr>m_addr = a, m_active = True\<rparr> \<in> set new
     then filter (\<lambda>n. n \<noteq> \<lparr>m_addr = a, m_active = True\<rparr>) new = take 2 old else new = old)"
proof -
  let ?n = "\<lparr>m_addr = a, m_active = True\<rparr>"
  have notin: "?n \<notin> set (m_nodes hs)"
    using assms(2) find_index_less_iff [of "node_address_equal a" "m_nodes hs"]
    by (force simp: server_is_include_def node_address_equal_def)
  have nodes: "m_nodes (add_server p ct a hs) = m_nodes hs @ [?n]"
    by (simp add: add_server_def Let_def)
  have "filter (\<lambda>v. m_real v \<noteq> ?n) (ring p (m_nodes hs @ [?n])) = ring p (m_nodes hs)"
    using notin filter_ring [of "\<lambda>m. m \<noteq> ?n" p "m_nodes hs @ [?n]"] by simp
  with assigned_join_leave [of ?n "ring p (m_nodes hs @ [?n])" h] nodes
    each_assign_synced [OF assms(1,3), of h] each_assign_synced [OF hs_synced_intros(3) [OF assms(1)], of ct a h]
  show ?thesis by (auto split: if_splits)
qed

theorem join_moves_keys_only_to_new_server_witness:
  "\<not> server_is_include sample_ring (sample_addr 3) \<and>
   (\<exists>old new. each_assign sample_ring 7 = Inr old \<and>
      each_assign (add_server sample_platform (ClockTime 2) (sample_addr 3) sample_ring) 7 = Inr new \<and>
      (if \<lparr>m_addr = sample_addr 3, m_active = True\<rparr> \<in> set new
       then filter (\<lambda>n. n \<noteq> \<lparr>m_addr = sample_addr 3, m_active = True\<rparr>) new = take 2 old else new = old))"
proof -
  have "\<not> server_is_include sample_ring (sample_addr 3)"
    by (simp add: server_is_include_def sample_ring_nodes node_address_equal_def sample_addr_def)
  with join_moves_keys_only_to_new_server [OF sample_ring_synced this, of 7 "ClockTime 2"]
  show ?thesis by (simp add: sample_ring_nodes)
qed

text \<open>
  A server that leaves gives up only its own keys. The keys it did not hold keep
  their assignment; the others keep the remaining nodes, in order, as the first of the new one.
\<close>

theorem leave_moves_only_its_keys:
  assumes "hs_synced p hs" and "distinct (map m_addr (m_nodes hs))"
    and "n \<in> set (m_nodes hs)" and "length (m_nodes hs) > 1"
  shows "\<exists>old new. each_assign hs h = Inr old \<and>
    each_assign (fst (remove_server p ct (m_addr n) hs)) h = Inr new \<and>
    snd (remove_server p ct (m_addr n) hs) \<and>
    (if n \<in> set old then filter (\<lambda>m. m \<noteq> n) old = take 2 new else new = old)"
proof -
  let ?i = "find_index (node_address_equal (m_addr n)) (m_nodes hs)"
  have i: "?i < length (m_nodes hs)"
    using assms(3) by (auto simp: find_index_less_iff node_address_equal_def)
  have at: "m_nodes hs ! ?i = n"
    using find_index_nth [OF i] assms(2,3) i
    by (metis (no_types, lifting) distinct_map in_set_conv_nth inj_onD node_address_equal_def nth_mem)
  have "distinct (m_nodes hs)" using assms(2) by (simp add: distinct_map)
  then have erase: "erase_at ?i (m_nodes hs) = filter (\<lambda>m. m \<noteq> n) (m_nodes hs)"
    using erase_at_distinct [OF _ i] at by simp
  have nodes: "m_nodes (fst (remove_server p ct (m_addr n) hs)) = filter (\<lambda>m. m \<noteq> n) (m_nodes hs)"
    "snd (remove_server p ct (m_addr n) hs)"
    using i erase by (simp_all add: remove_server_def Let_def rehash_ring)
  have "m_nodes (fst (remove_server p ct (m_addr n) hs)) \<noteq> []"
  proof
    assume "m_nodes (fst (remove_server p ct (m_addr n) hs)) = []"
    then have "set (m_nodes hs) \<subseteq> {n}" by (auto simp: nodes filter_empty_conv)
    then have "card (set (m_nodes hs)) \<le> 1" by (metis card_mono finite.emptyI finite.insertI is_singletonI is_singleton_altdef)
    with \<open>distinct (m_nodes hs)\<close> assms(4) show False by (simp add: distinct_card)
  qed
  moreover have "m_nodes hs \<noteq> []" using assms(4) by auto
  ultimately show ?thesis
    using assigned_join_leave [of n "ring p (m_nodes hs)" h] nodes(2)
      each_assign_synced [OF hs_synced_intros(4) [OF assms(1)], of ct "m_addr n" h]
      each_assign_synced [OF assms(1), of h]
    unfolding filter_ring [of "\<lambda>m. m \<noteq> n" p "m_nodes hs"] nodes(1) by (auto split: if_splits)
qed

theorem leave_moves_only_its_keys_witness:
  "\<exists>old new. each_assign sample_ring 7 = Inr old \<and>
     each_assign (fst (remove_server sample_platform (ClockTime 2) (sample_addr 1) sample_ring)) 7 = Inr new \<and>
     (if \<lparr>m_addr = sample_addr 1, m_active = True\<rparr> \<in> set old
      then filter (\<lambda>m. m \<noteq> \<lparr>m_addr = sample_addr 1, m_active = True\<rparr>) old = take 2 new else new = old)"
proof -
  let ?n = "\<lparr>m_addr = sample_addr 1, m_active = True\<rparr>"
  have "distinct (map m_addr (m_nodes sample_ring))" "?n \<in> set (m_nodes sample_ring)"
    "1 < length (m_nodes sample_ring)"
    by (simp_all add: sample_ring_nodes sample_addr_def)
  from leave_moves_only_its_keys [OF sample_ring_synced this, of 7 "ClockTime 2"]
  show ?thesis by (simp only: node.select_convs) blast
qed

text \<open>
  Marking a server fault (or recovering it) never moves a key: in the ring that the
  other processes build from the new seed, every key is assigned to the same addresses in
  the same order, and only the flag of that server differs.
\<close>

theorem fault_keeps_assignment:
  assumes "hs_synced p hs" and "distinct (map m_addr (m_nodes hs))"
    and "server_is_include hs a"
  shows "\<exists>old. each_assign hs h = Inr old \<and>
    each_assign (hashspace_of_seed p (seed_of (fst (fault_server ct a hs)))) h =
      Inr (map (\<lambda>n. if m_addr n = a then node_fault n else n) old) \<and>
    each_assign (hashspace_of_seed p (seed_of (fst (recover_server ct a hs)))) h =
      Inr (map (\<lambda>n. if m_addr n = a then node_recover n else n) old)"
proof -
  let ?i = "find_index (node_address_equal a) (m_nodes hs)"
  have i: "?i < length (m_nodes hs)"
    using assms(3) find_index_le [of "node_address_equal a" "m_nodes hs"] by (simp add: server_is_include_def)
  have flag: "each_assign (hashspace_of_seed p (seed_of (hs\<lparr>m_nodes := (m_nodes hs)[?i := f (m_nodes hs ! ?i)], m_timestamp := ct\<rparr>))) h =
      Inr (map (\<lambda>n. if m_addr n = a then f n else n) (assigned (ring p (m_nodes hs)) h))"
    if f: "\<And>n. m_addr (f n) = m_addr n" for f
  proof -
    let ?g = "\<lambda>n. if m_addr n = a then f n else n"
    have g: "m_addr (?g n) = m_addr n" for n by (simp add: f)
    have "(m_nodes hs)[?i := f (m_nodes hs ! ?i)] = map ?g (m_nodes hs)"
    proof (rule nth_equalityI)
      fix j assume j: "j < length ((m_nodes hs)[?i := f (m_nodes hs ! ?i)])"
      have "m_addr (m_nodes hs ! j) = a \<longleftrightarrow> j = ?i"
        using find_index_nth [OF i] i j assms(2)
        by (metis length_list_update length_map node_address_equal_def nth_eq_iff_index_eq nth_map)
      with j show "(m_nodes hs)[?i := f (m_nodes hs ! ?i)] ! j = map ?g (m_nodes hs) ! j"
        by (simp add: nth_list_update)
    qed simp
    moreover have "inj_on ?g (m_real ` set (ring p (m_nodes hs)))"
      unfolding set_ring_real using assms(2) g by (metis (no_types, lifting) distinct_map inj_on_def)
    moreover have "map ?g (m_nodes hs) \<noteq> []" using i by auto
    ultimately show ?thesis
      using assigned_map [of ?g "ring p (m_nodes hs)" h] by (simp add: each_assign_seed seed_of_def ring_map [OF g])
  qed
  have "m_nodes hs \<noteq> []" using i by auto
  with i flag [of node_fault] flag [of node_recover] assms(1) show ?thesis
    by (simp add: each_assign_synced fault_server_def recover_server_def Let_def node_fault_def node_recover_def)
qed

theorem fault_keeps_assignment_witness:
  "\<exists>old. each_assign sample_ring 7 = Inr old \<and>
     each_assign (hashspace_of_seed sample_platform (seed_of (fst (fault_server (ClockTime 2) (sample_addr 1) sample_ring)))) 7 =
       Inr (map (\<lambda>n. if m_addr n = sample_addr 1 then node_fault n else n) old)"
proof -
  have "server_is_include sample_ring (sample_addr 1)" "distinct (map m_addr (m_nodes sample_ring))"
    by (simp_all add: server_is_include_def sample_ring_nodes node_address_equal_def sample_addr_def)
  with fault_keeps_assignment [OF sample_ring_synced, of "sample_addr 1" 7 "ClockTime 2"]
  show ?thesis by blast
qed


end
