(* ===== verification/Protocol.thy ===== *)
theory Protocol
  imports Storage HashSpace
begin

text \<open>
  The messages (\<open>logic/msgtype.h\<close>, \<open>logic/server.proto.h\<close>,
  \<open>logic/manager.proto.h\<close>, \<open>logic/gateway.proto.h\<close>): keys and values with their
  wire forms, the flags, the requests every process accepts, the values it answers, and the
  actions a handler has besides its change of state.
\<close>

section \<open>Keys\<close>

record dbkey =
  dk_hash :: u64
  dk_key :: bytes

definition dbkey_pack :: "platform \<Rightarrow> dbkey \<Rightarrow> bytes" where
  "dbkey_pack p k = hash_to p (dk_hash k) (replicate KEY_META_SIZE 0) @ dk_key k"

definition dbkey_unpack :: "platform \<Rightarrow> bytes \<Rightarrow> dbkey result" where
  "dbkey_unpack p raw =
     (if length raw < KEY_META_SIZE then Inl Type_error
      else Inr \<lparr>dk_hash = hash_of p raw, dk_key = drop KEY_META_SIZE raw\<rparr>)"

text \<open>
  \<open>raw_data\<close> points in front of the key, at the eight bytes it was read from; they are
  the bytes that \<open>msgpack_pack\<close> writes.
\<close>

definition dbkey_raw :: "platform \<Rightarrow> dbkey \<Rightarrow> bytes" where
  "dbkey_raw p k = dbkey_pack p k"

section \<open>Values\<close>

text \<open>
  A deserialized value keeps the bytes in front of its data, \<open>dv_head\<close>, which
  \<open>raw_data\<close> exposes and \<open>raw_set_clocktime\<close> changes.
\<close>

record dbvalue =
  dv_head :: bytes
  dv_val :: bytes
  dv_clocktime :: clocktime
  dv_meta :: u16

definition dbvalue_pack :: "platform \<Rightarrow> dbvalue \<Rightarrow> bytes" where
  "dbvalue_pack p v =
     meta_to p (dv_meta v) (clocktime_to p (dv_clocktime v) (replicate VALUE_META_SIZE 0)) @ dv_val v"

definition dbvalue_unpack :: "platform \<Rightarrow> bytes \<Rightarrow> dbvalue result" where
  "dbvalue_unpack p raw =
     (if length raw < VALUE_META_SIZE then Inl Type_error
      else Inr \<lparr>dv_head = take VALUE_META_SIZE raw, dv_val = drop VALUE_META_SIZE raw,
                dv_clocktime = clocktime_of p raw, dv_meta = meta_of p raw\<rparr>)"

definition dbvalue_new :: "bytes \<Rightarrow> u16 \<Rightarrow> clocktime \<Rightarrow> dbvalue" where
  "dbvalue_new val meta ct = \<lparr>dv_head = [], dv_val = val, dv_clocktime = ct, dv_meta = meta\<rparr>"

definition dbvalue_raw :: "dbvalue \<Rightarrow> bytes" where
  "dbvalue_raw v = dv_head v @ dv_val v"

definition raw_set_clocktime :: "platform \<Rightarrow> clocktime \<Rightarrow> dbvalue \<Rightarrow> dbvalue" where
  "raw_set_clocktime p ct v = v\<lparr>dv_clocktime := ct, dv_head := clocktime_to p ct (dv_head v)\<rparr>"

text \<open>A value as \<open>msgpack_unpack\<close> leaves it.\<close>

definition dbvalue_ok :: "platform \<Rightarrow> dbvalue \<Rightarrow> bool" where
  "dbvalue_ok p v \<longleftrightarrow> length (dv_head v) = 10 \<and> dv_clocktime v = clocktime_of p (dv_head v) \<and>
     dv_meta v = meta_of p (dv_head v)"

section \<open>Flags\<close>

definition flag_is_set :: "u32 \<Rightarrow> u32 \<Rightarrow> bool" where
  "flag_is_set m flag \<longleftrightarrow> m AND flag \<noteq> 0"

definition store_flags_none :: u32 where "store_flags_none = 0"

definition store_flags_async :: u32 where "store_flags_async = 1"

definition is_async :: "u32 \<Rightarrow> bool" where
  "is_async m = flag_is_set m store_flags_async"

definition replicate_flags_none :: u32 where "replicate_flags_none = 0"

definition replicate_flags_by_rhs :: u32 where "replicate_flags_by_rhs = 1"

definition is_rhs :: "u32 \<Rightarrow> bool" where
  "is_rhs m = flag_is_set m replicate_flags_by_rhs"

definition OP_SET :: u32 where "OP_SET = 0"

definition OP_SET_ASYNC :: u32 where "OP_SET_ASYNC = 1"

definition OP_CAS :: u32 where "OP_CAS = 2"

section \<open>Nodes and addresses on the wire\<close>

definition node_pack :: "node \<Rightarrow> bytes" where
  "node_pack n = (if m_active n then 1 else 0) # dump (m_addr n)"

text \<open>
  \<open>o.via.raw.size-1\<close> is unsigned: an empty string gives a length of \<open>2^32-1\<close>, which the
  constructor of the address refuses, so the flag byte is never read past the end.
\<close>

definition node_unpack :: "bytes \<Rightarrow> node result" where
  "node_unpack raw =
     (case raw of [] \<Rightarrow> Inl (Runtime_error ''unknown address type'')
      | b # bs \<Rightarrow> (case address_of_dump bs of Inl e \<Rightarrow> Inl e
          | Inr a \<Rightarrow> Inr \<lparr>m_addr = a, m_active = (b \<noteq> 0)\<rparr>))"

section \<open>Requests, answers and actions\<close>

datatype rvalue =
    V_nil
  | V_bool bool
  | V_u64 u64
  | V_raw bytes
  | V_str string
  | V_seed seed
  | V_seeds seed seed
  | V_status seed "address list"

datatype server_request =
    S_KeepAlive (adjust_clock: u32)
  | S_HashSpaceSync (wseed: seed) (rseed: seed) (adjust_clock: u32)
  | S_ReplaceCopyStart (hsseed: seed) (adjust_clock: u32) (full: bool)
  | S_ReplaceDeleteStart (hsseed: seed) (adjust_clock: u32)
  | S_ReplaceOffer (offer_addr: address)
  | S_ReplicateSet (adjust_clock: u32) (flags: u32) (rdbkey: dbkey) (rdbval: dbvalue)
  | S_ReplicateDelete (adjust_clock: u32) (flags: u32) (delete_clocktime: clocktime) (rdbkey: dbkey)
  | S_Get (rdbkey: dbkey)
  | S_GetIfModified (rdbkey: dbkey) (if_time: clocktime)
  | S_Set (operation: u32) (rdbkey: dbkey) (rdbval: dbvalue)
  | S_Delete (flags: u32) (rdbkey: dbkey)
  | S_CreateBackup (suffix: string)
  | S_GetStatus (command: u32)
  | S_SetConfig (command: u32) (config_arg: rvalue)

datatype manager_request =
    M_KeepAlive u32
  | M_HashSpaceRequest
  | M_WHashSpaceRequest
  | M_RHashSpaceRequest
  | M_HashSpaceSync seed seed u32
  | M_ReplaceCopyEnd clocktime u32
  | M_ReplaceDeleteEnd clocktime u32
  | M_ReplaceElection seed u32
  | M_GetNodesInfo
  | M_AttachNewServers bool
  | M_DetachFaultServers bool
  | M_CreateBackup string
  | M_SetAutoReplace bool
  | M_StartReplace bool

datatype gateway_request = G_HashSpacePush seed seed

datatype request = To_server server_request | To_manager manager_request | To_gateway gateway_request

text \<open>
  What a handler does besides changing its own state: it answers the request of a responder,
  calls another process (with the callback that takes the reply and the number of timer steps
  after which the call is given up), and submits work to a thread. A call goes to an address
  (\<open>net->get_node(addr)->call\<close>), to a node at hand, or to a client that is not a node.
\<close>

type_synonym responder = nat

datatype ('cb, 'task) action =
    Respond responder rvalue
  | Respond_error responder rvalue
  | Call address request 'cb nat
  | Call_node nat request 'cb nat
  | Call_peer nat request 'cb nat
  | Submit 'task

text \<open>The answer that \<open>DISPATCH_CATCH\<close> sends for an exception that leaves a handler.\<close>

definition dispatch_catch :: "responder \<Rightarrow> kerror \<Rightarrow> ('cb, 'task) action" where
  "dispatch_catch rid e =
     Respond_error rid (V_u64 (case e of Unknown_method_error \<Rightarrow> 5 | Type_error \<Rightarrow> 5 | _ \<Rightarrow> 6))"

section \<open>Round trips\<close>

lemma dbkey_unpack_pack: "dbkey_unpack p (dbkey_pack p k) = Inr k"
  by (simp add: dbkey_unpack_def dbkey_pack_def length_hash_to)

lemma dbkey_pack_unpack: "dbkey_unpack p raw = Inr k \<Longrightarrow> dbkey_pack p k = raw"
  by (auto simp: dbkey_unpack_def dbkey_pack_def hash_to_def hash_of_def store_load_u64 split: if_splits)

lemma dbkey_pack_inj: "dbkey_pack p k = dbkey_pack p k' \<longleftrightarrow> k = k'"
  by (metis dbkey_unpack_pack sum.inject(2))

lemma length_dbkey_raw: "length (dbkey_raw p k) = 8 + length (dk_key k)"
  by (simp add: dbkey_raw_def dbkey_pack_def length_hash_to)

lemma hash_of_dbkey_raw [simp]: "hash_of p (dbkey_raw p k) = dk_hash k"
  by (simp add: dbkey_raw_def dbkey_pack_def)

lemma dbvalue_unpack_ok: "dbvalue_unpack p raw = Inr v \<Longrightarrow> dbvalue_ok p v \<and> dbvalue_raw v = raw"
  by (auto simp: dbvalue_unpack_def dbvalue_ok_def dbvalue_raw_def clocktime_of_def meta_of_def take_drop
      split: if_splits)

lemma dbvalue_raw_clocktime: "dbvalue_ok p v \<Longrightarrow> clocktime_of p (dbvalue_raw v) = dv_clocktime v"
  by (simp add: dbvalue_ok_def dbvalue_raw_def clocktime_of_def)

lemma length_dbvalue_raw: "dbvalue_ok p v \<Longrightarrow> length (dbvalue_raw v) = 10 + length (dv_val v)"
  by (simp add: dbvalue_ok_def dbvalue_raw_def)

lemma dbvalue_ok_set_clocktime:
  assumes "dbvalue_ok p v"
  shows "dbvalue_ok p (raw_set_clocktime p ct v)"
proof -
  have "meta_of p (clocktime_to p ct (dv_head v)) = meta_of p (dv_head v)"
    by (simp add: meta_of_def clocktime_to_def)
  with assms show ?thesis
    by (simp add: dbvalue_ok_def raw_set_clocktime_def length_clocktime_to)
qed

lemma dbvalue_unpack_pack:
  "\<exists>v'. dbvalue_unpack p (dbvalue_pack p v) = Inr v' \<and> dbvalue_ok p v' \<and> dv_val v' = dv_val v \<and>
     dv_clocktime v' = dv_clocktime v \<and> dv_meta v' = (if le_macro p then 0 else dv_meta v)"
proof -
  let ?hd = "meta_to p (dv_meta v) (clocktime_to p (dv_clocktime v) (replicate 10 0))"
  have len: "length ?hd = 10" by (simp add: length_meta_to length_clocktime_to)
  have "meta_of p (?hd @ dv_val v) = (if le_macro p then 0 else dv_meta v)"
    using meta_of_to [of "clocktime_to p (dv_clocktime v) (replicate 10 0)" p "dv_meta v" "dv_val v"]
    by (simp add: meta_of_swapped length_clocktime_to)
  moreover have "clocktime_of p (?hd @ dv_val v) = dv_clocktime v"
    by (simp add: length_clocktime_to)
  ultimately show ?thesis
    using len dbvalue_unpack_ok [of p "?hd @ dv_val v"]
    by (simp add: dbvalue_unpack_def dbvalue_pack_def)
qed

lemma node_unpack_pack: "address_ok (m_addr n) \<Longrightarrow> node_unpack (node_pack n) = Inr n"
  by (cases n) (simp add: node_unpack_def node_pack_def dump_inverse)

lemma flag_none [simp]: "\<not> is_rhs replicate_flags_none" "\<not> is_async store_flags_none"
  by (simp_all add: is_rhs_def is_async_def flag_is_set_def replicate_flags_none_def store_flags_none_def)

lemma flag_set [simp]: "is_rhs replicate_flags_by_rhs" "is_async store_flags_async"
  by (simp_all add: is_rhs_def is_async_def flag_is_set_def replicate_flags_by_rhs_def
      store_flags_async_def)

text \<open>
  Keys, values and nodes survive the wire. A key comes back with its hash, and the bytes
  it is stored under are the ones that were sent; a value comes back with its data and its
  stamp (and its 16-bit field, unless the build swaps it away); anything shorter than the
  fixed header is a type error.
\<close>

theorem wire_roundtrip:
  assumes "address_ok (m_addr n)"
  shows "dbkey_unpack p (dbkey_pack p k) = Inr k \<and>
    (\<forall>raw. dbkey_unpack p raw = (if length raw < 8 then Inl Type_error
       else Inr \<lparr>dk_hash = hash_of p raw, dk_key = drop 8 raw\<rparr>)) \<and>
    (\<exists>v'. dbvalue_unpack p (dbvalue_pack p v) = Inr v' \<and> dv_val v' = dv_val v \<and>
       dv_clocktime v' = dv_clocktime v \<and> dv_meta v' = (if le_macro p then 0 else dv_meta v) \<and>
       dbvalue_raw v' = dbvalue_pack p v) \<and>
    (\<forall>raw. length raw < 10 \<longleftrightarrow> dbvalue_unpack p raw = Inl Type_error) \<and>
    node_unpack (node_pack n) = Inr n"
  using assms dbkey_unpack_pack [of p k] dbvalue_unpack_pack [of p v] node_unpack_pack [of n]
    dbvalue_unpack_ok [of p "dbvalue_pack p v"]
  by (auto simp: dbkey_unpack_def dbvalue_unpack_def)

theorem wire_roundtrip_witness:
  "dbkey_unpack sample_platform (dbkey_pack sample_platform \<lparr>dk_hash = 5, dk_key = [1, 2]\<rparr>) =
     Inr \<lparr>dk_hash = 5, dk_key = [1, 2]\<rparr> \<and>
   node_unpack (node_pack \<lparr>m_addr = sample_addr 1, m_active = False\<rparr>) =
     Inr \<lparr>m_addr = sample_addr 1, m_active = False\<rparr>"
proof -
  have "address_ok (m_addr \<lparr>m_addr = sample_addr 1, m_active = False\<rparr>)"
    by (simp add: address_ok_def sample_addr_def)
  from wire_roundtrip [OF this] show ?thesis by blast
qed

end
