(* ===== verification/ServerStore.thy ===== *)
theory ServerStore
  imports Protocol
begin

text \<open>
  The storage server's state (\<open>logic/server/framework.h\<close>) and its module \<open>mod_store\<close>
  (\<open>logic/server/mod_store.cc\<close>): the checks of responsibility, the choice of replicas, the
  handlers of reads and writes, and the replies of the replicas that finish a write.

  A handler gives the exception that leaves it, if one does, the new state and the actions it
  has taken up to there. What a write allocates in its zone and shares with its callbacks
  (the counter of outstanding copies, the two retry objects, the responder) is a record in
  the state, named by a number.
\<close>

section \<open>State\<close>

record rep_ctx =
  cx_responder :: responder
  cx_copy_required :: u32
  cx_rretry :: u16
  cx_wretry :: u16
  cx_rparam :: server_request
  cx_wparam :: server_request
  cx_clocktime :: clocktime
  cx_deleted :: bool

text \<open>\<open>mod_replace_t::replace_state\<close>; the counter is an \<open>int\<close>.\<close>

record replace_state =
  m_push_waiting :: int
  m_clocktime :: clocktime
  m_mgr :: address

text \<open>An accumulator of records to send: for whom, for which replacement, and the records; \<open>acc_flushed\<close> once the terminating nil is written.\<close>

record accumulator =
  acc_addr :: address
  acc_replace_time :: clocktime
  acc_items :: "(bytes \<times> bytes) list"
  acc_flushed :: bool

record 'd server =
  s_addr :: address
  s_clock :: clock_logic
  s_rhs :: hashspace
  s_whs :: hashspace
  s_db :: "'d storage"
  s_manager1 :: address
  s_manager2 :: address
  s_stream_addr :: address
  s_backup_basename :: string
  s_replicate_set_retry_num :: u16
  s_replicate_delete_retry_num :: u16
  s_replace_set_limit_mem :: u16
  s_start_time :: u64
  s_num_get :: u64
  s_num_set :: u64
  s_num_delete :: u64
  s_ctxs :: "nat \<Rightarrow> rep_ctx option"
  s_next_ctx :: nat
  s_replace :: replace_state
  s_copying :: bool
  s_deleting :: bool
  s_accum_set :: "accumulator list"

datatype server_cb =
    Cb_ReplicateSet nat bool
  | Cb_ReplicateDelete nat bool
  | Cb_KeepAlive
  | Cb_WHashSpaceRequest
  | Cb_RHashSpaceRequest
  | Cb_ReplaceCopyEnd
  | Cb_ReplaceDeleteEnd
  | Cb_ReplaceOffer address

datatype server_task =
    T_replace_copy address hashspace
  | T_full_replace_copy address hashspace
  | T_replace_delete address hashspace
  | T_create_backup string responder

type_synonym server_action = "(server_cb, server_task) action"

type_synonym 'd server_out = "kerror option \<times> 'd server \<times> server_action list"

definition NUM_REPLICATION :: nat where
  "NUM_REPLICATION = 2"

section \<open>Responsibility for a key\<close>

definition check_replicator_assign :: "address \<Rightarrow> hashspace \<Rightarrow> u64 \<Rightarrow> unit result" where
  "check_replicator_assign self hs h =
     (if hs_empty hs then Inl (Runtime_error ''server not ready'')
      else case each_assign hs h of
             Inl e \<Rightarrow> Inl e
           | Inr ns \<Rightarrow>
               if \<exists>r \<in> set ns. m_active r \<and> m_addr r = self then Inr ()
               else Inl (Runtime_error ''obsolete hash space''))"

definition check_coordinator_assign :: "address \<Rightarrow> hashspace \<Rightarrow> u64 \<Rightarrow> unit result" where
  "check_coordinator_assign self hs h =
     (if hs_empty hs then Inl (Runtime_error ''server not ready'')
      else case each_assign hs h of
             Inl e \<Rightarrow> Inl e
           | Inr ns \<Rightarrow>
               (case find m_active ns of
                  None \<Rightarrow> Inr ()
                | Some r \<Rightarrow> if m_addr r \<noteq> self then Inl (Runtime_error ''obsolete hash space'') else Inr ()))"

text \<open>\<open>EACH_ASSIGNED_ACTIVE_NODE_EXCLUDE_ONE\<close> and \<open>_N\<close>: the nodes the body runs on, as addresses.\<close>

definition assigned_active_excluding :: "address list \<Rightarrow> hashspace \<Rightarrow> u64 \<Rightarrow> address list result" where
  "assigned_active_excluding excludes hs h =
     (case each_assign hs h of Inl e \<Rightarrow> Inl e
      | Inr ns \<Rightarrow> Inr (map m_addr (filter (\<lambda>r. m_active r \<and> m_addr r \<notin> set excludes) ns)))"

text \<open>
  The replicas of a write, for the reading ring and for the writing ring. The caller's
  arrays have \<open>NUM_REPLICATION\<close> entries; one more is a write outside them.
\<close>

definition calc_replicators ::
    "address \<Rightarrow> hashspace \<Rightarrow> hashspace \<Rightarrow> u64 \<Rightarrow> (address list \<times> address list) result" where
  "calc_replicators self whs rhs h =
     (case check_coordinator_assign self whs h of
        Inl e \<Rightarrow> Inl e
      | Inr _ \<Rightarrow>
          (case assigned_active_excluding [self] whs h of
             Inl e \<Rightarrow> Inl e
           | Inr wrepto \<Rightarrow>
               if m_timestamp whs = m_timestamp rhs then
                 (if NUM_REPLICATION < length wrepto then Inl Undefined_behaviour else Inr ([], wrepto))
               else if hs_empty rhs then Inl (Runtime_error ''server not ready'')
               else if NUM_REPLICATION < length wrepto then Inl Undefined_behaviour
               else (case assigned_active_excluding (wrepto @ [self]) rhs h of
                       Inl e \<Rightarrow> Inl e
                     | Inr rrepto \<Rightarrow>
                         if NUM_REPLICATION < length rrepto then Inl Undefined_behaviour
                         else Inr (rrepto, wrepto))))"

section \<open>Reading\<close>

definition raw_answer :: "bytes option \<Rightarrow> rvalue" where
  "raw_answer raw_val = (case raw_val of Some v \<Rightarrow> V_raw v | None \<Rightarrow> V_nil)"

definition rpc_Get :: "platform \<Rightarrow> 'd kumo_storage_op \<Rightarrow> responder \<Rightarrow> dbkey \<Rightarrow> 'd server \<Rightarrow> 'd server_out" where
  "rpc_Get p op rid key s =
     (case check_replicator_assign (s_addr s) (s_rhs s) (dk_hash key) of
        Inl e \<Rightarrow> (Some e, s, [])
      | Inr _ \<Rightarrow> (None, s\<lparr>s_num_get := s_num_get s + 1\<rparr>,
                [Respond rid (raw_answer (storage_get op (s_db s) (dbkey_raw p key)))]))"

definition rpc_GetIfModified ::
    "platform \<Rightarrow> 'd kumo_storage_op \<Rightarrow> responder \<Rightarrow> dbkey \<Rightarrow> clocktime \<Rightarrow> 'd server \<Rightarrow> 'd server_out" where
  "rpc_GetIfModified p op rid key iftime s =
     (case check_replicator_assign (s_addr s) (s_rhs s) (dk_hash key) of
        Inl e \<Rightarrow> (Some e, s, [])
      | Inr _ \<Rightarrow>
          if cache_is_valid p op (s_db s) (dbkey_raw p key) iftime
          then (None, s, [Respond rid (V_bool True)])
          else (None, s\<lparr>s_num_get := s_num_get s + 1\<rparr>,
                [Respond rid (raw_answer (storage_get op (s_db s) (dbkey_raw p key)))]))"

section \<open>Writing\<close>

text \<open>
  The calls that carry a write to its replicas, those of the reading ring first. The
  key and the value are built again from their raw bytes.
\<close>

definition replicate_calls ::
    "(nat \<Rightarrow> bool \<Rightarrow> server_cb) \<Rightarrow> nat \<Rightarrow> server_request \<Rightarrow> server_request \<Rightarrow> address list \<Rightarrow> address list \<Rightarrow> server_action list" where
  "replicate_calls cb cid rparam wparam rrepto wrepto =
     map (\<lambda>a. Call a (To_server rparam) (cb cid True) 10) rrepto @
     map (\<lambda>a. Call a (To_server wparam) (cb cid False) 10) wrepto"

definition new_ctx :: "rep_ctx \<Rightarrow> 'd server \<Rightarrow> 'd server" where
  "new_ctx cx s = s\<lparr>s_ctxs := (s_ctxs s)(s_next_ctx s \<mapsto> cx), s_next_ctx := Suc (s_next_ctx s)\<rparr>"

text \<open>The part of \<open>Set\<close> after the stamp is drawn and a compare-and-swap has succeeded.\<close>

definition set_replicate ::
    "platform \<Rightarrow> 'd kumo_storage_op \<Rightarrow> responder \<Rightarrow> u32 \<Rightarrow> dbkey \<Rightarrow> dbvalue \<Rightarrow> clocktime \<Rightarrow>
     address list \<Rightarrow> address list \<Rightarrow> 'd server \<Rightarrow> 'd server_out" where
  "set_replicate p op rid oper key val ct rrepto wrepto s =
     (let rparam = S_ReplicateSet (ct_clock ct) replicate_flags_by_rhs key val;
          wparam = S_ReplicateSet (ct_clock ct) replicate_flags_none key val;
          pcr = (if oper = OP_SET_ASYNC then 0 else of_nat (length wrepto + length rrepto));
          cid = s_next_ctx s;
          s1 = new_ctx \<lparr>cx_responder = rid, cx_copy_required = pcr, cx_rretry = 0, cx_wretry = 0,
                 cx_rparam = rparam, cx_wparam = wparam, cx_clocktime = ct, cx_deleted = False\<rparr> s;
          calls = replicate_calls Cb_ReplicateSet cid rparam wparam rrepto wrepto;
          (err, db) = (if oper = OP_CAS then (None, s_db s1)
                       else storage_set op (s_db s1) (dbkey_raw p key) (dbvalue_raw val));
          s2 = s1\<lparr>s_db := db\<rparr>
      in case err of
           Some e \<Rightarrow> (Some e, s2, calls)
         | None \<Rightarrow>
             (None, s2\<lparr>s_num_set := s_num_set s2 + 1\<rparr>,
              calls @ (if (wrepto = [] \<and> rrepto = []) \<or> oper = OP_SET_ASYNC
                       then [Respond rid (V_u64 (ct_get ct))] else [])))"

definition rpc_Set ::
    "platform \<Rightarrow> 'd kumo_storage_op \<Rightarrow> responder \<Rightarrow> u32 \<Rightarrow> dbkey \<Rightarrow> dbvalue \<Rightarrow> 'd server \<Rightarrow> 'd server_out" where
  "rpc_Set p op rid oper key val s =
     (if oper \<noteq> OP_SET \<and> oper \<noteq> OP_SET_ASYNC \<and> oper \<noteq> OP_CAS then (Some Type_error, s, [])
      else case calc_replicators (s_addr s) (s_whs s) (s_rhs s) (dk_hash key) of
             Inl e \<Rightarrow> (Some e, s, [])
           | Inr (rrepto, wrepto) \<Rightarrow>
               (let cas_require = dv_clocktime val;
                    (ct, clk) = clock_incr_clocktime (s_clock s);
                    val' = raw_set_clocktime p ct val;
                    s1 = s\<lparr>s_clock := clk\<rparr>
                in if oper = OP_CAS then
                     (let (success, db) = storage_cas p op (s_db s1) (dbkey_raw p key) (dbvalue_raw val') cas_require;
                          s2 = s1\<lparr>s_db := db\<rparr>
                      in if \<not> success then (None, s2, [Respond rid (V_bool False)])
                         else set_replicate p op rid oper key val' ct rrepto wrepto s2)
                   else set_replicate p op rid oper key val' ct rrepto wrepto s1))"

definition rpc_Delete ::
    "platform \<Rightarrow> 'd kumo_storage_op \<Rightarrow> responder \<Rightarrow> u32 \<Rightarrow> dbkey \<Rightarrow> 'd server \<Rightarrow> 'd server_out" where
  "rpc_Delete p op rid fl key s =
     (case calc_replicators (s_addr s) (s_whs s) (s_rhs s) (dk_hash key) of
        Inl e \<Rightarrow> (Some e, s, [])
      | Inr (rrepto, wrepto0) \<Rightarrow>
          (let (ct, clk) = clock_incr_clocktime (s_clock s);
               (deleted, db) = storage_remove p op (s_db s) (dbkey_raw p key) ct;
               s1 = s\<lparr>s_clock := clk, s_db := db\<rparr>
           in if \<not> deleted \<and> rrepto = [] then (None, s1, [Respond rid (V_bool False)])
              else let wrepto = (if deleted then wrepto0 else []);
                       rparam = S_ReplicateDelete (ct_clock ct) replicate_flags_by_rhs ct key;
                       wparam = S_ReplicateDelete (ct_clock ct) replicate_flags_none ct key;
                       pcr = (if is_async fl then 0 else of_nat (length wrepto + length rrepto));
                       cid = s_next_ctx s1;
                       s2 = new_ctx \<lparr>cx_responder = rid, cx_copy_required = pcr, cx_rretry = 0, cx_wretry = 0,
                              cx_rparam = rparam, cx_wparam = wparam, cx_clocktime = ct, cx_deleted = deleted\<rparr> s1
                   in (None, s2\<lparr>s_num_delete := s_num_delete s2 + 1\<rparr>,
                       (if (wrepto = [] \<and> rrepto = []) \<or> is_async fl then [Respond rid (V_bool True)] else []) @
                       replicate_calls Cb_ReplicateDelete cid rparam wparam rrepto wrepto)))"

section \<open>Replies of the replicas\<close>

text \<open>
  \<open>retry_incr\<close> counts in 16 bits. A retry object is shared by all calls of its ring, so
  its budget is too.
\<close>

definition retry_incr :: "u16 \<Rightarrow> u16 \<Rightarrow> bool \<times> u16" where
  "retry_incr m_limit limit = (m_limit + 1 \<le> limit, m_limit + 1)"

definition cx_retry_incr :: "bool \<Rightarrow> u16 \<Rightarrow> rep_ctx \<Rightarrow> bool \<times> rep_ctx" where
  "cx_retry_incr rhs limit cx =
     (if rhs then (let (ok, n) = retry_incr (cx_rretry cx) limit in (ok, cx\<lparr>cx_rretry := n\<rparr>))
      else (let (ok, n) = retry_incr (cx_wretry cx) limit in (ok, cx\<lparr>cx_wretry := n\<rparr>)))"

definition cx_param :: "bool \<Rightarrow> rep_ctx \<Rightarrow> server_request" where
  "cx_param rhs cx = (if rhs then cx_rparam cx else cx_wparam cx)"

text \<open>
  The common course of the two reply handlers: retry on an error while the session is
  alive and the budget lasts; give up with nil when a replica of the writing ring fails for
  good; otherwise count the copy, and answer when it was the last one.
\<close>

definition replicate_reply ::
    "(nat \<Rightarrow> bool \<Rightarrow> server_cb) \<Rightarrow> u16 \<Rightarrow> (rep_ctx \<Rightarrow> rvalue) \<Rightarrow> nat \<Rightarrow> bool \<Rightarrow> address \<Rightarrow> bool \<Rightarrow> bool \<Rightarrow>
     rep_ctx \<Rightarrow> 'd server \<Rightarrow> 'd server_out" where
  "replicate_reply cb limit answer cid rhs from active failed cx s =
     (let put = (\<lambda>cx'. s\<lparr>s_ctxs := (s_ctxs s)(cid \<mapsto> cx')\<rparr>);
          (again, cx1) = (if failed \<and> active then cx_retry_incr rhs limit cx else (False, cx))
      in if failed \<and> active \<and> again
         then (None, put cx1, [Call from (To_server (cx_param rhs cx1)) (cb cid rhs) 10])
         else if failed \<and> \<not> is_rhs (flags (cx_param rhs cx1))
         then (None, put cx1, [Respond (cx_responder cx1) V_nil])
         else let cx2 = cx1\<lparr>cx_copy_required := cx_copy_required cx1 - 1\<rparr>
              in (None, put cx2, if cx_copy_required cx2 = 0 then [Respond (cx_responder cx2) (answer cx2)] else []))"

definition res_ReplicateSet ::
    "nat \<Rightarrow> bool \<Rightarrow> address \<Rightarrow> bool \<Rightarrow> rvalue \<Rightarrow> rvalue \<Rightarrow> 'd server \<Rightarrow> 'd server_out" where
  "res_ReplicateSet cid rhs from active res err s =
     (case s_ctxs s cid of
        None \<Rightarrow> (Some Undefined_behaviour, s, [])
      | Some cx \<Rightarrow>
          replicate_reply Cb_ReplicateSet (s_replicate_set_retry_num s)
            (\<lambda>cx. V_u64 (ct_get (cx_clocktime cx))) cid rhs from active (err \<noteq> V_nil) cx s)"

definition res_ReplicateDelete ::
    "nat \<Rightarrow> bool \<Rightarrow> address \<Rightarrow> bool \<Rightarrow> rvalue \<Rightarrow> rvalue \<Rightarrow> 'd server \<Rightarrow> 'd server_out" where
  "res_ReplicateDelete cid rhs from active res err s =
     (case s_ctxs s cid of
        None \<Rightarrow> (Some Undefined_behaviour, s, [])
      | Some cx \<Rightarrow>
          replicate_reply Cb_ReplicateDelete (s_replicate_delete_retry_num s)
            (\<lambda>cx. V_bool (cx_deleted cx \<or> (is_rhs (flags (cx_param rhs cx)) \<and> res = V_bool True)))
            cid rhs from active (err \<noteq> V_nil) cx s)"

section \<open>Being a replica\<close>

definition check_replica :: "u32 \<Rightarrow> u64 \<Rightarrow> 'd server \<Rightarrow> unit result" where
  "check_replica fl h s =
     (if is_rhs fl then check_replicator_assign (s_addr s) (s_rhs s) h
      else check_replicator_assign (s_addr s) (s_whs s) h)"

definition rpc_ReplicateSet ::
    "platform \<Rightarrow> 'd kumo_storage_op \<Rightarrow> responder \<Rightarrow> u32 \<Rightarrow> u32 \<Rightarrow> dbkey \<Rightarrow> dbvalue \<Rightarrow> 'd server \<Rightarrow> 'd server_out" where
  "rpc_ReplicateSet p op rid aclock fl key val s =
     (case check_replica fl (dk_hash key) s of
        Inl e \<Rightarrow> (Some e, s, [])
      | Inr _ \<Rightarrow>
          (let clk = clock_update aclock (s_clock s);
               (updated, db) = storage_update p op (s_db s) (dbkey_raw p key) (dbvalue_raw val)
           in (None, s\<lparr>s_clock := clk, s_db := db\<rparr>, [Respond rid (V_bool updated)])))"

definition rpc_ReplicateDelete ::
    "platform \<Rightarrow> 'd kumo_storage_op \<Rightarrow> responder \<Rightarrow> u32 \<Rightarrow> u32 \<Rightarrow> clocktime \<Rightarrow> dbkey \<Rightarrow> 'd server \<Rightarrow> 'd server_out" where
  "rpc_ReplicateDelete p op rid aclock fl ct key s =
     (case check_replica fl (dk_hash key) s of
        Inl e \<Rightarrow> (Some e, s, [])
      | Inr _ \<Rightarrow>
          (let clk = clock_update aclock (s_clock s);
               (deleted, db) = storage_remove p op (s_db s) (dbkey_raw p key) ct
           in (None, s\<lparr>s_clock := clk, s_db := db\<rparr>, [Respond rid (V_bool deleted)])))"

end
