(* ===== verification/ServerReplace.thy ===== *)
theory ServerReplace
  imports ServerStore
begin

text \<open>
  Replacement on a storage server: \<open>mod_replace\<close> (\<open>logic/server/mod_replace.cc\<close>), which
  copies records to the servers that become responsible for them and later deletes what the
  server no longer holds, and \<open>mod_replace_stream\<close>
  (\<open>logic/server/mod_replace_stream.cc\<close>), which carries the copies.

  The work that \<open>wavy::submit\<close> hands to a thread is one function. Two things outside the
  sources are parameters: the size of the compressed stream of an accumulator (\<open>zsize\<close>, which
  only matters for the memory limit), and, for the loop that waits until all offers are taken,
  the state in which it finds the set of accumulators empty (\<open>wait\<close>, \<open>None\<close> when it waits
  for ever).
\<close>

section \<open>The state of a replacement\<close>

definition replace_state_new :: replace_state where
  "replace_state_new = \<lparr>m_push_waiting = 0, m_clocktime = ClockTime 0, m_mgr = address_nil\<rparr>"

definition replace_state_reset :: "address \<Rightarrow> clocktime \<Rightarrow> replace_state \<Rightarrow> replace_state" where
  "replace_state_reset mgr ct st = st\<lparr>m_push_waiting := 0, m_clocktime := ct, m_mgr := mgr\<rparr>"

definition pushed :: "clocktime \<Rightarrow> replace_state \<Rightarrow> replace_state" where
  "pushed ct st = (if ct = m_clocktime st then st\<lparr>m_push_waiting := m_push_waiting st + 1\<rparr> else st)"

definition push_returned :: "clocktime \<Rightarrow> replace_state \<Rightarrow> replace_state" where
  "push_returned ct st = (if ct = m_clocktime st then st\<lparr>m_push_waiting := m_push_waiting st - 1\<rparr> else st)"

definition is_finished :: "clocktime \<Rightarrow> replace_state \<Rightarrow> bool" where
  "is_finished ct st \<longleftrightarrow> m_clocktime st = ct \<and> m_push_waiting st = 0"

definition replace_invalidate :: "replace_state \<Rightarrow> replace_state" where
  "replace_invalidate st = st\<lparr>m_push_waiting := -1\<rparr>"

definition replace_offer_push :: "clocktime \<Rightarrow> 'd server \<Rightarrow> 'd server" where
  "replace_offer_push ct s = s\<lparr>s_replace := pushed ct (s_replace s)\<rparr>"

definition finish_replace_copy :: "clocktime \<Rightarrow> 'd server \<Rightarrow> 'd server \<times> server_action list" where
  "finish_replace_copy replace_time s =
     (let (c, clk) = clock_incr (s_clock s); addr = m_mgr (s_replace s)
      in (s\<lparr>s_clock := clk, s_replace := replace_invalidate (s_replace s)\<rparr>,
          [Call addr (To_manager (M_ReplaceCopyEnd replace_time c)) Cb_ReplaceCopyEnd 10]))"

definition replace_offer_pop :: "clocktime \<Rightarrow> 'd server \<Rightarrow> 'd server \<times> server_action list" where
  "replace_offer_pop ct s =
     (let s1 = s\<lparr>s_replace := push_returned ct (s_replace s)\<rparr>
      in if is_finished ct (s_replace s1) then finish_replace_copy ct s1 else (s1, []))"

section \<open>Offers\<close>

definition accum_set_find :: "accumulator list \<Rightarrow> address \<Rightarrow> nat option" where
  "accum_set_find accs addr =
     (let it = lower_bound (\<lambda>x. acc_addr x < addr) accs
      in if it \<noteq> length accs \<and> acc_addr (accs ! it) = addr then Some it else None)"

definition accum_add :: "bytes \<Rightarrow> bytes \<Rightarrow> accumulator \<Rightarrow> accumulator" where
  "accum_add key val a = a\<lparr>acc_items := acc_items a @ [(key, val)]\<rparr>"

definition accum_flush :: "accumulator \<Rightarrow> accumulator" where
  "accum_flush a = a\<lparr>acc_flushed := True\<rparr>"

record offer_storage =
  off_set :: "accumulator list"
  off_replace_time :: clocktime

definition offer_new :: "clocktime \<Rightarrow> offer_storage" where
  "offer_new ct = \<lparr>off_set = [], off_replace_time = ct\<rparr>"

text \<open>
  \<open>add\<close>: a new accumulator is pushed back, the vector sorted, and the record added through
  the shared pointer, which finds it wherever it went.
\<close>

definition offer_add :: "address \<Rightarrow> bytes \<Rightarrow> bytes \<Rightarrow> offer_storage \<Rightarrow> offer_storage" where
  "offer_add addr key val off =
     (case accum_set_find (off_set off) addr of
        Some it \<Rightarrow> off\<lparr>off_set := (off_set off)[it := accum_add key val (off_set off ! it)]\<rparr>
      | None \<Rightarrow>
          (let accum = \<lparr>acc_addr = addr, acc_replace_time = off_replace_time off, acc_items = [], acc_flushed = False\<rparr>
           in off\<lparr>off_set := sort_key acc_addr (off_set off @ [accum_add key val accum])\<rparr>))"

definition offer_stream_size :: "(accumulator \<Rightarrow> u64) \<Rightarrow> address \<Rightarrow> offer_storage \<Rightarrow> u64" where
  "offer_stream_size zsize addr off =
     (case accum_set_find (off_set off) addr of Some it \<Rightarrow> zsize (off_set off ! it) | None \<Rightarrow> 0)"

text \<open>\<open>send_offer\<close>: the set of accumulators is replaced, and every server in it gets an offer.\<close>

definition send_offer :: "offer_storage \<Rightarrow> clocktime \<Rightarrow> 'd server \<Rightarrow> 'd server \<times> server_action list" where
  "send_offer off replace_time s =
     (let accs = map accum_flush (off_set off);
          s1 = s\<lparr>s_accum_set := accs\<rparr>
      in (fold (\<lambda>a s. replace_offer_push replace_time s) accs s1,
          map (\<lambda>a. Call (acc_addr a) (To_server (S_ReplaceOffer (s_stream_addr s))) (Cb_ReplaceOffer (acc_addr a)) 160) accs))"

text \<open>The reply to an offer, which always is the timeout: the accumulator is dropped.\<close>

definition res_ReplaceOffer :: "address \<Rightarrow> 'd server \<Rightarrow> 'd server_out" where
  "res_ReplaceOffer addr s =
     (case accum_set_find (s_accum_set s) addr of
        None \<Rightarrow> (None, s, [])
      | Some it \<Rightarrow> (None, s\<lparr>s_accum_set := erase_at it (s_accum_set s)\<rparr>, []))"

section \<open>Starting a replacement\<close>

definition rpc_ReplaceCopyStart ::
    "platform \<Rightarrow> responder \<Rightarrow> address \<Rightarrow> seed \<Rightarrow> u32 \<Rightarrow> bool \<Rightarrow> 'd server \<Rightarrow> 'd server_out" where
  "rpc_ReplaceCopyStart p rid from sd aclock is_full s =
     (let s1 = s\<lparr>s_clock := clock_update aclock (s_clock s)\<rparr>; hs = hashspace_of_seed p sd
      in (None, s1, [Respond rid (V_bool True),
                     Submit (if is_full then T_full_replace_copy from hs else T_replace_copy from hs)]))"

definition rpc_ReplaceDeleteStart ::
    "platform \<Rightarrow> responder \<Rightarrow> address \<Rightarrow> seed \<Rightarrow> u32 \<Rightarrow> 'd server \<Rightarrow> 'd server_out" where
  "rpc_ReplaceDeleteStart p rid from sd aclock s =
     (let s1 = s\<lparr>s_clock := clock_update aclock (s_clock s)\<rparr>; hs = hashspace_of_seed p sd
      in (None, s1, [Respond rid (V_bool True), Submit (T_replace_delete from hs)]))"

section \<open>Copying\<close>

definition test_replicator_assign :: "hashspace \<Rightarrow> u64 \<Rightarrow> address \<Rightarrow> bool result" where
  "test_replicator_assign hs h target =
     (case each_assign hs h of Inl e \<Rightarrow> Inl e
      | Inr ns \<Rightarrow> Inr (\<exists>r \<in> set ns. m_active r \<and> m_addr r = target))"

definition active_assigned :: "hashspace \<Rightarrow> u64 \<Rightarrow> address list result" where
  "active_assigned hs h =
     (case each_assign hs h of Inl e \<Rightarrow> Inl e | Inr ns \<Rightarrow> Inr (map m_addr (filter m_active ns)))"

text \<open>
  What the callbacks of \<open>for_each\<close> work on: the offer being filled, the server (its database
  is the one the iteration runs on), the actions so far, and undefined behaviour, if a
  callback met it.
\<close>

record 'd copy_user =
  cu_offer :: offer_storage
  cu_server :: "'d server"
  cu_acts :: "server_action list"
  cu_err :: "kerror option"

definition cu_fail :: "kerror \<Rightarrow> 'd copy_user \<Rightarrow> 'd \<Rightarrow> bool \<times> 'd copy_user \<times> 'd" where
  "cu_fail e u d = (False, u\<lparr>cu_err := Some e\<rparr>, d)"

text \<open>Adding a record to the offers of some servers; the total of the stream sizes is an \<open>unsigned long\<close>.\<close>

definition offer_add_all ::
    "(accumulator \<Rightarrow> u64) \<Rightarrow> address list \<Rightarrow> bytes \<Rightarrow> bytes \<Rightarrow> offer_storage \<Rightarrow> offer_storage \<times> u64" where
  "offer_add_all zsize addrs key val off =
     fold (\<lambda>a (o', total). let o'' = offer_add a key val o' in (o'', total + offer_stream_size zsize a o''))
       addrs (off, 0)"

definition flush_over_limit ::
    "('d server \<Rightarrow> 'd server option) \<Rightarrow> clocktime \<Rightarrow> u64 \<Rightarrow> 'd copy_user \<Rightarrow> 'd copy_user option" where
  "flush_over_limit wait replace_time size_total u =
     (let s = cu_server u; limit = ucast (s_replace_set_limit_mem s) :: u64
      in if 0 < limit \<and> limit * 1024 * 1024 \<le> size_total then
           (let (s1, acts) = send_offer (cu_offer u) replace_time s
            in case wait s1 of None \<Rightarrow> None
               | Some s2 \<Rightarrow> Some (u\<lparr>cu_offer := offer_new replace_time, cu_server := s2, cu_acts := cu_acts u @ acts\<rparr>))
         else Some u)"

definition copy_owners :: "address list \<Rightarrow> address list \<Rightarrow> address list" where
  "copy_owners fault_nodes Sa = filter (\<lambda>a. \<not> binary_search a fault_nodes) Sa"

definition copy_newbies :: "address list \<Rightarrow> address list \<Rightarrow> address list" where
  "copy_newbies Sa Da = filter (\<lambda>a. a \<notin> set Sa) Da"

text \<open>
  The callback of \<open>replace_copy\<close>. A key shorter than eight bytes makes \<open>hash_of\<close> read past
  its end; waiting for ever is the failing result with the marker \<open>Logic_error\<close>.
\<close>

definition for_each_replace_copy ::
    "platform \<Rightarrow> (accumulator \<Rightarrow> u64) \<Rightarrow> ('d server \<Rightarrow> 'd server option) \<Rightarrow> address \<Rightarrow> hashspace \<Rightarrow> hashspace \<Rightarrow>
     address list \<Rightarrow> clocktime \<Rightarrow> bytes \<Rightarrow> bytes \<Rightarrow> 'd copy_user \<times> 'd \<Rightarrow> bool \<times> 'd copy_user \<times> 'd" where
  "for_each_replace_copy p zsize wait self srchs dsths fault_nodes replace_time raw_key raw_val ud =
     (let (u, d) = ud; h = hash_of p raw_key
      in if length raw_key < KEY_META_SIZE then cu_fail Undefined_behaviour u d
         else case active_assigned srchs h of Inl e \<Rightarrow> cu_fail e u d
         | Inr Sa \<Rightarrow> (case active_assigned dsths h of Inl e \<Rightarrow> cu_fail e u d
         | Inr Da \<Rightarrow>
             (let current_owners = copy_owners fault_nodes Sa
              in if current_owners = [] \<or> hd current_owners \<noteq> self then (True, u, d)
                 else let newbies = copy_newbies Sa Da
                 in if newbies = [] then (True, u, d)
                    else let (off, size_total) = offer_add_all zsize newbies raw_key raw_val (cu_offer u)
                         in case flush_over_limit wait replace_time size_total (u\<lparr>cu_offer := off\<rparr>) of
                              None \<Rightarrow> cu_fail (Logic_error ''waiting'') u d
                            | Some u' \<Rightarrow> (True, u', d))))"

definition for_each_full_replace_copy ::
    "platform \<Rightarrow> (accumulator \<Rightarrow> u64) \<Rightarrow> ('d server \<Rightarrow> 'd server option) \<Rightarrow> hashspace \<Rightarrow> clocktime \<Rightarrow>
     bytes \<Rightarrow> bytes \<Rightarrow> 'd copy_user \<times> 'd \<Rightarrow> bool \<times> 'd copy_user \<times> 'd" where
  "for_each_full_replace_copy p zsize wait dsths replace_time raw_key raw_val ud =
     (let (u, d) = ud; h = hash_of p raw_key
      in if length raw_key < KEY_META_SIZE then cu_fail Undefined_behaviour u d
         else case active_assigned dsths h of Inl e \<Rightarrow> cu_fail e u d
         | Inr Da \<Rightarrow>
             (let (off, size_total) = offer_add_all zsize Da raw_key raw_val (cu_offer u)
              in case flush_over_limit wait replace_time size_total (u\<lparr>cu_offer := off\<rparr>) of
                   None \<Rightarrow> cu_fail (Logic_error ''waiting'') u d
                 | Some u' \<Rightarrow> (True, u', d)))"

text \<open>The nodes that are active in the old ring and not in the new one, and whether copying is skipped.\<close>

definition replace_fault_nodes :: "hashspace \<Rightarrow> hashspace \<Rightarrow> address list" where
  "replace_fault_nodes srchs dsths =
     (let src_nodes = sort (get_active_nodes srchs []); dst_nodes = sort (get_active_nodes dsths [])
      in filter (\<lambda>a. \<not> binary_search a dst_nodes) src_nodes)"

definition replace_skipped :: "address \<Rightarrow> hashspace \<Rightarrow> hashspace \<Rightarrow> bool" where
  "replace_skipped self srchs dsths \<longleftrightarrow>
     get_active_nodes srchs [] = [] \<or> get_active_nodes dsths [] = [] \<or>
     binary_search self (replace_fault_nodes srchs dsths)"

text \<open>Iterating over the database with a copying callback and sending the last offer.\<close>

definition copy_all ::
    "platform \<Rightarrow> 'd kumo_storage_op \<Rightarrow> (bytes \<Rightarrow> bytes \<Rightarrow> 'd copy_user \<times> 'd \<Rightarrow> bool \<times> 'd copy_user \<times> 'd) \<Rightarrow>
     clocktime \<Rightarrow> 'd server \<Rightarrow> 'd server_out option" where
  "copy_all p op callback replace_time s =
     do {
       (err, u, db) \<leftarrow> storage_for_each p op callback (clocktime_now (s_clock s))
         (\<lparr>cu_offer = offer_new replace_time, cu_server = s, cu_acts = [], cu_err = None\<rparr>, s_db s);
       let s1 = (cu_server u)\<lparr>s_db := db\<rparr>;
       case cu_err u of
         Some e \<Rightarrow> if e = Logic_error ''waiting'' then None else Some (Some e, s1, cu_acts u)
       | None \<Rightarrow>
           (case err of
              Some e \<Rightarrow> Some (Some e, s1, cu_acts u)
            | None \<Rightarrow> (let (s2, acts) = send_offer (cu_offer u) replace_time s1
                      in Some (None, s2, cu_acts u @ acts)))
     }"

definition replace_begin :: "address \<Rightarrow> clocktime \<Rightarrow> 'd server \<Rightarrow> 'd server" where
  "replace_begin manager_addr replace_time s =
     replace_offer_push replace_time
       (s\<lparr>s_copying := True, s_replace := replace_state_reset manager_addr replace_time (s_replace s)\<rparr>)"

definition replace_end :: "clocktime \<Rightarrow> 'd server_out \<Rightarrow> 'd server_out" where
  "replace_end replace_time out =
     (let (err, s, acts) = out
      in case err of
           Some e \<Rightarrow> (Some e, s\<lparr>s_copying := False\<rparr>, acts)
         | None \<Rightarrow> (let (s1, acts1) = replace_offer_pop replace_time s
                   in (None, s1\<lparr>s_copying := False\<rparr>, acts @ acts1)))"

definition replace_copy ::
    "platform \<Rightarrow> 'd kumo_storage_op \<Rightarrow> (accumulator \<Rightarrow> u64) \<Rightarrow> ('d server \<Rightarrow> 'd server option) \<Rightarrow>
     address \<Rightarrow> hashspace \<Rightarrow> 'd server \<Rightarrow> 'd server_out option" where
  "replace_copy p op zsize wait manager_addr hs s =
     (let replace_time = m_timestamp hs;
          s1 = replace_begin manager_addr replace_time s;
          srchs = s_rhs s1;
          s2 = s1\<lparr>s_whs := hs\<rparr>;
          fault_nodes = replace_fault_nodes srchs hs
      in if replace_skipped (s_addr s2) srchs hs then Some (replace_end replace_time (None, s2, []))
         else map_option (replace_end replace_time)
                (copy_all p op (for_each_replace_copy p zsize wait (s_addr s2) srchs hs fault_nodes replace_time)
                   replace_time s2))"

definition full_replace_copy ::
    "platform \<Rightarrow> 'd kumo_storage_op \<Rightarrow> (accumulator \<Rightarrow> u64) \<Rightarrow> ('d server \<Rightarrow> 'd server option) \<Rightarrow>
     address \<Rightarrow> hashspace \<Rightarrow> 'd server \<Rightarrow> 'd server_out option" where
  "full_replace_copy p op zsize wait manager_addr hs s =
     (let replace_time = m_timestamp hs;
          s1 = replace_begin manager_addr replace_time s
      in map_option (replace_end replace_time)
           (copy_all p op (for_each_full_replace_copy p zsize wait hs replace_time) replace_time s1))"

section \<open>Deleting\<close>

text \<open>The callback deletes the record when the server is not one of its active nodes.\<close>

definition for_each_replace_delete ::
    "platform \<Rightarrow> 'd kumo_storage_op \<Rightarrow> hashspace \<Rightarrow> address \<Rightarrow> bytes \<Rightarrow> bytes \<Rightarrow>
     kerror option \<times> 'd \<Rightarrow> bool \<times> kerror option \<times> 'd" where
  "for_each_replace_delete p op hs self raw_key raw_val ud =
     (let (e, d) = ud
      in if length raw_key < KEY_META_SIZE then (False, Some Undefined_behaviour, d)
         else case test_replicator_assign hs (hash_of p raw_key) self of
                Inl e' \<Rightarrow> (False, Some e', d)
              | Inr True \<Rightarrow> (True, e, d)
              | Inr False \<Rightarrow> (True, e, snd (op_iterator_del_force op d raw_key)))"

definition replace_delete ::
    "platform \<Rightarrow> 'd kumo_storage_op \<Rightarrow> address \<Rightarrow> 'd server \<Rightarrow> 'd server_out option" where
  "replace_delete p op manager s =
     (let replace_time = m_timestamp (s_whs s);
          s1 = s\<lparr>s_rhs := s_whs s, s_deleting := True\<rparr>;
          finish = (\<lambda>s. let (c, clk) = clock_incr (s_clock s)
                        in (None, s\<lparr>s_clock := clk, s_deleting := False\<rparr>,
                            [Call manager (To_manager (M_ReplaceDeleteEnd replace_time c)) Cb_ReplaceDeleteEnd 10]))
      in if \<not> hs_empty (s_whs s1) then
           do {
             (err, ub, db) \<leftarrow> storage_for_each p op (for_each_replace_delete p op (s_whs s1) (s_addr s1))
               (clocktime_now (s_clock s1)) (None, s_db s1);
             let s2 = s1\<lparr>s_db := db\<rparr>;
             Some (case ub of Some e \<Rightarrow> (Some e, s2\<lparr>s_deleting := False\<rparr>, [])
                   | None \<Rightarrow> (case err of Some e \<Rightarrow> (Some e, s2\<lparr>s_deleting := False\<rparr>, []) | None \<Rightarrow> finish s2))
           }
         else Some (finish s1))"

section \<open>The streams\<close>

text \<open>
  The first thing on a stream is the address of the receiver in a fixed block: the length of
  its dump, the dump, and zeros.
\<close>

definition stream_init_block :: "address \<Rightarrow> bytes" where
  "stream_init_block addr =
     (let sz = max_dump_size + 1
      in take sz (of_nat (dump_size addr) # dump addr @ replicate sz 0))"

definition stream_init_addr :: "bytes \<Rightarrow> address result" where
  "stream_init_addr buf =
     (if length buf < max_dump_size + 1 then Inl (Runtime_error ''failed to recv init address'')
      else let n = unat (hd buf)
           in if n \<noteq> 6 then Inl (Runtime_error ''unknown address type'') else address_of_dump (take n (tl buf)))"

text \<open>
  \<open>stream_accepted\<close>: the accumulator for the receiver is sent (\<open>sent\<close> is whether the
  receiver acknowledged it all with nil, an exception otherwise), erased, and counted.
  The records that travel are part of the result.
\<close>

definition stream_accepted ::
    "bytes \<Rightarrow> bool \<Rightarrow> 'd server \<Rightarrow> kerror option \<times> 'd server \<times> server_action list \<times> (bytes \<times> bytes) list" where
  "stream_accepted init sent s =
     (case stream_init_addr init of
        Inl e \<Rightarrow> (Some e, s, [], [])
      | Inr iaddr \<Rightarrow>
          (case accum_set_find (s_accum_set s) iaddr of
             None \<Rightarrow> (None, s, [], [])
           | Some it \<Rightarrow>
               (let accum = s_accum_set s ! it
                in if \<not> sent then (Some (Runtime_error ''can't read stream response''), s, [], acc_items accum)
                   else let (s1, acts) = replace_offer_pop (acc_replace_time accum)
                              (s\<lparr>s_accum_set := erase_at it (s_accum_set s)\<rparr>)
                        in (None, s1, acts, acc_items accum))))"

text \<open>
  The receiving side: a message of the stream is nil or a pair of raw strings; what it writes
  back is nil at the end and an empty array after every hundredth record.
\<close>

datatype stream_reply = Stream_nil | Stream_keepalive

record stream_handler =
  sh_major_counter :: u64
  sh_minor_counter :: u64

definition stream_submit ::
    "platform \<Rightarrow> 'd kumo_storage_op \<Rightarrow> (bytes \<times> bytes) option \<Rightarrow> stream_handler \<times> 'd server \<Rightarrow>
     kerror option \<times> (stream_handler \<times> 'd server) \<times> stream_reply list" where
  "stream_submit p op msg hsv =
     (let (sh, s) = hsv
      in case msg of
           None \<Rightarrow> (None, (sh, s), [Stream_nil])
         | Some (rk, rv) \<Rightarrow>
             (case dbkey_unpack p rk of Inl e \<Rightarrow> (Some e, (sh, s), [])
              | Inr key \<Rightarrow> (case dbvalue_unpack p rv of Inl e \<Rightarrow> (Some e, (sh, s), [])
              | Inr val \<Rightarrow>
                  (let db = snd (storage_update p op (s_db s) (dbkey_raw p key) (dbvalue_raw val));
                       major = sh_major_counter sh + 1;
                       s' = s\<lparr>s_db := db\<rparr>
                   in if major mod 100 = 0
                      then (None, (sh\<lparr>sh_major_counter := major, sh_minor_counter := sh_minor_counter sh + 1\<rparr>, s'), [Stream_keepalive])
                      else (None, (sh\<lparr>sh_major_counter := major\<rparr>, s'), [])))))"

end
