(* ===== verification/ServerNetwork.thy ===== *)
theory ServerNetwork
  imports ServerReplace
begin

text \<open>
  The rest of a storage server: \<open>mod_network\<close> (\<open>logic/server/mod_network.cc\<close>), which
  keeps its clock and its rings up to date, \<open>mod_control\<close>
  (\<open>logic/server/mod_control.cc\<close>), and the dispatch of requests and events
  (\<open>logic/server/framework.cc\<close>), as a step relation on the state of a server.
\<close>

section \<open>Keeping the rings up to date\<close>

definition srv_KeepAlive :: "responder \<Rightarrow> u32 \<Rightarrow> 'd server \<Rightarrow> 'd server_out" where
  "srv_KeepAlive rid aclock s =
     (None, s\<lparr>s_clock := clock_update aclock (s_clock s)\<rparr>, [Respond rid V_nil])"

text \<open>A call to the first manager, and to the second one if there is one.\<close>

definition call_managers :: "manager_request \<Rightarrow> server_cb \<Rightarrow> 'd server \<Rightarrow> server_action list" where
  "call_managers req cb s =
     Call (s_manager1 s) (To_manager req) cb 10 #
     (if connectable (s_manager2 s) then [Call (s_manager2 s) (To_manager req) cb 10] else [])"

definition srv_keep_alive :: "'d server \<Rightarrow> 'd server \<times> server_action list" where
  "srv_keep_alive s =
     (let (c, clk) = clock_incr (s_clock s); s1 = s\<lparr>s_clock := clk\<rparr>
      in (s1, call_managers (M_KeepAlive c) Cb_KeepAlive s1))"

definition srv_HashSpaceSync ::
    "platform \<Rightarrow> responder \<Rightarrow> seed \<Rightarrow> seed \<Rightarrow> u32 \<Rightarrow> 'd server \<Rightarrow> 'd server_out" where
  "srv_HashSpaceSync p rid ws rs aclock s =
     (let s1 = s\<lparr>s_clock := clock_update aclock (s_clock s)\<rparr>;
          wnew = (ct_le (m_timestamp (s_whs s1)) (seed_clocktime ws) \<and> \<not> seed_empty ws);
          s2 = (if wnew then s1\<lparr>s_whs := hashspace_of_seed p ws\<rparr> else s1);
          rnew = (ct_le (m_timestamp (s_rhs s2)) (seed_clocktime rs) \<and> \<not> seed_empty rs);
          s3 = (if rnew then s2\<lparr>s_rhs := hashspace_of_seed p rs\<rparr> else s2)
      in (None, s3, [Respond rid (if wnew \<or> rnew then V_bool True else V_nil)]))"

definition renew_w_hash_space :: "'d server \<Rightarrow> server_action list" where
  "renew_w_hash_space s = call_managers M_WHashSpaceRequest Cb_WHashSpaceRequest s"

definition renew_r_hash_space :: "'d server \<Rightarrow> server_action list" where
  "renew_r_hash_space s = call_managers M_RHashSpaceRequest Cb_RHashSpaceRequest s"

definition res_WHashSpaceRequest ::
    "platform \<Rightarrow> address \<Rightarrow> bool \<Rightarrow> rvalue \<Rightarrow> rvalue \<Rightarrow> 'd server \<Rightarrow> 'd server_out" where
  "res_WHashSpaceRequest p from active res err s =
     (if err \<noteq> V_nil then
        (None, s, if active then [Call from (To_manager M_WHashSpaceRequest) Cb_WHashSpaceRequest 10] else [])
      else case res of
             V_seed sd \<Rightarrow>
               (None, if hs_empty (s_whs s) \<or> ct_less (m_timestamp (s_whs s)) (seed_clocktime sd)
                      then s\<lparr>s_whs := hashspace_of_seed p sd\<rparr> else s, [])
           | _ \<Rightarrow> (Some Type_error, s, []))"

definition res_RHashSpaceRequest ::
    "platform \<Rightarrow> address \<Rightarrow> bool \<Rightarrow> rvalue \<Rightarrow> rvalue \<Rightarrow> 'd server \<Rightarrow> 'd server_out" where
  "res_RHashSpaceRequest p from active res err s =
     (if err \<noteq> V_nil then
        (None, s, if active then [Call from (To_manager M_RHashSpaceRequest) Cb_RHashSpaceRequest 10] else [])
      else case res of
             V_seed sd \<Rightarrow>
               (None, if hs_empty (s_rhs s) \<or> ct_less (m_timestamp (s_rhs s)) (seed_clocktime sd)
                      then s\<lparr>s_rhs := hashspace_of_seed p sd\<rparr> else s, [])
           | _ \<Rightarrow> (Some Type_error, s, []))"

definition srv_new_node :: "address \<Rightarrow> 'd server \<Rightarrow> server_action list" where
  "srv_new_node addr s =
     (if addr = s_manager1 s then renew_r_hash_space s @ renew_w_hash_space s
      else if connectable (s_manager2 s) \<and> addr = s_manager2 s then renew_r_hash_space s @ renew_w_hash_space s
      else [])"

section \<open>Control\<close>

definition create_backup ::
    "'d kumo_storage_op \<Rightarrow> string \<Rightarrow> responder \<Rightarrow> 'd server \<Rightarrow> 'd server_out" where
  "create_backup op sfx rid s =
     (let dst = s_backup_basename s @ sfx; (err, db) = storage_backup op (s_db s) dst; s1 = s\<lparr>s_db := db\<rparr>
      in case err of
           None \<Rightarrow> (None, s1, [Respond rid (V_bool True)])
         | Some _ \<Rightarrow> (None, s1, [Respond_error rid (V_bool True)]))"

definition srv_CreateBackup :: "responder \<Rightarrow> string \<Rightarrow> 'd server \<Rightarrow> 'd server_out" where
  "srv_CreateBackup rid sfx s = (None, s, [Submit (T_create_backup sfx rid)])"

text \<open>The flags of \<open>STAT_REPLACE\<close>.\<close>

definition replace_status :: "'d server \<Rightarrow> u32" where
  "replace_status s =
     (let active = server_is_active (s_whs s) (s_addr s); hssame = hashspace_eq (s_rhs s) (s_whs s)
      in (if \<not> active then 1 else 0) OR (if \<not> hssame then 2 else 0) OR
         (if s_copying s then 4 else 0) OR (if s_deleting s then 8 else 0))"

text \<open>\<open>pid\<close>, \<open>now\<close> and \<open>version\<close> come from the operating system and the build.\<close>

definition srv_GetStatus ::
    "'d kumo_storage_op \<Rightarrow> u32 \<Rightarrow> u64 \<Rightarrow> string \<Rightarrow> responder \<Rightarrow> u32 \<Rightarrow> 'd server \<Rightarrow> 'd server_out" where
  "srv_GetStatus op pid now version rid cmd s =
     (None, s, [Respond rid
        (if cmd = 0 then V_u64 (ucast pid)
         else if cmd = 1 then V_u64 (now - s_start_time s)
         else if cmd = 2 then V_u64 now
         else if cmd = 3 then V_str version
         else if cmd = 4 then V_u64 (s_num_get s)
         else if cmd = 5 then V_u64 (s_num_set s)
         else if cmd = 6 then V_u64 (s_num_delete s)
         else if cmd = 7 then V_u64 (storage_rnum op (s_db s))
         else if cmd = 8 then V_u64 (ct_get (clocktime_now (s_clock s)))
         else if cmd = 9 then V_seed (seed_of (s_rhs s))
         else if cmd = 10 then V_seed (seed_of (s_whs s))
         else if cmd = 11 then V_u64 (ucast (replace_status s))
         else V_nil)])"

text \<open>
  \<open>SetConfig\<close> knows the command \<open>CONF_TCP_NODELAY\<close> (0): it sets the option on every descriptor
  number below the limit of the process and answers how many of the calls succeeded. The limit
  (\<open>None\<close> when \<open>getrlimit\<close> fails, otherwise \<open>rlim_cur\<close>, which is cut to an \<open>int\<close>) and the success of
  \<open>setsockopt\<close> on a descriptor come from the operating system. The \<open>switch\<close> has no default branch.
\<close>

definition set_tcp_nodelay :: "(nat \<Rightarrow> bool \<Rightarrow> bool) \<Rightarrow> bool \<Rightarrow> u64 \<Rightarrow> u32" where
  "set_tcp_nodelay setsockopt enable rlim_cur =
     (let maxfd = nat (sint (ucast rlim_cur :: u32))
      in of_nat (length (filter (\<lambda>i. setsockopt i enable) [0..<maxfd])))"

definition srv_SetConfig ::
    "u64 option \<Rightarrow> (nat \<Rightarrow> bool \<Rightarrow> bool) \<Rightarrow> responder \<Rightarrow> u32 \<Rightarrow> rvalue \<Rightarrow> 'd server \<Rightarrow> 'd server_out" where
  "srv_SetConfig getrlimit setsockopt rid cmd conf s =
     (if cmd = 0 then
        (case conf of
           V_bool enable \<Rightarrow>
             (case getrlimit of
                None \<Rightarrow> (Some (Runtime_error ''getrlimit() failed''), s, [])
              | Some rlim_cur \<Rightarrow> (None, s, [Respond rid (V_u64 (ucast (set_tcp_nodelay setsockopt enable rlim_cur)))]))
         | _ \<Rightarrow> (Some Type_error, s, []))
      else (None, s, []))"

section \<open>Dispatch\<close>

text \<open>An exception that leaves a handler is answered with the error of its kind.\<close>

definition with_catch :: "responder \<Rightarrow> 'd server_out \<Rightarrow> 'd server_out" where
  "with_catch rid out =
     (let (err, s, acts) = out
      in case err of None \<Rightarrow> out | Some e \<Rightarrow> (Some e, s, acts @ [dispatch_catch rid e]))"

definition cluster_dispatch ::
    "platform \<Rightarrow> 'd kumo_storage_op \<Rightarrow> address \<Rightarrow> responder \<Rightarrow> server_request \<Rightarrow> 'd server \<Rightarrow> 'd server_out" where
  "cluster_dispatch p op from rid req s =
     with_catch rid
       (case req of
          S_KeepAlive c \<Rightarrow> srv_KeepAlive rid c s
        | S_HashSpaceSync ws rs c \<Rightarrow> srv_HashSpaceSync p rid ws rs c s
        | S_ReplicateSet c fl k v \<Rightarrow> rpc_ReplicateSet p op rid c fl k v s
        | S_ReplicateDelete c fl ct k \<Rightarrow> rpc_ReplicateDelete p op rid c fl ct k s
        | S_ReplaceCopyStart sd c fu \<Rightarrow> rpc_ReplaceCopyStart p rid from sd c fu s
        | S_ReplaceDeleteStart sd c \<Rightarrow> rpc_ReplaceDeleteStart p rid from sd c s
        | S_ReplaceOffer a \<Rightarrow> (None, s, [])
        | S_CreateBackup sfx \<Rightarrow> srv_CreateBackup rid sfx s
        | _ \<Rightarrow> (Some Unknown_method_error, s, []))"

text \<open>What a handler asks of the operating system and of the build.\<close>

record os_env =
  os_pid :: u32
  os_now :: u64
  os_version :: string
  os_rlimit :: "u64 option"
  os_setsockopt :: "nat \<Rightarrow> bool \<Rightarrow> bool"

definition subsystem_dispatch ::
    "platform \<Rightarrow> 'd kumo_storage_op \<Rightarrow> os_env \<Rightarrow> responder \<Rightarrow> server_request \<Rightarrow> 'd server \<Rightarrow> 'd server_out" where
  "subsystem_dispatch p op env rid req s =
     with_catch rid
       (case req of
          S_Get k \<Rightarrow> rpc_Get p op rid k s
        | S_Set oper k v \<Rightarrow> rpc_Set p op rid oper k v s
        | S_Delete fl k \<Rightarrow> rpc_Delete p op rid fl k s
        | S_GetIfModified k ct \<Rightarrow> rpc_GetIfModified p op rid k ct s
        | S_GetStatus cmd \<Rightarrow> srv_GetStatus op (os_pid env) (os_now env) (os_version env) rid cmd s
        | S_SetConfig cmd conf \<Rightarrow> srv_SetConfig (os_rlimit env) (os_setsockopt env) rid cmd conf s
        | _ \<Rightarrow> (Some Unknown_method_error, s, []))"

section \<open>A server as a state machine\<close>

text \<open>
  Every way in which the state of a server changes: a request, a reply, a submitted task, a
  stream, and the timer.
\<close>

inductive server_step ::
    "platform \<Rightarrow> 'd kumo_storage_op \<Rightarrow> (accumulator \<Rightarrow> u64) \<Rightarrow> ('d server \<Rightarrow> 'd server option) \<Rightarrow>
     'd server \<Rightarrow> server_action list \<Rightarrow> 'd server \<Rightarrow> bool"
  for p op zsize wait where
  step_cluster: "cluster_dispatch p op from rid req s = (e, s', acts) \<Longrightarrow> server_step p op zsize wait s acts s'"
| step_subsystem: "subsystem_dispatch p op env rid req s = (e, s', acts) \<Longrightarrow> server_step p op zsize wait s acts s'"
| step_res_set: "res_ReplicateSet cid rhs from active res err s = (e, s', acts) \<Longrightarrow> server_step p op zsize wait s acts s'"
| step_res_delete: "res_ReplicateDelete cid rhs from active res err s = (e, s', acts) \<Longrightarrow> server_step p op zsize wait s acts s'"
| step_res_whs: "res_WHashSpaceRequest p from active res err s = (e, s', acts) \<Longrightarrow> server_step p op zsize wait s acts s'"
| step_res_rhs: "res_RHashSpaceRequest p from active res err s = (e, s', acts) \<Longrightarrow> server_step p op zsize wait s acts s'"
| step_res_offer: "res_ReplaceOffer addr s = (e, s', acts) \<Longrightarrow> server_step p op zsize wait s acts s'"
| step_copy: "replace_copy p op zsize wait mgr (hashspace_of_seed p sd) s = Some (e, s', acts) \<Longrightarrow> server_step p op zsize wait s acts s'"
| step_full_copy: "full_replace_copy p op zsize wait mgr (hashspace_of_seed p sd) s = Some (e, s', acts) \<Longrightarrow> server_step p op zsize wait s acts s'"
| step_delete: "replace_delete p op mgr s = Some (e, s', acts) \<Longrightarrow> server_step p op zsize wait s acts s'"
| step_backup: "create_backup op sfx rid s = (e, s', acts) \<Longrightarrow> server_step p op zsize wait s acts s'"
| step_stream_out: "stream_accepted init sent s = (e, s', acts, items) \<Longrightarrow> server_step p op zsize wait s acts s'"
| step_stream_in: "stream_submit p op msg (sh, s) = (e, (sh', s'), replies) \<Longrightarrow> server_step p op zsize wait s [] s'"
| step_keep_alive: "srv_keep_alive s = (s', acts) \<Longrightarrow> server_step p op zsize wait s acts s'"
| step_timer: "server_step p op zsize wait s [] (s\<lparr>s_clock := clock_update_time now (s_clock s)\<rparr>)"
| step_new_node: "server_step p op zsize wait s (srv_new_node addr s) s"

inductive server_reach ::
    "platform \<Rightarrow> 'd kumo_storage_op \<Rightarrow> (accumulator \<Rightarrow> u64) \<Rightarrow> ('d server \<Rightarrow> 'd server option) \<Rightarrow>
     'd server \<Rightarrow> 'd server \<Rightarrow> bool"
  for p op zsize wait s0 where
  reach_start: "server_reach p op zsize wait s0 s0"
| reach_step: "server_reach p op zsize wait s0 s \<Longrightarrow> server_step p op zsize wait s acts s' \<Longrightarrow> server_reach p op zsize wait s0 s'"

end
