(* ===== verification/ServerStoreTheorems.thy ===== *)
theory ServerStoreTheorems
  imports ServerStore StorageTheorems
begin

text \<open>
  The properties of \<open>mod_store\<close>: which server accepts a request, which replicas a write
  reaches, and when it is answered.
\<close>

section \<open>Facts about the choice of replicas\<close>

text \<open>A ring on which the walk is defined: sorted and with at least one virtual node.\<close>

definition ring_ok :: "hashspace \<Rightarrow> bool" where
  "ring_ok hs \<longleftrightarrow> sorted (map m_hash (m_hashspace hs)) \<and> m_hashspace hs \<noteq> []"

lemma ring_ok_synced: "hs_synced p hs \<Longrightarrow> m_nodes hs \<noteq> [] \<Longrightarrow> ring_ok hs"
  by (simp add: ring_ok_def hs_synced_def ring_nil_iff)

lemma no_active_iff: "no_active ns \<longleftrightarrow> (\<forall>n \<in> set ns. \<not> m_active n)"
  by (induction ns) auto

lemma ring_ok_not_empty: "hs_synced p hs \<Longrightarrow> \<not> hs_empty hs \<Longrightarrow> ring_ok hs"
  by (rule ring_ok_synced) (auto simp: hs_empty_def)

abbreviation nodes_for :: "hashspace \<Rightarrow> u64 \<Rightarrow> node list" where
  "nodes_for hs h \<equiv> assigned (m_hashspace hs) h"

lemma each_assign_ok: "ring_ok hs \<Longrightarrow> each_assign hs h = Inr (nodes_for hs h)"
  by (simp add: ring_ok_def each_assign_assigned)

lemma length_nodes_for: "length (nodes_for hs h) \<le> 3"
  by (simp add: assigned_def)

lemma distinct_nodes_for: "distinct (nodes_for hs h)"
  by (simp add: assigned_def)

lemma check_replicator_ok:
  assumes "ring_ok hs"
  shows "check_replicator_assign self hs h =
    (if hs_empty hs then Inl (Runtime_error ''server not ready'')
     else if \<exists>r \<in> set (nodes_for hs h). m_active r \<and> m_addr r = self then Inr ()
     else Inl (Runtime_error ''obsolete hash space''))"
  by (simp add: check_replicator_assign_def each_assign_ok [OF assms])

lemma check_coordinator_ok:
  assumes "ring_ok hs"
  shows "check_coordinator_assign self hs h = Inr () \<longleftrightarrow>
    \<not> hs_empty hs \<and> (case find m_active (nodes_for hs h) of None \<Rightarrow> True | Some r \<Rightarrow> m_addr r = self)"
  by (simp add: check_coordinator_assign_def each_assign_ok [OF assms] split: option.splits)

lemma check_result_unit: "check_coordinator_assign self hs h = Inr u \<longleftrightarrow> check_coordinator_assign self hs h = Inr ()"
  by simp

lemma assigned_active_excluding_ok:
  "ring_ok hs \<Longrightarrow> assigned_active_excluding ex hs h =
     Inr (map m_addr (filter (\<lambda>r. m_active r \<and> m_addr r \<notin> set ex) (nodes_for hs h)))"
  by (simp add: assigned_active_excluding_def each_assign_ok)

lemma find_in: "find P xs = Some x \<Longrightarrow> x \<in> set xs \<and> P x"
  by (induction xs) (auto split: if_splits)

text \<open>The writing ring never needs more than two replicas: the coordinator is one of the three nodes.\<close>

lemma wrep_bounded:
  assumes "ring_ok whs" and "check_coordinator_assign self whs h = Inr ()"
  shows "length (filter (\<lambda>r. m_active r \<and> m_addr r \<notin> set [self]) (nodes_for whs h)) \<le> 2"
proof (cases "find m_active (nodes_for whs h)")
  case None
  then have "filter (\<lambda>r. m_active r \<and> m_addr r \<notin> set [self]) (nodes_for whs h) = []"
    by (auto simp: find_None_iff filter_empty_conv)
  then show ?thesis by simp
next
  case (Some r)
  with assms have r: "r \<in> set (nodes_for whs h)" "m_addr r = self"
    by (auto simp: check_coordinator_ok dest: find_in)
  have "length (filter (\<lambda>r. m_active r \<and> m_addr r \<notin> set [self]) (nodes_for whs h)) < length (nodes_for whs h)"
    using r by (intro length_filter_less) auto
  with length_nodes_for [of whs h] show ?thesis by linarith
qed

lemma calc_replicators_ok:
  assumes "ring_ok whs" and "ring_ok rhs"
  shows "calc_replicators self whs rhs h =
    (case check_coordinator_assign self whs h of Inl e \<Rightarrow> Inl e
     | Inr _ \<Rightarrow>
        let wrepto = map m_addr (filter (\<lambda>r. m_active r \<and> m_addr r \<noteq> self) (nodes_for whs h));
            rrepto = map m_addr (filter (\<lambda>r. m_active r \<and> m_addr r \<notin> set (wrepto @ [self])) (nodes_for rhs h))
        in if m_timestamp whs = m_timestamp rhs then Inr ([], wrepto)
           else if hs_empty rhs then Inl (Runtime_error ''server not ready'')
           else if 2 < length rrepto then Inl Undefined_behaviour else Inr (rrepto, wrepto))"
  using wrep_bounded [OF assms(1), of self h]
  by (auto simp: calc_replicators_def assigned_active_excluding_ok assms NUM_REPLICATION_def Let_def
      split: sum.splits)

lemma length_filter_max: "length xs \<le> 3 \<Longrightarrow> 2 < length (filter Q xs) \<longleftrightarrow> length xs = 3 \<and> (\<forall>x \<in> set xs. Q x)"
proof -
  assume xs: "length xs \<le> 3"
  have "length (filter Q xs) < length xs" if "x \<in> set xs" "\<not> Q x" for x
    using that by (rule length_filter_less)
  with xs length_filter_le [of Q xs] show ?thesis by fastforce
qed

text \<open>
  C38: while the two rings differ, choosing the replicas of a write overruns the array for the
  reading ring (two entries) exactly when all three nodes of that ring are active and none of
  them is the coordinator or one of its replicas in the writing ring, which happens when
  three servers join in one replacement. The array for the writing ring is never overrun.
\<close>

theorem calc_replicators_overflow:
  assumes "ring_ok whs" and "ring_ok rhs"
    and "check_coordinator_assign self whs h = Inr ()"
    and "m_timestamp whs \<noteq> m_timestamp rhs" and "\<not> hs_empty rhs"
  shows "calc_replicators self whs rhs h = Inl Undefined_behaviour \<longleftrightarrow>
    length (nodes_for rhs h) = 3 \<and>
    (\<forall>r \<in> set (nodes_for rhs h). m_active r \<and> m_addr r \<noteq> self \<and>
       (\<forall>w \<in> set (nodes_for whs h). m_active w \<longrightarrow> m_addr w \<noteq> m_addr r))"
proof -
  let ?wr = "map m_addr (filter (\<lambda>r. m_active r \<and> m_addr r \<noteq> self) (nodes_for whs h))"
  let ?Q = "\<lambda>r. m_active r \<and> m_addr r \<notin> set (?wr @ [self])"
  have Q: "?Q r \<longleftrightarrow> m_active r \<and> m_addr r \<noteq> self \<and>
      (\<forall>w \<in> set (nodes_for whs h). m_active w \<longrightarrow> m_addr w \<noteq> m_addr r)" for r
    by (auto simp: image_iff)
  have "calc_replicators self whs rhs h = Inl Undefined_behaviour \<longleftrightarrow> 2 < length (filter ?Q (nodes_for rhs h))"
    using assms(3-5) by (simp add: calc_replicators_ok [OF assms(1,2)] Let_def)
  also have "\<dots> \<longleftrightarrow> length (nodes_for rhs h) = 3 \<and> (\<forall>r \<in> set (nodes_for rhs h). ?Q r)"
    by (rule length_filter_max) (rule length_nodes_for)
  finally show ?thesis unfolding Q .
qed

definition small_ring :: "u8 list \<Rightarrow> clocktime \<Rightarrow> hashspace" where
  "small_ring is ct =
     \<lparr>m_hashspace = map (\<lambda>i. \<lparr>m_hash = ucast i, m_real = \<lparr>m_addr = sample_addr i, m_active = True\<rparr>\<rparr>) is,
      m_nodes = map (\<lambda>i. \<lparr>m_addr = sample_addr i, m_active = True\<rparr>) is, m_timestamp = ct\<rparr>"

theorem calc_replicators_overflow_witness:
  "calc_replicators (sample_addr 1) (small_ring [1, 2, 3, 4, 5, 6] (ClockTime 2)) (small_ring [4, 5, 6] (ClockTime 1)) 0 =
     Inl Undefined_behaviour"
proof -
  let ?whs = "small_ring [1, 2, 3, 4, 5, 6] (ClockTime 2)" and ?rhs = "small_ring [4, 5, 6] (ClockTime 1)"
  have ok: "ring_ok ?whs" "ring_ok ?rhs" by (simp_all add: ring_ok_def small_ring_def)
  have w: "nodes_for ?whs 0 = map (\<lambda>i. \<lparr>m_addr = sample_addr i, m_active = True\<rparr>) [1, 2, 3]"
    by (simp add: small_ring_def assigned_def walk_def sample_addr_def)
  have r: "nodes_for ?rhs 0 = map (\<lambda>i. \<lparr>m_addr = sample_addr i, m_active = True\<rparr>) [4, 5, 6]"
    by (simp add: small_ring_def assigned_def walk_def sample_addr_def)
  have ne: "\<not> hs_empty ?rhs" "\<not> hs_empty ?whs" "m_timestamp ?whs \<noteq> m_timestamp ?rhs"
    by (simp_all add: hs_empty_def small_ring_def)
  have "check_coordinator_assign (sample_addr 1) ?whs 0 = Inr ()"
    using ne by (simp add: check_coordinator_ok [OF ok(1)] w)
  then show ?thesis
    using calc_replicators_overflow [OF ok _ ne(3,1), of "sample_addr 1" 0] by (simp add: w r sample_addr_def)
qed

text \<open>A server with three nodes in both rings and an empty database in memory.\<close>

definition sample_server :: "mem_db server" where
  "sample_server =
     \<lparr>s_addr = sample_addr 1, s_clock = \<lparr>m_clock = \<lparr>clock_m = 7\<rparr>, m_time = 100\<rparr>,
      s_rhs = small_ring [1, 2, 3] (ClockTime 1), s_whs = small_ring [1, 2, 3] (ClockTime 1),
      s_db = sample_store, s_manager1 = sample_addr 9, s_manager2 = address_nil, s_stream_addr = sample_addr 1,
      s_backup_basename = [], s_replicate_set_retry_num = 20, s_replicate_delete_retry_num = 20,
      s_replace_set_limit_mem = 0, s_start_time = 90, s_num_get = 0, s_num_set = 0, s_num_delete = 0,
      s_ctxs = Map.empty, s_next_ctx = 0,
      s_replace = \<lparr>m_push_waiting = 0, m_clocktime = ClockTime 0, m_mgr = address_nil\<rparr>,
      s_copying = False, s_deleting = False, s_accum_set = []\<rparr>"

lemma small_ring_ok [simp]: "ring_ok (small_ring [1, 2, 3] ct)"
  by (simp add: ring_ok_def small_ring_def)

lemma small_ring_nodes:
  "nodes_for (small_ring [1, 2, 3] ct) 0 = map (\<lambda>i. \<lparr>m_addr = sample_addr i, m_active = True\<rparr>) [1, 2, 3]"
  by (simp add: small_ring_def assigned_def walk_def sample_addr_def)

section \<open>What a write does\<close>

text \<open>The replicas a write has to reach, with the flags of the call.\<close>

definition replica_targets :: "'d server \<Rightarrow> u64 \<Rightarrow> (address \<times> u32) set" where
  "replica_targets s h =
     (\<lambda>r. (m_addr r, replicate_flags_none)) `
       {r \<in> set (nodes_for (s_whs s) h). m_active r \<and> m_addr r \<noteq> s_addr s} \<union>
     (if m_timestamp (s_whs s) = m_timestamp (s_rhs s) then {}
      else (\<lambda>r. (m_addr r, replicate_flags_by_rhs)) `
       {r \<in> set (nodes_for (s_rhs s) h). m_active r \<and> m_addr r \<noteq> s_addr s \<and>
          (\<forall>w \<in> set (nodes_for (s_whs s) h). m_active w \<longrightarrow> m_addr w \<noteq> m_addr r)})"

lemma calc_replicators_sets:
  assumes "ring_ok whs" and "ring_ok rhs" and "calc_replicators self whs rhs h = Inr (rrepto, wrepto)"
  shows "wrepto = map m_addr (filter (\<lambda>r. m_active r \<and> m_addr r \<noteq> self) (nodes_for whs h))"
    and "rrepto = (if m_timestamp whs = m_timestamp rhs then []
      else map m_addr (filter (\<lambda>r. m_active r \<and> m_addr r \<notin> set (wrepto @ [self])) (nodes_for rhs h)))"
  using assms(3) unfolding calc_replicators_ok [OF assms(1,2)]
  by (auto simp: Let_def simp del: set_map set_filter set_append split: sum.splits if_splits)

lemma calc_replicators_targets:
  assumes "ring_ok (s_whs s)" and "ring_ok (s_rhs s)"
    and "calc_replicators (s_addr s) (s_whs s) (s_rhs s) h = Inr (rrepto, wrepto)"
  shows "replica_targets s h = (\<lambda>a. (a, replicate_flags_by_rhs)) ` set rrepto \<union> (\<lambda>a. (a, replicate_flags_none)) ` set wrepto"
proof -
  note w = calc_replicators_sets(1) [OF assms] and r = calc_replicators_sets(2) [OF assms]
  have ex: "m_addr r \<notin> set (wrepto @ [s_addr s]) \<longleftrightarrow> m_addr r \<noteq> s_addr s \<and>
      (\<forall>w \<in> set (nodes_for (s_whs s) h). m_active w \<longrightarrow> m_addr w \<noteq> m_addr r)" for r
    unfolding w by (auto simp: image_iff)
  have "set rrepto = (if m_timestamp (s_whs s) = m_timestamp (s_rhs s) then {} else m_addr `
      {r \<in> set (nodes_for (s_rhs s) h). m_active r \<and> m_addr r \<noteq> s_addr s \<and>
          (\<forall>w \<in> set (nodes_for (s_whs s) h). m_active w \<longrightarrow> m_addr w \<noteq> m_addr r)})"
    unfolding r ex by simp
  moreover have "set wrepto = m_addr ` {r \<in> set (nodes_for (s_whs s) h). m_active r \<and> m_addr r \<noteq> s_addr s}"
    unfolding w by simp
  ultimately show ?thesis
    unfolding replica_targets_def by (simp add: image_image Un_commute)
qed

definition replica_calls :: "server_action list \<Rightarrow> (address \<times> u32) set" where
  "replica_calls acts = {(a, fl). \<exists>c k v cb t. Call a (To_server (S_ReplicateSet c fl k v)) cb t \<in> set acts}"

lemma replica_calls_simps [simp]:
  "replica_calls [] = {}"
  "replica_calls [Respond r x] = {}"
  "replica_calls (xs @ ys) = replica_calls xs \<union> replica_calls ys"
  "replica_calls (map (\<lambda>a. Call a (To_server (S_ReplicateSet c fl k v)) cb t) as) = (\<lambda>a. (a, fl)) ` set as"
  unfolding replica_calls_def by (simp, simp, simp only: set_append Un_iff, blast, force)

lemma set_replicate_eq:
  "set_replicate p op rid oper key val ct rrepto wrepto s =
   (let rparam = S_ReplicateSet (ct_clock ct) replicate_flags_by_rhs key val;
        wparam = S_ReplicateSet (ct_clock ct) replicate_flags_none key val;
        cx = \<lparr>cx_responder = rid, cx_copy_required = if oper = OP_SET_ASYNC then 0 else of_nat (length wrepto + length rrepto),
              cx_rretry = 0, cx_wretry = 0, cx_rparam = rparam, cx_wparam = wparam, cx_clocktime = ct, cx_deleted = False\<rparr>;
        st = (if oper = OP_CAS then (None, s_db s) else storage_set op (s_db s) (dbkey_raw p key) (dbvalue_raw val));
        s1 = (new_ctx cx s)\<lparr>s_db := snd st\<rparr>
    in (fst st, if fst st = None then s1\<lparr>s_num_set := s_num_set s1 + 1\<rparr> else s1,
        replicate_calls Cb_ReplicateSet (s_next_ctx s) rparam wparam rrepto wrepto @
        (if fst st = None \<and> ((wrepto = [] \<and> rrepto = []) \<or> oper = OP_SET_ASYNC) then [Respond rid (V_u64 (ct_get ct))] else [])))"
  by (simp add: set_replicate_def Let_def case_prod_beta new_ctx_def split: option.splits)

text \<open>The context of a write keeps the call of either ring with its flag.\<close>

definition cx_ok :: "rep_ctx \<Rightarrow> bool" where
  "cx_ok cx \<longleftrightarrow> is_rhs (flags (cx_rparam cx)) \<and> \<not> is_rhs (flags (cx_wparam cx))"

lemma set_replicate_result:
  assumes "set_replicate p op rid oper key val ct rrepto wrepto s = (e, s', acts)"
  shows "replica_calls acts = (\<lambda>a. (a, replicate_flags_by_rhs)) ` set rrepto \<union> (\<lambda>a. (a, replicate_flags_none)) ` set wrepto"
    and "Call a (To_server (S_ReplicateSet c fl k v)) cb t \<in> set acts \<Longrightarrow> c = ct_clock ct \<and> k = key \<and> v = val"
    and "s_db s' = (if oper = OP_CAS then s_db s else snd (storage_set op (s_db s) (dbkey_raw p key) (dbvalue_raw val)))"
    and "e = (if oper = OP_CAS then None else fst (storage_set op (s_db s) (dbkey_raw p key) (dbvalue_raw val)))"
    and "Respond rid (V_u64 (ct_get ct)) \<in> set acts \<longleftrightarrow> e = None \<and> ((wrepto = [] \<and> rrepto = []) \<or> oper = OP_SET_ASYNC)"
    and "\<exists>cx. s_ctxs s' (s_next_ctx s) = Some cx \<and> cx_ok cx \<and> cx_responder cx = rid \<and> cx_clocktime cx = ct \<and>
      cx_copy_required cx = (if oper = OP_SET_ASYNC then 0 else of_nat (length wrepto + length rrepto))"
proof -
  let ?r = "set_replicate p op rid oper key val ct rrepto wrepto s"
  have e: "e = fst ?r" and s': "s' = fst (snd ?r)" and acts: "acts = snd (snd ?r)" by (simp_all add: assms)
  show "replica_calls acts = (\<lambda>a. (a, replicate_flags_by_rhs)) ` set rrepto \<union> (\<lambda>a. (a, replicate_flags_none)) ` set wrepto"
    unfolding acts set_replicate_eq Let_def by (simp add: replicate_calls_def)
  show "Call a (To_server (S_ReplicateSet c fl k v)) cb t \<in> set acts \<Longrightarrow> c = ct_clock ct \<and> k = key \<and> v = val"
    unfolding acts set_replicate_eq Let_def by (auto simp: replicate_calls_def split: if_splits)
  show "Respond rid (V_u64 (ct_get ct)) \<in> set acts \<longleftrightarrow> e = None \<and> ((wrepto = [] \<and> rrepto = []) \<or> oper = OP_SET_ASYNC)"
    unfolding acts e set_replicate_eq Let_def by (auto simp: replicate_calls_def)
  show "\<exists>cx. s_ctxs s' (s_next_ctx s) = Some cx \<and> cx_ok cx \<and> cx_responder cx = rid \<and> cx_clocktime cx = ct \<and>
      cx_copy_required cx = (if oper = OP_SET_ASYNC then 0 else of_nat (length wrepto + length rrepto))"
    unfolding s' set_replicate_eq Let_def by (simp add: new_ctx_def cx_ok_def)
  show "s_db s' = (if oper = OP_CAS then s_db s else snd (storage_set op (s_db s) (dbkey_raw p key) (dbvalue_raw val)))"
    unfolding s' set_replicate_eq Let_def by simp
  show "e = (if oper = OP_CAS then None else fst (storage_set op (s_db s) (dbkey_raw p key) (dbvalue_raw val)))"
    unfolding e set_replicate_eq Let_def by simp
qed

lemma rpc_Set_result:
  assumes "kumo_storage_kv op recs" and "ring_ok (s_whs s)" and "ring_ok (s_rhs s)" and "dbvalue_ok p val"
    and "rpc_Set p op rid OP_SET key val s = (None, s', acts)"
  shows "\<exists>ct v. ct = fst (clock_incr_clocktime (s_clock s)) \<and> v = raw_set_clocktime p ct val \<and>
    recs (m_data (s_db s')) = (recs (m_data (s_db s)))(dbkey_raw p key \<mapsto> dbvalue_raw v) \<and>
    clocktime_of p (dbvalue_raw v) = ct \<and>
    storage_get op (s_db s') (dbkey_raw p key) = Some (dbvalue_raw v) \<and>
    replica_calls acts = replica_targets s (dk_hash key) \<and>
    (\<forall>a c fl k w cb t. Call a (To_server (S_ReplicateSet c fl k w)) cb t \<in> set acts \<longrightarrow>
       c = ct_clock ct \<and> k = key \<and> w = v) \<and>
    (Respond rid (V_u64 (ct_get ct)) \<in> set acts \<longleftrightarrow> replica_targets s (dk_hash key) = {})"
proof -
  have op: "OP_SET \<noteq> OP_CAS" "OP_SET \<noteq> OP_SET_ASYNC" by (simp_all add: OP_SET_def OP_CAS_def OP_SET_ASYNC_def)
  obtain rrepto wrepto where calc: "calc_replicators (s_addr s) (s_whs s) (s_rhs s) (dk_hash key) = Inr (rrepto, wrepto)"
    using assms(5) by (auto simp: rpc_Set_def split: if_splits sum.splits)
  obtain ct clk where ct: "clock_incr_clocktime (s_clock s) = (ct, clk)" by fastforce
  define v where "v = raw_set_clocktime p ct val"
  have rep: "set_replicate p op rid OP_SET key v ct rrepto wrepto (s\<lparr>s_clock := clk\<rparr>) = (None, s', acts)"
    using assms(5) calc ct op by (simp add: rpc_Set_def v_def)
  note res = set_replicate_result [OF rep]
  have vok: "dbvalue_ok p v" using assms(4) by (simp add: v_def dbvalue_ok_set_clocktime)
  have vct: "dv_clocktime v = ct" by (simp add: v_def raw_set_clocktime_def)
  have db: "storage_set op (s_db s) (dbkey_raw p key) (dbvalue_raw v) = (None, s_db s')"
    using res(3,4) op(1) by (simp add: prod_eq_iff)
  have recs: "recs (m_data (s_db s')) = (recs (m_data (s_db s)))(dbkey_raw p key \<mapsto> dbvalue_raw v)"
    using kumo_storage_kv.storage_set_abs [OF assms(1) db] by simp
  have targets: "replica_calls acts = replica_targets s (dk_hash key)"
    unfolding res(1) using calc_replicators_targets [OF assms(2,3) calc] by simp
  have "replica_targets s (dk_hash key) = {} \<longleftrightarrow> wrepto = [] \<and> rrepto = []"
    unfolding targets [symmetric] res(1) by auto
  moreover have "storage_get op (s_db s') (dbkey_raw p key) = Some (dbvalue_raw v)"
    using recs length_dbvalue_raw [OF vok] by (simp add: kumo_storage_kv.storage_get_abs [OF assms(1)])
  moreover have "clocktime_of p (dbvalue_raw v) = ct"
    using dbvalue_raw_clocktime [OF vok] vct by simp
  ultimately show ?thesis
    using recs targets res(2,5) op ct unfolding v_def by (intro exI [of _ ct] exI [of _ v]) (auto simp: v_def)
qed

text \<open>
  C4: an accepted plain write stores the value with a fresh stamp, so that a read on the same
  server returns it; it sends the same key, value and stamp to exactly the other active nodes
  of the writing ring and, while the rings differ, to the active nodes that only the reading
  ring assigns; and it counts exactly these copies, answering at once only if there are none.
\<close>

theorem set_reaches_all_replicas:
  assumes "kumo_storage_kv op recs" and "ring_ok (s_whs s)" and "ring_ok (s_rhs s)" and "dbvalue_ok p val"
    and "rpc_Set p op rid OP_SET key val s = (None, s', acts)"
  shows "\<exists>ct v. ct = fst (clock_incr_clocktime (s_clock s)) \<and> v = raw_set_clocktime p ct val \<and>
    recs (m_data (s_db s')) = (recs (m_data (s_db s)))(dbkey_raw p key \<mapsto> dbvalue_raw v) \<and>
    clocktime_of p (dbvalue_raw v) = ct \<and>
    storage_get op (s_db s') (dbkey_raw p key) = Some (dbvalue_raw v) \<and>
    replica_calls acts = replica_targets s (dk_hash key) \<and>
    (\<forall>a c fl k w cb t. Call a (To_server (S_ReplicateSet c fl k w)) cb t \<in> set acts \<longrightarrow>
       c = ct_clock ct \<and> k = key \<and> w = v) \<and>
    (Respond rid (V_u64 (ct_get ct)) \<in> set acts \<longleftrightarrow> replica_targets s (dk_hash key) = {})"
  by (rule rpc_Set_result [OF assms])

definition sample_set_key :: dbkey where
  "sample_set_key = \<lparr>dk_hash = 0, dk_key = [7]\<rparr>"

definition sample_set_val :: dbvalue where
  "sample_set_val = \<lparr>dv_head = replicate 10 0, dv_val = [9], dv_clocktime = ClockTime 0, dv_meta = 0\<rparr>"

lemma sample_set_val_ok: "dbvalue_ok sample_platform sample_set_val"
proof -
  have zero: "load_word Little (replicate 8 0) = (0 :: u64)" "load_word Little [0, 0] = (0 :: u16)"
    by (simp_all add: load_word_def eval_nat_numeral)
  show ?thesis
    by (simp add: sample_set_val_def dbvalue_ok_def clocktime_of_def meta_of_def kumo_be64_def sample_platform_def zero)
      (simp add: zero eval_nat_numeral)
qed

lemma sample_rings: "ring_ok (s_whs sample_server)" "ring_ok (s_rhs sample_server)" "s_next_ctx sample_server = 0"
  by (simp_all add: sample_server_def)

lemma sample_write:
  "\<exists>s1 rp wp. rpc_Set sample_platform (kumo_tchdb_op mem_api) 4 OP_SET sample_set_key sample_set_val sample_server =
     (None, s1, replicate_calls Cb_ReplicateSet 0 rp wp [] [sample_addr 2, sample_addr 3])"
proof -
  have nodes: "nodes_for (s_whs sample_server) 0 = map (\<lambda>i. \<lparr>m_addr = sample_addr i, m_active = True\<rparr>) [1, 2, 3]"
    by (simp add: sample_server_def small_ring_nodes)
  have "\<not> hs_empty (s_whs sample_server)" by (simp add: sample_server_def hs_empty_def small_ring_def)
  then have "check_coordinator_assign (s_addr sample_server) (s_whs sample_server) 0 = Inr ()"
    by (simp add: check_coordinator_ok [OF sample_rings(1)] nodes) (simp add: sample_server_def)
  moreover have "map m_addr (filter (\<lambda>r. m_active r \<and> m_addr r \<noteq> s_addr sample_server) (nodes_for (s_whs sample_server) 0)) =
      [sample_addr 2, sample_addr 3]"
    unfolding nodes by (simp add: sample_server_def sample_addr_def)
  moreover have "m_timestamp (s_whs sample_server) = m_timestamp (s_rhs sample_server)" by (simp add: sample_server_def small_ring_def)
  ultimately have "calc_replicators (s_addr sample_server) (s_whs sample_server) (s_rhs sample_server) 0 = Inr ([], [sample_addr 2, sample_addr 3])"
    by (simp add: calc_replicators_ok [OF sample_rings(1,2)] Let_def)
  then show ?thesis
    by (simp add: rpc_Set_def sample_set_key_def OP_SET_def OP_CAS_def OP_SET_ASYNC_def case_prod_beta set_replicate_eq Let_def
        storage_set_def kumo_tchdb_op_def kumo_tchdb_set_def mem_api_def sample_rings(3)) blast
qed

theorem set_reaches_all_replicas_witness:
  "\<exists>s' acts. rpc_Set sample_platform (kumo_tchdb_op mem_api) 4 OP_SET sample_set_key sample_set_val sample_server = (None, s', acts) \<and>
     replica_targets sample_server (dk_hash sample_set_key) = {(sample_addr 2, replicate_flags_none), (sample_addr 3, replicate_flags_none)} \<and>
     replica_calls acts = {(sample_addr 2, replicate_flags_none), (sample_addr 3, replicate_flags_none)}"
proof -
  obtain s' acts where out: "rpc_Set sample_platform (kumo_tchdb_op mem_api) 4 OP_SET sample_set_key sample_set_val sample_server = (None, s', acts)"
    using sample_write by blast
  have nodes: "nodes_for (s_whs sample_server) 0 = map (\<lambda>i. \<lparr>m_addr = sample_addr i, m_active = True\<rparr>) [1, 2, 3]"
    by (simp add: sample_server_def small_ring_nodes)
  have "{r \<in> set (nodes_for (s_whs sample_server) 0). m_active r \<and> m_addr r \<noteq> s_addr sample_server} =
      (\<lambda>i. \<lparr>m_addr = sample_addr i, m_active = True\<rparr>) ` {2, 3}"
    unfolding nodes by (auto simp: sample_server_def sample_addr_def)
  then have "replica_targets sample_server (dk_hash sample_set_key) = {(sample_addr 2, replicate_flags_none), (sample_addr 3, replicate_flags_none)}"
    unfolding replica_targets_def by (simp add: sample_server_def small_ring_def sample_set_key_def)
  with set_reaches_all_replicas [OF mem_storage_kv sample_rings(1,2) sample_set_val_ok out] out show ?thesis by auto
qed

section \<open>Answering a write\<close>

lemma cx_retry_incr_frame:
  "cx_retry_incr rhs limit cx = (ok, cx') \<Longrightarrow>
   cx_responder cx' = cx_responder cx \<and> cx_copy_required cx' = cx_copy_required cx \<and>
   cx_clocktime cx' = cx_clocktime cx \<and> cx_deleted cx' = cx_deleted cx \<and> cx_rparam cx' = cx_rparam cx \<and>
   cx_wparam cx' = cx_wparam cx"
  by (auto simp: cx_retry_incr_def retry_incr_def Let_def split: if_splits)

definition reply_ack :: "rep_ctx \<Rightarrow> server_action list" where
  "reply_ack cx = (if cx_copy_required cx = 0
     then [Respond (cx_responder cx) (V_u64 (ct_get (cx_clocktime cx)))] else [])"

lemma res_ReplicateSet_step:
  assumes "s_ctxs s cid = Some cx" and "cx_ok cx"
  obtains s' acts cx' where
    "res_ReplicateSet cid rhs from active res err s = (None, s', acts)" "s_ctxs s' cid = Some cx'" "cx_ok cx'"
    "cx_responder cx' = cx_responder cx" "cx_clocktime cx' = cx_clocktime cx"
    "(err = V_nil \<or> rhs) \<and> cx_copy_required cx' = cx_copy_required cx - 1 \<and>
       acts = (if cx_copy_required cx - 1 = 0 then [Respond (cx_responder cx) (V_u64 (ct_get (cx_clocktime cx)))] else []) \<or>
     err \<noteq> V_nil \<and> cx_copy_required cx' = cx_copy_required cx \<and>
       ((\<exists>req. acts = [Call from req (Cb_ReplicateSet cid rhs) 10]) \<or>
        (\<not> rhs \<and> acts = [Respond (cx_responder cx) V_nil]))"
proof -
  let ?put = "\<lambda>cx'. s\<lparr>s_ctxs := (s_ctxs s)(cid \<mapsto> cx')\<rparr>"
  let ?dec = "\<lambda>cx. cx\<lparr>cx_copy_required := cx_copy_required cx - 1\<rparr>"
  let ?limit = "s_replicate_set_retry_num s"
  define retried where "retried = (if active then cx_retry_incr rhs ?limit cx else (False, cx))"
  obtain again cx1 where r: "retried = (again, cx1)" by fastforce
  have fr: "cx_responder cx1 = cx_responder cx" "cx_copy_required cx1 = cx_copy_required cx"
    "cx_clocktime cx1 = cx_clocktime cx" "cx_ok cx1" "again \<Longrightarrow> active"
    using r assms(2) by (auto simp: retried_def cx_ok_def dest!: cx_retry_incr_frame split: if_splits)
  have rhs: "is_rhs (flags (cx_param rhs c)) \<longleftrightarrow> rhs" if "cx_ok c" for c
    using that by (simp add: cx_ok_def cx_param_def)
  have res: "res_ReplicateSet cid rhs from active res err s =
      (if err = V_nil then (None, ?put (?dec cx), reply_ack (?dec cx))
       else if again then (None, ?put cx1, [Call from (To_server (cx_param rhs cx1)) (Cb_ReplicateSet cid rhs) 10])
       else if \<not> rhs then (None, ?put cx1, [Respond (cx_responder cx1) V_nil])
       else (None, ?put (?dec cx1), reply_ack (?dec cx1)))"
    using assms(1) r rhs [OF fr(4)] fr(5)
    by (auto simp: res_ReplicateSet_def replicate_reply_def retried_def reply_ack_def split: if_splits)
  consider "err = V_nil" | "err \<noteq> V_nil" again | "err \<noteq> V_nil" "\<not> again" "\<not> rhs" | "err \<noteq> V_nil" "\<not> again" rhs
    by blast
  then show ?thesis
  proof cases
    case 1
    with res assms(2) show ?thesis
      by (intro that [of "?put (?dec cx)" "reply_ack (?dec cx)" "?dec cx"]) (simp_all add: cx_ok_def reply_ack_def)
  next
    case 2
    with res fr show ?thesis
      by (intro that [of "?put cx1" _ cx1]) auto
  next
    case 3
    with res fr show ?thesis
      by (intro that [of "?put cx1" _ cx1]) auto
  next
    case 4
    with res fr show ?thesis
      by (intro that [of "?put (?dec cx1)" "reply_ack (?dec cx1)" "?dec cx1"]) (simp_all add: cx_ok_def reply_ack_def)
  qed
qed

lemma of_nat_u32_nonzero: "0 < m \<Longrightarrow> m < 2 ^ 32 \<Longrightarrow> (of_nat m :: u32) \<noteq> 0"
proof
  assume "0 < m" "m < 2 ^ 32" "(of_nat m :: u32) = 0"
  moreover have "unat (of_nat m :: u32) = m"
    using \<open>m < 2 ^ 32\<close> by (simp add: unat_of_nat take_bit_nat_eq_self)
  ultimately show False by simp
qed


text \<open>
  The copies a server is waiting for are the calls whose callback belongs to the write: of which
  ring, and at which server.
\<close>

fun copy_of :: "nat \<Rightarrow> server_action \<Rightarrow> (bool \<times> address) option" where
  "copy_of cid (Call a req (Cb_ReplicateSet c rhs) t) = (if c = cid then Some (rhs, a) else None)"
| "copy_of cid _ = None"

definition copies :: "nat \<Rightarrow> server_action list \<Rightarrow> (bool \<times> address) multiset" where
  "copies cid acts = mset (List.map_filter (copy_of cid) acts)"

lemma copies_simps [simp]:
  "copies cid [] = {#}"
  "copies cid [Respond r x] = {#}"
  "copies cid [Call a req (Cb_ReplicateSet cid rhs) t] = {#(rhs, a)#}"
  "copies cid (xs @ ys) = copies cid xs + copies cid ys"
  by (simp_all add: copies_def map_filter_def)

lemma copies_replicate_calls [simp]:
  "copies cid (replicate_calls Cb_ReplicateSet cid rp wp rrepto wrepto) =
     mset (map (Pair True) rrepto) + mset (map (Pair False) wrepto)"
proof -
  have "copies cid (map (\<lambda>a. Call a (To_server req) (Cb_ReplicateSet cid rhs) 10) as) = mset (map (Pair rhs) as)" for as req rhs
    by (induction as) (auto simp: copies_def map_filter_def)
  then show ?thesis by (simp add: replicate_calls_def)
qed

text \<open>A reply to a copy: of which ring, from whom, whether the session is alive, result and error.\<close>

type_synonym reply = "bool \<times> address \<times> bool \<times> rvalue \<times> rvalue"

text \<open>
  The course of a write after its handler: the server, the copies that are outstanding and the
  actions taken so far. The replies come in any order, each to an outstanding copy; a copy that
  is sent again is outstanding again; in between the server does anything that leaves the
  context of the write alone.
\<close>

inductive set_run ::
    "nat \<Rightarrow> 'd server \<Rightarrow> server_action list \<Rightarrow> reply list \<Rightarrow> 'd server \<Rightarrow> (bool \<times> address) multiset \<Rightarrow> server_action list \<Rightarrow> bool"
  for cid s0 acts0 where
  run_start: "set_run cid s0 acts0 [] s0 (copies cid acts0) acts0"
| run_reply: "set_run cid s0 acts0 es s pending acts \<Longrightarrow> (rhs, frm) \<in># pending \<Longrightarrow>
    res_ReplicateSet cid rhs frm active res err s = (e, s', acts') \<Longrightarrow>
    set_run cid s0 acts0 (es @ [(rhs, frm, active, res, err)]) s' (pending - {#(rhs, frm)#} + copies cid acts') (acts @ acts')"
| run_other: "set_run cid s0 acts0 es s pending acts \<Longrightarrow> s_ctxs s' cid = s_ctxs s cid \<Longrightarrow> set_run cid s0 acts0 es s' pending acts"

text \<open>A reply that settles a copy: a success, or any reply of the reading ring.\<close>

definition copy_settled :: "reply list \<Rightarrow> bool \<times> address \<Rightarrow> bool" where
  "copy_settled es c \<longleftrightarrow> (\<exists>active res err. (fst c, snd c, active, res, err) \<in> set es \<and> (\<not> fst c \<longrightarrow> err = V_nil))"

definition copy_failed :: "reply list \<Rightarrow> bool" where
  "copy_failed es \<longleftrightarrow> (\<exists>frm active res err. (False, frm, active, res, err) \<in> set es \<and> err \<noteq> V_nil)"

text \<open>
  The invariant: the counter is the number of outstanding copies plus the number \<open>f\<close> of copies of
  the writing ring that have failed for good, each of which was answered with nil.
\<close>

definition run_inv ::
    "nat \<Rightarrow> responder \<Rightarrow> clocktime \<Rightarrow> (bool \<times> address) multiset \<Rightarrow> reply list \<Rightarrow> 'd server \<Rightarrow>
     (bool \<times> address) multiset \<Rightarrow> server_action list \<Rightarrow> bool" where
  "run_inv cid rid ct copies0 es s pending acts \<longleftrightarrow>
     (\<exists>cx f. s_ctxs s cid = Some cx \<and> cx_ok cx \<and> cx_responder cx = rid \<and> cx_clocktime cx = ct \<and>
        cx_copy_required cx = of_nat (size pending + f) \<and> size pending + f \<le> size copies0 \<and>
        (0 < f \<longleftrightarrow> Respond rid V_nil \<in> set acts) \<and>
        (0 < f \<longrightarrow> copy_failed es) \<and>
        length (filter (\<lambda>a. a = Respond rid (V_u64 (ct_get ct))) acts) = (if size pending + f = 0 then 1 else 0) \<and>
        (\<forall>r x. Respond r x \<in> set acts \<longrightarrow> r = rid \<and> (x = V_nil \<or> x = V_u64 (ct_get ct))) \<and>
        (\<forall>c \<in># copies0. c \<in># pending \<or> copy_settled es c \<or> 0 < f))"

lemma run_settled_mono:
  "copy_settled es c \<Longrightarrow> copy_settled (es @ [e]) c"
  "copy_failed es \<Longrightarrow> copy_failed (es @ [e])"
  unfolding copy_settled_def copy_failed_def by auto

lemma run_inv_reply:
  assumes inv: "run_inv cid rid ct copies0 es s pending acts" and mem: "(rhs, frm) \<in># pending"
    and few: "size copies0 < 2 ^ 32"
    and step: "res_ReplicateSet cid rhs frm active res err s = (e, s', acts')"
  shows "run_inv cid rid ct copies0 (es @ [(rhs, frm, active, res, err)]) s' (pending - {#(rhs, frm)#} + copies cid acts') (acts @ acts')"
proof -
  let ?stamp = "Respond rid (V_u64 (ct_get ct)) :: server_action" and ?es = "es @ [(rhs, frm, active, res, err)]"
  from inv obtain cx f where cx: "s_ctxs s cid = Some cx" "cx_ok cx" "cx_responder cx = rid" "cx_clocktime cx = ct"
    and req: "cx_copy_required cx = of_nat (size pending + f)" and le: "size pending + f \<le> size copies0"
    and nil: "0 < f \<longleftrightarrow> Respond rid V_nil \<in> set acts" and wf: "0 < f \<longrightarrow> copy_failed es"
    and stamp: "length (filter (\<lambda>a. a = ?stamp) acts) = (if size pending + f = 0 then 1 else 0)"
    and only: "\<forall>r x. Respond r x \<in> set acts \<longrightarrow> r = rid \<and> (x = V_nil \<or> x = V_u64 (ct_get ct))"
    and all: "\<forall>c \<in># copies0. c \<in># pending \<or> copy_settled es c \<or> 0 < f"
    unfolding run_inv_def by blast
  obtain rest where rest: "pending = add_mset (rhs, frm) rest" using mem by (metis mset_add)
  obtain s1 acts1 cx' where out: "res_ReplicateSet cid rhs frm active res err s = (None, s1, acts1)"
    and st1: "s_ctxs s1 cid = Some cx'" "cx_ok cx'" "cx_responder cx' = cx_responder cx" "cx_clocktime cx' = cx_clocktime cx"
    and alt1: "(err = V_nil \<or> rhs) \<and> cx_copy_required cx' = cx_copy_required cx - 1 \<and>
       acts1 = (if cx_copy_required cx - 1 = 0 then [Respond (cx_responder cx) (V_u64 (ct_get (cx_clocktime cx)))] else []) \<or>
     err \<noteq> V_nil \<and> cx_copy_required cx' = cx_copy_required cx \<and>
       ((\<exists>req. acts1 = [Call frm req (Cb_ReplicateSet cid rhs) 10]) \<or> (\<not> rhs \<and> acts1 = [Respond (cx_responder cx) V_nil]))"
    using res_ReplicateSet_step [OF cx(1,2), of rhs frm active res err] by blast
  have same: "s1 = s'" "acts1 = acts'" using out step by simp_all
  note st = st1 [unfolded same cx(3,4)] and alt = alt1 [unfolded same cx(3,4)]
  have all': "\<forall>c \<in># copies0. c = (rhs, frm) \<or> c \<in># rest \<or> copy_settled ?es c \<or> 0 < f"
    using all run_settled_mono(1) unfolding rest by fastforce
  from alt consider
      (counted) "err = V_nil \<or> rhs" "cx_copy_required cx' = cx_copy_required cx - 1"
        "acts' = (if cx_copy_required cx - 1 = 0 then [?stamp] else [])"
    | (again) req where "cx_copy_required cx' = cx_copy_required cx" "acts' = [Call frm req (Cb_ReplicateSet cid rhs) 10]"
    | (failed) "err \<noteq> V_nil" "\<not> rhs" "cx_copy_required cx' = cx_copy_required cx" "acts' = [Respond rid V_nil]"
    by blast
  then show ?thesis
  proof cases
    case counted
    have dec: "cx_copy_required cx - 1 = of_nat (size rest + f)" using req by (simp add: rest)
    have zero: "cx_copy_required cx - 1 = 0 \<longleftrightarrow> size rest + f = 0"
    proof -
      have "size rest + f < 2 ^ 32" using le few by (simp add: rest)
      with of_nat_u32_nonzero [of "size rest + f"] have "(of_nat (size rest + f) :: u32) = 0 \<longleftrightarrow> size rest + f = 0"
        by (cases "size rest + f") simp_all
      then show ?thesis unfolding dec .
    qed
    have "copy_settled ?es (rhs, frm)" using counted(1) by (auto simp: copy_settled_def)
    then have all'': "\<forall>c \<in># copies0. c \<in># rest \<or> copy_settled ?es c \<or> 0 < f" using all' by metis
    have pend: "pending - {#(rhs, frm)#} + copies cid acts' = rest" using counted(3) by (simp add: rest)
    have "length (filter (\<lambda>a. a = ?stamp) (acts @ acts')) = (if size rest + f = 0 then 1 else 0)"
      using stamp zero counted(3) by (simp add: rest)
    moreover have "0 < f \<longleftrightarrow> Respond rid V_nil \<in> set (acts @ acts')" using nil counted(3) by simp
    moreover have "\<forall>r x. Respond r x \<in> set (acts @ acts') \<longrightarrow> r = rid \<and> (x = V_nil \<or> x = V_u64 (ct_get ct))"
      using only counted(3) by auto
    moreover have "size rest + f \<le> size copies0" "cx_copy_required cx' = of_nat (size rest + f)"
      using le counted(2) dec by (simp_all add: rest)
    ultimately show ?thesis
      unfolding run_inv_def pend using st wf all'' run_settled_mono(2) by blast
  next
    case (again req')
    have pend: "pending - {#(rhs, frm)#} + copies cid acts' = pending" using again(2) mem by simp
    have "length (filter (\<lambda>a. a = ?stamp) (acts @ acts')) = (if size pending + f = 0 then 1 else 0)"
      using stamp again(2) by simp
    moreover have "0 < f \<longleftrightarrow> Respond rid V_nil \<in> set (acts @ acts')" using nil again(2) by simp
    moreover have "\<forall>r x. Respond r x \<in> set (acts @ acts') \<longrightarrow> r = rid \<and> (x = V_nil \<or> x = V_u64 (ct_get ct))"
      using only again(2) by simp
    moreover have "\<forall>c \<in># copies0. c \<in># pending \<or> copy_settled ?es c \<or> 0 < f"
      using all run_settled_mono(1) by metis
    moreover have "cx_copy_required cx' = of_nat (size pending + f)" using req again(1) by simp
    moreover have "0 < f \<longrightarrow> copy_failed ?es" using wf run_settled_mono(2) by metis
    ultimately show ?thesis
      unfolding run_inv_def pend using st le by blast
  next
    case failed
    have pend: "pending - {#(rhs, frm)#} + copies cid acts' = rest" using failed(4) by (simp add: rest)
    have "copy_failed ?es" using failed(1,2) by (auto simp: copy_failed_def)
    moreover have "length (filter (\<lambda>a. a = ?stamp) (acts @ acts')) = (if size rest + Suc f = 0 then 1 else 0)"
      using stamp failed(4) by (simp add: rest)
    moreover have "Respond rid V_nil \<in> set (acts @ acts')" using failed(4) by simp
    moreover have "\<forall>r x. Respond r x \<in> set (acts @ acts') \<longrightarrow> r = rid \<and> (x = V_nil \<or> x = V_u64 (ct_get ct))"
      using only failed(4) by auto
    moreover have "size rest + Suc f \<le> size copies0" "cx_copy_required cx' = of_nat (size rest + Suc f)"
      using le failed(3) req by (simp_all add: rest)
    ultimately show ?thesis
      unfolding run_inv_def pend using st by (intro exI [of _ cx'] exI [of _ "Suc f"]) simp
  qed
qed

lemma set_run_inv:
  assumes "set_run cid s0 acts0 es s pending acts" and "run_inv cid rid ct (copies cid acts0) [] s0 (copies cid acts0) acts0"
    and "size (copies cid acts0) < 2 ^ 32"
  shows "run_inv cid rid ct (copies cid acts0) es s pending acts"
  using assms(1)
proof (induction rule: set_run.induct)
  case run_start
  show ?case by (rule assms(2))
next
  case (run_reply es s pending acts rhs frm active res err e s' acts')
  then show ?case using run_inv_reply [OF run_reply.IH run_reply.hyps(2) assms(3) run_reply.hyps(3)] by simp
next
  case (run_other es s pending acts s')
  then show ?case unfolding run_inv_def by simp
qed

text \<open>What the handler of a plain write leaves: the copies it has sent, and the invariant.\<close>

lemma rpc_Set_copies:
  assumes "ring_ok (s_whs s)" and "ring_ok (s_rhs s)" and "rpc_Set p op rid OP_SET key val s = (None, s', acts)"
  shows "set_mset (copies (s_next_ctx s) acts) = (\<lambda>(a, fl). (is_rhs fl, a)) ` replica_targets s (dk_hash key)"
    and "size (copies (s_next_ctx s) acts) < 2 ^ 32"
    and "run_inv (s_next_ctx s) rid (fst (clock_incr_clocktime (s_clock s))) (copies (s_next_ctx s) acts) [] s'
           (copies (s_next_ctx s) acts) acts"
proof -
  have op: "OP_SET \<noteq> OP_CAS" "OP_SET \<noteq> OP_SET_ASYNC" by (simp_all add: OP_SET_def OP_CAS_def OP_SET_ASYNC_def)
  obtain rrepto wrepto where calc: "calc_replicators (s_addr s) (s_whs s) (s_rhs s) (dk_hash key) = Inr (rrepto, wrepto)"
    using assms(3) by (auto simp: rpc_Set_def split: if_splits sum.splits)
  obtain ct clk where ct: "clock_incr_clocktime (s_clock s) = (ct, clk)" by fastforce
  define v where "v = raw_set_clocktime p ct val"
  have rep: "set_replicate p op rid OP_SET key v ct rrepto wrepto (s\<lparr>s_clock := clk\<rparr>) = (None, s', acts)"
    using assms(3) calc ct op by (simp add: rpc_Set_def v_def)
  have acts: "acts = replicate_calls Cb_ReplicateSet (s_next_ctx s) (S_ReplicateSet (ct_clock ct) replicate_flags_by_rhs key v)
      (S_ReplicateSet (ct_clock ct) replicate_flags_none key v) rrepto wrepto @
      (if wrepto = [] \<and> rrepto = [] then [Respond rid (V_u64 (ct_get ct))] else [])"
    using rep op by (auto simp: set_replicate_eq Let_def)
  have cp: "copies (s_next_ctx s) acts = mset (map (Pair True) rrepto) + mset (map (Pair False) wrepto)"
    by (simp add: acts)
  show "set_mset (copies (s_next_ctx s) acts) = (\<lambda>(a, fl). (is_rhs fl, a)) ` replica_targets s (dk_hash key)"
    unfolding cp calc_replicators_targets [OF assms(1,2) calc] by (simp add: image_Un image_image)
  have len: "length rrepto \<le> 2" "length wrepto \<le> 2"
    using calc by (auto simp: calc_replicators_def NUM_REPLICATION_def split: sum.splits if_splits)
  then show "size (copies (s_next_ctx s) acts) < 2 ^ 32" unfolding cp by simp
  obtain cx where cx: "s_ctxs s' (s_next_ctx s) = Some cx" "cx_ok cx" "cx_responder cx = rid" "cx_clocktime cx = ct"
      "cx_copy_required cx = of_nat (length wrepto + length rrepto)"
    using set_replicate_result(6) [OF rep] op by auto
  have no: "Respond r x \<notin> set (replicate_calls cb cid rp wp rr wr)" for r x cb cid rp wp rr wr
    by (auto simp: replicate_calls_def)
  then have none: "filter (\<lambda>a. a = Respond r x) (replicate_calls cb cid rp wp rr wr) = []" for r x cb cid rp wp rr wr
    by (auto simp: filter_empty_conv)
  show "run_inv (s_next_ctx s) rid (fst (clock_incr_clocktime (s_clock s))) (copies (s_next_ctx s) acts) [] s'
           (copies (s_next_ctx s) acts) acts"
    unfolding run_inv_def cp using cx ct
    by (intro exI [of _ cx] exI [of _ 0]) (auto simp: acts none no add.commute)
qed

text \<open>
  C20: an accepted plain write is answered with its stamp exactly once, and only when it is done.
  The copies it waits for are exactly the calls it has sent to its replicas. After any replies to
  them, in any order and with any repetitions of failed copies, the stamp has been sent once if
  no copy is outstanding and none was given up with nil, and not at all otherwise; when it has
  been sent, every copy of the writing ring has succeeded and every copy of the reading ring has
  been replied to (a copy of the reading ring that fails for good is counted as done). The
  only other answer is nil, and only after a failed copy of the writing ring.
\<close>

theorem set_answered_after_all_copies:
  assumes "ring_ok (s_whs s)" and "ring_ok (s_rhs s)" and "rpc_Set p op rid OP_SET key val s = (None, s1, acts1)"
    and "set_run (s_next_ctx s) s1 acts1 es s2 pending acts"
  shows "\<exists>stamp. stamp = V_u64 (ct_get (fst (clock_incr_clocktime (s_clock s)))) \<and>
    set_mset (copies (s_next_ctx s) acts1) = (\<lambda>(a, fl). (is_rhs fl, a)) ` replica_targets s (dk_hash key) \<and>
    length (filter (\<lambda>a. a = Respond rid stamp) acts) = (if pending = {#} \<and> Respond rid V_nil \<notin> set acts then 1 else 0) \<and>
    (Respond rid stamp \<in> set acts \<longrightarrow>
       (\<forall>(rhs, a) \<in># copies (s_next_ctx s) acts1.
          \<exists>active res err. (rhs, a, active, res, err) \<in> set es \<and> (\<not> rhs \<longrightarrow> err = V_nil))) \<and>
    (\<forall>r x. Respond r x \<in> set acts \<longrightarrow> r = rid \<and>
       (x = stamp \<or> x = V_nil \<and> (\<exists>a active res err. (False, a, active, res, err) \<in> set es \<and> err \<noteq> V_nil)))"
proof -
  note w = rpc_Set_copies [OF assms(1-3)]
  let ?ct = "fst (clock_incr_clocktime (s_clock s))"
  let ?stamp = "Respond rid (V_u64 (ct_get ?ct)) :: server_action"
  from set_run_inv [OF assms(4) w(3,2)] obtain f where
    nil: "0 < f \<longleftrightarrow> Respond rid V_nil \<in> set acts" and wf: "0 < f \<longrightarrow> copy_failed es"
    and stamp: "length (filter (\<lambda>a. a = ?stamp) acts) = (if size pending + f = 0 then 1 else 0)"
    and only: "\<forall>r x. Respond r x \<in> set acts \<longrightarrow> r = rid \<and> (x = V_nil \<or> x = V_u64 (ct_get ?ct))"
    and all: "\<forall>c \<in># copies (s_next_ctx s) acts1. c \<in># pending \<or> copy_settled es c \<or> 0 < f"
    unfolding run_inv_def by blast
  have "size pending + f = 0" if "?stamp \<in> set acts"
  proof (rule ccontr)
    assume "size pending + f \<noteq> 0"
    then have "length (filter (\<lambda>a. a = ?stamp) acts) = 0" unfolding stamp by simp
    then have "filter (\<lambda>a. a = ?stamp) acts = []" by (simp only: length_0_conv)
    with that show False unfolding filter_empty_conv by blast
  qed
  then have "?stamp \<in> set acts \<longrightarrow> (\<forall>c \<in># copies (s_next_ctx s) acts1. copy_settled es c)" using all by auto
  then have settled: "?stamp \<in> set acts \<longrightarrow> (\<forall>(rhs, a) \<in># copies (s_next_ctx s) acts1.
      \<exists>active res err. (rhs, a, active, res, err) \<in> set es \<and> (\<not> rhs \<longrightarrow> err = V_nil))"
    unfolding copy_settled_def by (simp add: case_prod_beta)
  have once: "length (filter (\<lambda>a. a = ?stamp) acts) = (if pending = {#} \<and> Respond rid V_nil \<notin> set acts then 1 else 0)"
    unfolding stamp nil [symmetric] by auto
  have "\<forall>r x. Respond r x \<in> set acts \<longrightarrow> r = rid \<and> (x = V_u64 (ct_get ?ct) \<or>
      x = V_nil \<and> (\<exists>a active res err. (False, a, active, res, err) \<in> set es \<and> err \<noteq> V_nil))"
    using only nil wf unfolding copy_failed_def by blast
  with w(1) settled once show ?thesis by blast
qed

theorem set_answered_after_all_copies_witness:
  "\<exists>s1 acts1 s2 acts. rpc_Set sample_platform (kumo_tchdb_op mem_api) 4 OP_SET sample_set_key sample_set_val sample_server = (None, s1, acts1) \<and>
     set_run 0 s1 acts1 [(False, sample_addr 3, True, V_bool True, V_nil), (False, sample_addr 2, True, V_bool True, V_nil)] s2 {#} acts \<and>
     length (filter (\<lambda>a. a = Respond 4 (V_u64 (ct_get (fst (clock_incr_clocktime (s_clock sample_server)))))) acts) = 1"
proof -
  let ?stamp = "V_u64 (ct_get (fst (clock_incr_clocktime (s_clock sample_server))))"
  obtain s1 rp wp where out: "rpc_Set sample_platform (kumo_tchdb_op mem_api) 4 OP_SET sample_set_key sample_set_val sample_server =
      (None, s1, replicate_calls Cb_ReplicateSet 0 rp wp [] [sample_addr 2, sample_addr 3])" (is "_ = (None, s1, ?acts1)")
    using sample_write by blast
  have cp: "copies 0 ?acts1 = {#(False, sample_addr 2), (False, sample_addr 3)#}" by simp
  have "run_inv 0 4 (fst (clock_incr_clocktime (s_clock sample_server))) (copies 0 ?acts1) [] s1 (copies 0 ?acts1) ?acts1"
    using rpc_Set_copies(3) [OF sample_rings(1,2) out] unfolding sample_rings(3) .
  then obtain cx where cx: "s_ctxs s1 0 = Some cx" "cx_ok cx" "cx_copy_required cx = 2" "cx_responder cx = 4"
    unfolding run_inv_def cp by (auto simp: replicate_calls_def copy_failed_def)
  obtain s2 cx2 where r1: "res_ReplicateSet 0 False (sample_addr 3) True (V_bool True) V_nil s1 = (None, s2, [])"
    "s_ctxs s2 0 = Some cx2" "cx_ok cx2"
    using res_ReplicateSet_step [OF cx(1,2), of False "sample_addr 3" True "V_bool True" V_nil] cx(3)
    by (metis (no_types, lifting) add_diff_cancel_right' one_add_one zero_neq_one)
  obtain s3 acts3 where r2: "res_ReplicateSet 0 False (sample_addr 2) True (V_bool True) V_nil s2 = (None, s3, acts3)" "copies 0 acts3 = {#}"
    using res_ReplicateSet_step [OF r1(2,3), of False "sample_addr 2" True "V_bool True" V_nil] by (metis copies_simps(1,2))
  have run1: "set_run 0 s1 ?acts1 ([] @ [(False, sample_addr 3, True, V_bool True, V_nil)]) s2
      (copies 0 ?acts1 - {#(False, sample_addr 3)#} + copies 0 []) (?acts1 @ [])"
    by (rule run_reply [OF run_start _ r1(1)]) simp
  have "set_run 0 s1 ?acts1 (([] @ [(False, sample_addr 3, True, V_bool True, V_nil)]) @ [(False, sample_addr 2, True, V_bool True, V_nil)]) s3
      (copies 0 ?acts1 - {#(False, sample_addr 3)#} + copies 0 [] - {#(False, sample_addr 2)#} + copies 0 acts3) ((?acts1 @ []) @ acts3)"
    by (rule run_reply [OF run1 _ r2(1)]) (simp add: cp)
  then have run: "set_run 0 s1 ?acts1 [(False, sample_addr 3, True, V_bool True, V_nil), (False, sample_addr 2, True, V_bool True, V_nil)] s3 {#} (?acts1 @ acts3)"
    by (simp add: cp r2(2))
  from set_answered_after_all_copies [OF sample_rings(1,2) out, unfolded sample_rings(3), OF run]
  have "Respond 4 V_nil \<notin> set (?acts1 @ acts3)" "length (filter (\<lambda>a. a = Respond 4 ?stamp) (?acts1 @ acts3)) =
      (if {#} = {#} \<and> Respond 4 V_nil \<notin> set (?acts1 @ acts3) then 1 else 0)"
    by auto
  with out run show ?thesis by (metis (no_types, lifting))
qed

end
