(* ===== verification/ServerReplaceTheorems.thy ===== *)
theory ServerReplaceTheorems
  imports ServerReplace ServerStoreTheorems
begin

text \<open>
  The properties of a replacement on the servers: who copies which record to whom, what the
  deletion keeps, and when the manager is told that the copying is done.
\<close>

section \<open>Offers as maps\<close>

definition off_ok :: "offer_storage \<Rightarrow> bool" where
  "off_ok off \<longleftrightarrow> sorted (map acc_addr (off_set off)) \<and> distinct (map acc_addr (off_set off))"

text \<open>The records an offer holds for a server.\<close>

definition items_for :: "accumulator list \<Rightarrow> address \<Rightarrow> (bytes \<times> bytes) list" where
  "items_for accs a = concat (map acc_items (filter (\<lambda>x. acc_addr x = a) accs))"

lemma accum_set_find_iff:
  assumes "sorted (map acc_addr accs)"
  shows "case accum_set_find accs a of
      None \<Rightarrow> a \<notin> acc_addr ` set accs
    | Some i \<Rightarrow> i < length accs \<and> acc_addr (accs ! i) = a"
proof -
  note lb = lower_bound_partition [OF partitioned_sorted [OF assms, of a]]
  let ?i = "lower_bound (\<lambda>x. acc_addr x < a) accs"
  have "a \<notin> acc_addr ` set accs" if none: "\<not> (?i < length accs \<and> acc_addr (accs ! ?i) = a)"
  proof
    assume "a \<in> acc_addr ` set accs"
    then obtain j where j: "j < length accs" "acc_addr (accs ! j) = a" by (auto simp: in_set_conv_nth)
    have le: "?i \<le> j" using lb(2) [of j] j by (meson less_irrefl not_le)
    then have "acc_addr (accs ! ?i) \<le> a"
      using sorted_nth_mono [OF assms, of ?i j] j by simp
    moreover have "\<not> acc_addr (accs ! ?i) < a" using lb(3) [of ?i] le j(1) by simp
    ultimately show False using none le j(1) by auto
  qed
  with lb(1) show ?thesis by (auto simp: accum_set_find_def Let_def split: option.splits)
qed

lemma items_for_update:
  assumes "distinct (map acc_addr accs)" and "i < length accs"
  shows "items_for (accs[i := accum_add k v (accs ! i)]) b =
    items_for accs b @ (if b = acc_addr (accs ! i) then [(k, v)] else [])"
  using assms
proof (induction accs arbitrary: i)
  case (Cons x xs)
  have no: "filter (\<lambda>y. acc_addr y = acc_addr x) xs = []"
    using Cons.prems(1) by (auto simp: filter_empty_conv) (metis image_eqI)
  show ?case
  proof (cases i)
    case 0
    with no show ?thesis by (auto simp: items_for_def accum_add_def)
  next
    case (Suc j)
    with Cons have IH: "items_for (xs[j := accum_add k v (xs ! j)]) b =
        items_for xs b @ (if b = acc_addr (xs ! j) then [(k, v)] else [])" by simp
    have "acc_addr (xs ! j) \<noteq> acc_addr x" using Cons.prems Suc by (metis distinct.simps(2) length_map length_Cons list.map(2) nth_map nth_mem Suc_less_eq)
    with IH Suc show ?thesis by (auto simp: items_for_def)
  qed
qed simp

lemma items_for_sort: "distinct (map acc_addr accs) \<Longrightarrow> items_for (sort_key acc_addr accs) b = items_for accs b"
  by (simp add: items_for_def filter_sort sort_key_stable [of acc_addr b accs, unfolded filter_sort])

lemma offer_add_items:
  assumes "off_ok off"
  shows "off_ok (offer_add a k v off) \<and>
    items_for (off_set (offer_add a k v off)) b = items_for (off_set off) b @ (if b = a then [(k, v)] else [])"
proof (cases "accum_set_find (off_set off) a")
  case (Some i)
  with assms accum_set_find_iff [of "off_set off" a]
  have i: "i < length (off_set off)" "acc_addr (off_set off ! i) = a" by (auto simp: off_ok_def)
  have "map acc_addr ((off_set off)[i := accum_add k v (off_set off ! i)]) = map acc_addr (off_set off)"
    using i by (simp add: map_update accum_add_def list_update_same_conv)
  with Some i assms items_for_update [of "off_set off" i k v b] show ?thesis
    by (auto simp: offer_add_def off_ok_def)
next
  case None
  with assms accum_set_find_iff [of "off_set off" a]
  have a: "a \<notin> acc_addr ` set (off_set off)" by (auto simp: off_ok_def)
  let ?new = "\<lparr>acc_addr = a, acc_replace_time = off_replace_time off, acc_items = [(k, v)], acc_flushed = False\<rparr>"
  have "distinct (map acc_addr (off_set off @ [?new]))" using a assms by (auto simp: off_ok_def)
  moreover have "distinct (map acc_addr (sort_key acc_addr (off_set off @ [?new])))"
    using calculation by (metis distinct_map distinct_sort set_sort)
  moreover have "items_for (off_set off @ [?new]) b = items_for (off_set off) b @ (if b = a then [(k, v)] else [])"
    by (simp add: items_for_def)
  ultimately show ?thesis
    using None by (simp add: offer_add_def off_ok_def Let_def accum_add_def items_for_sort)
qed

lemma offer_add_all_items:
  assumes "off_ok off" and "distinct addrs"
  shows "off_ok (fst (offer_add_all zsize addrs k v off)) \<and>
    items_for (off_set (fst (offer_add_all zsize addrs k v off))) b =
      items_for (off_set off) b @ (if b \<in> set addrs then [(k, v)] else [])"
proof -
  have "off_ok (fst (fold (\<lambda>a (o', total). let o'' = offer_add a k v o' in (o'', total + offer_stream_size zsize a o'')) addrs (off, t))) \<and>
     items_for (off_set (fst (fold (\<lambda>a (o', total). let o'' = offer_add a k v o' in (o'', total + offer_stream_size zsize a o'')) addrs (off, t)))) b =
      items_for (off_set off) b @ (if b \<in> set addrs then [(k, v)] else [])" for t
    using assms
  proof (induction addrs arbitrary: off t)
    case (Cons a as)
    with offer_add_items [OF Cons.prems(1), of a k v b] show ?case by (auto simp: Let_def)
  qed simp
  then show ?thesis by (simp add: offer_add_all_def)
qed

section \<open>Who copies what\<close>

lemma get_active_nodes_eq: "get_active_nodes hs r = r @ map m_addr (filter m_active (m_nodes hs))"
proof -
  have "fold (\<lambda>n r. if m_active n then r @ [m_addr n] else r) ns r = r @ map m_addr (filter m_active ns)" for ns r
    by (induction ns arbitrary: r) auto
  then show ?thesis by (simp add: get_active_nodes_def)
qed

lemma set_active_nodes: "set (get_active_nodes hs []) = {m_addr n | n. n \<in> set (m_nodes hs) \<and> m_active n}"
  by (auto simp: get_active_nodes_eq)

lemma binary_search_fault_nodes:
  "binary_search a (replace_fault_nodes srchs dsths) \<longleftrightarrow>
   a \<in> set (get_active_nodes srchs []) \<and> a \<notin> set (get_active_nodes dsths [])"
proof -
  have "sorted (replace_fault_nodes srchs dsths)"
    by (simp add: replace_fault_nodes_def Let_def sorted_filter [where f = "\<lambda>x. x", simplified])
  then show ?thesis
    by (auto simp: binary_search_sorted replace_fault_nodes_def Let_def)
qed

lemma active_assigned_ok:
  "ring_ok hs \<Longrightarrow> active_assigned hs h = Inr (map m_addr (filter m_active (nodes_for hs h)))"
  by (simp add: active_assigned_def each_assign_ok)

text \<open>The active servers a ring assigns a hash to, in order; and the one of them that copies.\<close>

abbreviation owners_of :: "hashspace \<Rightarrow> u64 \<Rightarrow> address list" where
  "owners_of hs h \<equiv> map m_addr (filter m_active (nodes_for hs h))"

definition copy_sender :: "hashspace \<Rightarrow> hashspace \<Rightarrow> u64 \<Rightarrow> address option" where
  "copy_sender srchs dsths h = find (\<lambda>a. a \<in> set (get_active_nodes dsths [])) (owners_of srchs h)"

lemma hd_filter_find: "filter P xs \<noteq> [] \<and> hd (filter P xs) = x \<longleftrightarrow> find P xs = Some x"
  by (induction xs) auto

lemma set_nodes_for: "hs_synced p hs \<Longrightarrow> set (nodes_for hs h) \<subseteq> set (m_nodes hs)"
  unfolding hs_synced_def using set_assigned by metis

lemma copy_owners_sender:
  assumes "hs_synced p srchs"
  shows "copy_owners (replace_fault_nodes srchs dsths) (owners_of srchs h) = [] \<or>
   hd (copy_owners (replace_fault_nodes srchs dsths) (owners_of srchs h)) \<noteq> self \<longleftrightarrow>
   copy_sender srchs dsths h \<noteq> Some self"
proof -
  have "a \<in> set (get_active_nodes srchs [])" if "a \<in> set (owners_of srchs h)" for a
    using that set_nodes_for [OF assms, of h] by (auto simp: set_active_nodes)
  then have "copy_owners (replace_fault_nodes srchs dsths) (owners_of srchs h) =
      filter (\<lambda>a. a \<in> set (get_active_nodes dsths [])) (owners_of srchs h)"
    unfolding copy_owners_def binary_search_fault_nodes by (intro filter_cong) auto
  then show ?thesis
    unfolding copy_sender_def
    using hd_filter_find [of "\<lambda>a. a \<in> set (get_active_nodes dsths [])" "owners_of srchs h" self] by metis
qed

lemma distinct_owners:
  assumes "hs_synced p hs" and "distinct (map m_addr (m_nodes hs))"
  shows "distinct (owners_of hs h)"
proof -
  have "inj_on m_addr (set (nodes_for hs h))"
    using assms(2) set_nodes_for [OF assms(1), of h] by (auto simp: distinct_map intro: inj_on_subset)
  then have "distinct (map m_addr (nodes_for hs h))" using distinct_nodes_for by (simp add: distinct_map)
  then show ?thesis by (metis distinct_map_filter)
qed

text \<open>Whether a server has to copy a record to another one.\<close>

definition must_copy :: "platform \<Rightarrow> address \<Rightarrow> hashspace \<Rightarrow> hashspace \<Rightarrow> address \<Rightarrow> bytes \<Rightarrow> bool" where
  "must_copy p self srchs dsths b k \<longleftrightarrow>
     copy_sender srchs dsths (hash_of p k) = Some self \<and> b \<in> set (owners_of dsths (hash_of p k)) \<and>
     b \<notin> set (owners_of srchs (hash_of p k))"

text \<open>The records in a sequence of offers for one server, and the servers that are sent an offer.\<close>

definition offered :: "offer_storage list \<Rightarrow> address \<Rightarrow> (bytes \<times> bytes) list" where
  "offered offers b = concat (map (\<lambda>o'. items_for (off_set o') b) offers)"

definition offer_calls :: "server_action list \<Rightarrow> address set" where
  "offer_calls acts = {a. \<exists>r cb t. Call a (To_server (S_ReplaceOffer r)) cb t \<in> set acts}"

definition off_full :: "offer_storage \<Rightarrow> bool" where
  "off_full off \<longleftrightarrow> off_ok off \<and> (\<forall>a \<in> set (off_set off). acc_items a \<noteq> [])"

lemma offer_calls_simps [simp]:
  "offer_calls [] = {}"
  "offer_calls (xs @ ys) = offer_calls xs \<union> offer_calls ys"
  unfolding offer_calls_def by (simp, simp only: set_append Un_iff, blast)

lemma offered_simps [simp]:
  "offered [] b = []"
  "offered (xs @ ys) b = offered xs b @ offered ys b"
  "offered (o' # os) b = items_for (off_set o') b @ offered os b"
  by (simp_all add: offered_def)

lemma items_for_nonempty: "off_full off \<Longrightarrow> items_for (off_set off) b \<noteq> [] \<longleftrightarrow> b \<in> acc_addr ` set (off_set off)"
  by (auto simp: off_full_def items_for_def)

lemma off_full_new [simp]: "off_full (offer_new ct)" "items_for (off_set (offer_new ct)) b = []"
  by (simp_all add: off_full_def off_ok_def offer_new_def items_for_def)

lemma offer_add_full: "off_full off \<Longrightarrow> off_full (offer_add a k v off)"
  using offer_add_items [of off a k v]
  by (auto simp: off_full_def offer_add_def accum_add_def Let_def dest: set_update_subset_insert [THEN subsetD] split: option.splits)

lemma offer_add_all_full: "off_full off \<Longrightarrow> off_full (fst (offer_add_all zsize addrs k v off))"
proof -
  have "off_full off \<Longrightarrow>
      off_full (fst (fold (\<lambda>a (o', total). let o'' = offer_add a k v o' in (o'', total + offer_stream_size zsize a o'')) addrs (off, t)))" for t
    by (induction addrs arbitrary: off t) (simp_all add: offer_add_full Let_def)
  then show "off_full off \<Longrightarrow> ?thesis" by (simp add: offer_add_all_def)
qed

lemma send_offer_calls:
  assumes "send_offer off rt s = (s', acts)"
  shows "offer_calls acts = acc_addr ` set (off_set off)" and "s_accum_set s' = map accum_flush (off_set off)"
proof -
  have "s_accum_set (fold (\<lambda>a s. replace_offer_push rt s) xs s) = s_accum_set s" for xs :: "accumulator list" and s :: "'a server"
    by (induction xs arbitrary: s) (simp_all add: replace_offer_push_def)
  then show "s_accum_set s' = map accum_flush (off_set off)" using assms by (auto simp: send_offer_def Let_def)
  show "offer_calls acts = acc_addr ` set (off_set off)"
    using assms by (auto simp: send_offer_def Let_def offer_calls_def accum_flush_def) blast
qed

section \<open>What a copy sends\<close>

text \<open>
  The state of a copy after some records: the offers sent when they had reached the limit of
  the memory, followed by the one that is being filled, hold exactly the records to copy.
\<close>

definition copy_state ::
    "platform \<Rightarrow> hashspace \<Rightarrow> hashspace \<Rightarrow> 'd server \<Rightarrow> (bytes \<rightharpoonup> bytes) \<Rightarrow> bytes list \<Rightarrow> 'd copy_user \<Rightarrow> bool" where
  "copy_state p srchs dsths s m vis u \<longleftrightarrow> cu_err u = None \<and> off_full (cu_offer u) \<and>
     (\<exists>sent. (\<forall>b. offered (sent @ [cu_offer u]) b =
          map (\<lambda>k. (k, the (m k))) (filter (\<lambda>k. 10 \<le> length (the (m k)) \<and> must_copy p (s_addr s) srchs dsths b k) vis)) \<and>
        offer_calls (cu_acts u) = {b. offered sent b \<noteq> []} \<and>
        (s_replace_set_limit_mem s = 0 \<longrightarrow> sent = [] \<and> cu_server u = s))"

lemma flush_keeps_copy_state:
  assumes full: "off_full off" and w: "\<forall>s. wait s \<noteq> None" and err: "cu_err u = None"
    and items: "\<forall>b. offered (sent @ [off]) b = F b"
    and calls: "offer_calls (cu_acts u) = {b. offered sent b \<noteq> []}"
    and lim: "s_replace_set_limit_mem s = 0 \<longrightarrow> sent = [] \<and> cu_server u = s"
  shows "\<exists>u' sent'. flush_over_limit wait rt t (u\<lparr>cu_offer := off\<rparr>) = Some u' \<and> cu_err u' = None \<and> off_full (cu_offer u') \<and>
    (\<forall>b. offered (sent' @ [cu_offer u']) b = F b) \<and> offer_calls (cu_acts u') = {b. offered sent' b \<noteq> []} \<and>
    (s_replace_set_limit_mem s = 0 \<longrightarrow> sent' = [] \<and> cu_server u' = s)"
proof (cases "0 < (ucast (s_replace_set_limit_mem (cu_server u)) :: u64) \<and>
    ucast (s_replace_set_limit_mem (cu_server u)) * 1024 * 1024 \<le> t")
  case False
  then have "flush_over_limit wait rt t (u\<lparr>cu_offer := off\<rparr>) = Some (u\<lparr>cu_offer := off\<rparr>)"
    by (auto simp: flush_over_limit_def Let_def)
  with assms show ?thesis by (intro exI [of _ "u\<lparr>cu_offer := off\<rparr>"] exI [of _ sent]) simp
next
  case True
  then have nz: "s_replace_set_limit_mem s \<noteq> 0" using lim by auto
  obtain s1 acts where so: "send_offer off rt (cu_server u) = (s1, acts)" by fastforce
  obtain s2 where s2: "wait s1 = Some s2" using w by fastforce
  let ?u = "u\<lparr>cu_offer := offer_new rt, cu_server := s2, cu_acts := cu_acts u @ acts\<rparr>"
  have "flush_over_limit wait rt t (u\<lparr>cu_offer := off\<rparr>) = Some ?u"
    using True so s2 by (simp add: flush_over_limit_def Let_def)
  moreover have "offer_calls (cu_acts ?u) = {b. offered (sent @ [off]) b \<noteq> []}"
    using calls send_offer_calls(1) [OF so] items_for_nonempty [OF full] by auto
  moreover have "\<forall>b. offered ((sent @ [off]) @ [cu_offer ?u]) b = F b" using items by simp
  ultimately show ?thesis
    using err nz by (intro exI [of _ ?u] exI [of _ "sent @ [off]"]) (simp del: offered_simps)
qed

lemma copy_callback_state:
  assumes src: "hs_synced p srchs" "m_nodes srchs \<noteq> []" and dst: "hs_synced p dsths" "m_nodes dsths \<noteq> []"
    and dist: "distinct (map m_addr (m_nodes dsths))" and len: "8 \<le> length k" "10 \<le> length v" and v: "m k = Some v"
    and w: "\<forall>s. wait s \<noteq> None" and st: "copy_state p srchs dsths s m vis u"
  shows "\<exists>u'. for_each_replace_copy p zsize wait (s_addr s) srchs dsths (replace_fault_nodes srchs dsths) rt k v (u, d) = (True, u', d) \<and>
    copy_state p srchs dsths s m (vis @ [k]) u'"
proof -
  let ?h = "hash_of p k"
  let ?new = "copy_newbies (owners_of srchs ?h) (owners_of dsths ?h)"
  let ?off = "fst (offer_add_all zsize ?new k v (cu_offer u))"
  let ?F = "\<lambda>vis b. map (\<lambda>k. (k, the (m k))) (filter (\<lambda>k. 10 \<le> length (the (m k)) \<and> must_copy p (s_addr s) srchs dsths b k) vis)"
  from st obtain sent where err: "cu_err u = None" and full: "off_full (cu_offer u)"
    and items: "\<forall>b. offered (sent @ [cu_offer u]) b = ?F vis b"
    and calls: "offer_calls (cu_acts u) = {b. offered sent b \<noteq> []}"
    and lim: "s_replace_set_limit_mem s = 0 \<longrightarrow> sent = [] \<and> cu_server u = s"
    unfolding copy_state_def by blast
  have rings: "ring_ok srchs" "ring_ok dsths" using src dst by (auto intro: ring_ok_synced)
  have dn: "distinct ?new" using distinct_owners [OF dst(1) dist] by (simp add: copy_newbies_def)
  have new: "b \<in> set ?new \<longleftrightarrow> b \<in> set (owners_of dsths ?h) \<and> b \<notin> set (owners_of srchs ?h)" for b
    unfolding copy_newbies_def by (simp only: set_filter) blast
  have F: "?F (vis @ [k]) b = ?F vis b @ (if must_copy p (s_addr s) srchs dsths b k then [(k, v)] else [])" for b
    using v len(2) by simp
  show ?thesis
  proof (cases "copy_sender srchs dsths ?h = Some (s_addr s) \<and> ?new \<noteq> []")
    case True
    have "\<forall>b. offered (sent @ [?off]) b = ?F (vis @ [k]) b"
    proof
      fix b
      have "items_for (off_set ?off) b = items_for (off_set (cu_offer u)) b @ (if must_copy p (s_addr s) srchs dsths b k then [(k, v)] else [])"
        using offer_add_all_items [OF _ dn, of "cu_offer u" zsize k v b] full True by (simp add: off_full_def must_copy_def new del: set_map)
      then show "offered (sent @ [?off]) b = ?F (vis @ [k]) b" using items unfolding F by simp
    qed
    from flush_keeps_copy_state [OF offer_add_all_full [OF full] w err this calls lim]
    obtain u' where u': "flush_over_limit wait rt (snd (offer_add_all zsize ?new k v (cu_offer u))) (u\<lparr>cu_offer := ?off\<rparr>) = Some u'"
      and st': "copy_state p srchs dsths s m (vis @ [k]) u'"
      unfolding copy_state_def by blast
    have "for_each_replace_copy p zsize wait (s_addr s) srchs dsths (replace_fault_nodes srchs dsths) rt k v (u, d) = (True, u', d)"
      using len(1) True u' by (simp add: for_each_replace_copy_def active_assigned_ok rings copy_owners_sender [OF src(1)] case_prod_beta Let_def)
    with st' show ?thesis by blast
  next
    case False
    then have "for_each_replace_copy p zsize wait (s_addr s) srchs dsths (replace_fault_nodes srchs dsths) rt k v (u, d) = (True, u, d)"
      using len(1) by (auto simp: for_each_replace_copy_def active_assigned_ok rings copy_owners_sender [OF src(1)] Let_def)
    moreover have "\<not> must_copy p (s_addr s) srchs dsths b k" for b
      using False new [of b] by (auto simp: must_copy_def simp del: set_map)
    ultimately show ?thesis using st unfolding copy_state_def F by simp
  qed
qed

text \<open>The iteration of \<open>replace_copy\<close> over the database, with the state of the copy as its invariant.\<close>

lemma for_each_copies:
  assumes "kumo_storage op recs pending"
    and rings: "hs_synced p srchs" "m_nodes srchs \<noteq> []" "hs_synced p dsths" "m_nodes dsths \<noteq> []" "distinct (map m_addr (m_nodes dsths))"
    and keys: "\<forall>k v. recs (m_data db) k = Some v \<longrightarrow> 10 \<le> length v \<longrightarrow> 8 \<le> length k" and w: "\<forall>s. wait s \<noteq> None"
    and st: "copy_state p srchs dsths s (recs (m_data db)) [] u"
  shows "\<exists>err u' db'. storage_for_each p op
      (for_each_replace_copy p zsize wait (s_addr s) srchs dsths (replace_fault_nodes srchs dsths) rt) ct (u, db) = Some (err, u', db') \<and>
    err = (if fst (op_iter_init op (m_data db)) then None else Some (Storage_error ''error while iterating database'')) \<and> cu_err u' = None \<and>
    (err = None \<longrightarrow> (\<exists>ks. distinct ks \<and> set ks = dom (recs (m_data db)) \<and> copy_state p srchs dsths s (recs (m_data db)) ks u'))"
proof -
  let ?m = "recs (m_data db)" and ?limit = "before_sec ct (m_garbage_max_time db)"
  let ?I = "\<lambda>vis u m. copy_state p srchs dsths s ?m vis u \<and> (\<forall>k. k \<notin> set vis \<longrightarrow> m k = ?m k)"
  let ?cb = "for_each_replace_copy p zsize wait (s_addr s) srchs dsths (replace_fault_nodes srchs dsths) rt"
  have step: "pending d' = pending d \<and> (\<forall>k' \<in> set (pending d). recs d' k' = recs d k') \<and>
      (if ret < 0 then False else ?I (vis @ [k]) u' (recs d'))"
    if I: "?I vis u (recs d)" and v: "recs d k = Some v" and k: "k \<notin> set (pending d)" "k \<notin> set vis"
      and f: "for_each_collect p op ?limit ?cb k v (u, d) = (ret, u', d')" for vis k v u d ret u' d'
  proof -
    have mk: "?m k = Some v" using I v k by metis
    obtain r1 d1 where del: "op_iterator_del op d k (storage_updateproc p ?limit) = (r1, d1)" by fastforce
    show ?thesis
    proof (cases "length v < 10")
      case True
      have "copy_state p srchs dsths s ?m (vis @ [k]) u"
        using I True mk unfolding copy_state_def by simp
      with I v k f True del kumo_storage.iterator_del_law [OF assms(1) del k(1)] show ?thesis
        by (auto simp: for_each_collect_def split: if_splits)
    next
      case False
      with copy_callback_state [OF rings, where k = k and v = v and m = ?m and wait = wait and s = s and vis = vis and u = u
          and zsize = zsize and rt = rt and d = d] keys mk w I
      obtain u1 where "?cb k v (u, d) = (True, u1, d)" "copy_state p srchs dsths s ?m (vis @ [k]) u1" by force
      with f False I show ?thesis by (auto simp: for_each_collect_def)
    qed
  qed
  obtain ok d1 where init: "op_iter_init op (m_data db) = (ok, d1)" by fastforce
  show ?thesis
  proof (cases ok)
    case False
    with init st show ?thesis by (simp add: storage_for_each_def kumo_for_each_def copy_state_def)
  next
    case True
    with kumo_storage.iter_init_law [OF assms(1) init]
    have d1: "distinct (pending d1)" "set (pending d1) = dom ?m" "recs d1 = ?m" by simp_all
    have "\<exists>ret u' d'. for_each_loop op (for_each_collect p op ?limit ?cb) (u, d1) = Some (ret, u', d') \<and>
      (if ret < 0 then False else ?I ([] @ pending d1) u' (recs d'))"
      by (rule kumo_storage.for_each_loop_rule [OF assms(1), where I = ?I and E = "\<lambda>_ _. False"], rule step)
        (use st d1 in auto)
    then obtain ret u' d' where fe: "for_each_loop op (for_each_collect p op ?limit ?cb) (u, d1) = Some (ret, u', d')" "\<not> ret < 0"
      and cs: "copy_state p srchs dsths s ?m (pending d1) u'"
      by (auto split: if_splits)
    have "storage_for_each p op ?cb ct (u, db) = Some (None, u', db\<lparr>m_data := d'\<rparr>)"
      using fe True init by (simp add: storage_for_each_def kumo_for_each_def)
    with True init cs d1 show ?thesis by (auto simp: copy_state_def)
  qed
qed

lemma replace_end_frame:
  assumes "replace_end rt (err, s, acts) = (err', s', acts')"
  shows "err' = err" and "s_accum_set s' = s_accum_set s" and "offer_calls acts' = offer_calls acts"
proof -
  have "offer_calls [Call a (To_manager req) cb t] = {}" for a req cb t by (simp add: offer_calls_def)
  with assms show "err' = err" "s_accum_set s' = s_accum_set s" "offer_calls acts' = offer_calls acts"
    by (auto simp: replace_end_def replace_offer_pop_def finish_replace_copy_def case_prod_beta Let_def
        split: option.splits if_splits)
qed


text \<open>A second server joins, and the first one has a record of a key that is now the second one's too.\<close>

definition lone_ring :: hashspace where
  "lone_ring = add_server sample_platform (ClockTime 0) (sample_addr 1) (hashspace_new (ClockTime 0))"

definition one_record_server :: "mem_db server" where
  "one_record_server = sample_server\<lparr>s_rhs := lone_ring,
     s_db := sample_store\<lparr>m_data := \<lparr>mem_recs = [(replicate 8 0, sample_val 5 7)], mem_todo = []\<rparr>\<rparr>\<rparr>"

lemma one_record [simp]: "mem_map (m_data (s_db one_record_server)) k = (if k = replicate 8 0 then Some (sample_val 5 7) else None)"
  by (simp add: one_record_server_def mem_map_def)

lemma lone_ring_facts: "hs_synced sample_platform lone_ring" "m_nodes lone_ring = [\<lparr>m_addr = sample_addr 1, m_active = True\<rparr>]"
  by (simp_all add: lone_ring_def wf_intros) (simp add: add_server_def Let_def hashspace_new_def)

lemma owners_of_all:
  assumes "hs_synced p hs" and "card (set (m_nodes hs)) \<le> 3"
  shows "set (owners_of hs h) = set (get_active_nodes hs [])"
proof -
  have sub: "set (nodes_for hs h) \<subseteq> set (m_nodes hs)" by (rule set_nodes_for [OF assms(1)])
  have "card (set (nodes_for hs h)) = card (set (m_nodes hs))"
    unfolding distinct_card [OF distinct_nodes_for] using assms length_assigned [of p "m_nodes hs" h] by (simp add: hs_synced_def)
  then have "set (nodes_for hs h) = set (m_nodes hs)" using sub by (intro card_subset_eq) auto
  then show ?thesis by (auto simp: set_active_nodes)
qed

lemma sample_active:
  "set (get_active_nodes sample_ring []) = {sample_addr 1, sample_addr 2}" "set (get_active_nodes lone_ring []) = {sample_addr 1}"
  by (simp_all add: get_active_nodes_eq sample_ring_nodes lone_ring_facts(2))

lemma sample_owners: "set (owners_of sample_ring h) = {sample_addr 1, sample_addr 2}"
  using owners_of_all [OF sample_ring_synced, of h] sample_active(1) by (simp add: sample_ring_nodes card_insert_if)


section \<open>When the copying is done\<close>

primrec pops :: "clocktime \<Rightarrow> nat \<Rightarrow> 'd server \<Rightarrow> 'd server \<times> server_action list" where
  "pops ct 0 s = (s, [])"
| "pops ct (Suc n) s = (let (s1, a1) = replace_offer_pop ct s; (s2, a2) = pops ct n s1 in (s2, a1 @ a2))"

lemma pops_finished:
  "m_clocktime (s_replace s) = ct \<Longrightarrow> m_push_waiting (s_replace s) < 0 \<Longrightarrow> snd (pops ct n s) = []"
  by (induction n arbitrary: s)
    (simp_all add: replace_offer_pop_def push_returned_def is_finished_def case_prod_beta Let_def)

text \<open>
  The manager is told once that the copying is done. Of the returns that follow, none
  before the last outstanding one sends \<open>ReplaceCopyEnd\<close>, the last one sends it to the
  manager that started the replacement, and later ones send nothing.
\<close>

theorem copy_end_sent_once:
  assumes "m_clocktime (s_replace s) = ct" and "m_push_waiting (s_replace s) = int n" and "0 < n"
  shows "snd (pops ct k s) =
    (if k < n then [] else [Call (m_mgr (s_replace s)) (To_manager (M_ReplaceCopyEnd ct (fst (clock_incr (s_clock s))))) Cb_ReplaceCopyEnd 10])"
  using assms
proof (induction n arbitrary: s k)
  case (Suc n)
  show ?case
  proof (cases k)
    case (Suc k')
    let ?s1 = "s\<lparr>s_replace := push_returned ct (s_replace s)\<rparr>"
    have st: "m_clocktime (s_replace ?s1) = ct" "m_push_waiting (s_replace ?s1) = int n" "m_mgr (s_replace ?s1) = m_mgr (s_replace s)"
      using Suc.prems by (simp_all add: push_returned_def)
    show ?thesis
    proof (cases "n = 0")
      case True
      have "snd (pops ct k' (fst (finish_replace_copy ct ?s1))) = []"
        using st by (intro pops_finished) (simp_all add: finish_replace_copy_def replace_invalidate_def case_prod_beta Let_def)
      with True st \<open>k = Suc k'\<close> show ?thesis
        by (simp add: replace_offer_pop_def is_finished_def case_prod_beta Let_def)
          (simp add: finish_replace_copy_def case_prod_beta Let_def push_returned_def)
    next
      case False
      with st have "replace_offer_pop ct s = (?s1, [])"
        by (simp add: replace_offer_pop_def is_finished_def Let_def)
      with Suc.IH [of ?s1 k'] st False \<open>k = Suc k'\<close> show ?thesis by (simp add: case_prod_beta Let_def)
    qed
  qed simp
qed simp

theorem copy_end_sent_once_witness:
  "snd (pops (ClockTime 3) 2 (replace_offer_push (ClockTime 3) (replace_begin (sample_addr 9) (ClockTime 3) sample_server))) =
     [Call (sample_addr 9) (To_manager (M_ReplaceCopyEnd (ClockTime 3) 7)) Cb_ReplaceCopyEnd 10]"
  using copy_end_sent_once [of "replace_offer_push (ClockTime 3) (replace_begin (sample_addr 9) (ClockTime 3) sample_server)" "ClockTime 3" 2 2]
  by (simp add: replace_offer_push_def replace_begin_def pushed_def replace_state_reset_def sample_server_def
      clock_incr_def Clock_get_incr_def)

section \<open>What the deletion keeps\<close>

lemma test_replicator_ok:
  "ring_ok hs \<Longrightarrow> test_replicator_assign hs h a = Inr (a \<in> set (owners_of hs h))"
  by (auto simp: test_replicator_assign_def each_assign_ok)

text \<open>A record that the deletion may remove: expired garbage, or a value of a key that is not this server's.\<close>

definition replace_may_delete :: "platform \<Rightarrow> hashspace \<Rightarrow> address \<Rightarrow> clocktime \<Rightarrow> bytes \<Rightarrow> bytes \<Rightarrow> bool" where
  "replace_may_delete p hs self limit k v \<longleftrightarrow>
     expired p limit v \<or> (10 \<le> length v \<and> self \<notin> set (owners_of hs (hash_of p k)))"

lemma for_each_delete_keeps:
  assumes "kumo_storage op recs pending" and "ring_ok hs"
    and keys: "\<forall>k v. recs (m_data db) k = Some v \<longrightarrow> 10 \<le> length v \<longrightarrow> 8 \<le> length k"
  shows "\<exists>err db'. storage_for_each p op (for_each_replace_delete p op hs self) ct (None, db) = Some (err, None, db') \<and>
    (\<forall>k. recs (m_data db') k = recs (m_data db) k \<or>
       (recs (m_data db') k = None \<and> (\<exists>v. recs (m_data db) k = Some v \<and>
          replace_may_delete p hs self (before_sec ct (m_garbage_max_time db)) k v)))"
proof -
  let ?m = "recs (m_data db)" and ?limit = "before_sec ct (m_garbage_max_time db)"
  let ?K = "\<lambda>vis m. \<forall>k. m k = ?m k \<or> (k \<in> vis \<and> m k = None \<and> (\<exists>v. ?m k = Some v \<and> replace_may_delete p hs self ?limit k v))"
  let ?I = "\<lambda>vis u m. u = None \<and> ?K (set vis) m"
  let ?func = "for_each_collect p op ?limit (for_each_replace_delete p op hs self)"
  have step: "pending d' = pending d \<and> (\<forall>k' \<in> set (pending d). recs d' k' = recs d k') \<and>
      (if ret < 0 then u' = None \<and> ?K UNIV (recs d') else ?I (vis @ [k]) u' (recs d'))"
    if I: "?I vis u (recs d)" and v: "recs d k = Some v" and k: "k \<notin> set (pending d)" "k \<notin> set vis"
      and f: "?func k v (u, d) = (ret, u', d')" for vis k v u d ret u' d'
  proof -
    have mk: "?m k = Some v" using I v k by (metis option.simps(3))
    obtain r1 d1 where del: "op_iterator_del op d k (storage_updateproc p ?limit) = (r1, d1)" by fastforce
    obtain r2 d2 where force: "op_iterator_del_force op d k = (r2, d2)" by fastforce
    have len: "10 \<le> length v \<Longrightarrow> \<not> length k < 8" using keys mk by fastforce
    show ?thesis
    proof (cases "length v < 10")
      case True
      with I v k f mk del kumo_storage.iterator_del_law [OF assms(1) del k(1)] show ?thesis
        by (auto simp: for_each_collect_def expired_def replace_may_delete_def split: if_splits)
    next
      case False
      with I v k f mk force len kumo_storage.iterator_del_force_law [OF assms(1) force k(1)] show ?thesis
        by (auto simp: for_each_collect_def for_each_replace_delete_def test_replicator_ok [OF assms(2)]
            replace_may_delete_def split: if_splits bool.splits)
    qed
  qed
  have "\<exists>ret u' d'. kumo_for_each op ?func (None, m_data db) = Some (ret, u', d') \<and>
    (if ret < 0 then u' = None \<and> ?K UNIV (recs d') else \<exists>ks. distinct ks \<and> set ks = dom ?m \<and> ?I ks u' (recs d'))"
    by (rule kumo_storage.for_each_rule [OF assms(1), where I = ?I and E = "\<lambda>u m. u = None \<and> ?K UNIV m"], rule step) auto
  then show ?thesis
    by (auto simp: storage_for_each_def split: if_splits)
qed

text \<open>
  C8: the deletion that ends a replacement always finishes, makes the writing ring the reading
  ring, and removes a record only if it is expired garbage or the server is not one of the
  active servers of its key; it never removes a record the server is responsible for. When
  it meets no storage error it reports to the manager.
\<close>

theorem replace_delete_keeps_own_records:
  assumes "kumo_storage op recs pending" and "hs_synced p (s_whs s)"
    and "\<forall>k v. recs (m_data (s_db s)) k = Some v \<longrightarrow> 10 \<le> length v \<longrightarrow> 8 \<le> length k"
  shows "\<exists>err s' acts. replace_delete p op mgr s = Some (err, s', acts) \<and> s_rhs s' = s_whs s \<and> s_whs s' = s_whs s \<and>
    (err = None \<longrightarrow> acts = [Call mgr (To_manager (M_ReplaceDeleteEnd (m_timestamp (s_whs s)) (fst (clock_incr (s_clock s))))) Cb_ReplaceDeleteEnd 10]) \<and>
    (\<forall>k v. recs (m_data (s_db s)) k = Some v \<longrightarrow>
       (10 \<le> length v \<and> s_addr s \<in> set (owners_of (s_whs s) (hash_of p k)) \<longrightarrow> recs (m_data (s_db s')) k = Some v) \<and>
       (recs (m_data (s_db s')) k = Some v \<or> recs (m_data (s_db s')) k = None))"
proof (cases "hs_empty (s_whs s)")
  case True
  then show ?thesis by (auto simp: replace_delete_def case_prod_beta Let_def)
next
  case False
  note ring = ring_ok_not_empty [OF assms(2) False]
  let ?ct = "clocktime_now (s_clock s)"
  obtain err db' where fe: "storage_for_each p op (for_each_replace_delete p op (s_whs s) (s_addr s)) ?ct (None, s_db s) = Some (err, None, db')"
    and keep: "\<forall>k. recs (m_data db') k = recs (m_data (s_db s)) k \<or>
       (recs (m_data db') k = None \<and> (\<exists>v. recs (m_data (s_db s)) k = Some v \<and>
          replace_may_delete p (s_whs s) (s_addr s) (before_sec ?ct (m_garbage_max_time (s_db s))) k v))"
    using for_each_delete_keeps [OF assms(1) ring assms(3)] by blast
  have eq: "replace_delete p op mgr s = Some (case err of
      Some e \<Rightarrow> (Some e, s\<lparr>s_rhs := s_whs s, s_db := db', s_deleting := False\<rparr>, [])
    | None \<Rightarrow> (None, s\<lparr>s_rhs := s_whs s, s_db := db', s_clock := snd (clock_incr (s_clock s)), s_deleting := False\<rparr>,
        [Call mgr (To_manager (M_ReplaceDeleteEnd (m_timestamp (s_whs s)) (fst (clock_incr (s_clock s))))) Cb_ReplaceDeleteEnd 10]))"
    using False fe by (simp add: replace_delete_def case_prod_beta Let_def split: option.splits)
  have rec: "(10 \<le> length v \<and> s_addr s \<in> set (owners_of (s_whs s) (hash_of p k)) \<longrightarrow> recs (m_data db') k = Some v) \<and>
       (recs (m_data db') k = Some v \<or> recs (m_data db') k = None)"
    if "recs (m_data (s_db s)) k = Some v" for k v
    using keep [rule_format, of k] that by (auto simp: replace_may_delete_def expired_def)
  show ?thesis
    by (cases err) (use eq rec in auto)
qed

theorem replace_delete_keeps_own_records_witness:
  "\<exists>err s' acts. replace_delete sample_platform (kumo_tchdb_op mem_api) (sample_addr 9)
      (one_record_server\<lparr>s_whs := sample_ring\<rparr>) = Some (err, s', acts) \<and> s_rhs s' = sample_ring \<and>
      mem_map (m_data (s_db s')) (replicate 8 0) = Some (sample_val 5 7)"
proof -
  let ?s = "one_record_server\<lparr>s_whs := sample_ring\<rparr>"
  have ok: "hs_synced sample_platform (s_whs ?s)" by (simp add: sample_ring_synced)
  have keys: "\<forall>k v. mem_map (m_data (s_db ?s)) k = Some v \<longrightarrow> 10 \<le> length v \<longrightarrow> 8 \<le> length k" by simp
  have s: "s_addr ?s = sample_addr 1" "s_whs ?s = sample_ring" by (simp_all add: one_record_server_def sample_server_def)
  from replace_delete_keeps_own_records [OF mem_storage ok keys, of "sample_addr 9", unfolded s sample_owners]
  obtain err s' acts where out: "replace_delete sample_platform (kumo_tchdb_op mem_api) (sample_addr 9) ?s = Some (err, s', acts)"
      "s_rhs s' = sample_ring"
    and keep: "\<forall>k v. mem_map (m_data (s_db ?s)) k = Some v \<longrightarrow>
       (10 \<le> length v \<and> sample_addr 1 \<in> {sample_addr 1, sample_addr 2} \<longrightarrow> mem_map (m_data (s_db s')) k = Some v)"
    by blast
  from keep [rule_format, of "replicate 8 0" "sample_val 5 7"] out show ?thesis by simp
qed

section \<open>Streams\<close>

text \<open>
  The address block that opens a stream has a fixed size and is read back as the address;
  a block with any other length of address is refused.
\<close>

lemma stream_init_roundtrip:
  assumes "address_ok a"
  shows "length (stream_init_block a) = 23 \<and> stream_init_addr (stream_init_block a) = Inr a \<and>
    (\<forall>b bs. b \<noteq> 6 \<longrightarrow> length bs = 22 \<longrightarrow> stream_init_addr (b # bs) = Inl (Runtime_error ''unknown address type''))"
proof -
  have len: "length (dump a) = 6" using assms by (simp add: dump_def dump_size_def address_ok_def)
  have blk: "stream_init_block a = 6 # dump a @ replicate 16 0"
    using len by (simp add: stream_init_block_def max_dump_size_def dump_size_def)
  have "b \<noteq> 6 \<Longrightarrow> unat b \<noteq> 6" for b :: u8
    by (simp add: word_unat_eq_iff)
  with blk len dump_inverse [OF assms] show ?thesis
    by (simp add: stream_init_addr_def max_dump_size_def)
qed

end
