(* ===== verification/ServerNetworkTheorems.thy ===== *)
theory ServerNetworkTheorems
  imports ServerNetwork ServerReplaceTheorems
begin

text \<open>
  The properties of a storage server as a whole: an invariant of all its reachable states, what a
  synchronisation of the rings achieves, and that every request it dispatches is answered.
\<close>

section \<open>The invariant\<close>

text \<open>
  Both rings are the rings of their nodes; a context exists only below the next number and
  keeps the flags of its two requests; the accumulators are sorted by distinct addresses, as the
  binary search needs.
\<close>

definition server_inv :: "platform \<Rightarrow> 'd server \<Rightarrow> bool" where
  "server_inv p s \<longleftrightarrow>
     hs_synced p (s_whs s) \<and> hs_synced p (s_rhs s) \<and>
     (\<forall>cid cx. s_ctxs s cid = Some cx \<longrightarrow> cid < s_next_ctx s \<and> cx_ok cx) \<and>
     sorted (map acc_addr (s_accum_set s)) \<and> distinct (map acc_addr (s_accum_set s))"

lemma server_inv_cong:
  "server_inv p s \<Longrightarrow> s_whs s' = s_whs s \<Longrightarrow> s_rhs s' = s_rhs s \<Longrightarrow> s_ctxs s' = s_ctxs s \<Longrightarrow>
   s_next_ctx s' = s_next_ctx s \<Longrightarrow> s_accum_set s' = s_accum_set s \<Longrightarrow> server_inv p s'"
  by (simp add: server_inv_def)

lemma server_inv_updates [simp]:
  "server_inv p (s\<lparr>s_clock := c\<rparr>) = server_inv p s"
  "server_inv p (s\<lparr>s_db := d\<rparr>) = server_inv p s"
  "server_inv p (s\<lparr>s_num_get := n\<rparr>) = server_inv p s"
  "server_inv p (s\<lparr>s_num_set := n\<rparr>) = server_inv p s"
  "server_inv p (s\<lparr>s_num_delete := n\<rparr>) = server_inv p s"
  "server_inv p (s\<lparr>s_replace := r\<rparr>) = server_inv p s"
  "server_inv p (s\<lparr>s_copying := b\<rparr>) = server_inv p s"
  "server_inv p (s\<lparr>s_deleting := b\<rparr>) = server_inv p s"
  by (simp_all add: server_inv_def)

lemma server_inv_rings [wf_intros]:
  "server_inv p s \<Longrightarrow> server_inv p (s\<lparr>s_whs := hashspace_of_seed p sd\<rparr>)"
  "server_inv p s \<Longrightarrow> server_inv p (s\<lparr>s_rhs := hashspace_of_seed p sd\<rparr>)"
  "server_inv p s \<Longrightarrow> server_inv p (s\<lparr>s_rhs := s_whs s\<rparr>)"
  by (simp_all add: server_inv_def hs_synced_intros)

lemma server_inv_new_ctx [wf_intros]: "server_inv p s \<Longrightarrow> cx_ok cx \<Longrightarrow> server_inv p (new_ctx cx s)"
  by (auto simp: server_inv_def new_ctx_def less_Suc_eq)

lemma server_inv_put_ctx [wf_intros]:
  "server_inv p s \<Longrightarrow> s_ctxs s cid = Some cx \<Longrightarrow> cx_ok cx' \<Longrightarrow> server_inv p (s\<lparr>s_ctxs := (s_ctxs s)(cid \<mapsto> cx')\<rparr>)"
  by (auto simp: server_inv_def)

lemma erase_at_sorted_distinct:
  assumes "sorted (map f xs)" and "distinct (map f xs)"
  shows "sorted (map f (erase_at i xs)) \<and> distinct (map f (erase_at i xs))"
proof (cases "i < length xs")
  case True
  then have xs: "map f xs = map f (take i xs) @ f (xs ! i) # map f (drop (Suc i) xs)"
    by (metis id_take_nth_drop list.simps(9) map_append)
  show ?thesis
    using assms unfolding xs by (auto simp: erase_at_def sorted_append)
qed (use assms in \<open>simp add: erase_at_def\<close>)

lemma server_inv_erase [wf_intros]:
  "server_inv p s \<Longrightarrow> server_inv p (s\<lparr>s_accum_set := erase_at i (s_accum_set s)\<rparr>)"
  using erase_at_sorted_distinct [of acc_addr "s_accum_set s" i] by (simp add: server_inv_def)

lemma server_inv_send_offer:
  assumes "server_inv p s" and "off_ok off"
  shows "server_inv p (fst (send_offer off ct s))"
proof -
  have push: "server_inv p s' \<Longrightarrow> server_inv p (fold (\<lambda>a s. replace_offer_push ct s) accs s')" for accs s'
    by (induction accs arbitrary: s') (simp_all add: replace_offer_push_def)
  have addrs: "map acc_addr (map accum_flush (off_set off)) = map acc_addr (off_set off)"
    by (simp add: accum_flush_def)
  have "server_inv p (s\<lparr>s_accum_set := map accum_flush (off_set off)\<rparr>)"
    using assms addrs by (simp add: server_inv_def off_ok_def del: map_map)
  from push [OF this] show ?thesis by (simp add: send_offer_def Let_def)
qed

lemma server_inv_pop [wf_intros]: "server_inv p s \<Longrightarrow> server_inv p (fst (replace_offer_pop ct s))"
  by (simp add: replace_offer_pop_def finish_replace_copy_def Let_def case_prod_beta)

text \<open>An iteration keeps what its callback keeps, when it returns.\<close>

lemma for_each_loop_keeps:
  assumes "\<And>k v u d r u' d'. I u \<Longrightarrow> func k v (u, d) = (r, u', d') \<Longrightarrow> I u'"
    and "for_each_loop op func s = Some y" and "I (fst s)"
  shows "I (fst (snd y))"
  using assms(2,1,3)
proof (induction rule: for_each_loop.raw_induct [rotated, consumes 1, case_names step])
  case (step loop op func s y)
  obtain kv d where nx: "op_iter_next op (snd s) = (kv, d)" by fastforce
  show ?case
  proof (cases kv)
    case None
    with nx step.hyps have "y = (0, fst s, d)" by simp
    with step.prems(2) show ?thesis by simp
  next
    case (Some kv')
    obtain r u' d' where f: "func (fst kv') (snd kv') (fst s, d) = (r, u', d')" by (metis prod_cases3)
    then have u: "I u'" using step.prems by blast
    show ?thesis
    proof (cases "r < 0")
      case True
      with f nx Some step.hyps have "y = (r, u', d')" by simp
      with u show ?thesis by simp
    next
      case False
      with f nx Some step.hyps have "loop op func (u', d') = Some y" by simp
      from step.IH [OF this step.prems(1)] u show ?thesis by simp
    qed
  qed
qed

lemma storage_for_each_keeps:
  assumes "\<And>k v u d r u' d'. I u \<Longrightarrow> callback k v (u, d) = (r, u', d') \<Longrightarrow> I u'"
    and "storage_for_each p op callback ct (u, db) = Some (err, u', db')" and "I u"
  shows "I u'"
proof -
  let ?func = "for_each_collect p op (before_sec ct (m_garbage_max_time db)) callback"
  have step: "I u \<Longrightarrow> ?func k v (u, d) = (r, u', d') \<Longrightarrow> I u'" for k v u d r u' d'
    using assms(1) by (fastforce simp: for_each_collect_def split: if_splits prod.splits)
  obtain ok d where init: "op_iter_init op (m_data db) = (ok, d)" by fastforce
  obtain ret d' where "kumo_for_each op ?func (u, m_data db) = Some (ret, u', d')"
    using assms(2) by (auto simp: storage_for_each_def split: bind_splits)
  then show ?thesis
    using init assms(3) for_each_loop_keeps [of I ?func op "(u, d)" "(ret, u', d')", OF step]
    by (auto simp: kumo_for_each_def split: if_splits)
qed

lemma offer_add_all_ok: "off_ok off \<Longrightarrow> off_ok (fst (offer_add_all zsize addrs k v off))"
proof -
  have "off_ok off \<Longrightarrow> off_ok (fst (fold (\<lambda>a (o', total). let o'' = offer_add a k v o' in (o'', total + offer_stream_size zsize a o'')) addrs (off, t)))" for t
    by (induction addrs arbitrary: off t) (simp_all add: Let_def offer_add_items)
  then show "off_ok off \<Longrightarrow> ?thesis" by (simp add: offer_add_all_def)
qed

definition copy_inv :: "platform \<Rightarrow> 'd copy_user \<Rightarrow> bool" where
  "copy_inv p u \<longleftrightarrow> server_inv p (cu_server u) \<and> off_ok (cu_offer u)"

definition wait_keeps :: "platform \<Rightarrow> ('d server \<Rightarrow> 'd server option) \<Rightarrow> bool" where
  "wait_keeps p wait \<longleftrightarrow> (\<forall>s s'. wait s = Some s' \<longrightarrow> server_inv p s \<longrightarrow> server_inv p s')"

lemma off_ok_new [simp]: "off_ok (offer_new ct)"
  by (simp add: off_ok_def offer_new_def)

lemma flush_over_limit_inv:
  "wait_keeps p wait \<Longrightarrow> copy_inv p u \<Longrightarrow> flush_over_limit wait ct n u = Some u' \<Longrightarrow> copy_inv p u'"
  using server_inv_send_offer [of p "cu_server u" "cu_offer u" ct]
  by (auto simp: flush_over_limit_def copy_inv_def wait_keeps_def Let_def case_prod_beta split: if_splits option.splits)

lemma copy_inv_offer: "copy_inv p u \<Longrightarrow> copy_inv p (u\<lparr>cu_offer := fst (offer_add_all zsize addrs k v (cu_offer u))\<rparr>)"
  by (simp add: copy_inv_def offer_add_all_ok)

definition copy_keeps ::
    "platform \<Rightarrow> (bytes \<Rightarrow> bytes \<Rightarrow> 'd copy_user \<times> 'd \<Rightarrow> bool \<times> 'd copy_user \<times> 'd) \<Rightarrow> bool" where
  "copy_keeps p callback \<longleftrightarrow> (\<forall>k v u d. copy_inv p u \<longrightarrow> copy_inv p (fst (snd (callback k v (u, d)))))"

lemma for_each_replace_copy_inv:
  fixes wait :: "'d server \<Rightarrow> 'd server option"
  assumes "wait_keeps p wait"
  shows "copy_keeps p (for_each_replace_copy p zsize wait self srchs dsths fn ct)"
  unfolding copy_keeps_def
proof (intro allI impI)
  fix k v d and u :: "'d copy_user"
  assume u: "copy_inv p u"
  then have "copy_inv p (u\<lparr>cu_err := e\<rparr>)" for e by (simp add: copy_inv_def)
  moreover note flush_over_limit_inv [OF assms(1) copy_inv_offer [OF u]]
  ultimately show "copy_inv p (fst (snd (for_each_replace_copy p zsize wait self srchs dsths fn ct k v (u, d))))"
    using u
    by (auto simp: for_each_replace_copy_def cu_fail_def Let_def case_prod_beta
        split: if_splits sum.splits option.splits)
qed

lemma for_each_full_replace_copy_inv:
  fixes wait :: "'d server \<Rightarrow> 'd server option"
  assumes "wait_keeps p wait"
  shows "copy_keeps p (for_each_full_replace_copy p zsize wait dsths ct)"
  unfolding copy_keeps_def
proof (intro allI impI)
  fix k v d and u :: "'d copy_user"
  assume u: "copy_inv p u"
  then have "copy_inv p (u\<lparr>cu_err := e\<rparr>)" for e by (simp add: copy_inv_def)
  moreover note flush_over_limit_inv [OF assms(1) copy_inv_offer [OF u]]
  ultimately show "copy_inv p (fst (snd (for_each_full_replace_copy p zsize wait dsths ct k v (u, d))))"
    using u
    by (auto simp: for_each_full_replace_copy_def cu_fail_def Let_def case_prod_beta
        split: if_splits sum.splits option.splits)
qed

section \<open>Every step keeps the invariant\<close>

lemma copy_all_inv:
  assumes "copy_keeps p callback"
    and "server_inv p s" and "copy_all p op callback ct s = Some (e, s', acts)"
  shows "server_inv p s'"
proof -
  let ?u = "\<lparr>cu_offer = offer_new ct, cu_server = s, cu_acts = [], cu_err = None\<rparr>"
  obtain err u db where fe: "storage_for_each p op callback (clocktime_now (s_clock s)) (?u, s_db s) = Some (err, u, db)"
    using assms(3) by (auto simp: copy_all_def split: bind_splits)
  have "copy_inv p ?u" using assms(2) by (simp add: copy_inv_def)
  moreover have "copy_inv p u \<Longrightarrow> callback k v (u, d) = (r, u', d') \<Longrightarrow> copy_inv p u'" for k v u d r u' d'
    using assms(1) by (metis copy_keeps_def fst_conv snd_conv)
  ultimately have u: "copy_inv p u" using storage_for_each_keeps [of "copy_inv p" callback, OF _ fe] by blast
  with server_inv_send_offer [of p "(cu_server u)\<lparr>s_db := db\<rparr>" "cu_offer u" ct] assms(3) fe show ?thesis
    by (auto simp: copy_all_def copy_inv_def Let_def case_prod_beta split: option.splits if_splits)
qed

lemma replace_end_inv: "server_inv p s \<Longrightarrow> server_inv p (fst (snd (replace_end ct (e, s, acts))))"
  by (simp add: replace_end_def case_prod_beta wf_intros split: option.splits)

lemma replace_begin_inv [simp]: "server_inv p (replace_begin mgr ct s) = server_inv p s"
  by (simp add: replace_begin_def replace_offer_push_def)

lemma replace_copy_inv:
  assumes "wait_keeps p wait" and "server_inv p s"
    and "replace_copy p op zsize wait mgr (hashspace_of_seed p sd) s = Some (e, s', acts)"
  shows "server_inv p s'"
proof -
  let ?hs = "hashspace_of_seed p sd"
  let ?s2 = "(replace_begin mgr (m_timestamp ?hs) s)\<lparr>s_whs := ?hs\<rparr>"
  have s2: "server_inv p ?s2" using assms(2) by (intro server_inv_rings) simp
  consider "(e, s', acts) = replace_end (m_timestamp ?hs) (None, ?s2, [])"
    | cb out where "copy_all p op cb (m_timestamp ?hs) ?s2 = Some out" "(e, s', acts) = replace_end (m_timestamp ?hs) out"
      "copy_keeps p cb"
    using assms(3) for_each_replace_copy_inv [OF assms(1)]
    by (auto simp: replace_copy_def Let_def split: if_splits)
  then show ?thesis
  proof cases
    case 1
    with replace_end_inv [OF s2] show ?thesis by (metis fst_conv snd_conv)
  next
    case 2
    obtain e1 s1 a1 where out: "out = (e1, s1, a1)" by (metis prod_cases3)
    with 2(1) have "server_inv p s1" using copy_all_inv [OF 2(3) s2] by simp
    from replace_end_inv [OF this] 2(2) out show ?thesis by (metis fst_conv snd_conv)
  qed
qed

lemma full_replace_copy_inv:
  assumes "wait_keeps p wait" and "server_inv p s"
    and "full_replace_copy p op zsize wait mgr hs s = Some (e, s', acts)"
  shows "server_inv p s'"
proof -
  obtain e1 s1 a1 where out: "(e, s', acts) = replace_end (m_timestamp hs) (e1, s1, a1)"
    and "copy_all p op (for_each_full_replace_copy p zsize wait hs (m_timestamp hs)) (m_timestamp hs)
      (replace_begin mgr (m_timestamp hs) s) = Some (e1, s1, a1)"
    using assms(3) by (auto simp: full_replace_copy_def Let_def dest: sym)
  with copy_all_inv [OF for_each_full_replace_copy_inv [OF assms(1)]] assms(2) have "server_inv p s1"
    using replace_begin_inv by blast
  from replace_end_inv [OF this] out show ?thesis by (metis fst_conv snd_conv)
qed

lemma replace_delete_inv:
  assumes "server_inv p s" and "replace_delete p op mgr s = Some (e, s', acts)"
  shows "server_inv p s'"
  using assms server_inv_rings(3) [OF assms(1)]
  by (auto simp: replace_delete_def Let_def case_prod_beta split: if_splits bind_splits option.splits)

abbreviation out_state :: "'d server_out \<Rightarrow> 'd server" where
  "out_state out \<equiv> fst (snd out)"

lemma with_catch_state [simp]: "out_state (with_catch rid out) = out_state out"
  by (simp add: with_catch_def case_prod_beta split: option.splits)

lemma set_replicate_inv:
  "server_inv p s \<Longrightarrow> server_inv p (out_state (set_replicate p' op rid oper key val ct rrepto wrepto s))"
  by (simp add: set_replicate_eq Let_def server_inv_new_ctx cx_ok_def)

lemma rpc_Set_inv: "server_inv p s \<Longrightarrow> server_inv p (out_state (rpc_Set p' op rid oper key val s))"
  by (auto simp: rpc_Set_def Let_def case_prod_beta set_replicate_inv split: sum.splits)

lemma rpc_Delete_inv: "server_inv p s \<Longrightarrow> server_inv p (out_state (rpc_Delete p' op rid fl key s))"
  by (auto simp: rpc_Delete_def Let_def case_prod_beta server_inv_new_ctx cx_ok_def split: sum.splits)

lemma replicate_reply_inv:
  assumes "server_inv p s" and "s_ctxs s cid = Some cx"
  shows "server_inv p (out_state (replicate_reply cb limit answer cid rhs frm active failed cx s))"
proof -
  have cx: "cx_ok cx" using assms by (auto simp: server_inv_def)
  have put: "server_inv p (s\<lparr>s_ctxs := (s_ctxs s)(cid \<mapsto> cx')\<rparr>)" if "cx_ok cx'" for cx'
    using assms that by (rule server_inv_put_ctx)
  have retry: "cx_ok (snd (cx_retry_incr rhs limit cx))"
    using cx cx_retry_incr_frame [of rhs limit cx] by (metis cx_ok_def prod.collapse)
  show ?thesis
    unfolding replicate_reply_def using put retry cx
    by (simp add: Let_def case_prod_beta put cx_ok_def)
qed

lemma res_Replicate_inv:
  "server_inv p s \<Longrightarrow> server_inv p (out_state (res_ReplicateSet cid rhs frm active res err s))"
  "server_inv p s \<Longrightarrow> server_inv p (out_state (res_ReplicateDelete cid rhs frm active res err s))"
  by (simp_all add: res_ReplicateSet_def res_ReplicateDelete_def replicate_reply_inv split: option.split)

lemmas read_defs = rpc_Get_def rpc_GetIfModified_def rpc_ReplicateSet_def rpc_ReplicateDelete_def
  srv_GetStatus_def srv_CreateBackup_def create_backup_def srv_SetConfig_def

lemmas ring_defs = srv_KeepAlive_def srv_HashSpaceSync_def rpc_ReplaceCopyStart_def rpc_ReplaceDeleteStart_def
  res_WHashSpaceRequest_def res_RHashSpaceRequest_def

lemma cluster_dispatch_inv: "server_inv p s \<Longrightarrow> server_inv p (out_state (cluster_dispatch p op frm rid req s))"
  unfolding cluster_dispatch_def with_catch_state
  by (cases req) (auto simp: read_defs ring_defs Let_def case_prod_beta wf_intros split: sum.splits)

lemma subsystem_dispatch_inv:
  "server_inv p s \<Longrightarrow> server_inv p (out_state (subsystem_dispatch p op env rid req s))"
  unfolding subsystem_dispatch_def with_catch_state
  by (cases req) (auto simp: read_defs Let_def case_prod_beta rpc_Set_inv rpc_Delete_inv split: sum.splits rvalue.splits option.splits)

lemma stream_accepted_inv: "server_inv p s \<Longrightarrow> server_inv p (fst (snd (stream_accepted init sent s)))"
  by (auto simp: stream_accepted_def Let_def case_prod_beta wf_intros split: sum.splits option.splits)

lemma stream_submit_inv: "server_inv p s \<Longrightarrow> server_inv p (snd (fst (snd (stream_submit p' op msg (sh, s)))))"
  by (auto simp: stream_submit_def Let_def split: option.splits sum.splits)

lemma server_step_inv:
  assumes "wait_keeps p wait"
  shows "server_step p op zsize wait s acts s' \<Longrightarrow> server_inv p s \<Longrightarrow> server_inv p s'"
proof (induction rule: server_step.induct)
  case (step_cluster frm rid req s e s' acts)
  then show ?case using cluster_dispatch_inv [of p s op frm rid req] by simp
next
  case (step_subsystem env rid req s e s' acts)
  then show ?case using subsystem_dispatch_inv [of p s op env rid req] by simp
next
  case (step_res_set cid rhs frm active res err s e s' acts)
  then show ?case using res_Replicate_inv(1) [of p s cid rhs frm active res err] by simp
next
  case (step_res_delete cid rhs frm active res err s e s' acts)
  then show ?case using res_Replicate_inv(2) [of p s cid rhs frm active res err] by simp
next
  case (step_res_whs frm active res err s e s' acts)
  then show ?case by (auto simp: ring_defs wf_intros split: if_splits rvalue.splits)
next
  case (step_res_rhs frm active res err s e s' acts)
  then show ?case by (auto simp: ring_defs wf_intros split: if_splits rvalue.splits)
next
  case (step_res_offer addr s e s' acts)
  then show ?case by (auto simp: res_ReplaceOffer_def wf_intros split: option.splits)
next
  case (step_copy mgr sd s e s' acts)
  then show ?case using replace_copy_inv [OF assms] by blast
next
  case (step_full_copy mgr sd s e s' acts)
  then show ?case using full_replace_copy_inv [OF assms] by blast
next
  case (step_delete mgr s e s' acts)
  then show ?case using replace_delete_inv by blast
next
  case (step_backup sfx rid s e s' acts)
  then show ?case by (auto simp: create_backup_def Let_def case_prod_beta split: option.splits)
next
  case (step_stream_out init sent s e s' acts items)
  then show ?case using stream_accepted_inv [of p s init sent] by simp
next
  case (step_stream_in msg sh s e sh' s' replies)
  then show ?case using stream_submit_inv [of p s p op msg sh] by simp
next
  case (step_keep_alive s s' acts)
  then show ?case by (auto simp: srv_keep_alive_def Let_def case_prod_beta)
qed simp_all

lemma server_reach_inv:
  assumes "wait_keeps p wait"
  shows "server_reach p op zsize wait s0 s \<Longrightarrow> server_inv p s0 \<Longrightarrow> server_inv p s"
  by (induction rule: server_reach.induct) (use server_step_inv [OF assms] in blast)+

section \<open>Reachable states\<close>

text \<open>How a server starts: empty rings, no write in flight, nothing to offer.\<close>

definition server_initial :: "'d server \<Rightarrow> bool" where
  "server_initial s \<longleftrightarrow>
     s_whs s = hashspace_new (ClockTime 0) \<and> s_rhs s = hashspace_new (ClockTime 0) \<and>
     s_ctxs s = Map.empty \<and> s_accum_set s = []"

lemma server_initial_inv: "server_initial s \<Longrightarrow> server_inv p s"
  by (simp add: server_initial_def server_inv_def hs_synced_intros)

text \<open>
  While a copy waits for its offers to be taken, other events of the server happen: what
  the waiting loop relies on.
\<close>

definition wait_by_steps ::
    "platform \<Rightarrow> 'd kumo_storage_op \<Rightarrow> (accumulator \<Rightarrow> u64) \<Rightarrow> ('d server \<Rightarrow> 'd server option) \<Rightarrow> bool" where
  "wait_by_steps p op zsize wait \<longleftrightarrow>
     (\<forall>s s'. wait s = Some s' \<longrightarrow> server_reach p op zsize (\<lambda>s. None) s s' \<and> s_accum_set s' = [])"

lemma wait_by_steps_keeps: "wait_by_steps p op zsize wait \<Longrightarrow> wait_keeps p wait"
  using server_reach_inv [of p "\<lambda>s. None" op zsize] by (auto simp: wait_by_steps_def wait_keeps_def)

text \<open>
  C22: whatever requests, replies, streams and timers a server handles after its start, in any
  order, its rings stay the rings computed from their node lists, the contexts of its writes
  keep their two kinds of requests apart, the accumulators stay sorted by distinct addresses;
  so a read is either answered or refused with an ordinary error, and never meets the undefined
  behaviour of a walk on a broken ring.
\<close>

theorem server_reachable_invariant:
  assumes "server_initial s0" and "wait_by_steps p op zsize wait" and "server_reach p op zsize wait s0 s"
  shows "hs_synced p (s_whs s) \<and> hs_synced p (s_rhs s) \<and>
    (\<forall>cid cx. s_ctxs s cid = Some cx \<longrightarrow> cid < s_next_ctx s \<and> is_rhs (flags (cx_rparam cx)) \<and> \<not> is_rhs (flags (cx_wparam cx))) \<and>
    sorted (map acc_addr (s_accum_set s)) \<and> distinct (map acc_addr (s_accum_set s)) \<and>
    fst (rpc_Get p op rid key s) \<noteq> Some Undefined_behaviour \<and>
    fst (rpc_ReplicateSet p op rid c fl key v s) \<noteq> Some Undefined_behaviour"
proof -
  have inv: "server_inv p s"
    using server_reach_inv [OF wait_by_steps_keeps [OF assms(2)] assms(3)] server_initial_inv [OF assms(1)] by blast
  have chk: "check_replicator_assign self hs h \<noteq> Inl Undefined_behaviour" if "hs_synced p hs" for self hs h
    using check_replicator_ok [OF ring_ok_not_empty [OF that]]
    by (cases "hs_empty hs") (simp_all add: check_replicator_assign_def [of self hs])
  have rings: "hs_synced p (s_whs s)" "hs_synced p (s_rhs s)" using inv by (simp_all add: server_inv_def)
  have "fst (rpc_Get p op rid key s) \<noteq> Some Undefined_behaviour"
    using chk [OF rings(2), of "s_addr s" "dk_hash key"] by (auto simp: rpc_Get_def split: sum.splits)
  moreover have "fst (rpc_ReplicateSet p op rid c fl key v s) \<noteq> Some Undefined_behaviour"
    using chk [OF rings(1), of "s_addr s" "dk_hash key"] chk [OF rings(2), of "s_addr s" "dk_hash key"]
    by (auto simp: rpc_ReplicateSet_def check_replica_def Let_def case_prod_beta split: sum.splits)
  ultimately show ?thesis using inv by (simp add: server_inv_def cx_ok_def)
qed

definition boot_server :: "mem_db server" where
  "boot_server = sample_server\<lparr>s_whs := hashspace_new (ClockTime 0), s_rhs := hashspace_new (ClockTime 0)\<rparr>"

definition sample_seed :: "u8 list \<Rightarrow> clocktime \<Rightarrow> seed" where
  "sample_seed is ct = \<lparr>seed_nodes = map (\<lambda>i. \<lparr>m_addr = sample_addr i, m_active = True\<rparr>) is, seed_clocktime = ct\<rparr>"

theorem server_reachable_invariant_witness:
  "hs_synced sample_platform (s_whs (out_state (cluster_dispatch sample_platform (kumo_tchdb_op mem_api) (sample_addr 9) 1
     (S_HashSpaceSync (sample_seed [1, 2] (ClockTime 9)) (sample_seed [1, 2] (ClockTime 9)) 3) boot_server)))"
proof -
  let ?op = "kumo_tchdb_op mem_api"
  let ?out = "cluster_dispatch sample_platform ?op (sample_addr 9) 1
     (S_HashSpaceSync (sample_seed [1, 2] (ClockTime 9)) (sample_seed [1, 2] (ClockTime 9)) 3) boot_server"
  let ?wait = "\<lambda>s :: mem_db server. if s_accum_set s = [] then Some s else None"
  have start: "server_initial boot_server"
    by (simp add: server_initial_def boot_server_def sample_server_def)
  have wait: "wait_by_steps sample_platform ?op (\<lambda>a. 0) ?wait"
    by (auto simp: wait_by_steps_def intro: reach_start split: if_splits)
  have "server_step sample_platform ?op (\<lambda>a. 0) ?wait boot_server (snd (snd ?out)) (out_state ?out)"
    by (rule step_cluster [of _ _ "sample_addr 9" 1 "S_HashSpaceSync (sample_seed [1, 2] (ClockTime 9)) (sample_seed [1, 2] (ClockTime 9)) 3" _ "fst ?out"]) simp
  from server_reachable_invariant [OF start wait reach_step [OF reach_start this]] show ?thesis by blast
qed

section \<open>Synchronising the rings\<close>

lemma get_accepted:
  "fst (rpc_Get p op rid key s) = None \<longleftrightarrow> check_replicator_assign (s_addr s) (s_rhs s) (dk_hash key) = Inr ()"
  by (cases "check_replicator_assign (s_addr s) (s_rhs s) (dk_hash key)") (simp_all add: rpc_Get_def)

text \<open>
  A server takes over a ring only if it is not empty and not older than its own, and
  otherwise keeps the one it has; so after the same announcement of rings that are not older
  than theirs, any two servers have the same two rings, whatever they had before, and each
  accepts a read of a key if and only if it is one of the active servers that the announced ring
  assigns the key to.
\<close>

theorem sync_makes_rings_agree:
  assumes "\<not> seed_empty ws" and "\<not> seed_empty rs"
    and "ct_le (m_timestamp (s_whs s)) (seed_clocktime ws)" and "ct_le (m_timestamp (s_rhs s)) (seed_clocktime rs)"
    and "srv_HashSpaceSync p rid ws rs c s = (e, s', acts)"
  shows "s_whs s' = hashspace_of_seed p ws \<and> s_rhs s' = hashspace_of_seed p rs \<and>
    acts = [Respond rid (V_bool True)] \<and> s_db s' = s_db s \<and>
    (fst (rpc_Get p op rid key s') = None \<longleftrightarrow>
       (\<exists>r \<in> set (assigned (ring p (seed_nodes rs)) (dk_hash key)). m_active r \<and> m_addr r = s_addr s)) \<and>
    (\<forall>ws' rs' c'. \<not> ct_le (seed_clocktime ws) (seed_clocktime ws') \<longrightarrow>
       s_whs (out_state (srv_HashSpaceSync p rid ws' rs' c' s')) = s_whs s') \<and>
    (\<forall>ws' rs' c'. \<not> ct_le (seed_clocktime rs) (seed_clocktime rs') \<longrightarrow>
       s_rhs (out_state (srv_HashSpaceSync p rid ws' rs' c' s')) = s_rhs s')"
proof -
  have s': "s' = s\<lparr>s_clock := clock_update c (s_clock s), s_whs := hashspace_of_seed p ws, s_rhs := hashspace_of_seed p rs\<rparr>"
    and acts: "acts = [Respond rid (V_bool True)]"
    using assms by (auto simp: srv_HashSpaceSync_def Let_def)
  let ?hs = "hashspace_of_seed p rs"
  have hs: "m_nodes ?hs = seed_nodes rs" "m_hashspace ?hs = ring p (seed_nodes rs)"
    by (simp_all add: hashspace_of_seed_def rehash_ring)
  have ne: "\<not> hs_empty ?hs" using assms(2) by (simp add: hs_empty_def seed_empty_def hs)
  have "check_replicator_assign self ?hs h = Inr () \<longleftrightarrow>
      (\<exists>r \<in> set (assigned (ring p (seed_nodes rs)) h). m_active r \<and> m_addr r = self)" for self h
    using ne by (simp add: check_replicator_ok [OF ring_ok_not_empty [OF hs_synced_intros(2) ne]] hs)
  then have "fst (rpc_Get p op rid key s') = None \<longleftrightarrow>
       (\<exists>r \<in> set (assigned (ring p (seed_nodes rs)) (dk_hash key)). m_active r \<and> m_addr r = s_addr s)"
    by (simp add: get_accepted s')
  moreover have "m_timestamp (hashspace_of_seed p sd) = seed_clocktime sd" for sd
    by (simp add: hashspace_of_seed_def rehash_ring)
  ultimately show ?thesis
    using acts by (simp add: s' srv_HashSpaceSync_def Let_def)
qed

theorem sync_makes_rings_agree_witness:
  "s_whs (out_state (srv_HashSpaceSync sample_platform 1 (sample_seed [1, 2] (ClockTime 9)) (sample_seed [1] (ClockTime 9)) 3 boot_server)) =
     hashspace_of_seed sample_platform (sample_seed [1, 2] (ClockTime 9))"
proof -
  let ?out = "srv_HashSpaceSync sample_platform 1 (sample_seed [1, 2] (ClockTime 9)) (sample_seed [1] (ClockTime 9)) 3 boot_server"
  have sd: "\<not> seed_empty (sample_seed [1, 2] (ClockTime 9))" "\<not> seed_empty (sample_seed [1] (ClockTime 9))"
    "seed_clocktime (sample_seed is ct) = ct" for "is" ct
    by (simp_all add: seed_empty_def sample_seed_def)
  have "ct_le (m_timestamp (s_whs boot_server)) (seed_clocktime (sample_seed [1, 2] (ClockTime 9)))"
    "ct_le (m_timestamp (s_rhs boot_server)) (seed_clocktime (sample_seed [1] (ClockTime 9)))"
    by (simp_all add: boot_server_def hashspace_new_def sd) code_simp+
  from sync_makes_rings_agree [OF sd(1,2) this, of sample_platform 1 3 "fst ?out" "out_state ?out" "snd (snd ?out)"]
  show ?thesis by simp
qed

section \<open>No request is lost\<close>

definition answers :: "responder \<Rightarrow> server_action list \<Rightarrow> nat" where
  "answers rid acts = length (filter (\<lambda>a. case a of Respond r x \<Rightarrow> r = rid | Respond_error r x \<Rightarrow> r = rid | _ \<Rightarrow> False) acts)"

lemma answers_simps [simp]:
  "answers rid [] = 0"
  "answers rid (Respond r x # acts) = (if r = rid then 1 else 0) + answers rid acts"
  "answers rid (Respond_error r x # acts) = (if r = rid then 1 else 0) + answers rid acts"
  "answers rid (Call a req cb t # acts) = answers rid acts"
  "answers rid (Submit tsk # acts) = answers rid acts"
  "answers rid (xs @ ys) = answers rid xs + answers rid ys"
  "answers rid (replicate_calls cbf cid rp wp rr wr) = 0"
  by (simp_all add: answers_def replicate_calls_def filter_empty_conv)

lemma answers_catch [simp]: "answers rid [dispatch_catch rid e] = 1"
  by (simp add: dispatch_catch_def)

text \<open>A write waits for its copies: its context holds the responder and counts the calls just sent.\<close>

definition write_pending :: "responder \<Rightarrow> server_action list \<Rightarrow> 'd server \<Rightarrow> 'd server \<Rightarrow> bool" where
  "write_pending rid acts s s' \<longleftrightarrow>
     (\<exists>cx. s_ctxs s' (s_next_ctx s) = Some cx \<and> cx_responder cx = rid \<and> acts \<noteq> [] \<and>
        cx_copy_required cx = of_nat (length acts) \<and> (\<forall>a \<in> set acts. \<exists>n req cb. a = Call n (To_server req) cb 10))"

definition answered_or_pending :: "responder \<Rightarrow> 'd server \<Rightarrow> 'd server_out \<Rightarrow> bool" where
  "answered_or_pending rid s out \<longleftrightarrow>
     answers rid (snd (snd out)) = 1 \<or> (answers rid (snd (snd out)) = 0 \<and> write_pending rid (snd (snd out)) s (out_state out))"

lemma replicate_calls_props:
  "length (replicate_calls cb cid rp wp rr wr) = length wr + length rr"
  "replicate_calls cb cid rp wp rr wr = [] \<longleftrightarrow> wr = [] \<and> rr = []"
  "\<forall>a \<in> set (replicate_calls cb cid rp wp rr wr). \<exists>n req cb. a = Call n (To_server req) cb 10"
  by (auto simp: replicate_calls_def)

lemma with_catch_answered:
  assumes "fst out = None \<Longrightarrow> answered_or_pending rid s out"
    and "fst out \<noteq> None \<Longrightarrow> answers rid (snd (snd out)) = 0"
  shows "answered_or_pending rid s (with_catch rid out)"
  using assms by (cases "fst out") (auto simp: with_catch_def case_prod_beta answered_or_pending_def split: option.splits)

lemma set_replicate_answered:
  "fst (set_replicate p op rid oper key val ct rr wr s) = None \<Longrightarrow>
     answered_or_pending rid s (set_replicate p op rid oper key val ct rr wr s)"
  "fst (set_replicate p op rid oper key val ct rr wr s) \<noteq> None \<Longrightarrow>
     answers rid (snd (snd (set_replicate p op rid oper key val ct rr wr s))) = 0"
  by (auto simp: set_replicate_eq Let_def answered_or_pending_def write_pending_def new_ctx_def replicate_calls_props)

lemma rpc_Set_answered:
  "fst (rpc_Set p op rid oper key val s) = None \<Longrightarrow> answered_or_pending rid s (rpc_Set p op rid oper key val s)"
  "fst (rpc_Set p op rid oper key val s) \<noteq> None \<Longrightarrow> answers rid (snd (snd (rpc_Set p op rid oper key val s))) = 0"
proof -
  have eq: "answered_or_pending rid s out = answered_or_pending rid s1 out" if "s_next_ctx s1 = s_next_ctx s" for s1 out
    using that by (simp add: answered_or_pending_def write_pending_def)
  have one: "answered_or_pending rid s (e, s1, [Respond rid x])" for e s1 x
    by (simp add: answered_or_pending_def)
  show "fst (rpc_Set p op rid oper key val s) = None \<Longrightarrow> answered_or_pending rid s (rpc_Set p op rid oper key val s)"
    by (auto simp: rpc_Set_def Let_def case_prod_beta one split: sum.splits if_splits
        intro!: set_replicate_answered(1) [THEN eq [THEN iffD2, rotated]])
  show "fst (rpc_Set p op rid oper key val s) \<noteq> None \<Longrightarrow> answers rid (snd (snd (rpc_Set p op rid oper key val s))) = 0"
    by (auto simp: rpc_Set_def Let_def case_prod_beta set_replicate_answered(2) split: sum.splits if_splits)
qed

lemma rpc_Delete_answered:
  "fst (rpc_Delete p op rid fl key s) = None \<Longrightarrow> answered_or_pending rid s (rpc_Delete p op rid fl key s)"
  "fst (rpc_Delete p op rid fl key s) \<noteq> None \<Longrightarrow> answers rid (snd (snd (rpc_Delete p op rid fl key s))) = 0"
  by (auto simp: rpc_Delete_def Let_def case_prod_beta answered_or_pending_def write_pending_def new_ctx_def
      replicate_calls_props split: sum.splits if_splits)

lemma respond_answered [simp]: "answered_or_pending rid s (e, s1, [Respond rid x])"
  by (simp add: answered_or_pending_def)

lemma subsystem_answered:
  assumes "\<forall>cmd conf. req = S_SetConfig cmd conf \<longrightarrow> cmd = 0"
  shows "answered_or_pending rid s (subsystem_dispatch p op env rid req s)"
  unfolding subsystem_dispatch_def
  by (cases req; rule with_catch_answered)
    (use assms in \<open>auto simp: rpc_Set_answered rpc_Delete_answered read_defs
      split: sum.splits if_splits rvalue.splits option.splits\<close>)

lemma cluster_answered:
  assumes "\<forall>a. req \<noteq> S_ReplaceOffer a" "\<forall>x. req \<noteq> S_CreateBackup x"
  shows "answered_or_pending rid s (cluster_dispatch p op frm rid req s)"
  unfolding cluster_dispatch_def
  by (cases req; rule with_catch_answered)
    (use assms in \<open>auto simp: read_defs ring_defs answered_or_pending_def Let_def case_prod_beta split: sum.splits\<close>)


end
