(* ===== verification/Session.thy ===== *)
theory Session
  imports Protocol
begin

text \<open>
  Sessions of the RPC layer (\<open>rpc/session.cc\<close>, \<open>rpc/session_impl.h\<close>): the table of the
  callbacks that wait for a reply, the transports a session is bound to, the queue of requests
  that wait for a transport, and the ways in which a callback comes to run: a reply, a
  timeout, and the loss of the session.

  A packed request is its message identifier with the request itself; a transport is a
  number. The zones that keep the arguments of a callback alive are not modelled.
\<close>

section \<open>The callback table\<close>

record 'cb callback_entry =
  m_timeout_steps :: u16
  m_callback :: 'cb

text \<open>A \<open>std::map\<close> from message identifiers: an association list in the order of the keys.\<close>

type_synonym 'cb callbacks = "(u32 \<times> 'cb callback_entry) list"

fun map_put :: "u32 \<Rightarrow> 'e \<Rightarrow> (u32 \<times> 'e) list \<Rightarrow> (u32 \<times> 'e) list" where
  "map_put k e [] = [(k, e)]"
| "map_put k e ((k', e') # xs) =
     (if k < k' then (k, e) # (k', e') # xs
      else if k = k' then (k, e) # xs
      else (k', e') # map_put k e xs)"

definition map_erase :: "u32 \<Rightarrow> (u32 \<times> 'e) list \<Rightarrow> (u32 \<times> 'e) list" where
  "map_erase k xs = filter (\<lambda>x. fst x \<noteq> k) xs"

type_synonym 'cb callback_table = "'cb callbacks list"

definition PARTITION_NUM :: nat where
  "PARTITION_NUM = 4"

definition partition_of :: "u32 \<Rightarrow> nat" where
  "partition_of msgid = unat msgid mod PARTITION_NUM"

definition callback_table_new :: "'cb callback_table" where
  "callback_table_new = replicate PARTITION_NUM []"

definition callback_table_insert :: "u32 \<Rightarrow> 'cb callback_entry \<Rightarrow> 'cb callback_table \<Rightarrow> 'cb callback_table" where
  "callback_table_insert msgid entry t =
     (let i = partition_of msgid in t[i := map_put msgid entry (t ! i)])"

definition callback_table_out :: "u32 \<Rightarrow> 'cb callback_table \<Rightarrow> 'cb callback_entry option \<times> 'cb callback_table" where
  "callback_table_out msgid t =
     (let i = partition_of msgid
      in case map_of (t ! i) msgid of
           None \<Rightarrow> (None, t)
         | Some e \<Rightarrow> (Some e, t[i := map_erase msgid (t ! i)]))"

definition for_each_clear :: "'cb callback_table \<Rightarrow> 'cb callbacks \<times> 'cb callback_table" where
  "for_each_clear t = (concat t, map (\<lambda>cbs. []) t)"

text \<open>\<open>erase_if\<close> with a predicate that may change the entry it keeps: the erased entries and the rest.\<close>

definition erase_if ::
    "('cb callback_entry \<Rightarrow> bool \<times> 'cb callback_entry) \<Rightarrow> 'cb callback_table \<Rightarrow> 'cb callbacks \<times> 'cb callback_table" where
  "erase_if f t =
     (concat (map (filter (\<lambda>x. fst (f (snd x)))) t),
      map (\<lambda>cbs. map (\<lambda>x. (fst x, snd (f (snd x)))) (filter (\<lambda>x. \<not> fst (f (snd x))) cbs)) t)"

definition entry_step_timeout :: "'cb callback_entry \<Rightarrow> bool \<times> 'cb callback_entry" where
  "entry_step_timeout e =
     (if 0 < m_timeout_steps e then (True, e\<lparr>m_timeout_steps := m_timeout_steps e - 1\<rparr>) else (False, e))"

definition remove_if_step_timeout :: "'cb callback_entry \<Rightarrow> bool \<times> 'cb callback_entry" where
  "remove_if_step_timeout e = (let (alive, e') = entry_step_timeout e in (\<not> alive, e'))"

section \<open>Sessions\<close>

record ('cb, 'm) session =
  m_msgid_rr :: u32
  m_cbtable :: "'cb callback_table"
  m_binds :: "nat list"
  m_lost :: bool
  m_connect_retried_count :: u16
  m_pending_queue :: "(u32 \<times> 'm) list"

text \<open>
  What a session does: it sends a request on a transport, runs a callback with a result and
  an error (the identifier of the call tells which), and tells its manager that its last
  transport is gone.
\<close>

datatype ('cb, 'm) session_action =
    Send nat u32 'm
  | Run_callback u32 'cb rvalue rvalue
  | Transport_lost_notify

definition TRANSPORT_LOST_ERROR :: rvalue where "TRANSPORT_LOST_ERROR = V_u64 1"

definition NODE_LOST_ERROR :: rvalue where "NODE_LOST_ERROR = V_u64 2"

definition TIMEOUT_ERROR :: rvalue where "TIMEOUT_ERROR = V_u64 3"

definition session_new :: "('cb, 'm) session" where
  "session_new = \<lparr>m_msgid_rr = 0, m_cbtable = callback_table_new, m_binds = [], m_lost = False,
     m_connect_retried_count = 0, m_pending_queue = []\<rparr>"

definition is_bound :: "('cb, 'm) session \<Rightarrow> bool" where
  "is_bound s \<longleftrightarrow> m_binds s \<noteq> []"

text \<open>The transport that the next request goes to: round robin over the message identifiers.\<close>

definition balance :: "('cb, 'm) session \<Rightarrow> nat" where
  "balance s = m_binds s ! (unat (m_msgid_rr s) mod length (m_binds s))"

definition register_call :: "'cb \<Rightarrow> u16 \<Rightarrow> ('cb, 'm) session \<Rightarrow> ('cb, 'm) session" where
  "register_call cb steps s =
     (let msgid = m_msgid_rr s + 1
      in s\<lparr>m_msgid_rr := msgid,
           m_cbtable := callback_table_insert msgid \<lparr>m_timeout_steps = steps, m_callback = cb\<rparr> (m_cbtable s)\<rparr>)"

definition basic_session_call ::
    "'m \<Rightarrow> 'cb \<Rightarrow> u16 \<Rightarrow> ('cb, 'm) session \<Rightarrow> ('cb, 'm) session \<times> ('cb, 'm) session_action list" where
  "basic_session_call m cb steps s =
     (let s1 = register_call cb steps s
      in if m_lost s1 \<or> m_binds s1 = [] then (s1, [])
         else (s1, [Send (balance s1) (m_msgid_rr s1) m]))"

definition session_call ::
    "'m \<Rightarrow> 'cb \<Rightarrow> u16 \<Rightarrow> ('cb, 'm) session \<Rightarrow> ('cb, 'm) session \<times> ('cb, 'm) session_action list" where
  "session_call m cb steps s =
     (let s1 = register_call cb steps s
      in if m_lost s1 then (s1, [])
         else if m_binds s1 = [] then (s1\<lparr>m_pending_queue := m_pending_queue s1 @ [(m_msgid_rr s1, m)]\<rparr>, [])
         else (s1, [Send (balance s1) (m_msgid_rr s1) m]))"

definition process_response ::
    "u32 \<Rightarrow> rvalue \<Rightarrow> rvalue \<Rightarrow> ('cb, 'm) session \<Rightarrow> ('cb, 'm) session \<times> ('cb, 'm) session_action list" where
  "process_response msgid res err s =
     (let (e, t) = callback_table_out msgid (m_cbtable s)
      in case e of
           None \<Rightarrow> (s, [])
         | Some e' \<Rightarrow> (s\<lparr>m_cbtable := t\<rparr>, [Run_callback msgid (m_callback e') res err]))"

text \<open>The transport a response is written to.\<close>

definition send_data :: "('cb, 'm) session \<Rightarrow> nat result" where
  "send_data s = (if m_binds s = [] then Inl (Runtime_error ''session not bound'') else Inr (balance s))"

definition basic_bind_transport :: "nat \<Rightarrow> ('cb, 'm) session \<Rightarrow> bool \<times> ('cb, 'm) session" where
  "basic_bind_transport t s = (m_binds s = [], s\<lparr>m_connect_retried_count := 0, m_binds := m_binds s @ [t]\<rparr>)"

definition bind_transport ::
    "nat \<Rightarrow> ('cb, 'm) session \<Rightarrow> bool \<times> ('cb, 'm) session \<times> ('cb, 'm) session_action list" where
  "bind_transport t s =
     (let (ret, s1) = basic_bind_transport t s; pendings = m_pending_queue s1
      in (ret, s1\<lparr>m_pending_queue := []\<rparr>, map (\<lambda>(msgid, m). Send t msgid m) pendings))"

definition unbind_transport ::
    "nat \<Rightarrow> ('cb, 'm) session \<Rightarrow> bool \<times> ('cb, 'm) session \<times> ('cb, 'm) session_action list" where
  "unbind_transport t s =
     (let s1 = s\<lparr>m_binds := filter (\<lambda>x. x \<noteq> t) (m_binds s)\<rparr>
      in if m_binds s1 = [] then (True, s1, [Transport_lost_notify]) else (False, s1, []))"

definition shutdown :: "('cb, 'm) session \<Rightarrow> ('cb, 'm) session \<times> ('cb, 'm) session_action list" where
  "shutdown s = (s\<lparr>m_binds := []\<rparr>, if m_binds s = [] then [] else [Transport_lost_notify])"

definition run_all :: "rvalue \<Rightarrow> 'cb callbacks \<Rightarrow> ('cb, 'm) session_action list" where
  "run_all err cbs = map (\<lambda>(msgid, e). Run_callback msgid (m_callback e) V_nil err) cbs"

definition force_lost :: "rvalue \<Rightarrow> ('cb, 'm) session \<Rightarrow> ('cb, 'm) session \<times> ('cb, 'm) session_action list" where
  "force_lost err s =
     (let (cbs, t) = for_each_clear (m_cbtable s)
      in (s\<lparr>m_lost := True, m_cbtable := t\<rparr>, run_all err cbs))"

definition step_timeout :: "('cb, 'm) session \<Rightarrow> ('cb, 'm) session \<times> ('cb, 'm) session_action list" where
  "step_timeout s =
     (let (cbs, t) = erase_if remove_if_step_timeout (m_cbtable s)
      in (s\<lparr>m_cbtable := t\<rparr>, run_all TIMEOUT_ERROR cbs))"

definition increment_connect_retried_count :: "('cb, 'm) session \<Rightarrow> u16 \<times> ('cb, 'm) session" where
  "increment_connect_retried_count s =
     (let n = m_connect_retried_count s + 1 in (n, s\<lparr>m_connect_retried_count := n\<rparr>))"

definition revive :: "('cb, 'm) session \<Rightarrow> ('cb, 'm) session" where
  "revive s = s\<lparr>m_lost := False\<rparr>"

definition cancel_pendings :: "('cb, 'm) session \<Rightarrow> ('cb, 'm) session" where
  "cancel_pendings s = s\<lparr>m_pending_queue := []\<rparr>"

text \<open>The destructors of \<open>session\<close> and \<open>basic_session\<close>.\<close>

definition session_destroy :: "('cb, 'm) session \<Rightarrow> ('cb, 'm) session \<times> ('cb, 'm) session_action list" where
  "session_destroy s = force_lost TRANSPORT_LOST_ERROR (cancel_pendings s)"

section \<open>Runs of a session\<close>

datatype ('cb, 'm) session_event =
    Ev_call 'm 'cb u16
  | Ev_response u32 rvalue rvalue
  | Ev_step
  | Ev_bind nat
  | Ev_unbind nat
  | Ev_shutdown
  | Ev_lost rvalue
  | Ev_revive

fun session_apply ::
    "('cb, 'm) session_event \<Rightarrow> ('cb, 'm) session \<Rightarrow> ('cb, 'm) session \<times> ('cb, 'm) session_action list" where
  "session_apply (Ev_call m cb steps) s = session_call m cb steps s"
| "session_apply (Ev_response msgid res err) s = process_response msgid res err s"
| "session_apply Ev_step s = step_timeout s"
| "session_apply (Ev_bind t) s = snd (bind_transport t s)"
| "session_apply (Ev_unbind t) s = snd (unbind_transport t s)"
| "session_apply Ev_shutdown s = shutdown s"
| "session_apply (Ev_lost err) s = force_lost err s"
| "session_apply Ev_revive s = (revive s, [])"

fun session_run ::
    "('cb, 'm) session_event list \<Rightarrow> ('cb, 'm) session \<Rightarrow> ('cb, 'm) session \<times> ('cb, 'm) session_action list" where
  "session_run [] s = (s, [])"
| "session_run (ev # evs) s =
     (let (s1, a1) = session_apply ev s; (s2, a2) = session_run evs s1 in (s2, a1 @ a2))"

end
