(* ===== verification/SessionTheorems.thy ===== *)
theory SessionTheorems
  imports Session
begin

text \<open>
  The properties of a session: every call comes to run its callback exactly once, at the latest
  when its time is over, and the requests are sent in the order of the calls.
\<close>

section \<open>The contract of the callback table\<close>

text \<open>
  What a session relies on: a finite map from identifiers to entries that can be extended, from
  which one entry, all entries, or the entries chosen by a test can be taken.
\<close>

locale callback_store =
  fixes lookup :: "'t \<Rightarrow> u32 \<Rightarrow> 'e option" and ok :: "'t \<Rightarrow> bool" and new :: 't
    and put :: "u32 \<Rightarrow> 'e \<Rightarrow> 't \<Rightarrow> 't" and out :: "u32 \<Rightarrow> 't \<Rightarrow> 'e option \<times> 't"
    and clear :: "'t \<Rightarrow> (u32 \<times> 'e) list \<times> 't"
    and select :: "('e \<Rightarrow> bool \<times> 'e) \<Rightarrow> 't \<Rightarrow> (u32 \<times> 'e) list \<times> 't"
  assumes new_law: "ok new \<and> lookup new k = None"
    and put_law: "ok t \<Longrightarrow> ok (put k e t) \<and> lookup (put k e t) = (lookup t)(k \<mapsto> e)"
    and out_law: "ok t \<Longrightarrow> out k t = (r, t') \<Longrightarrow> r = lookup t k \<and> ok t' \<and> lookup t' = (lookup t)(k := None)"
    and clear_law: "ok t \<Longrightarrow> clear t = (es, t') \<Longrightarrow>
      ok t' \<and> (\<forall>k. lookup t' k = None) \<and> distinct (map fst es) \<and> map_of es = lookup t"
    and select_law: "ok t \<Longrightarrow> select f t = (es, t') \<Longrightarrow>
      ok t' \<and> distinct (map fst es) \<and>
      (\<forall>k. map_of es k = (case lookup t k of Some e \<Rightarrow> if fst (f e) then Some e else None | None \<Rightarrow> None)) \<and>
      (\<forall>k. lookup t' k = (case lookup t k of Some e \<Rightarrow> if fst (f e) then None else Some (snd (f e)) | None \<Rightarrow> None))"
begin

definition holds :: "u32 \<Rightarrow> 't \<Rightarrow> nat" where
  "holds k t = (if lookup t k = None then 0 else 1)"

lemma count_keys: "distinct (map fst es) \<Longrightarrow> count_list (map fst es) k = (if map_of es k = None then 0 else 1)"
proof -
  have "distinct ks \<Longrightarrow> count_list ks k = (if k \<in> set ks then 1 else 0)" for ks
    by (induction ks) auto
  then show "distinct (map fst es) \<Longrightarrow> ?thesis" by (simp add: map_of_eq_None_iff)
qed

text \<open>An entry is taken out exactly as often as it disappears.\<close>

lemma clear_conserves: "ok t \<Longrightarrow> clear t = (es, t') \<Longrightarrow> count_list (map fst es) k + holds k t' = holds k t"
  using clear_law [of t es t'] by (simp add: count_keys holds_def)

lemma select_conserves: "ok t \<Longrightarrow> select f t = (es, t') \<Longrightarrow> count_list (map fst es) k + holds k t' = holds k t"
  using select_law [of t f es t'] by (auto simp: count_keys holds_def split: option.splits if_splits)

end

section \<open>The partitioned table keeps it\<close>

definition table_lookup :: "'cb callback_table \<Rightarrow> u32 \<Rightarrow> 'cb callback_entry option" where
  "table_lookup t k = map_of (t ! partition_of k) k"

definition table_ok :: "'cb callback_table \<Rightarrow> bool" where
  "table_ok t \<longleftrightarrow> length t = 4 \<and>
     (\<forall>i < 4. sorted_wrt (<) (map fst (t ! i)) \<and> (\<forall>x \<in> set (t ! i). partition_of (fst x) = i))"

lemma partition_of_less [simp]: "partition_of k < 4"
  by (simp add: partition_of_def PARTITION_NUM_def)

lemma set_map_put: "fst ` set (map_put k e xs) = insert k (fst ` set xs)"
  by (induction k e xs rule: map_put.induct) auto

lemma sorted_map_put: "sorted_wrt (<) (map fst xs) \<Longrightarrow> sorted_wrt (<) (map fst (map_put k e xs))"
proof (induction k e xs rule: map_put.induct)
  case (2 k e k' e' xs)
  then show ?case using set_map_put [of k e xs] by (auto simp: set_map_put image_iff)
qed simp

lemma map_of_map_put: "sorted_wrt (<) (map fst xs) \<Longrightarrow> map_of (map_put k e xs) = (map_of xs)(k \<mapsto> e)"
  by (induction k e xs rule: map_put.induct) (auto simp: fun_upd_twist)

lemma sorted_map_filter: "sorted_wrt (<) (map fst xs) \<Longrightarrow> sorted_wrt (<) (map fst (filter P xs))"
  by (induction xs) auto

lemma map_of_filter_key: "map_of (map_erase k xs) = (map_of xs)(k := None)"
  unfolding map_erase_def by (induction xs) (auto simp: fun_eq_iff)

lemma map_of_filter_entry:
  "distinct (map fst xs) \<Longrightarrow>
   map_of (filter (\<lambda>x. P (snd x)) xs) k = (case map_of xs k of Some e \<Rightarrow> if P e then Some e else None | None \<Rightarrow> None)"
  by (induction xs) (auto simp: map_of_eq_None_iff image_iff split: option.splits)

lemma map_of_map_snd: "map_of (map (\<lambda>x. (fst x, g (snd x))) xs) k = map_option g (map_of xs k)"
  by (induction xs) auto

lemma table_ok_part:
  assumes "table_ok t"
  shows "sorted_wrt (<) (map fst (t ! partition_of k))" and "distinct (map fst (t ! partition_of k))"
  using assms strict_sorted_imp_sorted unfolding table_ok_def by (auto intro: strict_sorted_iff [THEN iffD1, THEN conjunct2])

lemma table_ok_map:
  assumes "table_ok t" and "\<And>cbs. fst ` set (g cbs) \<subseteq> fst ` set cbs"
    and "\<And>cbs. sorted_wrt (<) (map fst cbs) \<Longrightarrow> sorted_wrt (<) (map fst (g cbs))"
  shows "table_ok (map g t)"
  using assms unfolding table_ok_def by (simp, metis (no_types, lifting) image_iff subset_iff)

lemma concat_table:
  assumes "table_ok t"
  shows "map_of (concat t) = table_lookup t" and "distinct (map fst (concat t))"
proof -
  obtain a b c d where t: "t = [a, b, c, d]"
    using assms by (auto simp: table_ok_def length_Suc_conv eval_nat_numeral)
  have part: "x \<in> set a \<Longrightarrow> partition_of (fst x) = 0" "x \<in> set b \<Longrightarrow> partition_of (fst x) = 1"
    "x \<in> set c \<Longrightarrow> partition_of (fst x) = 2" "x \<in> set d \<Longrightarrow> partition_of (fst x) = 3" for x
    using assms unfolding table_ok_def t by (auto simp: All_less_Suc eval_nat_numeral)
  have none: "partition_of k \<noteq> 0 \<Longrightarrow> map_of a k = None" "partition_of k \<noteq> 1 \<Longrightarrow> map_of b k = None"
    "partition_of k \<noteq> 2 \<Longrightarrow> map_of c k = None" "partition_of k \<noteq> 3 \<Longrightarrow> map_of d k = None" for k
    unfolding map_of_eq_None_iff by (auto dest: part)
  have "map_of (concat t) k = table_lookup t k" for k
  proof -
    consider "partition_of k = 0" | "partition_of k = 1" | "partition_of k = 2" | "partition_of k = 3"
      using partition_of_less [of k] by linarith
    then show ?thesis
      by cases (simp_all add: t table_lookup_def map_add_def none split: option.split)
  qed
  then show "map_of (concat t) = table_lookup t" by (rule ext)
  have "distinct (map fst x)" if "x \<in> set t" for x
    using that assms unfolding table_ok_def by (metis in_set_conv_nth strict_sorted_iff)
  then have dist: "distinct (map fst a)" "distinct (map fst b)" "distinct (map fst c)" "distinct (map fst d)"
    by (simp_all add: t)
  have disj: "fst ` set xs \<inter> fst ` set ys = {}"
    if "\<And>x. x \<in> set xs \<Longrightarrow> partition_of (fst x) = i" "\<And>y. y \<in> set ys \<Longrightarrow> partition_of (fst y) = j" "i \<noteq> j"
    for xs ys :: "(u32 \<times> 'a callback_entry) list" and i j
    using that by force
  show "distinct (map fst (concat t))"
    using dist disj [OF part(1,2)] disj [OF part(1,3)] disj [OF part(1,4)] disj [OF part(2,3)] disj [OF part(2,4)] disj [OF part(3,4)]
    by (simp add: t Int_Un_distrib)
qed

lemma table_ok_update:
  assumes "table_ok t" and "sorted_wrt (<) (map fst cbs)" and "\<forall>x \<in> set cbs. partition_of (fst x) = i"
  shows "table_ok (t[i := cbs])"
proof -
  have "t[i := cbs] ! j = (if j = i then cbs else t ! j)" if "j < 4" for j
    using that assms(1) by (auto simp: table_ok_def)
  with assms show ?thesis unfolding table_ok_def by simp
qed

lemma table_lookup_update:
  assumes "table_ok t" and "i < 4" and "\<forall>k. partition_of k \<noteq> i \<longrightarrow> map_of cbs k = None"
  shows "table_lookup (t[i := cbs]) k = (if partition_of k = i then map_of cbs k else table_lookup t k)"
  using assms by (auto simp: table_ok_def table_lookup_def)

lemma insert_table_law:
  assumes "table_ok t"
  shows "table_ok (callback_table_insert k e t) \<and> table_lookup (callback_table_insert k e t) = (table_lookup t)(k \<mapsto> e)"
proof -
  let ?i = "partition_of k"
  let ?cbs = "map_put k e (t ! ?i)"
  have keys: "\<forall>x \<in> set ?cbs. partition_of (fst x) = ?i"
    using assms set_map_put [of k e "t ! ?i"] unfolding table_ok_def
    by (metis (no_types, lifting) image_iff insert_iff partition_of_less)
  then have none: "\<forall>k'. partition_of k' \<noteq> ?i \<longrightarrow> map_of ?cbs k' = None"
    by (metis fst_conv map_of_SomeD option.exhaust)
  note sorted = table_ok_part(1) [OF assms, of k]
  have "table_ok (t[?i := ?cbs])"
    by (rule table_ok_update [OF assms sorted_map_put [OF sorted] keys])
  moreover have "table_lookup (t[?i := ?cbs]) k' = ((table_lookup t)(k \<mapsto> e)) k'" for k'
    unfolding table_lookup_update [OF assms partition_of_less none]
    by (auto simp: map_of_map_put [OF sorted] table_lookup_def)
  ultimately show ?thesis by (auto simp: callback_table_insert_def Let_def)
qed

lemma out_table_law:
  assumes "table_ok t" and "callback_table_out k t = (r, t')"
  shows "r = table_lookup t k \<and> table_ok t' \<and> table_lookup t' = (table_lookup t)(k := None)"
proof (cases "map_of (t ! partition_of k) k")
  case None
  with assms show ?thesis by (auto simp: callback_table_out_def table_lookup_def fun_eq_iff)
next
  case (Some e)
  let ?i = "partition_of k"
  let ?cbs = "map_erase k (t ! ?i)"
  have keys: "\<forall>x \<in> set ?cbs. partition_of (fst x) = ?i"
    using assms(1) by (auto simp: table_ok_def map_erase_def)
  then have none: "\<forall>k'. partition_of k' \<noteq> ?i \<longrightarrow> map_of ?cbs k' = None"
    by (metis fst_conv map_of_SomeD option.exhaust)
  have "sorted_wrt (<) (map fst ?cbs)"
    using table_ok_part(1) [OF assms(1), of k] by (simp add: map_erase_def sorted_map_filter)
  from table_ok_update [OF assms(1) this keys] have "table_ok (t[?i := ?cbs])" .
  moreover have "table_lookup (t[?i := ?cbs]) k' = ((table_lookup t)(k := None)) k'" for k'
    unfolding table_lookup_update [OF assms(1) partition_of_less none]
    by (auto simp: map_of_filter_key table_lookup_def)
  moreover have "r = Some e" "t' = t[?i := ?cbs]"
    using Some assms(2) by (simp_all add: callback_table_out_def Let_def)
  ultimately show ?thesis
    using Some by (auto simp: table_lookup_def [of t])
qed

lemma clear_table_law:
  assumes "table_ok t" and "for_each_clear t = (es, t')"
  shows "table_ok t' \<and> (\<forall>k. table_lookup t' k = None) \<and> distinct (map fst es) \<and> map_of es = table_lookup t"
proof -
  have "length t = 4" using assms(1) by (simp add: table_ok_def)
  with assms concat_table [OF assms(1)] show ?thesis
    by (auto simp: for_each_clear_def table_ok_def table_lookup_def)
qed

lemma select_table_law:
  assumes "table_ok t" and "erase_if f t = (es, t')"
  shows "table_ok t' \<and> distinct (map fst es) \<and>
    (\<forall>k. map_of es k = (case table_lookup t k of Some e \<Rightarrow> if fst (f e) then Some e else None | None \<Rightarrow> None)) \<and>
    (\<forall>k. table_lookup t' k = (case table_lookup t k of Some e \<Rightarrow> if fst (f e) then None else Some (snd (f e)) | None \<Rightarrow> None))"
proof -
  let ?g = "filter (\<lambda>x. fst (f (snd x)))"
  let ?h = "\<lambda>cbs. map (\<lambda>x. (fst x, snd (f (snd x)))) (filter (\<lambda>x. \<not> fst (f (snd x))) cbs)"
  have es: "es = concat (map ?g t)" and t': "t' = map ?h t" using assms(2) by (auto simp: erase_if_def)
  have len: "length t = 4" using assms(1) by (simp add: table_ok_def)
  have "map fst (?h cbs) = map fst (filter (\<lambda>x. \<not> fst (f (snd x))) cbs)" for cbs by simp
  then have h: "fst ` set (?h cbs) \<subseteq> fst ` set cbs" "sorted_wrt (<) (map fst cbs) \<Longrightarrow> sorted_wrt (<) (map fst (?h cbs))" for cbs
    using sorted_map_filter [of cbs "\<lambda>x. \<not> fst (f (snd x))"] by (force, simp add: comp_def)
  have g: "table_ok (map ?g t)" by (rule table_ok_map [OF assms(1)]) (auto simp: sorted_map_filter)
  have "table_ok t'" unfolding t' by (rule table_ok_map [OF assms(1) h])
  moreover have "map_of es k = (case table_lookup t k of Some e \<Rightarrow> if fst (f e) then Some e else None | None \<Rightarrow> None)" for k
    unfolding es concat_table(1) [OF g]
    using len by (simp add: table_lookup_def map_of_filter_entry [OF table_ok_part(2) [OF assms(1)], where P = "\<lambda>e. fst (f e)"])
  moreover have "table_lookup t' k = (case table_lookup t k of Some e \<Rightarrow> if fst (f e) then None else Some (snd (f e)) | None \<Rightarrow> None)" for k
    using len unfolding t'
    by (simp add: table_lookup_def map_of_map_snd [where g = "\<lambda>e. snd (f e)"] map_of_filter_entry [OF table_ok_part(2) [OF assms(1)], where P = "\<lambda>e. \<not> fst (f e)"]
        split: option.splits)
  ultimately show ?thesis using concat_table(2) [OF g] es by simp
qed

interpretation cbt: callback_store table_lookup table_ok callback_table_new callback_table_insert
  callback_table_out for_each_clear erase_if
proof
  show "table_ok callback_table_new \<and> table_lookup callback_table_new k = None" for k
    by (simp add: table_ok_def callback_table_new_def PARTITION_NUM_def table_lookup_def)
qed (rule insert_table_law out_table_law clear_table_law select_table_law; assumption)+

section \<open>What the events of a session do to the waiting calls\<close>

definition runs :: "u32 \<Rightarrow> ('cb, 'm) session_action list \<Rightarrow> nat" where
  "runs k acts = length (filter (\<lambda>a. case a of Run_callback m cb r e \<Rightarrow> m = k | _ \<Rightarrow> False) acts)"

lemma runs_simps [simp]:
  "runs k [] = 0"
  "runs k (xs @ ys) = runs k xs + runs k ys"
  "runs k (Send t m x # acts) = runs k acts"
  "runs k (Transport_lost_notify # acts) = runs k acts"
  "runs k (Run_callback m cb r e # acts) = (if m = k then 1 else 0) + runs k acts"
  "runs k (map (\<lambda>(m, x). Send t m x) ps) = 0"
  by (simp_all add: runs_def filter_empty_conv split_beta)

lemma runs_run_all [simp]: "runs k (run_all err cbs) = count_list (map fst cbs) k"
  by (induction cbs) (auto simp: run_all_def runs_def)

definition waits :: "u32 \<Rightarrow> ('cb, 'm) session \<Rightarrow> 'cb callback_entry option" where
  "waits k s = table_lookup (m_cbtable s) k"

definition called :: "('cb, 'm) session_event list \<Rightarrow> ('m \<times> 'cb) list" where
  "called evs = List.map_filter (\<lambda>ev. case ev of Ev_call m cb steps \<Rightarrow> Some (m, cb) | _ \<Rightarrow> None) evs"

lemma called_simps [simp]:
  "called [] = []"
  "called (ev # evs) = (case ev of Ev_call m cb steps \<Rightarrow> [(m, cb)] | _ \<Rightarrow> []) @ called evs"
  by (simp_all add: called_def map_filter_simps split: session_event.splits)

lemma called_append: "called (xs @ ys) = called xs @ called ys"
  by (induction xs) auto

text \<open>
  An event other than a call: a waiting call goes on waiting, with one step less after a timer
  step, or its callback runs.
\<close>

definition waiting_kept ::
    "bool \<Rightarrow> u32 \<Rightarrow> ('cb, 'm) session \<Rightarrow> ('cb, 'm) session \<Rightarrow> ('cb, 'm) session_action list \<Rightarrow> bool" where
  "waiting_kept step k s s' acts \<longleftrightarrow>
     table_ok (m_cbtable s') \<and> m_msgid_rr s' = m_msgid_rr s \<and>
     runs k acts + (if waits k s' = None then 0 else 1) = (if waits k s = None then 0 else 1) \<and>
     (\<forall>e'. waits k s' = Some e' \<longrightarrow> (\<exists>e. waits k s = Some e \<and> m_callback e' = m_callback e \<and>
        (if step then 0 < m_timeout_steps e \<and> m_timeout_steps e' = m_timeout_steps e - 1 else e' = e))) \<and>
     (\<forall>cb r x. Run_callback k cb r x \<in> set acts \<longrightarrow> (\<exists>e. waits k s = Some e \<and> cb = m_callback e))"

lemma in_run_all:
  "distinct (map fst cbs) \<Longrightarrow> Run_callback k cb r x \<in> set (run_all err cbs) \<longleftrightarrow>
     (\<exists>e. map_of cbs k = Some e \<and> cb = m_callback e \<and> r = V_nil \<and> x = err)"
  by (auto simp: run_all_def map_of_eq_Some_iff)

lemma process_response_kept:
  assumes "table_ok (m_cbtable s)" and "process_response m res err s = (s', acts)"
  shows "waiting_kept False k s s' acts"
proof -
  obtain r t where out: "callback_table_out m (m_cbtable s) = (r, t)" by fastforce
  note law = out_table_law [OF assms(1) out]
  show ?thesis
  proof (cases "table_lookup (m_cbtable s) m")
    case None
    with assms(2) law out have "s' = s" "acts = []" by (auto simp: process_response_def)
    with assms(1) show ?thesis by (simp add: waiting_kept_def)
  next
    case (Some e)
    with assms(2) law out have "s' = s\<lparr>m_cbtable := t\<rparr>" "acts = [Run_callback m (m_callback e) res err]"
      by (auto simp: process_response_def)
    with law Some show ?thesis by (auto simp: waiting_kept_def waits_def)
  qed
qed

lemma force_lost_kept:
  assumes "table_ok (m_cbtable s)" and "force_lost err s = (s', acts)"
  shows "waiting_kept False k s s' acts"
proof -
  obtain cbs t where clear: "for_each_clear (m_cbtable s) = (cbs, t)" by fastforce
  note law = clear_table_law [OF assms(1) clear] and cons = cbt.clear_conserves [OF assms(1) clear, of k]
  have s': "s' = s\<lparr>m_lost := True, m_cbtable := t\<rparr>" "acts = run_all err cbs"
    using assms(2) clear by (auto simp: force_lost_def)
  show ?thesis
    unfolding waiting_kept_def waits_def s' using law cons by (auto simp: in_run_all cbt.holds_def)
qed

lemma step_timeout_kept:
  assumes "table_ok (m_cbtable s)" and "step_timeout s = (s', acts)"
  shows "waiting_kept True k s s' acts"
proof -
  obtain cbs t where sel: "erase_if remove_if_step_timeout (m_cbtable s) = (cbs, t)" by fastforce
  note law = select_table_law [OF assms(1) sel] and cons = cbt.select_conserves [OF assms(1) sel, of k]
  have s': "s' = s\<lparr>m_cbtable := t\<rparr>" "acts = run_all TIMEOUT_ERROR cbs"
    using assms(2) sel by (auto simp: step_timeout_def)
  have step: "fst (remove_if_step_timeout e) \<longleftrightarrow> \<not> 0 < m_timeout_steps e"
    "0 < m_timeout_steps e \<Longrightarrow> snd (remove_if_step_timeout e) = e\<lparr>m_timeout_steps := m_timeout_steps e - 1\<rparr>" for e :: "'a callback_entry"
    by (simp_all add: remove_if_step_timeout_def entry_step_timeout_def)
  show ?thesis
    unfolding waiting_kept_def waits_def s' using law cons
    by (auto simp: in_run_all cbt.holds_def step split: option.splits if_splits)
qed

lemma sends_run_nothing [simp]: "Run_callback k cb r x \<notin> (\<lambda>(m, y). Send t m y) ` A"
  by auto

lemma event_no_call:
  assumes "table_ok (m_cbtable s)" and "session_apply ev s = (s', acts)" and "\<nexists>m cb steps. ev = Ev_call m cb steps"
  shows "waiting_kept (ev = Ev_step) k s s' acts"
proof -
  have same: "waiting_kept False k s s' acts"
    if "m_cbtable s' = m_cbtable s" "m_msgid_rr s' = m_msgid_rr s" "runs k acts = 0" "\<forall>cb r x. Run_callback k cb r x \<notin> set acts"
    using that assms(1) by (simp add: waiting_kept_def waits_def)
  show ?thesis
  proof (cases ev)
    case (Ev_response m res err)
    with assms process_response_kept [OF assms(1)] show ?thesis by auto
  next
    case Ev_step
    with assms step_timeout_kept [OF assms(1)] show ?thesis by auto
  next
    case (Ev_lost err)
    with assms force_lost_kept [OF assms(1)] show ?thesis by auto
  qed (use assms same in \<open>auto simp: bind_transport_def basic_bind_transport_def unbind_transport_def shutdown_def revive_def Let_def
      split: if_splits\<close>)
qed

lemma event_call:
  assumes "table_ok (m_cbtable s)" and "session_call m cb steps s = (s', acts)"
  shows "table_ok (m_cbtable s') \<and> m_msgid_rr s' = m_msgid_rr s + 1 \<and> runs k acts = 0 \<and>
    (\<forall>cb r x. Run_callback k cb r x \<notin> set acts) \<and>
    waits k s' = (if k = m_msgid_rr s + 1 then Some \<lparr>m_timeout_steps = steps, m_callback = cb\<rparr> else waits k s)"
  using assms insert_table_law [OF assms(1), of "m_msgid_rr s + 1" "\<lparr>m_timeout_steps = steps, m_callback = cb\<rparr>"]
  by (auto simp: session_call_def register_call_def waits_def Let_def split: if_splits)

section \<open>Runs\<close>

text \<open>The session after \<open>c\<close> calls: their identifiers are 1 to \<open>c\<close>, and only these wait.\<close>

definition after_calls :: "nat \<Rightarrow> ('cb, 'm) session \<Rightarrow> bool" where
  "after_calls c s \<longleftrightarrow> table_ok (m_cbtable s) \<and> m_msgid_rr s = of_nat c \<and>
     (\<forall>k. waits k s \<noteq> None \<longrightarrow> 0 < unat k \<and> unat k \<le> c)"

lemma after_calls_new: "after_calls 0 session_new"
  by (simp add: after_calls_def session_new_def waits_def cbt.new_law)

lemma next_id: "Suc c < 2 ^ 32 \<Longrightarrow> k = (of_nat c + 1 :: u32) \<longleftrightarrow> unat k = Suc c"
proof -
  assume c: "Suc c < 2 ^ 32"
  have "unat (of_nat (Suc c) :: u32) = Suc c" using c by (simp add: unat_of_nat take_bit_nat_eq_self del: of_nat_Suc)
  then show ?thesis by (metis add.commute of_nat_Suc word_unat_eq_iff)
qed

lemma after_calls_event:
  assumes "after_calls c s" and "session_apply ev s = (s', acts)" and "c + length (called [ev]) < 2 ^ 32"
  shows "after_calls (c + length (called [ev])) s'"
    and "runs k acts + (if waits k s' = None then 0 else 1) =
      (if waits k s = None then 0 else 1) + (if c < unat k \<and> unat k \<le> c + length (called [ev]) then 1 else 0)"
proof -
  have ok: "table_ok (m_cbtable s)" using assms(1) by (simp add: after_calls_def)
  have "after_calls (c + length (called [ev])) s' \<and>
    runs k acts + (if waits k s' = None then 0 else 1) =
      (if waits k s = None then 0 else 1) + (if c < unat k \<and> unat k \<le> c + length (called [ev]) then 1 else 0)"
  proof (cases "\<exists>m cb steps. ev = Ev_call m cb steps")
    case True
    then obtain m cb steps where ev: "ev = Ev_call m cb steps" by blast
    with assms(2) have call: "session_call m cb steps s = (s', acts)" by simp
    have c: "Suc c < 2 ^ 32" using assms(3) ev by simp
    note eff = event_call [OF ok call] and id = next_id [OF c]
    have w: "waits k' s' = (if unat k' = Suc c then Some \<lparr>m_timeout_steps = steps, m_callback = cb\<rparr> else waits k' s)" for k'
      using eff [of k'] assms(1) id [of k'] by (simp add: after_calls_def)
    have old: "waits k' s \<noteq> None \<Longrightarrow> 0 < unat k' \<and> unat k' \<le> c" for k' using assms(1) by (simp add: after_calls_def)
    have "after_calls (Suc c) s'"
      unfolding after_calls_def using eff [of k] assms(1) w old by (auto simp: after_calls_def le_Suc_eq add.commute)
    moreover have "waits k s = None" if "unat k = Suc c" using old [of k] that by fastforce
    ultimately show ?thesis using w [of k] eff [of k] ev by auto
  next
    case False
    then have n: "called [ev] = []" by (cases ev) auto
    have kept: "waiting_kept (ev = Ev_step) k' s s' acts" for k'
      using event_no_call [OF ok assms(2)] False by blast
    have "waits k' s \<noteq> None" if "waits k' s' \<noteq> None" for k'
      using kept [of k'] that unfolding waiting_kept_def by fastforce
    then have "after_calls c s'"
      using assms(1) kept [of k] unfolding after_calls_def waiting_kept_def by simp
    then show ?thesis using kept [of k] n by (simp add: waiting_kept_def)
  qed
  then show "after_calls (c + length (called [ev])) s'"
    "runs k acts + (if waits k s' = None then 0 else 1) =
      (if waits k s = None then 0 else 1) + (if c < unat k \<and> unat k \<le> c + length (called [ev]) then 1 else 0)"
    by blast+
qed

lemma split_range:
  "(if c < k \<and> k \<le> c + m + n then 1 else 0) =
   (if c < k \<and> k \<le> c + m then 1 else 0) + (if c + m < k \<and> k \<le> c + m + n then 1 else 0 :: nat)" for c k m n :: nat
  by auto

lemma session_run_conserves:
  assumes "after_calls c s" and "session_run evs s = (s', acts)" and "c + length (called evs) < 2 ^ 32"
  shows "after_calls (c + length (called evs)) s' \<and>
    runs k acts + (if waits k s' = None then 0 else 1) =
      (if waits k s = None then 0 else 1) + (if c < unat k \<and> unat k \<le> c + length (called evs) then 1 else 0)"
  using assms
proof (induction evs arbitrary: c s s' acts)
  case (Cons ev evs)
  obtain s1 a1 where ev: "session_apply ev s = (s1, a1)" by fastforce
  obtain a2 where rest: "session_run evs s1 = (s', a2)" and acts: "acts = a1 @ a2"
    using Cons.prems(2) ev by (auto split: prod.splits)
  have len: "length (called (ev # evs)) = length (called [ev]) + length (called evs)" by simp
  with Cons.prems(3) have c: "c + length (called [ev]) < 2 ^ 32" "c + length (called [ev]) + length (called evs) < 2 ^ 32"
    by simp_all
  note e = after_calls_event(1) [OF Cons.prems(1) ev c(1)] after_calls_event(2) [OF Cons.prems(1) ev c(1), of k]
  from Cons.IH [OF e(1) rest c(2)] e(2) show ?case
    unfolding len acts add.assoc [symmetric] runs_simps
    using split_range [of c "unat k" "length (called [ev])" "length (called evs)"] by linarith
qed simp

lemma session_run_append:
  "session_run (xs @ ys) s =
     (let (s1, a1) = session_run xs s; (s2, a2) = session_run ys s1 in (s2, a1 @ a2))"
  by (induction xs arbitrary: s) (simp_all add: case_prod_beta Let_def)

lemma runs_pos: "Run_callback k cb r x \<in> set acts \<Longrightarrow> 0 < runs k acts"
  by (induction acts) (auto simp: runs_def)

definition timer_steps :: "('cb, 'm) session_event list \<Rightarrow> nat" where
  "timer_steps evs = length (filter (\<lambda>ev. ev = Ev_step) evs)"

lemma unat_dec: "0 < n \<Longrightarrow> n' = n - 1 \<Longrightarrow> unat n = Suc (unat n')" for n n' :: u16
  by (metis Suc_pred' unat_gt_0 unat_minus_one word_less_nat_alt word_not_simps(1))

text \<open>A call that waits: only its own callback runs for it, and it is over after its steps.\<close>

lemma session_run_waiting:
  assumes "after_calls c s" and "session_run evs s = (s', acts)" and "c + length (called evs) < 2 ^ 32"
    and "waits k s = Some e"
  shows "(\<forall>cb r x. Run_callback k cb r x \<in> set acts \<longrightarrow> cb = m_callback e) \<and>
    (unat (m_timeout_steps e) < timer_steps evs \<longrightarrow> waits k s' = None)"
  using assms
proof (induction evs arbitrary: c s s' acts e)
  case Nil
  then show ?case by (simp add: timer_steps_def)
next
  case (Cons ev evs)
  obtain s1 a1 where ev: "session_apply ev s = (s1, a1)" by fastforce
  obtain a2 where rest: "session_run evs s1 = (s', a2)" and acts: "acts = a1 @ a2"
    using Cons.prems(2) ev by (auto split: prod.splits)
  have c: "c + length (called [ev]) < 2 ^ 32" "c + length (called [ev]) + length (called evs) < 2 ^ 32"
    using Cons.prems(3) by simp_all
  have ok: "table_ok (m_cbtable s)" and k: "unat k \<le> c"
    using Cons.prems(1,4) by (auto simp: after_calls_def)
  have after: "after_calls (c + length (called [ev])) s1" by (rule after_calls_event(1) [OF Cons.prems(1) ev c(1)])
  have first: "(\<forall>cb r x. Run_callback k cb r x \<in> set a1 \<longrightarrow> cb = m_callback e) \<and>
      (\<forall>e1. waits k s1 = Some e1 \<longrightarrow> m_callback e1 = m_callback e \<and>
        (if ev = Ev_step then unat (m_timeout_steps e) = Suc (unat (m_timeout_steps e1)) else m_timeout_steps e1 = m_timeout_steps e))"
  proof (cases "\<exists>m cb steps. ev = Ev_call m cb steps")
    case True
    then obtain m cb steps where e': "ev = Ev_call m cb steps" by blast
    with ev have call: "session_call m cb steps s = (s1, a1)" by simp
    have "k \<noteq> m_msgid_rr s + 1"
      using next_id [of c k] k c(1) Cons.prems(1) e' by (auto simp: after_calls_def)
    with event_call [OF ok call, of k] Cons.prems(4) e' show ?thesis by simp
  next
    case False
    note kept = event_no_call [OF ok ev False, of k, unfolded waiting_kept_def Cons.prems(4) option.inject]
    from kept have "\<forall>cb r x. Run_callback k cb r x \<in> set a1 \<longrightarrow> cb = m_callback e" by blast
    moreover have "m_callback e1 = m_callback e \<and>
        (if ev = Ev_step then unat (m_timeout_steps e) = Suc (unat (m_timeout_steps e1)) else m_timeout_steps e1 = m_timeout_steps e)"
      if "waits k s1 = Some e1" for e1
    proof -
      from kept that have "m_callback e1 = m_callback e \<and>
        (if ev = Ev_step then 0 < m_timeout_steps e \<and> m_timeout_steps e1 = m_timeout_steps e - 1 else e1 = e)" by blast
      then show ?thesis using unat_dec [of "m_timeout_steps e" "m_timeout_steps e1"] by (cases "ev = Ev_step") auto
    qed
    ultimately show ?thesis by blast
  qed
  show ?case
  proof (cases "waits k s1")
    case None
    with session_run_conserves [OF after rest c(2), of k] k have "runs k a2 = 0" "waits k s' = None"
      by (auto split: if_splits)
    moreover from this(1) have "Run_callback k cb r x \<notin> set a2" for cb r x
      using runs_pos [of k cb r x a2] by auto
    ultimately show ?thesis using first by (simp add: acts)
  next
    case (Some e1)
    note ih = Cons.IH [OF after rest c(2) Some]
    have cb: "m_callback e1 = m_callback e" using first Some by blast
    with ih first have "\<forall>cb r x. Run_callback k cb r x \<in> set acts \<longrightarrow> cb = m_callback e"
      unfolding acts set_append Un_iff by metis
    moreover have "unat (m_timeout_steps e) < timer_steps (ev # evs) \<longrightarrow> waits k s' = None"
      using ih first Some by (simp add: timer_steps_def split: if_splits)
    ultimately show ?thesis by blast
  qed
qed

text \<open>
  C13: every call a session accepts comes to run its own callback exactly once. Whatever
  happens to the session (replies, also repeated or unknown ones, transports that come and go,
  timer steps, the loss of the session), a call has run its callback at most once, and only
  the one it was given; and once more timer steps have passed than the call was given, it has
  run it exactly once.
\<close>

theorem call_answered_exactly_once:
  assumes "session_run (before @ Ev_call m cb steps # later) session_new = (s, acts)"
    and "length (called (before @ Ev_call m cb steps # later)) < 2 ^ 32"
    and "k = of_nat (Suc (length (called before)))"
  shows "runs k acts \<le> 1 \<and> (\<forall>cb' r x. Run_callback k cb' r x \<in> set acts \<longrightarrow> cb' = cb) \<and>
    (unat steps < timer_steps later \<longrightarrow> runs k acts = 1)"
proof -
  let ?n = "length (called before)"
  have len: "length (called (before @ Ev_call m cb steps # later)) = Suc (?n + length (called later))"
    by (simp add: called_append)
  have n: "?n < 2 ^ 32" "Suc ?n < 2 ^ 32" "Suc ?n + length (called later) < 2 ^ 32"
    using assms(2) unfolding len by simp_all
  obtain s1 a1 where r1: "session_run before session_new = (s1, a1)" by fastforce
  obtain s2 a2 where r2: "session_call m cb steps s1 = (s2, a2)" by fastforce
  obtain a3 where r3: "session_run later s2 = (s, a3)" and acts: "acts = a1 @ a2 @ a3"
    using assms(1) r1 r2 by (auto simp: session_run_append split: prod.splits)
  have k: "unat k = Suc ?n" using next_id [OF n(2), of k] assms(3) by (simp add: add.commute)
  have c1: "after_calls ?n s1" "runs k a1 = 0" "waits k s1 = None"
    using session_run_conserves [OF after_calls_new r1, of k] n(1) k
    by (auto simp: waits_def session_new_def cbt.new_law split: if_splits)
  note c2 = after_calls_event(1) [OF c1(1), of "Ev_call m cb steps" s2 a2]
  have s2: "after_calls (Suc ?n) s2" using c2 r2 n(2) by simp
  have ok: "table_ok (m_cbtable s1)" using c1(1) by (simp add: after_calls_def)
  have call: "runs k a2 = 0" "\<forall>cb r x. Run_callback k cb r x \<notin> set a2"
    "waits k s2 = Some \<lparr>m_timeout_steps = steps, m_callback = cb\<rparr>"
    using event_call [OF ok r2, of k] next_id [OF n(2), of k] k c1(1) by (auto simp: after_calls_def)
  note con = session_run_conserves [OF s2 r3 n(3), of k] and wait = session_run_waiting [OF s2 r3 n(3) call(3)]
  have total: "runs k acts + (if waits k s = None then 0 else 1) = 1"
    using con call(3) k c1(2) call(1) by (simp add: acts)
  moreover have "Run_callback k cb' r x \<notin> set a1" for cb' r x
    using runs_pos [of k cb' r x a1] c1(2) by auto
  ultimately show ?thesis
    using wait call(2) by (auto simp: acts split: if_splits)
qed

theorem call_answered_exactly_once_witness:
  "runs 1 (snd (session_run [Ev_call ''Get'' ''cb'' 1, Ev_step, Ev_step, Ev_response 1 V_nil V_nil] session_new)) = 1"
proof -
  let ?evs = "[Ev_step, Ev_step, Ev_response 1 V_nil V_nil] :: (string, string) session_event list"
  have "length (called ([] @ Ev_call ''Get'' ''cb'' 1 # ?evs)) < 2 ^ 32" "unat (1 :: u16) < timer_steps ?evs"
    by (simp_all add: timer_steps_def)
  with call_answered_exactly_once [OF prod.collapse [symmetric], of "[]" "''Get''" "''cb''" 1 ?evs 1] show ?thesis by simp
qed

section \<open>The order of the requests\<close>

definition sent :: "('cb, 'm) session_action list \<Rightarrow> (u32 \<times> 'm) list" where
  "sent acts = List.map_filter (\<lambda>a. case a of Send t m x \<Rightarrow> Some (m, x) | _ \<Rightarrow> None) acts"

lemma sent_simps [simp]:
  "sent [] = []"
  "sent (Send t m x # acts) = (m, x) # sent acts"
  "sent (Run_callback k cb r e # acts) = sent acts"
  "sent (Transport_lost_notify # acts) = sent acts"
  by (simp_all add: sent_def map_filter_simps)

lemma sent_append [simp]: "sent (xs @ ys) = sent xs @ sent ys"
proof (induction xs)
  case (Cons a xs)
  then show ?case by (cases a) simp_all
qed simp

lemma sent_run_all [simp]: "sent (run_all err cbs) = []"
  by (induction cbs) (auto simp: run_all_def)

lemma sent_flush [simp]: "sent (map (\<lambda>(m, x). Send t m x) ps) = ps"
  by (induction ps) auto

primrec numbered :: "u32 \<Rightarrow> 'm list \<Rightarrow> (u32 \<times> 'm) list" where
  "numbered k [] = []"
| "numbered k (m # ms) = (k + 1, m) # numbered (k + 1) ms"

definition queue_ok :: "('cb, 'm) session \<Rightarrow> bool" where
  "queue_ok s \<longleftrightarrow> \<not> m_lost s \<and> (m_binds s \<noteq> [] \<longrightarrow> m_pending_queue s = [])"

lemma queue_event:
  assumes "queue_ok s" and "session_apply ev s = (s', acts)" and "\<nexists>err. ev = Ev_lost err"
  shows "queue_ok s' \<and> m_msgid_rr s' = m_msgid_rr s + of_nat (length (called [ev])) \<and>
    sent acts @ m_pending_queue s' = m_pending_queue s @ numbered (m_msgid_rr s) (map fst (called [ev]))"
  using assms
  by (cases ev)
    (auto simp: queue_ok_def session_call_def register_call_def process_response_def step_timeout_def
      bind_transport_def basic_bind_transport_def unbind_transport_def shutdown_def revive_def Let_def
      split: if_splits prod.splits option.splits)

lemma numbered_append: "numbered k (xs @ ys) = numbered k xs @ numbered (k + of_nat (length xs)) ys"
  by (induction xs arbitrary: k) (simp_all add: add.assoc)

lemma queue_run:
  assumes "queue_ok s" and "session_run evs s = (s', acts)" and "\<forall>err. Ev_lost err \<notin> set evs"
  shows "queue_ok s' \<and> sent acts @ m_pending_queue s' = m_pending_queue s @ numbered (m_msgid_rr s) (map fst (called evs))"
  using assms
proof (induction evs arbitrary: s s' acts)
  case (Cons ev evs)
  obtain s1 a1 where ev: "session_apply ev s = (s1, a1)" by fastforce
  obtain a2 where rest: "session_run evs s1 = (s', a2)" and acts: "acts = a1 @ a2"
    using Cons.prems(2) ev by (auto split: prod.splits)
  have no: "\<nexists>err. ev = Ev_lost err" "\<forall>err. Ev_lost err \<notin> set evs" using Cons.prems(3) by auto
  note e = queue_event [OF Cons.prems(1) ev no(1)]
  have cons: "called (ev # evs) = called [ev] @ called evs" by simp
  from Cons.IH [OF _ rest no(2)] e
  have "queue_ok s'" and q: "sent a2 @ m_pending_queue s' = m_pending_queue s1 @ numbered (m_msgid_rr s1) (map fst (called evs))"
    by blast+
  moreover have "sent acts @ m_pending_queue s' = (sent a1 @ m_pending_queue s1) @ numbered (m_msgid_rr s1) (map fst (called evs))"
    using q by (simp add: acts)
  ultimately show ?case
    using e unfolding cons map_append numbered_append by simp
qed simp

text \<open>
  As long as a session is not lost, what it has sent followed by what waits for a transport
  is the sequence of its calls, numbered from one: no request is lost, repeated or overtaken,
  however its transports come and go; and requests wait only while it has no transport.
\<close>

theorem requests_sent_in_order:
  assumes "session_run evs session_new = (s, acts)" and "\<forall>err. Ev_lost err \<notin> set evs"
  shows "sent acts @ m_pending_queue s = numbered 0 (map fst (called evs)) \<and>
    (is_bound s \<longrightarrow> sent acts = numbered 0 (map fst (called evs)))"
proof -
  have "queue_ok session_new" by (simp add: queue_ok_def session_new_def)
  from queue_run [OF this assms] show ?thesis
    by (auto simp: queue_ok_def is_bound_def session_new_def)
qed

theorem requests_sent_in_order_witness:
  "sent (snd (session_run [Ev_call ''a'' ''x'' 9, Ev_call ''b'' ''y'' 9, Ev_bind 7] session_new)) = [(1, ''a''), (2, ''b'')]"
proof -
  let ?evs = "[Ev_call ''a'' ''x'' 9, Ev_call ''b'' ''y'' 9, Ev_bind 7] :: (string, string) session_event list"
  have "is_bound (fst (session_run ?evs session_new))"
    by (simp add: is_bound_def bind_transport_def basic_bind_transport_def case_prod_beta Let_def)
  with requests_sent_in_order [OF prod.collapse [symmetric], of ?evs] show ?thesis by simp
qed

end
