(* ===== verification/Cluster.thy ===== *)
theory Cluster
  imports Session
begin

text \<open>
  The network of processes as one of them sees it: the sessions by address
  (\<open>rpc/client_tmpl.h\<close>), nodes with a role and the first message of a connection
  (\<open>rpc/cluster.cc\<close>), the clients that are not nodes (\<open>rpc/server.cc\<close>), and the timer's
  list of delayed functions (\<open>logic/wavy_server.cc\<close>).

  Objects behind shared pointers live in stores: a weak pointer is a number, and locking it
  looks the number up. Connecting, writing and the delivery of events belong to the event
  loop; here they are actions, and what comes back are further operations.
\<close>

section \<open>State\<close>

text \<open>\<open>node\<close>; the role is a \<open>short\<close> that is -1 until it is set.\<close>

record 'cb rpc_node =
  n_addr :: address
  n_role :: int
  n_session :: "('cb, request) session"

type_synonym role = u8

definition ROLE_MANAGER :: role where "ROLE_MANAGER = 0"

definition ROLE_SERVER :: role where "ROLE_SERVER = 1"

datatype process_state = Not_initialised | Subsys_state | Cluster_state

datatype session_ref = Ref_node nat | Ref_peer nat

record rpc_transport =
  t_session :: "session_ref option"
  t_process_state :: process_state

text \<open>
  \<open>cl_sessions\<close> is the multimap from addresses to weak nodes, \<open>cl_peers\<close> the map of the
  subsystem's weak sessions.
\<close>

record 'cb cluster =
  cl_self_id :: role
  cl_self_addr :: address
  cl_connect_retry_limit :: u16
  cl_sessions :: "(address \<times> nat) list"
  cl_nodes :: "nat \<Rightarrow> 'cb rpc_node option"
  cl_next :: nat
  cl_peers :: "nat list"
  cl_peer_sessions :: "nat \<Rightarrow> ('cb, request) session option"
  cl_next_peer :: nat
  cl_transports :: "nat \<Rightarrow> rpc_transport option"

datatype 'cb cluster_action =
    Connect address nat
  | Send_init nat address role
  | New_node address role nat
  | Lost_node address role
  | Node_action nat "('cb, request) session_action"
  | Peer_action nat "('cb, request) session_action"

type_synonym 'cb cluster_out = "'cb cluster \<times> 'cb cluster_action list"

section \<open>Nodes\<close>

definition node_new :: "'cb rpc_node" where
  "node_new = \<lparr>n_addr = address_nil, n_role = -1, n_session = session_new\<rparr>"

definition is_role_set :: "'cb rpc_node \<Rightarrow> bool" where
  "is_role_set n \<longleftrightarrow> 0 \<le> n_role n"

definition node_role :: "'cb rpc_node \<Rightarrow> role" where
  "node_role n = word_of_int (n_role n)"

definition set_role :: "role \<Rightarrow> 'cb rpc_node \<Rightarrow> bool \<times> 'cb rpc_node" where
  "set_role r n = (if n_role n = -1 then (True, n\<lparr>n_role := uint r\<rparr>) else (False, n))"

definition session_is_active :: "'cb rpc_node option \<Rightarrow> bool" where
  "session_is_active n = (case n of None \<Rightarrow> False | Some n' \<Rightarrow> \<not> m_lost (n_session n'))"

definition put_node :: "nat \<Rightarrow> 'cb rpc_node \<Rightarrow> 'cb cluster \<Rightarrow> 'cb cluster" where
  "put_node i n cl = cl\<lparr>cl_nodes := (cl_nodes cl)(i \<mapsto> n)\<rparr>"

text \<open>Running an operation of the session of a node.\<close>

definition on_session ::
    "nat \<Rightarrow> (('cb, request) session \<Rightarrow> ('cb, request) session \<times> ('cb, request) session_action list) \<Rightarrow>
     'cb cluster \<Rightarrow> 'cb cluster_out" where
  "on_session i f cl =
     (case cl_nodes cl i of
        None \<Rightarrow> (cl, [])
      | Some n \<Rightarrow> (let (s, acts) = f (n_session n) in (put_node i (n\<lparr>n_session := s\<rparr>) cl, map (Node_action i) acts)))"

section \<open>Sessions by address\<close>

text \<open>The first live session in the range of an address.\<close>

definition find_session :: "address \<Rightarrow> 'cb cluster \<Rightarrow> nat option" where
  "find_session addr cl =
     map_option snd (find (\<lambda>(a, i). a = addr \<and> session_is_active (cl_nodes cl i)) (cl_sessions cl))"

text \<open>\<open>multimap::insert\<close>: behind the entries with the same key.\<close>

definition sessions_insert :: "address \<Rightarrow> nat \<Rightarrow> (address \<times> nat) list \<Rightarrow> (address \<times> nat) list" where
  "sessions_insert addr i ss =
     takeWhile (\<lambda>x. fst x \<le> addr) ss @ (addr, i) # dropWhile (\<lambda>x. fst x \<le> addr) ss"

definition async_connect :: "address \<Rightarrow> nat \<Rightarrow> 'cb cluster \<Rightarrow> bool \<times> 'cb cluster_out" where
  "async_connect addr i cl =
     (case cl_nodes cl i of
        None \<Rightarrow> (False, cl, [])
      | Some n \<Rightarrow>
          if \<not> m_lost (n_session n) \<and> is_bound (n_session n) then (False, cl, [])
          else (True, put_node i (n\<lparr>n_session := snd (increment_connect_retried_count (n_session n))\<rparr>) cl, [Connect addr i]))"

definition get_session_impl :: "bool \<Rightarrow> address \<Rightarrow> 'cb cluster \<Rightarrow> nat \<times> 'cb cluster_out" where
  "get_session_impl connect addr cl =
     (case find_session addr cl of
        Some i \<Rightarrow> (i, cl, [])
      | None \<Rightarrow>
          (let i = cl_next cl;
               cl1 = cl\<lparr>cl_sessions := sessions_insert addr i (filter (\<lambda>x. fst x \<noteq> addr) (cl_sessions cl)),
                        cl_nodes := (cl_nodes cl)(i \<mapsto> node_new), cl_next := Suc i\<rparr>
           in if connect then (i, snd (async_connect addr i cl1)) else (i, cl1, [])))"

definition get_session :: "address \<Rightarrow> 'cb cluster \<Rightarrow> nat \<times> 'cb cluster_out" where
  "get_session addr cl = get_session_impl True addr cl"

definition create_session :: "address \<Rightarrow> 'cb cluster \<Rightarrow> nat \<times> 'cb cluster_out" where
  "create_session addr cl = get_session_impl False addr cl"

definition get_node :: "address \<Rightarrow> 'cb cluster \<Rightarrow> nat \<times> 'cb cluster_out" where
  "get_node addr cl =
     (let (i, cl1, acts) = get_session addr cl
      in case cl_nodes cl1 i of
           None \<Rightarrow> (i, cl1, acts)
         | Some n \<Rightarrow> (i, if \<not> connectable (n_addr n) then put_node i (n\<lparr>n_addr := addr\<rparr>) cl1 else cl1, acts))"

text \<open>The live nodes of a role, in the order of their addresses.\<close>

definition for_each_node :: "role \<Rightarrow> 'cb cluster \<Rightarrow> (nat \<times> 'cb rpc_node) list" where
  "for_each_node r cl =
     List.map_filter (\<lambda>(a, i). case cl_nodes cl i of
         None \<Rightarrow> None
       | Some n \<Rightarrow> if \<not> m_lost (n_session n) \<and> node_role n = r then Some (i, n) else None) (cl_sessions cl)"

definition for_each_peer :: "'cb cluster \<Rightarrow> nat list" where
  "for_each_peer cl =
     filter (\<lambda>i. case cl_peer_sessions cl i of None \<Rightarrow> False | Some s \<Rightarrow> \<not> m_lost s) (cl_peers cl)"

section \<open>Losing a transport\<close>

definition client_transport_lost :: "nat \<Rightarrow> 'cb cluster \<Rightarrow> 'cb cluster_out" where
  "client_transport_lost i cl = on_session i (force_lost NODE_LOST_ERROR) cl"

definition transport_lost :: "nat \<Rightarrow> 'cb cluster \<Rightarrow> 'cb cluster_out" where
  "transport_lost i cl =
     (case cl_nodes cl i of
        None \<Rightarrow> (cl, [])
      | Some n \<Rightarrow>
          if cl_connect_retry_limit cl < m_connect_retried_count (n_session n) then
            (let (cl1, acts) = client_transport_lost i cl
             in (cl1, acts @ (if is_role_set n then [Lost_node (n_addr n) (node_role n)] else [])))
          else if connectable (n_addr n) then snd (async_connect (n_addr n) i cl)
          else client_transport_lost i cl)"

definition peer_lost_notify :: "nat \<Rightarrow> 'cb cluster \<Rightarrow> 'cb cluster_out" where
  "peer_lost_notify i cl =
     (case cl_peer_sessions cl i of
        None \<Rightarrow> (cl\<lparr>cl_peers := filter (\<lambda>j. j \<noteq> i) (cl_peers cl)\<rparr>, [])
      | Some s \<Rightarrow>
          (let (s', acts) = force_lost NODE_LOST_ERROR s
           in (cl\<lparr>cl_peers := filter (\<lambda>j. j \<noteq> i) (cl_peers cl), cl_peer_sessions := (cl_peer_sessions cl)(i \<mapsto> s')\<rparr>,
               map (Peer_action i) acts)))"

definition transport_lost_notify :: "session_ref \<Rightarrow> 'cb cluster \<Rightarrow> 'cb cluster_out" where
  "transport_lost_notify r cl = (case r of Ref_node i \<Rightarrow> transport_lost i cl | Ref_peer i \<Rightarrow> peer_lost_notify i cl)"

section \<open>Transports\<close>

text \<open>
  \<open>bind_transport\<close> on the session a transport belongs to. A node's session sends its
  pending requests; the session of a client keeps none.
\<close>

definition bind_session :: "session_ref \<Rightarrow> nat \<Rightarrow> 'cb cluster \<Rightarrow> 'cb cluster_out" where
  "bind_session r t cl =
     (case r of
        Ref_node i \<Rightarrow> on_session i (\<lambda>s. snd (bind_transport t s)) cl
      | Ref_peer i \<Rightarrow>
          (case cl_peer_sessions cl i of
             None \<Rightarrow> (cl, [])
           | Some s \<Rightarrow> (cl\<lparr>cl_peer_sessions := (cl_peer_sessions cl)(i \<mapsto> snd (basic_bind_transport t s))\<rparr>, [])))"

definition send_init :: "nat \<Rightarrow> 'cb cluster \<Rightarrow> 'cb cluster_action list" where
  "send_init t cl = [Send_init t (cl_self_addr cl) (cl_self_id cl)]"

text \<open>The two constructors of \<open>cluster_transport\<close>: for a connection made, and for one accepted.\<close>

definition transport_connected :: "nat \<Rightarrow> nat \<Rightarrow> 'cb cluster \<Rightarrow> 'cb cluster_out" where
  "transport_connected t i cl =
     (let cl1 = cl\<lparr>cl_transports := (cl_transports cl)(t \<mapsto> \<lparr>t_session = Some (Ref_node i), t_process_state = Not_initialised\<rparr>)\<rparr>;
          (cl2, acts) = bind_session (Ref_node i) t cl1
      in (cl2, send_init t cl1 @ acts))"

definition transport_accepted :: "nat \<Rightarrow> 'cb cluster \<Rightarrow> 'cb cluster_out" where
  "transport_accepted t cl =
     (cl\<lparr>cl_transports := (cl_transports cl)(t \<mapsto> \<lparr>t_session = None, t_process_state = Not_initialised\<rparr>)\<rparr>, [])"

definition connect_callback :: "address \<Rightarrow> nat \<Rightarrow> nat option \<Rightarrow> 'cb cluster \<Rightarrow> 'cb cluster_out" where
  "connect_callback addr i fd cl =
     (case fd of
        Some t \<Rightarrow> transport_connected t i cl
      | None \<Rightarrow>
          (case cl_nodes cl i of
             None \<Rightarrow> (cl, [])
           | Some n \<Rightarrow>
               if cl_connect_retry_limit cl < m_connect_retried_count (n_session n) then transport_lost i cl
               else snd (async_connect addr i cl)))"

definition add_peer_session :: "'cb cluster \<Rightarrow> nat \<times> 'cb cluster" where
  "add_peer_session cl =
     (let i = cl_next_peer cl
      in (i, cl\<lparr>cl_peers := cl_peers cl @ [i], cl_peer_sessions := (cl_peer_sessions cl)(i \<mapsto> session_new), cl_next_peer := Suc i\<rparr>))"

text \<open>\<open>rebind\<close> in \<open>init_message\<close>, where the transport has no session yet.\<close>

definition rebind :: "session_ref \<Rightarrow> nat \<Rightarrow> rpc_transport \<Rightarrow> 'cb cluster \<Rightarrow> 'cb cluster_out" where
  "rebind r t tr cl =
     bind_session r t (cl\<lparr>cl_transports := (cl_transports cl)(t \<mapsto> tr\<lparr>t_session := Some r\<rparr>)\<rparr>)"

definition set_process_state :: "nat \<Rightarrow> process_state \<Rightarrow> 'cb cluster \<Rightarrow> 'cb cluster" where
  "set_process_state t ps cl =
     cl\<lparr>cl_transports := (cl_transports cl)(t := map_option (t_process_state_update (\<lambda>_. ps)) (cl_transports cl t))\<rparr>"

text \<open>
  The first message of a connection: an introduction (an address and a role), or anything else,
  which makes it the connection of a client.
\<close>

definition init_subsys :: "nat \<Rightarrow> rpc_transport \<Rightarrow> 'cb cluster \<Rightarrow> kerror option \<times> 'cb cluster_out" where
  "init_subsys t tr cl =
     (if t_session tr \<noteq> None then (Some Type_error, cl, [])
      else let (i, cl1) = add_peer_session cl; (cl2, acts) = rebind (Ref_peer i) t tr cl1
           in (None, set_process_state t Subsys_state cl2, acts))"

definition introduce :: "nat \<Rightarrow> address \<Rightarrow> role \<Rightarrow> 'cb cluster \<Rightarrow> 'cb cluster_out" where
  "introduce i addr r cl =
     (case cl_nodes cl i of
        None \<Rightarrow> (cl, [])
      | Some n \<Rightarrow>
          (let (first, n1) = set_role r n
           in if first then (put_node i (n1\<lparr>n_addr := addr\<rparr>) cl, [New_node addr r i]) else (cl, [])))"

definition init_cluster ::
    "nat \<Rightarrow> rpc_transport \<Rightarrow> address \<Rightarrow> role \<Rightarrow> 'cb cluster \<Rightarrow> kerror option \<times> 'cb cluster_out" where
  "init_cluster t tr addr r cl =
     (case t_session tr of
        None \<Rightarrow>
          if \<not> connectable addr then (Some (Runtime_error ''invalid address''), cl, [])
          else let (i, cl1, a1) = create_session addr cl;
                   (cl2, a2) = rebind (Ref_node i) t tr cl1;
                   (cl3, a3) = introduce i addr r cl2
               in (None, set_process_state t Cluster_state cl3, send_init t cl @ a1 @ a2 @ a3)
      | Some (Ref_node i) \<Rightarrow>
          (let (cl1, acts) = introduce i addr r cl in (None, set_process_state t Cluster_state cl1, acts))
      | Some (Ref_peer i) \<Rightarrow> (Some Undefined_behaviour, cl, []))"

definition init_message ::
    "nat \<Rightarrow> (address \<times> role) option \<Rightarrow> 'cb cluster \<Rightarrow> kerror option \<times> 'cb cluster_out" where
  "init_message t msg cl =
     (case cl_transports cl t of
        None \<Rightarrow> (Some Undefined_behaviour, cl, [])
      | Some tr \<Rightarrow>
          (case msg of
             None \<Rightarrow> init_subsys t tr cl
           | Some (addr, r) \<Rightarrow> init_cluster t tr addr r cl))"

text \<open>The end of a transport: its destructor unbinds it.\<close>

definition transport_closed :: "nat \<Rightarrow> 'cb cluster \<Rightarrow> 'cb cluster_out" where
  "transport_closed t cl =
     (case cl_transports cl t of
        None \<Rightarrow> (cl, [])
      | Some tr \<Rightarrow>
          (let cl1 = cl\<lparr>cl_transports := (cl_transports cl)(t := None)\<rparr>
           in case t_session tr of
                None \<Rightarrow> (cl1, [])
              | Some (Ref_node i) \<Rightarrow> on_session i (\<lambda>s. snd (unbind_transport t s)) cl1
              | Some (Ref_peer i) \<Rightarrow>
                  (case cl_peer_sessions cl1 i of
                     None \<Rightarrow> (cl1, [])
                   | Some s \<Rightarrow>
                       (let (s', acts) = snd (unbind_transport t s)
                        in (cl1\<lparr>cl_peer_sessions := (cl_peer_sessions cl1)(i \<mapsto> s')\<rparr>, map (Peer_action i) acts)))))"

text \<open>Dropping the entries of dead sessions; the live ones are stepped.\<close>

definition cluster_step_timeout :: "'cb cluster \<Rightarrow> nat list \<times> 'cb cluster" where
  "cluster_step_timeout cl =
     (let alive = filter (\<lambda>x. session_is_active (cl_nodes cl (snd x))) (cl_sessions cl)
      in (map snd alive, cl\<lparr>cl_sessions := alive\<rparr>))"

definition peers_step_timeout :: "'cb cluster \<Rightarrow> nat list \<times> 'cb cluster" where
  "peers_step_timeout cl = (let alive = for_each_peer cl in (alive, cl\<lparr>cl_peers := alive\<rparr>))"

section \<open>Delayed functions\<close>

type_synonym 'f do_after_list = "(u32 \<times> 'f) list"

definition do_after :: "u32 \<Rightarrow> 'f \<Rightarrow> 'f do_after_list \<Rightarrow> 'f do_after_list" where
  "do_after steps f q = q @ [(steps, f)]"

definition step_do_after :: "'f do_after_list \<Rightarrow> 'f list \<times> 'f do_after_list" where
  "step_do_after q =
     (map snd (filter (\<lambda>x. fst x = 0) q), map (\<lambda>x. (fst x - 1, snd x)) (filter (\<lambda>x. fst x \<noteq> 0) q))"

end
