(* ===== verification/Manager.thy ===== *)
theory Manager
  imports Cluster
begin

text \<open>
  The manager (\<open>logic/manager\<close>): the process that owns the two rings, follows which servers
  are alive, spreads the rings to servers, gateways and its partner manager, and drives the
  replacement of records after the ring has changed. The groups below are its modules
  \<open>mod_network.cc\<close>, \<open>mod_replace.cc\<close> and \<open>mod_control.cc\<close>, and its dispatch \<open>framework.cc\<close>.
\<close>

section \<open>State\<close>

text \<open>\<open>mod_replace_t::progress\<close>.\<close>

record progress =
  p_remainder :: "address list"
  p_target_nodes :: "address list"
  p_clocktime :: clocktime

datatype manager_cb =
    Cb_HashSpaceSync
  | Cb_HashSpacePush
  | Cb_MKeepAlive
  | Cb_ReplaceElection
  | Cb_ReplaceCopyStart
  | Cb_ReplaceDeleteStart
  | Cb_CreateBackup

text \<open>
  \<open>resource\<close> and the modules' members. \<open>mg_new_servers\<close> holds weak nodes; the delayed
  functions of the timer are calls of \<open>cas_checked_replace_election\<close>, given by their argument.
\<close>

record manager =
  mg_addr :: address
  mg_clock :: clock_logic
  mg_rhs :: hashspace
  mg_whs :: hashspace
  mg_new_servers :: "nat list"
  mg_partner :: address
  mg_auto_replace :: bool
  mg_replace_delay_seconds :: u16
  mg_delayed_replace_cas :: u32
  mg_copying :: progress
  mg_deleting :: progress
  mg_do_after :: "u32 do_after_list"
  mg_cluster :: "manager_cb cluster"

type_synonym manager_action = "(manager_cb, unit) action"

type_synonym manager_eff = "manager \<times> manager_action list"

type_synonym manager_out = "kerror option \<times> manager_eff"

definition and_then :: "manager_eff \<Rightarrow> (manager \<Rightarrow> manager_eff) \<Rightarrow> manager_eff" where
  "and_then e f = (let (m, a) = e; (m', a') = f m in (m', a @ a'))"

definition mg_clock_incr :: "manager \<Rightarrow> u32 \<times> manager" where
  "mg_clock_incr m = (let (c, clk) = clock_incr (mg_clock m) in (c, m\<lparr>mg_clock := clk\<rparr>))"

definition mg_clock_incr_clocktime :: "manager \<Rightarrow> clocktime \<times> manager" where
  "mg_clock_incr_clocktime m = (let (ct, clk) = clock_incr_clocktime (mg_clock m) in (ct, m\<lparr>mg_clock := clk\<rparr>))"

definition mg_adjust_clock :: "u32 \<Rightarrow> manager \<Rightarrow> manager" where
  "mg_adjust_clock c m = m\<lparr>mg_clock := clock_update c (mg_clock m)\<rparr>"

text \<open>\<open>weak_node::lock\<close>, and the address of a node that is still there.\<close>

definition lock :: "manager \<Rightarrow> nat \<Rightarrow> manager_cb rpc_node option" where
  "lock m i = cl_nodes (mg_cluster m) i"

definition new_server_addrs :: "manager \<Rightarrow> address list" where
  "new_server_addrs m = map n_addr (List.map_filter (lock m) (mg_new_servers m))"

section \<open>Spreading the rings\<close>

definition mg_KeepAlive :: "responder \<Rightarrow> u32 \<Rightarrow> manager \<Rightarrow> manager_out" where
  "mg_KeepAlive rid c m = (None, mg_adjust_clock c m, [Respond rid V_nil])"

definition mg_HashSpaceRequest :: "responder \<Rightarrow> manager \<Rightarrow> manager_out" where
  "mg_HashSpaceRequest rid m = (None, m, [Respond rid (V_seeds (seed_of (mg_whs m)) (seed_of (mg_rhs m)))])"

definition mg_WHashSpaceRequest :: "responder \<Rightarrow> manager \<Rightarrow> manager_out" where
  "mg_WHashSpaceRequest rid m = (None, m, [Respond rid (V_seed (seed_of (mg_whs m)))])"

definition mg_RHashSpaceRequest :: "responder \<Rightarrow> manager \<Rightarrow> manager_out" where
  "mg_RHashSpaceRequest rid m = (None, m, [Respond rid (V_seed (seed_of (mg_rhs m)))])"

text \<open>\<open>for_each_node(ROLE_SERVER, for_each_call(...))\<close>.\<close>

definition call_servers :: "server_request \<Rightarrow> manager_cb \<Rightarrow> manager \<Rightarrow> manager_action list" where
  "call_servers req cb m =
     map (\<lambda>(i, n). Call_node i (To_server req) cb 10) (for_each_node ROLE_SERVER (mg_cluster m))"

definition sync_hash_space_servers :: "manager \<Rightarrow> manager_eff" where
  "sync_hash_space_servers m =
     (let (c, m1) = mg_clock_incr m
      in (m1, call_servers (S_HashSpaceSync (seed_of (mg_whs m)) (seed_of (mg_rhs m)) c) Cb_HashSpaceSync m1))"

definition sync_hash_space_partner :: "manager \<Rightarrow> manager_eff" where
  "sync_hash_space_partner m =
     (if \<not> connectable (mg_partner m) then (m, [])
      else let (c, m1) = mg_clock_incr m
           in (m1, [Call (mg_partner m)
                (To_manager (M_HashSpaceSync (seed_of (mg_whs m)) (seed_of (mg_rhs m)) c)) Cb_HashSpaceSync 10]))"

definition push_hash_space_clients :: "manager \<Rightarrow> manager_eff" where
  "push_hash_space_clients m =
     (m, map (\<lambda>i. Call_peer i (To_gateway (G_HashSpacePush (seed_of (mg_whs m)) (seed_of (mg_rhs m)))) Cb_HashSpacePush 10)
           (for_each_peer (mg_cluster m)))"

text \<open>The erasing loops over \<open>new_servers\<close>.\<close>

definition erase_new_servers :: "(address \<Rightarrow> bool) \<Rightarrow> manager \<Rightarrow> manager" where
  "erase_new_servers gone m =
     m\<lparr>mg_new_servers := filter (\<lambda>i. case lock m i of None \<Rightarrow> False | Some n \<Rightarrow> \<not> gone (n_addr n)) (mg_new_servers m)\<rparr>"

definition mg_HashSpaceSync ::
    "platform \<Rightarrow> address \<Rightarrow> responder \<Rightarrow> seed \<Rightarrow> seed \<Rightarrow> u32 \<Rightarrow> manager \<Rightarrow> manager_out" where
  "mg_HashSpaceSync p frm rid ws rs c m =
     (if frm \<noteq> mg_partner m then (Some (Runtime_error ''unknown partner node''), m, [])
      else let m1 = mg_adjust_clock c m;
               wnew = (\<not> seed_empty ws \<and> (hs_empty (mg_whs m1) \<or> ct_le (m_timestamp (mg_whs m1)) (seed_clocktime ws)));
               m2 = (if wnew then m1\<lparr>mg_whs := hashspace_of_seed p ws\<rparr> else m1);
               rnew = (\<not> seed_empty rs \<and> (hs_empty (mg_rhs m2) \<or> ct_le (m_timestamp (mg_rhs m2)) (seed_clocktime rs)));
               m3 = (if rnew then m2\<lparr>mg_rhs := hashspace_of_seed p rs\<rparr> else m2)
           in (None, erase_new_servers (server_is_active (mg_whs m3)) m3,
               [Respond rid (if wnew \<or> rnew then V_bool True else V_nil)]))"

definition mg_keep_alive :: "manager \<Rightarrow> manager_eff" where
  "mg_keep_alive m =
     (let (c, m1) = mg_clock_incr m
      in (m1, call_servers (S_KeepAlive c) Cb_MKeepAlive m1 @
          map (\<lambda>i. Call_node i (To_server (S_KeepAlive c)) Cb_MKeepAlive 10)
            (filter (\<lambda>i. session_is_active (lock m1 i)) (mg_new_servers m1)) @
          (if connectable (mg_partner m1)
           then [Call (mg_partner m1) (To_server (S_KeepAlive c)) Cb_MKeepAlive 10] else [])))"

text \<open>The reply of \<open>KeepAlive\<close>: a node that keeps failing is shut down.\<close>

definition res_KeepAlive ::
    "nat \<Rightarrow> rvalue \<Rightarrow> manager \<Rightarrow> manager \<times> manager_cb cluster_action list" where
  "res_KeepAlive i err m =
     (case lock m i of
        None \<Rightarrow> (m, [])
      | Some n \<Rightarrow>
          if err = V_nil \<or> m_lost (n_session n) then (m, [])
          else let (cl, acts) =
                 on_session i (\<lambda>s. let (k, s') = increment_connect_retried_count s
                                   in if 5 < k then shutdown s' else (s', [])) (mg_cluster m)
               in (m\<lparr>mg_cluster := cl\<rparr>, acts))"

section \<open>Progress of a replacement\<close>

definition progress_new :: progress where
  "progress_new = \<lparr>p_remainder = [], p_target_nodes = [], p_clocktime = ClockTime 0\<rparr>"

definition progress_reset :: "clocktime \<Rightarrow> address list \<Rightarrow> progress \<Rightarrow> progress" where
  "progress_reset ct nodes pr = pr\<lparr>p_target_nodes := nodes, p_remainder := nodes, p_clocktime := ct\<rparr>"

definition progress_pop :: "clocktime \<Rightarrow> address \<Rightarrow> progress \<Rightarrow> bool \<times> progress" where
  "progress_pop ct a pr =
     (if p_clocktime pr \<noteq> ct then (False, pr)
      else if p_remainder pr = [] then (False, pr)
      else let r = filter (\<lambda>x. x \<noteq> a) (p_remainder pr) in (r = [], pr\<lparr>p_remainder := r\<rparr>))"

definition progress_invalidate :: "progress \<Rightarrow> address list \<times> progress" where
  "progress_invalidate pr =
     (p_target_nodes pr, pr\<lparr>p_clocktime := ClockTime 0, p_remainder := [], p_target_nodes := []\<rparr>)"

section \<open>Attaching, detaching and starting a replacement\<close>

definition attach_one :: "platform \<Rightarrow> clocktime \<Rightarrow> address \<Rightarrow> hashspace \<Rightarrow> hashspace" where
  "attach_one p ct a hs = (if server_is_include hs a then fst (recover_server ct a hs) else add_server p ct a hs)"

definition attach_new_servers :: "platform \<Rightarrow> manager \<Rightarrow> manager_eff" where
  "attach_new_servers p m =
     (let (ct, m1) = mg_clock_incr_clocktime m
      in sync_hash_space_partner
           (m1\<lparr>mg_whs := fold (attach_one p ct) (new_server_addrs m1) (mg_whs m1), mg_new_servers := []\<rparr>))"

definition detach_fault_servers :: "platform \<Rightarrow> manager \<Rightarrow> manager_eff" where
  "detach_fault_servers p m =
     (let (ct, m1) = mg_clock_incr_clocktime m
      in sync_hash_space_partner (m1\<lparr>mg_whs := fst (remove_fault_servers p ct (mg_whs m1))\<rparr>))"

definition start_replace :: "bool \<Rightarrow> manager \<Rightarrow> manager_eff" where
  "start_replace fu m =
     (let (c, m1) = mg_clock_incr m;
          targets = map (\<lambda>(i, n). n_addr n) (for_each_node ROLE_SERVER (mg_cluster m1));
          m2 = m1\<lparr>mg_copying := progress_reset (m_timestamp (mg_whs m)) targets (mg_copying m1),
                  mg_deleting := snd (progress_invalidate (mg_deleting m1))\<rparr>;
          calls = call_servers (S_ReplaceCopyStart (seed_of (mg_whs m)) c fu) Cb_ReplaceCopyStart m1
      in and_then (m2, calls) push_hash_space_clients)"

section \<open>Election\<close>

definition DO_AFTER_BY_SECONDS :: u32 where
  "DO_AFTER_BY_SECONDS = 2"

definition delayed_replace_election :: "manager \<Rightarrow> manager" where
  "delayed_replace_election m =
     (let cas = mg_delayed_replace_cas m + 1
      in m\<lparr>mg_delayed_replace_cas := cas,
           mg_do_after := do_after (scast (mg_replace_delay_seconds m) * DO_AFTER_BY_SECONDS) cas (mg_do_after m)\<rparr>)"

definition replace_election :: "platform \<Rightarrow> manager \<Rightarrow> manager_eff" where
  "replace_election p m =
     and_then (and_then (attach_new_servers p m) (detach_fault_servers p))
       (\<lambda>m. if connectable (mg_partner m) \<and> mg_partner m < mg_addr m
             then let (c, m1) = mg_clock_incr m
                  in (m1, [Call (mg_partner m) (To_manager (M_ReplaceElection (seed_of (mg_whs m)) c)) Cb_ReplaceElection 10])
             else start_replace False m)"

definition cas_checked_replace_election :: "platform \<Rightarrow> u32 \<Rightarrow> manager \<Rightarrow> manager_eff" where
  "cas_checked_replace_election p cas m =
     (if mg_delayed_replace_cas m = cas then replace_election p m else (m, []))"

definition res_ReplaceElection :: "rvalue \<Rightarrow> rvalue \<Rightarrow> manager \<Rightarrow> manager_eff" where
  "res_ReplaceElection res err m = (if err \<noteq> V_nil \<or> res = V_nil then start_replace False m else (m, []))"

definition mg_ReplaceElection ::
    "platform \<Rightarrow> address \<Rightarrow> responder \<Rightarrow> seed \<Rightarrow> u32 \<Rightarrow> manager \<Rightarrow> manager_out" where
  "mg_ReplaceElection p frm rid sd c m =
     (if frm \<noteq> mg_partner m then (Some (Runtime_error ''unknown partner node''), m, [])
      else let m1 = mg_adjust_clock c m
           in if seed_empty sd \<or> ct_less (seed_clocktime sd) (m_timestamp (mg_whs m1)) then
                (None, m1, [Respond rid (V_bool True)])
              else if ct_less (m_timestamp (mg_whs m1)) (seed_clocktime sd) \<or> hashspace_eq_seed (mg_whs m1) sd then
                (None, m1, [])
              else if mg_partner m1 < mg_addr m1 then (None, m1, [Respond rid V_nil])
              else (None, and_then (and_then (and_then (attach_new_servers p m1) (detach_fault_servers p)) (start_replace False))
                      (\<lambda>m. (m, [Respond rid (V_bool True)]))))"

section \<open>Servers that come and go\<close>

definition mg_add_server :: "address \<Rightarrow> nat \<Rightarrow> manager \<Rightarrow> manager" where
  "mg_add_server addr i m =
     (if \<not> server_is_active (mg_whs m) addr then
        (let m1 = m\<lparr>mg_new_servers := mg_new_servers m @ [i]\<rparr>
         in if mg_auto_replace m1 then delayed_replace_election m1 else m1)
      else m)"

definition mg_remove_server :: "address \<Rightarrow> manager \<Rightarrow> manager_eff" where
  "mg_remove_server addr m =
     (let (ct, m1) = mg_clock_incr_clocktime m;
          (whs, wfault) = fault_server ct addr (mg_whs m1);
          (rhs, rfault) = fault_server ct addr (mg_rhs m1);
          m2 = m1\<lparr>mg_whs := whs, mg_rhs := rhs\<rparr>;
          (m3, acts) = (if wfault \<or> rfault
                        then and_then (and_then (sync_hash_space_partner m2) sync_hash_space_servers) push_hash_space_clients
                        else (m2, []));
          m4 = erase_new_servers (\<lambda>a. a = addr) m3
      in (if mg_auto_replace m4 then delayed_replace_election m4
          else m4\<lparr>mg_copying := snd (progress_invalidate (mg_copying m4))\<rparr>, acts))"

section \<open>The phases of a replacement\<close>

definition mg_finish_replace_copy :: "manager \<Rightarrow> manager_eff" where
  "mg_finish_replace_copy m =
     (let replace_time = p_clocktime (mg_copying m);
          (targets, copying) = progress_invalidate (mg_copying m);
          (c, m1) = mg_clock_incr (m\<lparr>mg_copying := copying\<rparr>);
          calls = map (\<lambda>a. Call a (To_server (S_ReplaceDeleteStart (seed_of (mg_whs m)) c)) Cb_ReplaceDeleteStart 10) targets;
          m2 = m1\<lparr>mg_deleting := progress_reset replace_time targets (mg_deleting m1), mg_rhs := mg_whs m1\<rparr>
      in and_then (and_then (m2, calls) push_hash_space_clients) sync_hash_space_partner)"

definition mg_finish_replace :: "manager \<Rightarrow> manager" where
  "mg_finish_replace m = m\<lparr>mg_deleting := snd (progress_invalidate (mg_deleting m))\<rparr>"

definition mg_ReplaceCopyEnd :: "address \<Rightarrow> responder \<Rightarrow> clocktime \<Rightarrow> u32 \<Rightarrow> manager \<Rightarrow> manager_out" where
  "mg_ReplaceCopyEnd frm rid ct c m =
     (let m1 = mg_adjust_clock c m;
          (done, copying) = progress_pop ct frm (mg_copying m1);
          m2 = m1\<lparr>mg_copying := copying\<rparr>
      in (None, and_then (if done then mg_finish_replace_copy m2 else (m2, [])) (\<lambda>m. (m, [Respond rid (V_bool True)]))))"

definition mg_ReplaceDeleteEnd :: "address \<Rightarrow> responder \<Rightarrow> clocktime \<Rightarrow> u32 \<Rightarrow> manager \<Rightarrow> manager_out" where
  "mg_ReplaceDeleteEnd frm rid ct c m =
     (let m1 = mg_adjust_clock c m;
          (done, deleting) = progress_pop ct frm (mg_deleting m1);
          m2 = m1\<lparr>mg_deleting := deleting\<rparr>
      in (None, if done then mg_finish_replace m2 else m2, [Respond rid (V_bool True)]))"

section \<open>Control\<close>

definition mg_GetNodesInfo :: "responder \<Rightarrow> manager \<Rightarrow> manager_out" where
  "mg_GetNodesInfo rid m = (None, m, [Respond rid (V_status (seed_of (mg_whs m)) (new_server_addrs m))])"

definition mg_AttachNewServers :: "platform \<Rightarrow> responder \<Rightarrow> bool \<Rightarrow> manager \<Rightarrow> manager_out" where
  "mg_AttachNewServers p rid replace m =
     (None, and_then (and_then (attach_new_servers p m) (if replace then start_replace False else (\<lambda>m. (m, []))))
              (\<lambda>m. (m, [Respond rid V_nil])))"

definition mg_DetachFaultServers :: "platform \<Rightarrow> responder \<Rightarrow> bool \<Rightarrow> manager \<Rightarrow> manager_out" where
  "mg_DetachFaultServers p rid replace m =
     (None, and_then (and_then (detach_fault_servers p m) (if replace then start_replace False else (\<lambda>m. (m, []))))
              (\<lambda>m. (m, [Respond rid V_nil])))"

definition mg_CreateBackup :: "responder \<Rightarrow> string \<Rightarrow> manager \<Rightarrow> manager_out" where
  "mg_CreateBackup rid sfx m =
     (if sfx = [] then (None, m, [Respond_error rid (V_str ''empty suffix'')])
      else (None, m, call_servers (S_CreateBackup sfx) Cb_CreateBackup m @ [Respond rid V_nil]))"

text \<open>The first branches fall through to the answer at the end.\<close>

definition mg_SetAutoReplace :: "platform \<Rightarrow> responder \<Rightarrow> bool \<Rightarrow> manager \<Rightarrow> manager_out" where
  "mg_SetAutoReplace p rid enable m =
     (None, and_then
        (if mg_auto_replace m \<and> \<not> enable then (m\<lparr>mg_auto_replace := False\<rparr>, [Respond rid (V_bool False)])
         else if \<not> mg_auto_replace m \<and> enable then
           and_then (and_then (attach_new_servers p (m\<lparr>mg_auto_replace := True\<rparr>)) (detach_fault_servers p))
             (\<lambda>m. (m, [Respond rid (V_bool True)]))
         else (m, []))
        (\<lambda>m. (m, [Respond rid V_nil])))"

definition mg_StartReplace :: "responder \<Rightarrow> bool \<Rightarrow> manager \<Rightarrow> manager_out" where
  "mg_StartReplace rid fu m = (None, and_then (start_replace fu m) (\<lambda>m. (m, [Respond rid V_nil])))"

section \<open>Dispatch\<close>

definition mg_with_catch :: "responder \<Rightarrow> manager_out \<Rightarrow> manager_out" where
  "mg_with_catch rid out =
     (let (err, m, acts) = out
      in case err of None \<Rightarrow> out | Some e \<Rightarrow> (Some e, m, acts @ [dispatch_catch rid e]))"

definition mg_cluster_dispatch ::
    "platform \<Rightarrow> address \<Rightarrow> responder \<Rightarrow> manager_request \<Rightarrow> manager \<Rightarrow> manager_out" where
  "mg_cluster_dispatch p frm rid req m =
     mg_with_catch rid
       (case req of
          M_KeepAlive c \<Rightarrow> mg_KeepAlive rid c m
        | M_WHashSpaceRequest \<Rightarrow> mg_WHashSpaceRequest rid m
        | M_RHashSpaceRequest \<Rightarrow> mg_RHashSpaceRequest rid m
        | M_HashSpaceSync ws rs c \<Rightarrow> mg_HashSpaceSync p frm rid ws rs c m
        | M_ReplaceCopyEnd ct c \<Rightarrow> mg_ReplaceCopyEnd frm rid ct c m
        | M_ReplaceDeleteEnd ct c \<Rightarrow> mg_ReplaceDeleteEnd frm rid ct c m
        | M_ReplaceElection sd c \<Rightarrow> mg_ReplaceElection p frm rid sd c m
        | _ \<Rightarrow> (Some Unknown_method_error, m, []))"

definition mg_subsystem_dispatch :: "platform \<Rightarrow> responder \<Rightarrow> manager_request \<Rightarrow> manager \<Rightarrow> manager_out" where
  "mg_subsystem_dispatch p rid req m =
     mg_with_catch rid
       (case req of
          M_HashSpaceRequest \<Rightarrow> mg_HashSpaceRequest rid m
        | M_GetNodesInfo \<Rightarrow> mg_GetNodesInfo rid m
        | M_AttachNewServers replace \<Rightarrow> mg_AttachNewServers p rid replace m
        | M_DetachFaultServers replace \<Rightarrow> mg_DetachFaultServers p rid replace m
        | M_CreateBackup sfx \<Rightarrow> mg_CreateBackup rid sfx m
        | M_SetAutoReplace enable \<Rightarrow> mg_SetAutoReplace p rid enable m
        | M_StartReplace fu \<Rightarrow> mg_StartReplace rid fu m
        | _ \<Rightarrow> (Some Unknown_method_error, m, []))"

definition mg_new_node :: "address \<Rightarrow> role \<Rightarrow> nat \<Rightarrow> manager \<Rightarrow> manager_eff" where
  "mg_new_node addr r i m =
     (if r = ROLE_MANAGER then (if addr \<noteq> mg_partner m then (m, []) else sync_hash_space_partner m)
      else if r = ROLE_SERVER then (mg_add_server addr i m, [])
      else (m, []))"

definition mg_lost_node :: "address \<Rightarrow> role \<Rightarrow> manager \<Rightarrow> manager_eff" where
  "mg_lost_node addr r m =
     (if r = ROLE_MANAGER then (m, []) else if r = ROLE_SERVER then mg_remove_server addr m else (m, []))"

text \<open>The timer: the clock, then the delayed functions that are due.\<close>

definition mg_timer_handler :: "platform \<Rightarrow> u32 \<Rightarrow> manager \<Rightarrow> manager_eff" where
  "mg_timer_handler p now m =
     (let (fire, q) = step_do_after (mg_do_after m);
          m1 = m\<lparr>mg_clock := clock_update_time now (mg_clock m), mg_do_after := q\<rparr>
      in fold (\<lambda>cas e. and_then e (cas_checked_replace_election p cas)) fire (m1, []))"

section \<open>A manager as a state machine\<close>

text \<open>
  Everything that happens to a manager, as an event. The network may change under it at any
  time (\<open>Net\<close>), which is the business of the theory of the cluster.
\<close>

datatype manager_event =
    Req_cluster address responder manager_request
  | Req_subsystem responder manager_request
  | Reply_election rvalue rvalue
  | Reply_keep_alive nat rvalue
  | Node_new address role nat
  | Node_lost address role
  | Timer u32
  | Keep_alive
  | Net "manager_cb cluster"

fun manager_apply :: "platform \<Rightarrow> manager_event \<Rightarrow> manager \<Rightarrow> manager_eff" where
  "manager_apply p (Req_cluster frm rid req) m = snd (mg_cluster_dispatch p frm rid req m)"
| "manager_apply p (Req_subsystem rid req) m = snd (mg_subsystem_dispatch p rid req m)"
| "manager_apply p (Reply_election res err) m = res_ReplaceElection res err m"
| "manager_apply p (Reply_keep_alive i err) m = (fst (res_KeepAlive i err m), [])"
| "manager_apply p (Node_new addr r i) m = mg_new_node addr r i m"
| "manager_apply p (Node_lost addr r) m = mg_lost_node addr r m"
| "manager_apply p (Timer now) m = mg_timer_handler p now m"
| "manager_apply p Keep_alive m = mg_keep_alive m"
| "manager_apply p (Net cl) m = (m\<lparr>mg_cluster := cl\<rparr>, [])"

definition manager_new :: "address \<Rightarrow> address \<Rightarrow> bool \<Rightarrow> u16 \<Rightarrow> clock_logic \<Rightarrow> manager_cb cluster \<Rightarrow> manager" where
  "manager_new addr partner auto delay clk cl =
     \<lparr>mg_addr = addr, mg_clock = clk, mg_rhs = hashspace_new (ClockTime 0), mg_whs = hashspace_new (ClockTime 0),
      mg_new_servers = [], mg_partner = partner, mg_auto_replace = auto, mg_replace_delay_seconds = delay,
      mg_delayed_replace_cas = 0, mg_copying = progress_new, mg_deleting = progress_new, mg_do_after = [],
      mg_cluster = cl\<rparr>"

text \<open>The states of a manager with the events that led there.\<close>

inductive manager_reach :: "platform \<Rightarrow> manager \<Rightarrow> manager_event list \<Rightarrow> manager_action list \<Rightarrow> manager \<Rightarrow> bool"
  for p m0 where
  mreach_start: "manager_reach p m0 [] [] m0"
| mreach_step: "manager_reach p m0 evs acts m \<Longrightarrow> manager_apply p ev m = (m', acts') \<Longrightarrow>
    manager_reach p m0 (evs @ [ev]) (acts @ acts') m'"

end
