(* ===== verification/ClusterTheorems.thy ===== *)
theory ClusterTheorems
  imports Cluster SessionTheorems
begin

text \<open>
  The properties of the network layer: at most one live session per address, a node is
  introduced once, and only introduced nodes are reported lost.
\<close>

section \<open>Runs of a cluster\<close>

datatype 'cb cluster_event =
    CE_get address
  | CE_connected address nat "nat option"
  | CE_accepted nat
  | CE_init nat "(address \<times> role) option"
  | CE_closed nat
  | CE_lost session_ref
  | CE_step
  | CE_session nat "('cb, request) session_event"
  | CE_destroyed nat

text \<open>Nothing in the sources revives a lost session.\<close>

fun cluster_apply :: "'cb cluster_event \<Rightarrow> 'cb cluster \<Rightarrow> 'cb cluster_out" where
  "cluster_apply (CE_get addr) cl = snd (get_node addr cl)"
| "cluster_apply (CE_connected addr i fd) cl = connect_callback addr i fd cl"
| "cluster_apply (CE_accepted t) cl = transport_accepted t cl"
| "cluster_apply (CE_init t msg) cl = snd (init_message t msg cl)"
| "cluster_apply (CE_closed t) cl = transport_closed t cl"
| "cluster_apply (CE_lost r) cl = transport_lost_notify r cl"
| "cluster_apply CE_step cl = (snd (peers_step_timeout (snd (cluster_step_timeout cl))), [])"
| "cluster_apply (CE_session i ev) cl = (if ev = Ev_revive then (cl, []) else on_session i (session_apply ev) cl)"
| "cluster_apply (CE_destroyed i) cl =
     (fst (on_session i session_destroy cl)\<lparr>cl_nodes := (cl_nodes cl)(i := None)\<rparr>, snd (on_session i session_destroy cl))"

fun cluster_run :: "'cb cluster_event list \<Rightarrow> 'cb cluster \<Rightarrow> 'cb cluster_out" where
  "cluster_run [] cl = (cl, [])"
| "cluster_run (ev # evs) cl =
     (let (cl1, a1) = cluster_apply ev cl; (cl2, a2) = cluster_run evs cl1 in (cl2, a1 @ a2))"

definition cluster_new :: "role \<Rightarrow> address \<Rightarrow> u16 \<Rightarrow> 'cb cluster" where
  "cluster_new r addr limit = \<lparr>cl_self_id = r, cl_self_addr = addr, cl_connect_retry_limit = limit, cl_sessions = [],
     cl_nodes = Map.empty, cl_next = 0, cl_peers = [], cl_peer_sessions = Map.empty, cl_next_peer = 0, cl_transports = Map.empty\<rparr>"

section \<open>What an operation may do to the nodes\<close>

text \<open>
  \<open>nodes_kept\<close>: no node comes to life, a lost one stays lost, and a role once set stays.
  Adding the announcements: a role is set only with an announcement, of a node without one.
\<close>

definition announced :: "nat \<Rightarrow> 'cb cluster_action list \<Rightarrow> nat" where
  "announced i acts = length (filter (\<lambda>a. case a of New_node x r j \<Rightarrow> j = i | _ \<Rightarrow> False) acts)"

lemma announced_simps [simp]:
  "announced i [] = 0"
  "announced i (xs @ ys) = announced i xs + announced i ys"
  "announced i (Connect a j # acts) = announced i acts"
  "announced i (Send_init t a r # acts) = announced i acts"
  "announced i (New_node a r j # acts) = (if j = i then 1 else 0) + announced i acts"
  "announced i (Lost_node a r # acts) = announced i acts"
  "announced i (map (Node_action j) as) = 0"
  "announced i (map (Peer_action j) as) = 0"
  by (simp_all add: announced_def filter_empty_conv)

definition has_role :: "nat \<Rightarrow> 'cb cluster \<Rightarrow> bool" where
  "has_role i cl \<longleftrightarrow> (\<exists>n. cl_nodes cl i = Some n \<and> n_role n \<noteq> -1)"

definition cluster_inv :: "'cb cluster \<Rightarrow> bool" where
  "cluster_inv cl \<longleftrightarrow>
     (\<forall>i. cl_nodes cl i \<noteq> None \<longrightarrow> i < cl_next cl) \<and> (\<forall>a i. (a, i) \<in> set (cl_sessions cl) \<longrightarrow> i < cl_next cl) \<and>
     (\<forall>i n. cl_nodes cl i = Some n \<longrightarrow> n_role n = -1 \<or> (\<exists>r :: role. n_role n = uint r)) \<and>
     (\<forall>a i j. (a, i) \<in> set (cl_sessions cl) \<longrightarrow> (a, j) \<in> set (cl_sessions cl) \<longrightarrow>
        session_is_active (cl_nodes cl i) \<longrightarrow> session_is_active (cl_nodes cl j) \<longrightarrow> i = j)"

text \<open>
  One step, with its actions: the invariant; a node is introduced only if it has no role and
  is not gone; a node gets its role only by an introduction; only nodes with a role are lost.
\<close>

definition settled :: "nat \<Rightarrow> 'cb cluster \<Rightarrow> nat" where
  "settled i cl = (if has_role i cl \<or> (cl_nodes cl i = None \<and> i < cl_next cl) then 1 else 0)"

definition step_ok :: "'cb cluster \<Rightarrow> 'cb cluster_out \<Rightarrow> bool" where
  "step_ok cl out \<longleftrightarrow>
     (let (cl', acts) = out
      in cluster_inv cl' \<and>
         (\<forall>i. announced i acts + settled i cl \<le> settled i cl') \<and>
         (\<forall>i n'. cl_nodes cl' i = Some n' \<longrightarrow> n_role n' \<noteq> -1 \<longrightarrow>
            (\<exists>n. cl_nodes cl i = Some n \<and> n_role n = n_role n') \<or> (\<exists>a. New_node a (node_role n') i \<in> set acts)) \<and>
         (\<forall>a r. Lost_node a r \<in> set acts \<longrightarrow>
            (\<exists>i n. cl_nodes cl i = Some n \<and> n_role n \<noteq> -1 \<and> node_role n = r) \<or> (\<exists>a' i. New_node a' r i \<in> set acts)))"

lemma step_okD:
  assumes "step_ok cl (cl', acts)"
  shows "cluster_inv cl'" and "announced i acts + settled i cl \<le> settled i cl'"
    and "cl_nodes cl' i = Some n' \<Longrightarrow> n_role n' \<noteq> -1 \<Longrightarrow>
      (\<exists>n. cl_nodes cl i = Some n \<and> n_role n = n_role n') \<or> (\<exists>a. New_node a (node_role n') i \<in> set acts)"
    and "Lost_node a r \<in> set acts \<Longrightarrow>
      (\<exists>i n. cl_nodes cl i = Some n \<and> n_role n \<noteq> -1 \<and> node_role n = r) \<or> (\<exists>a' i. New_node a' r i \<in> set acts)"
  using assms by (simp_all add: step_ok_def)

lemma cluster_invD:
  assumes "cluster_inv cl"
  shows "cl_nodes cl i = Some n \<Longrightarrow> i < cl_next cl"
    and "cl_nodes cl i = Some n \<Longrightarrow> n_role n = -1 \<or> (\<exists>r :: role. n_role n = uint r)"
    and "(a, i) \<in> set (cl_sessions cl) \<Longrightarrow> (a, j) \<in> set (cl_sessions cl) \<Longrightarrow>
      session_is_active (cl_nodes cl i) \<Longrightarrow> session_is_active (cl_nodes cl j) \<Longrightarrow> i = j"
    and "(a, i) \<in> set (cl_sessions cl) \<Longrightarrow> i < cl_next cl"
  using assms by (auto simp: cluster_inv_def)

lemma step_ok_trans:
  assumes "step_ok cl (cl1, a1)" and "step_ok cl1 (cl2, a2)"
  shows "step_ok cl (cl2, a1 @ a2)"
proof -
  have "announced i (a1 @ a2) + settled i cl \<le> settled i cl2" for i
  proof -
    have "announced i a1 + settled i cl \<le> settled i cl1" "announced i a2 + settled i cl1 \<le> settled i cl2"
      using assms by (simp_all add: step_ok_def)
    then show ?thesis by simp
  qed
  moreover have "(\<exists>n. cl_nodes cl i = Some n \<and> n_role n = n_role n') \<or> (\<exists>a. New_node a (node_role n') i \<in> set (a1 @ a2))"
    if "cl_nodes cl2 i = Some n'" "n_role n' \<noteq> -1" for i n'
  proof -
    from assms(2) that consider n1 where "cl_nodes cl1 i = Some n1" "n_role n1 = n_role n'"
      | a where "New_node a (node_role n') i \<in> set a2" using step_okD(3) by blast
    then show ?thesis
    proof cases
      case 1
      then have "node_role n1 = node_role n'" by (simp add: node_role_def)
      with 1 that(2) step_okD(3) [OF assms(1), of i n1] show ?thesis by auto
    qed auto
  qed
  moreover have "(\<exists>i n. cl_nodes cl i = Some n \<and> n_role n \<noteq> -1 \<and> node_role n = r) \<or> (\<exists>a' i. New_node a' r i \<in> set (a1 @ a2))"
    if "Lost_node a r \<in> set (a1 @ a2)" for a r
  proof (cases "Lost_node a r \<in> set a1")
    case True
    with step_okD(4) [OF assms(1)] show ?thesis by fastforce
  next
    case False
    with that have "Lost_node a r \<in> set a2" by simp
    then consider i n where "cl_nodes cl1 i = Some n" "n_role n \<noteq> -1" "node_role n = r"
      | a' i where "New_node a' r i \<in> set a2" using step_okD(4) [OF assms(2)] by blast
    then show ?thesis
    proof cases
      case 1
      from step_okD(3) [OF assms(1) 1(1,2)] consider n0 where "cl_nodes cl i = Some n0" "n_role n0 = n_role n"
        | a' where "New_node a' (node_role n) i \<in> set a1" by blast
      then show ?thesis
      proof cases
        case prev: 1
        then have "node_role n0 = r" using 1(3) by (simp add: node_role_def)
        with prev 1(2) show ?thesis by metis
      qed (use 1(3) in auto)
    qed auto
  qed
  ultimately show ?thesis using assms(2) by (simp add: step_ok_def)
qed

text \<open>A quiet step creates no node and sets no role.\<close>

definition quiet :: "'cb cluster \<Rightarrow> 'cb cluster \<Rightarrow> bool" where
  "quiet cl cl' \<longleftrightarrow> cl_next cl' = cl_next cl \<and> set (cl_sessions cl') \<subseteq> set (cl_sessions cl) \<and>
     (\<forall>i n'. cl_nodes cl' i = Some n' \<longrightarrow>
        (\<exists>n. cl_nodes cl i = Some n \<and> n_role n' = n_role n \<and> (m_lost (n_session n) \<longrightarrow> m_lost (n_session n'))))"

lemma quietD:
  assumes "quiet cl cl'"
  shows "cl_next cl' = cl_next cl" and "x \<in> set (cl_sessions cl') \<Longrightarrow> x \<in> set (cl_sessions cl)"
    and "cl_nodes cl' i = Some n' \<Longrightarrow>
      \<exists>n. cl_nodes cl i = Some n \<and> n_role n' = n_role n \<and> (m_lost (n_session n) \<longrightarrow> m_lost (n_session n'))"
  using assms by (auto simp: quiet_def)

lemma quiet_refl [simp]: "quiet cl cl"
  by (simp add: quiet_def)

lemma quiet_same_nodes:
  "cl_next cl' = cl_next cl \<Longrightarrow> set (cl_sessions cl') \<subseteq> set (cl_sessions cl) \<Longrightarrow> cl_nodes cl' = cl_nodes cl \<Longrightarrow> quiet cl cl'"
  by (simp add: quiet_def)

lemma quiet_trans: "quiet cl cl1 \<Longrightarrow> quiet cl1 cl2 \<Longrightarrow> quiet cl cl2"
  unfolding quiet_def by (metis (no_types, lifting) dual_order.trans)

definition silent :: "'cb cluster_action list \<Rightarrow> bool" where
  "silent acts \<longleftrightarrow> (\<forall>a r i. New_node a r i \<notin> set acts) \<and> (\<forall>a r. Lost_node a r \<notin> set acts)"

lemma silent_simps [simp]:
  "silent []" "silent (map (Node_action i) as)" "silent (map (Peer_action i) as)"
  "silent (xs @ ys) \<longleftrightarrow> silent xs \<and> silent ys" "silent (send_init t cl)"
  "silent (Connect a i # acts) \<longleftrightarrow> silent acts"
  by (auto simp: silent_def send_init_def)

lemma announced_0: "(\<forall>a r. New_node a r i \<notin> set acts) \<Longrightarrow> announced i acts = 0"
  by (auto simp: announced_def filter_empty_conv split: cluster_action.splits)

lemma quiet_active: "quiet cl cl' \<Longrightarrow> session_is_active (cl_nodes cl' i) \<Longrightarrow> session_is_active (cl_nodes cl i)"
  unfolding quiet_def session_is_active_def by (metis (no_types, lifting) option.case_eq_if option.collapse option.sel option.simps(3))

lemma quiet_inv:
  assumes "cluster_inv cl" and "quiet cl cl'"
  shows "cluster_inv cl'"
  unfolding cluster_inv_def
proof (intro conjI allI impI)
  fix i
  assume "cl_nodes cl' i \<noteq> None"
  then obtain n where "cl_nodes cl i = Some n" using quietD(3) [OF assms(2)] by blast
  then show "i < cl_next cl'" using cluster_invD(1) [OF assms(1)] quietD(1) [OF assms(2)] by simp
next
  fix a i
  assume "(a, i) \<in> set (cl_sessions cl')"
  then show "i < cl_next cl'" using quietD(1,2) [OF assms(2)] cluster_invD(4) [OF assms(1)] by metis
next
  fix i n
  assume "cl_nodes cl' i = Some n"
  then obtain n0 where "cl_nodes cl i = Some n0" "n_role n = n_role n0" using quietD(3) [OF assms(2)] by blast
  then show "n_role n = -1 \<or> (\<exists>r :: role. n_role n = uint r)" using cluster_invD(2) [OF assms(1)] by simp
next
  fix a i j
  assume "(a, i) \<in> set (cl_sessions cl')" "(a, j) \<in> set (cl_sessions cl')"
    "session_is_active (cl_nodes cl' i)" "session_is_active (cl_nodes cl' j)"
  then show "i = j"
    using cluster_invD(3) [OF assms(1)] quietD(2) [OF assms(2)] quiet_active [OF assms(2)] by blast
qed

lemma quiet_settled:
  assumes "cluster_inv cl" and "quiet cl cl'"
  shows "settled i cl \<le> settled i cl'"
proof (cases "cl_nodes cl' i")
  case None
  then show ?thesis
    using cluster_invD(1) [OF assms(1), of i] quietD(1) [OF assms(2)] by (auto simp: settled_def has_role_def)
next
  case (Some n')
  then obtain n where "cl_nodes cl i = Some n" "n_role n' = n_role n" using quietD(3) [OF assms(2)] by blast
  with Some show ?thesis by (simp add: settled_def has_role_def)
qed

lemma quiet_step:
  assumes "cluster_inv cl" and "quiet cl cl'" and "silent acts"
  shows "step_ok cl (cl', acts)"
proof -
  have "announced i acts = 0" for i using assms(3) by (intro announced_0) (simp add: silent_def)
  moreover have "\<exists>n. cl_nodes cl i = Some n \<and> n_role n = n_role n'" if "cl_nodes cl' i = Some n'" for i n'
    using quietD(3) [OF assms(2) that] by auto
  ultimately show ?thesis
    using quiet_inv [OF assms(1,2)] quiet_settled [OF assms(1,2)] assms(3) by (simp add: step_ok_def silent_def)
qed

section \<open>The operations\<close>

lemma on_session_quiet:
  assumes "\<And>s. m_lost s \<Longrightarrow> m_lost (fst (f s))"
  shows "quiet cl (fst (on_session i f cl)) \<and> silent (snd (on_session i f cl))"
  using assms by (auto simp: on_session_def quiet_def put_node_def case_prod_beta split: option.splits)

lemma async_connect_quiet: "quiet cl (fst (snd (async_connect a i cl))) \<and> silent (snd (snd (async_connect a i cl)))"
  by (auto simp: async_connect_def quiet_def put_node_def increment_connect_retried_count_def Let_def split: option.splits)

lemma force_lost_lost: "m_lost (fst (force_lost err s))"
  by (simp add: force_lost_def case_prod_beta)

lemma session_apply_lost: "ev \<noteq> Ev_revive \<Longrightarrow> m_lost s \<Longrightarrow> m_lost (fst (session_apply ev s))"
  by (cases ev)
    (auto simp: session_call_def register_call_def process_response_def step_timeout_def force_lost_def
      bind_transport_def basic_bind_transport_def unbind_transport_def shutdown_def Let_def case_prod_beta
      split: option.splits)

lemma client_transport_lost_quiet:
  "quiet cl (fst (client_transport_lost i cl)) \<and> silent (snd (client_transport_lost i cl))"
  unfolding client_transport_lost_def by (rule on_session_quiet) (rule force_lost_lost)

lemma bind_session_quiet: "quiet cl (fst (bind_session r t cl)) \<and> silent (snd (bind_session r t cl))"
proof (cases r)
  case (Ref_node i)
  have "m_lost s \<Longrightarrow> m_lost (fst (snd (bind_transport t s)))" for s :: "('a, request) session"
    by (simp add: bind_transport_def basic_bind_transport_def Let_def)
  then show ?thesis unfolding Ref_node bind_session_def by (simp add: on_session_quiet)
qed (auto simp: bind_session_def quiet_same_nodes split: option.splits)

lemma transport_lost_step:
  assumes "cluster_inv cl"
  shows "step_ok cl (transport_lost i cl)"
proof (cases "cl_nodes cl i")
  case None
  with assms show ?thesis by (simp add: transport_lost_def quiet_step)
next
  case (Some n)
  let ?lost = "client_transport_lost i cl"
  have q: "step_ok cl (fst ?lost, snd ?lost)"
    using client_transport_lost_quiet quiet_step [OF assms] by blast
  have con: "step_ok cl (snd (async_connect a i cl))" for a
    using async_connect_quiet [of cl a i] quiet_step [OF assms] by (metis prod.collapse)
  have inv: "cluster_inv (fst ?lost)" using step_okD(1) [OF q] .
  have "step_ok cl (fst ?lost, snd ?lost @ [Lost_node (n_addr n) (node_role n)])" if "is_role_set n"
  proof -
    have "n_role n \<noteq> -1" using that by (auto simp: is_role_set_def)
    moreover have "silent (snd ?lost)" using client_transport_lost_quiet by blast
    moreover have "announced j (snd ?lost @ [Lost_node (n_addr n) (node_role n)]) = announced j (snd ?lost)" for j by simp
    ultimately show ?thesis
      using q Some unfolding step_ok_def silent_def by auto
  qed
  with q con Some show ?thesis
    by (auto simp: transport_lost_def case_prod_beta)
qed

lemma set_sessions_insert: "set (sessions_insert a i ss) = insert (a, i) (set ss)"
proof -
  have "set ss = set (takeWhile (\<lambda>x. fst x \<le> a) ss @ dropWhile (\<lambda>x. fst x \<le> a) ss)" by simp
  then show ?thesis unfolding sessions_insert_def set_append by auto
qed

lemma find_session_None:
  "find_session a cl = None \<longleftrightarrow> (\<forall>i. (a, i) \<in> set (cl_sessions cl) \<longrightarrow> \<not> session_is_active (cl_nodes cl i))"
  by (auto simp: find_session_def find_None_iff)

lemma find_session_Some:
  assumes "find_session a cl = Some i"
  shows "(a, i) \<in> set (cl_sessions cl) \<and> session_is_active (cl_nodes cl i)"
proof -
  obtain x where "find (\<lambda>(b, j). b = a \<and> session_is_active (cl_nodes cl j)) (cl_sessions cl) = Some x" "i = snd x"
    using assms by (auto simp: find_session_def)
  then show ?thesis by (cases x) (auto simp: find_Some_iff in_set_conv_nth)
qed

lemma new_session_step:
  assumes "cluster_inv cl" and "find_session a cl = None"
  shows "step_ok cl (cl\<lparr>cl_sessions := sessions_insert a (cl_next cl) (filter (\<lambda>x. fst x \<noteq> a) (cl_sessions cl)),
    cl_nodes := (cl_nodes cl)(cl_next cl \<mapsto> node_new), cl_next := Suc (cl_next cl)\<rparr>, [])"
    (is "step_ok cl (?cl, [])")
proof -
  have "cluster_inv ?cl"
    unfolding cluster_inv_def
  proof (intro conjI allI impI)
    fix i
    assume "cl_nodes ?cl i \<noteq> None"
    then show "i < cl_next ?cl" using cluster_invD(1) [OF assms(1), of i] by (auto split: if_splits)
  next
    fix b i
    assume "(b, i) \<in> set (cl_sessions ?cl)"
    then show "i < cl_next ?cl" using cluster_invD(4) [OF assms(1), of b i] by (auto simp: set_sessions_insert)
  next
    fix i n
    assume "cl_nodes ?cl i = Some n"
    then show "n_role n = -1 \<or> (\<exists>r :: role. n_role n = uint r)"
      using cluster_invD(2) [OF assms(1), of i n] by (auto simp: node_new_def split: if_splits)
  next
    fix b i j
    assume *: "(b, i) \<in> set (cl_sessions ?cl)" "(b, j) \<in> set (cl_sessions ?cl)"
      "session_is_active (cl_nodes ?cl i)" "session_is_active (cl_nodes ?cl j)"
    show "i = j"
    proof (cases "b = a")
      case True
      with * show ?thesis by (auto simp: set_sessions_insert)
    next
      case False
      with * have old: "(b, i) \<in> set (cl_sessions cl)" "(b, j) \<in> set (cl_sessions cl)" by (auto simp: set_sessions_insert)
      with cluster_invD(4) [OF assms(1)] have "i \<noteq> cl_next cl" "j \<noteq> cl_next cl" by blast+
      with old * cluster_invD(3) [OF assms(1) old] show ?thesis by simp
    qed
  qed
  moreover have "settled i cl \<le> settled i ?cl" for i
    using cluster_invD(1) [OF assms(1), of i] by (auto simp: settled_def has_role_def)
  ultimately show ?thesis
    by (auto simp: step_ok_def node_new_def)
qed

lemma step_ok_refl: "cluster_inv cl \<Longrightarrow> step_ok cl (cl, [])"
  by (simp add: quiet_step)

text \<open>A step followed by a quiet one, with actions that say nothing about nodes in between.\<close>

lemma step_then_quiet:
  "step_ok cl (cl1, a1) \<Longrightarrow> quiet cl1 cl2 \<Longrightarrow> silent a2 \<Longrightarrow> step_ok cl (cl2, a1 @ a2)"
  using step_ok_trans quiet_step step_okD(1) by blast

lemma get_session_impl_step:
  assumes "cluster_inv cl"
  shows "step_ok cl (snd (get_session_impl con a cl))"
proof (cases "find_session a cl")
  case (Some i)
  with assms show ?thesis by (simp add: get_session_impl_def step_ok_refl)
next
  case None
  let ?cl = "cl\<lparr>cl_sessions := sessions_insert a (cl_next cl) (filter (\<lambda>x. fst x \<noteq> a) (cl_sessions cl)),
    cl_nodes := (cl_nodes cl)(cl_next cl \<mapsto> node_new), cl_next := Suc (cl_next cl)\<rparr>"
  note new = new_session_step [OF assms None]
  have "step_ok cl (snd (async_connect a (cl_next cl) ?cl))"
    using step_then_quiet [OF new, of "fst (snd (async_connect a (cl_next cl) ?cl))" "snd (snd (async_connect a (cl_next cl) ?cl))"]
      async_connect_quiet [of ?cl a "cl_next cl"] by simp
  with None new show ?thesis by (simp add: get_session_impl_def Let_def)
qed

lemma set_addr_quiet: "cl_nodes cl i = Some n \<Longrightarrow> quiet cl (put_node i (n\<lparr>n_addr := a\<rparr>) cl)"
  by (simp add: quiet_def put_node_def)

lemma get_node_step:
  assumes "cluster_inv cl"
  shows "step_ok cl (snd (get_node a cl))"
proof -
  obtain i cl1 acts where g: "get_session a cl = (i, cl1, acts)" by (metis prod_cases3)
  then have ok: "step_ok cl (cl1, acts)" using get_session_impl_step [OF assms, of True a] by (simp add: get_session_def)
  show ?thesis
  proof (cases "cl_nodes cl1 i")
    case None
    with ok g show ?thesis by (simp add: get_node_def)
  next
    case (Some n)
    with ok g step_then_quiet [OF ok set_addr_quiet [OF Some, of a], of "[]"] show ?thesis
      by (simp add: get_node_def)
  qed
qed

lemma introduce_step:
  assumes "cluster_inv cl"
  shows "step_ok cl (introduce i a r cl)"
proof (cases "cl_nodes cl i")
  case None
  with assms show ?thesis by (simp add: introduce_def step_ok_refl)
next
  case (Some n)
  show ?thesis
  proof (cases "n_role n = -1")
    case False
    with Some assms show ?thesis by (simp add: introduce_def set_role_def step_ok_refl)
  next
    case True
    let ?n = "n\<lparr>n_role := uint r, n_addr := a\<rparr>"
    let ?cl = "put_node i ?n cl"
    have act: "session_is_active (cl_nodes ?cl j) = session_is_active (cl_nodes cl j)" for j
      using Some by (simp add: put_node_def session_is_active_def)
    have "cluster_inv ?cl"
      using assms Some unfolding cluster_inv_def act by (auto simp: put_node_def)
    moreover have r: "uint r \<noteq> -1" using uint_ge_0 [of r] by linarith
    moreover have "announced j [New_node a r i] + settled j cl \<le> settled j ?cl" for j
      using Some True r by (auto simp: settled_def has_role_def put_node_def)
    ultimately have "step_ok cl (?cl, [New_node a r i])"
      by (auto simp: step_ok_def put_node_def node_role_def)
    with Some True show ?thesis by (simp add: introduce_def set_role_def)
  qed
qed

lemma set_process_state_quiet: "quiet cl (set_process_state t ps cl)"
  by (simp add: set_process_state_def quiet_same_nodes)

lemma rebind_quiet: "quiet cl (fst (rebind r t tr cl)) \<and> silent (snd (rebind r t tr cl))"
  using bind_session_quiet [of "cl\<lparr>cl_transports := (cl_transports cl)(t \<mapsto> tr\<lparr>t_session := Some r\<rparr>)\<rparr>" r t]
    quiet_trans [OF quiet_same_nodes [of "cl\<lparr>cl_transports := (cl_transports cl)(t \<mapsto> tr\<lparr>t_session := Some r\<rparr>)\<rparr>" cl]]
  by (simp add: rebind_def)

lemma init_subsys_step:
  assumes "cluster_inv cl"
  shows "step_ok cl (snd (init_subsys t tr cl))"
proof -
  obtain i cl1 where add: "add_peer_session cl = (i, cl1)" by fastforce
  have q1: "quiet cl cl1" using add by (auto simp: add_peer_session_def Let_def quiet_same_nodes)
  obtain cl2 acts where re: "rebind (Ref_peer i) t tr cl1 = (cl2, acts)" by fastforce
  have qr: "quiet cl1 cl2" using rebind_quiet [of cl1 "Ref_peer i" t tr] re by simp
  have "quiet cl (set_process_state t Subsys_state cl2)"
    by (rule quiet_trans [OF quiet_trans [OF q1 qr] set_process_state_quiet])
  moreover have "silent acts" using rebind_quiet [of cl1 "Ref_peer i" t tr] re by simp
  ultimately show ?thesis
    using assms add re by (simp add: init_subsys_def step_ok_refl quiet_step)
qed

lemma init_cluster_step:
  assumes "cluster_inv cl"
  shows "step_ok cl (snd (init_cluster t tr a r cl))"
proof (cases "t_session tr")
  case None
  obtain i cl1 a1 where c: "create_session a cl = (i, cl1, a1)" by (metis prod_cases3)
  obtain cl2 a2 where re: "rebind (Ref_node i) t tr cl1 = (cl2, a2)" by fastforce
  obtain cl3 a3 where i: "introduce i a r cl2 = (cl3, a3)" by fastforce
  have s1: "step_ok cl (cl1, a1)" using get_session_impl_step [OF assms, of False a] c by (simp add: create_session_def)
  have s0: "step_ok cl (cl1, send_init t cl @ a1)"
    using step_ok_trans [OF quiet_step [OF assms quiet_refl, of "send_init t cl"] s1] by simp
  have s2: "step_ok cl (cl2, (send_init t cl @ a1) @ a2)"
    using step_then_quiet [OF s0] rebind_quiet [of cl1 "Ref_node i" t tr] re by simp
  have s3: "step_ok cl (cl3, ((send_init t cl @ a1) @ a2) @ a3)"
    using step_ok_trans [OF s2] introduce_step [OF step_okD(1) [OF s2], of i a r] i by simp
  from step_then_quiet [OF s3 set_process_state_quiet, of "[]"] None c re i assms show ?thesis
    by (simp add: init_cluster_def step_ok_refl)
next
  case (Some x)
  show ?thesis
  proof (cases x)
    case (Ref_node i)
    obtain cl1 acts where i: "introduce i a r cl = (cl1, acts)" by fastforce
    with introduce_step [OF assms, of i a r] have "step_ok cl (cl1, acts)" by simp
    from step_then_quiet [OF this set_process_state_quiet, of "[]"] Some Ref_node i show ?thesis
      by (simp add: init_cluster_def)
  qed (use Some assms in \<open>simp add: init_cluster_def step_ok_refl\<close>)
qed

lemma connect_callback_step:
  assumes "cluster_inv cl"
  shows "step_ok cl (connect_callback a i fd cl)"
proof (cases fd)
  case None
  have "step_ok cl (snd (async_connect a i cl))"
    using async_connect_quiet [of cl a i] quiet_step [OF assms] by (metis prod.collapse)
  with None assms transport_lost_step [OF assms] show ?thesis
    by (auto simp: connect_callback_def step_ok_refl split: option.splits)
next
  case (Some t)
  let ?cl = "cl\<lparr>cl_transports := (cl_transports cl)(t \<mapsto> \<lparr>t_session = Some (Ref_node i), t_process_state = Not_initialised\<rparr>)\<rparr>"
  have "quiet cl ?cl" by (simp add: quiet_same_nodes)
  then have "quiet cl (fst (bind_session (Ref_node i) t ?cl))" "silent (snd (bind_session (Ref_node i) t ?cl))"
    using bind_session_quiet [of ?cl "Ref_node i" t] quiet_trans by blast+
  with assms Some show ?thesis
    by (simp add: connect_callback_def transport_connected_def Let_def case_prod_beta quiet_step)
qed

lemma transport_closed_quiet: "quiet cl (fst (transport_closed t cl)) \<and> silent (snd (transport_closed t cl))"
proof (cases "cl_transports cl t")
  case (Some tr)
  let ?cl = "cl\<lparr>cl_transports := (cl_transports cl)(t := None)\<rparr>"
  have lost: "m_lost s \<Longrightarrow> m_lost (fst (snd (unbind_transport t s)))" for s :: "('a, request) session"
    by (simp add: unbind_transport_def Let_def)
  have q: "quiet cl ?cl" by (simp add: quiet_same_nodes)
  have on: "quiet cl (fst (on_session i (\<lambda>s. snd (unbind_transport t s)) ?cl)) \<and>
      silent (snd (on_session i (\<lambda>s. snd (unbind_transport t s)) ?cl))" for i
    using on_session_quiet [of "\<lambda>s. snd (unbind_transport t s)" ?cl i] lost quiet_trans [OF q] by blast
  show ?thesis
    using Some on q
    by (auto simp: transport_closed_def Let_def case_prod_beta quiet_same_nodes split: option.splits session_ref.splits)
qed (simp add: transport_closed_def)

lemma cluster_event_step:
  assumes "cluster_inv cl"
  shows "step_ok cl (cluster_apply ev cl)"
proof -
  have quiet: "step_ok cl out" if "quiet cl (fst out) \<and> silent (snd out)" for out
    using that quiet_step [OF assms, of "fst out" "snd out"] by simp
  show ?thesis
  proof (cases ev)
    case (CE_get a)
    then show ?thesis using get_node_step [OF assms] by simp
  next
    case (CE_connected a i fd)
    then show ?thesis using connect_callback_step [OF assms] by simp
  next
    case (CE_accepted t)
    then show ?thesis by (auto intro!: quiet simp: transport_accepted_def quiet_same_nodes)
  next
    case (CE_init t msg)
    then show ?thesis
      using init_subsys_step [OF assms] init_cluster_step [OF assms] step_ok_refl [OF assms]
      by (auto simp: init_message_def split: option.splits)
  next
    case (CE_closed t)
    then show ?thesis using quiet [OF transport_closed_quiet] by simp
  next
    case (CE_lost r)
    have "quiet cl (fst (peer_lost_notify j cl)) \<and> silent (snd (peer_lost_notify j cl))" for j
      by (auto simp: peer_lost_notify_def Let_def case_prod_beta quiet_same_nodes split: option.splits)
    with CE_lost show ?thesis
      using quiet transport_lost_step [OF assms] by (cases r) (simp_all add: transport_lost_notify_def)
  next
    case CE_step
    have "quiet cl (fst (cluster_apply CE_step cl))"
      by (rule quiet_same_nodes) (auto simp: peers_step_timeout_def cluster_step_timeout_def Let_def)
    with CE_step show ?thesis by (intro quiet) simp
  next
    case (CE_session i ev')
    have "ev' \<noteq> Ev_revive \<Longrightarrow> quiet cl (fst (on_session i (session_apply ev') cl)) \<and> silent (snd (on_session i (session_apply ev') cl))"
      by (rule on_session_quiet) (rule session_apply_lost)
    with CE_session show ?thesis using quiet step_ok_refl [OF assms] by simp
  next
    case (CE_destroyed i)
    let ?out = "on_session i session_destroy cl"
    have "quiet cl (fst ?out) \<and> silent (snd ?out)"
      by (rule on_session_quiet) (simp add: session_destroy_def force_lost_lost)
    moreover have "cl_next (fst ?out) = cl_next cl" "cl_sessions (fst ?out) = cl_sessions cl"
      by (simp_all add: on_session_def put_node_def case_prod_beta split: option.splits)
    ultimately show ?thesis unfolding CE_destroyed cluster_apply.simps
      by (intro quiet) (simp add: quiet_def)
  qed
qed

lemma cluster_run_ok: "cluster_inv cl \<Longrightarrow> step_ok cl (cluster_run evs cl)"
proof (induction evs arbitrary: cl)
  case (Cons ev evs)
  obtain cl1 a1 where ev: "cluster_apply ev cl = (cl1, a1)" by fastforce
  obtain cl2 a2 where run: "cluster_run evs cl1 = (cl2, a2)" by fastforce
  have "step_ok cl (cl1, a1)" using cluster_event_step [OF Cons.prems, of ev] ev by simp
  with Cons.IH [OF step_okD(1)] run have "step_ok cl (cl2, a1 @ a2)" by (metis step_ok_trans)
  with ev run show ?case by simp
qed (simp add: step_ok_refl)

text \<open>
  However connections are made, accepted, lost, retried and closed, a process never has two
  live sessions with one address, so that all its calls to a node share one session; a node
  is introduced at most once; and a node is reported lost only if one with its role was
  introduced.
\<close>

theorem cluster_one_session_per_address:
  assumes "cluster_run evs (cluster_new r self limit) = (cl, acts)"
  shows "(\<forall>a i. (a, i) \<in> set (cl_sessions cl) \<and> session_is_active (cl_nodes cl i) \<longrightarrow> fst (get_node a cl) = i) \<and>
    (\<forall>i. announced i acts \<le> 1) \<and>
    (\<forall>a r'. Lost_node a r' \<in> set acts \<longrightarrow> (\<exists>a' i. New_node a' r' i \<in> set acts))"
proof -
  have "cluster_inv (cluster_new r self limit)" by (simp add: cluster_inv_def cluster_new_def)
  from cluster_run_ok [OF this, of evs] assms have ok: "step_ok (cluster_new r self limit) (cl, acts)" by simp
  have "fst (get_node a cl) = i" if "(a, i) \<in> set (cl_sessions cl)" "session_is_active (cl_nodes cl i)" for a i
  proof -
    have "find_session a cl \<noteq> None" using find_session_None [of a cl] that by blast
    then obtain j where j: "find_session a cl = Some j" by blast
    have "j = i" using cluster_invD(3) [OF step_okD(1) [OF ok]] find_session_Some [OF j] that by blast
    with j show ?thesis
      by (simp add: get_node_def get_session_def get_session_impl_def split: option.splits)
  qed
  moreover have "announced i acts \<le> 1" for i
    using step_okD(2) [OF ok, of i] by (simp add: settled_def split: if_splits)
  moreover have "\<exists>a' i. New_node a' r' i \<in> set acts" if "Lost_node a r' \<in> set acts" for a r'
    using step_okD(4) [OF ok that] by (auto simp: cluster_new_def)
  ultimately show ?thesis by blast
qed

theorem cluster_one_session_per_address_witness:
  "announced 0 (snd (cluster_run [CE_accepted 1, CE_init 1 (Some (sample_addr 3, ROLE_SERVER))]
     (cluster_new ROLE_MANAGER (sample_addr 1) 2 :: nat cluster))) \<le> 1"
  using cluster_one_session_per_address [OF prod.collapse [symmetric],
      of "[CE_accepted 1, CE_init 1 (Some (sample_addr 3, ROLE_SERVER))]" ROLE_MANAGER "sample_addr 1" 2] by blast

end
