(* ===== verification/ManagerTheorems.thy ===== *)
theory ManagerTheorems
  imports Manager ClusterTheorems
begin

text \<open>
  The properties of a manager: what it sends and to whom, the invariant of its rings and of
  the progress of a replacement, the refinement of the replacement by an abstract machine of
  phases, and the election between two managers.
\<close>

section \<open>Effects\<close>

lemma fst_and_then [simp]: "fst (and_then e f) = fst (f (fst e))"
  by (simp add: and_then_def case_prod_beta Let_def)

lemma snd_and_then [simp]: "snd (and_then e f) = snd e @ snd (f (fst e))"
  by (simp add: and_then_def case_prod_beta Let_def)

lemma mg_clock_incr_eq: "mg_clock_incr m = (fst (clock_incr (mg_clock m)), m\<lparr>mg_clock := snd (clock_incr (mg_clock m))\<rparr>)"
  by (simp add: mg_clock_incr_def case_prod_beta Let_def)

lemma mg_clock_incr_clocktime_eq:
  "mg_clock_incr_clocktime m =
     (fst (clock_incr_clocktime (mg_clock m)), m\<lparr>mg_clock := snd (clock_incr_clocktime (mg_clock m))\<rparr>)"
  by (simp add: mg_clock_incr_clocktime_def case_prod_beta Let_def)

text \<open>The fields an operation leaves alone, as a frame that is reflexive and transitive.\<close>

definition same_net :: "manager \<Rightarrow> manager \<Rightarrow> bool" where
  "same_net m m' \<longleftrightarrow> mg_addr m' = mg_addr m \<and> mg_partner m' = mg_partner m \<and> mg_cluster m' = mg_cluster m"

definition same_rings :: "manager \<Rightarrow> manager \<Rightarrow> bool" where
  "same_rings m m' \<longleftrightarrow> mg_whs m' = mg_whs m \<and> mg_rhs m' = mg_rhs m"

definition same_phase :: "manager \<Rightarrow> manager \<Rightarrow> bool" where
  "same_phase m m' \<longleftrightarrow> mg_copying m' = mg_copying m \<and> mg_deleting m' = mg_deleting m"

lemmas frame_defs = same_net_def same_rings_def same_phase_def

lemma sync_partner_eq:
  "fst (sync_hash_space_partner m) =
     m\<lparr>mg_clock := if connectable (mg_partner m) then snd (clock_incr (mg_clock m)) else mg_clock m\<rparr>"
  by (simp add: sync_hash_space_partner_def mg_clock_incr_eq)

lemma sync_servers_eq: "fst (sync_hash_space_servers m) = m\<lparr>mg_clock := snd (clock_incr (mg_clock m))\<rparr>"
  by (simp add: sync_hash_space_servers_def mg_clock_incr_eq)

lemma push_clients_eq: "fst (push_hash_space_clients m) = m"
  by (simp add: push_hash_space_clients_def)

lemmas spread_eqs = sync_partner_eq sync_servers_eq push_clients_eq

lemma call_servers_cong: "mg_cluster m' = mg_cluster m \<Longrightarrow> call_servers req cb m' = call_servers req cb m"
  by (simp add: call_servers_def)

lemma attach_frame: "same_net m (fst (attach_new_servers p m)) \<and> same_phase m (fst (attach_new_servers p m)) \<and>
    mg_rhs (fst (attach_new_servers p m)) = mg_rhs m"
  by (simp add: attach_new_servers_def mg_clock_incr_clocktime_eq spread_eqs frame_defs)

lemma detach_frame: "same_net m (fst (detach_fault_servers p m)) \<and> same_phase m (fst (detach_fault_servers p m)) \<and>
    mg_rhs (fst (detach_fault_servers p m)) = mg_rhs m"
  by (simp add: detach_fault_servers_def mg_clock_incr_clocktime_eq spread_eqs frame_defs)

lemma attach_whs:
  "mg_whs (fst (attach_new_servers p m)) =
     fold (attach_one p (fst (clock_incr_clocktime (mg_clock m)))) (new_server_addrs m) (mg_whs m)"
  by (simp add: attach_new_servers_def mg_clock_incr_clocktime_eq spread_eqs new_server_addrs_def lock_def [abs_def])

lemma detach_whs:
  "mg_whs (fst (detach_fault_servers p m)) =
     fst (remove_fault_servers p (fst (clock_incr_clocktime (mg_clock m))) (mg_whs m))"
  by (simp add: detach_fault_servers_def mg_clock_incr_clocktime_eq spread_eqs)

definition live_servers :: "manager \<Rightarrow> address list" where
  "live_servers m = map (\<lambda>(i, n). n_addr n) (for_each_node ROLE_SERVER (mg_cluster m))"

lemma start_replace_eq:
  "fst (start_replace fu m) =
     m\<lparr>mg_clock := snd (clock_incr (mg_clock m)),
       mg_copying := progress_reset (m_timestamp (mg_whs m)) (live_servers m) (mg_copying m),
       mg_deleting := snd (progress_invalidate (mg_deleting m))\<rparr>"
  by (simp add: start_replace_def mg_clock_incr_eq Let_def spread_eqs live_servers_def)

lemma start_replace_frame: "same_net m (fst (start_replace fu m)) \<and> same_rings m (fst (start_replace fu m))"
  by (simp add: start_replace_eq frame_defs)

section \<open>The rings\<close>

definition hs_ok :: "platform \<Rightarrow> hashspace \<Rightarrow> bool" where
  "hs_ok p hs \<longleftrightarrow> hs_inv p hs \<and> distinct (map m_addr (m_nodes hs))"

definition seed_ok :: "seed \<Rightarrow> bool" where
  "seed_ok sd \<longleftrightarrow> distinct (map m_addr (seed_nodes sd))"

lemma seed_ok_of [simp]: "hs_ok p hs \<Longrightarrow> seed_ok (seed_of hs)"
  by (simp add: hs_ok_def seed_ok_def seed_of_def)

lemma include_iff: "server_is_include hs a \<longleftrightarrow> a \<in> m_addr ` set (m_nodes hs)"
  using find_index_less_iff [of "node_address_equal a" "m_nodes hs"] find_index_le [of "node_address_equal a" "m_nodes hs"]
  by (auto simp: server_is_include_def node_address_equal_def)

lemma hs_ok_new [wf_intros]: "hs_ok p (hashspace_new ct)"
  by (simp add: hs_ok_def hs_inv_def hashspace_new_def ring_addr_def)

lemma hs_ok_seed [wf_intros]: "seed_ok sd \<Longrightarrow> hs_ok p (hashspace_of_seed p sd)"
  by (simp add: hs_ok_def seed_ok_def hashspace_of_seed_def) (simp add: rehash_ring)

lemma fault_addrs: "map m_addr (m_nodes (fst (fault_server ct a hs))) = map m_addr (m_nodes hs)"
  by (simp add: fault_server_def Let_def map_addr_fault)

lemma recover_addrs: "map m_addr (m_nodes (fst (recover_server ct a hs))) = map m_addr (m_nodes hs)"
  by (simp add: recover_server_def Let_def map_addr_recover)

lemma hs_ok_fault [wf_intros]: "hs_ok p hs \<Longrightarrow> hs_ok p (fst (fault_server ct a hs))"
  using hs_inv_apply [of p hs "Op_fault ct a"] by (simp add: hs_ok_def fault_addrs)

lemma hs_ok_attach_one [wf_intros]:
  assumes "hs_ok p hs"
  shows "hs_ok p (attach_one p ct a hs)"
proof (cases "server_is_include hs a")
  case True
  with assms hs_inv_apply [of p hs "Op_recover ct a"] show ?thesis
    by (simp add: hs_ok_def attach_one_def recover_addrs)
next
  case False
  with assms hs_inv_apply [of p hs "Op_add ct a"] show ?thesis
    by (simp add: hs_ok_def attach_one_def include_iff) (simp add: add_server_def Let_def)
qed

lemma hs_ok_attach [wf_intros]: "hs_ok p hs \<Longrightarrow> hs_ok p (fold (attach_one p ct) as hs)"
  by (induction as arbitrary: hs) (simp_all add: wf_intros)

lemma remove_fault_nodes: "m_nodes (fst (remove_fault_servers p ct hs)) = filter m_active (m_nodes hs)"
  by (simp add: remove_fault_servers_def erase_fault_eq rehash_ring)

lemma hs_ok_detach [wf_intros]: "hs_ok p hs \<Longrightarrow> hs_ok p (fst (remove_fault_servers p ct hs))"
  using hs_inv_apply [of p hs "Op_remove_fault ct"]
  by (simp add: hs_ok_def remove_fault_nodes distinct_map_filter)

section \<open>Invariant\<close>

definition progress_ok :: "progress \<Rightarrow> bool" where
  "progress_ok pr \<longleftrightarrow> set (p_remainder pr) \<subseteq> set (p_target_nodes pr)"

definition manager_inv :: "platform \<Rightarrow> manager \<Rightarrow> bool" where
  "manager_inv p m \<longleftrightarrow> hs_ok p (mg_whs m) \<and> hs_ok p (mg_rhs m) \<and>
     progress_ok (mg_copying m) \<and> progress_ok (mg_deleting m) \<and>
     (p_remainder (mg_copying m) = [] \<or> p_remainder (mg_deleting m) = [])"

lemma progress_ok_ops [simp]:
  "progress_ok progress_new" "progress_ok (progress_reset ct ns pr)" "progress_ok (snd (progress_invalidate pr))"
  "p_remainder (snd (progress_invalidate pr)) = []"
  "p_target_nodes (snd (progress_invalidate pr)) = []" "fst (progress_invalidate pr) = p_target_nodes pr"
  by (simp_all add: progress_ok_def progress_new_def progress_reset_def progress_invalidate_def)

lemma progress_pop_ok [simp]: "progress_ok pr \<Longrightarrow> progress_ok (snd (progress_pop ct a pr))"
  by (auto simp: progress_ok_def progress_pop_def Let_def)

lemma progress_pop_rem:
  "p_remainder (snd (progress_pop ct a pr)) =
     (if p_clocktime pr = ct then filter (\<lambda>x. x \<noteq> a) (p_remainder pr) else p_remainder pr)"
  by (simp add: progress_pop_def Let_def)

text \<open>The seeds in what a manager sends, and in what it is sent.\<close>

fun request_seeds :: "request \<Rightarrow> seed list" where
  "request_seeds (To_server (S_HashSpaceSync ws rs c)) = [ws, rs]"
| "request_seeds (To_server (S_ReplaceCopyStart sd c fu)) = [sd]"
| "request_seeds (To_server (S_ReplaceDeleteStart sd c)) = [sd]"
| "request_seeds (To_manager (M_HashSpaceSync ws rs c)) = [ws, rs]"
| "request_seeds (To_manager (M_ReplaceElection sd c)) = [sd]"
| "request_seeds (To_gateway (G_HashSpacePush ws rs)) = [ws, rs]"
| "request_seeds _ = []"

fun value_seeds :: "rvalue \<Rightarrow> seed list" where
  "value_seeds (V_seed sd) = [sd]"
| "value_seeds (V_seeds ws rs) = [ws, rs]"
| "value_seeds (V_status sd as) = [sd]"
| "value_seeds _ = []"

fun action_seeds :: "manager_action \<Rightarrow> seed list" where
  "action_seeds (Respond rid v) = value_seeds v"
| "action_seeds (Respond_error rid v) = value_seeds v"
| "action_seeds (Call a req cb t) = request_seeds req"
| "action_seeds (Call_node i req cb t) = request_seeds req"
| "action_seeds (Call_peer i req cb t) = request_seeds req"
| "action_seeds (Submit t) = []"

fun event_seeds :: "manager_event \<Rightarrow> seed list" where
  "event_seeds (Req_cluster frm rid req) = request_seeds (To_manager req)"
| "event_seeds _ = []"

definition sends_ok :: "manager_action list \<Rightarrow> bool" where
  "sends_ok acts \<longleftrightarrow> (\<forall>a \<in> set acts. \<forall>sd \<in> set (action_seeds a). seed_ok sd)"

text \<open>An effect that keeps the invariant and sends only rings that satisfy it.\<close>

definition keeps :: "platform \<Rightarrow> manager_eff \<Rightarrow> bool" where
  "keeps p e \<longleftrightarrow> manager_inv p (fst e) \<and> sends_ok (snd e)"

lemma sends_ok_simps [simp]:
  "sends_ok []" "sends_ok (xs @ ys) \<longleftrightarrow> sends_ok xs \<and> sends_ok ys"
  "sends_ok (a # xs) \<longleftrightarrow> (\<forall>sd \<in> set (action_seeds a). seed_ok sd) \<and> sends_ok xs"
  by (auto simp: sends_ok_def)

lemma sends_ok_calls [simp]:
  "sends_ok (call_servers req cb m) \<longleftrightarrow> (for_each_node ROLE_SERVER (mg_cluster m) = [] \<or> (\<forall>sd \<in> set (request_seeds (To_server req)). seed_ok sd))"
  by (cases "for_each_node ROLE_SERVER (mg_cluster m)") (auto simp: call_servers_def sends_ok_def)

lemma keeps_and_then [wf_intros]: "keeps p e \<Longrightarrow> (\<And>m. manager_inv p m \<Longrightarrow> keeps p (f m)) \<Longrightarrow> keeps p (and_then e f)"
  by (simp add: keeps_def)

lemma manager_inv_rings: "manager_inv p m \<Longrightarrow> seed_ok (seed_of (mg_whs m)) \<and> seed_ok (seed_of (mg_rhs m))"
  by (auto simp: manager_inv_def)

lemma manager_inv_clock [simp]: "manager_inv p (m\<lparr>mg_clock := c\<rparr>) = manager_inv p m"
  by (simp add: manager_inv_def)

lemma sync_partner_keeps [wf_intros]: "manager_inv p m \<Longrightarrow> keeps p (sync_hash_space_partner m)"
  by (simp add: keeps_def spread_eqs) (simp add: sync_hash_space_partner_def mg_clock_incr_eq manager_inv_rings)

lemma sync_servers_keeps [wf_intros]: "manager_inv p m \<Longrightarrow> keeps p (sync_hash_space_servers m)"
  by (simp add: keeps_def spread_eqs) (simp add: sync_hash_space_servers_def mg_clock_incr_eq manager_inv_rings)

lemma push_clients_keeps [wf_intros]: "manager_inv p m \<Longrightarrow> keeps p (push_hash_space_clients m)"
  using manager_inv_rings [of p m] by (auto simp: keeps_def push_hash_space_clients_def sends_ok_def)

lemma attach_keeps [wf_intros]: "manager_inv p m \<Longrightarrow> keeps p (attach_new_servers p m)"
  unfolding attach_new_servers_def mg_clock_incr_clocktime_eq Let_def prod.case
  by (rule sync_partner_keeps) (auto simp: manager_inv_def intro: wf_intros)

lemma detach_keeps [wf_intros]: "manager_inv p m \<Longrightarrow> keeps p (detach_fault_servers p m)"
  unfolding detach_fault_servers_def mg_clock_incr_clocktime_eq Let_def prod.case
  by (rule sync_partner_keeps) (auto simp: manager_inv_def intro: wf_intros)

lemma start_keeps [wf_intros]: "manager_inv p m \<Longrightarrow> keeps p (start_replace fu m)"
  unfolding start_replace_def mg_clock_incr_eq Let_def prod.case
  by (rule keeps_and_then)
    (simp_all add: keeps_def manager_inv_rings push_clients_keeps [unfolded keeps_def], simp add: manager_inv_def)

lemma keeps_simple: "keeps p (m, acts) \<longleftrightarrow> manager_inv p m \<and> sends_ok acts"
  by (simp add: keeps_def)

lemma delayed_keeps [simp]: "manager_inv p (delayed_replace_election m) = manager_inv p m"
  by (simp add: manager_inv_def delayed_replace_election_def Let_def)

lemma erase_new_keeps [simp]: "manager_inv p (erase_new_servers f m) = manager_inv p m"
  by (simp add: manager_inv_def erase_new_servers_def)

lemma adjust_keeps [simp]: "manager_inv p (mg_adjust_clock c m) = manager_inv p m"
  by (simp add: mg_adjust_clock_def)

lemma finish_copy_keeps [wf_intros]:
  assumes "manager_inv p m"
  shows "keeps p (mg_finish_replace_copy m)"
proof -
  have "sends_ok (map (\<lambda>a. Call a (To_server (S_ReplaceDeleteStart (seed_of (mg_whs m)) c)) Cb_ReplaceDeleteStart 10) ts)" for c ts
    using manager_inv_rings [OF assms] by (auto simp: sends_ok_def)
  with assms show ?thesis
    unfolding mg_finish_replace_copy_def mg_clock_incr_eq Let_def case_prod_beta
    by (intro keeps_and_then push_clients_keeps sync_partner_keeps) (simp_all add: keeps_simple manager_inv_def)
qed

lemma election_keeps [wf_intros]: "manager_inv p m \<Longrightarrow> keeps p (replace_election p m)"
  unfolding replace_election_def mg_clock_incr_eq Let_def prod.case
  by (intro keeps_and_then attach_keeps detach_keeps) (simp_all add: keeps_simple manager_inv_rings start_keeps)

lemma keeps_respond [simp]: "keeps p (m, [Respond rid v]) \<longleftrightarrow> manager_inv p m \<and> (\<forall>sd \<in> set (value_seeds v). seed_ok sd)"
  by (simp add: keeps_simple)

lemma keeps_nil [simp]: "keeps p (m, []) \<longleftrightarrow> manager_inv p m"
  by (simp add: keeps_simple)


text \<open>The two halves of \<open>remove_server\<close>: the rings and who is told, and what follows from the loss.\<close>

definition with_fault :: "address \<Rightarrow> manager \<Rightarrow> manager" where
  "with_fault addr m =
     (let ct = fst (clock_incr_clocktime (mg_clock m))
      in m\<lparr>mg_clock := snd (clock_incr_clocktime (mg_clock m)), mg_whs := fst (fault_server ct addr (mg_whs m)),
           mg_rhs := fst (fault_server ct addr (mg_rhs m))\<rparr>)"

definition spread_all :: "manager \<Rightarrow> manager_eff" where
  "spread_all m = and_then (and_then (sync_hash_space_partner m) sync_hash_space_servers) push_hash_space_clients"

definition settle_loss :: "address \<Rightarrow> manager \<Rightarrow> manager" where
  "settle_loss addr m =
     (let m' = erase_new_servers (\<lambda>a. a = addr) m
      in if mg_auto_replace m' then delayed_replace_election m'
         else m'\<lparr>mg_copying := snd (progress_invalidate (mg_copying m'))\<rparr>)"

lemma snd_fault: "snd (fault_server ct a hs) = server_is_include hs a"
  by (simp add: fault_server_def server_is_include_def Let_def)

lemma mg_remove_server_eq:
  "mg_remove_server addr m =
     (let e = (if server_is_include (mg_whs m) addr \<or> server_is_include (mg_rhs m) addr
               then spread_all (with_fault addr m) else (with_fault addr m, []))
      in (settle_loss addr (fst e), snd e))"
  by (simp add: mg_remove_server_def mg_clock_incr_clocktime_eq case_prod_beta Let_def snd_fault
      with_fault_def spread_all_def settle_loss_def split del: if_split cong: if_cong)

lemma spread_all_keeps: "manager_inv p m \<Longrightarrow> keeps p (spread_all m)"
  by (auto simp: spread_all_def intro!: keeps_and_then sync_partner_keeps sync_servers_keeps push_clients_keeps)

lemma with_fault_keeps: "manager_inv p m \<Longrightarrow> manager_inv p (with_fault addr m)"
  by (auto simp: manager_inv_def with_fault_def Let_def intro: wf_intros)

lemma settle_loss_keeps: "manager_inv p m \<Longrightarrow> manager_inv p (settle_loss addr m)"
  using erase_new_keeps [of p "\<lambda>a. a = addr" m]
  by (simp add: settle_loss_def Let_def del: erase_new_keeps) (simp add: manager_inv_def)

lemma remove_keeps [wf_intros]: "manager_inv p m \<Longrightarrow> keeps p (mg_remove_server addr m)"
  using spread_all_keeps [of p "with_fault addr m"] with_fault_keeps [of p m addr] settle_loss_keeps [of p _ addr]
  by (simp add: mg_remove_server_eq Let_def keeps_def)

lemma fold_keeps:
  assumes "\<And>x m. manager_inv p m \<Longrightarrow> keeps p (f x m)" and "keeps p e"
  shows "keeps p (fold (\<lambda>x e. and_then e (f x)) xs e)"
  using assms(2) by (induction xs arbitrary: e) (simp_all add: assms(1) keeps_and_then)

lemma mg_with_catch_keeps: "keeps p (snd out) \<Longrightarrow> keeps p (snd (mg_with_catch rid out))"
  by (auto simp: mg_with_catch_def keeps_def dispatch_catch_def case_prod_beta Let_def split: option.splits)

lemma HashSpaceSync_keeps:
  assumes "manager_inv p m" and "seed_ok ws" and "seed_ok rs"
  shows "keeps p (snd (mg_HashSpaceSync p frm rid ws rs c m))"
  using assms hs_ok_seed [of ws p] hs_ok_seed [of rs p]
  by (auto simp: mg_HashSpaceSync_def Let_def) (auto simp: manager_inv_def mg_adjust_clock_def)

lemma ReplaceElection_keeps:
  assumes "manager_inv p m"
  shows "keeps p (snd (mg_ReplaceElection p frm rid sd c m))"
  using assms
  by (auto simp: mg_ReplaceElection_def Let_def intro!: keeps_and_then attach_keeps detach_keeps start_keeps)

lemma ReplaceCopyEnd_keeps:
  assumes "manager_inv p m"
  shows "keeps p (snd (mg_ReplaceCopyEnd frm rid ct c m))"
proof -
  have "manager_inv p (mg_adjust_clock c m\<lparr>mg_copying := snd (progress_pop ct frm (mg_copying (mg_adjust_clock c m)))\<rparr>)"
    using assms by (auto simp: manager_inv_def progress_pop_rem mg_adjust_clock_def)
  then show ?thesis
    unfolding mg_ReplaceCopyEnd_def case_prod_beta Let_def snd_conv
    by (intro keeps_and_then) (simp_all add: finish_copy_keeps)
qed

lemma ReplaceDeleteEnd_keeps:
  assumes "manager_inv p m"
  shows "keeps p (snd (mg_ReplaceDeleteEnd frm rid ct c m))"
  using assms by (auto simp: mg_ReplaceDeleteEnd_def case_prod_beta Let_def mg_finish_replace_def manager_inv_def
      progress_pop_rem mg_adjust_clock_def)

lemma SetAutoReplace_keeps:
  assumes "manager_inv p m"
  shows "keeps p (snd (mg_SetAutoReplace p rid enable m))"
proof -
  have "manager_inv p (m\<lparr>mg_auto_replace := b\<rparr>)" for b using assms by (simp add: manager_inv_def)
  with assms show ?thesis
    by (auto simp: mg_SetAutoReplace_def intro!: keeps_and_then attach_keeps detach_keeps)
qed

lemma cluster_request_keeps:
  assumes "manager_inv p m" and "\<forall>sd \<in> set (request_seeds (To_manager req)). seed_ok sd"
  shows "keeps p (snd (mg_cluster_dispatch p frm rid req m))"
  unfolding mg_cluster_dispatch_def
  by (rule mg_with_catch_keeps, cases req)
    (use assms manager_inv_rings [OF assms(1)] in \<open>simp_all add: HashSpaceSync_keeps ReplaceElection_keeps
      ReplaceCopyEnd_keeps ReplaceDeleteEnd_keeps mg_KeepAlive_def mg_WHashSpaceRequest_def mg_RHashSpaceRequest_def\<close>)

lemma subsystem_request_keeps:
  assumes "manager_inv p m"
  shows "keeps p (snd (mg_subsystem_dispatch p rid req m))"
proof -
  have "keeps p (snd (mg_AttachNewServers p rid b m))" for b
    using assms by (auto simp: mg_AttachNewServers_def intro!: keeps_and_then attach_keeps start_keeps)
  moreover have "keeps p (snd (mg_DetachFaultServers p rid b m))" for b
    using assms by (auto simp: mg_DetachFaultServers_def intro!: keeps_and_then detach_keeps start_keeps)
  moreover have "keeps p (snd (mg_StartReplace rid b m))" for b
    using assms by (auto simp: mg_StartReplace_def intro!: keeps_and_then start_keeps)
  moreover have "keeps p (snd (mg_CreateBackup rid sfx m))" for sfx
    using assms by (auto simp: mg_CreateBackup_def keeps_simple)
  ultimately show ?thesis
    unfolding mg_subsystem_dispatch_def
    by (intro mg_with_catch_keeps, cases req)
      (use SetAutoReplace_keeps [OF assms] assms manager_inv_rings [OF assms] in
        \<open>simp_all add: mg_HashSpaceRequest_def mg_GetNodesInfo_def\<close>)
qed

lemma manager_event_keeps:
  assumes "manager_inv p m" and "\<forall>sd \<in> set (event_seeds ev). seed_ok sd"
  shows "keeps p (manager_apply p ev m)"
proof (cases ev)
  case (Req_cluster frm rid req)
  with assms show ?thesis by (simp add: cluster_request_keeps)
next
  case (Req_subsystem rid req)
  with assms show ?thesis by (simp add: subsystem_request_keeps)
next
  case (Reply_election res err)
  with assms show ?thesis by (simp add: res_ReplaceElection_def start_keeps)
next
  case (Reply_keep_alive i err)
  with assms show ?thesis
    by (auto simp: res_KeepAlive_def case_prod_beta Let_def manager_inv_def split: option.splits)
next
  case (Node_new addr r i)
  have "manager_inv p (m\<lparr>mg_new_servers := ns\<rparr>)" for ns using assms by (simp add: manager_inv_def)
  with Node_new assms show ?thesis
    by (simp add: mg_new_node_def mg_add_server_def Let_def sync_partner_keeps)
next
  case (Node_lost addr r)
  with assms show ?thesis by (simp add: mg_lost_node_def remove_keeps)
next
  case (Timer now)
  have "manager_inv p (m\<lparr>mg_clock := c, mg_do_after := q\<rparr>)" for c q using assms by (simp add: manager_inv_def)
  with Timer show ?thesis
    by (auto simp: mg_timer_handler_def cas_checked_replace_election_def case_prod_beta Let_def
        intro!: fold_keeps election_keeps)
next
  case Keep_alive
  with assms show ?thesis
    by (auto simp: mg_keep_alive_def mg_clock_incr_eq keeps_simple) (auto simp: sends_ok_def)
next
  case (Net cl)
  with assms show ?thesis by (simp add: manager_inv_def)
qed

lemma manager_new_inv: "manager_inv p (manager_new addr partner auto delay clk cl)"
  by (simp add: manager_inv_def manager_new_def hs_ok_new progress_new_def progress_ok_def)

lemma manager_reach_keeps:
  assumes "manager_reach p m0 evs acts m" and "manager_inv p m0"
    and "\<forall>ev \<in> set evs. \<forall>sd \<in> set (event_seeds ev). seed_ok sd"
  shows "manager_inv p m \<and> sends_ok acts"
  using assms
proof (induction rule: manager_reach.induct)
  case (mreach_step evs acts m ev m' acts')
  then have "keeps p (manager_apply p ev m)" by (intro manager_event_keeps) auto
  with mreach_step show ?case by (simp add: keeps_def)
qed simp

text \<open>
  C23: whatever happens to a manager, its two rings stay consistent: their virtual nodes are
  exactly those of their nodes and no address is in a ring twice; the rings it sends, to
  servers, gateways and its partner, are free of duplicates too, provided those it is sent
  are; and of the two phases of a replacement at most one is waiting for servers.
\<close>

theorem manager_rings_invariant:
  assumes "manager_reach p (manager_new addr partner auto delay clk cl) evs acts m"
    and "\<forall>ev \<in> set evs. \<forall>sd \<in> set (event_seeds ev). distinct (map m_addr (seed_nodes sd))"
  shows "(\<forall>hs \<in> {mg_whs m, mg_rhs m}. distinct (map m_addr (m_nodes hs)) \<and>
      map (\<lambda>v. (m_hash v, m_addr (m_real v))) (m_hashspace hs) = ring_addr p (map m_addr (m_nodes hs))) \<and>
    (\<forall>a \<in> set acts. \<forall>sd \<in> set (action_seeds a). distinct (map m_addr (seed_nodes sd))) \<and>
    (p_remainder (mg_copying m) = [] \<or> p_remainder (mg_deleting m) = [])"
  using manager_reach_keeps [OF assms(1) manager_new_inv] assms(2)
  by (auto simp: seed_ok_def manager_inv_def hs_ok_def hs_inv_def strip_def [abs_def] sends_ok_def)

lemma manager_reach_exists: "\<exists>acts m. manager_reach p m0 evs acts m"
proof (induction evs rule: rev_induct)
  case (snoc ev evs)
  then obtain acts m where "manager_reach p m0 evs acts m" by blast
  from mreach_step [OF this, of ev] show ?case by (metis surj_pair)
qed (blast intro: mreach_start)

text \<open>A network with one live server, known by its session 0.\<close>

definition sample_cluster :: "manager_cb cluster" where
  "sample_cluster = \<lparr>cl_self_id = ROLE_MANAGER, cl_self_addr = sample_addr 9, cl_connect_retry_limit = 2,
     cl_sessions = [(sample_addr 1, 0)],
     cl_nodes = [0 \<mapsto> \<lparr>n_addr = sample_addr 1, n_role = 1, n_session = session_new\<rparr>],
     cl_next = 1, cl_peers = [], cl_peer_sessions = Map.empty, cl_next_peer = 0, cl_transports = Map.empty\<rparr>"

definition sample_manager :: manager where
  "sample_manager = manager_new (sample_addr 9) address_nil True 4 \<lparr>m_clock = \<lparr>clock_m = 5\<rparr>, m_time = 100\<rparr> sample_cluster"

definition sample_events :: "manager_event list" where
  "sample_events = [Node_new (sample_addr 1) ROLE_SERVER 0, Req_subsystem 3 (M_AttachNewServers True),
     Req_cluster (sample_addr 1) 4 (M_KeepAlive 9)]"

theorem manager_rings_invariant_witness:
  "\<exists>acts m. manager_reach sample_platform sample_manager sample_events acts m \<and>
     distinct (map m_addr (m_nodes (mg_whs m)))"
proof -
  obtain acts m where r: "manager_reach sample_platform sample_manager sample_events acts m"
    using manager_reach_exists by blast
  have "\<forall>ev \<in> set sample_events. \<forall>sd \<in> set (event_seeds ev). distinct (map m_addr (seed_nodes sd))"
    by (simp add: sample_events_def)
  from manager_rings_invariant [OF r [unfolded sample_manager_def] this] r show ?thesis by blast
qed

section \<open>The phases of a replacement\<close>

text \<open>
  What a replacement promises, without its data structures: nothing is going on; some of the
  servers that were asked to copy have not answered; or some of those asked to delete have not.
\<close>

datatype phase =
    Idle
  | Copying clocktime "address set" "address set"
  | Deleting clocktime "address set" "address set"

definition phase_of :: "manager \<Rightarrow> phase" where
  "phase_of m =
     (if p_remainder (mg_copying m) \<noteq> [] then
        Copying (p_clocktime (mg_copying m)) (set (p_remainder (mg_copying m))) (set (p_target_nodes (mg_copying m)))
      else if p_remainder (mg_deleting m) \<noteq> [] then
        Deleting (p_clocktime (mg_deleting m)) (set (p_remainder (mg_deleting m))) (set (p_target_nodes (mg_deleting m)))
      else Idle)"

definition may_start :: "manager_event \<Rightarrow> bool" where
  "may_start ev = (case ev of
       Req_cluster frm rid (M_ReplaceElection sd c) \<Rightarrow> True
     | Req_subsystem rid (M_AttachNewServers b) \<Rightarrow> b
     | Req_subsystem rid (M_DetachFaultServers b) \<Rightarrow> b
     | Req_subsystem rid (M_StartReplace fu) \<Rightarrow> True
     | Reply_election res err \<Rightarrow> True
     | Timer now \<Rightarrow> True
     | _ \<Rightarrow> False)"

inductive phase_step :: "manager_event \<Rightarrow> phase \<Rightarrow> phase \<Rightarrow> bool" where
  ph_stay: "phase_step ev ph ph"
| ph_start: "may_start ev \<Longrightarrow> phase_step ev ph (if T = {} then Idle else Copying t T T)"
| ph_copied: "phase_step (Req_cluster a rid (M_ReplaceCopyEnd t c)) (Copying t P T)
    (if P \<subseteq> {a} then Deleting t T T else Copying t (P - {a}) T)"
| ph_deleted: "phase_step (Req_cluster a rid (M_ReplaceDeleteEnd t c)) (Deleting t P T)
    (if P \<subseteq> {a} then Idle else Deleting t (P - {a}) T)"
| ph_lost: "phase_step (Node_lost a ROLE_SERVER) (Copying t P T) Idle"

text \<open>The servers asked to delete, and to copy, in a list of actions.\<close>

fun delete_target :: "manager_action \<Rightarrow> address option" where
  "delete_target (Call a (To_server (S_ReplaceDeleteStart sd c)) cb t) = Some a"
| "delete_target _ = None"

definition delete_targets :: "manager_action list \<Rightarrow> address list" where
  "delete_targets acts = List.map_filter delete_target acts"

lemma delete_targets_simps [simp]:
  "delete_targets [] = []" "delete_targets (xs @ ys) = delete_targets xs @ delete_targets ys"
  "delete_targets (a # acts) = (case delete_target a of None \<Rightarrow> [] | Some x \<Rightarrow> [x]) @ delete_targets acts"
  by (simp_all add: delete_targets_def List.map_filter_def split: option.splits)

lemma delete_targets_none: "(\<And>a. a \<in> set acts \<Longrightarrow> delete_target a = None) \<Longrightarrow> delete_targets acts = []"
  by (induction acts) simp_all

lemma call_servers_targets [simp]: "delete_targets (call_servers req cb m) = []"
  by (rule delete_targets_none) (auto simp: call_servers_def)

lemma spread_targets [simp]:
  "delete_targets (snd (sync_hash_space_partner m)) = []" "delete_targets (snd (sync_hash_space_servers m)) = []"
  "delete_targets (snd (push_hash_space_clients m)) = []"
proof -
  show "delete_targets (snd (push_hash_space_clients m)) = []"
    by (rule delete_targets_none) (auto simp: push_hash_space_clients_def)
qed (simp_all add: sync_hash_space_partner_def sync_hash_space_servers_def mg_clock_incr_eq)

lemma replace_targets [simp]:
  "delete_targets (snd (attach_new_servers p m)) = []" "delete_targets (snd (detach_fault_servers p m)) = []"
  "delete_targets (snd (start_replace fu m)) = []"
  by (simp_all add: attach_new_servers_def detach_fault_servers_def start_replace_def mg_clock_incr_eq
      mg_clock_incr_clocktime_eq Let_def)

text \<open>A step of a manager that does not finish copying.\<close>

definition plain :: "manager_event \<Rightarrow> manager \<Rightarrow> manager_eff \<Rightarrow> bool" where
  "plain ev m e \<longleftrightarrow> phase_step ev (phase_of m) (phase_of (fst e)) \<and> delete_targets (snd e) = []"

lemma phase_of_start: "phase_of (fst (start_replace fu m)) =
   (if set (live_servers m) = {} then Idle else Copying (m_timestamp (mg_whs m)) (set (live_servers m)) (set (live_servers m)))"
  by (simp add: phase_of_def start_replace_eq progress_reset_def)

lemma phase_of_same: "same_phase m m' \<Longrightarrow> phase_of m' = phase_of m"
  by (simp add: same_phase_def phase_of_def)

lemma plain_same: "same_phase m (fst e) \<Longrightarrow> delete_targets (snd e) = [] \<Longrightarrow> plain ev m e"
  by (simp add: plain_def phase_of_same ph_stay)

lemma plain_start: "may_start ev \<Longrightarrow> plain ev m (start_replace fu m')"
  using ph_start [of ev "phase_of m" "set (live_servers m')" "m_timestamp (mg_whs m')"]
  by (simp add: plain_def phase_of_start)

lemma plain_then_start: "may_start ev \<Longrightarrow> delete_targets (snd e) = [] \<Longrightarrow> plain ev m (and_then e (start_replace fu))"
  using plain_start [of ev m fu "fst e"] by (simp add: plain_def)

lemma plain_then_respond [simp]: "plain ev m (and_then e (\<lambda>m. (m, [Respond rid v]))) = plain ev m e"
  by (simp add: plain_def)

lemma attach_detach_same: "same_phase m (fst (and_then (attach_new_servers p m) (detach_fault_servers p)))"
  using attach_frame [of m p] detach_frame [of "fst (attach_new_servers p m)" p] by (simp add: same_phase_def)

text \<open>An election ends in the state of the replacement it found, or in a new replacement.\<close>

definition fresh :: "phase \<Rightarrow> bool" where
  "fresh ph \<longleftrightarrow> (\<exists>T t. ph = (if T = {} then Idle else Copying t T T))"

definition restarted :: "manager \<Rightarrow> manager_eff \<Rightarrow> bool" where
  "restarted m e \<longleftrightarrow> (phase_of (fst e) = phase_of m \<or> fresh (phase_of (fst e))) \<and> delete_targets (snd e) = []"

lemma restarted_plain: "may_start ev \<Longrightarrow> restarted m e \<Longrightarrow> plain ev m e"
  using ph_stay [of ev "phase_of m"] ph_start [of ev "phase_of m"] by (auto simp: restarted_def plain_def fresh_def)

lemma restarted_then:
  "restarted m e \<Longrightarrow> restarted (fst e) (f (fst e)) \<Longrightarrow> restarted m (and_then e f)"
  by (auto simp: restarted_def)

lemma restarted_same: "same_phase m (fst e) \<Longrightarrow> delete_targets (snd e) = [] \<Longrightarrow> restarted m e"
  by (simp add: restarted_def phase_of_same)

lemma restarted_start: "restarted m (start_replace fu m)"
  by (simp add: restarted_def phase_of_start fresh_def) blast

lemma restarted_election: "restarted m (replace_election p m)"
  unfolding replace_election_def
proof (rule restarted_then)
  show "restarted m (and_then (attach_new_servers p m) (detach_fault_servers p))"
    by (rule restarted_same [OF attach_detach_same]) simp
  show "restarted m (if connectable (mg_partner m) \<and> mg_partner m < mg_addr m
      then let (c, m1) = mg_clock_incr m
           in (m1, [Call (mg_partner m) (To_manager (M_ReplaceElection (seed_of (mg_whs m)) c)) Cb_ReplaceElection 10])
      else start_replace False m)" for m
    by (simp add: restarted_start mg_clock_incr_eq) (simp add: restarted_def phase_of_def)
qed

lemma restarted_fold:
  "restarted m e \<Longrightarrow> restarted m (fold (\<lambda>cas e. and_then e (cas_checked_replace_election p cas)) fire e)"
proof (induction fire arbitrary: e)
  case (Cons cas fire)
  have "restarted (fst e) (cas_checked_replace_election p cas (fst e))"
    by (simp add: cas_checked_replace_election_def restarted_election) (simp add: restarted_def)
  with Cons show ?case by (simp add: restarted_then)
qed simp

lemma settle_loss_phase:
  assumes "p_remainder (mg_copying m) = [] \<or> p_remainder (mg_deleting m) = []"
  shows "phase_step (Node_lost addr ROLE_SERVER) (phase_of m) (phase_of (settle_loss addr m))"
proof (cases "mg_auto_replace m \<or> p_remainder (mg_copying m) = []")
  case True
  then have "phase_of (settle_loss addr m) = phase_of m"
    by (auto simp: settle_loss_def Let_def erase_new_servers_def delayed_replace_election_def phase_of_def)
  then show ?thesis by (simp add: ph_stay)
next
  case False
  with assms have "phase_of (settle_loss addr m) = Idle"
    by (simp add: settle_loss_def Let_def erase_new_servers_def phase_of_def)
  with False show ?thesis by (simp add: phase_of_def ph_lost)
qed

lemma spread_all_frame: "same_phase m (fst (spread_all m)) \<and> same_rings m (fst (spread_all m)) \<and> same_net m (fst (spread_all m))"
  by (simp add: spread_all_def spread_eqs frame_defs)

lemma with_fault_phase: "same_phase m (with_fault addr m)"
  by (simp add: with_fault_def Let_def frame_defs)

lemma remove_server_plain:
  assumes "manager_inv p m"
  shows "plain (Node_lost addr ROLE_SERVER) m (mg_remove_server addr m)"
proof -
  let ?e = "if server_is_include (mg_whs m) addr \<or> server_is_include (mg_rhs m) addr
    then spread_all (with_fault addr m) else (with_fault addr m, [])"
  have same: "same_phase m (fst ?e)"
    using with_fault_phase [of m addr] spread_all_frame [of "with_fault addr m"] by (simp add: same_phase_def)
  then have "p_remainder (mg_copying (fst ?e)) = [] \<or> p_remainder (mg_deleting (fst ?e)) = []"
    using assms by (simp add: same_phase_def manager_inv_def split del: if_split)
  from settle_loss_phase [OF this, of addr] phase_of_same [OF same]
  have "phase_step (Node_lost addr ROLE_SERVER) (phase_of m) (phase_of (settle_loss addr (fst ?e)))" by simp
  moreover have "delete_targets (snd ?e) = []" by (simp add: spread_all_def)
  ultimately show ?thesis by (simp add: plain_def mg_remove_server_eq Let_def del: if_split cong: if_cong)
qed

section \<open>The end of the copying phase\<close>

lemma progress_pop_fst:
  "fst (progress_pop ct a pr) \<longleftrightarrow> p_clocktime pr = ct \<and> p_remainder pr \<noteq> [] \<and> set (p_remainder pr) \<subseteq> {a}"
  by (auto simp: progress_pop_def Let_def filter_empty_conv)

lemma progress_pop_keeps [simp]:
  "p_clocktime (snd (progress_pop ct a pr)) = p_clocktime pr" "p_target_nodes (snd (progress_pop ct a pr)) = p_target_nodes pr"
  by (simp_all add: progress_pop_def Let_def)

lemma finish_copy_sel:
  "mg_copying (fst (mg_finish_replace_copy m)) = snd (progress_invalidate (mg_copying m))"
  "mg_deleting (fst (mg_finish_replace_copy m)) =
     progress_reset (p_clocktime (mg_copying m)) (p_target_nodes (mg_copying m)) (mg_deleting m)"
  "mg_rhs (fst (mg_finish_replace_copy m)) = mg_whs m" "mg_whs (fst (mg_finish_replace_copy m)) = mg_whs m"
  by (simp_all add: mg_finish_replace_copy_def mg_clock_incr_eq case_prod_beta Let_def spread_eqs)

lemma finish_copy_targets: "delete_targets (snd (mg_finish_replace_copy m)) = p_target_nodes (mg_copying m)"
proof -
  have "delete_targets (map (\<lambda>a. Call a (To_server (S_ReplaceDeleteStart sd c)) Cb_ReplaceDeleteStart 10) ts) = ts" for sd c ts
    by (induction ts) simp_all
  then show ?thesis by (simp add: mg_finish_replace_copy_def mg_clock_incr_eq case_prod_beta Let_def)
qed

lemma ReplaceCopyEnd_cases:
  assumes "manager_inv p m" and "mg_ReplaceCopyEnd frm rid t c m = (e, m', acts)"
  shows "if \<exists>P T. phase_of m = Copying t P T \<and> P \<subseteq> {frm}
    then delete_targets acts = p_target_nodes (mg_copying m) \<and> mg_rhs m' = mg_whs m \<and> mg_whs m' = mg_whs m \<and>
      phase_of m' = (let T = set (p_target_nodes (mg_copying m)) in Deleting t T T)
    else delete_targets acts = [] \<and> same_rings m m' \<and>
      phase_of m' = (case phase_of m of Copying t' P T \<Rightarrow> if t' = t then Copying t (P - {frm}) T else phase_of m | ph \<Rightarrow> ph)"
proof -
  let ?m = "mg_adjust_clock c m\<lparr>mg_copying := snd (progress_pop t frm (mg_copying m))\<rparr>"
  have adj: "mg_copying (mg_adjust_clock c m) = mg_copying m" by (simp add: mg_adjust_clock_def)
  have ok: "set (p_remainder (mg_copying m)) \<subseteq> set (p_target_nodes (mg_copying m))"
    using assms(1) by (simp add: manager_inv_def progress_ok_def)
  show ?thesis
  proof (cases "fst (progress_pop t frm (mg_copying m))")
    case True
    have m': "m' = fst (mg_finish_replace_copy ?m)" and acts: "acts = snd (mg_finish_replace_copy ?m) @ [Respond rid (V_bool True)]"
      using assms(2) True by (auto simp: mg_ReplaceCopyEnd_def case_prod_beta Let_def adj and_then_def)
    have ne: "p_target_nodes (mg_copying m) \<noteq> []" using True ok by (auto simp: progress_pop_fst)
    have "phase_of m' = (let T = set (p_target_nodes (mg_copying m)) in Deleting t T T)"
      using True ne by (simp add: m' finish_copy_sel phase_of_def progress_reset_def progress_pop_fst Let_def)
    moreover have "mg_rhs m' = mg_whs m" "mg_whs m' = mg_whs m"
      by (simp_all add: m' finish_copy_sel mg_adjust_clock_def)
    moreover have "phase_of m = Copying t (set (p_remainder (mg_copying m))) (set (p_target_nodes (mg_copying m)))"
      using True by (simp add: progress_pop_fst phase_of_def)
    ultimately show ?thesis
      using True by (auto simp: acts finish_copy_targets progress_pop_fst)
  next
    case False
    then have m': "m' = ?m" and acts: "acts = [Respond rid (V_bool True)]"
      using assms(2) by (auto simp: mg_ReplaceCopyEnd_def case_prod_beta Let_def adj and_then_def)
    have no: "\<not> (\<exists>P T. phase_of m = Copying t P T \<and> P \<subseteq> {frm})"
      using False by (auto simp: phase_of_def progress_pop_fst split: if_splits)
    have "phase_of m' = (case phase_of m of Copying t' P T \<Rightarrow> if t' = t then Copying t (P - {frm}) T else phase_of m | ph \<Rightarrow> ph)"
      using False unfolding m'
      by (auto simp: phase_of_def progress_pop_rem progress_pop_fst mg_adjust_clock_def filter_empty_conv)
    then show ?thesis unfolding if_not_P [OF no] by (simp add: acts m' same_rings_def mg_adjust_clock_def)
  qed
qed

lemma ReplaceCopyEnd_plain:
  assumes "manager_inv p m"
  shows "phase_step (Req_cluster frm rid (M_ReplaceCopyEnd t c)) (phase_of m)
    (phase_of (fst (snd (mg_ReplaceCopyEnd frm rid t c m))))"
proof -
  obtain e m' acts where out: "mg_ReplaceCopyEnd frm rid t c m = (e, m', acts)" by (metis prod_cases3)
  note cs = ReplaceCopyEnd_cases [OF assms out]
  show ?thesis
  proof (cases "\<exists>P T. phase_of m = Copying t P T \<and> P \<subseteq> {frm}")
    case True
    then obtain P T where PT: "phase_of m = Copying t P T" "P \<subseteq> {frm}" by blast
    then have "T = set (p_target_nodes (mg_copying m))" by (auto simp: phase_of_def split: if_splits)
    with cs True out PT ph_copied [of frm rid t c P T] show ?thesis by (simp add: Let_def)
  next
    case False
    have ph: "phase_of m' = (case phase_of m of Copying t' P T \<Rightarrow> if t' = t then Copying t (P - {frm}) T else phase_of m | ph \<Rightarrow> ph)"
      using cs unfolding if_not_P [OF False] by blast
    show ?thesis
    proof (cases "\<exists>P T. phase_of m = Copying t P T")
      case True
      then obtain P T where PT: "phase_of m = Copying t P T" by blast
      with False ph out ph_copied [of frm rid t c P T] show ?thesis by simp
    next
      case no: False
      then have "phase_of m' = phase_of m" using ph by (auto split: phase.splits)
      with out ph_stay show ?thesis by simp
    qed
  qed
qed

lemma ReplaceDeleteEnd_plain:
  assumes "manager_inv p m"
  shows "plain (Req_cluster frm rid (M_ReplaceDeleteEnd t c)) m (snd (mg_ReplaceDeleteEnd frm rid t c m))"
proof -
  let ?pop = "progress_pop t frm (mg_deleting m)"
  have adj: "mg_deleting (mg_adjust_clock c m) = mg_deleting m" "mg_copying (mg_adjust_clock c m) = mg_copying m"
    by (simp_all add: mg_adjust_clock_def)
  have inv: "p_remainder (mg_copying m) = [] \<or> p_remainder (mg_deleting m) = []"
    using assms by (simp add: manager_inv_def)
  define m' where "m' = fst (snd (mg_ReplaceDeleteEnd frm rid t c m))"
  have m': "m' = (if fst ?pop then mg_finish_replace (mg_adjust_clock c m\<lparr>mg_deleting := snd ?pop\<rparr>)
      else mg_adjust_clock c m\<lparr>mg_deleting := snd ?pop\<rparr>)"
    by (simp add: m'_def mg_ReplaceDeleteEnd_def case_prod_beta Let_def adj)
  have "phase_step (Req_cluster frm rid (M_ReplaceDeleteEnd t c)) (phase_of m) (phase_of m')"
  proof (cases "p_clocktime (mg_deleting m) = t \<and> p_remainder (mg_deleting m) \<noteq> []")
    case True
    then have ph: "phase_of m = Deleting t (set (p_remainder (mg_deleting m))) (set (p_target_nodes (mg_deleting m)))"
      using inv by (simp add: phase_of_def)
    have "phase_of m' = (if set (p_remainder (mg_deleting m)) \<subseteq> {frm} then Idle
        else Deleting t (set (p_remainder (mg_deleting m)) - {frm}) (set (p_target_nodes (mg_deleting m))))"
      using True inv by (auto simp: m' phase_of_def mg_finish_replace_def adj progress_pop_fst progress_pop_rem filter_empty_conv)
    with ph ph_deleted [of frm rid t c] show ?thesis by simp
  next
    case False
    then have "phase_of m' = phase_of m"
      by (auto simp: m' phase_of_def adj progress_pop_fst progress_pop_rem)
    then show ?thesis by (simp add: ph_stay)
  qed
  then show ?thesis
    by (simp add: plain_def m'_def) (simp add: mg_ReplaceDeleteEnd_def case_prod_beta Let_def)
qed

definition copy_end :: "manager_event \<Rightarrow> bool" where
  "copy_end ev = (case ev of Req_cluster frm rid (M_ReplaceCopyEnd t c) \<Rightarrow> True | _ \<Rightarrow> False)"

lemma mg_with_catch_fst: "fst (snd (mg_with_catch rid out)) = fst (snd out)"
  by (auto simp: mg_with_catch_def case_prod_beta Let_def split: option.splits)

lemma mg_with_catch_targets: "delete_targets (snd (snd (mg_with_catch rid out))) = delete_targets (snd (snd out))"
  by (auto simp: mg_with_catch_def case_prod_beta Let_def dispatch_catch_def split: option.splits)

lemma mg_with_catch_plain: "plain ev m (snd (mg_with_catch rid out)) = plain ev m (snd out)"
  by (simp add: plain_def mg_with_catch_fst mg_with_catch_targets)

lemma ReplaceElection_plain: "plain (Req_cluster frm rid (M_ReplaceElection sd c)) m (snd (mg_ReplaceElection p frm rid sd c m))"
proof -
  have "phase_of (mg_adjust_clock c m) = phase_of m" by (simp add: phase_of_def mg_adjust_clock_def)
  moreover have "may_start (Req_cluster frm rid (M_ReplaceElection sd c))" by (simp add: may_start_def)
  from plain_then_start [OF this, of "and_then (attach_new_servers p (mg_adjust_clock c m)) (detach_fault_servers p)" m False]
  have "plain (Req_cluster frm rid (M_ReplaceElection sd c)) m
      (and_then (and_then (attach_new_servers p (mg_adjust_clock c m)) (detach_fault_servers p)) (start_replace False))" by simp
  ultimately show ?thesis
    by (auto simp: mg_ReplaceElection_def Let_def plain_def ph_stay)
qed

lemma cluster_request_plain:
  assumes "manager_inv p m" and "\<not> copy_end (Req_cluster frm rid req)"
  shows "plain (Req_cluster frm rid req) m (snd (mg_cluster_dispatch p frm rid req m))"
  unfolding mg_cluster_dispatch_def mg_with_catch_plain
  by (cases req)
    (use assms in \<open>auto intro!: plain_same simp: ReplaceElection_plain ReplaceDeleteEnd_plain copy_end_def frame_defs
      mg_KeepAlive_def mg_WHashSpaceRequest_def mg_RHashSpaceRequest_def mg_HashSpaceSync_def Let_def mg_adjust_clock_def
      erase_new_servers_def\<close>)

lemma subsystem_request_plain:
  "plain (Req_subsystem rid req) m (snd (mg_subsystem_dispatch p rid req m))"
proof -
  have "plain (Req_subsystem rid req) m (snd (mg_SetAutoReplace p rid b m))" for b
    using attach_detach_same [of "m\<lparr>mg_auto_replace := True\<rparr>" p]
    by (auto intro!: plain_same simp: mg_SetAutoReplace_def frame_defs)
  moreover have "plain (Req_subsystem rid (M_AttachNewServers b)) m (snd (mg_AttachNewServers p rid b m))" for b
    using attach_frame [of m p]
    by (cases b) (simp_all add: mg_AttachNewServers_def may_start_def plain_then_start plain_same)
  moreover have "plain (Req_subsystem rid (M_DetachFaultServers b)) m (snd (mg_DetachFaultServers p rid b m))" for b
    using detach_frame [of m p]
    by (cases b) (simp_all add: mg_DetachFaultServers_def may_start_def plain_then_start plain_same)
  moreover have "plain (Req_subsystem rid (M_StartReplace fu)) m (snd (mg_StartReplace rid fu m))" for fu
    by (simp add: mg_StartReplace_def plain_start may_start_def)
  moreover have "plain (Req_subsystem rid req) m (snd (mg_CreateBackup rid sfx m))" for sfx
    by (auto intro!: plain_same simp: mg_CreateBackup_def frame_defs)
  ultimately show ?thesis
    unfolding mg_subsystem_dispatch_def mg_with_catch_plain
    by (cases req) (auto intro!: plain_same simp: mg_HashSpaceRequest_def mg_GetNodesInfo_def frame_defs)
qed

lemma event_plain:
  assumes "manager_inv p m" and "\<not> copy_end ev"
  shows "plain ev m (manager_apply p ev m)"
proof (cases ev)
  case (Reply_election res err)
  then show ?thesis
    by (auto simp: res_ReplaceElection_def may_start_def frame_defs intro!: plain_start plain_same)
next
  case (Reply_keep_alive i err)
  then show ?thesis
    by (auto intro!: plain_same simp: res_KeepAlive_def case_prod_beta Let_def frame_defs split: option.splits)
next
  case (Node_new addr r i)
  then show ?thesis
    by (auto intro!: plain_same simp: mg_new_node_def mg_add_server_def Let_def delayed_replace_election_def spread_eqs frame_defs)
next
  case (Node_lost addr r)
  then show ?thesis
    using remove_server_plain [OF assms(1), of addr]
    by (auto simp: mg_lost_node_def frame_defs intro!: plain_same)
next
  case (Timer now)
  have "restarted m (fold (\<lambda>cas e. and_then e (cas_checked_replace_election p cas)) fire (m\<lparr>mg_clock := c, mg_do_after := q\<rparr>, []))" for fire c q
    by (rule restarted_fold) (simp add: restarted_def phase_of_def)
  then show ?thesis
    by (auto simp: Timer mg_timer_handler_def case_prod_beta Let_def may_start_def intro!: restarted_plain)
next
  case Keep_alive
  have "delete_targets (map (\<lambda>i. Call_node i (To_server (S_KeepAlive c)) Cb_MKeepAlive 10) is) = []" for c "is"
    by (rule delete_targets_none) auto
  with Keep_alive show ?thesis
    by (auto intro!: plain_same simp: mg_keep_alive_def mg_clock_incr_eq frame_defs)
qed (use assms in \<open>auto intro: cluster_request_plain subsystem_request_plain plain_same simp: frame_defs\<close>)

lemma copy_end_dispatch:
  "snd (mg_cluster_dispatch p frm rid (M_ReplaceCopyEnd t c) m) = snd (mg_ReplaceCopyEnd frm rid t c m)"
  by (simp add: mg_cluster_dispatch_def mg_with_catch_def mg_ReplaceCopyEnd_def case_prod_beta Let_def)

lemma event_refines:
  assumes "manager_inv p m" and "manager_apply p ev m = (m', acts)"
  shows "phase_step ev (phase_of m) (phase_of m')"
    and "delete_targets acts \<noteq> [] \<Longrightarrow> \<exists>a rid t c P T. ev = Req_cluster a rid (M_ReplaceCopyEnd t c) \<and>
      phase_of m = Copying t P T \<and> P \<subseteq> {a} \<and> set (delete_targets acts) = T \<and>
      phase_of m' = Deleting t T T \<and> mg_rhs m' = mg_whs m' \<and> mg_whs m' = mg_whs m"
proof -
  have "phase_step ev (phase_of m) (phase_of m') \<and> (delete_targets acts \<noteq> [] \<longrightarrow>
    (\<exists>a rid t c P T. ev = Req_cluster a rid (M_ReplaceCopyEnd t c) \<and>
      phase_of m = Copying t P T \<and> P \<subseteq> {a} \<and> set (delete_targets acts) = T \<and>
      phase_of m' = Deleting t T T \<and> mg_rhs m' = mg_whs m' \<and> mg_whs m' = mg_whs m))"
  proof (cases "copy_end ev")
    case True
    then obtain a rid t c where ev: "ev = Req_cluster a rid (M_ReplaceCopyEnd t c)"
      by (auto simp: copy_end_def split: manager_event.splits manager_request.splits)
    obtain e where out: "mg_ReplaceCopyEnd a rid t c m = (e, m', acts)"
      using assms(2) by (cases "mg_ReplaceCopyEnd a rid t c m") (simp add: ev copy_end_dispatch)
    note cs = ReplaceCopyEnd_cases [OF assms(1) out]
    have "delete_targets acts \<noteq> [] \<Longrightarrow> \<exists>P T. phase_of m = Copying t P T \<and> P \<subseteq> {a}"
      using cs by (auto split: if_splits)
    moreover have "set (delete_targets acts) = T \<and> phase_of m' = Deleting t T T \<and> mg_rhs m' = mg_whs m' \<and> mg_whs m' = mg_whs m"
      if PT: "phase_of m = Copying t P T" "P \<subseteq> {a}" for P T
    proof -
      have ex: "\<exists>P T. phase_of m = Copying t P T \<and> P \<subseteq> {a}" using PT by blast
      have T: "T = set (p_target_nodes (mg_copying m))" using PT(1) by (auto simp: phase_of_def split: if_splits)
      show ?thesis using cs unfolding if_P [OF ex] by (simp add: T Let_def)
    qed
    ultimately show ?thesis using ReplaceCopyEnd_plain [OF assms(1), of a rid t c] out unfolding ev by auto
  next
    case False
    with event_plain [OF assms(1) False] assms(2) show ?thesis by (simp add: plain_def)
  qed
  then show "phase_step ev (phase_of m) (phase_of m')"
    and "delete_targets acts \<noteq> [] \<Longrightarrow> \<exists>a rid t c P T. ev = Req_cluster a rid (M_ReplaceCopyEnd t c) \<and>
      phase_of m = Copying t P T \<and> P \<subseteq> {a} \<and> set (delete_targets acts) = T \<and>
      phase_of m' = Deleting t T T \<and> mg_rhs m' = mg_whs m' \<and> mg_whs m' = mg_whs m"
    by blast+
qed

text \<open>
  C5: every event takes a manager through the phases of a replacement: it starts one with all
  live servers, takes the report of one server, or abandons the copying phase when a server is
  lost. Servers are told to delete records only at one moment: when the last server that was
  told to copy has reported the end of this very replacement. Then exactly the servers that
  were told to copy are told to delete, and readers are moved to the new ring.
\<close>

theorem replacement_refines_phases:
  assumes "manager_reach p (manager_new addr partner auto delay clk cl) evs acts m"
    and "\<forall>ev \<in> set evs. \<forall>sd \<in> set (event_seeds ev). distinct (map m_addr (seed_nodes sd))"
    and "manager_apply p ev m = (m', acts')"
  shows "phase_step ev (phase_of m) (phase_of m') \<and>
    (delete_targets acts' \<noteq> [] \<longrightarrow> (\<exists>a rid t c P T. ev = Req_cluster a rid (M_ReplaceCopyEnd t c) \<and>
      phase_of m = Copying t P T \<and> P \<subseteq> {a} \<and> set (delete_targets acts') = T \<and>
      phase_of m' = Deleting t T T \<and> mg_rhs m' = mg_whs m' \<and> mg_whs m' = mg_whs m))"
proof -
  have "manager_inv p m" using manager_reach_keeps [OF assms(1) manager_new_inv] assms(2) by (simp add: seed_ok_def)
  from event_refines [OF this assms(3)] show ?thesis by blast
qed

theorem replacement_refines_phases_witness:
  "\<exists>acts m. manager_reach sample_platform sample_manager sample_events acts m \<and>
     phase_step Keep_alive (phase_of m) (phase_of (fst (manager_apply sample_platform Keep_alive m)))"
proof -
  obtain acts m where r: "manager_reach sample_platform sample_manager sample_events acts m"
    using manager_reach_exists by blast
  have "\<forall>ev \<in> set sample_events. \<forall>sd \<in> set (event_seeds ev). distinct (map m_addr (seed_nodes sd))"
    by (simp add: sample_events_def)
  from replacement_refines_phases [OF r [unfolded sample_manager_def] this, of Keep_alive] r show ?thesis
    by (metis prod.collapse)
qed

section \<open>A replacement goes on\<close>

fun manager_run :: "platform \<Rightarrow> manager_event list \<Rightarrow> manager \<Rightarrow> manager_eff" where
  "manager_run p [] m = (m, [])"
| "manager_run p (ev # evs) m = and_then (manager_apply p ev m) (manager_run p evs)"

text \<open>
  Whether an event makes the manager start a replacement: a command that asks for it, a failed or
  empty reply of the partner in an election, an election the partner hands over and this manager
  accepts, or a due delayed election (the last one scheduled) that is not handed to the partner.
\<close>

definition hands_over :: "manager \<Rightarrow> bool" where
  "hands_over m \<longleftrightarrow> connectable (mg_partner m) \<and> mg_partner m < mg_addr m"

definition accepts_election :: "address \<Rightarrow> seed \<Rightarrow> manager \<Rightarrow> bool" where
  "accepts_election frm sd m \<longleftrightarrow> frm = mg_partner m \<and> \<not> seed_empty sd \<and>
     \<not> ct_less (seed_clocktime sd) (m_timestamp (mg_whs m)) \<and> \<not> ct_less (m_timestamp (mg_whs m)) (seed_clocktime sd) \<and>
     \<not> hashspace_eq_seed (mg_whs m) sd \<and> \<not> mg_partner m < mg_addr m"

definition starts_replace :: "manager_event \<Rightarrow> manager \<Rightarrow> bool" where
  "starts_replace ev m = (case ev of
       Req_cluster frm rid (M_ReplaceElection sd c) \<Rightarrow> accepts_election frm sd m
     | Req_subsystem rid (M_AttachNewServers b) \<Rightarrow> b
     | Req_subsystem rid (M_DetachFaultServers b) \<Rightarrow> b
     | Req_subsystem rid (M_StartReplace fu) \<Rightarrow> True
     | Reply_election res err \<Rightarrow> err \<noteq> V_nil \<or> res = V_nil
     | Timer now \<Rightarrow> mg_delayed_replace_cas m \<in> set (fst (step_do_after (mg_do_after m))) \<and> \<not> hands_over m
     | _ \<Rightarrow> False)"

text \<open>A lost server ends the copying only when no new replacement is to follow by itself.\<close>

definition abandons_replace :: "manager_event \<Rightarrow> manager \<Rightarrow> bool" where
  "abandons_replace ev m \<longleftrightarrow> (\<exists>a. ev = Node_lost a ROLE_SERVER) \<and> \<not> mg_auto_replace m"

definition undisturbed :: "manager_event \<Rightarrow> manager \<Rightarrow> bool" where
  "undisturbed ev m \<longleftrightarrow> \<not> starts_replace ev m \<and> \<not> abandons_replace ev m \<and> (\<forall>sd \<in> set (event_seeds ev). seed_ok sd)"

fun undisturbed_run :: "platform \<Rightarrow> manager_event list \<Rightarrow> manager \<Rightarrow> bool" where
  "undisturbed_run p [] m = True"
| "undisturbed_run p (ev # evs) m = (undisturbed ev m \<and> undisturbed_run p evs (fst (manager_apply p ev m)))"

text \<open>What a delayed election leaves alone when it is handed over, and when it is no longer the last one.\<close>

definition same_election :: "manager \<Rightarrow> manager \<Rightarrow> bool" where
  "same_election m m' \<longleftrightarrow> same_phase m m' \<and> mg_addr m' = mg_addr m \<and> mg_partner m' = mg_partner m \<and>
     mg_delayed_replace_cas m' = mg_delayed_replace_cas m"

lemma handed_over_same: "hands_over m \<Longrightarrow> same_election m (fst (replace_election p m))"
proof -
  let ?e = "and_then (attach_new_servers p m) (detach_fault_servers p)"
  have "same_election m (fst ?e)"
    by (simp add: same_election_def attach_new_servers_def detach_fault_servers_def mg_clock_incr_clocktime_eq spread_eqs frame_defs)
  then show "hands_over m \<Longrightarrow> ?thesis"
    by (simp add: replace_election_def same_election_def hands_over_def mg_clock_incr_eq frame_defs)
qed

lemma quiet_timer:
  assumes "mg_delayed_replace_cas m \<in> set (fst (step_do_after (mg_do_after m))) \<longrightarrow> hands_over m"
  shows "same_phase m (fst (mg_timer_handler p now m))"
proof -
  have "same_election m (fst (fold (\<lambda>cas e. and_then e (cas_checked_replace_election p cas)) fire e))"
    if "same_election m (fst e)" "mg_delayed_replace_cas m \<in> set fire \<longrightarrow> hands_over m" for fire e
    using that
  proof (induction fire arbitrary: e)
    case (Cons cas fire)
    have "same_election m (fst (cas_checked_replace_election p cas (fst e)))"
    proof (cases "mg_delayed_replace_cas (fst e) = cas")
      case True
      then have "hands_over (fst e)" using Cons.prems by (simp add: same_election_def hands_over_def)
      from handed_over_same [OF this, of p] Cons.prems(1) True show ?thesis
        by (simp add: cas_checked_replace_election_def same_election_def same_phase_def)
    qed (use Cons.prems in \<open>simp add: cas_checked_replace_election_def\<close>)
    with Cons show ?case by simp
  qed simp
  with assms show ?thesis
    by (simp add: mg_timer_handler_def case_prod_beta Let_def) (simp add: same_election_def frame_defs)
qed

lemma quiet_election:
  "\<not> accepts_election frm sd m \<Longrightarrow> same_phase m (fst (snd (mg_cluster_dispatch p frm rid (M_ReplaceElection sd c) m)))"
  by (auto simp: mg_cluster_dispatch_def mg_with_catch_def mg_ReplaceElection_def accepts_election_def mg_adjust_clock_def
      Let_def frame_defs)

lemma quiet_loss:
  assumes "manager_inv p m" and "mg_auto_replace m"
  shows "phase_of (fst (mg_lost_node addr r m)) = phase_of m"
proof -
  have "phase_of (fst (mg_remove_server addr m)) = phase_of m"
    using assms(2) by (simp add: mg_remove_server_def case_prod_beta Let_def mg_clock_incr_clocktime_eq spread_eqs
        erase_new_servers_def delayed_replace_election_def phase_of_def)
  then show ?thesis by (simp add: mg_lost_node_def)
qed

lemma quiet_event:
  assumes "manager_inv p m" and "undisturbed ev m" and "may_start ev \<or> (\<exists>a. ev = Node_lost a ROLE_SERVER)"
  shows "phase_of (fst (manager_apply p ev m)) = phase_of m"
proof (cases ev)
  case (Req_cluster frm rid req)
  with assms(2,3) obtain sd c where req: "req = M_ReplaceElection sd c" "\<not> accepts_election frm sd m"
    by (auto simp: may_start_def undisturbed_def starts_replace_def split: manager_request.splits)
  with quiet_election [OF req(2), of p rid c] Req_cluster show ?thesis by (simp add: phase_of_same)
next
  case (Req_subsystem rid req)
  with assms(2,3) show ?thesis
    by (auto simp: may_start_def undisturbed_def starts_replace_def split: manager_request.splits)
next
  case (Reply_election res err)
  with assms(2) show ?thesis by (auto simp: undisturbed_def starts_replace_def res_ReplaceElection_def)
next
  case (Node_lost a r)
  with assms show ?thesis
    using quiet_loss [OF assms(1), of a r] by (auto simp: undisturbed_def abandons_replace_def may_start_def)
next
  case (Timer now)
  with assms(2) have "same_phase m (fst (mg_timer_handler p now m))"
    by (intro quiet_timer) (simp add: undisturbed_def starts_replace_def)
  with Timer show ?thesis by (simp add: phase_of_same)
qed (use assms(3) in \<open>auto simp: may_start_def\<close>)

definition reporters :: "clocktime \<Rightarrow> manager_event list \<Rightarrow> address set" where
  "reporters t evs = {a. \<exists>rid c. Req_cluster a rid (M_ReplaceCopyEnd t c) \<in> set evs}"

lemma event_inv: "manager_inv p m \<Longrightarrow> undisturbed ev m \<Longrightarrow> manager_inv p (fst (manager_apply p ev m))"
  using manager_event_keeps [of p m ev] by (simp add: undisturbed_def keeps_def)

inductive_cases phase_stepE: "phase_step ev ph ph'"

lemma undisturbed_step:
  assumes "manager_inv p m" and "undisturbed ev m" and "manager_apply p ev m = (m1, acts)"
  shows "phase_of m1 = phase_of m \<or>
    (\<exists>a rid t c P T. ev = Req_cluster a rid (M_ReplaceCopyEnd t c) \<and> phase_of m = Copying t P T) \<or>
    (\<exists>t P T. phase_of m = Deleting t P T \<and> (\<forall>t P T. phase_of m1 \<noteq> Copying t P T))"
proof (cases "may_start ev \<or> (\<exists>a. ev = Node_lost a ROLE_SERVER)")
  case True
  with quiet_event [OF assms(1,2)] assms(3) show ?thesis by simp
next
  case False
  with event_refines(1) [OF assms(1,3)] show ?thesis by (elim phase_stepE) (auto split: if_splits)
qed

lemma no_copying_run:
  assumes "manager_inv p m" and "undisturbed_run p evs m" and "\<forall>t P T. phase_of m \<noteq> Copying t P T"
  shows "delete_targets (snd (manager_run p evs m)) = []"
  using assms
proof (induction evs arbitrary: m)
  case (Cons ev evs)
  obtain m1 acts where ap: "manager_apply p ev m = (m1, acts)" by fastforce
  have un: "undisturbed ev m" "undisturbed_run p evs m1" using Cons.prems ap by simp_all
  have "delete_targets acts = []" using event_refines(2) [OF Cons.prems(1) ap] Cons.prems(3) by blast
  moreover have "\<forall>t P T. phase_of m1 \<noteq> Copying t P T"
    using undisturbed_step [OF Cons.prems(1) un(1) ap] Cons.prems(3) by auto
  moreover have "manager_inv p m1" using event_inv [OF Cons.prems(1) un(1)] ap by simp
  ultimately show ?case using Cons.IH [of m1] un(2) ap by simp
qed simp

lemma copying_step:
  assumes "manager_inv p m" and "undisturbed ev m" and "phase_of m = Copying t P T" and "manager_apply p ev m = (m1, acts)"
  shows "if P \<subseteq> reporters t [ev] then phase_of m1 = Deleting t T T \<and> set (delete_targets acts) = T
    else phase_of m1 = Copying t (P - reporters t [ev]) T \<and> delete_targets acts = []"
proof -
  have ne: "P \<noteq> {}" using assms(3) by (auto simp: phase_of_def split: if_splits)
  show ?thesis
  proof (cases "\<exists>a rid c. ev = Req_cluster a rid (M_ReplaceCopyEnd t c)")
    case True
    then obtain a rid c where ev: "ev = Req_cluster a rid (M_ReplaceCopyEnd t c)" by blast
    then have rep: "reporters t [ev] = {a}" by (auto simp: reporters_def)
    obtain e where out: "mg_ReplaceCopyEnd a rid t c m = (e, m1, acts)"
      using assms(4) by (cases "mg_ReplaceCopyEnd a rid t c m") (simp add: ev copy_end_dispatch)
    have T: "T = set (p_target_nodes (mg_copying m))" using assms(3) by (auto simp: phase_of_def split: if_splits)
    show ?thesis
      using ReplaceCopyEnd_cases [OF assms(1) out] assms(3) unfolding rep T by (auto simp: Let_def split: if_splits)
  next
    case False
    then have rep: "reporters t [ev] = {}" by (auto simp: reporters_def)
    have "phase_of m1 = Copying t P T"
      using undisturbed_step [OF assms(1,2,4)] assms(3) False by auto
    moreover have "delete_targets acts = []" using event_refines(2) [OF assms(1,4)] assms(3) False by auto
    ultimately show ?thesis using ne by (simp add: rep)
  qed
qed

lemma reporters_Cons: "reporters t (ev # evs) = reporters t [ev] \<union> reporters t evs"
  by (auto simp: reporters_def)

text \<open>
  C12: a replacement goes from copying to deleting when every server it waits for has
  reported, and not before. The events in between are any: reports in whatever order, repeated or
  of older replacements, timers, replies of the partner, servers that come, requests; and while
  replacements start by themselves also servers that are lost. Excluded are, at the moment they
  happen, the events that make this manager start another replacement and, when replacements do
  not start by themselves, the loss of a server (which abandons the copying). As long as a server
  has not reported, the replacement waits for exactly the servers that have not, and no server is
  told to delete; once all have, each server of the replacement is told to delete.
\<close>

theorem copying_ends_when_all_reported:
  assumes "manager_inv p m" and "undisturbed_run p evs m" and "phase_of m = Copying t P T"
  shows "if P \<subseteq> reporters t evs then set (delete_targets (snd (manager_run p evs m))) = T
    else phase_of (fst (manager_run p evs m)) = Copying t (P - reporters t evs) T \<and>
      delete_targets (snd (manager_run p evs m)) = []"
  using assms
proof (induction evs arbitrary: m P)
  case Nil
  then have "P \<noteq> {}" by (auto simp: phase_of_def split: if_splits)
  with Nil show ?case by (simp add: reporters_def)
next
  case (Cons ev evs)
  obtain m1 acts where ap: "manager_apply p ev m = (m1, acts)" by fastforce
  have un: "undisturbed ev m" "undisturbed_run p evs m1" using Cons.prems ap by simp_all
  have inv: "manager_inv p m1" using event_inv [OF Cons.prems(1) un(1)] ap by simp
  note step = copying_step [OF Cons.prems(1) un(1) Cons.prems(3) ap]
  show ?case
  proof (cases "P \<subseteq> reporters t [ev]")
    case True
    with step have "phase_of m1 = Deleting t T T" "set (delete_targets acts) = T" by simp_all
    with no_copying_run [OF inv un(2)] True ap show ?thesis by (auto simp: reporters_Cons [of t ev evs])
  next
    case False
    with step have ph: "phase_of m1 = Copying t (P - reporters t [ev]) T" and d: "delete_targets acts = []" by simp_all
    have "P - reporters t [ev] \<subseteq> reporters t evs \<longleftrightarrow> P \<subseteq> reporters t (ev # evs)"
      "P - reporters t [ev] - reporters t evs = P - reporters t (ev # evs)"
      by (auto simp: reporters_Cons [of t ev evs])
    with Cons.IH [OF inv un(2) ph] ap d show ?thesis by simp
  qed
qed

theorem copying_ends_when_all_reported_witness:
  "let m = sample_manager\<lparr>mg_copying := progress_reset (ClockTime 5) [sample_addr 1, sample_addr 2] progress_new\<rparr>
   in set (delete_targets (snd (manager_run sample_platform
        [Timer 101, Timer 102, Node_lost (sample_addr 3) ROLE_SERVER, Req_cluster (sample_addr 2) 1 (M_ReplaceCopyEnd (ClockTime 5) 3),
         Req_cluster (sample_addr 1) 2 (M_ReplaceCopyEnd (ClockTime 4) 3),
         Req_cluster (sample_addr 1) 3 (M_ReplaceCopyEnd (ClockTime 5) 3)] m))) = {sample_addr 1, sample_addr 2}"
proof -
  let ?m = "sample_manager\<lparr>mg_copying := progress_reset (ClockTime 5) [sample_addr 1, sample_addr 2] progress_new\<rparr>"
  let ?evs = "[Timer 101, Timer 102, Node_lost (sample_addr 3) ROLE_SERVER, Req_cluster (sample_addr 2) 1 (M_ReplaceCopyEnd (ClockTime 5) 3),
         Req_cluster (sample_addr 1) 2 (M_ReplaceCopyEnd (ClockTime 4) 3),
         Req_cluster (sample_addr 1) 3 (M_ReplaceCopyEnd (ClockTime 5) 3)]"
  have inv: "manager_inv sample_platform ?m"
    using manager_new_inv [of sample_platform "sample_addr 9" address_nil True 4 "\<lparr>m_clock = \<lparr>clock_m = 5\<rparr>, m_time = 100\<rparr>" sample_cluster]
    by (simp add: sample_manager_def) (simp add: manager_inv_def manager_new_def progress_new_def)
  have ph: "phase_of ?m = Copying (ClockTime 5) {sample_addr 1, sample_addr 2} {sample_addr 1, sample_addr 2}"
    by (simp add: phase_of_def progress_reset_def)
  have un: "undisturbed_run sample_platform ?evs ?m"
    by (simp add: undisturbed_def starts_replace_def abandons_replace_def copy_end_dispatch mg_timer_handler_def step_do_after_def
        sample_manager_def manager_new_def)
  have rep: "{sample_addr 1, sample_addr 2} \<subseteq> reporters (ClockTime 5) ?evs" by (auto simp: reporters_def)
  show ?thesis unfolding Let_def
    using copying_ends_when_all_reported [OF inv un ph] unfolding if_P [OF rep] .
qed

end
