(* ===== verification/ManagerElection.thy ===== *)
theory ManagerElection
  imports ManagerTheorems
begin

text \<open>
  Who drives a replacement when there are two managers, what the ring is after an election,
  who is told of a lost server, and how often a manager answers a request.
\<close>

section \<open>The ring after an election\<close>

lemma active_iff:
  assumes "distinct (map m_addr (m_nodes hs))"
  shows "server_is_active hs a \<longleftrightarrow> (\<exists>n \<in> set (m_nodes hs). m_addr n = a \<and> m_active n)"
proof -
  let ?it = "find_index (node_address_equal a) (m_nodes hs)"
  have le: "?it \<le> length (m_nodes hs)" by (rule find_index_le)
  have uniq: "n = m_nodes hs ! ?it" if "n \<in> set (m_nodes hs)" "m_addr n = a" for n
  proof -
    have "?it < length (m_nodes hs)"
      using that by (auto simp: find_index_less_iff node_address_equal_def)
    moreover from find_index_nth [OF this] have "m_addr (m_nodes hs ! ?it) = a" by (simp add: node_address_equal_def)
    ultimately show ?thesis using assms that by (metis distinct_map inj_onD nth_mem)
  qed
  show ?thesis
  proof
    assume "server_is_active hs a"
    with le have lt: "?it < length (m_nodes hs)" and act: "m_active (m_nodes hs ! ?it)"
      by (simp_all add: server_is_active_def Let_def)
    with find_index_nth [OF lt] show "\<exists>n \<in> set (m_nodes hs). m_addr n = a \<and> m_active n"
      by (auto simp: node_address_equal_def intro!: bexI [of _ "m_nodes hs ! ?it"])
  next
    assume "\<exists>n \<in> set (m_nodes hs). m_addr n = a \<and> m_active n"
    then obtain n where n: "n \<in> set (m_nodes hs)" "m_addr n = a" "m_active n" by blast
    then have "?it < length (m_nodes hs)" by (auto simp: find_index_less_iff node_address_equal_def)
    with uniq [OF n(1,2)] n(3) show "server_is_active hs a" by (simp add: server_is_active_def Let_def)
  qed
qed

definition active_addrs :: "hashspace \<Rightarrow> address set" where
  "active_addrs hs = m_addr ` {n \<in> set (m_nodes hs). m_active n}"

lemma nodes_distinctD: "distinct (map m_addr ns) \<Longrightarrow> n \<in> set ns \<Longrightarrow> n' \<in> set ns \<Longrightarrow> m_addr n = m_addr n' \<Longrightarrow> n = n'"
  by (metis distinct_map inj_onD)

lemma recover_set:
  assumes "distinct (map m_addr (m_nodes hs))" and "server_is_include hs a"
  shows "set (m_nodes (fst (recover_server ct a hs))) =
    (\<lambda>n. if m_addr n = a then node_recover n else n) ` set (m_nodes hs)"
proof -
  let ?ns = "m_nodes hs" and ?it = "find_index (node_address_equal a) (m_nodes hs)"
  have lt: "?it < length ?ns" using assms(2) find_index_le [of "node_address_equal a" ?ns] by (simp add: server_is_include_def)
  have a: "m_addr (?ns ! ?it) = a" using find_index_nth [OF lt] by (simp add: node_address_equal_def)
  have other: "m_addr (?ns ! i) \<noteq> a" if "i < length ?ns" "i \<noteq> ?it" for i
    using that lt a assms(1) by (metis distinct_conv_nth length_map nth_map)
  have "?ns[?it := node_recover (?ns ! ?it)] = map (\<lambda>n. if m_addr n = a then node_recover n else n) ?ns"
    by (rule nth_equalityI) (use lt a other in \<open>auto simp: nth_list_update\<close>)
  with lt show ?thesis by (simp add: recover_server_def Let_def)
qed

lemma attach_one_active:
  assumes "distinct (map m_addr (m_nodes hs))"
  shows "active_addrs (attach_one p ct a hs) = insert a (active_addrs hs)"
proof (cases "server_is_include hs a")
  case True
  then obtain n where n: "n \<in> set (m_nodes hs)" "m_addr n = a" by (auto simp: include_iff)
  let ?f = "\<lambda>n. if m_addr n = a then node_recover n else n"
  have f: "m_addr (?f n) = m_addr n" "m_active (?f n) \<longleftrightarrow> m_addr n = a \<or> m_active n" for n
    by (simp_all add: node_recover_def)
  have "active_addrs (attach_one p ct a hs) = m_addr ` {x \<in> ?f ` set (m_nodes hs). m_active x}"
    using True by (simp add: active_addrs_def attach_one_def recover_set [OF assms True])
  also have "\<dots> = (\<lambda>n. m_addr (?f n)) ` {n \<in> set (m_nodes hs). m_active (?f n)}" by auto
  also have "\<dots> = insert a (active_addrs hs)" unfolding f using n by (auto simp: active_addrs_def)
  finally show ?thesis .
next
  case False
  let ?k = "\<lparr>m_addr = a, m_active = True\<rparr>"
  have "{n \<in> insert ?k (set (m_nodes hs)). m_active n} = insert ?k {n \<in> set (m_nodes hs). m_active n}" by auto
  with False show ?thesis by (simp add: attach_one_def active_addrs_def add_server_def Let_def)
qed

lemma attach_active:
  "hs_ok p hs \<Longrightarrow> active_addrs (fold (attach_one p ct) as hs) = active_addrs hs \<union> set as"
proof (induction as arbitrary: hs)
  case (Cons a as)
  then show ?case using attach_one_active [of hs p ct a] hs_ok_attach_one [of p hs ct a] by (simp add: hs_ok_def)
qed simp

lemma detach_active:
  "active_addrs (fst (remove_fault_servers p ct hs)) = active_addrs hs"
  "n \<in> set (m_nodes (fst (remove_fault_servers p ct hs))) \<Longrightarrow> m_active n"
  by (auto simp: active_addrs_def remove_fault_nodes)

text \<open>
  An election leaves a ring in which every server takes part: the servers that were alive
  in it and the new ones that are still connected, each once, and none that has failed; the
  list of waiting servers is empty then.
\<close>

theorem election_ring:
  assumes "manager_inv p m"
  shows "let m' = fst (replace_election p m)
    in m_addr ` set (m_nodes (mg_whs m')) = {a. server_is_active (mg_whs m) a} \<union> set (new_server_addrs m) \<and>
       (\<forall>n. n \<in> set (m_nodes (mg_whs m')) \<longrightarrow> m_active n) \<and> distinct (map m_addr (m_nodes (mg_whs m'))) \<and>
       mg_rhs m' = mg_rhs m \<and> mg_new_servers m' = []"
proof -
  let ?m1 = "fst (attach_new_servers p m)"
  let ?m2 = "fst (detach_fault_servers p ?m1)"
  let ?m' = "fst (replace_election p m)"
  have ok: "hs_ok p (mg_whs m)" using assms by (simp add: manager_inv_def)
  have whs: "mg_whs ?m' = mg_whs ?m2" "mg_rhs ?m' = mg_rhs ?m2" "mg_new_servers ?m' = mg_new_servers ?m2"
    by (simp_all add: replace_election_def mg_clock_incr_eq start_replace_eq)
  have new: "mg_new_servers ?m2 = []"
    by (simp add: detach_fault_servers_def attach_new_servers_def mg_clock_incr_clocktime_eq spread_eqs)
  have act: "m_active n" if "n \<in> set (m_nodes (mg_whs ?m'))" for n
    using that detach_active(2) by (metis whs(1) detach_whs)
  have "active_addrs (mg_whs ?m') = active_addrs (mg_whs m) \<union> set (new_server_addrs m)"
    by (simp add: whs(1) detach_whs detach_active(1) attach_whs attach_active [OF ok])
  moreover have "active_addrs (mg_whs ?m') = m_addr ` set (m_nodes (mg_whs ?m'))"
    using act by (auto simp: active_addrs_def)
  moreover have "active_addrs (mg_whs m) = {a. server_is_active (mg_whs m) a}"
    using active_iff ok by (auto simp: active_addrs_def hs_ok_def)
  moreover have "distinct (map m_addr (m_nodes (mg_whs ?m')))"
    using election_keeps [OF assms] by (simp add: keeps_def manager_inv_def hs_ok_def)
  moreover have "mg_rhs ?m' = mg_rhs m"
    using whs attach_frame [of m p] detach_frame [of ?m1 p] by simp
  ultimately show ?thesis using act new whs by (simp add: Let_def)
qed

lemma sample_manager_inv: "manager_inv sample_platform sample_manager"
  unfolding sample_manager_def by (rule manager_new_inv)

theorem election_ring_witness:
  "mg_new_servers (fst (replace_election sample_platform sample_manager)) = []"
  using election_ring [OF sample_manager_inv] by (simp add: Let_def)

section \<open>A lost server\<close>

lemma fault_nodes:
  assumes "distinct (map m_addr (m_nodes hs))"
  shows "m_nodes (fst (fault_server ct a hs)) = map (\<lambda>n. if m_addr n = a then node_fault n else n) (m_nodes hs)"
proof -
  let ?ns = "m_nodes hs" and ?it = "find_index (node_address_equal a) (m_nodes hs)"
  show ?thesis
  proof (cases "?it < length ?ns")
    case True
    have a: "m_addr (?ns ! ?it) = a" using find_index_nth [OF True] by (simp add: node_address_equal_def)
    have "m_addr (?ns ! i) \<noteq> a" if "i < length ?ns" "i \<noteq> ?it" for i
      using that True a assms by (metis distinct_conv_nth length_map nth_map)
    then have "?ns[?it := node_fault (?ns ! ?it)] = map (\<lambda>n. if m_addr n = a then node_fault n else n) ?ns"
      by (intro nth_equalityI) (use True a in \<open>auto simp: nth_list_update\<close>)
    with True show ?thesis by (simp add: fault_server_def Let_def)
  next
    case False
    then have "?it = length ?ns" and "m_addr n \<noteq> a" if "n \<in> set ?ns" for n
      using find_index_le [of "node_address_equal a" ?ns] find_index_less_iff [of "node_address_equal a" ?ns] that
      by (auto simp: node_address_equal_def)
    with False find_index_le [of "node_address_equal a" ?ns] show ?thesis
      by (auto simp: fault_server_def Let_def intro!: map_idI [symmetric])
  qed
qed

text \<open>The calls that tell the partner, the servers and the clients of two rings.\<close>

definition told :: "manager \<Rightarrow> seed \<Rightarrow> seed \<Rightarrow> u32 \<Rightarrow> u32 \<Rightarrow> manager_action list" where
  "told m ws rs c c' =
     (if connectable (mg_partner m) then [Call (mg_partner m) (To_manager (M_HashSpaceSync ws rs c)) Cb_HashSpaceSync 10] else []) @
     map (\<lambda>(i, n). Call_node i (To_server (S_HashSpaceSync ws rs c')) Cb_HashSpaceSync 10) (for_each_node ROLE_SERVER (mg_cluster m)) @
     map (\<lambda>i. Call_peer i (To_gateway (G_HashSpacePush ws rs)) Cb_HashSpacePush 10) (for_each_peer (mg_cluster m))"

text \<open>
  When a server is lost it is marked as failed in both rings, wherever it is in one, and
  everybody is told the two new rings: the partner manager, every live server and every
  client. If it is in neither ring nobody is told anything. Unless replacements start by
  themselves, a copying phase is given up, so that nothing is deleted after the loss.
\<close>

theorem lost_server_is_spread:
  assumes "manager_inv p m" and "mg_remove_server addr m = (m', acts)"
  shows "m_nodes (mg_whs m') = map (\<lambda>n. if m_addr n = addr then node_fault n else n) (m_nodes (mg_whs m)) \<and>
    m_nodes (mg_rhs m') = map (\<lambda>n. if m_addr n = addr then node_fault n else n) (m_nodes (mg_rhs m)) \<and>
    (if server_is_include (mg_whs m) addr \<or> server_is_include (mg_rhs m) addr
     then \<exists>c c'. acts = told m (seed_of (mg_whs m')) (seed_of (mg_rhs m')) c c'
     else acts = []) \<and>
    (\<not> mg_auto_replace m \<longrightarrow> p_remainder (mg_copying m') = [])"
proof -
  let ?f = "with_fault addr m"
  let ?inc = "server_is_include (mg_whs m) addr \<or> server_is_include (mg_rhs m) addr"
  let ?e = "if ?inc then spread_all ?f else (?f, [])"
  have out: "m' = settle_loss addr (fst ?e)" "acts = snd ?e"
    using assms(2) by (auto simp: mg_remove_server_eq Let_def)
  have settle: "mg_whs (settle_loss addr x) = mg_whs x \<and> mg_rhs (settle_loss addr x) = mg_rhs x" for x
    by (simp add: settle_loss_def Let_def erase_new_servers_def delayed_replace_election_def)
  have rings: "mg_whs m' = mg_whs ?f" "mg_rhs m' = mg_rhs ?f"
    using spread_all_frame [of ?f] by (simp_all add: out settle same_rings_def)
  have "distinct (map m_addr (m_nodes (mg_whs m)))" "distinct (map m_addr (m_nodes (mg_rhs m)))"
    using assms(1) by (simp_all add: manager_inv_def hs_ok_def)
  then have "m_nodes (mg_whs m') = map (\<lambda>n. if m_addr n = addr then node_fault n else n) (m_nodes (mg_whs m))"
    "m_nodes (mg_rhs m') = map (\<lambda>n. if m_addr n = addr then node_fault n else n) (m_nodes (mg_rhs m))"
    by (simp_all add: rings with_fault_def Let_def fault_nodes)
  moreover have "\<exists>c c'. snd (spread_all ?f) = told m (seed_of (mg_whs ?f)) (seed_of (mg_rhs ?f)) c c'"
    by (simp add: spread_all_def sync_hash_space_partner_def sync_hash_space_servers_def push_hash_space_clients_def
        mg_clock_incr_eq call_servers_def told_def) (auto simp: with_fault_def Let_def)
  moreover have "\<not> mg_auto_replace m \<longrightarrow> p_remainder (mg_copying m') = []"
  proof -
    have "mg_auto_replace (fst ?e) = mg_auto_replace m"
      by (simp add: spread_all_def spread_eqs with_fault_def Let_def)
    then show ?thesis by (simp add: out settle_loss_def Let_def erase_new_servers_def)
  qed
  ultimately show ?thesis by (simp add: out(2) rings)
qed

theorem lost_server_is_spread_witness:
  "\<exists>m' acts. mg_remove_server (sample_addr 7) sample_manager = (m', acts) \<and> m_nodes (mg_whs m') = [] \<and> acts = []"
proof -
  obtain m' acts where out: "mg_remove_server (sample_addr 7) sample_manager = (m', acts)" by fastforce
  have "m_nodes (mg_whs sample_manager) = []" "m_nodes (mg_rhs sample_manager) = []"
    by (simp_all add: sample_manager_def manager_new_def hashspace_new_def)
  with lost_server_is_spread [OF sample_manager_inv out] out show ?thesis by (auto simp: include_iff)
qed

section \<open>Two managers\<close>

lemma ct_le_not_less: "ct_le x y \<longleftrightarrow> \<not> ct_less y x"
  by (simp add: ct_le_def ct_greater_def ct_less_def)

lemma HashSpaceSync_rings:
  assumes "mg_HashSpaceSync p (mg_partner m) rid ws rs c m = (e, m', acts)"
  shows "e = None" "same_phase m m'" "mg_partner m' = mg_partner m" "mg_addr m' = mg_addr m"
    "mg_whs m' = (if \<not> seed_empty ws \<and> (hs_empty (mg_whs m) \<or> \<not> ct_less (seed_clocktime ws) (m_timestamp (mg_whs m)))
       then hashspace_of_seed p ws else mg_whs m)"
proof -
  let ?out = "mg_HashSpaceSync p (mg_partner m) rid ws rs c m"
  have sel: "fst ?out = None" "mg_copying (fst (snd ?out)) = mg_copying m" "mg_deleting (fst (snd ?out)) = mg_deleting m"
    "mg_partner (fst (snd ?out)) = mg_partner m" "mg_addr (fst (snd ?out)) = mg_addr m"
    "mg_whs (fst (snd ?out)) = (if \<not> seed_empty ws \<and> (hs_empty (mg_whs m) \<or> \<not> ct_less (seed_clocktime ws) (m_timestamp (mg_whs m)))
       then hashspace_of_seed p ws else mg_whs m)"
    by (simp_all add: mg_HashSpaceSync_def Let_def mg_adjust_clock_def erase_new_servers_def ct_le_not_less)
  from sel [unfolded assms fst_conv snd_conv]
  show "e = None" "same_phase m m'" "mg_partner m' = mg_partner m" "mg_addr m' = mg_addr m"
    "mg_whs m' = (if \<not> seed_empty ws \<and> (hs_empty (mg_whs m) \<or> \<not> ct_less (seed_clocktime ws) (m_timestamp (mg_whs m)))
       then hashspace_of_seed p ws else mg_whs m)"
    by (simp_all add: same_phase_def)
qed

lemma phase_of_clock [simp]: "phase_of (m\<lparr>mg_clock := c\<rparr>) = phase_of m"
  by (simp add: phase_of_def)

text \<open>What a manager makes of an election request for the ring it has just been synchronised with.\<close>

lemma ReplaceElection_synced:
  assumes "mg_HashSpaceSync p (mg_partner m) rid ws rs c m = (e, m1, a1)"
    and "mg_ReplaceElection p (mg_partner m) rid' ws c' m1 = (e', m2, a2)"
  shows "e' = None \<and> phase_of m2 = phase_of m \<and>
    a2 = (if seed_empty ws \<or> \<not> hs_empty (mg_whs m) \<and> ct_less (seed_clocktime ws) (m_timestamp (mg_whs m))
          then [Respond rid' (V_bool True)] else [])"
proof -
  note r = HashSpaceSync_rings [OF assms(1)]
  have ring: "m_nodes (hashspace_of_seed p ws) = seed_nodes ws" "m_timestamp (hashspace_of_seed p ws) = seed_clocktime ws"
    by (simp_all add: hashspace_of_seed_def rehash_ring)
  have adj: "mg_whs (mg_adjust_clock c' m1) = mg_whs m1" "phase_of (mg_adjust_clock c' m1) = phase_of m"
    using phase_of_same [OF r(2)] by (simp_all add: mg_adjust_clock_def)
  show ?thesis
  proof (cases "seed_empty ws \<or> \<not> hs_empty (mg_whs m) \<and> ct_less (seed_clocktime ws) (m_timestamp (mg_whs m))")
    case True
    then have "seed_empty ws \<or> ct_less (seed_clocktime ws) (m_timestamp (mg_whs m1))" using r(5) by auto
    with True assms(2) r(3) show ?thesis by (auto simp: mg_ReplaceElection_def Let_def adj)
  next
    case False
    with r(5) have "mg_whs m1 = hashspace_of_seed p ws" by auto
    with False assms(2) r(3) show ?thesis
      by (auto simp: mg_ReplaceElection_def Let_def adj ring hashspace_eq_seed_def ct_less_irrefl)
  qed
qed


definition sample_larger :: manager where
  "sample_larger = sample_manager\<lparr>mg_partner := sample_addr 8\<rparr>"

definition sample_smaller :: manager where
  "sample_smaller = sample_manager\<lparr>mg_addr := sample_addr 8, mg_partner := sample_addr 9\<rparr>"

lemma sample_live: "live_servers sample_manager = [sample_addr 1]"
  by (simp add: live_servers_def for_each_node_def sample_manager_def manager_new_def sample_cluster_def
      session_new_def node_role_def ROLE_SERVER_def List.map_filter_def)


section \<open>Answers\<close>

fun is_answer :: "responder \<Rightarrow> manager_action \<Rightarrow> bool" where
  "is_answer rid (Respond r v) = (r = rid)"
| "is_answer rid (Respond_error r v) = (r = rid)"
| "is_answer rid _ = False"

definition mg_answers :: "responder \<Rightarrow> manager_action list \<Rightarrow> nat" where
  "mg_answers rid acts = length (filter (is_answer rid) acts)"

lemma mg_answers_simps [simp]:
  "mg_answers rid [] = 0" "mg_answers rid (xs @ ys) = mg_answers rid xs + mg_answers rid ys"
  "mg_answers rid (a # acts) = (if is_answer rid a then 1 else 0) + mg_answers rid acts"
  by (simp_all add: mg_answers_def)

lemma mg_answers_none: "(\<And>a. a \<in> set acts \<Longrightarrow> \<not> is_answer rid a) \<Longrightarrow> mg_answers rid acts = 0"
  by (simp add: mg_answers_def)

lemma spread_answers [simp]:
  "mg_answers rid (call_servers req cb m) = 0" "mg_answers rid (snd (sync_hash_space_partner m)) = 0"
  "mg_answers rid (snd (push_hash_space_clients m)) = 0"
  by (auto simp: sync_hash_space_partner_def push_hash_space_clients_def call_servers_def mg_clock_incr_eq intro!: mg_answers_none)

lemma replace_answers [simp]:
  "mg_answers rid (snd (attach_new_servers p m)) = 0" "mg_answers rid (snd (detach_fault_servers p m)) = 0"
  "mg_answers rid (snd (start_replace fu m)) = 0"
  by (simp_all add: attach_new_servers_def detach_fault_servers_def start_replace_def mg_clock_incr_clocktime_eq
      mg_clock_incr_eq Let_def)

lemma finish_copy_answers [simp]: "mg_answers rid (snd (mg_finish_replace_copy m)) = 0"
proof -
  have "mg_answers rid (map (\<lambda>a. Call a (To_server (S_ReplaceDeleteStart sd c)) Cb_ReplaceDeleteStart 10) ts) = 0" for sd c ts
    by (rule mg_answers_none) auto
  then show ?thesis by (simp add: mg_finish_replace_copy_def mg_clock_incr_eq case_prod_beta Let_def)
qed

text \<open>The election request that is left unanswered, and the setting that is answered twice.\<close>

definition unanswered :: "address \<Rightarrow> manager_request \<Rightarrow> manager \<Rightarrow> bool" where
  "unanswered frm req m = (case req of
     M_ReplaceElection sd c \<Rightarrow> frm = mg_partner m \<and> \<not> seed_empty sd \<and>
       \<not> ct_less (seed_clocktime sd) (m_timestamp (mg_whs m)) \<and>
       (ct_less (m_timestamp (mg_whs m)) (seed_clocktime sd) \<or> hashspace_eq_seed (mg_whs m) sd)
   | _ \<Rightarrow> False)"

definition answered_twice :: "manager_request \<Rightarrow> manager \<Rightarrow> bool" where
  "answered_twice req m = (case req of M_SetAutoReplace b \<Rightarrow> b \<noteq> mg_auto_replace m | _ \<Rightarrow> False)"

lemma with_catch_answers:
  "mg_answers rid (snd (snd (mg_with_catch rid out))) = mg_answers rid (snd (snd out)) + (if fst out = None then 0 else 1)"
  by (auto simp: mg_with_catch_def dispatch_catch_def case_prod_beta Let_def split: option.splits)

text \<open>
  A manager answers every request, those it does not know included, exactly once, with two
  exceptions: an election request for a ring that is newer than its own or the same is never
  answered, and a change of the automatic replacement is answered twice.
\<close>

theorem manager_answers:
  "mg_answers rid (snd (snd (mg_cluster_dispatch p frm rid req m))) = (if unanswered frm req m then 0 else 1) \<and>
   mg_answers rid (snd (snd (mg_subsystem_dispatch p rid req m))) = (if answered_twice req m then 2 else 1)"
proof
  show "mg_answers rid (snd (snd (mg_cluster_dispatch p frm rid req m))) = (if unanswered frm req m then 0 else 1)"
    unfolding mg_cluster_dispatch_def with_catch_answers
    by (cases req) (auto simp: unanswered_def mg_KeepAlive_def mg_WHashSpaceRequest_def mg_RHashSpaceRequest_def
        mg_HashSpaceSync_def mg_ReplaceCopyEnd_def mg_ReplaceDeleteEnd_def mg_ReplaceElection_def mg_adjust_clock_def
        case_prod_beta Let_def)
  show "mg_answers rid (snd (snd (mg_subsystem_dispatch p rid req m))) = (if answered_twice req m then 2 else 1)"
    unfolding mg_subsystem_dispatch_def with_catch_answers
    by (cases req) (auto simp: answered_twice_def mg_HashSpaceRequest_def mg_GetNodesInfo_def mg_AttachNewServers_def
        mg_DetachFaultServers_def mg_CreateBackup_def mg_SetAutoReplace_def mg_StartReplace_def)
qed

end
