(* ===== verification/Gateway.thy ===== *)
theory Gateway
  imports ServerStore Cluster
begin

text \<open>
  The gateway (\<open>logic/gateway\<close>): the process applications talk to. It keeps copies of the two
  rings, chooses the server of a key, sends it the request, tries again when that fails, and
  caches values it has read. The groups below are \<open>framework.h\<close>, \<open>mod_network.cc\<close>,
  \<open>mod_cache.cc\<close>, \<open>mod_store.cc\<close> and \<open>gate.cc\<close>.

  The cache is a database of Tokyo Cabinet, whose functions are a parameter. A request of an
  application carries a callback and a pointer, here the number \<open>user\<close>; calling it is an action.
\<close>

section \<open>State\<close>

type_synonym user = nat

text \<open>\<open>gate/interface.h\<close>.\<close>

record req_get =
  rg_key :: bytes
  rg_user_hash :: "u64 option"
  rg_user :: user

record req_set =
  rs_key :: bytes
  rs_user_hash :: "u64 option"
  rs_val :: bytes
  rs_operation :: u32
  rs_clocktime :: u64
  rs_user :: user

record req_delete =
  rd_key :: bytes
  rd_user_hash :: "u64 option"
  rd_async :: bool
  rd_user :: user

text \<open>
  What a callback is given. When \<open>error\<close> is set the code leaves the other fields without a
  meaning, so the results with an error have none here.
\<close>

datatype gate_res =
    Res_get (r_key: bytes) (r_hash: u64) (r_val: "bytes option") (r_clocktime: u64)
  | Res_get_error
  | Res_set (r_key: bytes) (r_hash: u64) (r_stored: bytes) (r_clocktime: u64) (cas_success: bool)
  | Res_set_error
  | Res_delete (r_key: bytes) (r_hash: u64) (deleted: bool)
  | Res_delete_error

text \<open>\<open>rpc::retry\<close>: the call that may be repeated; what is bound to its callback comes with it.\<close>

datatype bound_callback =
    B_Get user
  | B_GetIfModified user dbvalue
  | B_Set user
  | B_Delete user

record retry =
  rt_limit :: u16
  rt_param :: server_request
  rt_callback :: bound_callback

datatype gateway_cb = Cb_retry nat | Cb_HashSpaceRequest

datatype hash_space_type = HS_WRITE | HS_READ

text \<open>A delayed call: \<open>retry_after_callback\<close>.\<close>

record retry_after_callback =
  ra_hs :: hash_space_type
  ra_retry :: nat
  ra_hash :: u64
  ra_offset :: nat

record 'c gateway =
  g_rhs :: hashspace
  g_whs :: hashspace
  g_manager1 :: address
  g_manager2 :: address
  g_async_replicate_delete :: bool
  g_get_retry_num :: u16
  g_set_retry_num :: u16
  g_delete_retry_num :: u16
  g_renew_threshold :: u16
  g_error_count :: u16
  g_key_prefix :: bytes
  g_cache :: "'c option"
  g_retries :: "nat \<Rightarrow> retry option"
  g_next_retry :: nat
  g_do_after :: "retry_after_callback do_after_list"

datatype gateway_action =
    G_Call address request gateway_cb nat
  | G_Respond responder rvalue
  | G_Respond_error responder rvalue
  | Callback user gate_res
  | Submit_callback user gate_res

type_synonym 'c gateway_eff = "'c gateway \<times> gateway_action list"

type_synonym 'c gateway_out = "kerror option \<times> 'c gateway_eff"

section \<open>The rings\<close>

definition update_rhs :: "platform \<Rightarrow> seed \<Rightarrow> 'c gateway \<Rightarrow> 'c gateway" where
  "update_rhs p sd g =
     (if hs_empty (g_rhs g) \<or> (ct_le (m_timestamp (g_rhs g)) (seed_clocktime sd) \<and> \<not> seed_empty sd)
      then g\<lparr>g_rhs := hashspace_of_seed p sd\<rparr> else g)"

definition update_whs :: "platform \<Rightarrow> seed \<Rightarrow> 'c gateway \<Rightarrow> 'c gateway" where
  "update_whs p sd g =
     (if hs_empty (g_whs g) \<or> (ct_le (m_timestamp (g_whs g)) (seed_clocktime sd) \<and> \<not> seed_empty sd)
      then g\<lparr>g_whs := hashspace_of_seed p sd\<rparr> else g)"

definition gw_HashSpacePush :: "platform \<Rightarrow> responder \<Rightarrow> seed \<Rightarrow> seed \<Rightarrow> 'c gateway \<Rightarrow> 'c gateway_out" where
  "gw_HashSpacePush p rid ws rs g = (None, update_rhs p rs (update_whs p ws g), [G_Respond rid (V_bool True)])"

definition request_hash_space :: "address \<Rightarrow> gateway_action" where
  "request_hash_space addr = G_Call addr (To_manager M_HashSpaceRequest) Cb_HashSpaceRequest 10"

definition renew_hash_space :: "'c gateway \<Rightarrow> gateway_action list" where
  "renew_hash_space g =
     request_hash_space (g_manager1 g) #
     (if connectable (g_manager2 g) then [request_hash_space (g_manager2 g)] else [])"

text \<open>\<open>bound\<close> tells whether the session with an address has a connection.\<close>

definition gw_keep_alive :: "(address \<Rightarrow> bool) \<Rightarrow> 'c gateway \<Rightarrow> gateway_action list" where
  "gw_keep_alive bound g =
     (if \<not> bound (g_manager1 g) then [request_hash_space (g_manager1 g)] else []) @
     (if connectable (g_manager2 g) \<and> \<not> bound (g_manager2 g) then [request_hash_space (g_manager2 g)] else [])"

definition res_HashSpaceRequest ::
    "platform \<Rightarrow> address \<Rightarrow> bool \<Rightarrow> rvalue \<Rightarrow> rvalue \<Rightarrow> 'c gateway \<Rightarrow> 'c gateway_out" where
  "res_HashSpaceRequest p frm active res err g =
     (if err \<noteq> V_nil then (None, g, if active then [request_hash_space frm] else [])
      else case res of
             V_seeds ws rs \<Rightarrow> (None, update_rhs p rs (update_whs p ws g), [])
           | _ \<Rightarrow> (Some Type_error, g, []))"

definition session_lost :: "address \<Rightarrow> 'c gateway \<Rightarrow> gateway_action list" where
  "session_lost addr g =
     (if addr = g_manager1 g \<or> addr = g_manager2 g then [request_hash_space addr] else [])"

definition incr_error_renew_count :: "'c gateway \<Rightarrow> 'c gateway_eff" where
  "incr_error_renew_count g =
     (if g_renew_threshold g \<le> g_error_count g then (g\<lparr>g_error_count := 0\<rparr>, renew_hash_space g)
      else (g\<lparr>g_error_count := g_error_count g + 1\<rparr>, []))"

section \<open>The cache\<close>

text \<open>
  \<open>tcadbget\<close>, and \<open>tcadbputproc\<close>: it stores the value under a key that has none, and asks the
  callback otherwise, which gives a new value or none to leave the old one.
\<close>

record 'c tcadb_api =
  tcadbget :: "'c \<Rightarrow> bytes \<Rightarrow> bytes option"
  tcadbputproc :: "'c \<Rightarrow> bytes \<Rightarrow> bytes \<Rightarrow> (bytes \<Rightarrow> bytes option) \<Rightarrow> 'c"

definition cache_get :: "platform \<Rightarrow> 'c tcadb_api \<Rightarrow> dbkey \<Rightarrow> 'c gateway \<Rightarrow> dbvalue option" where
  "cache_get p api key g =
     (case g_cache g of
        None \<Rightarrow> None
      | Some db \<Rightarrow>
          (case tcadbget api db (dk_key key) of
             None \<Rightarrow> None
           | Some val \<Rightarrow>
               if length val < VALUE_META_SIZE then None
               else Some \<lparr>dv_head = take VALUE_META_SIZE val, dv_val = drop VALUE_META_SIZE val,
                          dv_clocktime = clocktime_of p val, dv_meta = meta_of p val\<rparr>))"

definition cache_update_proc :: "platform \<Rightarrow> dbvalue \<Rightarrow> bytes \<Rightarrow> bytes option" where
  "cache_update_proc p val vbuf =
     (if length vbuf < VALUE_CLOCKTIME_SIZE \<or> ct_less (clocktime_of p vbuf) (dv_clocktime val)
      then Some (dbvalue_raw val) else None)"

definition cache_update :: "platform \<Rightarrow> 'c tcadb_api \<Rightarrow> dbkey \<Rightarrow> dbvalue \<Rightarrow> 'c gateway \<Rightarrow> 'c gateway" where
  "cache_update p api key val g =
     (case g_cache g of
        None \<Rightarrow> g
      | Some db \<Rightarrow> g\<lparr>g_cache := Some (tcadbputproc api db (dk_key key) (dbvalue_raw val) (cache_update_proc p val))\<rparr>)"

section \<open>Choosing a server\<close>

text \<open>
  The walk of \<open>server_for\<close>: the virtual node the iterator stands on in the end. An offset is
  used up by the nodes that are passed over; when no node is active the iterator stays on the
  third node, or comes back to the first.
\<close>

definition server_walk :: "virtual_node list \<Rightarrow> nat \<Rightarrow> nat \<Rightarrow> nat" where
  "server_walk vs origin offset =
     (let real = m_real (vs ! origin)
      in if offset = 0 \<and> m_active real then origin
         else let offset1 = offset - 1
              in case find_other vs origin [real] (it_next vs origin) of
                   None \<Rightarrow> origin
                 | Some i \<Rightarrow>
                     (let rep1 = m_real (vs ! i)
                      in if offset1 = 0 \<and> m_active rep1 then i
                         else case find_other vs origin [real, rep1] (it_next vs i) of
                                None \<Rightarrow> origin
                              | Some j \<Rightarrow> j))"

definition ring_of :: "hash_space_type \<Rightarrow> 'c gateway \<Rightarrow> hashspace" where
  "ring_of hst g = (case hst of HS_WRITE \<Rightarrow> g_whs g | HS_READ \<Rightarrow> g_rhs g)"

definition server_for ::
    "hash_space_type \<Rightarrow> u64 \<Rightarrow> nat \<Rightarrow> 'c gateway \<Rightarrow> address result \<times> 'c gateway_eff" where
  "server_for hst h offset g =
     (let hs = ring_of hst g
      in if hs_empty hs then
           (Inl (Runtime_error ''No server''), incr_error_renew_count g)
         else let vs = m_hashspace hs; origin = find_it hs h
              in if length vs \<le> origin then (Inl Undefined_behaviour, g, [])
                 else (Inr (m_addr (m_real (vs ! server_walk vs origin offset))), g, []))"

section \<open>Keys\<close>

definition dbkey_with_prefix :: "platform \<Rightarrow> bytes \<Rightarrow> u64 option \<Rightarrow> 'c gateway \<Rightarrow> dbkey" where
  "dbkey_with_prefix p key user_hash g =
     (let kp = g_key_prefix g @ key
      in \<lparr>dk_hash = (case user_hash of Some h \<Rightarrow> h | None \<Rightarrow> hash p kp), dk_key = kp\<rparr>)"

definition dbkey_remove_prefix :: "dbkey \<Rightarrow> 'c gateway \<Rightarrow> bytes" where
  "dbkey_remove_prefix key g = drop (length (g_key_prefix g)) (dk_key key)"

section \<open>Requests\<close>

text \<open>\<open>retry->call(server_for(...))\<close>, and the same for a new retry object.\<close>

definition retry_call ::
    "hash_space_type \<Rightarrow> nat \<Rightarrow> u64 \<Rightarrow> nat \<Rightarrow> 'c gateway \<Rightarrow> 'c gateway_out" where
  "retry_call hst i h offset g =
     (let (addr, g1, acts) = server_for hst h offset g
      in case addr of
           Inl e \<Rightarrow> (Some e, g1, acts)
         | Inr a \<Rightarrow>
             (case g_retries g1 i of
                None \<Rightarrow> (Some Undefined_behaviour, g1, acts)
              | Some rt \<Rightarrow> (None, g1, acts @ [G_Call a (To_server (rt_param rt)) (Cb_retry i) 10])))"

definition new_call ::
    "hash_space_type \<Rightarrow> u64 \<Rightarrow> server_request \<Rightarrow> bound_callback \<Rightarrow> 'c gateway \<Rightarrow> 'c gateway_out" where
  "new_call hst h param cb g =
     (let i = g_next_retry g
      in retry_call hst i h 0
           (g\<lparr>g_retries := (g_retries g)(i \<mapsto> \<lparr>rt_limit = 0, rt_param = param, rt_callback = cb\<rparr>),
              g_next_retry := Suc i\<rparr>))"

text \<open>\<open>SUBMIT_CATCH\<close>: an exception becomes a call of the callback with an error.\<close>

definition submit_catch :: "user \<Rightarrow> gate_res \<Rightarrow> 'c gateway_out \<Rightarrow> 'c gateway_eff" where
  "submit_catch u res out =
     (let (err, g, acts) = out
      in (g, case err of None \<Rightarrow> acts | Some e \<Rightarrow> acts @ [Submit_callback u res]))"

definition gw_Get :: "platform \<Rightarrow> 'c tcadb_api \<Rightarrow> req_get \<Rightarrow> 'c gateway \<Rightarrow> 'c gateway_eff" where
  "gw_Get p api req g =
     (let key = dbkey_with_prefix p (rg_key req) (rg_user_hash req) g
      in submit_catch (rg_user req) Res_get_error
           (case cache_get p api key g of
              Some cached \<Rightarrow>
                new_call HS_READ (dk_hash key) (S_GetIfModified key (dv_clocktime cached))
                  (B_GetIfModified (rg_user req) cached) g
            | None \<Rightarrow> new_call HS_READ (dk_hash key) (S_Get key) (B_Get (rg_user req)) g))"

definition GATE_OP_CAS :: u32 where "GATE_OP_CAS = 2"

text \<open>The operations of the gate have the numbers of those of the server.\<close>

definition gw_Set :: "platform \<Rightarrow> req_set \<Rightarrow> 'c gateway \<Rightarrow> 'c gateway_eff" where
  "gw_Set p req g =
     (let ct = (if rs_operation req = GATE_OP_CAS then rs_clocktime req else 0);
          key = dbkey_with_prefix p (rs_key req) (rs_user_hash req) g;
          val = dbvalue_new (rs_val req) 0 (ClockTime ct)
      in submit_catch (rs_user req) Res_set_error
           (new_call HS_WRITE (dk_hash key) (S_Set (rs_operation req) key val) (B_Set (rs_user req)) g))"

definition gw_Delete :: "platform \<Rightarrow> req_delete \<Rightarrow> 'c gateway \<Rightarrow> 'c gateway_eff" where
  "gw_Delete p req g =
     (let key = dbkey_with_prefix p (rd_key req) (rd_user_hash req) g;
          fl = (if g_async_replicate_delete g \<or> rd_async req then store_flags_async else store_flags_none)
      in submit_catch (rd_user req) Res_delete_error
           (new_call HS_WRITE (dk_hash key) (S_Delete fl key) (B_Delete (rd_user req)) g))"

section \<open>Replies\<close>

text \<open>\<open>err.via.u64\<close> for an error that is a number; the member of another type is not meaningful.\<close>

definition renew_on :: "rvalue \<Rightarrow> 'c gateway \<Rightarrow> gateway_action list" where
  "renew_on err g = (if err = V_u64 1 \<or> err = V_u64 6 then renew_hash_space g else [])"

definition gateway_catch :: "user \<Rightarrow> gate_res \<Rightarrow> 'c gateway_out \<Rightarrow> 'c gateway_eff" where
  "gateway_catch u res out =
     (let (err, g, acts) = out
      in (g, case err of None \<Rightarrow> acts | Some e \<Rightarrow> acts @ [Callback u res]))"

definition put_retry :: "nat \<Rightarrow> retry \<Rightarrow> 'c gateway \<Rightarrow> 'c gateway" where
  "put_retry i rt g = g\<lparr>g_retries := (g_retries g)(i \<mapsto> rt)\<rparr>"

definition retry_after :: "hash_space_type \<Rightarrow> u32 \<Rightarrow> nat \<Rightarrow> u64 \<Rightarrow> nat \<Rightarrow> 'c gateway \<Rightarrow> 'c gateway" where
  "retry_after hst steps i h offset g =
     g\<lparr>g_do_after := do_after steps \<lparr>ra_hs = hst, ra_retry = i, ra_hash = h, ra_offset = offset\<rparr> (g_do_after g)\<rparr>"

definition DO_AFTER_SECOND :: u32 where "DO_AFTER_SECOND = 2"

text \<open>
  The part of the replies of \<open>Get\<close> and \<open>GetIfModified\<close> that follows an error. The limit is an
  \<open>int\<close> that becomes an \<open>unsigned short\<close>.
\<close>

definition get_retry_limit :: "'c gateway \<Rightarrow> u16" where
  "get_retry_limit g = word_of_int ((int NUM_REPLICATION + 1) * uint (g_get_retry_num g) - 1)"

definition get_failed :: "nat \<Rightarrow> retry \<Rightarrow> user \<Rightarrow> dbkey \<Rightarrow> rvalue \<Rightarrow> 'c gateway \<Rightarrow> 'c gateway_out" where
  "get_failed i rt u key err g =
     (let (again, n) = retry_incr (rt_limit rt) (get_retry_limit g);
          g1 = put_retry i (rt\<lparr>rt_limit := n\<rparr>) g
      in if again then
           (let (g2, acts) = incr_error_renew_count g1;
                offset = unat n mod (NUM_REPLICATION + 1)
            in if offset = 0 then (None, retry_after HS_READ DO_AFTER_SECOND i (dk_hash key) offset g2, acts)
               else let (e, g3, acts') = retry_call HS_READ i (dk_hash key) offset g2 in (e, g3, acts @ acts'))
         else (None, g1, renew_on err g1 @ [Callback u Res_get_error]))"

definition got_value ::
    "platform \<Rightarrow> 'c tcadb_api \<Rightarrow> user \<Rightarrow> dbkey \<Rightarrow> rvalue \<Rightarrow> 'c gateway \<Rightarrow> 'c gateway_out" where
  "got_value p api u key res g =
     (case res of
        V_nil \<Rightarrow> (None, g, [Callback u (Res_get (dbkey_remove_prefix key g) (dk_hash key) None 0)])
      | V_raw raw \<Rightarrow>
          (case dbvalue_unpack p raw of
             Inl e \<Rightarrow> (Some e, g, [])
           | Inr st \<Rightarrow>
               (None, cache_update p api key st g,
                [Callback u (Res_get (dbkey_remove_prefix key g) (dk_hash key) (Some (dv_val st)) (ct_get (dv_clocktime st)))]))
      | _ \<Rightarrow> (Some Type_error, g, []))"

definition res_Get ::
    "platform \<Rightarrow> 'c tcadb_api \<Rightarrow> nat \<Rightarrow> retry \<Rightarrow> user \<Rightarrow> dbkey \<Rightarrow> rvalue \<Rightarrow> rvalue \<Rightarrow> 'c gateway \<Rightarrow> 'c gateway_eff" where
  "res_Get p api i rt u key res err g =
     gateway_catch u Res_get_error
       (if err = V_nil then got_value p api u key res g else get_failed i rt u key err g)"

definition res_GetIfModified ::
    "platform \<Rightarrow> 'c tcadb_api \<Rightarrow> nat \<Rightarrow> retry \<Rightarrow> user \<Rightarrow> dbvalue \<Rightarrow> dbkey \<Rightarrow> rvalue \<Rightarrow> rvalue \<Rightarrow> 'c gateway \<Rightarrow> 'c gateway_eff" where
  "res_GetIfModified p api i rt u cached key res err g =
     gateway_catch u Res_get_error
       (if err = V_nil then
          (if res = V_bool True then
             (None, g, [Callback u (Res_get (dbkey_remove_prefix key g) (dk_hash key) (Some (dv_val cached)) (ct_get (dv_clocktime cached)))])
           else got_value p api u key res g)
        else get_failed i rt u key err g)"

text \<open>The retries of \<open>Set\<close> and \<open>Delete\<close>: a second later, on the writing ring.\<close>

definition write_failed ::
    "u16 \<Rightarrow> nat \<Rightarrow> retry \<Rightarrow> user \<Rightarrow> gate_res \<Rightarrow> dbkey \<Rightarrow> rvalue \<Rightarrow> 'c gateway \<Rightarrow> 'c gateway_out" where
  "write_failed limit i rt u res key err g =
     (let (again, n) = retry_incr (rt_limit rt) limit;
          g1 = put_retry i (rt\<lparr>rt_limit := n\<rparr>) g
      in if again then
           (let (g2, acts) = incr_error_renew_count g1
            in (None, retry_after HS_WRITE DO_AFTER_SECOND i (dk_hash key) 0 g2, acts))
         else (None, g1, renew_on err g1 @ [Callback u res]))"

definition res_Set ::
    "nat \<Rightarrow> retry \<Rightarrow> user \<Rightarrow> dbkey \<Rightarrow> dbvalue \<Rightarrow> rvalue \<Rightarrow> rvalue \<Rightarrow> 'c gateway \<Rightarrow> 'c gateway_eff" where
  "res_Set i rt u key val res err g =
     gateway_catch u Res_set_error
       (case res of
          V_nil \<Rightarrow> write_failed (g_set_retry_num g) i rt u Res_set_error key err g
        | V_bool False \<Rightarrow> (None, g, [Callback u (Res_set (dbkey_remove_prefix key g) (dk_hash key) (dv_val val) 0 False)])
        | V_u64 ct \<Rightarrow> (None, g, [Callback u (Res_set (dbkey_remove_prefix key g) (dk_hash key) (dv_val val) ct True)])
        | _ \<Rightarrow> (Some Type_error, g, []))"

definition res_Delete ::
    "nat \<Rightarrow> retry \<Rightarrow> user \<Rightarrow> dbkey \<Rightarrow> rvalue \<Rightarrow> rvalue \<Rightarrow> 'c gateway \<Rightarrow> 'c gateway_eff" where
  "res_Delete i rt u key res err g =
     gateway_catch u Res_delete_error
       (case res of
          V_nil \<Rightarrow> write_failed (g_delete_retry_num g) i rt u Res_delete_error key err g
        | V_bool b \<Rightarrow> (None, g, [Callback u (Res_delete (dbkey_remove_prefix key g) (dk_hash key) b)])
        | _ \<Rightarrow> (Some Type_error, g, []))"

text \<open>A reply to the call of a retry object goes to the handler its callback is bound to.\<close>

definition res_retry ::
    "platform \<Rightarrow> 'c tcadb_api \<Rightarrow> nat \<Rightarrow> rvalue \<Rightarrow> rvalue \<Rightarrow> 'c gateway \<Rightarrow> 'c gateway_eff" where
  "res_retry p api i res err g =
     (case g_retries g i of
        None \<Rightarrow> (g, [])
      | Some rt \<Rightarrow>
          (case (rt_callback rt, rt_param rt) of
             (B_Get u, S_Get key) \<Rightarrow> res_Get p api i rt u key res err g
           | (B_GetIfModified u cached, S_GetIfModified key ct) \<Rightarrow> res_GetIfModified p api i rt u cached key res err g
           | (B_Set u, S_Set oper key val) \<Rightarrow> res_Set i rt u key val res err g
           | (B_Delete u, S_Delete fl key) \<Rightarrow> res_Delete i rt u key res err g
           | _ \<Rightarrow> (g, [])))"

section \<open>Timer and dispatch\<close>

text \<open>\<open>retry_after_callback::operator()\<close>; the timer swallows what it throws.\<close>

definition run_retry_after :: "retry_after_callback \<Rightarrow> 'c gateway \<Rightarrow> 'c gateway_eff" where
  "run_retry_after ra g = snd (retry_call (ra_hs ra) (ra_retry ra) (ra_hash ra) (ra_offset ra) g)"

definition gw_timer_handler :: "'c gateway \<Rightarrow> 'c gateway_eff" where
  "gw_timer_handler g =
     (let (fire, q) = step_do_after (g_do_after g)
      in fold (\<lambda>ra e. let (g, a) = e; (g', a') = run_retry_after ra g in (g', a @ a')) fire (g\<lparr>g_do_after := q\<rparr>, []))"

text \<open>A request from another process: only \<open>HashSpacePush\<close> is known.\<close>

definition gw_dispatch :: "platform \<Rightarrow> responder \<Rightarrow> request \<Rightarrow> 'c gateway \<Rightarrow> 'c gateway_out" where
  "gw_dispatch p rid req g =
     (case req of
        To_gateway (G_HashSpacePush ws rs) \<Rightarrow> gw_HashSpacePush p rid ws rs g
      | _ \<Rightarrow> (Some Unknown_method_error, g, [G_Respond_error rid (V_u64 5)]))"

section \<open>A gateway as a state machine\<close>

datatype gateway_event =
    E_Get req_get
  | E_Set req_set
  | E_Delete req_delete
  | E_reply nat rvalue rvalue
  | E_rings address bool rvalue rvalue
  | E_request responder request
  | E_timer
  | E_keep_alive "address \<Rightarrow> bool"
  | E_session_lost address

fun gateway_apply :: "platform \<Rightarrow> 'c tcadb_api \<Rightarrow> gateway_event \<Rightarrow> 'c gateway \<Rightarrow> 'c gateway_eff" where
  "gateway_apply p api (E_Get req) g = gw_Get p api req g"
| "gateway_apply p api (E_Set req) g = gw_Set p req g"
| "gateway_apply p api (E_Delete req) g = gw_Delete p req g"
| "gateway_apply p api (E_reply i res err) g = res_retry p api i res err g"
| "gateway_apply p api (E_rings frm active res err) g = snd (res_HashSpaceRequest p frm active res err g)"
| "gateway_apply p api (E_request rid req) g = snd (gw_dispatch p rid req g)"
| "gateway_apply p api E_timer g = gw_timer_handler g"
| "gateway_apply p api (E_keep_alive bound) g = (g, gw_keep_alive bound g)"
| "gateway_apply p api (E_session_lost addr) g = (g, session_lost addr g)"

end
