(* ===== verification/GatewayTheorems.thy ===== *)
theory GatewayTheorems
  imports Gateway ServerStoreTheorems
begin

text \<open>
  The properties of a gateway: the server it chooses is the one the ring assigns, a read goes
  round the servers of its key, and every request is answered once.
\<close>

section \<open>Choosing a server\<close>

text \<open>The first active server from a position on; failing that, the last of three or the first.\<close>

definition chosen :: "nat \<Rightarrow> node list \<Rightarrow> node" where
  "chosen offset ns =
     (case find m_active (drop offset ns) of
        Some n \<Rightarrow> n
      | None \<Rightarrow> if length ns = 3 then ns ! 2 else ns ! 0)"

lemma each_assign_cases:
  assumes "each_assign hs h = Inr ns"
  shows "find_it hs h < length (m_hashspace hs)"
    and "m_real (m_hashspace hs ! server_walk (m_hashspace hs) (find_it hs h) offset) = chosen offset ns"
proof -
  let ?vs = "m_hashspace hs" and ?o = "find_it hs h"
  show lt: "?o < length ?vs" using assms by (simp add: each_assign_def Let_def split: if_splits)
  consider "offset = 0" | "offset = 1" | "2 \<le> offset" by linarith
  note off = this
  show "m_real (?vs ! server_walk ?vs ?o offset) = chosen offset ns"
  proof (cases "find_other ?vs ?o [m_real (?vs ! ?o)] (it_next ?vs ?o)")
    case None
    then have "ns = [m_real (?vs ! ?o)]" using assms lt by (simp add: each_assign_def Let_def)
    with None show ?thesis by (cases offset) (simp_all add: server_walk_def chosen_def Let_def)
  next
    case (Some i)
    show ?thesis
    proof (cases "find_other ?vs ?o [m_real (?vs ! ?o), m_real (?vs ! i)] (it_next ?vs i)")
      case None
      then have ns: "ns = [m_real (?vs ! ?o), m_real (?vs ! i)]"
        using assms lt Some by (simp add: each_assign_def Let_def)
      from off show ?thesis
        by cases (use Some None ns in \<open>auto simp: server_walk_def chosen_def Let_def\<close>)
    next
      case (Some j)
      with \<open>find_other ?vs ?o [m_real (?vs ! ?o)] (it_next ?vs ?o) = Some i\<close>
      have ns: "ns = [m_real (?vs ! ?o), m_real (?vs ! i), m_real (?vs ! j)]"
        using assms lt by (simp add: each_assign_def Let_def)
      from off show ?thesis
      proof cases
        case 3
        then have "find m_active (drop offset ns) \<in> {None, Some (m_real (?vs ! j))}"
          by (cases "offset = 2") (auto simp: ns)
        with 3 Some \<open>find_other ?vs ?o [m_real (?vs ! ?o)] (it_next ?vs ?o) = Some i\<close> show ?thesis
          by (auto simp: server_walk_def chosen_def Let_def ns)
      qed (use Some \<open>find_other ?vs ?o [m_real (?vs ! ?o)] (it_next ?vs ?o) = Some i\<close> ns in
          \<open>auto simp: server_walk_def chosen_def Let_def\<close>)
    qed
  qed
qed

lemma server_for_assigned:
  assumes "each_assign (ring_of hst g) h = Inr ns" and "\<not> hs_empty (ring_of hst g)"
  shows "server_for hst h offset g = (Inr (m_addr (chosen offset ns)), g, [])"
  using each_assign_cases [OF assms(1)] assms(2) by (simp add: server_for_def Let_def)

lemma find_SomeD: "find P xs = Some x \<Longrightarrow> P x \<and> x \<in> set xs"
  by (auto simp: find_Some_iff)

lemma chosen_active:
  assumes "n \<in> set (drop offset ns)" and "m_active n"
  shows "m_active (chosen offset ns) \<and> chosen offset ns \<in> set (drop offset ns)"
proof -
  have "find m_active (drop offset ns) \<noteq> None" using assms by (simp add: find_None_iff) blast
  then obtain n' where "find m_active (drop offset ns) = Some n'" by blast
  with find_SomeD [OF this] show ?thesis by (simp add: chosen_def)
qed

lemma chosen_in:
  assumes "ns \<noteq> []"
  shows "chosen offset ns \<in> set ns"
proof (cases "find m_active (drop offset ns)")
  case None
  then show ?thesis using assms by (auto simp: chosen_def)
next
  case (Some n)
  with find_SomeD [OF this] show ?thesis by (auto simp: chosen_def dest: in_set_dropD)
qed

lemma assigned_some:
  assumes "hs_synced p hs" and "\<not> hs_empty hs"
  shows "\<exists>ns. each_assign hs h = Inr ns \<and> ns \<noteq> []"
proof -
  have "m_nodes hs \<noteq> []" using assms(2) by (auto simp: hs_empty_def)
  moreover from this have "length (assigned (ring p (m_nodes hs)) h) \<noteq> 0"
    by (simp add: length_assigned card_gt_0_iff)
  ultimately show ?thesis using each_assign_synced [OF assms(1)] by auto
qed

text \<open>
  C31: on a ring with a live server, the gateway's walk gives the server that the ring assigns:
  of the (up to three) nodes that \<open>EACH_ASSIGN\<close> lists for the key, the first live one from the
  offset on. If there is one, it is a live server of the key; otherwise the request still
  goes to one of the nodes of the key. On a ring without a live server there is no call, and
  the failures are counted.
\<close>

theorem server_for_follows_ring:
  assumes "hs_synced p (ring_of hst g)"
  shows "if hs_empty (ring_of hst g)
    then fst (server_for hst h offset g) = Inl (Runtime_error ''No server'') \<and>
      snd (server_for hst h offset g) = incr_error_renew_count g
    else \<exists>ns. each_assign (ring_of hst g) h = Inr ns \<and>
      server_for hst h offset g = (Inr (m_addr (chosen offset ns)), g, []) \<and> chosen offset ns \<in> set ns \<and>
      ((\<exists>n \<in> set (drop offset ns). m_active n) \<longrightarrow> m_active (chosen offset ns))"
proof (cases "hs_empty (ring_of hst g)")
  case True
  then show ?thesis by (simp add: server_for_def Let_def)
next
  case False
  with assigned_some [OF assms] obtain ns where ns: "each_assign (ring_of hst g) h = Inr ns" "ns \<noteq> []" by blast
  from server_for_assigned [OF ns(1) False] chosen_in [OF ns(2)] chosen_active [of _ offset ns] ns(1) False
  show ?thesis by auto
qed

definition sample_gateway :: "'c gateway" where
  "sample_gateway = \<lparr>g_rhs = sample_ring, g_whs = sample_ring, g_manager1 = sample_addr 9, g_manager2 = address_nil,
     g_async_replicate_delete = False, g_get_retry_num = 5, g_set_retry_num = 5, g_delete_retry_num = 5,
     g_renew_threshold = 3, g_error_count = 0, g_key_prefix = [], g_cache = None, g_retries = Map.empty,
     g_next_retry = 0, g_do_after = []\<rparr>"

lemma sample_gateway_ring [simp]: "ring_of hst sample_gateway = sample_ring"
  by (cases hst) (simp_all add: ring_of_def sample_gateway_def)

lemma sample_ring_not_empty [simp]: "\<not> hs_empty sample_ring"
  by (simp add: hs_empty_def sample_ring_nodes)

theorem server_for_follows_ring_witness:
  "\<exists>ns. each_assign sample_ring 7 = Inr ns \<and>
     fst (server_for HS_READ 7 1 (sample_gateway :: nat gateway)) = Inr (m_addr (chosen 1 ns))"
  using server_for_follows_ring [of sample_platform HS_READ "sample_gateway :: nat gateway" 7 1] sample_ring_synced by auto

section \<open>Every request is answered once\<close>

fun is_call :: "nat \<Rightarrow> gateway_action \<Rightarrow> bool" where
  "is_call i (G_Call a req (Cb_retry j) t) = (j = i)"
| "is_call i _ = False"

fun is_callback :: "user \<Rightarrow> gateway_action \<Rightarrow> bool" where
  "is_callback u (Callback v res) = (v = u)"
| "is_callback u (Submit_callback v res) = (v = u)"
| "is_callback u _ = False"

definition calls_of :: "nat \<Rightarrow> gateway_action list \<Rightarrow> nat" where
  "calls_of i acts = length (filter (is_call i) acts)"

definition callbacks_of :: "user \<Rightarrow> gateway_action list \<Rightarrow> nat" where
  "callbacks_of u acts = length (filter (is_callback u) acts)"

definition waits_in :: "nat \<Rightarrow> retry_after_callback do_after_list \<Rightarrow> nat" where
  "waits_in i q = length (filter (\<lambda>x. ra_retry (snd x) = i) q)"

definition waits_of :: "nat \<Rightarrow> 'c gateway \<Rightarrow> nat" where
  "waits_of i g = waits_in i (g_do_after g)"

definition replies_of :: "nat \<Rightarrow> gateway_event list \<Rightarrow> nat" where
  "replies_of i evs = length (filter (\<lambda>ev. case ev of E_reply j res err \<Rightarrow> j = i | _ \<Rightarrow> False) evs)"

fun event_user :: "gateway_event \<Rightarrow> user option" where
  "event_user (E_Get req) = Some (rg_user req)"
| "event_user (E_Set req) = Some (rs_user req)"
| "event_user (E_Delete req) = Some (rd_user req)"
| "event_user _ = None"

fun retry_user :: "bound_callback \<Rightarrow> user" where
  "retry_user (B_Get u) = u"
| "retry_user (B_GetIfModified u v) = u"
| "retry_user (B_Set u) = u"
| "retry_user (B_Delete u) = u"

fun matches :: "bound_callback \<Rightarrow> server_request \<Rightarrow> bool" where
  "matches (B_Get u) (S_Get key) = True"
| "matches (B_GetIfModified u v) (S_GetIfModified key ct) = True"
| "matches (B_Set u) (S_Set oper key val) = True"
| "matches (B_Delete u) (S_Delete fl key) = True"
| "matches _ _ = False"

lemma counts_simps [simp]:
  "calls_of i [] = 0" "calls_of i (xs @ ys) = calls_of i xs + calls_of i ys"
  "calls_of i (a # acts) = (if is_call i a then 1 else 0) + calls_of i acts"
  "callbacks_of u [] = 0" "callbacks_of u (xs @ ys) = callbacks_of u xs + callbacks_of u ys"
  "callbacks_of u (a # acts) = (if is_callback u a then 1 else 0) + callbacks_of u acts"
  by (simp_all add: calls_of_def callbacks_of_def)

lemma replies_snoc [simp]:
  "replies_of i [] = 0"
  "replies_of i (evs @ [ev]) = replies_of i evs + (case ev of E_reply j res err \<Rightarrow> if j = i then 1 else 0 | _ \<Rightarrow> 0)"
  by (auto simp: replies_of_def split: gateway_event.splits)

text \<open>Actions that neither call for a retry object nor answer an application.\<close>

definition gw_silent :: "gateway_action list \<Rightarrow> bool" where
  "gw_silent acts \<longleftrightarrow> (\<forall>i. calls_of i acts = 0) \<and> (\<forall>u. callbacks_of u acts = 0)"

lemma gw_silent_simps [simp]:
  "gw_silent []" "gw_silent (xs @ ys) \<longleftrightarrow> gw_silent xs \<and> gw_silent ys"
  "gw_silent (request_hash_space a # acts) = gw_silent acts" "gw_silent (G_Respond rid v # acts) = gw_silent acts"
  "gw_silent (G_Respond_error rid v # acts) = gw_silent acts"
  by (auto simp: gw_silent_def request_hash_space_def)

lemma renew_gw_silent [simp]: "gw_silent (renew_hash_space g)" "gw_silent (renew_on err g)"
  by (simp_all add: renew_hash_space_def renew_on_def)

text \<open>What every step keeps: nothing but the rings, the cache and the counter of errors changes.\<close>

definition same_work :: "'c gateway \<Rightarrow> 'c gateway \<Rightarrow> bool" where
  "same_work g g' \<longleftrightarrow> g_retries g' = g_retries g \<and> g_next_retry g' = g_next_retry g \<and> g_do_after g' = g_do_after g"

lemma incr_error_quiet:
  "gw_silent (snd (incr_error_renew_count g))" "same_work g (fst (incr_error_renew_count g))"
  "g_whs (fst (incr_error_renew_count g)) = g_whs g" "g_rhs (fst (incr_error_renew_count g)) = g_rhs g"
  by (simp_all add: incr_error_renew_count_def same_work_def)

text \<open>The call of a retry object goes out, or it throws and nothing has happened.\<close>

lemma retry_call_cases:
  assumes "retry_call hst i h offset g = (e, g', acts)" and "g_retries g i \<noteq> None"
  shows "same_work g g' \<and> g_whs g' = g_whs g \<and> g_rhs g' = g_rhs g \<and>
    (if e = None then \<exists>a req. acts = [G_Call a req (Cb_retry i) 10] else gw_silent acts)"
proof -
  obtain a g1 acts1 where sf: "server_for hst h offset g = (a, g1, acts1)" by (metis prod_cases3)
  have "same_work g g1 \<and> g_whs g1 = g_whs g \<and> g_rhs g1 = g_rhs g \<and> gw_silent acts1 \<and> (\<forall>x. a = Inr x \<longrightarrow> acts1 = [])"
  proof (cases "hs_empty (ring_of hst g)")
    case True
    then have "a = Inl (Runtime_error ''No server'')" "(g1, acts1) = incr_error_renew_count g"
      using sf by (simp_all add: server_for_def Let_def)
    with incr_error_quiet [of g] show ?thesis by (metis Inl_Inr_False fst_conv snd_conv)
  next
    case False
    with sf show ?thesis by (auto simp: server_for_def Let_def same_work_def split: if_splits)
  qed
  with sf assms show ?thesis
    by (auto simp: retry_call_def same_work_def split: sum.splits option.splits)
qed

lemma retry_call_succeeds:
  assumes "hs_synced p (ring_of hst g)" and "\<not> hs_empty (ring_of hst g)" and "g_retries g i \<noteq> None"
  shows "\<exists>a req. retry_call hst i h offset g = (None, g, [G_Call a req (Cb_retry i) 10])"
proof -
  obtain ns where "each_assign (ring_of hst g) h = Inr ns" using assigned_some [OF assms(1,2)] by blast
  from server_for_assigned [OF this assms(2), of offset] assms(3) show ?thesis
    by (auto simp: retry_call_def)
qed

text \<open>
  What may come of one reply: the application is answered, another call goes out, or one is
  put on the timer's list. An exception has none of these effects.
\<close>

inductive outcome :: "nat \<Rightarrow> user \<Rightarrow> 'c gateway \<Rightarrow> 'c gateway \<Rightarrow> gateway_action list \<Rightarrow> bool" for i u g g' where
  oc_answered: "gw_silent pre \<Longrightarrow> g_do_after g' = g_do_after g \<Longrightarrow> outcome i u g g' (pre @ [Callback u r])"
| oc_called: "gw_silent pre \<Longrightarrow> g_do_after g' = g_do_after g \<Longrightarrow> outcome i u g g' (pre @ [G_Call a req (Cb_retry i) 10])"
| oc_delayed: "gw_silent pre \<Longrightarrow> g_do_after g' = g_do_after g @ [(n, ra)] \<Longrightarrow> ra_retry ra = i \<Longrightarrow> outcome i u g g' pre"

definition moved :: "nat \<Rightarrow> retry \<Rightarrow> 'c gateway \<Rightarrow> 'c gateway \<Rightarrow> bool" where
  "moved i rt g g' \<longleftrightarrow>
     (\<exists>rt'. g_retries g' = (g_retries g)(i \<mapsto> rt') \<and> rt_callback rt' = rt_callback rt \<and> rt_param rt' = rt_param rt) \<and>
     g_next_retry g' = g_next_retry g \<and> g_whs g' = g_whs g \<and> g_rhs g' = g_rhs g"

definition settles :: "nat \<Rightarrow> retry \<Rightarrow> user \<Rightarrow> 'c gateway \<Rightarrow> 'c gateway_out \<Rightarrow> bool" where
  "settles i rt u g out \<longleftrightarrow>
     (let (e, g', acts) = out
      in moved i rt g g' \<and> (if e = None then outcome i u g g' acts else gw_silent acts \<and> g_do_after g' = g_do_after g))"

lemma gateway_catch_settles:
  assumes "settles i rt u g out"
  shows "moved i rt g (fst (gateway_catch u res out)) \<and>
    outcome i u g (fst (gateway_catch u res out)) (snd (gateway_catch u res out))"
proof -
  obtain e g' acts where out: "out = (e, g', acts)" by (metis prod_cases3)
  with assms oc_answered [of acts g' g i u res] show ?thesis
    by (auto simp: settles_def gateway_catch_def split: option.splits)
qed

lemma moved_refl: "g_retries g i = Some rt \<Longrightarrow> g_retries g' = g_retries g \<Longrightarrow> g_next_retry g' = g_next_retry g \<Longrightarrow>
    g_whs g' = g_whs g \<Longrightarrow> g_rhs g' = g_rhs g \<Longrightarrow> moved i rt g g'"
  by (auto simp: moved_def intro!: exI [of _ rt])

lemma moved_put:
  assumes "moved i rt g g1" and "same_work g1 g2" and "g_whs g2 = g_whs g1" and "g_rhs g2 = g_rhs g1"
  shows "moved i rt g g2"
  using assms by (simp add: moved_def same_work_def)

lemma put_retry_moved: "moved i rt g (put_retry i (rt\<lparr>rt_limit := n\<rparr>) g)"
  by (auto simp: moved_def put_retry_def)

lemma cache_update_fields [simp]:
  "g_retries (cache_update p api key v g) = g_retries g" "g_next_retry (cache_update p api key v g) = g_next_retry g"
  "g_whs (cache_update p api key v g) = g_whs g" "g_rhs (cache_update p api key v g) = g_rhs g"
  "g_do_after (cache_update p api key v g) = g_do_after g"
  by (simp_all add: cache_update_def split: option.splits)

lemma settles_answer: "g_retries g i = Some rt \<Longrightarrow> settles i rt u g (None, g, [Callback u r])"
  using oc_answered [of "[]" g g i u r] by (simp add: settles_def moved_refl)

lemma settles_error: "g_retries g i = Some rt \<Longrightarrow> settles i rt u g (Some e, g, [])"
  by (simp add: settles_def moved_refl)

lemma got_value_settles:
  assumes "g_retries g i = Some rt"
  shows "settles i rt u g (got_value p api u key res g)"
proof -
  have "settles i rt u g (None, cache_update p api key st g, [Callback u r])" for st r
    using oc_answered [of "[]" "cache_update p api key st g" g i u r] assms by (simp add: settles_def moved_refl)
  with assms settles_answer settles_error show ?thesis
    by (auto simp: got_value_def split: rvalue.splits sum.splits)
qed

text \<open>Counting a failure and putting the retry object back.\<close>

lemma failed_again:
  fixes g :: "'c gateway"
  assumes "incr_error_renew_count (put_retry i (rt\<lparr>rt_limit := n\<rparr>) g) = (g2, acts)"
  shows "moved i rt g g2" and "gw_silent acts" and "g_do_after g2 = g_do_after g" and "g_retries g2 i \<noteq> None"
proof -
  let ?g1 = "put_retry i (rt\<lparr>rt_limit := n\<rparr>) g"
  note q = incr_error_quiet [of ?g1, unfolded assms fst_conv snd_conv]
  show "moved i rt g g2" by (rule moved_put [OF put_retry_moved q(2-4)])
  show "gw_silent acts" by (rule q(1))
  show "g_do_after g2 = g_do_after g" "g_retries g2 i \<noteq> None" using q(2) by (simp_all add: same_work_def put_retry_def)
qed

lemma retry_after_delayed:
  assumes "moved i rt g g2" and "gw_silent acts" and "g_do_after g2 = g_do_after g"
  shows "settles i rt u g (None, retry_after hst steps i h offset g2, acts)"
  using assms oc_delayed [OF assms(2), of "retry_after hst steps i h offset g2" g steps "\<lparr>ra_hs = hst, ra_retry = i, ra_hash = h, ra_offset = offset\<rparr>" i u]
  by (simp add: settles_def retry_after_def do_after_def moved_def)

lemma gives_up:
  "settles i rt u g (None, put_retry i (rt\<lparr>rt_limit := n\<rparr>) g, renew_on err g' @ [Callback u r])"
  using put_retry_moved [of i rt g n] oc_answered [of "renew_on err g'" "put_retry i (rt\<lparr>rt_limit := n\<rparr>) g" g i u r]
  by (simp add: settles_def put_retry_def)

lemma get_failed_settles: "settles i rt u g (get_failed i rt u key err g)"
proof -
  define n where "n = snd (retry_incr (rt_limit rt) (get_retry_limit g))"
  obtain g2 acts where inc: "incr_error_renew_count (put_retry i (rt\<lparr>rt_limit := n\<rparr>) g) = (g2, acts)" by fastforce
  note f = failed_again [OF inc]
  define offset where "offset = unat n mod Suc NUM_REPLICATION"
  obtain e g3 acts' where call: "retry_call HS_READ i (dk_hash key) offset g2 = (e, g3, acts')" by (metis prod_cases3)
  note c = retry_call_cases [OF call f(4)]
  have m: "moved i rt g g3" using moved_put [OF f(1)] c by blast
  have d: "g_do_after g3 = g_do_after g" using c f(3) by (simp add: same_work_def)
  have "settles i rt u g (e, g3, acts @ acts')"
  proof (cases "e = None")
    case True
    with c obtain a req where "acts' = [G_Call a req (Cb_retry i) 10]" by auto
    with True m d oc_called [OF f(2) d, of i u a req] show ?thesis by (simp add: settles_def)
  next
    case False
    with c have "gw_silent acts'" by simp
    with False m d f(2) show ?thesis by (simp add: settles_def) blast
  qed
  with retry_after_delayed [OF f(1-3), of u HS_READ DO_AFTER_SECOND "dk_hash key" 0] inc call show ?thesis
    by (simp add: get_failed_def n_def [symmetric] offset_def [symmetric] case_prod_beta Let_def gives_up)
qed

lemma write_failed_settles: "settles i rt u g (write_failed limit i rt u res key err g)"
proof -
  define n where "n = snd (retry_incr (rt_limit rt) limit)"
  obtain g2 acts where inc: "incr_error_renew_count (put_retry i (rt\<lparr>rt_limit := n\<rparr>) g) = (g2, acts)" by fastforce
  from retry_after_delayed [OF failed_again(1-3) [OF inc]] inc show ?thesis
    by (simp add: write_failed_def n_def [symmetric] case_prod_beta Let_def gives_up)
qed

lemma reply_settles:
  assumes "g_retries g i = Some rt" and "matches (rt_callback rt) (rt_param rt)"
  shows "moved i rt g (fst (res_retry p api i res err g)) \<and>
    outcome i (retry_user (rt_callback rt)) g (fst (res_retry p api i res err g)) (snd (res_retry p api i res err g))"
proof -
  have got: "settles i rt u g (got_value p api u key res g)" for u key using got_value_settles [OF assms(1)] .
  have answer: "settles i rt u g (None, g, [Callback u r])" for u r using settles_answer [OF assms(1)] .
  have error: "settles i rt u g (Some e, g, [])" for u e using settles_error [OF assms(1)] .
  show ?thesis
    using assms(2)
  proof (cases "(rt_callback rt, rt_param rt)" rule: matches.cases)
    case (1 u key)
    have "settles i rt u g (if err = V_nil then got_value p api u key res g else get_failed i rt u key err g)"
      using got by (simp add: get_failed_settles)
    from gateway_catch_settles [OF this, of Res_get_error] 1 show ?thesis
      by (simp add: res_retry_def assms(1) res_Get_def)
  next
    case (2 u cached key ct)
    let ?out = "if err = V_nil then
          (if res = V_bool True then
             (None, g, [Callback u (Res_get (dbkey_remove_prefix key g) (dk_hash key) (Some (dv_val cached)) (ct_get (dv_clocktime cached)))])
           else got_value p api u key res g)
        else get_failed i rt u key err g"
    have "settles i rt u g ?out" using got answer by (simp add: get_failed_settles)
    from gateway_catch_settles [OF this, of Res_get_error] 2 show ?thesis
      by (simp add: res_retry_def assms(1) res_GetIfModified_def)
  next
    case (3 u oper key val)
    have "settles i rt u g (case res of
          V_nil \<Rightarrow> write_failed (g_set_retry_num g) i rt u Res_set_error key err g
        | V_bool False \<Rightarrow> (None, g, [Callback u (Res_set (dbkey_remove_prefix key g) (dk_hash key) (dv_val val) 0 False)])
        | V_u64 ct \<Rightarrow> (None, g, [Callback u (Res_set (dbkey_remove_prefix key g) (dk_hash key) (dv_val val) ct True)])
        | _ \<Rightarrow> (Some Type_error, g, []))"
      by (auto simp: write_failed_settles answer error split: rvalue.split bool.split)
    from gateway_catch_settles [OF this, of Res_set_error] 3 show ?thesis
      by (simp add: res_retry_def assms(1) res_Set_def)
  next
    case (4 u fl key)
    have "settles i rt u g (case res of
          V_nil \<Rightarrow> write_failed (g_delete_retry_num g) i rt u Res_delete_error key err g
        | V_bool b \<Rightarrow> (None, g, [Callback u (Res_delete (dbkey_remove_prefix key g) (dk_hash key) b)])
        | _ \<Rightarrow> (Some Type_error, g, []))"
      by (auto simp: write_failed_settles answer error split: rvalue.split)
    from gateway_catch_settles [OF this, of Res_delete_error] 4 show ?thesis
      by (simp add: res_retry_def assms(1) res_Delete_def)
  qed (simp_all)
qed

lemma outcome_counts:
  assumes "outcome i u g g' acts"
  shows "callbacks_of u acts + calls_of i acts + waits_of i g' = Suc (waits_of i g)"
    and "j \<noteq> i \<Longrightarrow> calls_of j acts = 0 \<and> waits_of j g' = waits_of j g"
    and "v \<noteq> u \<Longrightarrow> callbacks_of v acts = 0"
    and "x \<in> set (g_do_after g') \<Longrightarrow> x \<in> set (g_do_after g) \<or> ra_retry (snd x) = i"
  using assms by (cases; auto simp: gw_silent_def waits_of_def waits_in_def)+

section \<open>A request and its retry object\<close>

lemma new_call_outcome:
  assumes "new_call hst h param cb g = (e, g', acts)"
  shows "g_retries g' = (g_retries g)(g_next_retry g \<mapsto> \<lparr>rt_limit = 0, rt_param = param, rt_callback = cb\<rparr>)"
    and "g_next_retry g' = Suc (g_next_retry g)" and "g_do_after g' = g_do_after g"
    and "g_whs g' = g_whs g" and "g_rhs g' = g_rhs g"
    and "if e = None then \<exists>a req. acts = [G_Call a req (Cb_retry (g_next_retry g)) 10] else gw_silent acts"
  using retry_call_cases [OF assms [unfolded new_call_def Let_def]] by (simp_all add: same_work_def)

text \<open>The effect of a request of an application: one call with its retry object, or an answer.\<close>

inductive opened :: "user \<Rightarrow> 'c gateway \<Rightarrow> 'c gateway_eff \<Rightarrow> bool" for u g where
  "g_retries g' = (g_retries g)(g_next_retry g \<mapsto> rt) \<Longrightarrow> retry_user (rt_callback rt) = u \<Longrightarrow>
   matches (rt_callback rt) (rt_param rt) \<Longrightarrow> g_next_retry g' = Suc (g_next_retry g) \<Longrightarrow>
   g_do_after g' = g_do_after g \<Longrightarrow> g_whs g' = g_whs g \<Longrightarrow> g_rhs g' = g_rhs g \<Longrightarrow>
   (\<exists>a req. acts = [G_Call a req (Cb_retry (g_next_retry g)) 10]) \<or> (\<exists>pre r. gw_silent pre \<and> acts = pre @ [Submit_callback u r]) \<Longrightarrow>
   opened u g (g', acts)"

lemma new_call_opened:
  assumes "retry_user cb = u" and "matches cb param"
  shows "opened u g (submit_catch u r (new_call hst h param cb g))"
proof -
  obtain e g' acts where nc: "new_call hst h param cb g = (e, g', acts)" by (metis prod_cases3)
  note n = new_call_outcome [OF nc]
  show ?thesis
  proof (cases e)
    case None
    with n(6) nc assms show ?thesis
      by (auto simp: submit_catch_def intro!: opened.intros [OF n(1) _ _ n(2-5)])
  next
    case (Some x)
    with n(6) have "gw_silent acts" by simp
    with Some nc assms show ?thesis
      by (auto simp: submit_catch_def intro!: opened.intros [OF n(1) _ _ n(2-5)])
  qed
qed

lemma requests_open:
  "opened (rg_user rg) g (gw_Get p api rg g)" "opened (rs_user rs) g (gw_Set p rs g)"
  "opened (rd_user rd) g (gw_Delete p rd g)"
  by (auto simp: gw_Get_def gw_Set_def gw_Delete_def Let_def new_call_opened split: option.split)

lemma opened_counts:
  assumes "opened u g (g', acts)"
  shows "callbacks_of u acts + calls_of (g_next_retry g) acts = 1"
    and "j \<noteq> g_next_retry g \<Longrightarrow> calls_of j acts = 0" and "v \<noteq> u \<Longrightarrow> callbacks_of v acts = 0"
    and "waits_of j g' = waits_of j g"
  using assms by (cases; auto simp: gw_silent_def waits_of_def)+

section \<open>The timer\<close>

definition due :: "nat \<Rightarrow> retry_after_callback list \<Rightarrow> nat" where
  "due i fire = length (filter (\<lambda>ra. ra_retry ra = i) fire)"

lemma step_do_after_counts:
  assumes "step_do_after q = (fire, q')"
  shows "waits_in i q' + due i fire = waits_in i q"
proof -
  have "length (filter P (map snd (filter A xs))) + length (filter (\<lambda>x. P (snd x)) (map f (filter (\<lambda>x. \<not> A x) xs))) =
      length (filter (\<lambda>x. P (snd x)) xs)" if "\<And>x. snd (f x) = snd x" for P A f and xs :: "(u32 \<times> retry_after_callback) list"
    using that by (induction xs) auto
  from this [of "\<lambda>x. (fst x - 1, snd x)" "\<lambda>ra. ra_retry ra = i" "\<lambda>x. fst x = 0" q] assms show ?thesis
    by (auto simp: step_do_after_def waits_in_def due_def)
qed

lemma fire_counts:
  assumes "hs_synced p (g_whs g)" and "hs_synced p (g_rhs g)" and "\<not> hs_empty (g_whs g)" and "\<not> hs_empty (g_rhs g)"
    and "\<forall>ra \<in> set fire. g_retries g (ra_retry ra) \<noteq> None"
  shows "\<exists>acts. fold (\<lambda>ra e. let (g, a) = e; (g', a') = run_retry_after ra g in (g', a @ a')) fire (g, acts0) = (g, acts0 @ acts) \<and>
    (\<forall>i. calls_of i acts = due i fire) \<and> (\<forall>u. callbacks_of u acts = 0)"
  using assms(5)
proof (induction fire arbitrary: acts0)
  case (Cons ra fire)
  have "hs_synced p (ring_of (ra_hs ra) g)" "\<not> hs_empty (ring_of (ra_hs ra) g)"
    using assms(1-4) by (auto simp: ring_of_def split: hash_space_type.splits)
  from retry_call_succeeds [OF this, of "ra_retry ra" "ra_hash ra" "ra_offset ra"] Cons.prems
  obtain a req where call: "run_retry_after ra g = (g, [G_Call a req (Cb_retry (ra_retry ra)) 10])"
    by (auto simp: run_retry_after_def)
  from Cons.IH [of "acts0 @ [G_Call a req (Cb_retry (ra_retry ra)) 10]"] Cons.prems obtain acts where
    "fold (\<lambda>ra e. let (g, a) = e; (g', a') = run_retry_after ra g in (g', a @ a')) fire
       (g, acts0 @ [G_Call a req (Cb_retry (ra_retry ra)) 10]) = (g, (acts0 @ [G_Call a req (Cb_retry (ra_retry ra)) 10]) @ acts)"
    "\<forall>i. calls_of i acts = due i fire" "\<forall>u. callbacks_of u acts = 0" by auto
  then show ?case
    by (intro exI [of _ "G_Call a req (Cb_retry (ra_retry ra)) 10 # acts"]) (auto simp: call due_def)
qed (simp add: due_def)

section \<open>Runs\<close>

text \<open>
  What the rest of the system promises a gateway: a reply comes only to a call that is open,
  applications do not share a callback pointer, and the timer finds rings with a live server
  (otherwise it drops the call it was to make).
\<close>

definition gateway_env :: "gateway_event list \<Rightarrow> gateway_action list \<Rightarrow> 'c gateway \<Rightarrow> gateway_event \<Rightarrow> bool" where
  "gateway_env evs acts g ev \<longleftrightarrow>
     (case ev of E_reply i res err \<Rightarrow> replies_of i evs < calls_of i acts | _ \<Rightarrow> True) \<and>
     (\<forall>u. event_user ev = Some u \<longrightarrow> Some u \<notin> event_user ` set evs) \<and>
     (ev = E_timer \<longrightarrow> \<not> hs_empty (g_whs g) \<and> \<not> hs_empty (g_rhs g))"

inductive gateway_reach ::
    "platform \<Rightarrow> 'c tcadb_api \<Rightarrow> 'c gateway \<Rightarrow> gateway_event list \<Rightarrow> gateway_action list \<Rightarrow> 'c gateway \<Rightarrow> bool"
  for p api g0 where
  greach_start: "gateway_reach p api g0 [] [] g0"
| greach_step: "gateway_reach p api g0 evs acts g \<Longrightarrow> gateway_env evs acts g ev \<Longrightarrow>
    gateway_apply p api ev g = (g', acts') \<Longrightarrow> gateway_reach p api g0 (evs @ [ev]) (acts @ acts') g'"

definition gateway_fresh :: "platform \<Rightarrow> 'c gateway \<Rightarrow> bool" where
  "gateway_fresh p g \<longleftrightarrow> hs_synced p (g_whs g) \<and> hs_synced p (g_rhs g) \<and> g_retries g = Map.empty \<and> g_next_retry g = 0 \<and> g_do_after g = []"

text \<open>One request: its answer, its open calls and its delayed calls make one.\<close>

definition request_inv :: "gateway_event list \<Rightarrow> gateway_action list \<Rightarrow> 'c gateway \<Rightarrow> nat \<Rightarrow> retry \<Rightarrow> bool" where
  "request_inv evs acts g i rt \<longleftrightarrow>
     i < g_next_retry g \<and> matches (rt_callback rt) (rt_param rt) \<and> replies_of i evs \<le> calls_of i acts \<and>
     Some (retry_user (rt_callback rt)) \<in> event_user ` set evs \<and>
     callbacks_of (retry_user (rt_callback rt)) acts + calls_of i acts + waits_of i g = Suc (replies_of i evs)"

definition gateway_inv :: "platform \<Rightarrow> gateway_event list \<Rightarrow> gateway_action list \<Rightarrow> 'c gateway \<Rightarrow> bool" where
  "gateway_inv p evs acts g \<longleftrightarrow>
     hs_synced p (g_whs g) \<and> hs_synced p (g_rhs g) \<and>
     (\<forall>i rt. g_retries g i = Some rt \<longrightarrow> request_inv evs acts g i rt) \<and>
     (\<forall>i. g_retries g i = None \<longrightarrow> calls_of i acts = 0 \<and> waits_of i g = 0 \<and> replies_of i evs = 0) \<and>
     (\<forall>i j rt rt'. g_retries g i = Some rt \<longrightarrow> g_retries g j = Some rt' \<longrightarrow>
        retry_user (rt_callback rt) = retry_user (rt_callback rt') \<longrightarrow> i = j) \<and>
     (\<forall>u. Some u \<in> event_user ` set evs \<longrightarrow> (\<exists>i rt. g_retries g i = Some rt \<and> retry_user (rt_callback rt) = u)) \<and>
     (\<forall>u. Some u \<notin> event_user ` set evs \<longrightarrow> callbacks_of u acts = 0)"

lemma gateway_invD:
  assumes "gateway_inv p evs acts g"
  shows "hs_synced p (g_whs g)" "hs_synced p (g_rhs g)"
    "g_retries g i = Some rt \<Longrightarrow> request_inv evs acts g i rt"
    "g_retries g i = None \<Longrightarrow> calls_of i acts = 0 \<and> waits_of i g = 0 \<and> replies_of i evs = 0"
    "g_retries g i = Some rt \<Longrightarrow> g_retries g j = Some rt' \<Longrightarrow>
       retry_user (rt_callback rt) = retry_user (rt_callback rt') \<Longrightarrow> i = j"
    "Some u \<in> event_user ` set evs \<Longrightarrow> \<exists>i rt. g_retries g i = Some rt \<and> retry_user (rt_callback rt) = u"
    "Some u \<notin> event_user ` set evs \<Longrightarrow> callbacks_of u acts = 0"
  using assms unfolding gateway_inv_def by blast+

lemma request_invD:
  assumes "request_inv evs acts g i rt"
  shows "i < g_next_retry g" "matches (rt_callback rt) (rt_param rt)" "replies_of i evs \<le> calls_of i acts"
    "Some (retry_user (rt_callback rt)) \<in> event_user ` set evs"
    "callbacks_of (retry_user (rt_callback rt)) acts + calls_of i acts + waits_of i g = Suc (replies_of i evs)"
  using assms unfolding request_inv_def by blast+

lemma gw_quiet_step:
  assumes "gateway_inv p evs acts g" and "event_user ev = None" and "\<And>i res err. ev \<noteq> E_reply i res err"
    and "g_retries g' = g_retries g" and "g_next_retry g' = g_next_retry g"
    and "hs_synced p (g_whs g')" and "hs_synced p (g_rhs g')"
    and "\<And>i. calls_of i acts' + waits_of i g' = waits_of i g" and "\<And>u. callbacks_of u acts' = 0"
  shows "gateway_inv p (evs @ [ev]) (acts @ acts') g'"
proof -
  have rep: "replies_of i (evs @ [ev]) = replies_of i evs" for i using assms(3) by (auto split: gateway_event.splits)
  have users: "Some u \<in> event_user ` set (evs @ [ev]) \<longleftrightarrow> Some u \<in> event_user ` set evs" for u using assms(2) by auto
  note inv = gateway_invD [OF assms(1)]
  have "request_inv (evs @ [ev]) (acts @ acts') g' i rt" if "g_retries g i = Some rt" for i rt
  proof -
    note r = request_invD [OF inv(3) [OF that]]
    from r(1-4) assms(5,9) show ?thesis
      unfolding request_inv_def rep users using r(5) assms(8) [of i] by simp
  qed
  moreover have "calls_of i (acts @ acts') = 0 \<and> waits_of i g' = 0" if "g_retries g i = None" for i
    using inv(4) [OF that] assms(8) [of i] by simp
  ultimately show ?thesis
    unfolding gateway_inv_def rep users assms(4) using inv assms(6,7,9) by simp
qed

lemma opened_step:
  assumes "gateway_inv p evs acts g" and "event_user ev = Some u" and "Some u \<notin> event_user ` set evs"
    and "opened u g (g', acts')"
  shows "gateway_inv p (evs @ [ev]) (acts @ acts') g'"
proof -
  have rep: "replies_of i (evs @ [ev]) = replies_of i evs" for i using assms(2) by (auto split: gateway_event.splits)
  have users: "Some v \<in> event_user ` set (evs @ [ev]) \<longleftrightarrow> v = u \<or> Some v \<in> event_user ` set evs" for v
    using assms(2) by auto
  note inv = gateway_invD [OF assms(1)] and c = opened_counts [OF assms(4)]
  let ?n = "g_next_retry g"
  obtain rt where new: "g_retries g' = (g_retries g)(?n \<mapsto> rt)" "retry_user (rt_callback rt) = u" "matches (rt_callback rt) (rt_param rt)"
    "g_next_retry g' = Suc ?n" "g_whs g' = g_whs g" "g_rhs g' = g_rhs g"
    using assms(4) by (cases) blast
  have none: "g_retries g ?n = None" using request_invD(1) [OF inv(3)] by (cases "g_retries g ?n") auto
  have first: "request_inv (evs @ [ev]) (acts @ acts') g' ?n rt"
    unfolding request_inv_def rep users using inv(4) [OF none] c(1,4) inv(7) [OF assms(3)] new by simp
  have old: "request_inv (evs @ [ev]) (acts @ acts') g' i rt'" if "g_retries g i = Some rt'" for i rt'
  proof -
    note r = request_invD [OF inv(3) [OF that]]
    have "i \<noteq> ?n" using none that by auto
    moreover have "retry_user (rt_callback rt') \<noteq> u" using r(4) assms(3) by auto
    ultimately show ?thesis
      unfolding request_inv_def rep users
      using r c(2) [of i] c(3) [of "retry_user (rt_callback rt')"] c(4) [of i] new(4) by simp
  qed
  have uniq: "retry_user (rt_callback rt') \<noteq> u" if "g_retries g i = Some rt'" for i rt'
    using request_invD(4) [OF inv(3) [OF that]] assms(3) by auto
  show ?thesis
    unfolding gateway_inv_def rep users
  proof (intro conjI allI impI)
    show "hs_synced p (g_whs g')" "hs_synced p (g_rhs g')" using inv(1,2) new by simp_all
    show "request_inv (evs @ [ev]) (acts @ acts') g' i rt'" if "g_retries g' i = Some rt'" for i rt'
      using that first old new(1) by (auto split: if_splits)
    show "calls_of i (acts @ acts') = 0" "waits_of i g' = 0" "replies_of i evs = 0" if "g_retries g' i = None" for i
      using that inv(4) [of i] c(2) [of i] c(4) [of i] new(1) by (auto split: if_splits)
    show "i = j" if "g_retries g' i = Some rt1" "g_retries g' j = Some rt2"
      "retry_user (rt_callback rt1) = retry_user (rt_callback rt2)" for i j rt1 rt2
      using that inv(5) [of i rt1 j rt2] uniq new(1,2) by (auto split: if_splits)
    show "\<exists>i rt. g_retries g' i = Some rt \<and> retry_user (rt_callback rt) = v" if "v = u \<or> Some v \<in> event_user ` set evs" for v
      using that inv(6) [of v] new(1,2) none by (metis fun_upd_other fun_upd_same option.distinct(1))
    show "callbacks_of v (acts @ acts') = 0" if "\<not> (v = u \<or> Some v \<in> event_user ` set evs)" for v
      using that inv(7) [of v] c(3) [of v] by simp
  qed
qed

lemma reply_step:
  assumes "gateway_inv p evs acts g" and "replies_of i evs < calls_of i acts" and "res_retry p api i res err g = (g', acts')"
  shows "gateway_inv p (evs @ [E_reply i res err]) (acts @ acts') g'"
proof -
  note inv = gateway_invD [OF assms(1)]
  have "g_retries g i \<noteq> None" using inv(4) [of i] assms(2) by auto
  then obtain rt where rt: "g_retries g i = Some rt" by blast
  note r = request_invD [OF inv(3) [OF rt]]
  let ?u = "retry_user (rt_callback rt)"
  have mv: "moved i rt g g'" and oc: "outcome i ?u g g' acts'"
    using reply_settles [OF rt r(2), of p api res err] assms(3) by simp_all
  note c = outcome_counts [OF oc]
  obtain rt' where new: "g_retries g' = (g_retries g)(i \<mapsto> rt')" "rt_callback rt' = rt_callback rt" "rt_param rt' = rt_param rt"
    "g_next_retry g' = g_next_retry g" "g_whs g' = g_whs g" "g_rhs g' = g_rhs g"
    using mv by (auto simp: moved_def)
  let ?evs = "evs @ [E_reply i res err]"
  have users: "event_user ` set ?evs = insert None (event_user ` set evs)" by auto
  have this_one: "request_inv ?evs (acts @ acts') g' i rt'"
    using r c(1) new assms(2) users by (simp add: request_inv_def)
  have other: "request_inv ?evs (acts @ acts') g' j rt2" if j: "g_retries g j = Some rt2" "j \<noteq> i" for j rt2
  proof -
    note r2 = request_invD [OF inv(3) [OF j(1)]]
    have "retry_user (rt_callback rt2) \<noteq> ?u" using inv(5) [OF rt j(1)] j(2) by auto
    with r2 c(2) [of j] c(3) [of "retry_user (rt_callback rt2)"] j(2) new users show ?thesis
      by (simp add: request_inv_def)
  qed
  show ?thesis
    unfolding gateway_inv_def users
  proof (intro conjI allI impI)
    show "hs_synced p (g_whs g')" "hs_synced p (g_rhs g')" using inv(1,2) new by simp_all
    show "request_inv ?evs (acts @ acts') g' j rt2" if "g_retries g' j = Some rt2" for j rt2
      using that this_one other new(1) by (auto split: if_splits)
    show "calls_of j (acts @ acts') = 0" "waits_of j g' = 0" "replies_of j ?evs = 0" if "g_retries g' j = None" for j
      using that inv(4) [of j] c(2) [of j] new(1) by (auto split: if_splits)
    show "j = k" if "g_retries g' j = Some rt1" "g_retries g' k = Some rt2"
      "retry_user (rt_callback rt1) = retry_user (rt_callback rt2)" for j k rt1 rt2
      using that inv(5) [of j _ k] rt new(1,2) by (auto split: if_splits)
    show "\<exists>j rt. g_retries g' j = Some rt \<and> retry_user (rt_callback rt) = v" if "Some v \<in> insert None (event_user ` set evs)" for v
      using that inv(6) [of v] new(1,2) rt by (metis fun_upd_other fun_upd_same insert_iff option.distinct(1) option.inject)
    show "callbacks_of v (acts @ acts') = 0" if "Some v \<notin> insert None (event_user ` set evs)" for v
    proof -
      have "v \<noteq> ?u" using r(4) that by auto
      then show ?thesis using that inv(7) [of v] c(3) [of v] by simp
    qed
  qed
qed

lemma timer_step:
  assumes "gateway_inv p evs acts g" and "\<not> hs_empty (g_whs g)" and "\<not> hs_empty (g_rhs g)"
    and "gw_timer_handler g = (g', acts')"
  shows "gateway_inv p (evs @ [E_timer]) (acts @ acts') g'"
proof -
  note inv = gateway_invD [OF assms(1)]
  obtain fire q where fq: "step_do_after (g_do_after g) = (fire, q)" by fastforce
  let ?g = "g\<lparr>g_do_after := q\<rparr>"
  have count: "waits_in i q + due i fire = waits_of i g" for i
    using step_do_after_counts [OF fq] by (simp add: waits_of_def)
  have "g_retries g (ra_retry ra) \<noteq> None" if "ra \<in> set fire" for ra
  proof
    assume "g_retries g (ra_retry ra) = None"
    with inv(4) count [of "ra_retry ra"] have "due (ra_retry ra) fire = 0" by simp
    with that show False by (auto simp: due_def filter_empty_conv)
  qed
  then have "\<forall>ra \<in> set fire. g_retries ?g (ra_retry ra) \<noteq> None" by simp
  from fire_counts [of p ?g fire "[]", OF _ _ _ _ this] inv(1,2) assms(2,3) obtain acts1 where
    "gw_timer_handler g = (?g, acts1)" "\<forall>i. calls_of i acts1 = due i fire" "\<forall>u. callbacks_of u acts1 = 0"
    by (auto simp: gw_timer_handler_def fq)
  with assms(4) have out: "g' = ?g" "\<forall>i. calls_of i acts' = due i fire" "\<forall>u. callbacks_of u acts' = 0" by auto
  show ?thesis
    by (rule gw_quiet_step [OF assms(1)]) (use out inv(1,2) count in \<open>auto simp: waits_of_def add.commute\<close>)
qed

lemma update_rings_fields:
  "g_retries (update_rhs p rs (update_whs p ws g)) = g_retries g"
  "g_next_retry (update_rhs p rs (update_whs p ws g)) = g_next_retry g"
  "g_do_after (update_rhs p rs (update_whs p ws g)) = g_do_after g"
  "hs_synced p (g_whs g) \<Longrightarrow> hs_synced p (g_whs (update_rhs p rs (update_whs p ws g)))"
  "hs_synced p (g_rhs g) \<Longrightarrow> hs_synced p (g_rhs (update_rhs p rs (update_whs p ws g)))"
  by (simp_all add: update_rhs_def update_whs_def hs_synced_intros)

lemma gw_silent_counts: "gw_silent acts \<Longrightarrow> calls_of i acts = 0 \<and> callbacks_of u acts = 0"
  by (simp add: gw_silent_def)

lemma gateway_inv_step:
  assumes "gateway_inv p evs acts g" and "gateway_env evs acts g ev" and "gateway_apply p api ev g = (g', acts')"
  shows "gateway_inv p (evs @ [ev]) (acts @ acts') g'"
proof -
  note inv = gateway_invD [OF assms(1)]
  have quiet: ?thesis if "event_user ev = None" "\<And>i res err. ev \<noteq> E_reply i res err" "gw_silent acts'"
    "g' = g \<or> (\<exists>ws rs. g' = update_rhs p rs (update_whs p ws g))"
    by (rule gw_quiet_step [OF assms(1) that(1,2)])
      (use that(3,4) inv(1,2) gw_silent_counts in \<open>auto simp: update_rings_fields waits_of_def\<close>)
  show ?thesis
  proof (cases ev)
    case (E_Get req)
    then show ?thesis using opened_step [OF assms(1), of ev "rg_user req" g' acts'] requests_open(1) [of req g p api] assms(2,3)
      by (simp add: gateway_env_def)
  next
    case (E_Set req)
    then show ?thesis using opened_step [OF assms(1), of ev "rs_user req" g' acts'] requests_open(2) [of req g p] assms(2,3)
      by (simp add: gateway_env_def)
  next
    case (E_Delete req)
    then show ?thesis using opened_step [OF assms(1), of ev "rd_user req" g' acts'] requests_open(3) [of req g p] assms(2,3)
      by (simp add: gateway_env_def)
  next
    case (E_reply i res err)
    then show ?thesis using reply_step [OF assms(1)] assms(2,3) by (simp add: gateway_env_def)
  next
    case (E_rings frm active res err)
    then show ?thesis
      using assms(3) by (intro quiet) (auto simp: res_HashSpaceRequest_def split: if_splits rvalue.splits)
  next
    case (E_request rid req)
    then show ?thesis
      using assms(3) by (intro quiet) (auto simp: gw_dispatch_def gw_HashSpacePush_def split: request.splits gateway_request.splits)
  next
    case E_timer
    then show ?thesis using timer_step [OF assms(1)] assms(2,3) by (simp add: gateway_env_def)
  next
    case (E_keep_alive bound)
    then show ?thesis using assms(3) by (intro quiet) (auto simp: gw_keep_alive_def split: if_splits)
  next
    case (E_session_lost addr)
    then show ?thesis using assms(3) by (intro quiet) (auto simp: session_lost_def split: if_splits)
  qed
qed

lemma gateway_reach_inv:
  assumes "gateway_reach p api g0 evs acts g" and "gateway_fresh p g0"
  shows "gateway_inv p evs acts g"
  using assms
proof (induction rule: gateway_reach.induct)
  case greach_start
  then show ?case by (simp add: gateway_inv_def gateway_fresh_def waits_of_def waits_in_def)
next
  case (greach_step evs acts g ev g' acts')
  then show ?case using gateway_inv_step by blast
qed


text \<open>A cache that is an association by function.\<close>

definition map_cache :: "(bytes \<Rightarrow> bytes option) tcadb_api" where
  "map_cache = \<lparr>tcadbget = (\<lambda>db k. db k),
     tcadbputproc = (\<lambda>db k v proc. case db k of None \<Rightarrow> db(k \<mapsto> v) | Some old \<Rightarrow> (case proc old of None \<Rightarrow> db | Some w \<Rightarrow> db(k \<mapsto> w)))\<rparr>"


section \<open>How long a read goes on\<close>

lemma get_retry_limit_nat:
  assumes "0 < unat (g_get_retry_num g)" and "unat (g_get_retry_num g) \<le> 21845"
  shows "unat (get_retry_limit g) = 3 * unat (g_get_retry_num g) - 1"
proof -
  let ?k = "unat (g_get_retry_num g)"
  have k: "uint (g_get_retry_num g) = int ?k" by simp
  have "(3 * int ?k - 1) mod 65536 = 3 * int ?k - 1" using assms by (intro mod_pos_pos_trivial) linarith+
  moreover have "uint (word_of_int z :: u16) = z mod 65536" for z by (simp add: uint_word_of_int)
  then have "uint (get_retry_limit g) = ((int NUM_REPLICATION + 1) * int ?k - 1) mod 65536"
    unfolding get_retry_limit_def k .
  ultimately have "uint (get_retry_limit g) = 3 * int ?k - 1" by (simp add: NUM_REPLICATION_def del: of_nat_unat)
  moreover have "int (unat (get_retry_limit g)) = uint (get_retry_limit g)" by simp
  ultimately show ?thesis using assms by linarith
qed

lemma get_retry_limit_zero: "g_get_retry_num g = 0 \<Longrightarrow> get_retry_limit g = - 1"
  by (simp add: get_retry_limit_def NUM_REPLICATION_def)

lemma retry_incr_nat:
  assumes "unat (n :: u16) < 65535"
  shows "fst (retry_incr n limit) \<longleftrightarrow> unat n + 1 \<le> unat limit" "unat (snd (retry_incr n limit)) = unat n + 1"
proof -
  have "unat (n + 1) = unat n + 1" using assms by (simp add: unat_word_ariths)
  then show "fst (retry_incr n limit) \<longleftrightarrow> unat n + 1 \<le> unat limit" "unat (snd (retry_incr n limit)) = unat n + 1"
    by (simp_all add: retry_incr_def word_le_nat_alt)
qed

text \<open>
  C39: a read that fails goes on to the next server of its key: to the second, the third, and,
  a second later, the first again. After three rounds times the configured number it is
  answered with an error. The limit is computed in 16 bits: with the number 0 it is 65535 and
  the read never gives up.
\<close>

theorem read_asks_servers_in_turn:
  assumes "g_retries g i = Some \<lparr>rt_limit = n, rt_param = S_Get key, rt_callback = B_Get u\<rparr>" and "err \<noteq> V_nil"
    and "each_assign (g_rhs g) (dk_hash key) = Inr ns" and "\<not> hs_empty (g_rhs g)"
    and "unat (g_get_retry_num g) \<le> 21845" and "g_get_retry_num g = 0 \<or> unat n < 3 * unat (g_get_retry_num g)"
    and "res_retry p api i res err g = (g', acts)"
  shows "if g_get_retry_num g \<noteq> 0 \<and> unat n + 1 = 3 * unat (g_get_retry_num g) then \<exists>pre. acts = pre @ [Callback u Res_get_error] \<and> gw_silent pre
    else let k = unat (n + 1) mod 3
      in \<exists>pre. gw_silent pre \<and>
        (if k = 0 then acts = pre \<and>
           g_do_after g' = g_do_after g @ [(2, \<lparr>ra_hs = HS_READ, ra_retry = i, ra_hash = dk_hash key, ra_offset = 0\<rparr>)]
         else acts = pre @ [G_Call (m_addr (chosen k ns)) (To_server (S_Get key)) (Cb_retry i) 10])"
proof -
  let ?rt = "\<lparr>rt_limit = n, rt_param = S_Get key, rt_callback = B_Get u\<rparr>"
  let ?g1 = "put_retry i (?rt\<lparr>rt_limit := n + 1\<rparr>) g"
  have out: "(g', acts) = gateway_catch u Res_get_error (get_failed i ?rt u key err g)"
    using assms(1,2,7) by (simp add: res_retry_def res_Get_def)
  have again: "fst (retry_incr n (get_retry_limit g)) \<longleftrightarrow> \<not> (g_get_retry_num g \<noteq> 0 \<and> unat n + 1 = 3 * unat (g_get_retry_num g))"
  proof (cases "g_get_retry_num g = 0")
    case True
    then show ?thesis by (simp add: retry_incr_def get_retry_limit_zero)
  next
    case False
    then have "0 < unat (g_get_retry_num g)" by (simp add: unat_gt_0)
    with get_retry_limit_nat [of g] assms(5,6) False retry_incr_nat(1) [of n "get_retry_limit g"] show ?thesis by auto
  qed
  show ?thesis
  proof (cases "fst (retry_incr n (get_retry_limit g))")
    case False
    with out again show ?thesis
      by (auto simp: get_failed_def gateway_catch_def case_prod_beta Let_def)
  next
    case True
    obtain g2 pre where inc: "incr_error_renew_count ?g1 = (g2, pre)" by fastforce
    note f = failed_again [where i = i and rt = ?rt and n = "n + 1" and g = g, OF inc]
    have rhs: "g_rhs g2 = g_rhs g" using f(1) by (simp add: moved_def)
    have rt: "g_retries g2 i = Some (?rt\<lparr>rt_limit := n + 1\<rparr>)"
      using incr_error_quiet(2) [of ?g1] inc by (simp add: same_work_def put_retry_def)
    let ?k = "unat (n + 1) mod 3"
    have call: "retry_call HS_READ i (dk_hash key) ?k g2 = (None, g2, [G_Call (m_addr (chosen ?k ns)) (To_server (S_Get key)) (Cb_retry i) 10])"
      using server_for_assigned [of HS_READ g2 "dk_hash key" ns ?k] assms(3,4) rt by (simp add: retry_call_def ring_of_def rhs)
    have snd: "snd (retry_incr n (get_retry_limit g)) = n + 1" by (simp add: retry_incr_def)
    have "get_failed i ?rt u key err g =
        (if ?k = 0 then (None, retry_after HS_READ 2 i (dk_hash key) 0 g2, pre)
         else (None, g2, pre @ [G_Call (m_addr (chosen ?k ns)) (To_server (S_Get key)) (Cb_retry i) 10]))"
      using True inc call by (simp add: get_failed_def case_prod_beta Let_def snd NUM_REPLICATION_def DO_AFTER_SECOND_def)
    with out have "(g', acts) = (if ?k = 0 then (retry_after HS_READ 2 i (dk_hash key) 0 g2, pre)
         else (g2, pre @ [G_Call (m_addr (chosen ?k ns)) (To_server (S_Get key)) (Cb_retry i) 10]))"
      by (simp add: gateway_catch_def split: if_splits)
    with f(2,3) True again show ?thesis
      by (auto simp: retry_after_def do_after_def Let_def split: if_splits)
  qed
qed

theorem read_asks_servers_in_turn_witness:
  "\<exists>ns pre. each_assign sample_ring 7 = Inr ns \<and>
     snd (res_retry sample_platform map_cache 0 V_nil TIMEOUT_ERROR
       (sample_gateway\<lparr>g_retries := [0 \<mapsto> \<lparr>rt_limit = 0, rt_param = S_Get \<lparr>dk_hash = 7, dk_key = [1]\<rparr>, rt_callback = B_Get 4\<rparr>]\<rparr>)) =
     pre @ [G_Call (m_addr (chosen 1 ns)) (To_server (S_Get \<lparr>dk_hash = 7, dk_key = [1]\<rparr>)) (Cb_retry 0) 10]"
proof -
  let ?key = "\<lparr>dk_hash = 7, dk_key = [1]\<rparr>"
  let ?g = "sample_gateway\<lparr>g_retries := [0 \<mapsto> \<lparr>rt_limit = 0, rt_param = S_Get ?key, rt_callback = B_Get 4\<rparr>]\<rparr> :: (bytes \<Rightarrow> bytes option) gateway"
  obtain ns where ns: "each_assign sample_ring 7 = Inr ns" using assigned_some [OF sample_ring_synced] by auto
  obtain g' acts where out: "res_retry sample_platform map_cache 0 V_nil TIMEOUT_ERROR ?g = (g', acts)" by fastforce
  have "g_retries ?g 0 = Some \<lparr>rt_limit = 0, rt_param = S_Get ?key, rt_callback = B_Get 4\<rparr>" "TIMEOUT_ERROR \<noteq> V_nil"
    "each_assign (g_rhs ?g) (dk_hash ?key) = Inr ns" "\<not> hs_empty (g_rhs ?g)" "unat (g_get_retry_num ?g) \<le> 21845"
    "g_get_retry_num ?g = 0 \<or> unat (0 :: u16) < 3 * unat (g_get_retry_num ?g)"
    using ns by (simp_all add: TIMEOUT_ERROR_def sample_gateway_def)
  from read_asks_servers_in_turn [OF this out] out ns show ?thesis by (auto simp: sample_gateway_def)
qed

end
