(* ===== verification/StreamBuffer.thy ===== *)
theory StreamBuffer
  imports Prelude
begin

text \<open>
  \<open>mp::stream_buffer\<close> (\<open>mp/stream_buffer.h\<close>, \<open>mp/stream_buffer_impl.h\<close>): the buffer a
  connection reads into. It hands out its bytes without copying them: a request keeps a
  \<open>reference\<close>, which holds the chunks of memory its pointers go to, and every chunk counts
  its holders in its first bytes.

  A chunk is a block from \<open>malloc\<close>; a byte that was never written is \<open>None\<close>. Freed chunks are
  not in the heap any more, and using one is undefined behaviour. Whether an allocation succeeds
  is an argument of the operations that allocate.
\<close>

section \<open>Memory\<close>

record chunk =
  ck_count :: u32
  ck_mem :: "u8 option list"

record sb_heap =
  hp_chunks :: "nat \<Rightarrow> chunk option"
  hp_next :: nat

definition SIZEOF_COUNT :: nat where "SIZEOF_COUNT = 4"

definition hp_malloc :: "bool \<Rightarrow> nat \<Rightarrow> sb_heap \<Rightarrow> (nat \<times> sb_heap) result" where
  "hp_malloc ok n h =
     (if ok then Inr (hp_next h, h\<lparr>hp_chunks := (hp_chunks h)(hp_next h \<mapsto> \<lparr>ck_count = 0, ck_mem = replicate n None\<rparr>),
                                   hp_next := Suc (hp_next h)\<rparr>)
      else Inl Bad_alloc)"

text \<open>\<open>realloc\<close>: the block may move, so that pointers to the old one are not valid any more.\<close>

definition hp_realloc :: "bool \<Rightarrow> nat \<Rightarrow> nat \<Rightarrow> sb_heap \<Rightarrow> (nat \<times> sb_heap) result" where
  "hp_realloc ok d n h =
     (case hp_chunks h d of
        None \<Rightarrow> Inl Undefined_behaviour
      | Some c \<Rightarrow>
          if ok then
            Inr (hp_next h,
                 h\<lparr>hp_chunks := (hp_chunks h)(d := None, hp_next h \<mapsto>
                     c\<lparr>ck_mem := take n (ck_mem c) @ replicate (n - length (ck_mem c)) None\<rparr>),
                   hp_next := Suc (hp_next h)\<rparr>)
          else Inl Bad_alloc)"

definition hp_write :: "nat \<Rightarrow> nat \<Rightarrow> u8 option list \<Rightarrow> sb_heap \<Rightarrow> sb_heap result" where
  "hp_write d off bs h =
     (case hp_chunks h d of
        None \<Rightarrow> Inl Undefined_behaviour
      | Some c \<Rightarrow>
          if length (ck_mem c) < off + length bs then Inl Undefined_behaviour
          else Inr (h\<lparr>hp_chunks := (hp_chunks h)(d \<mapsto>
                 c\<lparr>ck_mem := take off (ck_mem c) @ bs @ drop (off + length bs) (ck_mem c)\<rparr>)\<rparr>))"

definition hp_read :: "nat \<Rightarrow> nat \<Rightarrow> nat \<Rightarrow> sb_heap \<Rightarrow> u8 option list" where
  "hp_read d off n h = (case hp_chunks h d of None \<Rightarrow> [] | Some c \<Rightarrow> take n (drop off (ck_mem c)))"

section \<open>Counts\<close>

definition init_count :: "nat \<Rightarrow> sb_heap \<Rightarrow> sb_heap result" where
  "init_count d h =
     (case hp_chunks h d of
        None \<Rightarrow> Inl Undefined_behaviour
      | Some c \<Rightarrow> Inr (h\<lparr>hp_chunks := (hp_chunks h)(d \<mapsto> c\<lparr>ck_count := 1\<rparr>)\<rparr>))"

definition decr_count :: "nat \<Rightarrow> sb_heap \<Rightarrow> sb_heap result" where
  "decr_count d h =
     (case hp_chunks h d of
        None \<Rightarrow> Inl Undefined_behaviour
      | Some c \<Rightarrow>
          Inr (h\<lparr>hp_chunks := (hp_chunks h)(d :=
                 if ck_count c - 1 = 0 then None else Some (c\<lparr>ck_count := ck_count c - 1\<rparr>))\<rparr>))"

definition incr_count :: "nat \<Rightarrow> sb_heap \<Rightarrow> sb_heap result" where
  "incr_count d h =
     (case hp_chunks h d of
        None \<Rightarrow> Inl Undefined_behaviour
      | Some c \<Rightarrow> Inr (h\<lparr>hp_chunks := (hp_chunks h)(d \<mapsto> c\<lparr>ck_count := ck_count c + 1\<rparr>)\<rparr>))"

definition get_count :: "nat \<Rightarrow> sb_heap \<Rightarrow> u32 result" where
  "get_count d h = (case hp_chunks h d of None \<Rightarrow> Inl Undefined_behaviour | Some c \<Rightarrow> Inr (ck_count c))"

section \<open>References\<close>

type_synonym reference = "nat list"

primrec reference_clear :: "reference \<Rightarrow> sb_heap \<Rightarrow> sb_heap result" where
  "reference_clear [] h = Inr h"
| "reference_clear (d # ds) h = (case decr_count d h of Inl e \<Rightarrow> Inl e | Inr h' \<Rightarrow> reference_clear ds h')"

definition reference_push :: "nat \<Rightarrow> reference \<Rightarrow> sb_heap \<Rightarrow> (reference \<times> sb_heap) result" where
  "reference_push d r h = (case incr_count d h of Inl e \<Rightarrow> Inl e | Inr h' \<Rightarrow> Inr (r @ [d], h'))"

definition reference_move :: "nat \<Rightarrow> reference \<Rightarrow> reference" where
  "reference_move d r = r @ [d]"

section \<open>The buffer\<close>

record stream_buffer =
  sb_buffer :: nat
  sb_used :: nat
  sb_free :: nat
  sb_off :: nat
  sb_ref :: reference

definition stream_buffer_new :: "bool \<Rightarrow> nat \<Rightarrow> sb_heap \<Rightarrow> (stream_buffer \<times> sb_heap) result" where
  "stream_buffer_new ok initial_buffer_size h =
     (let initsz = max initial_buffer_size SIZEOF_COUNT
      in case hp_malloc ok initsz h of
           Inl e \<Rightarrow> Inl e
         | Inr (d, h1) \<Rightarrow>
             (case init_count d h1 of
                Inl e \<Rightarrow> Inl e
              | Inr h2 \<Rightarrow>
                  Inr (\<lparr>sb_buffer = d, sb_used = SIZEOF_COUNT, sb_free = initsz - SIZEOF_COUNT, sb_off = SIZEOF_COUNT, sb_ref = []\<rparr>, h2)))"

text \<open>The destructor gives up the chunk, then its member \<open>m_ref\<close> is destroyed.\<close>

definition stream_buffer_delete :: "stream_buffer \<Rightarrow> sb_heap \<Rightarrow> sb_heap result" where
  "stream_buffer_delete b h =
     (case decr_count (sb_buffer b) h of Inl e \<Rightarrow> Inl e | Inr h' \<Rightarrow> reference_clear (sb_ref b) h')"

definition buffer_capacity :: "stream_buffer \<Rightarrow> nat" where
  "buffer_capacity b = sb_free b"

definition buffer_consumed :: "nat \<Rightarrow> stream_buffer \<Rightarrow> stream_buffer" where
  "buffer_consumed len b = b\<lparr>sb_used := sb_used b + len, sb_free := sb_free b - len\<rparr>"

definition data_size :: "stream_buffer \<Rightarrow> nat" where
  "data_size b = sb_used b - sb_off b"

definition data_used :: "nat \<Rightarrow> stream_buffer \<Rightarrow> stream_buffer" where
  "data_used len b = b\<lparr>sb_off := sb_off b + len\<rparr>"

text \<open>What \<open>data()\<close> points to, as far as \<open>data_size()\<close> goes.\<close>

definition sb_data :: "stream_buffer \<Rightarrow> sb_heap \<Rightarrow> u8 option list" where
  "sb_data b h = hp_read (sb_buffer b) (sb_off b) (data_size b) h"

definition release_to :: "reference \<Rightarrow> stream_buffer \<Rightarrow> sb_heap \<Rightarrow> (reference \<times> stream_buffer \<times> sb_heap) result" where
  "release_to to b h =
     (case reference_clear to h of
        Inl e \<Rightarrow> Inl e
      | Inr h1 \<Rightarrow>
          (case reference_push (sb_buffer b) (sb_ref b) h1 of
             Inl e \<Rightarrow> Inl e
           | Inr (r, h2) \<Rightarrow> Inr (r, b\<lparr>sb_ref := []\<rparr>, h2)))"

text \<open>
  \<open>release()\<close> hands the references out in a new object. The copy constructor of a reference copies its own array,
  which is not constructed yet. Neither is called.
\<close>

definition release_new :: "stream_buffer \<Rightarrow> sb_heap \<Rightarrow> (reference \<times> stream_buffer \<times> sb_heap) result" where
  "release_new b h =
     (case reference_push (sb_buffer b) (sb_ref b) h of Inl e \<Rightarrow> Inl e | Inr (r, h1) \<Rightarrow> Inr (r, b\<lparr>sb_ref := []\<rparr>, h1))"

definition reference_copy :: "reference \<Rightarrow> sb_heap \<Rightarrow> (reference \<times> sb_heap) result" where
  "reference_copy r h = Inl Undefined_behaviour"

text \<open>
  The loop that doubles \<open>next_size\<close> while it is less than \<open>need\<close>. The sizes are those of blocks in memory, far
  from the end of \<open>size_t\<close>; a size of zero would never grow.
\<close>

partial_function (option) grow :: "nat \<Rightarrow> nat \<Rightarrow> nat option" where
  "grow next_size need = (if next_size < need then grow (next_size * 2) need else Some next_size)"

definition expand_buffer ::
    "bool \<Rightarrow> nat \<Rightarrow> nat \<Rightarrow> stream_buffer \<Rightarrow> sb_heap \<Rightarrow> (stream_buffer \<times> sb_heap) result option" where
  "expand_buffer ok len initial_buffer_size b h =
     (case get_count (sb_buffer b) h of
        Inl e \<Rightarrow> Some (Inl e)
      | Inr n \<Rightarrow>
          if sb_off b = SIZEOF_COUNT \<and> n = 1 then
            (case grow ((sb_used b + sb_free b) * 2) (len + sb_used b) of
               None \<Rightarrow> None
             | Some next_size \<Rightarrow>
                 Some (case hp_realloc ok (sb_buffer b) next_size h of
                         Inl e \<Rightarrow> Inl e
                       | Inr (tmp, h1) \<Rightarrow> Inr (b\<lparr>sb_buffer := tmp, sb_free := next_size - sb_used b\<rparr>, h1)))
          else
            let not_used = sb_used b - sb_off b
            in case grow (max initial_buffer_size SIZEOF_COUNT) (len + not_used + SIZEOF_COUNT) of
                 None \<Rightarrow> None
               | Some next_size \<Rightarrow>
                   Some (case hp_malloc ok next_size h of
                           Inl e \<Rightarrow> Inl e
                         | Inr (tmp, h1) \<Rightarrow>
                             (case init_count tmp h1 of
                                Inl e \<Rightarrow> Inl e
                              | Inr h2 \<Rightarrow>
                                  (case hp_write tmp SIZEOF_COUNT (hp_read (sb_buffer b) (sb_off b) not_used h2) h2 of
                                     Inl e \<Rightarrow> Inl e
                                   | Inr h3 \<Rightarrow>
                                       Inr (\<lparr>sb_buffer = tmp, sb_used = not_used + SIZEOF_COUNT,
                                             sb_free = next_size - (not_used + SIZEOF_COUNT), sb_off = SIZEOF_COUNT,
                                             sb_ref = reference_move (sb_buffer b) (sb_ref b)\<rparr>, h3)))))"

definition reserve_buffer ::
    "bool \<Rightarrow> nat \<Rightarrow> nat \<Rightarrow> stream_buffer \<Rightarrow> sb_heap \<Rightarrow> (stream_buffer \<times> sb_heap) result option" where
  "reserve_buffer ok len initial_buffer_size b h =
     (case get_count (sb_buffer b) h of
        Inl e \<Rightarrow> Some (Inl e)
      | Inr n \<Rightarrow>
          let b1 = (if sb_used b = sb_off b \<and> n = 1
                    then b\<lparr>sb_free := sb_free b + (sb_used b - SIZEOF_COUNT), sb_used := SIZEOF_COUNT, sb_off := SIZEOF_COUNT\<rparr>
                    else b)
          in if sb_free b1 < len then expand_buffer ok len initial_buffer_size b1 h else Some (Inr (b1, h)))"

section \<open>A buffer and its users\<close>

text \<open>
  The buffer of a connection with the references its requests hold. \<open>hl_seen\<close> records what the
  chunk of the request held when the reference was taken, up to the end of the bytes read then:
  it is what the pointers of the request are meant to reach.
\<close>

record held =
  hl_ref :: reference
  hl_chunk :: nat
  hl_seen :: "u8 option list"

record sb_system =
  sy_heap :: sb_heap
  sy_buf :: stream_buffer
  sy_held :: "held list"

datatype sb_event = Sb_reserve bool nat nat | Sb_read bytes | Sb_used nat | Sb_release | Sb_drop nat

text \<open>\<open>read\<close> is called with the free space; \<open>data_used\<close> with a length of bytes that are there.\<close>

fun sb_legal :: "sb_event \<Rightarrow> sb_system \<Rightarrow> bool" where
  "sb_legal (Sb_read bs) s \<longleftrightarrow> length bs \<le> buffer_capacity (sy_buf s)"
| "sb_legal (Sb_used n) s \<longleftrightarrow> n \<le> data_size (sy_buf s)"
| "sb_legal (Sb_drop i) s \<longleftrightarrow> i < length (sy_held s)"
| "sb_legal _ s \<longleftrightarrow> True"

fun sb_apply :: "sb_event \<Rightarrow> sb_system \<Rightarrow> sb_system result option" where
  "sb_apply (Sb_reserve ok len init) s =
     (case reserve_buffer ok len init (sy_buf s) (sy_heap s) of
        None \<Rightarrow> None
      | Some (Inl e) \<Rightarrow> Some (Inl e)
      | Some (Inr (b, h)) \<Rightarrow> Some (Inr (s\<lparr>sy_heap := h, sy_buf := b\<rparr>)))"
| "sb_apply (Sb_read bs) s =
     Some (case hp_write (sb_buffer (sy_buf s)) (sb_used (sy_buf s)) (map Some bs) (sy_heap s) of
             Inl e \<Rightarrow> Inl e
           | Inr h \<Rightarrow> Inr (s\<lparr>sy_heap := h, sy_buf := buffer_consumed (length bs) (sy_buf s)\<rparr>))"
| "sb_apply (Sb_used n) s = Some (Inr (s\<lparr>sy_buf := data_used n (sy_buf s)\<rparr>))"
| "sb_apply Sb_release s =
     Some (case release_to [] (sy_buf s) (sy_heap s) of
             Inl e \<Rightarrow> Inl e
           | Inr (r, b, h) \<Rightarrow>
               Inr (s\<lparr>sy_heap := h, sy_buf := b,
                      sy_held := sy_held s @ [\<lparr>hl_ref = r, hl_chunk = sb_buffer b, hl_seen = hp_read (sb_buffer b) 0 (sb_used b) h\<rparr>]\<rparr>))"
| "sb_apply (Sb_drop i) s =
     Some (case reference_clear (hl_ref (sy_held s ! i)) (sy_heap s) of
             Inl e \<Rightarrow> Inl e
           | Inr h \<Rightarrow> Inr (s\<lparr>sy_heap := h, sy_held := take i (sy_held s) @ drop (Suc i) (sy_held s)\<rparr>))"

inductive sb_steps :: "sb_system \<Rightarrow> sb_event list \<Rightarrow> sb_system \<Rightarrow> bool" where
  sb_steps_none: "sb_steps s [] s"
| sb_steps_more: "sb_steps s evs s' \<Longrightarrow> sb_legal ev s' \<Longrightarrow> sb_apply ev s' = Some (Inr s'') \<Longrightarrow> sb_steps s (evs @ [ev]) s''"

section \<open>What a buffer promises\<close>

text \<open>A queue of bytes: reading appends, using drops from the front, nothing else changes it.\<close>

fun queue_apply :: "sb_event \<Rightarrow> bytes \<Rightarrow> bytes" where
  "queue_apply (Sb_read bs) q = q @ bs"
| "queue_apply (Sb_used n) q = drop n q"
| "queue_apply _ q = q"

definition byte_queue_run :: "sb_event list \<Rightarrow> bytes" where
  "byte_queue_run evs = fold queue_apply evs []"

section \<open>Holders and memory\<close>

definition mem_of :: "sb_heap \<Rightarrow> nat \<Rightarrow> u8 option list option" where
  "mem_of h d = map_option ck_mem (hp_chunks h d)"

text \<open>\<open>M\<close> holds the heap: every chunk counts its occurrences in \<open>M\<close>, and there is no other chunk.\<close>

definition counts_ok :: "sb_heap \<Rightarrow> nat multiset \<Rightarrow> bool" where
  "counts_ok h M \<longleftrightarrow>
     (\<forall>d. case hp_chunks h d of None \<Rightarrow> d \<notin># M | Some c \<Rightarrow> d \<in># M \<and> unat (ck_count c) = count M d \<and> d < hp_next h)"

lemma counts_ok_at:
  "counts_ok h M \<Longrightarrow> hp_chunks h d = None \<Longrightarrow> d \<notin># M"
  "counts_ok h M \<Longrightarrow> hp_chunks h d = Some c \<Longrightarrow> d \<in># M \<and> unat (ck_count c) = count M d \<and> d < hp_next h"
  unfolding counts_ok_def by (drule spec [of _ d], simp)+

lemma counts_ok_chunk: "counts_ok h M \<Longrightarrow> d \<in># M \<Longrightarrow> \<exists>c. hp_chunks h d = Some c \<and> unat (ck_count c) = count M d \<and> d < hp_next h"
  unfolding counts_ok_def by (drule spec [of _ d]) (auto split: option.splits)

lemma counts_ok_fresh: "counts_ok h M \<Longrightarrow> hp_next h \<notin># M"
  using counts_ok_chunk by blast

lemma counts_ok_one:
  assumes "counts_ok h (add_mset d M)" "hp_chunks h d = Some c" "ck_count c = 1"
  shows "d \<notin># M"
proof -
  from assms(1) [unfolded counts_ok_def, rule_format, of d] assms(2,3)
  have "count (add_mset d M) d = 1" by simp
  then show ?thesis by (simp add: not_in_iff)
qed

lemma decr_count_ok:
  assumes ok: "counts_ok h (add_mset d M)"
  shows "\<exists>h'. decr_count d h = Inr h' \<and> counts_ok h' M \<and> (\<forall>e \<in># M. mem_of h' e = mem_of h e)"
proof -
  obtain c where c: "hp_chunks h d = Some c" "unat (ck_count c) = Suc (count M d)" "d < hp_next h"
    using counts_ok_chunk [OF ok, of d] by auto
  have nz: "ck_count c \<noteq> 0" using c(2) by auto
  have pred: "unat (ck_count c - 1) = count M d" using c(2) by (simp add: unat_minus_one [OF nz])
  then have z: "ck_count c - 1 = 0 \<longleftrightarrow> d \<notin># M" by (simp add: unat_eq_zero [symmetric] not_in_iff)
  define h' where "h' = h\<lparr>hp_chunks := (hp_chunks h)(d := if ck_count c - 1 = 0 then None else Some (c\<lparr>ck_count := ck_count c - 1\<rparr>))\<rparr>"
  have "counts_ok h' M"
    unfolding counts_ok_def
  proof
    fix e
    show "case hp_chunks h' e of None \<Rightarrow> e \<notin># M | Some c \<Rightarrow> e \<in># M \<and> unat (ck_count c) = count M e \<and> e < hp_next h'"
      using ok [unfolded counts_ok_def, rule_format, of e] c(3) pred z
      by (cases "e = d") (auto simp: h'_def split: option.splits)
  qed
  moreover have "mem_of h' e = mem_of h e" if "e \<in># M" for e
    using that z c(1) by (auto simp: h'_def mem_of_def)
  moreover have "decr_count d h = Inr h'" by (simp add: decr_count_def c(1) h'_def)
  ultimately show ?thesis by blast
qed

lemma incr_count_ok:
  assumes ok: "counts_ok h M" and d: "d \<in># M" and small: "Suc (count M d) < 2 ^ 32"
  shows "\<exists>h'. incr_count d h = Inr h' \<and> counts_ok h' (add_mset d M) \<and> (\<forall>e. mem_of h' e = mem_of h e)"
proof -
  obtain c where c: "hp_chunks h d = Some c" "unat (ck_count c) = count M d" "d < hp_next h"
    using counts_ok_chunk [OF ok d] by auto
  have "unat (ck_count c + 1) = Suc (count M d)"
    using c(2) small by (simp add: unat_plus_if_size word_size)
  then have "counts_ok (h\<lparr>hp_chunks := (hp_chunks h)(d \<mapsto> c\<lparr>ck_count := ck_count c + 1\<rparr>)\<rparr>) (add_mset d M)"
    unfolding counts_ok_def
    by (intro allI, use counts_ok_at [OF ok] c(3) in \<open>auto split: option.splits\<close>)
  then show ?thesis by (auto simp: incr_count_def c(1) mem_of_def)
qed

lemma reference_clear_ok:
  "counts_ok h (mset r + M) \<Longrightarrow>
   \<exists>h'. reference_clear r h = Inr h' \<and> counts_ok h' M \<and> (\<forall>e \<in># M. mem_of h' e = mem_of h e)"
proof (induction r arbitrary: h)
  case (Cons d r)
  have "counts_ok h (add_mset d (mset r + M))" using Cons.prems by simp
  from decr_count_ok [OF this] obtain h1 where
    h1: "decr_count d h = Inr h1" "counts_ok h1 (mset r + M)" "\<forall>e \<in># mset r + M. mem_of h1 e = mem_of h e"
    by blast
  from Cons.IH [OF h1(2)] h1(1,3) show ?case by auto
qed simp

text \<open>A new chunk with one holder.\<close>

lemma counts_ok_new:
  assumes "counts_ok h M"
  shows "counts_ok (h\<lparr>hp_chunks := (hp_chunks h)(hp_next h \<mapsto> \<lparr>ck_count = 1, ck_mem = m\<rparr>), hp_next := Suc (hp_next h)\<rparr>)
           (add_mset (hp_next h) M)"
  using counts_ok_fresh [OF assms] unfolding counts_ok_def
  by (intro allI, use counts_ok_at [OF assms] in \<open>auto simp: not_in_iff less_Suc_eq split: option.splits\<close>)

section \<open>The invariant\<close>

definition holders :: "sb_system \<Rightarrow> nat multiset" where
  "holders s = add_mset (sb_buffer (sy_buf s)) (mset (sb_ref (sy_buf s)) + mset (concat (map hl_ref (sy_held s))))"

text \<open>A reference that keeps what was seen when it was taken.\<close>

definition held_ok :: "sb_heap \<Rightarrow> stream_buffer \<Rightarrow> held \<Rightarrow> bool" where
  "held_ok h b x \<longleftrightarrow>
     hl_chunk x \<in> set (hl_ref x) \<and> hp_read (hl_chunk x) 0 (length (hl_seen x)) h = hl_seen x \<and>
     (hl_chunk x = sb_buffer b \<longrightarrow> length (hl_seen x) \<le> sb_used b)"

definition buf_ok :: "sb_heap \<Rightarrow> stream_buffer \<Rightarrow> bool" where
  "buf_ok h b \<longleftrightarrow>
     SIZEOF_COUNT \<le> sb_off b \<and> sb_off b \<le> sb_used b \<and>
     (\<exists>m. mem_of h (sb_buffer b) = Some m \<and> length m = sb_used b + sb_free b)"

definition sb_inv :: "nat \<Rightarrow> bytes \<Rightarrow> sb_system \<Rightarrow> bool" where
  "sb_inv k q s \<longleftrightarrow>
     counts_ok (sy_heap s) (holders s) \<and> size (holders s) \<le> Suc k \<and>
     buf_ok (sy_heap s) (sy_buf s) \<and> sb_data (sy_buf s) (sy_heap s) = map Some q \<and>
     (\<forall>x \<in> set (sy_held s). held_ok (sy_heap s) (sy_buf s) x)"

lemma hp_read_mem: "mem_of h d = mem_of h' d \<Longrightarrow> hp_read d i n h = hp_read d i n h'"
  by (auto simp: mem_of_def hp_read_def split: option.splits)

lemma hp_read_Some: "mem_of h d = Some m \<Longrightarrow> hp_read d i n h = take n (drop i m)"
  by (auto simp: mem_of_def hp_read_def split: option.splits)

lemma sb_dataE:
  assumes "buf_ok h b" "sb_data b h = map Some q"
  obtains m where "mem_of h (sb_buffer b) = Some m" "length m = sb_used b + sb_free b"
    "take (sb_used b - sb_off b) (drop (sb_off b) m) = map Some q" "length q = sb_used b - sb_off b"
proof -
  obtain m where m: "mem_of h (sb_buffer b) = Some m" "length m = sb_used b + sb_free b" "sb_off b \<le> sb_used b"
    using assms(1) by (auto simp: buf_ok_def)
  have d: "take (sb_used b - sb_off b) (drop (sb_off b) m) = map Some q"
    using assms(2) by (simp add: sb_data_def hp_read_Some [OF m(1)] data_size_def)
  then have "length q = sb_used b - sb_off b" using m(2,3) by (metis length_map length_take length_drop add_diff_assoc2 min.absorb4 min.absorb2 le_add1)
  with m d show thesis using that by blast
qed

lemma held_in_holders: "x \<in> set (sy_held s) \<Longrightarrow> d \<in> set (hl_ref x) \<Longrightarrow> d \<in># mset (sb_ref (sy_buf s)) + mset (concat (map hl_ref (sy_held s)))"
  by auto

text \<open>A reference stays good when its chunk keeps its memory and the buffer does not go back in it.\<close>

lemma held_ok_frame:
  assumes "held_ok h b x" "mem_of h' (hl_chunk x) = mem_of h (hl_chunk x)"
    "hl_chunk x = sb_buffer b' \<Longrightarrow> sb_buffer b' = sb_buffer b \<and> sb_used b \<le> sb_used b'"
  shows "held_ok h' b' x"
  using assms hp_read_mem [OF assms(2)] unfolding held_ok_def by auto

lemma sb_inv_used:
  assumes inv: "sb_inv k q s" and n: "n \<le> data_size (sy_buf s)"
  shows "sb_inv k (drop n q) (s\<lparr>sy_buf := data_used n (sy_buf s)\<rparr>)"
proof -
  let ?b = "sy_buf s" and ?h = "sy_heap s"
  have b: "buf_ok ?h ?b" "sb_data ?b ?h = map Some q" using inv by (simp_all add: sb_inv_def)
  obtain m where m: "mem_of ?h (sb_buffer ?b) = Some m" "length m = sb_used ?b + sb_free ?b"
    "take (sb_used ?b - sb_off ?b) (drop (sb_off ?b) m) = map Some q"
    using sb_dataE [OF b] by metis
  have "sb_data (data_used n ?b) ?h = drop n (map Some q)"
    unfolding m(3) [symmetric] by (simp add: sb_data_def hp_read_Some [OF m(1)] data_size_def data_used_def drop_take add.commute)
  then have "sb_data (data_used n ?b) ?h = map Some (drop n q)" by (simp add: drop_map)
  moreover have "buf_ok ?h (data_used n ?b)" using b(1) n by (auto simp: buf_ok_def data_used_def data_size_def)
  moreover have "held_ok ?h (data_used n ?b) x" if "x \<in> set (sy_held s)" for x
    using inv that by (auto simp: sb_inv_def held_ok_def data_used_def)
  moreover have "holders (s\<lparr>sy_buf := data_used n ?b\<rparr>) = holders s" by (simp add: holders_def data_used_def)
  ultimately show ?thesis using inv by (simp add: sb_inv_def)
qed

lemma hp_write_ok:
  assumes "mem_of h d = Some m" "off + length bs \<le> length m"
  shows "\<exists>h'. hp_write d off bs h = Inr h' \<and> (\<forall>M. counts_ok h M \<longrightarrow> counts_ok h' M) \<and>
     mem_of h' d = Some (take off m @ bs @ drop (off + length bs) m) \<and> (\<forall>e. e \<noteq> d \<longrightarrow> mem_of h' e = mem_of h e)"
proof -
  obtain c where c: "hp_chunks h d = Some c" "ck_mem c = m" using assms(1) by (auto simp: mem_of_def)
  let ?h = "h\<lparr>hp_chunks := (hp_chunks h)(d \<mapsto> c\<lparr>ck_mem := take off m @ bs @ drop (off + length bs) m\<rparr>)\<rparr>"
  have "counts_ok ?h M" if ok: "counts_ok h M" for M
    unfolding counts_ok_def by (rule allI, use counts_ok_at [OF ok] c in \<open>auto split: option.splits\<close>)
  then show ?thesis using assms(2) c by (auto simp: hp_write_def mem_of_def)
qed

lemma take_drop_written:
  "i \<le> j \<Longrightarrow> j \<le> length m \<Longrightarrow> take (j + length xs - i) (drop i (take j m @ xs @ ys)) = take (j - i) (drop i m) @ xs"
  by (simp add: drop_take)

lemma sb_inv_read:
  assumes inv: "sb_inv k q s" and n: "length bs \<le> buffer_capacity (sy_buf s)"
  shows "\<exists>s'. sb_apply (Sb_read bs) s = Some (Inr s') \<and> sb_inv k (q @ bs) s'"
proof -
  let ?b = "sy_buf s" and ?h = "sy_heap s"
  have b: "buf_ok ?h ?b" "sb_data ?b ?h = map Some q" using inv by (simp_all add: sb_inv_def)
  obtain m where m: "mem_of ?h (sb_buffer ?b) = Some m" "length m = sb_used ?b + sb_free ?b"
    "take (sb_used ?b - sb_off ?b) (drop (sb_off ?b) m) = map Some q"
    using sb_dataE [OF b] by metis
  have le: "sb_off ?b \<le> sb_used ?b" "SIZEOF_COUNT \<le> sb_off ?b" using b(1) by (simp_all add: buf_ok_def)
  have fits: "sb_used ?b + length (map Some bs) \<le> length m" using n m(2) by (simp add: buffer_capacity_def)
  from hp_write_ok [OF m(1) fits] obtain h' where
    h': "hp_write (sb_buffer ?b) (sb_used ?b) (map Some bs) ?h = Inr h'"
      "\<And>M. counts_ok ?h M \<Longrightarrow> counts_ok h' M"
      "mem_of h' (sb_buffer ?b) = Some (take (sb_used ?b) m @ map Some bs @ drop (sb_used ?b + length (map Some bs)) m)"
      "\<And>e. e \<noteq> sb_buffer ?b \<Longrightarrow> mem_of h' e = mem_of ?h e" by blast
  let ?b' = "buffer_consumed (length bs) ?b"
  have fields: "sb_buffer ?b' = sb_buffer ?b" "sb_used ?b' = sb_used ?b + length bs" "sb_off ?b' = sb_off ?b"
    "sb_free ?b' = sb_free ?b - length bs" "sb_ref ?b' = sb_ref ?b"
    by (simp_all add: buffer_consumed_def)
  have "sb_data ?b' h' = map Some (q @ bs)"
  proof -
    have "sb_data ?b' h' = take (sb_used ?b + length (map Some bs) - sb_off ?b)
        (drop (sb_off ?b) (take (sb_used ?b) m @ map Some bs @ drop (sb_used ?b + length (map Some bs)) m))"
      unfolding sb_data_def data_size_def fields hp_read_Some [OF h'(3)] length_map ..
    also have "\<dots> = take (sb_used ?b - sb_off ?b) (drop (sb_off ?b) m) @ map Some bs"
      by (rule take_drop_written) (use le m(2) in simp_all)
    finally show ?thesis by (simp add: m(3))
  qed
  moreover have "buf_ok h' ?b'"
    using le m(2) n h'(3) by (auto simp: buf_ok_def fields buffer_capacity_def)
  moreover have "held_ok h' ?b' x" if x: "x \<in> set (sy_held s)" for x
  proof -
    have hx: "held_ok ?h ?b x" using inv x by (simp add: sb_inv_def)
    show ?thesis
    proof (cases "hl_chunk x = sb_buffer ?b")
      case True
      have "length (hl_seen x) \<le> sb_used ?b" using hx True by (simp add: held_ok_def)
      then have "hp_read (hl_chunk x) 0 (length (hl_seen x)) h' = hp_read (hl_chunk x) 0 (length (hl_seen x)) ?h"
        using m(2) by (simp add: True hp_read_Some [OF h'(3)] hp_read_Some [OF m(1)] min_def)
      with hx True show ?thesis by (simp add: held_ok_def fields)
    next
      case False
      show ?thesis by (rule held_ok_frame [OF hx h'(4) [OF False]]) (use False in \<open>simp_all add: fields\<close>)
    qed
  qed
  moreover have "holders (s\<lparr>sy_heap := h', sy_buf := ?b'\<rparr>) = holders s" by (simp add: holders_def fields)
  ultimately show ?thesis using inv h'(1,2) by (simp add: sb_inv_def)
qed

lemma sb_inv_release:
  assumes inv: "sb_inv k q s" and k: "Suc (Suc k) < 2 ^ 32"
  shows "\<exists>s'. sb_apply Sb_release s = Some (Inr s') \<and> sb_inv (Suc k) q s'"
proof -
  let ?b = "sy_buf s" and ?h = "sy_heap s"
  have ok: "counts_ok ?h (holders s)" and small: "size (holders s) \<le> Suc k" using inv by (simp_all add: sb_inv_def)
  have "Suc (count (holders s) (sb_buffer ?b)) < 2 ^ 32"
    using count_le_size [of "holders s" "sb_buffer ?b"] small k by linarith
  from incr_count_ok [OF ok _ this] obtain h' where
    h': "incr_count (sb_buffer ?b) ?h = Inr h'" "counts_ok h' (add_mset (sb_buffer ?b) (holders s))" "\<And>e. mem_of h' e = mem_of ?h e"
    by (auto simp: holders_def)
  let ?x = "\<lparr>hl_ref = sb_ref ?b @ [sb_buffer ?b], hl_chunk = sb_buffer ?b, hl_seen = hp_read (sb_buffer ?b) 0 (sb_used ?b) h'\<rparr>"
  let ?b' = "?b\<lparr>sb_ref := []\<rparr>"
  let ?s = "s\<lparr>sy_heap := h', sy_buf := ?b', sy_held := sy_held s @ [?x]\<rparr>"
  have hold: "holders ?s = add_mset (sb_buffer ?b) (holders s)" by (simp add: holders_def)
  obtain m where m: "mem_of h' (sb_buffer ?b) = Some m" "length m = sb_used ?b + sb_free ?b"
    using inv h'(3) by (auto simp: sb_inv_def buf_ok_def)
  have "held_ok h' ?b' ?x" using m by (simp add: held_ok_def hp_read_Some [OF m(1)])
  moreover have "held_ok h' ?b' x" if "x \<in> set (sy_held s)" for x
    by (rule held_ok_frame [of ?h ?b]) (use inv that h'(3) in \<open>simp_all add: sb_inv_def\<close>)
  moreover have "buf_ok h' ?b'" using inv h'(3) by (simp add: sb_inv_def buf_ok_def)
  moreover have "sb_data ?b' h' = sb_data ?b ?h"
    using hp_read_mem [OF h'(3)] by (simp add: sb_data_def data_size_def)
  ultimately have "sb_inv (Suc k) q ?s"
    using inv h'(2) small by (simp add: sb_inv_def hold)
  moreover have "sb_apply Sb_release s = Some (Inr ?s)"
    by (simp add: release_to_def reference_push_def h'(1))
  ultimately show ?thesis by blast
qed

lemma sb_inv_drop:
  assumes inv: "sb_inv k q s" and i: "i < length (sy_held s)"
  shows "\<exists>s'. sb_apply (Sb_drop i) s = Some (Inr s') \<and> sb_inv k q s'"
proof -
  let ?b = "sy_buf s" and ?h = "sy_heap s" and ?x = "sy_held s ! i"
  let ?rest = "take i (sy_held s) @ drop (Suc i) (sy_held s)"
  let ?M = "holders (s\<lparr>sy_held := ?rest\<rparr>)"
  have "mset (concat (map hl_ref (take i (sy_held s) @ ?x # drop (Suc i) (sy_held s)))) = mset (hl_ref ?x) + mset (concat (map hl_ref ?rest))"
    by simp
  then have M: "holders s = mset (hl_ref ?x) + ?M"
    unfolding id_take_nth_drop [OF i, symmetric] by (simp add: holders_def)
  have "counts_ok ?h (mset (hl_ref ?x) + ?M)" using inv by (simp add: sb_inv_def M)
  from reference_clear_ok [OF this] obtain h' where
    h': "reference_clear (hl_ref ?x) ?h = Inr h'" "counts_ok h' ?M" "\<And>e. e \<in># ?M \<Longrightarrow> mem_of h' e = mem_of ?h e"
    by blast
  let ?s = "s\<lparr>sy_heap := h', sy_held := ?rest\<rparr>"
  have own: "mem_of h' (sb_buffer ?b) = mem_of ?h (sb_buffer ?b)" by (rule h'(3)) (simp add: holders_def)
  have sub: "set ?rest \<subseteq> set (sy_held s)" by (auto dest: in_set_takeD in_set_dropD)
  have "held_ok h' ?b x" if x: "x \<in> set ?rest" for x
  proof (rule held_ok_frame [of ?h ?b])
    show "held_ok ?h ?b x" using inv sub x by (auto simp: sb_inv_def)
    then have "hl_chunk x \<in># ?M" using x by (auto simp: held_ok_def holders_def)
    then show "mem_of h' (hl_chunk x) = mem_of ?h (hl_chunk x)" by (rule h'(3))
  qed simp
  moreover have "sb_data ?b h' = sb_data ?b ?h" using hp_read_mem [OF own] by (simp add: sb_data_def)
  moreover have "buf_ok h' ?b" using inv own by (simp add: sb_inv_def buf_ok_def)
  moreover have "holders ?s = ?M" by (simp add: holders_def)
  moreover have "size ?M \<le> size (holders s)" by (simp add: M)
  ultimately have "sb_inv k q ?s" using inv h'(2) by (simp add: sb_inv_def)
  with h'(1) show ?thesis by simp
qed

text \<open>The doubling ends, with enough room.\<close>

lemma grow_ends: "0 < n \<Longrightarrow> \<exists>m. grow n need = Some m \<and> need \<le> m \<and> n \<le> m"
proof (induction "need - n" arbitrary: n rule: less_induct)
  case less
  show ?case
  proof (cases "n < need")
    case True
    with less.prems have "need - n * 2 < need - n" by linarith
    from less.hyps [OF this] less.prems True show ?thesis by (subst grow.simps) auto
  next
    case False
    then show ?thesis by (subst grow.simps) simp
  qed
qed

text \<open>The buffer moves to memory of its own: what the others hold stays.\<close>

lemma sb_inv_move:
  assumes inv: "sb_inv k q s"
    and counts: "counts_ok h' (holders (s\<lparr>sy_buf := b'\<rparr>))" and size: "size (holders (s\<lparr>sy_buf := b'\<rparr>)) \<le> Suc k'"
    and buf: "buf_ok h' b'" and data: "sb_data b' h' = sb_data (sy_buf s) (sy_heap s)"
    and keep: "\<And>x d. x \<in> set (sy_held s) \<Longrightarrow> d \<in> set (hl_ref x) \<Longrightarrow> d \<noteq> sb_buffer b' \<and> mem_of h' d = mem_of (sy_heap s) d"
  shows "sb_inv k' q (s\<lparr>sy_heap := h', sy_buf := b'\<rparr>)"
proof -
  have "held_ok h' b' x" if x: "x \<in> set (sy_held s)" for x
  proof -
    have hx: "held_ok (sy_heap s) (sy_buf s) x" using inv x by (simp add: sb_inv_def)
    then have "hl_chunk x \<in> set (hl_ref x)" by (simp add: held_ok_def)
    with keep [OF x] show ?thesis by (intro held_ok_frame [OF hx]) auto
  qed
  moreover have "holders (s\<lparr>sy_heap := h', sy_buf := b'\<rparr>) = holders (s\<lparr>sy_buf := b'\<rparr>)" by (simp add: holders_def)
  ultimately show ?thesis using inv counts size buf data by (simp add: sb_inv_def)
qed

lemma alone:
  assumes inv: "sb_inv k q s" and one: "get_count (sb_buffer (sy_buf s)) (sy_heap s) = Inr 1"
  obtains c where "hp_chunks (sy_heap s) (sb_buffer (sy_buf s)) = Some c" "ck_count c = 1"
    "sb_buffer (sy_buf s) \<notin># mset (sb_ref (sy_buf s)) + mset (concat (map hl_ref (sy_held s)))"
proof -
  obtain c where c: "hp_chunks (sy_heap s) (sb_buffer (sy_buf s)) = Some c" "ck_count c = 1"
    using one by (auto simp: get_count_def split: option.splits)
  have "counts_ok (sy_heap s) (holders s)" using inv by (simp add: sb_inv_def)
  from counts_ok_one [OF this [unfolded holders_def] c] show thesis by (rule that [OF c])
qed

lemma sb_inv_rewind:
  assumes inv: "sb_inv k q s" and one: "get_count (sb_buffer (sy_buf s)) (sy_heap s) = Inr 1"
    and empty: "sb_used (sy_buf s) = sb_off (sy_buf s)"
  shows "sb_inv k q (s\<lparr>sy_buf := (sy_buf s)\<lparr>sb_free := sb_free (sy_buf s) + (sb_used (sy_buf s) - SIZEOF_COUNT),
           sb_used := SIZEOF_COUNT, sb_off := SIZEOF_COUNT\<rparr>\<rparr>)"
    (is "sb_inv k q (s\<lparr>sy_buf := ?b\<rparr>)")
proof -
  have "sb_buffer (sy_buf s) \<notin># mset (sb_ref (sy_buf s)) + mset (concat (map hl_ref (sy_held s)))"
    using alone [OF inv one] .
  then have other: "d \<noteq> sb_buffer ?b" if "x \<in> set (sy_held s)" "d \<in> set (hl_ref x)" for x d
    using held_in_holders [OF that] by (metis stream_buffer.select_convs(1) stream_buffer.update_convs(2,3,4) stream_buffer.surjective)
  have "buf_ok (sy_heap s) ?b" using inv by (auto simp: sb_inv_def buf_ok_def)
  moreover have "sb_data ?b (sy_heap s) = sb_data (sy_buf s) (sy_heap s)"
    by (simp add: sb_data_def data_size_def empty hp_read_def split: option.splits)
  moreover have "holders (s\<lparr>sy_buf := ?b\<rparr>) = holders s" by (simp add: holders_def)
  ultimately show ?thesis
    using sb_inv_move [OF inv, of "sy_heap s" ?b k] inv other by (simp add: sb_inv_def)
qed

lemma counts_ok_realloc:
  assumes ok: "counts_ok h (add_mset d M)" and c: "hp_chunks h d = Some c" "ck_count c = 1" and d: "d \<notin># M"
  shows "counts_ok (h\<lparr>hp_chunks := (hp_chunks h)(d := None, hp_next h \<mapsto> c\<lparr>ck_mem := m\<rparr>), hp_next := Suc (hp_next h)\<rparr>)
           (add_mset (hp_next h) M)"
proof -
  have "hp_next h \<notin># M" "d < hp_next h" using counts_ok_fresh [OF ok] counts_ok_at(2) [OF ok c(1)] by auto
  then show ?thesis
    unfolding counts_ok_def
    by (intro allI, use counts_ok_at [OF ok] c(2) d in \<open>auto simp: not_in_iff less_Suc_eq split: option.splits\<close>)
qed

lemma sb_inv_realloc:
  assumes inv: "sb_inv k q s" and one: "get_count (sb_buffer (sy_buf s)) (sy_heap s) = Inr 1"
    and n: "sb_used (sy_buf s) + sb_free (sy_buf s) \<le> n"
    and re: "hp_realloc ok (sb_buffer (sy_buf s)) n (sy_heap s) = Inr (tmp, h')"
  shows "sb_inv k q (s\<lparr>sy_heap := h', sy_buf := (sy_buf s)\<lparr>sb_buffer := tmp, sb_free := n - sb_used (sy_buf s)\<rparr>\<rparr>)"
    (is "sb_inv k q (s\<lparr>sy_heap := h', sy_buf := ?b\<rparr>)")
proof (rule sb_inv_move [OF inv])
  let ?h = "sy_heap s" and ?d = "sb_buffer (sy_buf s)"
  let ?M = "mset (sb_ref (sy_buf s)) + mset (concat (map hl_ref (sy_held s)))"
  obtain c where c: "hp_chunks ?h ?d = Some c" "ck_count c = 1" "?d \<notin># ?M" using alone [OF inv one] .
  have b: "buf_ok ?h (sy_buf s)" "sb_data (sy_buf s) ?h = map Some q" using inv by (simp_all add: sb_inv_def)
  have m: "length (ck_mem c) = sb_used (sy_buf s) + sb_free (sy_buf s)" using b(1) c(1) by (auto simp: buf_ok_def mem_of_def)
  have h': "h' = ?h\<lparr>hp_chunks := (hp_chunks ?h)(?d := None, hp_next ?h \<mapsto>
              c\<lparr>ck_mem := take n (ck_mem c) @ replicate (n - length (ck_mem c)) None\<rparr>), hp_next := Suc (hp_next ?h)\<rparr>"
    and tmp: "tmp = hp_next ?h"
    using re c(1) by (auto simp: hp_realloc_def split: if_splits)
  have counts: "counts_ok ?h (add_mset ?d ?M)" using inv by (simp add: sb_inv_def holders_def)
  have H: "holders (s\<lparr>sy_buf := ?b\<rparr>) = add_mset tmp ?M" by (simp add: holders_def)
  show "counts_ok h' (holders (s\<lparr>sy_buf := ?b\<rparr>))"
    unfolding H unfolding h' tmp by (rule counts_ok_realloc [OF counts c(1,2,3)])
  show "size (holders (s\<lparr>sy_buf := ?b\<rparr>)) \<le> Suc k" using inv by (simp add: sb_inv_def holders_def)
  have mem: "mem_of h' tmp = Some (ck_mem c @ replicate (n - length (ck_mem c)) None)"
    using n m by (simp add: h' tmp mem_of_def)
  show "buf_ok h' ?b" using b(1) n m mem by (auto simp: buf_ok_def)
  have "mem_of ?h ?d = Some (ck_mem c)" using c(1) by (simp add: mem_of_def)
  then show "sb_data ?b h' = sb_data (sy_buf s) ?h"
    using b(1) m by (simp add: sb_data_def data_size_def hp_read_Some [OF mem] hp_read_Some buf_ok_def)
  fix x d assume "x \<in> set (sy_held s)" "d \<in> set (hl_ref x)"
  then have d: "d \<in># ?M" by (rule held_in_holders)
  then have "d \<noteq> ?d" "d \<noteq> hp_next ?h" using c(3) counts_ok_fresh [OF counts] by auto
  then show "d \<noteq> sb_buffer ?b \<and> mem_of h' d = mem_of ?h d" by (simp add: h' tmp mem_of_def)
qed

lemma sb_inv_malloc:
  fixes s :: sb_system
  defines "nu \<equiv> sb_used (sy_buf s) - sb_off (sy_buf s)"
  assumes inv: "sb_inv k q s" and n: "nu + SIZEOF_COUNT \<le> n"
    and ma: "hp_malloc ok n (sy_heap s) = Inr (tmp, h1)"
  shows "\<exists>h2 h3. init_count tmp h1 = Inr h2 \<and>
           hp_write tmp SIZEOF_COUNT (hp_read (sb_buffer (sy_buf s)) (sb_off (sy_buf s)) nu h2) h2 = Inr h3 \<and>
           sb_inv (Suc k) q (s\<lparr>sy_heap := h3, sy_buf := \<lparr>sb_buffer = tmp, sb_used = nu + SIZEOF_COUNT,
              sb_free = n - (nu + SIZEOF_COUNT), sb_off = SIZEOF_COUNT,
              sb_ref = reference_move (sb_buffer (sy_buf s)) (sb_ref (sy_buf s))\<rparr>\<rparr>)"
proof -
  let ?h = "sy_heap s" and ?b = "sy_buf s"
  define h2 where "h2 = ?h\<lparr>hp_chunks := (hp_chunks ?h)(hp_next ?h \<mapsto> \<lparr>ck_count = 1, ck_mem = replicate n None\<rparr>), hp_next := Suc (hp_next ?h)\<rparr>"
  have tmp: "tmp = hp_next ?h" and i: "init_count tmp h1 = Inr h2"
    using ma by (auto simp: hp_malloc_def init_count_def h2_def split: if_splits)
  have counts: "counts_ok ?h (holders s)" using inv by (simp add: sb_inv_def)
  have fresh: "tmp \<notin># holders s" unfolding tmp by (rule counts_ok_fresh [OF counts])
  have same: "mem_of h2 d = mem_of ?h d" if "d \<noteq> tmp" for d using that by (simp add: h2_def tmp mem_of_def)
  have b: "buf_ok ?h ?b" "sb_data ?b ?h = map Some q" using inv by (simp_all add: sb_inv_def)
  have own: "sb_buffer ?b \<noteq> tmp" using fresh by (auto simp: holders_def)
  have rd: "hp_read (sb_buffer ?b) (sb_off ?b) nu h2 = map Some q"
    using b(2) hp_read_mem [OF same [OF own]] by (simp add: sb_data_def data_size_def nu_def)
  have lq: "length q = nu" using sb_dataE [OF b] nu_def by metis
  have m2: "mem_of h2 tmp = Some (replicate n None)" by (simp add: h2_def tmp mem_of_def)
  have "SIZEOF_COUNT + length (map Some q) \<le> length (replicate n (None :: u8 option))" using n lq by simp
  from hp_write_ok [OF m2 this] obtain h3 where
    h3: "hp_write tmp SIZEOF_COUNT (map Some q) h2 = Inr h3" "\<And>M. counts_ok h2 M \<Longrightarrow> counts_ok h3 M"
      "mem_of h3 tmp = Some (take SIZEOF_COUNT (replicate n None) @ map Some q @ drop (SIZEOF_COUNT + length (map Some q)) (replicate n None))"
      "\<And>e. e \<noteq> tmp \<Longrightarrow> mem_of h3 e = mem_of h2 e" by blast
  let ?b' = "\<lparr>sb_buffer = tmp, sb_used = nu + SIZEOF_COUNT, sb_free = n - (nu + SIZEOF_COUNT), sb_off = SIZEOF_COUNT,
              sb_ref = reference_move (sb_buffer ?b) (sb_ref ?b)\<rparr>"
  have H: "holders (s\<lparr>sy_buf := ?b'\<rparr>) = add_mset tmp (holders s)" by (simp add: holders_def reference_move_def)
  have "sb_inv (Suc k) q (s\<lparr>sy_heap := h3, sy_buf := ?b'\<rparr>)"
  proof (rule sb_inv_move [OF inv])
    show "counts_ok h3 (holders (s\<lparr>sy_buf := ?b'\<rparr>))"
      unfolding H by (rule h3(2)) (simp add: h2_def tmp counts_ok_new [OF counts])
    show "size (holders (s\<lparr>sy_buf := ?b'\<rparr>)) \<le> Suc (Suc k)" using inv by (simp add: H sb_inv_def)
    show "buf_ok h3 ?b'" using n h3(3) lq by (auto simp: buf_ok_def)
    show "sb_data ?b' h3 = sb_data ?b ?h"
      using n lq by (simp add: sb_data_def data_size_def hp_read_Some [OF h3(3)]) (use b(2) in \<open>simp add: sb_data_def data_size_def\<close>)
    fix x d assume "x \<in> set (sy_held s)" "d \<in> set (hl_ref x)"
    then have "d \<in># holders s" using held_in_holders by (auto simp: holders_def)
    with fresh have "d \<noteq> tmp" by auto
    then show "d \<noteq> sb_buffer ?b' \<and> mem_of h3 d = mem_of ?h d" using h3(4) [of d] same [of d] by simp
  qed
  with i h3(1) rd show ?thesis by auto
qed

lemma sb_inv_more: "sb_inv k q s \<Longrightarrow> k \<le> k' \<Longrightarrow> sb_inv k' q s"
  by (auto simp: sb_inv_def)

lemma sb_inv_expand:
  assumes inv: "sb_inv k q s"
  shows "\<exists>r. expand_buffer ok len init (sy_buf s) (sy_heap s) = Some r \<and>
    (case r of Inl e \<Rightarrow> e = Bad_alloc \<and> \<not> ok
     | Inr (b, h) \<Rightarrow> sb_inv (Suc k) q (s\<lparr>sy_heap := h, sy_buf := b\<rparr>) \<and> len \<le> buffer_capacity b)"
proof -
  let ?b = "sy_buf s" and ?h = "sy_heap s"
  have buf: "buf_ok ?h ?b" using inv by (simp add: sb_inv_def)
  obtain c where c: "hp_chunks ?h (sb_buffer ?b) = Some c" using buf by (auto simp: buf_ok_def mem_of_def)
  then have g: "get_count (sb_buffer ?b) ?h = Inr (ck_count c)" by (simp add: get_count_def)
  have pos: "0 < sb_used ?b" using buf by (simp add: buf_ok_def SIZEOF_COUNT_def)
  show ?thesis
  proof (cases "sb_off ?b = SIZEOF_COUNT \<and> ck_count c = 1")
    case True
    obtain n where n: "grow ((sb_used ?b + sb_free ?b) * 2) (len + sb_used ?b) = Some n" "len + sb_used ?b \<le> n" "(sb_used ?b + sb_free ?b) * 2 \<le> n"
      using grow_ends [of "(sb_used ?b + sb_free ?b) * 2" "len + sb_used ?b"] pos by auto
    have one: "get_count (sb_buffer ?b) ?h = Inr 1" using True g by simp
    have room: "sb_used ?b + sb_free ?b \<le> n" using n(3) by simp
    show ?thesis
    proof (cases "hp_realloc ok (sb_buffer ?b) n ?h")
      case (Inl e)
      then have "e = Bad_alloc \<and> \<not> ok" using c by (auto simp: hp_realloc_def split: if_splits)
      with True g n(1) Inl show ?thesis by (simp add: expand_buffer_def)
    next
      case (Inr r)
      obtain tmp h' where r: "r = (tmp, h')" by (cases r)
      have "sb_inv (Suc k) q (s\<lparr>sy_heap := h', sy_buf := ?b\<lparr>sb_buffer := tmp, sb_free := n - sb_used ?b\<rparr>\<rparr>)"
        by (rule sb_inv_more [OF sb_inv_realloc [OF inv one room Inr [unfolded r]]]) simp
      with True g n(1,2) Inr r show ?thesis by (simp add: expand_buffer_def buffer_capacity_def)
    qed
  next
    case False
    let ?nu = "sb_used ?b - sb_off ?b"
    obtain n where n: "grow (max init SIZEOF_COUNT) (len + ?nu + SIZEOF_COUNT) = Some n" "len + ?nu + SIZEOF_COUNT \<le> n"
      using grow_ends [of "max init SIZEOF_COUNT" "len + ?nu + SIZEOF_COUNT"] less_max_iff_disj [of 0 init SIZEOF_COUNT]
      by (auto simp: SIZEOF_COUNT_def)
    show ?thesis
    proof (cases "hp_malloc ok n ?h")
      case (Inl e)
      then have "e = Bad_alloc \<and> \<not> ok" by (auto simp: hp_malloc_def split: if_splits)
      with False g n(1) Inl show ?thesis by (auto simp: expand_buffer_def Let_def)
    next
      case (Inr r)
      obtain tmp h1 where r: "r = (tmp, h1)" by (cases r)
      have room: "?nu + SIZEOF_COUNT \<le> n" using n(2) by simp
      from sb_inv_malloc [OF inv room Inr [unfolded r]] False g n Inr r show ?thesis
        by (auto simp: expand_buffer_def Let_def buffer_capacity_def)
    qed
  qed
qed

lemma sb_inv_reserve:
  assumes inv: "sb_inv k q s"
  shows "\<exists>r. reserve_buffer ok len init (sy_buf s) (sy_heap s) = Some r \<and>
    (case r of Inl e \<Rightarrow> e = Bad_alloc \<and> \<not> ok
     | Inr (b, h) \<Rightarrow> sb_inv (Suc k) q (s\<lparr>sy_heap := h, sy_buf := b\<rparr>) \<and> len \<le> buffer_capacity b)"
proof -
  let ?b = "sy_buf s" and ?h = "sy_heap s"
  obtain c where "hp_chunks ?h (sb_buffer ?b) = Some c" using inv by (auto simp: sb_inv_def buf_ok_def mem_of_def)
  then have g: "get_count (sb_buffer ?b) ?h = Inr (ck_count c)" by (simp add: get_count_def)
  define b1 where "b1 = (if sb_used ?b = sb_off ?b \<and> ck_count c = 1
     then ?b\<lparr>sb_free := sb_free ?b + (sb_used ?b - SIZEOF_COUNT), sb_used := SIZEOF_COUNT, sb_off := SIZEOF_COUNT\<rparr> else ?b)"
  have inv1: "sb_inv k q (s\<lparr>sy_buf := b1\<rparr>)"
    using sb_inv_rewind [OF inv] g inv by (auto simp: b1_def)
  have r: "reserve_buffer ok len init ?b ?h = (if sb_free b1 < len then expand_buffer ok len init b1 ?h else Some (Inr (b1, ?h)))"
    by (simp add: reserve_buffer_def g b1_def Let_def)
  show ?thesis
  proof (cases "sb_free b1 < len")
    case True
    have e: "s\<lparr>sy_buf := b1, sy_heap := h, sy_buf := b\<rparr> = s\<lparr>sy_heap := h, sy_buf := b\<rparr>" for h b by (cases s) simp
    from sb_inv_expand [OF inv1, of ok len init, unfolded e] show ?thesis by (simp add: r True)
  next
    case False
    with sb_inv_more [OF inv1, of "Suc k"] show ?thesis by (auto simp: r buffer_capacity_def)
  qed
qed

section \<open>Properties\<close>

lemma sb_apply_inv:
  assumes inv: "sb_inv k q s" and legal: "sb_legal ev s" and k: "Suc (Suc k) < 2 ^ 32"
  shows "\<exists>r. sb_apply ev s = Some r \<and> (case r of Inl e \<Rightarrow> e = Bad_alloc | Inr s' \<Rightarrow> sb_inv (Suc k) (queue_apply ev q) s')"
proof (cases ev)
  case (Sb_reserve ok len init)
  from sb_inv_reserve [OF inv, of ok len init] obtain r where
    "reserve_buffer ok len init (sy_buf s) (sy_heap s) = Some r" and
    r: "case r of Inl e \<Rightarrow> e = Bad_alloc \<and> \<not> ok
      | Inr (b, h) \<Rightarrow> sb_inv (Suc k) q (s\<lparr>sy_heap := h, sy_buf := b\<rparr>) \<and> len \<le> buffer_capacity b" by blast
  then show ?thesis by (cases r) (auto simp: Sb_reserve)
next
  case (Sb_read bs)
  from sb_inv_read [OF inv, of bs] legal show ?thesis by (auto simp: Sb_read sb_inv_def)
next
  case (Sb_used n)
  from sb_inv_used [OF inv, of n] legal show ?thesis by (auto simp: Sb_used sb_inv_def)
next
  case Sb_release
  from sb_inv_release [OF inv k] show ?thesis by (auto simp: Sb_release)
next
  case (Sb_drop i)
  from sb_inv_drop [OF inv, of i] legal show ?thesis by (auto simp: Sb_drop sb_inv_def)
qed

definition sb_system_of :: "stream_buffer \<times> sb_heap \<Rightarrow> sb_system" where
  "sb_system_of x = \<lparr>sy_heap = snd x, sy_buf = fst x, sy_held = []\<rparr>"

definition empty_heap :: sb_heap where
  "empty_heap = \<lparr>hp_chunks = Map.empty, hp_next = 0\<rparr>"

lemma stream_buffer_new_inv:
  assumes "stream_buffer_new ok n empty_heap = Inr x"
  shows "sb_inv 0 [] (sb_system_of x)"
proof -
  have x: "x = (\<lparr>sb_buffer = 0, sb_used = SIZEOF_COUNT, sb_free = max n SIZEOF_COUNT - SIZEOF_COUNT, sb_off = SIZEOF_COUNT, sb_ref = []\<rparr>,
     \<lparr>hp_chunks = [0 \<mapsto> \<lparr>ck_count = 1, ck_mem = replicate (max n SIZEOF_COUNT) None\<rparr>], hp_next = 1\<rparr>)"
    using assms by (auto simp: stream_buffer_new_def hp_malloc_def init_count_def empty_heap_def Let_def split: if_splits)
  have "counts_ok empty_heap {#}" by (simp add: counts_ok_def empty_heap_def)
  from counts_ok_new [OF this] show ?thesis
    by (simp add: sb_inv_def x sb_system_of_def holders_def buf_ok_def mem_of_def sb_data_def data_size_def hp_read_def empty_heap_def)
qed

lemma sb_steps_inv:
  "sb_steps s evs s' \<Longrightarrow> sb_inv 0 [] s \<Longrightarrow> length evs + 1 < 2 ^ 32 \<Longrightarrow> sb_inv (length evs) (byte_queue_run evs) s'"
proof (induction rule: sb_steps.induct)
  case (sb_steps_more s evs s' ev s'')
  then have "sb_inv (length evs) (byte_queue_run evs) s'" "Suc (Suc (length evs)) < 2 ^ 32" by simp_all
  from sb_apply_inv [OF this(1) sb_steps_more.hyps(2) this(2)] sb_steps_more.hyps(3)
  show ?case by (auto simp: byte_queue_run_def)
qed (simp add: byte_queue_run_def)

text \<open>
  C16: The zero-copy buffer is a queue of bytes and keeps what it hands out. Start from a new
  buffer and let it be filled, used, released to requests and grown in any order, with fewer
  than \<open>2 ^ 32 - 2\<close> operations. Then its data are the bytes read and not yet used, in order, none of
  them uninitialised; every reference that is still held reaches the bytes that were there when
  it was taken, whatever happened since; and the next operation touches no freed or foreign memory
  and ends (it can only fail to get memory).
\<close>

theorem stream_buffer_is_queue:
  assumes "stream_buffer_new ok n empty_heap = Inr x" "sb_steps (sb_system_of x) evs s" "length evs + 2 < 2 ^ 32"
  shows "sb_data (sy_buf s) (sy_heap s) = map Some (byte_queue_run evs) \<and>
    (\<forall>r \<in> set (sy_held s). hp_read (hl_chunk r) 0 (length (hl_seen r)) (sy_heap s) = hl_seen r) \<and>
    (\<forall>ev. sb_legal ev s \<longrightarrow> (\<exists>r. sb_apply ev s = Some r \<and> (\<forall>e. r = Inl e \<longrightarrow> e = Bad_alloc)))"
proof -
  have inv: "sb_inv (length evs) (byte_queue_run evs) s"
    using sb_steps_inv [OF assms(2) stream_buffer_new_inv [OF assms(1)]] assms(3) by simp
  then have "sb_data (sy_buf s) (sy_heap s) = map Some (byte_queue_run evs)" by (simp add: sb_inv_def)
  moreover have "\<forall>r \<in> set (sy_held s). hp_read (hl_chunk r) 0 (length (hl_seen r)) (sy_heap s) = hl_seen r"
    using inv by (auto simp: sb_inv_def held_ok_def)
  moreover have "Suc (Suc (length evs)) < 2 ^ 32" using assms(3) by simp
  from sb_apply_inv [OF inv _ this]
  have "\<forall>ev. sb_legal ev s \<longrightarrow> (\<exists>r. sb_apply ev s = Some r \<and> (\<forall>e. r = Inl e \<longrightarrow> e = Bad_alloc))" by fastforce
  ultimately show ?thesis by blast
qed

fun sb_run :: "sb_event list \<Rightarrow> sb_system \<Rightarrow> sb_system option" where
  "sb_run [] s = Some s"
| "sb_run (ev # evs) s = (if sb_legal ev s then (case sb_apply ev s of Some (Inr s') \<Rightarrow> sb_run evs s' | _ \<Rightarrow> None) else None)"

lemma sb_run_steps: "sb_run evs s = Some s' \<Longrightarrow> sb_steps s0 pre s \<Longrightarrow> sb_steps s0 (pre @ evs) s'"
proof (induction evs s arbitrary: pre rule: sb_run.induct)
  case (2 ev evs s)
  then obtain s1 where "sb_legal ev s" "sb_apply ev s = Some (Inr s1)" "sb_run evs s1 = Some s'"
    by (auto split: if_splits option.splits sum.splits)
  with 2(1) [of "Inr s1" s1 "pre @ [ev]"] 2(3) show ?case by (auto intro: sb_steps_more)
qed simp

definition sb_sample_events :: "sb_event list" where
  "sb_sample_events = [Sb_read [1, 2], Sb_release, Sb_used 1, Sb_reserve True 1 8, Sb_read [3]]"

definition sample_buffer :: sb_system where
  "sample_buffer = sb_system_of (case stream_buffer_new True 8 empty_heap of Inr x \<Rightarrow> x)"

theorem stream_buffer_is_queue_witness:
  "\<exists>s. sb_steps sample_buffer sb_sample_events s \<and> sb_data (sy_buf s) (sy_heap s) = map Some [2, 3] \<and>
     (\<forall>r \<in> set (sy_held s). hp_read (hl_chunk r) 0 (length (hl_seen r)) (sy_heap s) = hl_seen r)"
proof -
  obtain x where x: "stream_buffer_new True 8 empty_heap = Inr x"
    by (simp add: stream_buffer_new_def hp_malloc_def init_count_def empty_heap_def Let_def)
  then have sx: "sample_buffer = sb_system_of x" by (simp add: sample_buffer_def)
  have "\<exists>s. sb_run sb_sample_events sample_buffer = Some s"
    by (simp add: sb_sample_events_def sample_buffer_def stream_buffer_new_def hp_malloc_def init_count_def empty_heap_def sb_system_of_def
        buffer_capacity_def SIZEOF_COUNT_def hp_write_def buffer_consumed_def release_to_def reference_push_def incr_count_def
        data_size_def data_used_def reserve_buffer_def get_count_def Let_def)
  then obtain s where s: "sb_steps (sb_system_of x) sb_sample_events s"
    using sb_run_steps [OF _ sb_steps_none] unfolding sx by fastforce
  moreover have "byte_queue_run sb_sample_events = [2, 3]" by (simp add: byte_queue_run_def sb_sample_events_def)
  moreover have "length sb_sample_events + 2 < 2 ^ 32" by (simp add: sb_sample_events_def)
  ultimately show ?thesis
    using stream_buffer_is_queue [OF x s] unfolding sx by auto
qed

end
