(* ===== verification/Memproto.thy ===== *)
theory Memproto
  imports Prelude
begin

text \<open>
  The parser of the memcached binary protocol (\<open>gate/memproto/memproto.c\<close>,
  \<open>gate/memproto/memproto.h\<close>): a frame is a header of 24 bytes and a body of extras, key and value.
  \<open>memproto_parser_execute\<close> finds the end of a frame, \<open>memproto_dispatch\<close> checks it and makes the
  callback of its command. Here the call is the result; which callbacks are installed is an argument.

  A pointer into the frame is the run of bytes it is given with. Bytes beyond those that were
  received are not there: taking a run that goes past them is undefined behaviour.
\<close>

section \<open>Byte order\<close>

definition ntohs :: "platform \<Rightarrow> u16 \<Rightarrow> u16" where
  "ntohs p w = load_word Big (store_word (host_order p) 2 w)"

definition ntohl :: "platform \<Rightarrow> u32 \<Rightarrow> u32" where
  "ntohl p w = load_word Big (store_word (host_order p) 4 w)"

definition memproto_be64h :: "platform \<Rightarrow> u64 \<Rightarrow> u64" where
  "memproto_be64h p w = (case host_order p of Little \<Rightarrow> bswap64 w | Big \<Rightarrow> w)"

lemma store_load_u16: "length bs = 2 \<Longrightarrow> store_word bo 2 (load_word bo bs :: u16) = bs"
  by (rule store_load_word) simp_all

lemma store_load_u32: "length bs = 4 \<Longrightarrow> store_word bo 4 (load_word bo bs :: u32) = bs"
  by (rule store_load_word) simp_all

lemma load_store_u32 [simp]: "load_word bo (store_word bo 4 w) = (w :: u32)"
  by (rule load_store_word) simp

lemma ntohs_load: "length bs = 2 \<Longrightarrow> ntohs p (load_word (host_order p) bs) = load_word Big bs"
  by (simp add: ntohs_def store_load_u16)

lemma ntohl_load: "length bs = 4 \<Longrightarrow> ntohl p (load_word (host_order p) bs) = load_word Big bs"
  by (simp add: ntohl_def store_load_u32)

lemma be64h_load: "length bs = 8 \<Longrightarrow> memproto_be64h p (load_word (host_order p) bs) = load_word Big bs"
  by (simp add: memproto_be64h_def bswap64_def store_load_u64 split: byte_order.splits)

text \<open>\<open>htons\<close> and \<open>htonl\<close> are the same functions; a store of their result is big-endian.\<close>

lemma ntohs_ntohs [simp]: "ntohs p (ntohs p w) = w"
proof (cases "host_order p")
  case Little
  have "load_word Big (store_word Little 2 (load_word Big (store_word Little 2 w) :: u16)) = w"
    by (simp add: load_rev(1) store_load_u16)
  with Little show ?thesis by (simp add: ntohs_def)
qed (simp add: ntohs_def)

lemma ntohl_ntohl [simp]: "ntohl p (ntohl p w) = w"
proof (cases "host_order p")
  case Little
  have "load_word Big (store_word Little 4 (load_word Big (store_word Little 4 w) :: u32)) = w"
    by (simp add: load_rev(1) store_load_u32)
  with Little show ?thesis by (simp add: ntohl_def)
qed (simp add: ntohl_def)

lemma store_ntohs: "store_word (host_order p) 2 (ntohs p w) = store_word Big 2 w"
proof (cases "host_order p")
  case Little
  then show ?thesis by (simp add: ntohs_def load_rev(1) store_load_u16 store_rev)
qed (simp add: ntohs_def)

lemma store_ntohl: "store_word (host_order p) 4 (ntohl p w) = store_word Big 4 w"
proof (cases "host_order p")
  case Little
  then show ?thesis by (simp add: ntohl_def load_rev(1) store_load_u32 store_rev)
qed (simp add: ntohl_def)

section \<open>Headers\<close>

definition MEMPROTO_HEADER_SIZE :: nat where "MEMPROTO_HEADER_SIZE = 24"

definition MEMPROTO_REQUEST :: u8 where "MEMPROTO_REQUEST = 0x80"

record memproto_header =
  mh_magic :: u8
  mh_opcode :: u8
  mh_data_type :: u8
  mh_reserved :: u16
  mh_opaque :: u32
  mh_cas :: u64

definition bytes_at :: "nat \<Rightarrow> nat \<Rightarrow> bytes \<Rightarrow> bytes" where
  "bytes_at i n bs = take n (drop i bs)"

definition MEMPROTO_MAGIC :: "bytes \<Rightarrow> u8" where "MEMPROTO_MAGIC h = h ! 0"
definition MEMPROTO_OPCODE :: "bytes \<Rightarrow> u8" where "MEMPROTO_OPCODE h = h ! 1"
definition MEMPROTO_KEY_LENGTH :: "platform \<Rightarrow> bytes \<Rightarrow> u16" where
  "MEMPROTO_KEY_LENGTH p h = ntohs p (load_word (host_order p) (bytes_at 2 2 h))"
definition MEMPROTO_EXTRA_LENGTH :: "bytes \<Rightarrow> u8" where "MEMPROTO_EXTRA_LENGTH h = h ! 4"
definition MEMPROTO_DATA_TYPE :: "bytes \<Rightarrow> u8" where "MEMPROTO_DATA_TYPE h = h ! 5"
definition MEMPROTO_STATUS :: "platform \<Rightarrow> bytes \<Rightarrow> u16" where
  "MEMPROTO_STATUS p h = ntohs p (load_word (host_order p) (bytes_at 6 2 h))"
definition MEMPROTO_BODY_LENGTH :: "platform \<Rightarrow> bytes \<Rightarrow> u32" where
  "MEMPROTO_BODY_LENGTH p h = ntohl p (load_word (host_order p) (bytes_at 8 4 h))"
definition MEMPROTO_OPAQUE :: "platform \<Rightarrow> bytes \<Rightarrow> u32" where
  "MEMPROTO_OPAQUE p h = ntohl p (load_word (host_order p) (bytes_at 12 4 h))"
definition MEMPROTO_CAS :: "platform \<Rightarrow> bytes \<Rightarrow> u64" where
  "MEMPROTO_CAS p h = memproto_be64h p (load_word (host_order p) (bytes_at 16 8 h))"

section \<open>Frames\<close>

text \<open>
  The result of \<open>memproto_parser_execute\<close> with an offset of zero: 0 for an incomplete frame, a
  negative number for one that is not a request, and the length of the frame with 1.
\<close>

definition memproto_parser_execute :: "platform \<Rightarrow> bytes \<Rightarrow> int \<times> nat" where
  "memproto_parser_execute p data =
     (if length data < MEMPROTO_HEADER_SIZE then (0, 0)
      else let bodylen = unat (MEMPROTO_BODY_LENGTH p data)
           in if length data - MEMPROTO_HEADER_SIZE < bodylen then (0, 0)
              else if MEMPROTO_MAGIC data \<noteq> MEMPROTO_REQUEST then (-1, 0)
              else (1, MEMPROTO_HEADER_SIZE + bodylen))"

section \<open>Commands\<close>

text \<open>The calls, by the types of the callbacks.\<close>

datatype memproto_call =
    Call_get memproto_header bytes
  | Call_set memproto_header bytes bytes u32 u32
  | Call_delete memproto_header bytes u32
  | Call_arith memproto_header bytes u64 u64 u32
  | Call_flush memproto_header u32
  | Call_plain memproto_header
  | Call_concat memproto_header bytes bytes

definition MEMPROTO_INVALID_ARGUMENT :: int where "MEMPROTO_INVALID_ARGUMENT = - 128"

text \<open>
  \<open>memproto_dispatch\<close>. \<open>data\<close> are the bytes from the header on, \<open>callback\<close> tells which of the
  sixteen entries of the table are not null. The result is the returned number and the call.
\<close>

definition run_of :: "nat \<Rightarrow> nat \<Rightarrow> bytes \<Rightarrow> bytes result" where
  "run_of i n data = (if length data < i + n then Inl Undefined_behaviour else Inr (bytes_at i n data))"

definition memproto_dispatch :: "platform \<Rightarrow> bool list \<Rightarrow> bytes \<Rightarrow> (int \<times> memproto_call option) result" where
  "memproto_dispatch p callback data =
     (let h = \<lparr>mh_magic = MEMPROTO_MAGIC data, mh_opcode = MEMPROTO_OPCODE data, mh_data_type = MEMPROTO_DATA_TYPE data,
               mh_reserved = MEMPROTO_STATUS p data, mh_opaque = MEMPROTO_OPAQUE p data, mh_cas = MEMPROTO_CAS p data\<rparr>;
          keylen = MEMPROTO_KEY_LENGTH p data;
          extralen = MEMPROTO_EXTRA_LENGTH data;
          bodylen = MEMPROTO_BODY_LENGTH p data;
          extra = MEMPROTO_HEADER_SIZE;
          key = extra + unat extralen;
          val = key + unat keylen;
          vallen = bodylen - ucast extralen - ucast keylen;
          cmd = unat (mh_opcode h);
          invalid = Inr (MEMPROTO_INVALID_ARGUMENT, None);
          key_run = run_of key (unat keylen) data
      in if length callback \<le> cmd then Inl Undefined_behaviour
         else if \<not> callback ! cmd then Inr (- int cmd, None)
         else if cmd \<in> {0x00, 0x09, 0x0c, 0x0d} then
           (if extralen \<noteq> 0 \<or> vallen \<noteq> 0 \<or> keylen = 0 then invalid
            else case key_run of Inl e \<Rightarrow> Inl e | Inr k \<Rightarrow> Inr (1, Some (Call_get h k)))
         else if cmd = 0x04 then
           (if keylen = 0 \<or> vallen \<noteq> 0 then invalid
            else if extralen = 0 then
              (case key_run of Inl e \<Rightarrow> Inl e | Inr k \<Rightarrow> Inr (1, Some (Call_delete h k 0)))
            else if extralen = 4 then
              (case key_run of
                 Inl e \<Rightarrow> Inl e
               | Inr k \<Rightarrow> Inr (1, Some (Call_delete h k (ntohl p (load_word (host_order p) (bytes_at extra 4 data))))))
            else invalid)
         else if cmd = 0x08 then
           (if keylen \<noteq> 0 \<or> vallen \<noteq> 0 then invalid
            else if extralen = 0 then Inr (1, Some (Call_flush h 0))
            else if extralen = 4 then
              Inr (1, Some (Call_flush h (ntohl p (load_word (host_order p) (bytes_at extra 4 data)))))
            else invalid)
         else if cmd \<in> {0x01, 0x02, 0x03} then
           (if keylen = 0 \<or> extralen \<noteq> 8 then invalid
            else case key_run of
                   Inl e \<Rightarrow> Inl e
                 | Inr k \<Rightarrow>
                     (case run_of val (unat vallen) data of
                        Inl e \<Rightarrow> Inl e
                      | Inr v \<Rightarrow>
                          Inr (1, Some (Call_set h k v (ntohl p (load_word (host_order p) (bytes_at extra 4 data)))
                                   (ntohl p (load_word (host_order p) (bytes_at (extra + 4) 4 data)))))))
         else if cmd \<in> {0x05, 0x06} then
           (if extralen \<noteq> 20 \<or> keylen = 0 \<or> vallen \<noteq> 0 then invalid
            else case key_run of
                   Inl e \<Rightarrow> Inl e
                 | Inr k \<Rightarrow>
                     Inr (1, Some (Call_arith h k (memproto_be64h p (load_word (host_order p) (bytes_at extra 8 data)))
                       (memproto_be64h p (load_word (host_order p) (bytes_at (extra + 8) 8 data)))
                       (ucast (memproto_be64h p (ucast (load_word (host_order p) (bytes_at (extra + 16) 4 data) :: u32)))))))
         else if cmd \<in> {0x07, 0x0a, 0x0b} then
           (if keylen \<noteq> 0 \<or> extralen \<noteq> 0 \<or> vallen \<noteq> 0 then invalid else Inr (1, Some (Call_plain h)))
         else if cmd \<in> {0x0e, 0x0f} then
           (if keylen = 0 \<or> extralen \<noteq> 0 then invalid
            else case key_run of
                   Inl e \<Rightarrow> Inl e
                 | Inr k \<Rightarrow>
                     (case run_of val (unat vallen) data of Inl e \<Rightarrow> Inl e | Inr v \<Rightarrow> Inr (1, Some (Call_concat h k v))))
         else Inr (- int cmd, None))"

end
