(* ===== verification/FrontEnd.thy ===== *)
theory FrontEnd
  imports Gateway Memproto
begin

text \<open>
  What the two memcached front ends share: the options they are started with, the time they
  count expiration from, and what they do to the outside, which is to submit a request to the
  gateway or to write to the connection. The number of a request's entry is the pointer the
  gateway gives back with the result.
\<close>

record gate_config =
  gc_save_flag :: bool
  gc_save_exptime :: bool

datatype front_action =
    F_get req_get
  | F_set req_set
  | F_delete req_delete
  | F_write "bytes list"

definition RELATIVE_MAX :: u32 where "RELATIVE_MAX = 60 * 60 * 24 * 30"

definition exptime_to_system :: "u32 \<Rightarrow> u32 \<Rightarrow> u32" where
  "exptime_to_system now exptime =
     (if exptime = 0 then 0 else if exptime \<le> RELATIVE_MAX then exptime + now else exptime)"

text \<open>\<open>update_system_time\<close>; \<open>gettimeofday\<close> gives the seconds unless it fails.\<close>

definition update_system_time :: "int option \<Rightarrow> u32 \<Rightarrow> u32" where
  "update_system_time tv_sec now = (case tv_sec of None \<Rightarrow> now | Some s \<Rightarrow> word_of_int s)"

text \<open>
  The value in the store: the expiration time when it is kept, the flags when they are kept,
  then the data, both numbers in network byte order.
\<close>

definition put_flags :: "platform \<Rightarrow> gate_config \<Rightarrow> u16 \<Rightarrow> bytes \<Rightarrow> bytes" where
  "put_flags p cfg fl val =
     (if gc_save_flag cfg then store_word (host_order p) 2 (ntohs p fl) @ val else val)"

definition put_exptime :: "platform \<Rightarrow> gate_config \<Rightarrow> u32 \<Rightarrow> u32 \<Rightarrow> bytes \<Rightarrow> bytes" where
  "put_exptime p cfg now exptime val =
     (if gc_save_exptime cfg then store_word (host_order p) 4 (ntohl p (exptime_to_system now exptime)) @ val else val)"

definition get_exptime :: "platform \<Rightarrow> bytes \<Rightarrow> u32" where
  "get_exptime p val = ntohl p (load_word (host_order p) (take 4 val))"

definition get_flags :: "platform \<Rightarrow> bytes \<Rightarrow> u16" where
  "get_flags p val = ntohs p (load_word (host_order p) (take 2 val))"

lemma get_put_exptime [simp]:
  "gc_save_exptime cfg \<Longrightarrow> get_exptime p (put_exptime p cfg now exptime val) = exptime_to_system now exptime"
  by (simp add: get_exptime_def put_exptime_def)

lemma drop_put_exptime [simp]: "gc_save_exptime cfg \<Longrightarrow> drop 4 (put_exptime p cfg now exptime val) = val"
  by (simp add: put_exptime_def)

lemma length_put_exptime [simp]: "gc_save_exptime cfg \<Longrightarrow> length (put_exptime p cfg now exptime val) = 4 + length val"
  by (simp add: put_exptime_def)

lemma no_put_exptime [simp]: "\<not> gc_save_exptime cfg \<Longrightarrow> put_exptime p cfg now exptime val = val"
  by (simp add: put_exptime_def)

lemma get_put_flags [simp]: "gc_save_flag cfg \<Longrightarrow> get_flags p (put_flags p cfg fl val) = fl"
  by (simp add: get_flags_def put_flags_def)

lemma drop_put_flags [simp]: "gc_save_flag cfg \<Longrightarrow> drop 2 (put_flags p cfg fl val) = val"
  by (simp add: put_flags_def)

lemma length_put_flags [simp]: "gc_save_flag cfg \<Longrightarrow> length (put_flags p cfg fl val) = 2 + length val"
  by (simp add: put_flags_def)

lemma no_put_flags [simp]: "\<not> gc_save_flag cfg \<Longrightarrow> put_flags p cfg fl val = val"
  by (simp add: put_flags_def)

text \<open>An item is expired when it has an expiration time and that is before now.\<close>

definition item_expired :: "u32 \<Rightarrow> u32 \<Rightarrow> bool" where
  "item_expired now exptime \<longleftrightarrow> exptime \<noteq> 0 \<and> exptime < now"

end
