(* ===== verification/MemcacheBinary.thy ===== *)
theory MemcacheBinary
  imports FrontEnd
begin

text \<open>
  The front end for the memcached binary protocol (\<open>gate/memcache_binary.cc\<close>): a handler per
  connection reads frames, submits them to the gateway and sends the answers back in the order of
  the requests, with a queue of entries that are waiting for theirs.

  The buffer of the handler is the queue of bytes a stream buffer is. A request writes flags and
  expiration time in front of its value, over its own extras and key, which it copied before; the
  values here are those it submits.
\<close>

section \<open>The response queue\<close>

text \<open>An element whose entry is null is filled; the vector of one that sends nothing is empty.\<close>

record element_t =
  el_e :: "nat option"
  el_vec :: "bytes list"

record response_queue =
  rq_valid :: bool
  rq_queue :: "element_t list"

definition response_queue_new :: response_queue where
  "response_queue_new = \<lparr>rq_valid = True, rq_queue = []\<rparr>"

definition rq_invalidate :: "response_queue \<Rightarrow> response_queue" where
  "rq_invalidate q = q\<lparr>rq_valid := False, rq_queue := []\<rparr>"

definition push_entry :: "nat \<Rightarrow> response_queue \<Rightarrow> response_queue" where
  "push_entry e q = q\<lparr>rq_queue := rq_queue q @ [\<lparr>el_e = Some e, el_vec = []\<rparr>]\<rparr>"

definition is_filled :: "element_t \<Rightarrow> bool" where
  "is_filled x \<longleftrightarrow> el_e x = None"

text \<open>The loop of \<open>reached_try_send\<close>: the writes and what is left of the queue.\<close>

primrec send_filled :: "element_t list \<Rightarrow> bytes list list \<times> element_t list" where
  "send_filled [] = ([], [])"
| "send_filled (x # xs) =
     (if \<not> is_filled x then ([], x # xs)
      else let (ws, rest) = send_filled xs in (if el_vec x \<noteq> [] then el_vec x # ws else ws, rest))"

definition reached_try_send :: "nat \<Rightarrow> bytes list \<Rightarrow> response_queue \<Rightarrow> bytes list list \<times> response_queue" where
  "reached_try_send e vec q =
     (let i = find_index (\<lambda>x. el_e x = Some e) (rq_queue q)
      in if i = length (rq_queue q) then ([], q)
         else let (ws, rest) = send_filled ((rq_queue q)[i := \<lparr>el_e = None, el_vec = vec\<rparr>])
              in (ws, q\<lparr>rq_queue := rest\<rparr>))"

section \<open>Entries and the handler\<close>

text \<open>The kind of an entry is the callback its request was submitted with.\<close>

datatype mb_callback = Mb_getx bool bool | Mb_set | Mb_cas | Mb_delete | Mb_none

record mb_entry =
  me_header :: memproto_header
  me_callback :: mb_callback

record mb_handler =
  mb_buffer :: bytes
  mb_queue :: response_queue
  mb_entries :: "nat \<Rightarrow> mb_entry option"
  mb_next :: nat

type_synonym mb_out = "mb_handler \<times> front_action list"

text \<open>The table of callbacks the constructor installs.\<close>

definition mb_callbacks :: "bool list" where
  "mb_callbacks = [True, True, False, True, True, False, False, False, True, True, True, False, True, True, False, False]"

definition mb_handler_new :: mb_handler where
  "mb_handler_new = \<lparr>mb_buffer = [], mb_queue = response_queue_new, mb_entries = Map.empty, mb_next = 0\<rparr>"

definition mb_handler_delete :: "mb_handler \<Rightarrow> mb_handler" where
  "mb_handler_delete h = h\<lparr>mb_queue := rq_invalidate (mb_queue h)\<rparr>"

text \<open>Allocating an entry and pushing it.\<close>

definition new_entry :: "memproto_header \<Rightarrow> mb_callback \<Rightarrow> mb_handler \<Rightarrow> nat \<times> mb_handler" where
  "new_entry hdr cb h =
     (let e = mb_next h
      in (e, h\<lparr>mb_entries := (mb_entries h)(e \<mapsto> \<lparr>me_header = hdr, me_callback = cb\<rparr>), mb_next := Suc e,
               mb_queue := push_entry e (mb_queue h)\<rparr>))"

section \<open>Responses on the wire\<close>

definition pack_header :: "platform \<Rightarrow> u16 \<Rightarrow> u8 \<Rightarrow> u16 \<Rightarrow> u32 \<Rightarrow> u8 \<Rightarrow> u32 \<Rightarrow> u64 \<Rightarrow> bytes" where
  "pack_header p status opc keylen vallen extralen opaque cas =
     [0x81, opc] @ store_word (host_order p) 2 (ntohs p keylen) @ [extralen, 0x00] @
     store_word (host_order p) 2 (ntohs p status) @
     store_word (host_order p) 4 (ntohl p (vallen + ucast keylen + ucast extralen)) @
     store_word (host_order p) 4 (ntohl p opaque) @
     store_word (host_order p) 4 (ntohl p (ucast (drop_bit 32 cas))) @
     store_word (host_order p) 4 (ntohl p (ucast (cas AND 0xffffffff)))"

definition mb_send :: "nat \<Rightarrow> bytes list \<Rightarrow> mb_handler \<Rightarrow> mb_out" where
  "mb_send e vec h = (let (ws, q) = reached_try_send e vec (mb_queue h) in (h\<lparr>mb_queue := q\<rparr>, map F_write ws))"

definition send_response_nosend :: "nat \<Rightarrow> mb_handler \<Rightarrow> mb_out" where
  "send_response_nosend e h = mb_send e [] h"

definition send_response_nodata :: "platform \<Rightarrow> nat \<Rightarrow> mb_entry \<Rightarrow> u8 \<Rightarrow> mb_handler \<Rightarrow> mb_out" where
  "send_response_nodata p e en status h =
     mb_send e [pack_header p (ucast status) (mh_opcode (me_header en)) 0 0 0 (mh_opaque (me_header en)) 0] h"

text \<open>
  The lengths are 16-bit parameters, so that a longer run is cut to its length modulo \<open>2 ^ 16\<close>.
\<close>

definition response_vec :: "platform \<Rightarrow> u8 \<Rightarrow> memproto_header \<Rightarrow> bytes \<Rightarrow> bytes \<Rightarrow> bytes \<Rightarrow> u64 \<Rightarrow> bytes list" where
  "response_vec p status hdr key val extra cas =
     (let keylen = word_of_nat (length key) :: u16; vallen = word_of_nat (length val) :: u16;
          extralen = word_of_nat (length extra) :: u16
      in [pack_header p (ucast status) (mh_opcode hdr) keylen (ucast vallen) (ucast extralen) (mh_opaque hdr) cas] @
         (if 0 < extralen then [take (unat extralen) extra] else []) @
         (if 0 < keylen then [take (unat keylen) key] else []) @
         (if 0 < vallen then [take (unat vallen) val] else []))"

definition send_response ::
    "platform \<Rightarrow> nat \<Rightarrow> mb_entry \<Rightarrow> u8 \<Rightarrow> bytes \<Rightarrow> bytes \<Rightarrow> bytes \<Rightarrow> u64 \<Rightarrow> mb_handler \<Rightarrow> mb_out" where
  "send_response p e en status key val extra cas h = mb_send e (response_vec p status (me_header en) key val extra cas) h"

section \<open>Requests\<close>

definition MEMPROTO_CMD_REPLACE :: u8 where "MEMPROTO_CMD_REPLACE = 0x03"
definition MEMPROTO_CMD_GETQ :: u8 where "MEMPROTO_CMD_GETQ = 0x09"
definition MEMPROTO_CMD_GETK :: u8 where "MEMPROTO_CMD_GETK = 0x0c"
definition MEMPROTO_CMD_GETKQ :: u8 where "MEMPROTO_CMD_GETKQ = 0x0d"

definition MEMPROTO_RES_NO_ERROR :: u8 where "MEMPROTO_RES_NO_ERROR = 0x00"
definition MEMPROTO_RES_KEY_NOT_FOUND :: u8 where "MEMPROTO_RES_KEY_NOT_FOUND = 0x01"
definition MEMPROTO_RES_KEY_EXISTS :: u8 where "MEMPROTO_RES_KEY_EXISTS = 0x02"
definition MEMPROTO_RES_INVALID_ARGUMENTS :: u8 where "MEMPROTO_RES_INVALID_ARGUMENTS = 0x04"
definition MEMPROTO_RES_OUT_OF_MEMORY :: u8 where "MEMPROTO_RES_OUT_OF_MEMORY = 0x82"

definition mb_request_getx :: "memproto_header \<Rightarrow> bytes \<Rightarrow> mb_handler \<Rightarrow> mb_out result" where
  "mb_request_getx hdr key h =
     (let flag_key = (mh_opcode hdr = MEMPROTO_CMD_GETK \<or> mh_opcode hdr = MEMPROTO_CMD_GETKQ);
          flag_quiet = (mh_opcode hdr = MEMPROTO_CMD_GETQ \<or> mh_opcode hdr = MEMPROTO_CMD_GETKQ);
          (e, h1) = new_entry hdr (Mb_getx flag_key flag_quiet) h
      in Inr (h1, [F_get \<lparr>rg_key = key, rg_user_hash = None, rg_user = e\<rparr>]))"

definition mb_request_set ::
    "platform \<Rightarrow> gate_config \<Rightarrow> u32 \<Rightarrow> memproto_header \<Rightarrow> bytes \<Rightarrow> bytes \<Rightarrow> u32 \<Rightarrow> u32 \<Rightarrow> mb_handler \<Rightarrow> mb_out result" where
  "mb_request_set p cfg now hdr key val fl expiration h =
     (if mh_opcode hdr = MEMPROTO_CMD_REPLACE \<and> mh_cas hdr = 0 then
        Inl (Runtime_error ''memcached binary protocol: unsupported requrest'')
      else if (\<not> gc_save_flag cfg \<and> fl \<noteq> 0) \<or> (\<not> gc_save_exptime cfg \<and> expiration \<noteq> 0) then
        Inl (Runtime_error ''memcached binary protocol: invalid argument'')
      else
        let val' = put_exptime p cfg now expiration (put_flags p cfg (ucast fl) val);
            (e, h1) = new_entry hdr (if mh_cas hdr \<noteq> 0 then Mb_cas else Mb_set) h
        in Inr (h1, [F_set \<lparr>rs_key = key, rs_user_hash = None, rs_val = val',
                            rs_operation = (if mh_cas hdr \<noteq> 0 then GATE_OP_CAS else 0),
                            rs_clocktime = mh_cas hdr, rs_user = e\<rparr>]))"

definition mb_request_delete :: "memproto_header \<Rightarrow> bytes \<Rightarrow> u32 \<Rightarrow> mb_handler \<Rightarrow> mb_out result" where
  "mb_request_delete hdr key expiration h =
     (if expiration \<noteq> 0 then Inl (Runtime_error ''memcached binary protocol: invalid argument'')
      else let (e, h1) = new_entry hdr Mb_delete h
           in Inr (h1, [F_delete \<lparr>rd_key = key, rd_user_hash = None, rd_async = False, rd_user = e\<rparr>]))"

definition mb_request_noop :: "platform \<Rightarrow> memproto_header \<Rightarrow> mb_handler \<Rightarrow> mb_out result" where
  "mb_request_noop p hdr h =
     (let (e, h1) = new_entry hdr Mb_none h
      in Inr (send_response_nodata p e \<lparr>me_header = hdr, me_callback = Mb_none\<rparr> MEMPROTO_RES_NO_ERROR h1))"

definition mb_request_flush :: "platform \<Rightarrow> memproto_header \<Rightarrow> u32 \<Rightarrow> mb_handler \<Rightarrow> mb_out result" where
  "mb_request_flush p hdr expiration h =
     (if expiration \<noteq> 0 then Inl (Runtime_error ''memcached binary protocol: invalid argument'')
      else let (e, h1) = new_entry hdr Mb_none h
           in Inr (send_response_nodata p e \<lparr>me_header = hdr, me_callback = Mb_none\<rparr> MEMPROTO_RES_NO_ERROR h1))"

text \<open>The callback of a call; the table has none for the other types.\<close>

definition mb_call :: "platform \<Rightarrow> gate_config \<Rightarrow> u32 \<Rightarrow> memproto_call \<Rightarrow> mb_handler \<Rightarrow> mb_out result" where
  "mb_call p cfg now c h =
     (case c of
        Call_get hdr key \<Rightarrow> mb_request_getx hdr key h
      | Call_set hdr key val fl expiration \<Rightarrow> mb_request_set p cfg now hdr key val fl expiration h
      | Call_delete hdr key expiration \<Rightarrow> mb_request_delete hdr key expiration h
      | Call_plain hdr \<Rightarrow> mb_request_noop p hdr h
      | Call_flush hdr expiration \<Rightarrow> mb_request_flush p hdr expiration h
      | Call_arith _ _ _ _ _ \<Rightarrow> Inl Undefined_behaviour
      | Call_concat _ _ _ \<Rightarrow> Inl Undefined_behaviour)"

section \<open>Reading\<close>

lemma new_entry_buffer: "new_entry hdr cb h = (e, h') \<Longrightarrow> mb_buffer h' = mb_buffer h"
  by (auto simp: new_entry_def Let_def)

lemma mb_send_buffer: "mb_send e vec h = (h', acts) \<Longrightarrow> mb_buffer h' = mb_buffer h"
  by (auto simp: mb_send_def split: prod.splits)

lemma mb_call_buffer: "mb_call p cfg now c h = Inr (h', acts) \<Longrightarrow> mb_buffer h' = mb_buffer h"
  by (cases c)
    (auto simp: mb_call_def mb_request_getx_def mb_request_set_def mb_request_delete_def mb_request_noop_def mb_request_flush_def
      send_response_nodata_def Let_def split: prod.splits if_splits dest!: new_entry_buffer mb_send_buffer)

lemma memproto_parser_execute_off:
  "memproto_parser_execute p data = (ret, off) \<Longrightarrow> \<not> ret \<le> 0 \<Longrightarrow> 0 < off \<and> off \<le> length data"
  by (auto simp: memproto_parser_execute_def MEMPROTO_HEADER_SIZE_def Let_def split: if_splits)

text \<open>
  The loop of \<open>read_event\<close>. What an iteration did before one that throws stays done.
\<close>

function mb_parse :: "platform \<Rightarrow> gate_config \<Rightarrow> u32 \<Rightarrow> mb_handler \<Rightarrow> kerror option \<times> mb_out" where
  "mb_parse p cfg now h =
     (let (ret, off) = memproto_parser_execute p (mb_buffer h)
      in if ret = 0 then (None, h, [])
         else if ret < 0 then (Some (Runtime_error ''parse error''), h, [])
         else let data = mb_buffer h; h1 = h\<lparr>mb_buffer := drop off data\<rparr>
              in case memproto_dispatch p mb_callbacks data of
                   Inl e \<Rightarrow> (Some e, h1, [])
                 | Inr (r, call) \<Rightarrow>
                     if r \<le> 0 then (Some (Runtime_error ''unknown command''), h1, [])
                     else case call of
                            None \<Rightarrow> (None, h1, [])
                          | Some c \<Rightarrow>
                              (case mb_call p cfg now c h1 of
                                 Inl e \<Rightarrow> (Some e, h1, [])
                               | Inr (h2, acts) \<Rightarrow>
                                   if mb_buffer h2 = [] then (None, h2, acts)
                                   else let (err, h3, acts') = mb_parse p cfg now h2 in (err, h3, acts @ acts')))"
  by pat_completeness auto
termination
proof (relation "measure (\<lambda>(p, cfg, now, h). length (mb_buffer h))", goal_cases)
  case (2 p cfg now h ex ret off data h1 rc r call c out h2 acts)
  have "mb_buffer h2 = drop off (mb_buffer h)" using mb_call_buffer [of p cfg now c h1 h2 acts] 2 by simp
  moreover have "0 < off \<and> off \<le> length (mb_buffer h)" using memproto_parser_execute_off [of p "mb_buffer h" ret off] 2 by simp
  ultimately show ?case by (auto intro: diff_less)
qed simp

declare mb_parse.simps [simp del]

text \<open>
  The results of \<open>read\<close>. The code keeps the result in a \<open>size_t\<close>: an error, minus one, is not
  found by its test for a negative number, and \<open>buffer_consumed\<close> then moves the end of the data
  back by one byte. With no data this goes in front of the buffer.
\<close>

datatype socket_read = Read_bytes bytes | Read_end | Read_failed

definition mb_read_event :: "platform \<Rightarrow> gate_config \<Rightarrow> u32 \<Rightarrow> socket_read \<Rightarrow> mb_handler \<Rightarrow> kerror option \<times> mb_out" where
  "mb_read_event p cfg now rd h =
     (case rd of
        Read_end \<Rightarrow> (Some (Runtime_error ''connection closed''), h, [])
      | Read_failed \<Rightarrow>
          (if mb_buffer h = [] then (Some Undefined_behaviour, h, [])
           else mb_parse p cfg now (h\<lparr>mb_buffer := butlast (mb_buffer h)\<rparr>))
      | Read_bytes bs \<Rightarrow> mb_parse p cfg now (h\<lparr>mb_buffer := mb_buffer h @ bs\<rparr>))"

section \<open>Results\<close>

definition mb_response_getx ::
    "platform \<Rightarrow> gate_config \<Rightarrow> u32 \<Rightarrow> nat \<Rightarrow> mb_entry \<Rightarrow> bool \<Rightarrow> bool \<Rightarrow> gate_res \<Rightarrow> mb_handler \<Rightarrow> mb_out" where
  "mb_response_getx p cfg now e en flag_key flag_quiet res h =
     (let miss = (if flag_quiet then send_response_nosend e h else send_response_nodata p e en MEMPROTO_RES_KEY_NOT_FOUND h)
      in case res of
           Res_get key hsh (Some val) ct \<Rightarrow>
             (if gc_save_exptime cfg \<and> length val < 4 then send_response_nodata p e en MEMPROTO_RES_KEY_NOT_FOUND h
              else if gc_save_exptime cfg \<and> item_expired now (get_exptime p val) then miss
              else let val1 = (if gc_save_exptime cfg then drop 4 val else val)
                   in if gc_save_flag cfg \<and> length val1 < 2 then miss
                      else send_response p e en MEMPROTO_RES_NO_ERROR (if flag_key then key else [])
                             (if gc_save_flag cfg then drop 2 val1 else val1)
                             (if gc_save_flag cfg then [0, 0] @ take 2 val1 else [0, 0, 0, 0]) ct h)
         | Res_get key hsh None ct \<Rightarrow> miss
         | _ \<Rightarrow> if flag_quiet then send_response_nosend e h else send_response_nodata p e en MEMPROTO_RES_OUT_OF_MEMORY h)"

definition mb_response_set :: "platform \<Rightarrow> nat \<Rightarrow> mb_entry \<Rightarrow> gate_res \<Rightarrow> mb_handler \<Rightarrow> mb_out" where
  "mb_response_set p e en res h =
     (case res of
        Res_set _ _ _ _ _ \<Rightarrow> send_response_nodata p e en MEMPROTO_RES_NO_ERROR h
      | _ \<Rightarrow> send_response_nodata p e en MEMPROTO_RES_OUT_OF_MEMORY h)"

definition mb_response_cas :: "platform \<Rightarrow> nat \<Rightarrow> mb_entry \<Rightarrow> gate_res \<Rightarrow> mb_handler \<Rightarrow> mb_out" where
  "mb_response_cas p e en res h =
     (case res of
        Res_set _ _ _ _ success \<Rightarrow>
          send_response_nodata p e en (if success then MEMPROTO_RES_NO_ERROR else MEMPROTO_RES_KEY_EXISTS) h
      | _ \<Rightarrow> send_response_nodata p e en MEMPROTO_RES_OUT_OF_MEMORY h)"

definition mb_response_delete :: "platform \<Rightarrow> nat \<Rightarrow> mb_entry \<Rightarrow> gate_res \<Rightarrow> mb_handler \<Rightarrow> mb_out" where
  "mb_response_delete p e en res h =
     (case res of
        Res_delete _ _ del \<Rightarrow> send_response_nodata p e en (if del then MEMPROTO_RES_NO_ERROR else MEMPROTO_RES_OUT_OF_MEMORY) h
      | _ \<Rightarrow> send_response_nodata p e en MEMPROTO_RES_INVALID_ARGUMENTS h)"

text \<open>The gateway calls the callback of the entry, which does nothing when the queue is not valid any more.\<close>

definition mb_response :: "platform \<Rightarrow> gate_config \<Rightarrow> u32 \<Rightarrow> nat \<Rightarrow> gate_res \<Rightarrow> mb_handler \<Rightarrow> mb_out" where
  "mb_response p cfg now e res h =
     (case mb_entries h e of
        None \<Rightarrow> (h, [])
      | Some en \<Rightarrow>
          if \<not> rq_valid (mb_queue h) then (h, [])
          else case me_callback en of
                 Mb_getx flag_key flag_quiet \<Rightarrow> mb_response_getx p cfg now e en flag_key flag_quiet res h
               | Mb_set \<Rightarrow> mb_response_set p e en res h
               | Mb_cas \<Rightarrow> mb_response_cas p e en res h
               | Mb_delete \<Rightarrow> mb_response_delete p e en res h
               | Mb_none \<Rightarrow> (h, []))"

end
