(* ===== verification/OrderedReplies.thy ===== *)
theory OrderedReplies
  imports Prelude
begin

text \<open>
  The contract of a queue that sends replies in the order of their requests. Requests are
  reply_slots; the state of all of them is a list that holds, at the number of a request, its reply
  once there is one. What has been sent are the replies in front of the first request without one.
\<close>

definition reply_slots :: "'v option list \<Rightarrow> (nat + 'v) list" where
  "reply_slots items = map (\<lambda>i. case items ! i of None \<Rightarrow> Inl i | Some v \<Rightarrow> Inr v) [0..<length items]"

definition isr :: "'a + 'v \<Rightarrow> bool" where
  "isr x \<longleftrightarrow> \<not> isl x"

lemma isr_simps [simp]: "isr (Inr v)" "\<not> isr (Inl e)"
  by (simp_all add: isr_def)

definition replies_sent :: "'v option list \<Rightarrow> 'v list" where
  "replies_sent items = map projr (takeWhile isr (reply_slots items))"

definition unsent :: "'v option list \<Rightarrow> (nat + 'v) list" where
  "unsent items = dropWhile isr (reply_slots items)"

lemma length_reply_slots [simp]: "length (reply_slots items) = length items"
  by (simp add: reply_slots_def)

lemma reply_slots_nth: "i < length items \<Longrightarrow> reply_slots items ! i = (case items ! i of None \<Rightarrow> Inl i | Some v \<Rightarrow> Inr v)"
  by (cases "items ! i") (simp_all add: reply_slots_def)

lemma reply_slots_snoc: "reply_slots (items @ [x]) = reply_slots items @ [case x of None \<Rightarrow> Inl (length items) | Some v \<Rightarrow> Inr v]"
  by (simp add: reply_slots_def nth_append cong: map_cong)

lemma reply_slots_update: "e < length items \<Longrightarrow> reply_slots (items[e := Some v]) = (reply_slots items)[e := Inr v]"
  by (rule nth_equalityI) (auto simp: reply_slots_nth nth_list_update)

lemma reply_slots_Inl: "Inl e \<in> set (reply_slots items) \<longleftrightarrow> e < length items \<and> items ! e = None"
  by (auto simp: reply_slots_def split: option.splits)

lemma replies_sent_take: "replies_sent items = map the (takeWhile (\<lambda>x. x \<noteq> None) items)"
proof -
  let ?f = "\<lambda>i. case items ! i of None \<Rightarrow> Inl i | Some v \<Rightarrow> Inr v"
  have f: "isr (?f i) \<longleftrightarrow> items ! i \<noteq> None" for i by (cases "items ! i") simp_all
  have "takeWhile (\<lambda>x. x \<noteq> None) items = takeWhile (\<lambda>x. x \<noteq> None) (map ((!) items) [0..<length items])"
    by (simp only: map_nth)
  then have t: "takeWhile (\<lambda>x. x \<noteq> None) items = map ((!) items) (takeWhile (\<lambda>i. items ! i \<noteq> None) [0..<length items])"
    by (simp only: takeWhile_map o_def)
  have s: "takeWhile isr (reply_slots items) = map ?f (takeWhile (\<lambda>i. items ! i \<noteq> None) [0..<length items])"
    by (simp only: reply_slots_def takeWhile_map o_def f)
  show ?thesis
    unfolding replies_sent_def t s by (auto dest: set_takeWhileD split: option.splits)
qed

lemma unsent_snoc_None: "unsent (items @ [None]) = unsent items @ [Inl (length items)]"
  by (simp add: unsent_def reply_slots_snoc dropWhile_append3 dropWhile_append2 dropWhile_append1 dropWhile_append)

lemma replies_sent_snoc_None: "replies_sent (items @ [None]) = replies_sent items"
  by (cases "\<forall>y \<in> set (reply_slots items). isr y")
    (auto simp: replies_sent_def reply_slots_snoc takeWhile_append1 takeWhile_append2 takeWhile_eq_all_conv [THEN iffD2])

lemma unsent_Inl: "Inl e \<in> set (unsent items) \<longleftrightarrow> e < length items \<and> items ! e = None"
proof
  show "Inl e \<in> set (unsent items) \<Longrightarrow> e < length items \<and> items ! e = None"
    unfolding unsent_def by (auto dest!: set_dropWhileD simp: reply_slots_Inl)
  assume "e < length items \<and> items ! e = None"
  then have "Inl e \<in> set (takeWhile isr (reply_slots items) @ dropWhile isr (reply_slots items))" by (simp add: reply_slots_Inl)
  moreover have "Inl e \<notin> set (takeWhile isr (reply_slots items))" by (auto dest: set_takeWhileD)
  ultimately show "Inl e \<in> set (unsent items)" unfolding unsent_def set_append by blast
qed

text \<open>A queue of replies: what it has to do, and what it is asked.\<close>

locale ordered_replies =
  fixes push :: "nat \<Rightarrow> 'q \<Rightarrow> 'q"
    and answer :: "nat \<Rightarrow> 'v \<Rightarrow> 'q \<Rightarrow> 'v list \<times> 'q"
    and view :: "'q \<Rightarrow> (nat + 'v) list"
    and shown :: "'v \<Rightarrow> bool"
  assumes view_push: "view (push e q) = view q @ [Inl e]"
    and answer_unknown: "Inl e \<notin> set (view q) \<Longrightarrow> answer e v q = ([], q)"
    and answer_known: "view q = xs @ Inl e # ys \<Longrightarrow> Inl e \<notin> set xs \<Longrightarrow>
          fst (answer e v q) = filter shown (map projr (takeWhile isr (xs @ Inr v # ys))) \<and>
          view (snd (answer e v q)) = dropWhile isr (xs @ Inr v # ys)"
begin

lemma push_next:
  assumes "view q = unsent items"
  shows "view (push (length items) q) = unsent (items @ [None])"
  by (simp add: view_push assms unsent_snoc_None)

lemma answer_late:
  assumes "view q = unsent items" "\<not> (e < length items \<and> items ! e = None)"
  shows "answer e v q = ([], q)"
  by (rule answer_unknown) (use assms unsent_Inl [of e items] in auto)

lemma answer_next:
  assumes view: "view q = unsent items" and e: "e < length items" "items ! e = None"
  shows "view (snd (answer e v q)) = unsent (items[e := Some v])"
    and "filter shown (replies_sent (items[e := Some v])) = filter shown (replies_sent items) @ fst (answer e v q)"
proof -
  let ?n = "reply_slots items" and ?pre = "takeWhile isr (reply_slots items)"
  have pre: "\<forall>x \<in> set ?pre. isr x" by (auto dest: set_takeWhileD)
  have ne: "\<not> isr (?n ! e)" using e by (simp add: reply_slots_nth)
  have "length ?pre \<le> e"
  proof (rule ccontr)
    assume "\<not> length ?pre \<le> e"
    then have "?pre ! e = ?n ! e" "?pre ! e \<in> set ?pre" using nth_mem [of e ?pre] by (simp_all add: takeWhile_nth)
    with pre ne show False by metis
  qed
  then obtain k where k: "e = length ?pre + k" by (metis le_Suc_ex)
  let ?d = "dropWhile isr ?n"
  have split: "?n = ?pre @ ?d" by simp
  have kd: "k < length ?d" "?d ! k = Inl e"
  proof -
    have "length ?n = length ?pre + length ?d" by (metis split length_append)
    then show "k < length ?d" using e(1) k by simp
    have "?n ! e = ?d ! k" by (subst split) (simp add: nth_append k del: takeWhile_dropWhile_id)
    then show "?d ! k = Inl e" using e by (simp add: reply_slots_nth)
  qed
  define xs where "xs = take k ?d"
  define ys where "ys = drop (Suc k) ?d"
  have d: "?d = xs @ Inl e # ys" using id_take_nth_drop [OF kd(1)] kd(2) by (simp add: xs_def ys_def)
  have xs: "Inl e \<notin> set xs"
  proof
    assume "Inl e \<in> set xs"
    then obtain j where j: "j < k" "?d ! j = Inl e" "j < length ?d" using kd(1) by (auto simp: xs_def in_set_conv_nth)
    have "?n ! (length ?pre + j) = Inl e" by (subst split) (simp add: nth_append j(2) del: takeWhile_dropWhile_id)
    moreover have "length ?pre + j < length items" using j(1) k e(1) by simp
    ultimately show False using j(1) k by (simp add: reply_slots_nth split: option.splits)
  qed
  have new: "reply_slots (items[e := Some v]) = ?pre @ xs @ Inr v # ys"
  proof -
    have "reply_slots (items[e := Some v]) = (?pre @ ?d)[e := Inr v]" using e(1) by (simp add: reply_slots_update)
    also have "\<dots> = ?pre @ ?d[k := Inr v]" by (simp add: k list_update_append del: takeWhile_dropWhile_id)
    also have "?d[k := Inr v] = xs @ Inr v # ys" using kd(1) by (simp add: xs_def ys_def upd_conv_take_nth_drop)
    finally show ?thesis .
  qed
  have q: "view q = xs @ Inl e # ys" using view d by (simp add: unsent_def)
  note law = answer_known [OF q xs, of v]
  show "view (snd (answer e v q)) = unsent (items[e := Some v])"
    using law pre by (simp add: unsent_def new dropWhile_append2)
  show "filter shown (replies_sent (items[e := Some v])) = filter shown (replies_sent items) @ fst (answer e v q)"
    using law pre by (simp add: replies_sent_def new takeWhile_append2)
qed

end

end
