(* ===== verification/MemcacheBinaryTheorems.thy ===== *)
theory MemcacheBinaryTheorems
  imports MemcacheBinary OrderedReplies
begin

text \<open>
  The properties of the binary front end: its replies are in the order of the requests, each
  request gets one, and what the frames carry survives the way there and back.
\<close>

section \<open>The response queue keeps the order\<close>

definition rq_view :: "response_queue \<Rightarrow> (nat + bytes list) list" where
  "rq_view q = map (\<lambda>x. case el_e x of Some e \<Rightarrow> Inl e | None \<Rightarrow> Inr (el_vec x)) (rq_queue q)"

lemma send_filled_eq:
  "send_filled xs = (filter (\<lambda>v. v \<noteq> []) (map el_vec (takeWhile is_filled xs)), dropWhile is_filled xs)"
  by (induction xs) auto

lemma view_filled:
  fixes xs :: "element_t list"
  defines "f \<equiv> (\<lambda>x :: element_t. case el_e x of Some e \<Rightarrow> Inl e | None \<Rightarrow> Inr (el_vec x))"
  shows "map projr (takeWhile isr (map f xs)) = map el_vec (takeWhile is_filled xs)"
    and "dropWhile isr (map f xs) = map f (dropWhile is_filled xs)"
proof -
  have f: "isr (f x) \<longleftrightarrow> is_filled x" for x by (simp add: f_def is_filled_def split: option.splits)
  have p: "is_filled x \<Longrightarrow> projr (f x) = el_vec x" for x by (simp add: f_def is_filled_def)
  show "dropWhile isr (map f xs) = map f (dropWhile is_filled xs)" by (simp add: dropWhile_map o_def f)
  show "map projr (takeWhile isr (map f xs)) = map el_vec (takeWhile is_filled xs)"
    by (auto simp: takeWhile_map o_def f p dest: set_takeWhileD)
qed

lemma find_index_split:
  "map f xs = as @ z # bs \<Longrightarrow> (\<And>x. P x \<longleftrightarrow> f x = z) \<Longrightarrow> z \<notin> set as \<Longrightarrow> find_index P xs = length as"
proof (induction as arbitrary: xs)
  case Nil
  then show ?case by (cases xs) auto
next
  case (Cons a as)
  then show ?case by (cases xs) auto
qed

interpretation rq: ordered_replies push_entry reached_try_send rq_view "\<lambda>v. v \<noteq> []"
proof
  let ?f = "\<lambda>x :: element_t. case el_e x of Some e \<Rightarrow> Inl e | None \<Rightarrow> Inr (el_vec x)"
  have P: "el_e x = Some e \<longleftrightarrow> ?f x = Inl e" for x e by (cases "el_e x") auto
  fix e q and v :: "bytes list"
  show "rq_view (push_entry e q) = rq_view q @ [Inl e]" by (simp add: rq_view_def push_entry_def)
  show "reached_try_send e v q = ([], q)" if unknown: "Inl e \<notin> set (rq_view q)"
  proof -
    have "el_e x \<noteq> Some e" if x: "x \<in> set (rq_queue q)" for x
      using imageI [OF x, of ?f] unknown unfolding rq_view_def set_map P by metis
    then have "\<not> find_index (\<lambda>x. el_e x = Some e) (rq_queue q) < length (rq_queue q)" by (simp add: find_index_less_iff)
    then have "find_index (\<lambda>x. el_e x = Some e) (rq_queue q) = length (rq_queue q)"
      using find_index_le [of "\<lambda>x. el_e x = Some e" "rq_queue q"] by simp
    then show ?thesis by (simp add: reached_try_send_def)
  qed
  fix xs ys assume q: "rq_view q = xs @ Inl e # ys" and xs: "Inl e \<notin> set xs"
  have i: "find_index (\<lambda>x. el_e x = Some e) (rq_queue q) = length xs"
    by (rule find_index_split [OF q [unfolded rq_view_def]]) (use P xs in auto)
  have l: "length xs < length (rq_queue q)" using arg_cong [OF q, of length] by (simp add: rq_view_def)
  let ?new = "(rq_queue q)[length xs := \<lparr>el_e = None, el_vec = v\<rparr>]"
  have "map ?f ?new = (rq_view q)[length xs := Inr v]" by (simp add: rq_view_def map_update)
  then have new: "map ?f ?new = xs @ Inr v # ys" by (simp add: q)
  show "fst (reached_try_send e v q) = filter (\<lambda>v. v \<noteq> []) (map projr (takeWhile isr (xs @ Inr v # ys))) \<and>
      rq_view (snd (reached_try_send e v q)) = dropWhile isr (xs @ Inr v # ys)"
    using l by (simp add: reached_try_send_def i send_filled_eq rq_view_def new [symmetric] view_filled Let_def)
qed

section \<open>Replies\<close>

text \<open>The vector that answers an entry.\<close>

definition status_vec :: "platform \<Rightarrow> mb_entry \<Rightarrow> u8 \<Rightarrow> bytes list" where
  "status_vec p en status = [pack_header p (ucast status) (mh_opcode (me_header en)) 0 0 0 (mh_opaque (me_header en)) 0]"

definition mb_reply_getx :: "platform \<Rightarrow> gate_config \<Rightarrow> u32 \<Rightarrow> mb_entry \<Rightarrow> bool \<Rightarrow> bool \<Rightarrow> gate_res \<Rightarrow> bytes list" where
  "mb_reply_getx p cfg now en flag_key flag_quiet res =
     (let miss = (if flag_quiet then [] else status_vec p en MEMPROTO_RES_KEY_NOT_FOUND)
      in case res of
           Res_get key hsh (Some val) ct \<Rightarrow>
             (if gc_save_exptime cfg \<and> length val < 4 then status_vec p en MEMPROTO_RES_KEY_NOT_FOUND
              else if gc_save_exptime cfg \<and> item_expired now (get_exptime p val) then miss
              else let val1 = (if gc_save_exptime cfg then drop 4 val else val)
                   in if gc_save_flag cfg \<and> length val1 < 2 then miss
                      else response_vec p MEMPROTO_RES_NO_ERROR (me_header en) (if flag_key then key else [])
                             (if gc_save_flag cfg then drop 2 val1 else val1)
                             (if gc_save_flag cfg then [0, 0] @ take 2 val1 else [0, 0, 0, 0]) ct)
         | Res_get key hsh None ct \<Rightarrow> miss
         | _ \<Rightarrow> if flag_quiet then [] else status_vec p en MEMPROTO_RES_OUT_OF_MEMORY)"

definition mb_reply :: "platform \<Rightarrow> gate_config \<Rightarrow> u32 \<Rightarrow> mb_entry \<Rightarrow> gate_res \<Rightarrow> bytes list" where
  "mb_reply p cfg now en res =
     (case me_callback en of
        Mb_getx flag_key flag_quiet \<Rightarrow> mb_reply_getx p cfg now en flag_key flag_quiet res
      | Mb_delete \<Rightarrow>
          status_vec p en (case res of Res_delete _ _ del \<Rightarrow> if del then MEMPROTO_RES_NO_ERROR else MEMPROTO_RES_OUT_OF_MEMORY
                           | _ \<Rightarrow> MEMPROTO_RES_INVALID_ARGUMENTS)
      | Mb_cas \<Rightarrow>
          status_vec p en (case res of Res_set _ _ _ _ success \<Rightarrow> if success then MEMPROTO_RES_NO_ERROR else MEMPROTO_RES_KEY_EXISTS
                           | _ \<Rightarrow> MEMPROTO_RES_OUT_OF_MEMORY)
      | _ \<Rightarrow> status_vec p en (case res of Res_set _ _ _ _ _ \<Rightarrow> MEMPROTO_RES_NO_ERROR | _ \<Rightarrow> MEMPROTO_RES_OUT_OF_MEMORY))"

lemma mb_response_reply:
  assumes "mb_entries h e = Some en" "me_callback en \<noteq> Mb_none" "rq_valid (mb_queue h)"
  shows "mb_response p cfg now e res h = mb_send e (mb_reply p cfg now en res) h"
  using assms
  by (cases "me_callback en"; cases res)
    (auto simp: mb_response_def mb_reply_def mb_reply_getx_def mb_response_getx_def mb_response_set_def mb_response_cas_def
      mb_response_delete_def send_response_nodata_def send_response_nosend_def send_response_def status_vec_def Let_def
      split: option.splits)

section \<open>A connection\<close>

text \<open>
  What happens on a connection: the socket is readable, or the gateway delivers a result. When
  the handler throws, the event loop drops it.
\<close>

datatype mb_event = Mb_read u32 socket_read | Mb_result u32 nat gate_res

fun mb_apply :: "platform \<Rightarrow> gate_config \<Rightarrow> mb_event \<Rightarrow> mb_handler \<Rightarrow> mb_out" where
  "mb_apply p cfg (Mb_read now rd) h =
     (if rq_valid (mb_queue h) then
        (case mb_read_event p cfg now rd h of (None, out) \<Rightarrow> out | (Some e, h', acts) \<Rightarrow> (mb_handler_delete h', acts))
      else (h, []))"
| "mb_apply p cfg (Mb_result now e res) h = mb_response p cfg now e res h"

text \<open>The gateway delivers results to entries that were submitted.\<close>

fun mb_legal :: "mb_event \<Rightarrow> mb_handler \<Rightarrow> bool" where
  "mb_legal (Mb_read now rd) h \<longleftrightarrow> True"
| "mb_legal (Mb_result now e res) h \<longleftrightarrow> (\<exists>en. mb_entries h e = Some en \<and> me_callback en \<noteq> Mb_none)"

inductive mb_steps :: "platform \<Rightarrow> gate_config \<Rightarrow> mb_event list \<Rightarrow> mb_handler \<Rightarrow> front_action list \<Rightarrow> bool"
  for p cfg where
  mb_start: "mb_steps p cfg [] mb_handler_new []"
| mb_more: "mb_steps p cfg evs h acts \<Longrightarrow> mb_legal ev h \<Longrightarrow> mb_apply p cfg ev h = (h', acts') \<Longrightarrow>
    mb_steps p cfg (evs @ [ev]) h' (acts @ acts')"

fun write_of :: "front_action \<Rightarrow> bytes list list" where
  "write_of (F_write v) = [v]"
| "write_of _ = []"

fun user_of :: "front_action \<Rightarrow> nat list" where
  "user_of (F_get r) = [rg_user r]"
| "user_of (F_set r) = [rs_user r]"
| "user_of (F_delete r) = [rd_user r]"
| "user_of (F_write v) = []"

abbreviation writes :: "front_action list \<Rightarrow> bytes list list" where
  "writes acts \<equiv> concat (map write_of acts)"

abbreviation users :: "front_action list \<Rightarrow> nat list" where
  "users acts \<equiv> concat (map user_of acts)"

lemma write_of_map [simp]:
  "writes (map F_write ws) = ws" "users (map F_write ws) = []"
  "concat (map (write_of \<circ> F_write) ws) = ws" "concat (map (user_of \<circ> F_write) ws) = []"
  by (induction ws) auto

text \<open>
  \<open>items\<close> holds the replies by the number of their entry. An entry without a callback was
  acknowledged at once; another has a reply when a result for it was delivered, the reply to that.
\<close>

definition item_ok :: "platform \<Rightarrow> gate_config \<Rightarrow> mb_event list \<Rightarrow> bool \<Rightarrow> nat \<Rightarrow> mb_entry \<Rightarrow> bytes list option \<Rightarrow> bool" where
  "item_ok p cfg evs valid e en item \<longleftrightarrow>
     (case item of
        None \<Rightarrow> me_callback en \<noteq> Mb_none \<and> (valid \<longrightarrow> (\<forall>now res. Mb_result now e res \<notin> set evs))
      | Some v \<Rightarrow> if me_callback en = Mb_none then v = status_vec p en MEMPROTO_RES_NO_ERROR
                  else \<exists>now res. Mb_result now e res \<in> set evs \<and> v = mb_reply p cfg now en res)"

definition mb_rel :: "platform \<Rightarrow> gate_config \<Rightarrow> mb_event list \<Rightarrow> mb_handler \<Rightarrow> front_action list \<Rightarrow> bytes list option list \<Rightarrow> bool" where
  "mb_rel p cfg evs h acts items \<longleftrightarrow>
     length items = mb_next h \<and>
     (rq_valid (mb_queue h) \<longrightarrow> rq_view (mb_queue h) = unsent items) \<and>
     writes acts = filter (\<lambda>v. v \<noteq> []) (replies_sent items) \<and>
     (\<forall>e < mb_next h. \<exists>en. mb_entries h e = Some en \<and> item_ok p cfg evs (rq_valid (mb_queue h)) e en (items ! e)) \<and>
     (\<forall>e \<ge> mb_next h. mb_entries h e = None) \<and>
     (\<forall>now e res. Mb_result now e res \<in> set evs \<longrightarrow> e < mb_next h) \<and>
     users acts = filter (\<lambda>e. me_callback (the (mb_entries h e)) \<noteq> Mb_none) [0..<mb_next h]"

definition mb_live :: "platform \<Rightarrow> gate_config \<Rightarrow> mb_event list \<Rightarrow> mb_handler \<Rightarrow> front_action list \<Rightarrow> bool" where
  "mb_live p cfg evs h acts \<longleftrightarrow> rq_valid (mb_queue h) \<and> (\<exists>items. mb_rel p cfg evs h acts items)"

lemma mb_rel_past: "mb_rel p cfg evs h acts items \<Longrightarrow> Mb_result now e res \<in> set evs \<Longrightarrow> e < mb_next h"
  unfolding mb_rel_def by blast

lemma mb_rel_item:
  "mb_rel p cfg evs h acts items \<Longrightarrow> e < mb_next h \<Longrightarrow>
   \<exists>en. mb_entries h e = Some en \<and> item_ok p cfg evs (rq_valid (mb_queue h)) e en (items ! e)"
  unfolding mb_rel_def by blast

lemma mb_rel_intro:
  assumes "length items = mb_next h" "rq_valid (mb_queue h) \<Longrightarrow> rq_view (mb_queue h) = unsent items"
    "writes acts = filter (\<lambda>v. v \<noteq> []) (replies_sent items)"
    "\<And>e. e < mb_next h \<Longrightarrow> \<exists>en. mb_entries h e = Some en \<and> item_ok p cfg evs (rq_valid (mb_queue h)) e en (items ! e)"
    "\<And>e. mb_next h \<le> e \<Longrightarrow> mb_entries h e = None"
    "\<And>now e res. Mb_result now e res \<in> set evs \<Longrightarrow> e < mb_next h"
    "users acts = filter (\<lambda>e. me_callback (the (mb_entries h e)) \<noteq> Mb_none) [0..<mb_next h]"
  shows "mb_rel p cfg evs h acts items"
  using assms unfolding mb_rel_def by blast

lemma mb_rel_entry:
  assumes rel: "mb_rel p cfg evs h acts items" and valid: "rq_valid (mb_queue h)"
    and new: "new_entry hdr cb h = (e, h')"
  shows "e = mb_next h" "e = length items" "rq_valid (mb_queue h')" "mb_next h' = Suc e" "mb_entries h' e = Some \<lparr>me_header = hdr, me_callback = cb\<rparr>"
    "rq_view (mb_queue h') = unsent (items @ [None])"
    "\<forall>i < e. mb_entries h' i = mb_entries h i" "\<forall>i > e. mb_entries h' i = None"
    "filter (\<lambda>e. me_callback (the (mb_entries h' e)) \<noteq> Mb_none) [0..<Suc e] = users acts @ (if cb = Mb_none then [] else [e])"
proof -
  have e: "e = mb_next h" and h': "h' = h\<lparr>mb_entries := (mb_entries h)(e \<mapsto> \<lparr>me_header = hdr, me_callback = cb\<rparr>), mb_next := Suc e,
               mb_queue := push_entry e (mb_queue h)\<rparr>"
    using new by (auto simp: new_entry_def Let_def)
  have len: "length items = mb_next h" using rel by (simp add: mb_rel_def)
  show "e = mb_next h" "e = length items" using e len by simp_all
  show "rq_valid (mb_queue h')" using valid by (simp add: h' push_entry_def)
  show "mb_next h' = Suc e" "mb_entries h' e = Some \<lparr>me_header = hdr, me_callback = cb\<rparr>" by (simp_all add: h')
  show "rq_view (mb_queue h') = unsent (items @ [None])"
    using rq.push_next [of "mb_queue h" items] rel valid len e by (simp add: h' mb_rel_def)
  show "\<forall>i < e. mb_entries h' i = mb_entries h i" "\<forall>i > e. mb_entries h' i = None"
    using rel e by (auto simp: h' mb_rel_def)
  have "filter (\<lambda>i. me_callback (the (mb_entries h' i)) \<noteq> Mb_none) [0..<e] = filter (\<lambda>i. me_callback (the (mb_entries h i)) \<noteq> Mb_none) [0..<e]"
    by (rule filter_cong) (auto simp: h')
  then show "filter (\<lambda>e. me_callback (the (mb_entries h' e)) \<noteq> Mb_none) [0..<Suc e] = users acts @ (if cb = Mb_none then [] else [e])"
    using rel e by (simp add: h' mb_rel_def)
qed

lemma item_ok_frame:
  "item_ok p cfg evs valid e en item \<Longrightarrow> valid' \<longrightarrow> valid \<Longrightarrow> item_ok p cfg evs valid' e en item"
  by (auto simp: item_ok_def split: option.splits)

text \<open>A request that waits for the gateway, and one that is acknowledged at once.\<close>

lemma mb_rel_submit:
  assumes rel: "mb_rel p cfg evs h acts items" and valid: "rq_valid (mb_queue h)"
    and new: "new_entry hdr cb h = (e, h')" and cb: "cb \<noteq> Mb_none" and a: "user_of a = [e]" "write_of a = []"
  shows "mb_live p cfg evs h' (acts @ [a])"
proof -
  note n = mb_rel_entry [OF rel valid new]
  have "mb_rel p cfg evs h' (acts @ [a]) (items @ [None])"
  proof (rule mb_rel_intro)
    show "length (items @ [None]) = mb_next h'" using n(2,4) by simp
    show "rq_view (mb_queue h') = unsent (items @ [None])" by (rule n(6))
    show "writes (acts @ [a]) = filter (\<lambda>v. v \<noteq> []) (replies_sent (items @ [None]))"
      using rel a by (simp add: mb_rel_def replies_sent_snoc_None)
    show "users (acts @ [a]) = filter (\<lambda>e. me_callback (the (mb_entries h' e)) \<noteq> Mb_none) [0..<mb_next h']"
      using n(9) a cb unfolding n(4) by simp
    show "i < mb_next h'" if "Mb_result now i res \<in> set evs" for now i res
      using mb_rel_past [OF rel that] n(1,4) by simp
    show "mb_entries h' i = None" if "mb_next h' \<le> i" for i using n(4,8) that by auto
    fix i assume i: "i < mb_next h'"
    show "\<exists>en. mb_entries h' i = Some en \<and> item_ok p cfg evs (rq_valid (mb_queue h')) i en ((items @ [None]) ! i)"
    proof (cases "i = e")
      case True
      then show ?thesis using n(2,5) cb mb_rel_past [OF rel] n(1) by (auto simp: item_ok_def nth_append)
    next
      case False
      then have "i < e" "i < mb_next h" using i n(1,4) by simp_all
      then show ?thesis using mb_rel_item [OF rel, of i] n(2,3,7) valid by (simp add: nth_append)
    qed
  qed
  with n(3) show ?thesis by (auto simp: mb_live_def)
qed

lemma reached_valid: "reached_try_send e v q = (ws, q') \<Longrightarrow> rq_valid q' = rq_valid q"
  by (auto simp: reached_try_send_def Let_def split: if_splits prod.splits)

lemma mb_rel_ack:
  assumes rel: "mb_rel p cfg evs h acts items" and valid: "rq_valid (mb_queue h)"
    and new: "new_entry hdr Mb_none h = (e, h1)"
    and ack: "send_response_nodata p e \<lparr>me_header = hdr, me_callback = Mb_none\<rparr> MEMPROTO_RES_NO_ERROR h1 = (h', acts')"
  shows "mb_live p cfg evs h' (acts @ acts')"
proof -
  let ?v = "status_vec p \<lparr>me_header = hdr, me_callback = Mb_none\<rparr> MEMPROTO_RES_NO_ERROR"
  note n = mb_rel_entry [OF rel valid new]
  obtain ws q where wq: "reached_try_send e ?v (mb_queue h1) = (ws, q)" by fastforce
  then have h': "h' = h1\<lparr>mb_queue := q\<rparr>" "acts' = map F_write ws"
    using ack by (simp_all add: mb_send_def send_response_nodata_def status_vec_def)
  have up: "(items @ [None])[e := Some ?v] = items @ [Some ?v]" using n(2) by simp
  have el: "e < length (items @ [None])" "(items @ [None]) ! e = None" using n(2) by simp_all
  note ans = rq.answer_next [OF n(6) el, of ?v, unfolded up replies_sent_snoc_None wq fst_conv snd_conv]
  have q: "rq_valid q" using n(3) reached_valid [OF wq] by simp
  have "mb_rel p cfg evs h' (acts @ acts') (items @ [Some ?v])"
  proof (rule mb_rel_intro)
    show "length (items @ [Some ?v]) = mb_next h'" using n(2,4) by (simp add: h')
    show "rq_view (mb_queue h') = unsent (items @ [Some ?v])" using ans(1) by (simp add: h')
    show "writes (acts @ acts') = filter (\<lambda>v. v \<noteq> []) (replies_sent (items @ [Some ?v]))"
      using rel ans(2) by (simp add: mb_rel_def h')
    show "users (acts @ acts') = filter (\<lambda>e. me_callback (the (mb_entries h' e)) \<noteq> Mb_none) [0..<mb_next h']"
      using n(9) unfolding n(4) by (simp add: h' n(4))
    show "i < mb_next h'" if "Mb_result now i res \<in> set evs" for now i res
      using mb_rel_past [OF rel that] n(1,4) by (simp add: h')
    show "mb_entries h' i = None" if "mb_next h' \<le> i" for i using n(4,8) that by (auto simp: h')
    fix i assume i: "i < mb_next h'"
    show "\<exists>en. mb_entries h' i = Some en \<and> item_ok p cfg evs (rq_valid (mb_queue h')) i en ((items @ [Some ?v]) ! i)"
    proof (cases "i = e")
      case True
      then show ?thesis using n(2,5) by (simp add: h' item_ok_def nth_append)
    next
      case False
      then have "i < e" "i < mb_next h" using i n(1,4) by (simp_all add: h')
      then show ?thesis using mb_rel_item [OF rel, of i] n(2,7) valid q by (simp add: nth_append h')
    qed
  qed
  with q show ?thesis by (auto simp: mb_live_def h')
qed

lemma mb_rel_call:
  assumes live: "mb_live p cfg evs h acts" and call: "mb_call p cfg now c h = Inr (h', acts')"
  shows "mb_live p cfg evs h' (acts @ acts')"
proof -
  obtain items where rel: "mb_rel p cfg evs h acts items" and valid: "rq_valid (mb_queue h)"
    using live by (auto simp: mb_live_def)
  note submit = mb_rel_submit [OF rel valid] and ack = mb_rel_ack [OF rel valid]
  show ?thesis
  proof (cases c)
    case (Call_get hdr key)
    with call show ?thesis
      by (auto simp: mb_call_def mb_request_getx_def Let_def split: prod.splits intro!: submit)
  next
    case (Call_set hdr key val fl ex)
    with call show ?thesis
      by (auto simp: mb_call_def mb_request_set_def Let_def split: prod.splits if_splits intro!: submit)
  next
    case (Call_delete hdr key ex)
    with call show ?thesis
      by (auto simp: mb_call_def mb_request_delete_def Let_def split: prod.splits if_splits intro!: submit)
  next
    case (Call_flush hdr ex)
    with call show ?thesis
      by (auto simp: mb_call_def mb_request_flush_def Let_def split: prod.splits if_splits intro!: ack)
  next
    case (Call_plain hdr)
    with call show ?thesis
      by (auto simp: mb_call_def mb_request_noop_def Let_def split: prod.splits if_splits intro!: ack)
  qed (use call in \<open>simp_all add: mb_call_def\<close>)
qed

lemma mb_live_buffer [simp]: "mb_live p cfg evs (h\<lparr>mb_buffer := b\<rparr>) acts \<longleftrightarrow> mb_live p cfg evs h acts"
  by (simp add: mb_live_def mb_rel_def)

lemma mb_live_parse:
  "mb_live p cfg evs h acts \<Longrightarrow> mb_parse p cfg now h = (err, h', acts') \<Longrightarrow> mb_live p cfg evs h' (acts @ acts')"
proof (induction p cfg now h arbitrary: err h' acts acts' rule: mb_parse.induct)
  case (1 p cfg now h)
  obtain ret off where x: "memproto_parser_execute p (mb_buffer h) = (ret, off)" by fastforce
  let ?h1 = "h\<lparr>mb_buffer := drop off (mb_buffer h)\<rparr>"
  show ?case
  proof (cases "0 < ret \<and> (\<exists>r c h2 acts2. memproto_dispatch p mb_callbacks (mb_buffer h) = Inr (r, Some c) \<and> 0 < r \<and>
      mb_call p cfg now c ?h1 = Inr (h2, acts2))")
    case False
    then have "(h' = h \<or> h' = ?h1) \<and> acts' = []"
      using 1(3) x by (subst (asm) mb_parse.simps) (auto simp: Let_def split: sum.splits prod.splits option.splits if_splits)
    with 1(2) show ?thesis by auto
  next
    case True
    then obtain r c h2 acts2 where ret: "0 < ret" and d: "memproto_dispatch p mb_callbacks (mb_buffer h) = Inr (r, Some c)" "0 < r"
      "mb_call p cfg now c ?h1 = Inr (h2, acts2)" by blast
    have live2: "mb_live p cfg evs h2 (acts @ acts2)" using mb_rel_call [OF _ d(3)] 1(2) by simp
    obtain err3 h3 acts3 where rest: "mb_parse p cfg now h2 = (err3, h3, acts3)" by (metis prod_cases3)
    have step: "mb_parse p cfg now h = (if mb_buffer h2 = [] then (None, h2, acts2) else (err3, h3, acts2 @ acts3))"
      using x ret d rest by (subst mb_parse.simps) (simp add: Let_def)
    show ?thesis
    proof (cases "mb_buffer h2 = []")
      case True
      with step 1(3) live2 show ?thesis by auto
    next
      case False
      have "mb_live p cfg evs h3 ((acts @ acts2) @ acts3)"
        by (rule 1(1) [OF x [symmetric] refl _ _ refl refl d(1) refl _ refl d(3) refl False live2 rest]) (use ret d(2) in simp_all)
      with step 1(3) False show ?thesis by auto
    qed
  qed
qed

lemma item_ok_result:
  assumes "item_ok p cfg evs v i en x" "i \<noteq> e \<or> x \<noteq> None \<or> \<not> v"
  shows "item_ok p cfg (evs @ [Mb_result now e res]) v i en x"
proof (cases x)
  case None
  with assms show ?thesis by (auto simp: item_ok_def)
next
  case (Some y)
  with assms(1) show ?thesis by (simp add: item_ok_def split: if_splits) blast
qed

lemma item_ok_read [simp]: "item_ok p cfg (evs @ [Mb_read now rd]) v i en x \<longleftrightarrow> item_ok p cfg evs v i en x"
  by (cases x) (simp_all add: item_ok_def)

lemma mb_rel_read: "mb_rel p cfg evs h acts items \<Longrightarrow> mb_rel p cfg (evs @ [Mb_read now rd]) h acts items"
  by (simp add: mb_rel_def)

text \<open>A result for an entry that waits, and one for an entry that has its reply.\<close>

lemma mb_rel_result:
  assumes rel: "mb_rel p cfg evs h acts items" and en: "mb_entries h e = Some en" "me_callback en \<noteq> Mb_none"
    and out: "mb_response p cfg now e res h = (h', acts')"
  shows "\<exists>items'. mb_rel p cfg (evs @ [Mb_result now e res]) h' (acts @ acts') items'"
proof -
  have e: "e < mb_next h" using rel en(1) by (metis mb_rel_def not_le option.distinct(1))
  have len: "length items = mb_next h" using rel by (simp add: mb_rel_def)
  let ?evs = "evs @ [Mb_result now e res]"
  have past: "i < mb_next h" if "Mb_result n i r \<in> set ?evs" for n i r
    using that mb_rel_past [OF rel] e by auto
  have item: "item_ok p cfg evs (rq_valid (mb_queue h)) i en' (items ! i)" if "i < mb_next h" "mb_entries h i = Some en'" for i en'
    using mb_rel_item [OF rel that(1)] that(2) by auto
  note other = item_ok_result [of p cfg evs _ _ _ _ e now res]
  show ?thesis
  proof (cases "rq_valid (mb_queue h) \<and> items ! e = None")
    case False
    have same: "h' = h \<and> acts' = []"
    proof (cases "rq_valid (mb_queue h)")
      case True
      with False have "reached_try_send e v (mb_queue h) = ([], mb_queue h)" for v
        using rq.answer_late [of "mb_queue h" items e v] rel by (simp add: mb_rel_def)
      then show ?thesis using out mb_response_reply [OF en True] by (auto simp: mb_send_def)
    qed (use out en in \<open>auto simp: mb_response_def\<close>)
    have "mb_rel p cfg ?evs h acts items"
    proof (rule mb_rel_intro)
      fix i assume i: "i < mb_next h"
      from mb_rel_item [OF rel i] obtain en' where
        "mb_entries h i = Some en'" "item_ok p cfg evs (rq_valid (mb_queue h)) i en' (items ! i)" by blast
      moreover have "i \<noteq> e \<or> items ! i \<noteq> None \<or> \<not> rq_valid (mb_queue h)" using False by auto
      ultimately show "\<exists>en. mb_entries h i = Some en \<and> item_ok p cfg ?evs (rq_valid (mb_queue h)) i en (items ! i)"
        using other by blast
    qed (use rel past in \<open>simp_all add: mb_rel_def\<close>)
    with same show ?thesis by auto
  next
    case True
    then have valid: "rq_valid (mb_queue h)" and none: "items ! e = None" by simp_all
    let ?v = "mb_reply p cfg now en res" and ?items = "items[e := Some (mb_reply p cfg now en res)]"
    obtain ws q where wq: "reached_try_send e ?v (mb_queue h) = (ws, q)" by fastforce
    then have h': "h' = h\<lparr>mb_queue := q\<rparr>" "acts' = map F_write ws"
      using out mb_response_reply [OF en valid] by (auto simp: mb_send_def)
    have q: "rq_valid q" using valid reached_valid [OF wq] by simp
    have view: "rq_view (mb_queue h) = unsent items" using rel valid by (simp add: mb_rel_def)
    note ans = rq.answer_next [OF view e [folded len] none, of ?v, unfolded wq fst_conv snd_conv]
    have "mb_rel p cfg ?evs h' (acts @ acts') ?items"
    proof (rule mb_rel_intro)
      show "length ?items = mb_next h'" using len by (simp add: h')
      show "rq_view (mb_queue h') = unsent ?items" using ans(1) by (simp add: h')
      show "writes (acts @ acts') = filter (\<lambda>v. v \<noteq> []) (replies_sent ?items)" using rel ans(2) by (simp add: h' mb_rel_def)
      show "users (acts @ acts') = filter (\<lambda>e. me_callback (the (mb_entries h' e)) \<noteq> Mb_none) [0..<mb_next h']"
        using rel by (simp add: h' mb_rel_def)
      show "i < mb_next h'" if "Mb_result n i r \<in> set ?evs" for n i r using past [OF that] by (simp add: h')
      show "mb_entries h' i = None" if "mb_next h' \<le> i" for i using rel that by (simp add: h' mb_rel_def)
      fix i assume "i < mb_next h'"
      then have i: "i < mb_next h" by (simp add: h')
      from mb_rel_item [OF rel i] obtain en' where
        en': "mb_entries h i = Some en'" "item_ok p cfg evs (rq_valid (mb_queue h)) i en' (items ! i)" by blast
      show "\<exists>en. mb_entries h' i = Some en \<and> item_ok p cfg ?evs (rq_valid (mb_queue h')) i en (?items ! i)"
      proof (cases "i = e")
        case True
        with en e len show ?thesis by (auto simp: h' item_ok_def)
      next
        case False
        with en' other [OF en'(2)] valid q show ?thesis by (simp add: h')
      qed
    qed
    then show ?thesis by blast
  qed
qed

lemma mb_rel_delete: "mb_rel p cfg evs h acts items \<Longrightarrow> mb_rel p cfg evs (mb_handler_delete h) acts items"
  unfolding mb_rel_def mb_handler_delete_def rq_invalidate_def
  by simp (blast intro: item_ok_frame)

lemma mb_steps_rel: "mb_steps p cfg evs h acts \<Longrightarrow> \<exists>items. mb_rel p cfg evs h acts items"
proof (induction rule: mb_steps.induct)
  case mb_start
  have "mb_rel p cfg [] mb_handler_new [] []"
    by (simp add: mb_rel_def mb_handler_new_def response_queue_new_def rq_view_def unsent_def replies_sent_def reply_slots_def)
  then show ?case by blast
next
  case (mb_more evs h acts ev h' acts')
  then obtain items where rel: "mb_rel p cfg evs h acts items" by blast
  show ?case
  proof (cases ev)
    case (Mb_result now e res)
    with mb_more.hyps show ?thesis using mb_rel_result [OF rel] by auto
  next
    case (Mb_read now rd)
    show ?thesis
    proof (cases "rq_valid (mb_queue h)")
      case False
      with mb_more.hyps(3) Mb_read have "h' = h" "acts' = []" by auto
      with mb_rel_read [OF rel, of now rd] Mb_read show ?thesis by auto
    next
      case True
      obtain err h1 a where r: "mb_read_event p cfg now rd h = (err, h1, a)" by (metis prod_cases3)
      have live: "mb_live p cfg (evs @ [ev]) h acts"
        using mb_rel_read [OF rel, of now rd] True unfolding Mb_read mb_live_def by blast
      have "mb_live p cfg (evs @ [ev]) h1 (acts @ a)"
        using r live mb_live_parse [of p cfg "evs @ [ev]" "h\<lparr>mb_buffer := b\<rparr>" acts now err h1 a for b]
        by (auto simp: mb_read_event_def split: socket_read.splits if_splits)
      then obtain items' where "mb_rel p cfg (evs @ [ev]) h1 (acts @ a) items'" by (auto simp: mb_live_def)
      moreover have "acts' = a \<and> (h' = h1 \<or> h' = mb_handler_delete h1)"
        using mb_more.hyps(3) True r by (auto simp: Mb_read split: option.splits)
      ultimately show ?thesis using mb_rel_delete by blast
    qed
  qed
qed

section \<open>Properties\<close>

text \<open>
  C15: On a connection of the binary protocol the replies are written in the order of the
  requests and each request gets exactly one, however the socket delivers the frames and whatever
  the order of the results of the gateway. There is a list with a place for every request: the bytes
  written so far are the replies in front of the first place that is still empty (a quiet request
  that found nothing has an empty reply and is skipped); a place is filled with the reply to the
  result that was delivered for it, at once for a request that needs no result; and on an open
  connection a place is empty only as long as no result came. The requests are submitted in the same
  order, each once.
\<close>

theorem binary_replies_in_order:
  assumes "mb_steps p cfg evs h acts"
  shows "\<exists>items. length items = mb_next h \<and>
    writes acts = filter (\<lambda>v. v \<noteq> []) (map the (takeWhile (\<lambda>x. x \<noteq> None) items)) \<and>
    users acts = filter (\<lambda>e. me_callback (the (mb_entries h e)) \<noteq> Mb_none) [0..<mb_next h] \<and>
    (\<forall>e < mb_next h. \<exists>en. mb_entries h e = Some en \<and>
       (case items ! e of
          None \<Rightarrow> me_callback en \<noteq> Mb_none \<and> (rq_valid (mb_queue h) \<longrightarrow> (\<forall>now res. Mb_result now e res \<notin> set evs))
        | Some v \<Rightarrow> if me_callback en = Mb_none then v = status_vec p en MEMPROTO_RES_NO_ERROR
                    else \<exists>now res. Mb_result now e res \<in> set evs \<and> v = mb_reply p cfg now en res))"
  using mb_steps_rel [OF assms] unfolding mb_rel_def replies_sent_take item_ok_def by blast

end
