(* ===== verification/BinaryFrames.thy ===== *)
theory BinaryFrames
  imports MemcacheBinaryTheorems
begin

text \<open>
  The frames of the binary protocol: a frame as a client writes it is parsed into its parts, and the
  reply to a stored value is the frame with the parts of the request that stored it.
\<close>

section \<open>Frames\<close>

lemma le_of_word_append: "le_of_word (m + n) w = le_of_word m w @ le_of_word n (drop_bit (8 * m) w)"
  by (induction m arbitrary: w) (simp_all add: drop_bit_drop_bit add.commute)

lemma le_of_word_ucast: "8 * n \<le> LENGTH('b) \<Longrightarrow> le_of_word n (ucast (w :: 'a::len word) :: 'b::len word) = le_of_word n w"
proof (rule nth_equalityI)
  fix i assume n: "8 * n \<le> LENGTH('b)" and "i < length (le_of_word n (ucast w :: 'b word))"
  then have i: "i < n" by simp
  have "(ucast (drop_bit (8 * i) (ucast w :: 'b word)) :: u8) = ucast (drop_bit (8 * i) w)"
    by (rule bit_word_eqI) (use i n in \<open>auto simp: bit_simps\<close>)
  with i show "le_of_word n (ucast w :: 'b word) ! i = le_of_word n w ! i" by (simp add: le_of_word_nth)
qed simp

lemma store_u64_halves:
  "store_word Big 4 (ucast (drop_bit 32 (w :: u64)) :: u32) @ store_word Big 4 (ucast (w AND 0xffffffff) :: u32) = store_word Big 8 w"
proof -
  have m: "(0xffffffff :: u64) = mask 32" by (simp add: mask_eq_exp_minus_1)
  have lo: "(ucast (w AND 0xffffffff) :: u32) = ucast w"
    unfolding m by (rule bit_word_eqI) (auto simp: bit_simps)
  have "le_of_word (4 + 4) w = le_of_word 4 w @ le_of_word 4 (drop_bit 32 w)" by (subst le_of_word_append) simp
  then have "le_of_word 8 w = le_of_word 4 (ucast w :: u32) @ le_of_word 4 (ucast (drop_bit 32 w) :: u32)"
    by (simp add: le_of_word_ucast)
  then show ?thesis by (simp add: store_word_def lo)
qed

lemma pack_header_bytes:
  "pack_header p status opc keylen vallen extralen opaque cas =
   [0x81, opc] @ store_word Big 2 keylen @ [extralen, 0] @ store_word Big 2 status @
   store_word Big 4 (vallen + ucast keylen + ucast extralen) @ store_word Big 4 opaque @ store_word Big 8 cas"
  by (simp add: pack_header_def store_ntohs store_ntohl store_u64_halves)

text \<open>A frame by the book: what a client sends, and how it reads what it gets.\<close>

definition header_bytes :: "u8 \<Rightarrow> u8 \<Rightarrow> u16 \<Rightarrow> bytes \<Rightarrow> bytes \<Rightarrow> bytes \<Rightarrow> u32 \<Rightarrow> u64 \<Rightarrow> bytes" where
  "header_bytes magic opc status extra key val opaque cas =
     [magic, opc] @ store_word Big 2 (word_of_nat (length key) :: u16) @ [word_of_nat (length extra), 0] @ store_word Big 2 status @
     store_word Big 4 (word_of_nat (length val + length key + length extra) :: u32) @ store_word Big 4 opaque @ store_word Big 8 cas"

definition frame :: "u8 \<Rightarrow> u8 \<Rightarrow> u16 \<Rightarrow> bytes \<Rightarrow> bytes \<Rightarrow> bytes \<Rightarrow> u32 \<Rightarrow> u64 \<Rightarrow> bytes" where
  "frame magic opc status extra key val opaque cas = header_bytes magic opc status extra key val opaque cas @ extra @ key @ val"

lemma length_header_bytes [simp]: "length (header_bytes magic opc status extra key val opaque cas) = 24"
  by (simp add: header_bytes_def)

lemma header_fields:
  fixes p magic opc status extra key val opaque cas rest
  defines "f \<equiv> header_bytes magic opc status extra key val opaque cas @ rest"
  shows "MEMPROTO_MAGIC f = magic" "MEMPROTO_OPCODE f = opc"
    "MEMPROTO_KEY_LENGTH p f = word_of_nat (length key)" "MEMPROTO_EXTRA_LENGTH f = word_of_nat (length extra)"
    "MEMPROTO_STATUS p f = status"
    "MEMPROTO_BODY_LENGTH p f = word_of_nat (length val + length key + length extra)"
    "MEMPROTO_OPAQUE p f = opaque" "MEMPROTO_CAS p f = cas"
proof -
  have len: "length (bytes_at 2 2 f) = 2" "length (bytes_at 6 2 f) = 2" "length (bytes_at 8 4 f) = 4" "length (bytes_at 12 4 f) = 4"
    "length (bytes_at 16 8 f) = 8"
    by (simp_all add: f_def bytes_at_def)
  have at: "bytes_at 2 2 f = store_word Big 2 (word_of_nat (length key) :: u16)"
    "bytes_at 6 2 f = store_word Big 2 status"
    "bytes_at 8 4 f = store_word Big 4 (word_of_nat (length val + length key + length extra) :: u32)"
    "bytes_at 12 4 f = store_word Big 4 opaque" "bytes_at 16 8 f = store_word Big 8 cas"
    by (simp_all add: f_def bytes_at_def header_bytes_def)
  show "MEMPROTO_MAGIC f = magic" "MEMPROTO_OPCODE f = opc" by (simp_all add: MEMPROTO_MAGIC_def MEMPROTO_OPCODE_def f_def header_bytes_def)
  show "MEMPROTO_EXTRA_LENGTH f = word_of_nat (length extra)" by (simp add: MEMPROTO_EXTRA_LENGTH_def f_def header_bytes_def nth_append)
  show "MEMPROTO_KEY_LENGTH p f = word_of_nat (length key)" "MEMPROTO_STATUS p f = status"
    unfolding MEMPROTO_KEY_LENGTH_def MEMPROTO_STATUS_def ntohs_load [OF len(1)] ntohs_load [OF len(2)] unfolding at by simp_all
  show "MEMPROTO_BODY_LENGTH p f = word_of_nat (length val + length key + length extra)" "MEMPROTO_OPAQUE p f = opaque"
    unfolding MEMPROTO_BODY_LENGTH_def MEMPROTO_OPAQUE_def ntohl_load [OF len(3)] ntohl_load [OF len(4)] unfolding at by simp_all
  show "MEMPROTO_CAS p f = cas" unfolding MEMPROTO_CAS_def be64h_load [OF len(5)] unfolding at by simp
qed

lemma unat_word_of_nat: "n < 2 ^ LENGTH('a) \<Longrightarrow> unat (word_of_nat n :: 'a::len word) = n"
  by (simp add: unat_of_nat take_bit_nat_eq_self_iff)

text \<open>The reply is the frame of its parts, the value cut to its length modulo \<open>2 ^ 16\<close>.\<close>

lemma response_vec_frame:
  assumes key: "length key < 2 ^ 16" and extra: "length extra < 2 ^ 8"
  shows "concat (response_vec p status hdr key val extra cas) =
    frame 0x81 (mh_opcode hdr) (ucast status) extra key (take (length val mod 2 ^ 16) val) (mh_opaque hdr) cas"
proof -
  let ?n = "length val mod 2 ^ 16"
  have c: "(ucast (w :: u16) :: u8) = word_of_nat (unat w)" "(ucast (w :: u16) :: u32) = word_of_nat (unat w)"
    "(ucast (x :: u8) :: u32) = word_of_nat (unat x)" for w x by simp_all
  have e: "(ucast (word_of_nat (length extra) :: u16) :: u8) = word_of_nat (length extra)"
    unfolding c using unat_word_of_nat [where 'a = 16, of "length extra"] extra by simp
  have u: "unat (word_of_nat (length key) :: u16) = length key" "unat (word_of_nat (length extra) :: u16) = length extra"
    "unat (word_of_nat (length val) :: u16) = ?n" "unat (word_of_nat (length extra) :: u8) = length extra"
    using key extra by (simp_all add: unat_of_nat take_bit_eq_mod)
  have body: "(ucast (word_of_nat (length val) :: u16) :: u32) + ucast (word_of_nat (length key) :: u16) + ucast (word_of_nat (length extra) :: u8)
      = word_of_nat (length (take ?n val) + length key + length extra)"
    unfolding c u by simp
  show ?thesis
    using u unfolding response_vec_def Let_def pack_header_bytes e frame_def header_bytes_def body
    by (auto simp: word_gt_0 unat_eq_0 [symmetric])
qed

lemma length_frame [simp]: "length (frame magic opc status extra key val opaque cas) = 24 + (length extra + length key + length val)"
  by (simp add: frame_def)

lemma frame_fields:
  fixes p magic opc status extra key val opaque cas rest
  defines "f \<equiv> frame magic opc status extra key val opaque cas @ rest"
  shows "MEMPROTO_MAGIC f = magic" "MEMPROTO_OPCODE f = opc" "MEMPROTO_DATA_TYPE f = 0"
    "MEMPROTO_KEY_LENGTH p f = word_of_nat (length key)" "MEMPROTO_EXTRA_LENGTH f = word_of_nat (length extra)"
    "MEMPROTO_STATUS p f = status"
    "MEMPROTO_BODY_LENGTH p f = word_of_nat (length val + length key + length extra)"
    "MEMPROTO_OPAQUE p f = opaque" "MEMPROTO_CAS p f = cas"
    "bytes_at 24 (length extra) f = extra" "bytes_at (24 + length extra) (length key) f = key"
    "bytes_at (24 + length extra + length key) (length val) f = val"
proof -
  have f: "f = header_bytes magic opc status extra key val opaque cas @ (extra @ key @ val @ rest)"
    by (simp add: f_def frame_def)
  show "MEMPROTO_MAGIC f = magic" "MEMPROTO_OPCODE f = opc"
    "MEMPROTO_KEY_LENGTH p f = word_of_nat (length key)" "MEMPROTO_EXTRA_LENGTH f = word_of_nat (length extra)"
    "MEMPROTO_STATUS p f = status"
    "MEMPROTO_BODY_LENGTH p f = word_of_nat (length val + length key + length extra)"
    "MEMPROTO_OPAQUE p f = opaque" "MEMPROTO_CAS p f = cas"
    unfolding f by (simp_all only: header_fields)
  show "MEMPROTO_DATA_TYPE f = 0" by (simp add: f header_bytes_def MEMPROTO_DATA_TYPE_def nth_append)
  show "bytes_at 24 (length extra) f = extra" "bytes_at (24 + length extra) (length key) f = key"
    "bytes_at (24 + length extra + length key) (length val) f = val"
    by (simp_all add: f bytes_at_def)
qed

lemma execute_frame:
  assumes "length extra + length key + length val < 2 ^ 32"
  shows "memproto_parser_execute p (frame MEMPROTO_REQUEST opc status extra key val opaque cas @ rest) =
    (1, length (frame MEMPROTO_REQUEST opc status extra key val opaque cas))"
proof -
  let ?f = "frame MEMPROTO_REQUEST opc status extra key val opaque cas @ rest"
  have "unat (MEMPROTO_BODY_LENGTH p ?f) = length val + length key + length extra"
    unfolding frame_fields by (rule unat_word_of_nat) (use assms in simp)
  then show ?thesis
    by (simp add: memproto_parser_execute_def MEMPROTO_HEADER_SIZE_def frame_fields(1) add.commute add.left_commute)
qed

definition set_extra :: "u32 \<Rightarrow> u32 \<Rightarrow> bytes" where
  "set_extra fl ex = store_word Big 4 fl @ store_word Big 4 ex"

lemma length_set_extra [simp]: "length (set_extra fl ex) = 8"
  by (simp add: set_extra_def)

lemma dispatch_set_frame:
  assumes key: "key \<noteq> []" "length key < 2 ^ 16" and size: "8 + length key + length val < 2 ^ 32" and opc: "opc = 0x01 \<or> opc = 0x03"
  shows "memproto_dispatch p mb_callbacks (frame MEMPROTO_REQUEST opc status (set_extra fl ex) key val opaque cas @ rest) =
    Inr (1, Some (Call_set \<lparr>mh_magic = MEMPROTO_REQUEST, mh_opcode = opc, mh_data_type = 0, mh_reserved = status,
                            mh_opaque = opaque, mh_cas = cas\<rparr> key val fl ex))"
proof -
  let ?f = "frame MEMPROTO_REQUEST opc status (set_extra fl ex) key val opaque cas @ rest"
  note ff = frame_fields
  have u: "unat (word_of_nat (length key) :: u16) = length key" by (rule unat_word_of_nat) (use key(2) in simp)
  have k0: "(word_of_nat (length key) :: u16) \<noteq> 0" using u key(1) by (metis length_0_conv unat_0)
  have c: "(ucast (w :: u16) :: u32) = word_of_nat (unat w)" for w by simp
  have vl: "MEMPROTO_BODY_LENGTH p ?f - ucast (MEMPROTO_EXTRA_LENGTH ?f) - ucast (MEMPROTO_KEY_LENGTH p ?f) = word_of_nat (length val)"
    unfolding ff c u by simp
  have v: "unat (word_of_nat (length val) :: u32) = length val" by (rule unat_word_of_nat) (use size in simp)
  have e8: "MEMPROTO_EXTRA_LENGTH ?f = 8" unfolding ff by simp
  have kr: "run_of (24 + 8) (length key) ?f = Inr key" "run_of (24 + 8 + length key) (length val) ?f = Inr val"
    using ff(11,12) [where magic = MEMPROTO_REQUEST and opc = opc and status = status and extra = "set_extra fl ex" and key = key and val = val
        and opaque = opaque and cas = cas and rest = rest]
    by (simp_all add: run_of_def)
  have b: "bytes_at 24 4 ?f = store_word Big 4 fl" "bytes_at (24 + 4) 4 ?f = store_word Big 4 ex"
    by (simp_all add: bytes_at_def frame_def set_extra_def)
  have n: "ntohl p (load_word (host_order p) (store_word Big 4 w)) = (w :: u32)" for w
    by (subst ntohl_load) simp_all
  have op: "unat opc \<in> {1, 3}" "mb_callbacks ! unat opc" "unat opc < length mb_callbacks"
    using opc by (auto simp: mb_callbacks_def)
  show ?thesis
    unfolding memproto_dispatch_def Let_def memproto_header.simps vl
    unfolding ff length_set_extra MEMPROTO_HEADER_SIZE_def
    using op key(1) k0 u v kr b n by auto
qed

lemma store_small_flags:
  assumes "fl < (2 ^ 16 :: u32)"
  shows "[0, 0] @ store_word Big 2 (ucast fl :: u16) = store_word Big 4 fl"
proof -
  have d: "drop_bit 16 fl = 0" unfolding drop_bit_eq_div by (rule div_word_less) (use assms in simp)
  have "le_of_word (2 + 2) fl = le_of_word 2 fl @ le_of_word 2 (drop_bit 16 fl)" by (subst le_of_word_append) simp
  moreover have "le_of_word 2 (0 :: u32) = [0, 0]" by (simp add: eval_nat_numeral)
  ultimately have "le_of_word 4 fl = le_of_word 2 (ucast fl :: u16) @ [0, 0]" by (simp add: d le_of_word_ucast)
  then show ?thesis by (simp add: store_word_def)
qed

lemma store_zero: "store_word Big 4 (0 :: u32) = [0, 0, 0, 0]"
  by (simp add: store_word_def eval_nat_numeral)

lemma reply_to_stored:
  assumes fl: "fl < (2 ^ 16 :: u32)" "gc_save_flag cfg \<or> fl = 0" and key: "length key < 2 ^ 16"
    and live: "gc_save_exptime cfg \<longrightarrow> \<not> item_expired now' (exptime_to_system now ex)"
    and en: "me_callback en = Mb_getx flag_key flag_quiet"
  shows "concat (mb_reply p cfg now' en (Res_get key hsh (Some (put_exptime p cfg now ex (put_flags p cfg (ucast fl) val))) ct)) =
    frame 0x81 (mh_opcode (me_header en)) 0 (store_word Big 4 fl) (if flag_key then key else []) (take (length val mod 2 ^ 16) val)
      (mh_opaque (me_header en)) ct"
proof -
  let ?k = "if flag_key then key else []"
  have k: "length ?k < 2 ^ 16" using key by simp
  have "mb_reply p cfg now' en (Res_get key hsh (Some (put_exptime p cfg now ex (put_flags p cfg (ucast fl) val))) ct) =
    response_vec p MEMPROTO_RES_NO_ERROR (me_header en) ?k val (store_word Big 4 fl) ct"
  proof (cases "gc_save_flag cfg")
    case True
    have "take 2 (put_flags p cfg (ucast fl) val) = store_word Big 2 (ucast fl :: u16)"
      using True by (simp add: put_flags_def store_ntohs)
    with True live show ?thesis
      using store_small_flags [OF fl(1)] by (simp add: mb_reply_def mb_reply_getx_def en Let_def)
  next
    case False
    with live fl(2) show ?thesis by (simp add: mb_reply_def mb_reply_getx_def en Let_def store_zero)
  qed
  then show ?thesis using response_vec_frame [OF k, of "store_word Big 4 fl"] by (simp add: MEMPROTO_RES_NO_ERROR_def)
qed

lemma read_set_frame:
  assumes h: "mb_buffer h = []" and key: "key \<noteq> []" "length key < 2 ^ 16" and size: "8 + length key + length val < 2 ^ 32"
    and fl: "gc_save_flag cfg \<or> fl = 0" and ex: "gc_save_exptime cfg \<or> ex = 0"
  shows "mb_read_event p cfg now (Read_bytes (frame MEMPROTO_REQUEST 0x01 status (set_extra fl ex) key val opaque cas)) h =
    (None, snd (new_entry \<lparr>mh_magic = MEMPROTO_REQUEST, mh_opcode = 0x01, mh_data_type = 0, mh_reserved = status,
                           mh_opaque = opaque, mh_cas = cas\<rparr> (if cas \<noteq> 0 then Mb_cas else Mb_set) h),
           [F_set \<lparr>rs_key = key, rs_user_hash = None, rs_val = put_exptime p cfg now ex (put_flags p cfg (ucast fl) val),
                       rs_operation = (if cas \<noteq> 0 then GATE_OP_CAS else 0), rs_clocktime = cas, rs_user = mb_next h\<rparr>])"
proof -
  let ?f = "frame MEMPROTO_REQUEST 0x01 status (set_extra fl ex) key val opaque cas"
  have x: "memproto_parser_execute p ?f = (1, length ?f)"
    using execute_frame [where rest = "[]" and extra = "set_extra fl ex", of key val p] size by simp
  have d: "memproto_dispatch p mb_callbacks ?f =
    Inr (1, Some (Call_set \<lparr>mh_magic = MEMPROTO_REQUEST, mh_opcode = 0x01, mh_data_type = 0, mh_reserved = status,
                            mh_opaque = opaque, mh_cas = cas\<rparr> key val fl ex))"
    using dispatch_set_frame [OF key size, where rest = "[]" and opc = "0x01"] by simp
  show ?thesis
    unfolding mb_read_event_def
    using fl ex h by (subst mb_parse.simps) (auto simp: x d mb_call_def mb_request_set_def new_entry_def MEMPROTO_CMD_REPLACE_def Let_def)
qed

text \<open>
  C19: What is stored over the binary protocol is what is read back, for keys and values of less than
  64 KiB (longer values are cut in the reply, see below) and flags below \<open>2 ^ 16\<close> (only 16 bits are
  stored), when the gateway saves the flags or they are zero, and saves the expiration time or it is
  zero. A set frame makes the gateway store one value under its key, as a compare-and-swap when the
  frame has a cas number. When the gateway later finds that value and it has not expired, the
  handler answers any get, quiet or not, that waits in its queue with the frame of
  success with the same flags, the value, the stamp as cas number, and the key when the command
  asks for it.
\<close>

theorem binary_set_get_roundtrip:
  assumes "mb_buffer h = []" "key \<noteq> []" "length key < 2 ^ 16" "length val < 2 ^ 16"
    and "fl < (2 ^ 16 :: u32)" "gc_save_flag cfg \<or> fl = 0" "gc_save_exptime cfg \<or> ex = 0"
    and "mb_read_event p cfg now (Read_bytes (frame MEMPROTO_REQUEST 0x01 0 (set_extra fl ex) key val opaque cas)) h = (err, h', acts)"
  shows "\<exists>req. err = None \<and> acts = [F_set req] \<and> rs_key req = key \<and> rs_user req = mb_next h \<and> rs_clocktime req = cas \<and>
    rs_operation req = (if cas \<noteq> 0 then GATE_OP_CAS else 0) \<and>
    (\<forall>h2 e en now' flag_key flag_quiet hsh ct. mb_entries h2 e = Some en \<longrightarrow> rq_valid (mb_queue h2) \<longrightarrow>
       me_callback en = Mb_getx flag_key flag_quiet \<longrightarrow>
       (gc_save_exptime cfg \<longrightarrow> \<not> item_expired now' (exptime_to_system now ex)) \<longrightarrow>
       (\<exists>vec. mb_response p cfg now' e (Res_get key hsh (Some (rs_val req)) ct) h2 = mb_send e vec h2 \<and>
          concat vec = frame 0x81 (mh_opcode (me_header en)) 0 (store_word Big 4 fl) (if flag_key then key else []) val
            (mh_opaque (me_header en)) ct))"
proof -
  have size: "8 + length key + length val < 2 ^ 32" using assms(3,4) by simp
  from read_set_frame [OF assms(1-3) size assms(6,7), of p now 0 opaque cas] assms(8)
  have set': "err = None \<and> acts = [F_set \<lparr>rs_key = key, rs_user_hash = None, rs_val = put_exptime p cfg now ex (put_flags p cfg (ucast fl) val),
      rs_operation = (if cas \<noteq> 0 then GATE_OP_CAS else 0), rs_clocktime = cas, rs_user = mb_next h\<rparr>]" by auto
  have cut: "take (length val mod 2 ^ 16) val = val" using assms(4) by simp
  have get: "\<exists>vec. mb_response p cfg now' e (Res_get key hsh (Some (put_exptime p cfg now ex (put_flags p cfg (ucast fl) val))) ct) h2 = mb_send e vec h2 \<and>
      concat vec = frame 0x81 (mh_opcode (me_header en)) 0 (store_word Big 4 fl) (if flag_key then key else []) val (mh_opaque (me_header en)) ct"
    if "mb_entries h2 e = Some en" "rq_valid (mb_queue h2)" "me_callback en = Mb_getx flag_key flag_quiet"
      "gc_save_exptime cfg \<longrightarrow> \<not> item_expired now' (exptime_to_system now ex)" for h2 e en now' flag_key flag_quiet hsh ct
  proof -
    have "me_callback en \<noteq> Mb_none" using that(3) by simp
    from mb_response_reply [OF that(1) this that(2)] show ?thesis
      using reply_to_stored [OF assms(5,6,3) that(4,3), of p hsh val ct, unfolded cut] by blast
  qed
  show ?thesis by (rule exI, intro conjI, rule set' [THEN conjunct1], rule set' [THEN conjunct2]) (use get in auto)
qed

definition plain_config :: gate_config where
  "plain_config = \<lparr>gc_save_flag = False, gc_save_exptime = False\<rparr>"

definition sample_get_entry :: mb_entry where
  "sample_get_entry = \<lparr>me_header = \<lparr>mh_magic = 0x80, mh_opcode = 0, mh_data_type = 0, mh_reserved = 0, mh_opaque = 5, mh_cas = 0\<rparr>,
     me_callback = Mb_getx False False\<rparr>"

theorem binary_set_get_roundtrip_witness:
  "\<exists>req err h' acts vec.
    mb_read_event sample_platform plain_config 100
      (Read_bytes (frame MEMPROTO_REQUEST 0x01 0 (set_extra 0 0) [107] [1, 2, 3] 9 0)) mb_handler_new = (err, h', acts) \<and>
    acts = [F_set req] \<and> rs_key req = [107] \<and>
    mb_response sample_platform plain_config 200 0 (Res_get [107] 77 (Some (rs_val req)) 42)
      (mb_handler_new\<lparr>mb_entries := [0 \<mapsto> sample_get_entry]\<rparr>) = mb_send 0 vec (mb_handler_new\<lparr>mb_entries := [0 \<mapsto> sample_get_entry]\<rparr>) \<and>
    concat vec = frame 0x81 0 0 (store_word Big 4 (0 :: u32)) [] [1, 2, 3] 5 42"
proof -
  let ?h2 = "mb_handler_new\<lparr>mb_entries := [0 \<mapsto> sample_get_entry]\<rparr>"
  obtain err h' acts where r: "mb_read_event sample_platform plain_config 100
      (Read_bytes (frame MEMPROTO_REQUEST 0x01 0 (set_extra 0 0) [107] [1, 2, 3] 9 0)) mb_handler_new = (err, h', acts)"
    by (metis prod_cases3)
  have h: "mb_buffer mb_handler_new = []" by (simp add: mb_handler_new_def)
  have e: "mb_entries ?h2 0 = Some sample_get_entry" "rq_valid (mb_queue ?h2)" "me_callback sample_get_entry = Mb_getx False False"
    by (simp_all add: mb_handler_new_def response_queue_new_def sample_get_entry_def)
  from binary_set_get_roundtrip [OF h _ _ _ _ _ _ r] obtain req where
    req: "acts = [F_set req]" "rs_key req = [107]" and
    get: "\<forall>h2 e en now' flag_key flag_quiet hsh ct. mb_entries h2 e = Some en \<longrightarrow> rq_valid (mb_queue h2) \<longrightarrow>
       me_callback en = Mb_getx flag_key flag_quiet \<longrightarrow>
       (gc_save_exptime plain_config \<longrightarrow> \<not> item_expired now' (exptime_to_system 100 0)) \<longrightarrow>
       (\<exists>vec. mb_response sample_platform plain_config now' e (Res_get [107] hsh (Some (rs_val req)) ct) h2 = mb_send e vec h2 \<and>
          concat vec = frame 0x81 (mh_opcode (me_header en)) 0 (store_word Big 4 (0 :: u32)) (if flag_key then [107] else []) [1, 2, 3]
            (mh_opaque (me_header en)) ct)"
    by auto
  have "gc_save_exptime plain_config \<Longrightarrow> \<not> item_expired 200 (exptime_to_system 100 0)" by (simp add: plain_config_def)
  from get [rule_format, OF e this, of 77 42] obtain vec where
    "mb_response sample_platform plain_config 200 0 (Res_get [107] 77 (Some (rs_val req)) 42) ?h2 = mb_send 0 vec ?h2"
    "concat vec = frame 0x81 0 0 (store_word Big 4 (0 :: u32)) [] [1, 2, 3] 5 42"
    by (auto simp: sample_get_entry_def)
  with r req show ?thesis by blast
qed

text \<open>
  A longer value is cut off. The lengths of a reply are 16-bit parameters of \<open>send_response\<close>: when the
  gateway finds a value whose data are \<open>n\<close> bytes, the frame announces and carries the first
  \<open>n mod 2 ^ 16\<close> bytes of it, with the status of success, so that a value of 65536 bytes is read as an empty one.
\<close>

theorem binary_reply_cut_at_64k:
  assumes "\<not> gc_save_flag cfg" "\<not> gc_save_exptime cfg" "me_callback en = Mb_getx False False" "length key < 2 ^ 16"
  shows "concat (mb_reply p cfg now en (Res_get key hsh (Some val) ct)) =
    frame 0x81 (mh_opcode (me_header en)) 0 [0, 0, 0, 0] [] (take (length val mod 2 ^ 16) val) (mh_opaque (me_header en)) ct"
  using reply_to_stored [of 0 cfg key now 0 0 en False False p hsh val ct] assms by (simp add: store_zero)

theorem binary_reply_cut_at_64k_witness:
  "concat (mb_reply sample_platform plain_config 200 \<lparr>me_header = \<lparr>mh_magic = 0x80, mh_opcode = 0, mh_data_type = 0, mh_reserved = 0,
       mh_opaque = 5, mh_cas = 0\<rparr>, me_callback = Mb_getx False False\<rparr> (Res_get [107] 77 (Some (replicate 65536 7)) 42)) =
   frame 0x81 0 0 [0, 0, 0, 0] [] [] 5 42"
  using binary_reply_cut_at_64k [of plain_config "\<lparr>me_header = \<lparr>mh_magic = 0x80, mh_opcode = 0, mh_data_type = 0, mh_reserved = 0,
       mh_opaque = 5, mh_cas = 0\<rparr>, me_callback = Mb_getx False False\<rparr>" "[107]" sample_platform 200 77 "replicate 65536 7" 42]
  by (simp add: plain_config_def)

theorem binary_replies_in_order_witness:
  "\<exists>h acts items. length items = mb_next h \<and> mb_next h = 1 \<and>
     mb_steps sample_platform plain_config
       [Mb_read 100 (Read_bytes (frame MEMPROTO_REQUEST 0x01 0 (set_extra 0 0) [107] [1, 2, 3] 9 0)),
        Mb_result 100 0 (Res_set [107] 77 [1, 2, 3] 42 True)] h acts \<and>
     writes acts = filter (\<lambda>v. v \<noteq> []) (map the (takeWhile (\<lambda>x. x \<noteq> None) items))"
proof -
  let ?f = "frame MEMPROTO_REQUEST 0x01 0 (set_extra 0 0) [107] [1, 2, 3] 9 0"
  let ?hdr = "\<lparr>mh_magic = MEMPROTO_REQUEST, mh_opcode = 0x01, mh_data_type = 0, mh_reserved = 0, mh_opaque = 9, mh_cas = 0\<rparr>"
  let ?h1 = "snd (new_entry ?hdr Mb_set mb_handler_new)"
  have b: "mb_buffer mb_handler_new = []" by (simp add: mb_handler_new_def)
  obtain a1 where r: "mb_read_event sample_platform plain_config 100 (Read_bytes ?f) mb_handler_new = (None, ?h1, a1)"
    using read_set_frame [OF b, of "[107]" "[1, 2, 3]" plain_config 0 0 sample_platform 100 0 9 0] by (simp add: plain_config_def)
  have "mb_apply sample_platform plain_config (Mb_read 100 (Read_bytes ?f)) mb_handler_new = (?h1, a1)"
    using r by (simp add: mb_handler_new_def response_queue_new_def)
  from mb_more [OF mb_start _ this] have s1: "mb_steps sample_platform plain_config [Mb_read 100 (Read_bytes ?f)] ?h1 a1" by simp
  obtain h2 a2 where a2: "mb_apply sample_platform plain_config (Mb_result 100 0 (Res_set [107] 77 [1, 2, 3] 42 True)) ?h1 = (h2, a2)" by fastforce
  have h1: "mb_entries ?h1 0 = Some \<lparr>me_header = ?hdr, me_callback = Mb_set\<rparr>" "rq_valid (mb_queue ?h1)" "mb_next ?h1 = 1"
    by (simp_all add: new_entry_def mb_handler_new_def response_queue_new_def push_entry_def Let_def)
  have "mb_next h2 = 1"
    using a2 h1 mb_response_reply [OF h1(1) _ h1(2)] by (auto simp: mb_send_def split: prod.splits)
  moreover from mb_more [OF s1 _ a2] h1(1)
  have s2: "mb_steps sample_platform plain_config [Mb_read 100 (Read_bytes ?f), Mb_result 100 0 (Res_set [107] 77 [1, 2, 3] 42 True)] h2 (a1 @ a2)"
    by simp
  ultimately show ?thesis using binary_replies_in_order [OF s2] s2 by blast
qed

end
