(* ===== verification/Cloudy.thy ===== *)
theory Cloudy
  imports MemcacheBinaryTheorems
begin

text \<open>
  The front end for asynchronous clients (\<open>gate/cloudy.cc\<close>). It speaks the binary protocol, with
  the same parser and the same frames, but writes every reply as soon as its result is there: the
  client tells replies apart by the number it put into the request. Flags, expiration times and
  compare-and-swap are refused.
\<close>

record cl_handler =
  cl_buffer :: bytes
  cl_valid :: bool
  cl_entries :: "nat \<Rightarrow> mb_entry option"
  cl_next :: nat

type_synonym cl_out = "cl_handler \<times> front_action list"

definition cl_callbacks :: "bool list" where
  "cl_callbacks = [True, True, False, False, True, False, False, False, False, True, False, False, True, True, False, False]"

definition cl_handler_new :: cl_handler where
  "cl_handler_new = \<lparr>cl_buffer = [], cl_valid = True, cl_entries = Map.empty, cl_next = 0\<rparr>"

definition cl_handler_delete :: "cl_handler \<Rightarrow> cl_handler" where
  "cl_handler_delete h = h\<lparr>cl_valid := False\<rparr>"

section \<open>Replies\<close>

definition cl_send_response_nodata :: "platform \<Rightarrow> mb_entry \<Rightarrow> u8 \<Rightarrow> u64 \<Rightarrow> cl_handler \<Rightarrow> front_action list" where
  "cl_send_response_nodata p en status cas h =
     (if cl_valid h
      then [F_write [pack_header p (ucast status) (mh_opcode (me_header en)) 0 0 0 (mh_opaque (me_header en)) cas]] else [])"

definition cl_send_response :: "platform \<Rightarrow> mb_entry \<Rightarrow> u8 \<Rightarrow> bytes \<Rightarrow> bytes \<Rightarrow> bytes \<Rightarrow> u64 \<Rightarrow> cl_handler \<Rightarrow> front_action list" where
  "cl_send_response p en status key val extra cas h =
     (if cl_valid h then [F_write (response_vec p status (me_header en) key val extra cas)] else [])"

definition cl_response_getx :: "platform \<Rightarrow> mb_entry \<Rightarrow> bool \<Rightarrow> bool \<Rightarrow> gate_res \<Rightarrow> cl_handler \<Rightarrow> front_action list" where
  "cl_response_getx p en flag_key flag_quiet res h =
     (case res of
        Res_get key hsh (Some val) ct \<Rightarrow>
          cl_send_response p en MEMPROTO_RES_NO_ERROR (if flag_key then key else []) val [0, 0, 0, 0] 0 h
      | Res_get key hsh None ct \<Rightarrow>
          (if flag_quiet then [] else cl_send_response_nodata p en MEMPROTO_RES_KEY_NOT_FOUND 0 h)
      | _ \<Rightarrow> if flag_quiet then [] else cl_send_response_nodata p en MEMPROTO_RES_INVALID_ARGUMENTS 0 h)"

definition cl_response_set :: "platform \<Rightarrow> mb_entry \<Rightarrow> gate_res \<Rightarrow> cl_handler \<Rightarrow> front_action list" where
  "cl_response_set p en res h =
     cl_send_response_nodata p en
       (case res of Res_set _ _ _ _ _ \<Rightarrow> MEMPROTO_RES_NO_ERROR | _ \<Rightarrow> MEMPROTO_RES_OUT_OF_MEMORY) 0 h"

definition cl_response_delete :: "platform \<Rightarrow> mb_entry \<Rightarrow> gate_res \<Rightarrow> cl_handler \<Rightarrow> front_action list" where
  "cl_response_delete p en res h =
     cl_send_response_nodata p en
       (case res of Res_delete _ _ del \<Rightarrow> if del then MEMPROTO_RES_NO_ERROR else MEMPROTO_RES_OUT_OF_MEMORY
        | _ \<Rightarrow> MEMPROTO_RES_INVALID_ARGUMENTS) 0 h"

definition cl_response :: "platform \<Rightarrow> nat \<Rightarrow> gate_res \<Rightarrow> cl_handler \<Rightarrow> front_action list" where
  "cl_response p e res h =
     (case cl_entries h e of
        None \<Rightarrow> []
      | Some en \<Rightarrow>
          (case me_callback en of
             Mb_getx flag_key flag_quiet \<Rightarrow> cl_response_getx p en flag_key flag_quiet res h
           | Mb_set \<Rightarrow> cl_response_set p en res h
           | Mb_delete \<Rightarrow> cl_response_delete p en res h
           | _ \<Rightarrow> []))"

section \<open>Requests\<close>

definition cl_new_entry :: "memproto_header \<Rightarrow> mb_callback \<Rightarrow> cl_handler \<Rightarrow> nat \<times> cl_handler" where
  "cl_new_entry hdr cb h =
     (let e = cl_next h
      in (e, h\<lparr>cl_entries := (cl_entries h)(e \<mapsto> \<lparr>me_header = hdr, me_callback = cb\<rparr>), cl_next := Suc e\<rparr>))"

definition cl_request_getx :: "memproto_header \<Rightarrow> bytes \<Rightarrow> cl_handler \<Rightarrow> cl_out result" where
  "cl_request_getx hdr key h =
     (let flag_key = (mh_opcode hdr = MEMPROTO_CMD_GETK \<or> mh_opcode hdr = MEMPROTO_CMD_GETKQ);
          flag_quiet = (mh_opcode hdr = MEMPROTO_CMD_GETQ \<or> mh_opcode hdr = MEMPROTO_CMD_GETKQ);
          (e, h1) = cl_new_entry hdr (Mb_getx flag_key flag_quiet) h
      in Inr (h1, [F_get \<lparr>rg_key = key, rg_user_hash = None, rg_user = e\<rparr>]))"

definition cl_request_set :: "memproto_header \<Rightarrow> bytes \<Rightarrow> bytes \<Rightarrow> u32 \<Rightarrow> u32 \<Rightarrow> cl_handler \<Rightarrow> cl_out result" where
  "cl_request_set hdr key val fl expiration h =
     (if mh_cas hdr \<noteq> 0 \<or> fl \<noteq> 0 \<or> expiration \<noteq> 0 then Inl (Runtime_error ''memcached binary protocol: invalid argument'')
      else let (e, h1) = cl_new_entry hdr Mb_set h
           in Inr (h1, [F_set \<lparr>rs_key = key, rs_user_hash = None, rs_val = val, rs_operation = 0, rs_clocktime = 0, rs_user = e\<rparr>]))"

definition cl_request_delete :: "memproto_header \<Rightarrow> bytes \<Rightarrow> u32 \<Rightarrow> cl_handler \<Rightarrow> cl_out result" where
  "cl_request_delete hdr key expiration h =
     (if expiration \<noteq> 0 then Inl (Runtime_error ''memcached binary protocol: invalid argument'')
      else let (e, h1) = cl_new_entry hdr Mb_delete h
           in Inr (h1, [F_delete \<lparr>rd_key = key, rd_user_hash = None, rd_async = False, rd_user = e\<rparr>]))"

definition cl_call :: "memproto_call \<Rightarrow> cl_handler \<Rightarrow> cl_out result" where
  "cl_call c h =
     (case c of
        Call_get hdr key \<Rightarrow> cl_request_getx hdr key h
      | Call_set hdr key val fl expiration \<Rightarrow> cl_request_set hdr key val fl expiration h
      | Call_delete hdr key expiration \<Rightarrow> cl_request_delete hdr key expiration h
      | _ \<Rightarrow> Inl Undefined_behaviour)"

lemma cl_call_buffer: "cl_call c h = Inr (h', acts) \<Longrightarrow> cl_buffer h' = cl_buffer h \<and> cl_valid h' = cl_valid h"
  by (cases c)
    (auto simp: cl_call_def cl_request_getx_def cl_request_set_def cl_request_delete_def cl_new_entry_def Let_def
      split: prod.splits if_splits)

section \<open>Reading\<close>

function cl_parse :: "platform \<Rightarrow> cl_handler \<Rightarrow> kerror option \<times> cl_out" where
  "cl_parse p h =
     (let (ret, off) = memproto_parser_execute p (cl_buffer h)
      in if ret = 0 then (None, h, [])
         else if ret < 0 then (Some (Runtime_error ''parse error''), h, [])
         else let data = cl_buffer h; h1 = h\<lparr>cl_buffer := drop off data\<rparr>
              in case memproto_dispatch p cl_callbacks data of
                   Inl e \<Rightarrow> (Some e, h1, [])
                 | Inr (r, call) \<Rightarrow>
                     if r \<le> 0 then (Some (Runtime_error ''unknown command''), h1, [])
                     else case call of
                            None \<Rightarrow> (None, h1, [])
                          | Some c \<Rightarrow>
                              (case cl_call c h1 of
                                 Inl e \<Rightarrow> (Some e, h1, [])
                               | Inr (h2, acts) \<Rightarrow>
                                   if cl_buffer h2 = [] then (None, h2, acts)
                                   else let (err, h3, acts') = cl_parse p h2 in (err, h3, acts @ acts')))"
  by pat_completeness auto
termination
proof (relation "measure (\<lambda>(p, h). length (cl_buffer h))", goal_cases)
  case (2 p h ex ret off data h1 rc r call c out h2 acts)
  have "cl_buffer h2 = drop off (cl_buffer h)" using cl_call_buffer [of c h1 h2 acts] 2 by simp
  moreover have "0 < off \<and> off \<le> length (cl_buffer h)" using memproto_parser_execute_off [of p "cl_buffer h" ret off] 2 by simp
  ultimately show ?case by (auto intro: diff_less)
qed simp

declare cl_parse.simps [simp del]

text \<open>The result of \<open>read\<close> is kept in a \<open>size_t\<close> here as well.\<close>

definition cl_read_event :: "platform \<Rightarrow> socket_read \<Rightarrow> cl_handler \<Rightarrow> kerror option \<times> cl_out" where
  "cl_read_event p rd h =
     (case rd of
        Read_end \<Rightarrow> (Some (Runtime_error ''connection closed''), h, [])
      | Read_failed \<Rightarrow>
          (if cl_buffer h = [] then (Some Undefined_behaviour, h, []) else cl_parse p (h\<lparr>cl_buffer := butlast (cl_buffer h)\<rparr>))
      | Read_bytes bs \<Rightarrow> cl_parse p (h\<lparr>cl_buffer := cl_buffer h @ bs\<rparr>))"

section \<open>Replies go out at once\<close>

text \<open>
  A result makes the reply the other front end makes of it with flags and expiration off, but for the
  cas number, which is zero, and the status of a failed read; a quiet request that found nothing gets none.
\<close>

lemma cloudy_reply:
  assumes "cl_entries h e = Some en" "cl_valid h" "me_callback en = Mb_set \<or> me_callback en = Mb_delete"
  shows "cl_response p e res h = [F_write (mb_reply p cfg now en res)]"
  using assms by (auto simp: cl_response_def cl_response_set_def cl_response_delete_def cl_send_response_nodata_def mb_reply_def status_vec_def)

lemma cloudy_found:
  assumes "cl_entries h e = Some en" "cl_valid h" "me_callback en = Mb_getx flag_key flag_quiet"
    "\<not> gc_save_flag cfg" "\<not> gc_save_exptime cfg"
  shows "cl_response p e (Res_get key hsh (Some val) ct) h = [F_write (mb_reply p cfg now en (Res_get key hsh (Some val) 0))]"
  using assms by (simp add: cl_response_def cl_response_getx_def cl_send_response_def mb_reply_def mb_reply_getx_def Let_def)

lemma cloudy_closed: "\<not> cl_valid h \<Longrightarrow> cl_response p e res h = []"
  by (auto simp: cl_response_def cl_response_getx_def cl_response_set_def cl_response_delete_def cl_send_response_def
      cl_send_response_nodata_def split: option.splits mb_callback.splits gate_res.splits)

end
