(* ===== verification/Decimal.thy ===== *)
theory Decimal
  imports Prelude
begin

text \<open>
  Numbers and strings as characters: what \<open>printf\<close> writes for an unsigned number, what \<open>strtoul\<close> reads, and
  the characters of a string literal.
\<close>

definition ascii :: "string \<Rightarrow> bytes" where
  "ascii s = map of_char s"

definition is_digit :: "u8 \<Rightarrow> bool" where
  "is_digit b \<longleftrightarrow> 48 \<le> b \<and> b \<le> 57"

fun decimal :: "nat \<Rightarrow> bytes" where
  "decimal n = (if n < 10 then [word_of_nat (48 + n)] else decimal (n div 10) @ [word_of_nat (48 + n mod 10)])"

declare decimal.simps [simp del]

text \<open>The digits in front, as a number.\<close>

definition dec_value :: "bytes \<Rightarrow> nat" where
  "dec_value bs = foldl (\<lambda>n b. n * 10 + (unat b - 48)) 0 (takeWhile is_digit bs)"

text \<open>\<open>strtoul\<close> and \<open>strtoull\<close>: the greatest number when it is too large.\<close>

definition strtoul :: "bytes \<Rightarrow> u64" where
  "strtoul bs = word_of_nat (min (dec_value bs) (2 ^ 64 - 1))"

lemma length_ascii [simp]: "length (ascii s) = length s"
  by (simp add: ascii_def)

lemma unat_digit: "d < 10 \<Longrightarrow> unat (word_of_nat (48 + d) :: u8) = 48 + d"
  by (simp add: unat_of_nat take_bit_nat_eq_self del: of_nat_add)

lemma digit_digit: "d < 10 \<Longrightarrow> is_digit (word_of_nat (48 + d))"
  using unat_digit [of d] unfolding is_digit_def word_le_nat_alt by simp

lemma is_digit_cases:
  "is_digit b \<Longrightarrow> b \<in> {48, 49, 50, 51, 52, 53, 54, 55, 56, 57}"
proof -
  assume "is_digit b"
  then have "unat b \<in> {48..57}" by (simp add: is_digit_def word_le_nat_alt)
  then have "unat b \<in> {48, 49, 50, 51, 52, 53, 54, 55, 56, 57}"
    unfolding insert_iff empty_iff atLeastAtMost_iff by presburger
  then show ?thesis by (auto simp: word_unat_eq_iff)
qed

lemma decimal_nonempty [simp]: "decimal n \<noteq> []"
  by (subst decimal.simps) simp

lemma decimal_digits: "b \<in> set (decimal n) \<Longrightarrow> is_digit b"
proof (induction n rule: decimal.induct)
  case (1 n)
  then show ?case
    using digit_digit [of n] digit_digit [of "n mod 10"] by (subst (asm) (2) decimal.simps) (auto split: if_splits)
qed

lemma dec_value_digits: "(\<And>b. b \<in> set bs \<Longrightarrow> is_digit b) \<Longrightarrow> dec_value bs = foldl (\<lambda>n b. n * 10 + (unat b - 48)) 0 bs"
  by (simp add: dec_value_def takeWhile_eq_all_conv [THEN iffD2])

lemma dec_value_decimal: "dec_value (decimal n) = n"
proof -
  have "foldl (\<lambda>n b. n * 10 + (unat b - 48)) 0 (decimal n) = n"
  proof (induction n rule: decimal.induct)
    case (1 n)
    then show ?case
      using unat_digit [of n] unat_digit [of "n mod 10"] by (subst decimal.simps) (auto simp: mult.commute)
  qed
  then show ?thesis using dec_value_digits [OF decimal_digits] by simp
qed

lemma strtoul_decimal: "n < 2 ^ 64 \<Longrightarrow> strtoul (decimal n) = word_of_nat n"
  by (simp add: strtoul_def dec_value_decimal)

lemma length_decimal: "0 < k \<Longrightarrow> n < 10 ^ k \<Longrightarrow> length (decimal n) \<le> k"
proof (induction k arbitrary: n)
  case (Suc k)
  show ?case
  proof (cases "n < 10")
    case True
    then show ?thesis by (subst decimal.simps) simp
  next
    case False
    then have "0 < k" using Suc.prems by (cases k) auto
    moreover have "n div 10 < 10 ^ k" using Suc.prems by (simp add: less_mult_imp_div_less mult.commute)
    ultimately show ?thesis using Suc.IH [of "n div 10"] False by (subst decimal.simps) simp
  qed
qed simp

lemma length_decimal_u64: "n < 2 ^ 64 \<Longrightarrow> length (decimal n) \<le> 20"
  by (rule length_decimal) simp_all

lemma length_decimal_u32: "n < 2 ^ 32 \<Longrightarrow> length (decimal n) \<le> 10"
  by (rule length_decimal) simp_all

lemma length_decimal_u16: "n < 2 ^ 16 \<Longrightarrow> length (decimal n) \<le> 5"
  by (rule length_decimal) simp_all

text \<open>The first digit is zero only for zero.\<close>

lemma decimal_zero: "decimal 0 = [48]"
  by (subst decimal.simps) simp

lemma hd_decimal: "0 < n \<Longrightarrow> hd (decimal n) \<noteq> 48 \<and> is_digit (hd (decimal n))"
proof (induction n rule: decimal.induct)
  case (1 n)
  show ?case
  proof (cases "n < 10")
    case True
    have "unat (word_of_nat (48 + n) :: u8) \<noteq> unat (48 :: u8)" unfolding unat_digit [OF True] using 1(2) by simp
    then have "(word_of_nat (48 + n) :: u8) \<noteq> 48" by metis
    then show ?thesis using True digit_digit [OF True] by (subst (1 2) decimal.simps) simp
  next
    case False
    then show ?thesis using 1(1) [OF False] by (subst (1 2) decimal.simps) simp
  qed
qed

end
