(* ===== verification/Memtext.thy ===== *)
theory Memtext
  imports Decimal
begin

text \<open>
  The parser of the memcached text protocol (\<open>gate/memproto/memtext.c\<close>, \<open>gate/memproto/memtext.h\<close>):
  a table-driven machine that takes the bytes of the connection one at a time, marks where the parts of
  a command are in the buffer, and makes the callback of the command at its end. The tables are those of
  the file; \<open>char\<close> is signed and \<open>unsigned long\<close> has 64 bits.

  A pointer into the buffer is its position from the start of the data. The callback is a function of the
  command, the request, the buffer, which it may write to, and the state of its owner.
\<close>

section \<open>The tables\<close>

definition memtext_actions :: "nat list" where
  "memtext_actions = [
    0, 1, 0, 1, 1, 1, 2, 1, 4, 1, 5, 1, 6, 1, 7, 1, 8, 1, 9, 1, 10, 1, 11, 1, 12, 1, 13, 1, 14, 1, 15, 1, 16, 1, 17,
    1, 18, 1, 19, 1, 20, 1, 21, 1, 22, 1, 23, 1, 24, 1, 25, 1, 26, 1, 27, 1, 28, 1, 29, 1, 30, 1, 31, 1, 32, 2, 3, 1]"

definition memtext_key_offsets :: "nat list" where
  "memtext_key_offsets = [
    0, 0, 9, 11, 12, 13, 17, 21, 24, 25, 28, 29, 31, 35, 36, 37, 38, 39, 40, 41, 45, 49, 52, 53, 56, 57, 59, 62, 65,
    67, 68, 69, 70, 73, 75, 76, 77, 78, 79, 80, 81, 83, 87, 90, 93, 94, 96, 97, 98, 102, 106, 109, 111, 112, 113,
    114, 115, 116, 117, 118, 119, 120, 124, 125, 126, 127, 128, 132, 136, 137, 141, 143, 144, 145, 146, 147, 148,
    149, 150, 151, 155, 156, 157, 159, 163, 167, 168, 172, 174, 175, 176, 177, 178, 179, 180, 181, 182, 183, 184,
    185, 186, 187, 188, 189, 190, 191, 192, 193, 194, 195, 196, 197, 198, 199, 200, 203, 205, 206, 207, 208, 209,
    210, 211, 213, 216, 219, 220, 221, 222, 223, 232]"

definition memtext_trans_keys :: "int list" where
  "memtext_trans_keys = [
    97, 99, 100, 103, 105, 112, 114, 115, 118, 100, 112, 100, 32, 0, 10, 13, 32, 0, 10, 13, 32, 48, 49, 57, 32, 48,
    49, 57, 32, 49, 57, 13, 32, 48, 57, 10, 13, 10, 97, 115, 32, 0, 10, 13, 32, 0, 10, 13, 32, 48, 49, 57, 32, 48,
    49, 57, 32, 49, 57, 32, 48, 57, 48, 49, 57, 13, 32, 10, 13, 10, 13, 32, 110, 13, 32, 111, 114, 101, 112, 108,
    121, 13, 32, 13, 32, 48, 57, 32, 48, 57, 32, 48, 57, 101, 99, 108, 114, 32, 0, 10, 13, 32, 0, 10, 13, 32, 48, 49,
    57, 13, 32, 10, 110, 111, 114, 101, 112, 108, 121, 13, 13, 32, 48, 57, 101, 116, 101, 32, 0, 10, 13, 32, 0, 10,
    13, 32, 10, 48, 110, 49, 57, 13, 32, 110, 111, 114, 101, 112, 108, 121, 13, 13, 32, 48, 57, 101, 116, 32, 115, 0,
    10, 13, 32, 0, 10, 13, 32, 10, 0, 10, 13, 32, 13, 32, 32, 110, 99, 114, 114, 101, 112, 101, 110, 100, 101, 112,
    108, 97, 99, 101, 101, 116, 101, 114, 115, 105, 111, 110, 13, 10, 13, 32, 110, 13, 32, 111, 114, 101, 112, 108,
    121, 13, 32, 32, 48, 57, 32, 48, 57, 112, 101, 110, 100, 97, 99, 100, 103, 105, 112, 114, 115, 118, 0]"

definition memtext_single_lengths :: "nat list" where
  "memtext_single_lengths = [
    0, 9, 2, 1, 1, 4, 4, 1, 1, 1, 1, 0, 2, 1, 1, 1, 1, 1, 1, 4, 4, 1, 1, 1, 1, 0, 1, 1, 2, 1, 1, 1, 3, 2, 1, 1, 1, 1,
    1, 1, 2, 2, 1, 1, 1, 2, 1, 1, 4, 4, 1, 2, 1, 1, 1, 1, 1, 1, 1, 1, 1, 2, 1, 1, 1, 1, 4, 4, 1, 2, 2, 1, 1, 1, 1, 1,
    1, 1, 1, 2, 1, 1, 2, 4, 4, 1, 4, 2, 1, 1, 1, 1, 1, 1, 1, 1, 1, 1, 1, 1, 1, 1, 1, 1, 1, 1, 1, 1, 1, 1, 1, 1, 1, 1,
    3, 2, 1, 1, 1, 1, 1, 1, 2, 1, 1, 1, 1, 1, 1, 9, 0]"

definition memtext_range_lengths :: "nat list" where
  "memtext_range_lengths = [
    0, 0, 0, 0, 0, 0, 0, 1, 0, 1, 0, 1, 1, 0, 0, 0, 0, 0, 0, 0, 0, 1, 0, 1, 0, 1, 1, 1, 0, 0, 0, 0, 0, 0, 0, 0, 0, 0,
    0, 0, 0, 1, 1, 1, 0, 0, 0, 0, 0, 0, 1, 0, 0, 0, 0, 0, 0, 0, 0, 0, 0, 1, 0, 0, 0, 0, 0, 0, 0, 1, 0, 0, 0, 0, 0, 0,
    0, 0, 0, 1, 0, 0, 0, 0, 0, 0, 0, 0, 0, 0, 0, 0, 0, 0, 0, 0, 0, 0, 0, 0, 0, 0, 0, 0, 0, 0, 0, 0, 0, 0, 0, 0, 0, 0,
    0, 0, 0, 0, 0, 0, 0, 0, 0, 1, 1, 0, 0, 0, 0, 0, 0]"

definition memtext_index_offsets :: "nat list" where
  "memtext_index_offsets = [
    0, 0, 10, 13, 15, 17, 22, 27, 30, 32, 35, 37, 39, 43, 45, 47, 49, 51, 53, 55, 60, 65, 68, 70, 73, 75, 77, 80, 83,
    86, 88, 90, 92, 96, 99, 101, 103, 105, 107, 109, 111, 114, 118, 121, 124, 126, 129, 131, 133, 138, 143, 146, 149,
    151, 153, 155, 157, 159, 161, 163, 165, 167, 171, 173, 175, 177, 179, 184, 189, 191, 195, 198, 200, 202, 204,
    206, 208, 210, 212, 214, 218, 220, 222, 225, 230, 235, 237, 242, 245, 247, 249, 251, 253, 255, 257, 259, 261,
    263, 265, 267, 269, 271, 273, 275, 277, 279, 281, 283, 285, 287, 289, 291, 293, 295, 297, 301, 304, 306, 308,
    310, 312, 314, 316, 319, 322, 325, 327, 329, 331, 333, 343]"

definition memtext_indicies :: "nat list" where
  "memtext_indicies = [
    0, 2, 3, 4, 5, 6, 7, 8, 9, 1, 10, 11, 1, 12, 1, 13, 1, 1, 1, 1, 1, 14, 1, 1, 1, 16, 15, 17, 18, 1, 19, 1, 20, 21,
    1, 22, 1, 23, 1, 24, 25, 26, 1, 27, 1, 28, 1, 29, 1, 30, 1, 31, 1, 32, 1, 1, 1, 1, 32, 33, 1, 1, 1, 35, 34, 36,
    37, 1, 38, 1, 39, 40, 1, 41, 1, 42, 1, 43, 44, 1, 45, 46, 1, 47, 48, 1, 49, 1, 50, 1, 51, 1, 52, 53, 54, 1, 52,
    53, 1, 55, 1, 56, 1, 57, 1, 58, 1, 59, 1, 60, 1, 61, 62, 1, 47, 48, 63, 1, 41, 64, 1, 38, 65, 1, 66, 1, 67, 68,
    1, 69, 1, 70, 1, 1, 1, 1, 1, 71, 1, 1, 1, 73, 72, 74, 75, 1, 76, 77, 1, 78, 1, 79, 1, 80, 1, 81, 1, 82, 1, 83, 1,
    84, 1, 85, 1, 86, 1, 76, 77, 87, 1, 88, 1, 89, 1, 90, 1, 91, 1, 1, 1, 1, 1, 92, 1, 1, 94, 95, 93, 96, 1, 97, 99,
    98, 1, 100, 101, 1, 99, 1, 102, 1, 103, 1, 104, 1, 105, 1, 106, 1, 107, 1, 108, 1, 100, 101, 109, 1, 110, 1, 111,
    1, 112, 113, 1, 1, 1, 1, 1, 114, 1, 1, 116, 117, 115, 118, 1, 1, 1, 120, 121, 119, 120, 121, 1, 112, 1, 122, 1,
    123, 1, 124, 1, 125, 1, 126, 1, 127, 1, 128, 1, 129, 1, 130, 1, 131, 1, 132, 1, 133, 1, 134, 1, 135, 1, 136, 1,
    137, 1, 138, 1, 139, 1, 140, 1, 141, 1, 142, 1, 143, 1, 144, 1, 145, 1, 146, 1, 147, 148, 149, 1, 147, 148, 1,
    150, 1, 151, 1, 152, 1, 153, 1, 154, 1, 155, 1, 156, 157, 1, 22, 158, 1, 19, 159, 1, 160, 1, 161, 1, 162, 1, 163,
    1, 0, 2, 3, 4, 5, 6, 7, 8, 9, 1, 164, 0]"

definition memtext_trans_targs :: "nat list" where
  "memtext_trans_targs = [
    2, 0, 16, 44, 80, 89, 92, 98, 104, 106, 3, 125, 4, 5, 6, 6, 7, 8, 124, 9, 10, 123, 11, 12, 13, 114, 12, 14, 15,
    129, 17, 18, 19, 20, 20, 21, 22, 43, 23, 24, 42, 25, 26, 27, 26, 28, 41, 29, 32, 30, 31, 129, 29, 33, 34, 35, 36,
    37, 38, 39, 40, 29, 33, 41, 42, 43, 45, 46, 62, 47, 48, 49, 49, 50, 51, 61, 52, 53, 129, 54, 55, 56, 57, 58, 59,
    60, 52, 61, 63, 64, 65, 66, 67, 67, 68, 69, 129, 70, 79, 72, 68, 71, 73, 74, 75, 76, 77, 78, 68, 79, 81, 82, 83,
    88, 84, 84, 85, 86, 129, 84, 85, 87, 90, 91, 47, 93, 94, 95, 96, 97, 4, 99, 100, 101, 102, 103, 4, 105, 4, 107,
    108, 109, 110, 111, 112, 113, 129, 13, 115, 116, 117, 118, 119, 120, 121, 122, 13, 115, 123, 124, 126, 127, 128,
    4, 130]"

definition memtext_trans_actions :: "nat list" where
  "memtext_trans_actions = [
    1, 0, 1, 1, 1, 1, 1, 1, 1, 1, 0, 0, 35, 0, 3, 0, 5, 7, 7, 9, 11, 11, 13, 15, 17, 17, 0, 25, 0, 55, 0, 43, 0, 3,
    0, 5, 7, 7, 9, 11, 11, 13, 15, 17, 0, 21, 21, 23, 23, 25, 0, 57, 0, 0, 0, 0, 0, 0, 0, 0, 0, 19, 19, 0, 0, 0, 0,
    0, 0, 49, 0, 3, 0, 5, 21, 21, 23, 23, 61, 0, 0, 0, 0, 0, 0, 0, 19, 0, 0, 0, 45, 0, 3, 0, 5, 5, 59, 11, 11, 0, 13,
    13, 0, 0, 0, 0, 0, 0, 19, 0, 0, 29, 0, 31, 3, 0, 5, 5, 53, 65, 0, 0, 0, 0, 47, 0, 0, 0, 0, 0, 41, 0, 0, 0, 0, 0,
    37, 0, 33, 0, 0, 0, 0, 0, 51, 0, 63, 0, 0, 0, 0, 0, 0, 0, 0, 0, 19, 19, 0, 0, 0, 0, 0, 39, 27]"


section \<open>The transition of a state\<close>

text \<open>
  The two binary searches: the position of the key, or of the pair of keys around the character. The
  bounds are pointers into the table and can cross its ends, so they are integers.
\<close>

function single_search :: "int \<Rightarrow> int \<Rightarrow> int \<Rightarrow> int option" where
  "single_search c lower upper =
     (if upper < lower then None
      else let mid = lower + (upper - lower) div 2; key = memtext_trans_keys ! nat mid
           in if c < key then single_search c lower (mid - 1)
              else if key < c then single_search c (mid + 1) upper
              else Some mid)"
  by pat_completeness auto
termination
  by (relation "measure (\<lambda>(c, lower, upper). nat (upper - lower + 1))") auto

function range_search :: "int \<Rightarrow> int \<Rightarrow> int \<Rightarrow> int option" where
  "range_search c lower upper =
     (if upper < lower then None
      else let mid = lower + (upper - lower) div 4 * 2
           in if c < memtext_trans_keys ! nat mid then range_search c lower (mid - 2)
              else if memtext_trans_keys ! nat (mid + 1) < c then range_search c (mid + 2) upper
              else Some mid)"
  by pat_completeness auto
termination
  by (relation "measure (\<lambda>(c, lower, upper). nat (upper - lower + 2))") auto

declare single_search.simps [simp del] range_search.simps [simp del]

definition memtext_trans :: "nat \<Rightarrow> u8 \<Rightarrow> nat" where
  "memtext_trans cs ch =
     (let c = sint ch;
          keys = memtext_key_offsets ! cs;
          trans = memtext_index_offsets ! cs;
          slen = memtext_single_lengths ! cs;
          rlen = memtext_range_lengths ! cs;
          keys' = keys + slen
      in memtext_indicies !
           (case (if 0 < slen then single_search c (int keys) (int keys + int slen - 1) else None) of
              Some mid \<Rightarrow> trans + nat (mid - int keys)
            | None \<Rightarrow>
                (case (if 0 < rlen then range_search c (int keys') (int keys' + 2 * int rlen - 2) else None) of
                   Some mid \<Rightarrow> trans + slen + nat ((mid - int keys') div 2)
                 | None \<Rightarrow> trans + slen + rlen)))"

text \<open>The actions that begin at an entry of the table, which has their number first; 0 stands for none.\<close>

definition memtext_action_list :: "nat \<Rightarrow> nat list" where
  "memtext_action_list a = (if a = 0 then [] else take (memtext_actions ! a) (drop (Suc a) memtext_actions))"

text \<open>The target of a transition and the numbers of its actions.\<close>

definition memtext_move :: "nat \<Rightarrow> u8 \<Rightarrow> nat \<times> nat list" where
  "memtext_move cs ch =
     (let t = memtext_trans cs ch in (memtext_trans_targs ! t, memtext_action_list (memtext_trans_actions ! t)))"

section \<open>The parser\<close>

datatype memtext_command =
    MEMTEXT_CMD_GET | MEMTEXT_CMD_GETS | MEMTEXT_CMD_SET | MEMTEXT_CMD_ADD | MEMTEXT_CMD_REPLACE | MEMTEXT_CMD_APPEND
  | MEMTEXT_CMD_PREPEND | MEMTEXT_CMD_CAS | MEMTEXT_CMD_DELETE | MEMTEXT_CMD_INCR | MEMTEXT_CMD_DECR | MEMTEXT_CMD_VERSION

definition MEMTEXT_MAX_MULTI_GET :: nat where "MEMTEXT_MAX_MULTI_GET = 256"

definition NUM_BUF_MAX :: nat where "NUM_BUF_MAX = 20"

definition memtext_start :: nat where "memtext_start = 1"
definition memtext_first_final :: nat where "memtext_first_final = 129"
definition memtext_error :: nat where "memtext_error = 0"
definition memtext_en_data :: nat where "memtext_en_data = 130"

record memtext_parser =
  mt_data_count :: u64
  mt_cs :: nat
  mt_stack :: "nat list"
  mt_command :: memtext_command
  mt_key_pos :: "u64 list"
  mt_key_len :: "u32 list"
  mt_keys :: u32
  mt_flags :: u64
  mt_exptime :: u32
  mt_bytes :: u64
  mt_noreply :: bool
  mt_cas_unique :: u64
  mt_data_pos :: u64
  mt_data_len :: u32

text \<open>The requests given to the callbacks: positions and lengths of the runs of bytes.\<close>

datatype memtext_request =
    Rq_retrieval "(u64 \<times> u32) list"
  | Rq_storage u64 u32 u64 u32 u16 u32 bool
  | Rq_cas u64 u32 u64 u32 u16 u32 bool u64
  | Rq_delete u64 u32 u32 bool
  | Rq_numeric u64 u32 u64 bool
  | Rq_other

text \<open>The callbacks: null, or a function that returns a number, the buffer and the state of the user.\<close>

type_synonym 's memtext_callback =
  "memtext_command \<Rightarrow> (memtext_request \<Rightarrow> bytes \<Rightarrow> 's \<Rightarrow> (int \<times> bytes \<times> 's) result) option"

definition memtext_init :: memtext_parser where
  "memtext_init =
     \<lparr>mt_data_count = 0, mt_cs = memtext_start, mt_stack = [], mt_command = MEMTEXT_CMD_GET,
      mt_key_pos = replicate MEMTEXT_MAX_MULTI_GET 0, mt_key_len = replicate MEMTEXT_MAX_MULTI_GET 0, mt_keys = 0,
      mt_flags = 0, mt_exptime = 0, mt_bytes = 0, mt_noreply = False, mt_cas_unique = 0, mt_data_pos = 0, mt_data_len = 0\<rparr>"

section \<open>Actions\<close>

text \<open>
  \<open>SET_INTEGER\<close>: the number that begins at the mark \<open>pos\<close> and ends before \<open>p\<close>, converted by \<open>cast\<close> to the type of
  the field; \<open>None\<close> is the jump to \<open>convert_error\<close>.
\<close>

definition set_integer :: "(u64 \<Rightarrow> 'a::len word) \<Rightarrow> nat \<Rightarrow> nat \<Rightarrow> bytes \<Rightarrow> 'a word option result" where
  "set_integer cast pos p data =
     (if length data \<le> pos then Inl Undefined_behaviour
      else if data ! pos = 48 then Inr (Some 0)
      else let len = unat (word_of_nat p - word_of_nat pos :: u64)
           in if NUM_BUF_MAX < len then Inr None
              else let v = cast (strtoul (take len (drop pos data)))
                   in if v = 0 then Inr None else Inr (Some v))"

text \<open>
  The actions without a callback, at position \<open>p\<close>. The result is whether the parser goes on, or jumps to
  \<open>convert_error\<close>. The arrays of keys have 256 entries.
\<close>

definition set_field :: "'v option result \<Rightarrow> ('v \<Rightarrow> memtext_parser) \<Rightarrow> memtext_parser \<Rightarrow> (bool \<times> memtext_parser) result" where
  "set_field r f ctx = (case r of Inl e \<Rightarrow> Inl e | Inr None \<Rightarrow> Inr (False, ctx) | Inr (Some v) \<Rightarrow> Inr (True, f v))"

definition memtext_action :: "nat \<Rightarrow> nat \<Rightarrow> bytes \<Rightarrow> memtext_parser \<Rightarrow> (bool \<times> memtext_parser) result" where
  "memtext_action a p data ctx =
     (let k = unat (mt_keys ctx)
      in if a = 0 then Inr (True, ctx\<lparr>mt_keys := 0, mt_noreply := False, mt_exptime := 0\<rparr>)
         else if a = 1 then
           (if length (mt_key_pos ctx) \<le> k then Inl Undefined_behaviour
            else Inr (True, ctx\<lparr>mt_key_pos := (mt_key_pos ctx)[k := word_of_nat p]\<rparr>))
         else if a = 2 then
           (if length (mt_key_len ctx) \<le> k \<or> length (mt_key_pos ctx) \<le> k then Inl Undefined_behaviour
            else Inr (True, ctx\<lparr>mt_key_len := (mt_key_len ctx)[k := ucast (word_of_nat p - mt_key_pos ctx ! k)]\<rparr>))
         else if a = 3 then
           (let ctx1 = ctx\<lparr>mt_keys := mt_keys ctx + 1\<rparr>
            in Inr (unat (mt_keys ctx1) \<le> MEMTEXT_MAX_MULTI_GET, ctx1))
         else if a = 4 then Inr (True, ctx\<lparr>mt_flags := word_of_nat p\<rparr>)
         else if a = 5 then set_field (set_integer id (unat (mt_flags ctx)) p data) (\<lambda>v. ctx\<lparr>mt_flags := v\<rparr>) ctx
         else if a = 6 then Inr (True, ctx\<lparr>mt_exptime := word_of_nat p\<rparr>)
         else if a = 7 then set_field (set_integer ucast (unat (mt_exptime ctx)) p data) (\<lambda>v. ctx\<lparr>mt_exptime := v\<rparr>) ctx
         else if a = 8 then Inr (True, ctx\<lparr>mt_bytes := word_of_nat p\<rparr>)
         else if a = 9 then set_field (set_integer id (unat (mt_bytes ctx)) p data) (\<lambda>v. ctx\<lparr>mt_bytes := v\<rparr>) ctx
         else if a = 10 then Inr (True, ctx\<lparr>mt_noreply := True\<rparr>)
         else if a = 11 then Inr (True, ctx\<lparr>mt_cas_unique := word_of_nat p\<rparr>)
         else if a = 12 then set_field (set_integer id (unat (mt_cas_unique ctx)) p data) (\<lambda>v. ctx\<lparr>mt_cas_unique := v\<rparr>) ctx
         else if a = 13 then
           (if mt_stack ctx \<noteq> [] then Inl Undefined_behaviour
            else Inr (True, ctx\<lparr>mt_data_pos := word_of_nat (p + 1), mt_data_count := mt_bytes ctx,
                                mt_stack := [mt_cs ctx], mt_cs := memtext_en_data\<rparr>))
         else if a = 14 then
           (let ctx1 = ctx\<lparr>mt_data_count := mt_data_count ctx - 1\<rparr>
            in if mt_data_count ctx1 = 0 then
                 (case mt_stack ctx of
                    [] \<Rightarrow> Inl Undefined_behaviour
                  | cs # st \<Rightarrow> Inr (True, ctx1\<lparr>mt_data_len := ucast (word_of_nat (p + 1) - mt_data_pos ctx), mt_cs := cs, mt_stack := st\<rparr>))
               else Inr (True, ctx1))
         else if a = 15 then Inr (True, ctx\<lparr>mt_command := MEMTEXT_CMD_GET\<rparr>)
         else if a = 16 then Inr (True, ctx\<lparr>mt_command := MEMTEXT_CMD_GETS\<rparr>)
         else if a = 17 then Inr (True, ctx\<lparr>mt_command := MEMTEXT_CMD_SET\<rparr>)
         else if a = 18 then Inr (True, ctx\<lparr>mt_command := MEMTEXT_CMD_ADD\<rparr>)
         else if a = 19 then Inr (True, ctx\<lparr>mt_command := MEMTEXT_CMD_REPLACE\<rparr>)
         else if a = 20 then Inr (True, ctx\<lparr>mt_command := MEMTEXT_CMD_APPEND\<rparr>)
         else if a = 21 then Inr (True, ctx\<lparr>mt_command := MEMTEXT_CMD_PREPEND\<rparr>)
         else if a = 22 then Inr (True, ctx\<lparr>mt_command := MEMTEXT_CMD_CAS\<rparr>)
         else if a = 23 then Inr (True, ctx\<lparr>mt_command := MEMTEXT_CMD_DELETE\<rparr>)
         else if a = 24 then Inr (True, ctx\<lparr>mt_command := MEMTEXT_CMD_INCR\<rparr>)
         else if a = 25 then Inr (True, ctx\<lparr>mt_command := MEMTEXT_CMD_DECR\<rparr>)
         else Inr (True, ctx\<lparr>mt_command := MEMTEXT_CMD_VERSION\<rparr>))"

text \<open>The actions 27 to 32: the request that is made. \<open>++ctx->keys\<close> belongs to the first.\<close>

definition memtext_request_of :: "nat \<Rightarrow> memtext_parser \<Rightarrow> (memtext_parser \<times> memtext_request) result" where
  "memtext_request_of a ctx =
     (let key = mt_key_pos ctx ! 0; keylen = mt_key_len ctx ! 0; fl = ucast (mt_flags ctx)
      in if a = 27 then
           (let ctx1 = ctx\<lparr>mt_keys := mt_keys ctx + 1\<rparr>; n = unat (mt_keys ctx1)
            in if length (mt_key_pos ctx) < n \<or> length (mt_key_len ctx) < n then Inl Undefined_behaviour
               else Inr (ctx1, Rq_retrieval (zip (take n (mt_key_pos ctx)) (take n (mt_key_len ctx)))))
         else if a = 28 then
           Inr (ctx, Rq_storage key keylen (mt_data_pos ctx) (mt_data_len ctx) fl (mt_exptime ctx) (mt_noreply ctx))
         else if a = 29 then
           Inr (ctx, Rq_cas key keylen (mt_data_pos ctx) (mt_data_len ctx) fl (mt_exptime ctx) (mt_noreply ctx) (mt_cas_unique ctx))
         else if a = 30 then Inr (ctx, Rq_delete key keylen (mt_exptime ctx) (mt_noreply ctx))
         else if a = 31 then Inr (ctx, Rq_numeric key keylen (mt_cas_unique ctx) (mt_noreply ctx))
         else Inr (ctx, Rq_other))"

definition memtext_do ::
    "'s memtext_callback \<Rightarrow> nat \<Rightarrow> bytes \<Rightarrow> 's \<Rightarrow> memtext_parser \<Rightarrow> (bool \<times> bytes \<times> 's \<times> memtext_parser) result" where
  "memtext_do cb a data s ctx =
     (case memtext_request_of a ctx of
        Inl e \<Rightarrow> Inl e
      | Inr (ctx1, req) \<Rightarrow>
          (case cb (mt_command ctx1) of
             None \<Rightarrow> Inr (False, data, s, ctx1)
           | Some f \<Rightarrow>
               (case f req data s of
                  Inl e \<Rightarrow> Inl e
                | Inr (ret, data', s') \<Rightarrow> Inr (0 \<le> ret, data', s', ctx1))))"

fun memtext_actions_run ::
    "'s memtext_callback \<Rightarrow> nat list \<Rightarrow> nat \<Rightarrow> bytes \<Rightarrow> 's \<Rightarrow> memtext_parser \<Rightarrow> (bool \<times> bytes \<times> 's \<times> memtext_parser) result" where
  "memtext_actions_run cb [] p data s ctx = Inr (True, data, s, ctx)"
| "memtext_actions_run cb (a # as) p data s ctx =
     (case (if 27 \<le> a then memtext_do cb a data s ctx
            else case memtext_action a p data ctx of Inl e \<Rightarrow> Inl e | Inr (go, ctx') \<Rightarrow> Inr (go, data, s, ctx')) of
        Inl e \<Rightarrow> Inl e
      | Inr (go, data', s', ctx') \<Rightarrow>
          if go then memtext_actions_run cb as p data' s' ctx' else Inr (False, data', s', ctx'))"

section \<open>Execution\<close>

text \<open>
  The loop over the remaining \<open>n\<close> characters from position \<open>p\<close>. It stops in the error state, where the
  machine goes on a character no command has there and after a failed conversion.
\<close>

primrec memtext_loop ::
    "'s memtext_callback \<Rightarrow> nat \<Rightarrow> nat \<Rightarrow> bytes \<Rightarrow> 's \<Rightarrow> memtext_parser \<Rightarrow> (nat \<times> bytes \<times> 's \<times> memtext_parser) result" where
  "memtext_loop cb 0 p data s ctx = Inr (p, data, s, ctx)"
| "memtext_loop cb (Suc n) p data s ctx =
     (if length data \<le> p then Inl Undefined_behaviour
      else let (targ, acts) = memtext_move (mt_cs ctx) (data ! p)
           in case memtext_actions_run cb acts p data s (ctx\<lparr>mt_cs := targ\<rparr>) of
                Inl e \<Rightarrow> Inl e
              | Inr (go, data', s', ctx') \<Rightarrow>
                  if \<not> go then Inr (p, data', s', ctx'\<lparr>mt_cs := memtext_error\<rparr>)
                  else if mt_cs ctx' = memtext_error then Inr (p, data', s', ctx')
                  else memtext_loop cb n (Suc p) data' s' ctx')"

definition memtext_execute ::
    "'s memtext_callback \<Rightarrow> bytes \<Rightarrow> nat \<Rightarrow> 's \<Rightarrow> memtext_parser \<Rightarrow> (int \<times> nat \<times> bytes \<times> 's \<times> memtext_parser) result" where
  "memtext_execute cb data off s ctx =
     (if length data \<le> off then Inr (0, off, data, s, ctx)
      else if mt_cs ctx = memtext_error then Inr (-1, off, data, s, ctx)
      else case memtext_loop cb (length data - off) off data s ctx of
             Inl e \<Rightarrow> Inl e
           | Inr (p, data', s', ctx') \<Rightarrow>
               Inr (if mt_cs ctx' = memtext_error then -1 else if mt_cs ctx' = memtext_first_final then 1 else 0, p, data', s', ctx'))"

end
