(* ===== verification/MemcacheText.thy ===== *)
theory MemcacheText
  imports FrontEnd Memtext
begin

text \<open>
  The front end for the memcached text protocol (\<open>gate/memcache_text.cc\<close>): a handler per connection runs
  the parser over its buffer, the callbacks of the parser submit requests to the gateway, and the callbacks
  of the gateway write the replies. The keys of a get are asked for one by one; their reply is one vector
  of runs of bytes, which is written when the last of them is answered.

  The buffer of the handler is the queue of bytes a stream buffer is. The text after \<open>VERSION\<close> comes
  from the configuration of the build.
\<close>

section \<open>The handler\<close>

text \<open>
  The vector, the count and the requests of a get of many keys, shared by its entries. A run whose
  base is null is \<open>None\<close>.
\<close>

record get_multi =
  gm_count :: u32
  gm_vhead :: "bytes option list"

text \<open>An entry, with the callback its request is submitted with.\<close>

datatype text_entry =
    Te_get bool
  | Te_get_multi bool nat nat
  | Te_set
  | Te_cas
  | Te_delete
  | Te_noreply

record text_handler =
  th_buffer :: bytes
  th_memproto :: memtext_parser
  th_off :: nat
  th_valid :: bool
  th_entries :: "text_entry list"
  th_blocks :: "get_multi list"

type_synonym text_state = "text_handler \<times> front_action list"

definition text_handler_new :: text_handler where
  "text_handler_new = \<lparr>th_buffer = [], th_memproto = memtext_init, th_off = 0, th_valid = True, th_entries = [], th_blocks = []\<rparr>"

definition text_handler_delete :: "text_handler \<Rightarrow> text_handler" where
  "text_handler_delete h = h\<lparr>th_valid := False\<rparr>"

section \<open>Replies\<close>

definition CRLF :: bytes where "CRLF = [13, 10]"
definition NOT_SUPPORTED_REPLY :: bytes where "NOT_SUPPORTED_REPLY = ascii ''CLIENT_ERROR supported'' @ CRLF"
definition GET_FAILED_REPLY :: bytes where "GET_FAILED_REPLY = ascii ''SERVER_ERROR get failed'' @ CRLF"
definition STORE_FAILED_REPLY :: bytes where "STORE_FAILED_REPLY = ascii ''SERVER_ERROR store failed'' @ CRLF"
definition DELETE_FAILED_REPLY :: bytes where "DELETE_FAILED_REPLY = ascii ''SERVER_ERROR delete failed'' @ CRLF"
definition VERSION_REPLY :: "bytes \<Rightarrow> bytes" where "VERSION_REPLY version = ascii ''VERSION '' @ version @ CRLF"
definition EXISTS_REPLY :: bytes where "EXISTS_REPLY = ascii ''EXISTS'' @ CRLF"
definition END_REPLY :: bytes where "END_REPLY = ascii ''END'' @ CRLF"
definition STORED_REPLY :: bytes where "STORED_REPLY = ascii ''STORED'' @ CRLF"
definition DELETED_REPLY :: bytes where "DELETED_REPLY = ascii ''DELETED'' @ CRLF"
definition NOT_DELETED_REPLY :: bytes where "NOT_DELETED_REPLY = ascii ''NOT FOUND'' @ CRLF"

definition HEADER_SIZE :: "nat \<Rightarrow> nat" where
  "HEADER_SIZE keylen = 6 + keylen + 1 + 5 + 1 + 10 + 1 + 20 + 3"

definition text_send_data :: "bytes \<Rightarrow> text_handler \<Rightarrow> front_action list" where
  "text_send_data buf h = (if th_valid h then [F_write [buf]] else [])"

definition text_send_datav :: "bytes list \<Rightarrow> text_handler \<Rightarrow> front_action list" where
  "text_send_datav vb h = (if th_valid h then [F_write vb] else [])"

text \<open>The line in front of a value, as both callbacks write it. The flags are none when they are not kept.\<close>

definition value_header :: "bool \<Rightarrow> bytes \<Rightarrow> u16 option \<Rightarrow> nat \<Rightarrow> u64 \<Rightarrow> bytes" where
  "value_header require_cas key fl vallen clocktime =
     ascii ''VALUE '' @ key @
     (case fl of Some n \<Rightarrow> ascii '' '' @ decimal (unat n) | None \<Rightarrow> ascii '' 0'') @ ascii '' '' @ decimal vallen @
     (if require_cas then ascii '' '' @ decimal (unat clocktime) else []) @ CRLF"

text \<open>The header and the data of a result, unless it has no value or one that is too short or expired.\<close>

definition value_item :: "platform \<Rightarrow> gate_config \<Rightarrow> u32 \<Rightarrow> bool \<Rightarrow> gate_res \<Rightarrow> (bytes \<times> bytes) option" where
  "value_item p cfg now require_cas res =
     (case res of
        Res_get key hsh (Some val) ct \<Rightarrow>
          (if gc_save_exptime cfg \<and> (length val < 4 \<or> item_expired now (get_exptime p val)) then None
           else let val1 = (if gc_save_exptime cfg then drop 4 val else val)
                in if gc_save_flag cfg \<and> length val1 < 2 then None
                   else let fl = (if gc_save_flag cfg then Some (get_flags p val1) else None);
                            val2 = (if gc_save_flag cfg then drop 2 val1 else val1)
                        in Some (value_header require_cas key fl (length val2) ct, val2))
      | _ \<Rightarrow> None)"

definition text_response_get :: "platform \<Rightarrow> gate_config \<Rightarrow> u32 \<Rightarrow> bool \<Rightarrow> gate_res \<Rightarrow> text_handler \<Rightarrow> front_action list" where
  "text_response_get p cfg now require_cas res h =
     (if res = Res_get_error then text_send_data GET_FAILED_REPLY h
      else case value_item p cfg now require_cas res of
             None \<Rightarrow> text_send_data END_REPLY h
           | Some (header, val) \<Rightarrow> text_send_datav [header, val, CRLF @ END_REPLY] h)"

text \<open>Every second run begins a line; the first one that is there loses its line break.\<close>

fun strip_first :: "bytes option list \<Rightarrow> bytes option list" where
  "strip_first (Some b # vs) = Some (drop 2 b) # vs"
| "strip_first (None # v # vs) = None # v # strip_first vs"
| "strip_first vs = vs"

definition iov_bytes :: "bytes option \<Rightarrow> bytes" where
  "iov_bytes v = (case v of None \<Rightarrow> [] | Some b \<Rightarrow> b)"

definition text_response_get_multi ::
    "platform \<Rightarrow> gate_config \<Rightarrow> u32 \<Rightarrow> bool \<Rightarrow> nat \<Rightarrow> nat \<Rightarrow> gate_res \<Rightarrow> text_handler \<Rightarrow> text_handler \<times> front_action list" where
  "text_response_get_multi p cfg now require_cas off b res h =
     (let m = th_blocks h ! b;
          vhead = (case value_item p cfg now require_cas res of
                     None \<Rightarrow> gm_vhead m
                   | Some (header, val) \<Rightarrow> (gm_vhead m)[off := Some (CRLF @ header), off + 1 := Some val]);
          count = gm_count m - 1
      in if count = 0 then
           let vhead' = strip_first vhead
           in (h\<lparr>th_blocks := (th_blocks h)[b := \<lparr>gm_count = count, gm_vhead = vhead'\<rparr>]\<rparr>, text_send_datav (map iov_bytes vhead') h)
         else (h\<lparr>th_blocks := (th_blocks h)[b := \<lparr>gm_count = count, gm_vhead = vhead\<rparr>]\<rparr>, []))"

definition text_response_set :: "gate_res \<Rightarrow> text_handler \<Rightarrow> front_action list" where
  "text_response_set res h = (case res of Res_set _ _ _ _ _ \<Rightarrow> text_send_data STORED_REPLY h | _ \<Rightarrow> text_send_data STORE_FAILED_REPLY h)"

definition text_response_cas :: "gate_res \<Rightarrow> text_handler \<Rightarrow> front_action list" where
  "text_response_cas res h =
     (case res of
        Res_set _ _ _ _ success \<Rightarrow> text_send_data (if success then STORED_REPLY else EXISTS_REPLY) h
      | _ \<Rightarrow> text_send_data STORE_FAILED_REPLY h)"

definition text_response_delete :: "gate_res \<Rightarrow> text_handler \<Rightarrow> front_action list" where
  "text_response_delete res h =
     (case res of
        Res_delete _ _ del \<Rightarrow> text_send_data (if del then DELETED_REPLY else NOT_DELETED_REPLY) h
      | _ \<Rightarrow> text_send_data DELETE_FAILED_REPLY h)"

text \<open>The gateway calls the callback of the entry.\<close>

definition text_response :: "platform \<Rightarrow> gate_config \<Rightarrow> u32 \<Rightarrow> nat \<Rightarrow> gate_res \<Rightarrow> text_handler \<Rightarrow> text_handler \<times> front_action list" where
  "text_response p cfg now e res h =
     (if length (th_entries h) \<le> e then (h, [])
      else case th_entries h ! e of
             Te_get require_cas \<Rightarrow> (h, text_response_get p cfg now require_cas res h)
           | Te_get_multi require_cas off b \<Rightarrow> text_response_get_multi p cfg now require_cas off b res h
           | Te_set \<Rightarrow> (h, text_response_set res h)
           | Te_cas \<Rightarrow> (h, text_response_cas res h)
           | Te_delete \<Rightarrow> (h, text_response_delete res h)
           | Te_noreply \<Rightarrow> (h, []))"

section \<open>Requests\<close>

type_synonym text_result = "(int \<times> bytes \<times> text_state) result"

definition text_entry_new :: "text_entry \<Rightarrow> text_handler \<Rightarrow> text_handler" where
  "text_entry_new en h = h\<lparr>th_entries := th_entries h @ [en]\<rparr>"

definition text_request_get_single :: "bool \<Rightarrow> u64 \<times> u32 \<Rightarrow> bytes \<Rightarrow> text_state \<Rightarrow> text_result" where
  "text_request_get_single require_cas run data = (\<lambda>(h, acts).
     case run_of (unat (fst run)) (unat (snd run)) data of
       Inl e \<Rightarrow> Inl e
     | Inr key \<Rightarrow>
         Inr (0, data, text_entry_new (Te_get require_cas) h,
              acts @ [F_get \<lparr>rg_key = key, rg_user_hash = None, rg_user = length (th_entries h)\<rparr>]))"

text \<open>All runs of the keys.\<close>

primrec runs_of :: "(u64 \<times> u32) list \<Rightarrow> bytes \<Rightarrow> bytes list result" where
  "runs_of [] data = Inr []"
| "runs_of (r # rs) data =
     (case run_of (unat (fst r)) (unat (snd r)) data of
        Inl e \<Rightarrow> Inl e
      | Inr key \<Rightarrow> (case runs_of rs data of Inl e \<Rightarrow> Inl e | Inr keys \<Rightarrow> Inr (key # keys)))"

definition text_request_get_multi :: "bool \<Rightarrow> (u64 \<times> u32) list \<Rightarrow> bytes \<Rightarrow> text_state \<Rightarrow> text_result" where
  "text_request_get_multi require_cas runs data = (\<lambda>(h, acts).
     let n = length runs; e0 = length (th_entries h); b = length (th_blocks h);
         block = \<lparr>gm_count = word_of_nat n, gm_vhead = replicate (2 * n) None @ [Some (CRLF @ END_REPLY)]\<rparr>;
         me = map (\<lambda>i. Te_get_multi require_cas (2 * i) b) [0..<n]
     in case runs_of runs data of
          Inl e \<Rightarrow> Inl e
        | Inr keys \<Rightarrow>
            Inr (0, data, h\<lparr>th_entries := th_entries h @ me, th_blocks := th_blocks h @ [block]\<rparr>,
                 acts @ map (\<lambda>i. F_get \<lparr>rg_key = keys ! i, rg_user_hash = None, rg_user = e0 + i\<rparr>) [0..<n]))"

definition text_request_get :: "bool \<Rightarrow> (u64 \<times> u32) list \<Rightarrow> bytes \<Rightarrow> text_state \<Rightarrow> text_result" where
  "text_request_get require_cas runs =
     (if length runs = 1 then text_request_get_single require_cas (hd runs) else text_request_get_multi require_cas runs)"

text \<open>\<open>memcpy\<close> of some bytes in front of a position of the buffer.\<close>

definition put_before :: "bytes \<Rightarrow> nat \<Rightarrow> bytes \<Rightarrow> bytes result" where
  "put_before bs pos data =
     (if pos < length bs \<or> length data < pos then Inl Undefined_behaviour
      else Inr (take (pos - length bs) data @ bs @ drop pos data))"

definition GATE_OP_SET :: u32 where "GATE_OP_SET = 0"
definition GATE_OP_SET_ASYNC :: u32 where "GATE_OP_SET_ASYNC = 1"
definition GATE_OP_APPEND :: u32 where "GATE_OP_APPEND = 3"
definition GATE_OP_PREPEND :: u32 where "GATE_OP_PREPEND = 4"

text \<open>The flags and the expiration time of a set, in front of the data: their position and length after that.\<close>

definition put_item :: "platform \<Rightarrow> gate_config \<Rightarrow> u32 \<Rightarrow> u16 \<Rightarrow> u32 \<Rightarrow> nat \<Rightarrow> u32 \<Rightarrow> bytes \<Rightarrow> (nat \<times> u32 \<times> bytes) result" where
  "put_item p cfg now fl ex pos len data =
     (case (if gc_save_flag cfg then put_before (put_flags p cfg fl []) pos data else Inr data) of
        Inl e \<Rightarrow> Inl e
      | Inr data1 \<Rightarrow>
          let pos1 = (if gc_save_flag cfg then pos - 2 else pos); len1 = (if gc_save_flag cfg then len + 2 else len)
          in case (if gc_save_exptime cfg then put_before (put_exptime p cfg now ex []) pos1 data1 else Inr data1) of
               Inl e \<Rightarrow> Inl e
             | Inr data2 \<Rightarrow>
                 Inr (if gc_save_exptime cfg then pos1 - 4 else pos1, if gc_save_exptime cfg then len1 + 4 else len1, data2))"

text \<open>
  \<open>request_set_impl\<close>. The clock time is a field without meaning unless the operation is a compare-and-swap.
\<close>

definition set_operation :: "memtext_command \<Rightarrow> bool \<Rightarrow> (u32 \<times> text_entry) result" where
  "set_operation cmd noreply =
     (let callback = (if noreply then Te_noreply else Te_set)
      in case cmd of
           MEMTEXT_CMD_SET \<Rightarrow> Inr (if noreply then GATE_OP_SET_ASYNC else GATE_OP_SET, callback)
         | MEMTEXT_CMD_CAS \<Rightarrow> Inr (GATE_OP_CAS, Te_cas)
         | MEMTEXT_CMD_APPEND \<Rightarrow> Inr (GATE_OP_APPEND, callback)
         | MEMTEXT_CMD_PREPEND \<Rightarrow> Inr (GATE_OP_PREPEND, callback)
         | _ \<Rightarrow> Inl (Logic_error ''unknown command''))"

definition text_request_set_impl ::
    "platform \<Rightarrow> gate_config \<Rightarrow> u32 \<Rightarrow> memtext_command \<Rightarrow> u64 \<times> u32 \<Rightarrow> u64 \<times> u32 \<Rightarrow> u16 \<Rightarrow> u32 \<Rightarrow> bool \<Rightarrow> u64 \<Rightarrow> bytes \<Rightarrow> text_state \<Rightarrow> text_result" where
  "text_request_set_impl p cfg now cmd key val fl ex noreply cas_unique data = (\<lambda>(h, acts).
     if (\<not> gc_save_flag cfg \<and> fl \<noteq> 0) \<or> (\<not> gc_save_exptime cfg \<and> ex \<noteq> 0) then
       Inr (0, data, h, acts @ [F_write [NOT_SUPPORTED_REPLY]])
     else
       case (if cmd = MEMTEXT_CMD_SET \<or> cmd = MEMTEXT_CMD_CAS then put_item p cfg now fl ex (unat (fst val)) (snd val) data
             else Inr (unat (fst val), snd val, data)) of
         Inl e \<Rightarrow> Inl e
       | Inr (pos, len, data') \<Rightarrow>
           (case set_operation cmd noreply of
              Inl e \<Rightarrow> Inl e
            | Inr (opn, en) \<Rightarrow>
                (case (run_of (unat (fst key)) (unat (snd key)) data', run_of pos (unat len) data') of
                   (Inr k, Inr v) \<Rightarrow>
                     Inr (0, data', text_entry_new en h,
                          acts @ [F_set \<lparr>rs_key = k, rs_user_hash = None, rs_val = v, rs_operation = opn,
                                         rs_clocktime = (if opn = GATE_OP_CAS then cas_unique else 0),
                                         rs_user = length (th_entries h)\<rparr>])
                 | _ \<Rightarrow> Inl Undefined_behaviour)))"

definition text_request_delete :: "u64 \<times> u32 \<Rightarrow> u32 \<Rightarrow> bool \<Rightarrow> bytes \<Rightarrow> text_state \<Rightarrow> text_result" where
  "text_request_delete key exptime noreply data = (\<lambda>(h, acts).
     if exptime \<noteq> 0 then Inr (0, data, h, acts @ [F_write [NOT_SUPPORTED_REPLY]])
     else case run_of (unat (fst key)) (unat (snd key)) data of
            Inl e \<Rightarrow> Inl e
          | Inr k \<Rightarrow>
              Inr (0, data, text_entry_new (if noreply then Te_noreply else Te_delete) h,
                   acts @ [F_delete \<lparr>rd_key = k, rd_user_hash = None, rd_async = noreply, rd_user = length (th_entries h)\<rparr>]))"

definition text_request_version :: "bytes \<Rightarrow> bytes \<Rightarrow> text_state \<Rightarrow> text_result" where
  "text_request_version version data = (\<lambda>(h, acts). Inr (0, data, h, acts @ [F_write [VERSION_REPLY version]]))"

text \<open>The table of callbacks the constructor gives the parser. It calls a callback with a request of its type.\<close>

definition text_request :: "platform \<Rightarrow> gate_config \<Rightarrow> bytes \<Rightarrow> u32 \<Rightarrow> memtext_command \<Rightarrow> memtext_request \<Rightarrow> bytes \<Rightarrow> text_state \<Rightarrow> text_result" where
  "text_request p cfg version now cmd req data s =
     (case req of
        Rq_retrieval runs \<Rightarrow> text_request_get (cmd = MEMTEXT_CMD_GETS) runs data s
      | Rq_storage kp kl dp dl fl ex nr \<Rightarrow> text_request_set_impl p cfg now cmd (kp, kl) (dp, dl) fl ex nr 0 data s
      | Rq_cas kp kl dp dl fl ex nr cas \<Rightarrow> text_request_set_impl p cfg now cmd (kp, kl) (dp, dl) fl ex nr cas data s
      | Rq_delete kp kl ex nr \<Rightarrow> text_request_delete (kp, kl) ex nr data s
      | Rq_other \<Rightarrow> text_request_version version data s
      | Rq_numeric _ _ _ _ \<Rightarrow> Inl Undefined_behaviour)"

definition text_callbacks :: "platform \<Rightarrow> gate_config \<Rightarrow> bytes \<Rightarrow> u32 \<Rightarrow> text_state memtext_callback" where
  "text_callbacks p cfg version now cmd =
     (if cmd \<in> {MEMTEXT_CMD_GET, MEMTEXT_CMD_GETS, MEMTEXT_CMD_SET, MEMTEXT_CMD_CAS, MEMTEXT_CMD_DELETE, MEMTEXT_CMD_VERSION}
      then Some (text_request p cfg version now cmd) else None)"

section \<open>Reading\<close>

lemma memtext_loop_end:
  "memtext_loop cb n p data s ctx = Inr (p', data', s', ctx') \<Longrightarrow> mt_cs ctx' \<noteq> memtext_error \<Longrightarrow> p' = p + n"
proof (induction n arbitrary: p data s ctx)
  case (Suc n)
  then show ?case by (fastforce simp: Let_def split: if_splits sum.splits prod.splits)
qed simp

definition keeps_length :: "'s memtext_callback \<Rightarrow> bool" where
  "keeps_length cb \<longleftrightarrow>
     (\<forall>cmd f req data s ret data' s'. cb cmd = Some f \<longrightarrow> f req data s = Inr (ret, data', s') \<longrightarrow> length data' = length data)"

lemma memtext_actions_length:
  "keeps_length cb \<Longrightarrow> memtext_actions_run cb acts p data s ctx = Inr (go, data', s', ctx') \<Longrightarrow> length data' = length data"
proof (induction acts arbitrary: data s ctx)
  case (Cons a acts)
  obtain g d1 s1 c1 where one: "(if 27 \<le> a then memtext_do cb a data s ctx
      else case memtext_action a p data ctx of Inl e \<Rightarrow> Inl e | Inr (go, ctx') \<Rightarrow> Inr (go, data, s, ctx')) = Inr (g, d1, s1, c1)"
    and two: "(if g then memtext_actions_run cb acts p d1 s1 c1 else Inr (False, d1, s1, c1)) = Inr (go, data', s', ctx')"
    using Cons.prems(2) by (auto simp del: split_paired_Ex split: sum.splits)
  have "length d1 = length data"
    using one Cons.prems(1) unfolding memtext_do_def keeps_length_def
    by (auto split: if_splits sum.splits option.splits prod.splits) blast+
  with two Cons.IH [OF Cons.prems(1)] show ?case by (auto split: if_splits)
qed simp

lemma memtext_loop_length:
  "keeps_length cb \<Longrightarrow> memtext_loop cb n p data s ctx = Inr (p', data', s', ctx') \<Longrightarrow> length data' = length data"
proof (induction n arbitrary: p data s ctx)
  case (Suc n)
  from Suc.prems Suc.IH show ?case
    by (auto simp: Let_def dest: memtext_actions_length split: if_splits sum.splits prod.splits)
qed simp

lemma put_before_length: "put_before bs pos data = Inr data' \<Longrightarrow> length data' = length data"
  by (auto simp: put_before_def split: if_splits)

lemma put_item_length: "put_item p cfg now fl ex pos len data = Inr (pos', len', data') \<Longrightarrow> length data' = length data"
  unfolding put_item_def Let_def
  by (auto dest!: put_before_length split: if_splits sum.splits)

lemma text_callbacks_length: "keeps_length (text_callbacks p cfg version now)"
  unfolding keeps_length_def text_callbacks_def
  by (auto simp: text_request_def text_request_get_def text_request_get_single_def text_request_get_multi_def text_request_set_impl_def
      text_request_delete_def text_request_version_def Let_def dest: put_item_length
      split: if_splits memtext_request.splits sum.splits prod.splits)

lemma memtext_execute_used:
  assumes "keeps_length cb" "memtext_execute cb data off s ctx = Inr (ret, off', data', s', ctx')" "0 < ret"
  shows "data \<noteq> [] \<and> drop off' data' = []"
proof -
  have "\<not> length data \<le> off" using assms(2,3) by (auto simp: memtext_execute_def)
  with assms(2,3) have l: "memtext_loop cb (length data - off) off data s ctx = Inr (off', data', s', ctx')" "mt_cs ctx' \<noteq> memtext_error"
    by (auto simp: memtext_execute_def split: if_splits sum.splits)
  with memtext_loop_end [OF l] memtext_loop_length [OF assms(1) l(1)] \<open>\<not> length data \<le> off\<close> show ?thesis by auto
qed

text \<open>
  The loop of \<open>read_event\<close>. A callback that throws ends it; none does so with the requests of the parser.
\<close>

function text_parse :: "platform \<Rightarrow> gate_config \<Rightarrow> bytes \<Rightarrow> u32 \<Rightarrow> text_state \<Rightarrow> kerror option \<times> text_state" where
  "text_parse p cfg version now (h, acts) =
     (case memtext_execute (text_callbacks p cfg version now) (th_buffer h) (th_off h) (h, acts) (th_memproto h) of
        Inl e \<Rightarrow> (Some e, h, acts)
      | Inr (ret, off, data, (h1, acts1), ctx) \<Rightarrow>
          let h2 = h1\<lparr>th_buffer := data, th_off := off, th_memproto := ctx\<rparr>
          in if ret < 0 then (Some (Runtime_error ''parse error''), h2, acts1)
             else if ret = 0 then (None, h2, acts1)
             else let h3 = h2\<lparr>th_buffer := drop off data, th_off := 0\<rparr>
                  in if th_buffer h3 = [] then (None, h3, acts1) else text_parse p cfg version now (h3, acts1))"
  by pat_completeness auto
termination
proof (relation "measure (\<lambda>(p, cfg, version, now, s). length (th_buffer (fst s)))", goal_cases)
  case (2 p cfg version now h acts x ret y off z data w st ctx h1 acts1 h2 h3)
  then show ?case
    using memtext_execute_used [OF text_callbacks_length, of p cfg version now "th_buffer h" "th_off h" "(h, acts)" "th_memproto h" ret off data "(h1, acts1)" ctx]
    by simp
qed simp

declare text_parse.simps [simp del]

datatype text_read = Rl_bytes bytes | Rl_end | Rl_again | Rl_error

definition text_read_event :: "platform \<Rightarrow> gate_config \<Rightarrow> bytes \<Rightarrow> u32 \<Rightarrow> text_read \<Rightarrow> text_handler \<Rightarrow> kerror option \<times> text_state" where
  "text_read_event p cfg version now rl h =
     (case rl of
        Rl_end \<Rightarrow> (Some (Runtime_error ''connection closed''), h, [])
      | Rl_again \<Rightarrow> (None, h, [])
      | Rl_error \<Rightarrow> (Some (Runtime_error ''connection broken''), h, [])
      | Rl_bytes bs \<Rightarrow> text_parse p cfg version now (h\<lparr>th_buffer := th_buffer h @ bs\<rparr>, []))"

end
