(* ===== verification/MemtextMoves.thy ===== *)
theory MemtextMoves
  imports Memtext
begin

text \<open>
  The machine of the text parser, read off its tables: the transitions the commands of the front end
  take, as rewrite rules. A table becomes a rule for each of its entries, so that a transition is computed with a few
  lookups.
\<close>

section \<open>The entries of the tables\<close>

definition tab_from :: "'a list \<Rightarrow> int \<Rightarrow> 'a list \<Rightarrow> bool" where
  "tab_from xs k T \<longleftrightarrow> 0 \<le> k \<and> (\<forall>i < length xs. T ! (nat k + i) = xs ! i)"

lemma tab_from_Nil: "tab_from [] k T \<longleftrightarrow> 0 \<le> k"
  by (simp add: tab_from_def)

lemma tab_from_Cons: "tab_from (x # xs) k T \<longleftrightarrow> 0 \<le> k \<and> T ! nat k = x \<and> tab_from xs (k + 1) T"
  by (auto simp: tab_from_def less_Suc_eq_0_disj all_conj_distrib nat_add_distrib)

lemma tab_from_all: "T = xs \<Longrightarrow> tab_from xs 0 T"
  by (simp add: tab_from_def)

lemma tab_actions_all: "list_all (\<lambda>(a, as). memtext_action_list a = as)
  [(0, []), (1, [0]), (3, [1]), (5, [2]), (7, [4]), (9, [5]), (11, [6]), (13, [7]), (15, [8]), (17, [9]), (19, [10]), (21, [11]), (23, [12]),
   (25, [13]), (27, [14]), (29, [15]), (31, [16]), (33, [17]), (35, [18]), (37, [19]), (39, [20]), (41, [21]), (43, [22]), (45, [23]),
   (47, [24]), (49, [25]), (51, [26]), (53, [27]), (55, [28]), (57, [29]), (59, [30]), (61, [31]), (63, [32]), (65, [3, 1])]"
  by code_simp

lemmas tab_actions = tab_actions_all [simplified]

lemmas tab_key_offsets = tab_from_all [OF memtext_key_offsets_def, simplified tab_from_Cons tab_from_Nil, simplified]
lemmas tab_trans_keys = tab_from_all [OF memtext_trans_keys_def, simplified tab_from_Cons tab_from_Nil, simplified]
lemmas tab_single_lengths = tab_from_all [OF memtext_single_lengths_def, simplified tab_from_Cons tab_from_Nil, simplified]
lemmas tab_range_lengths = tab_from_all [OF memtext_range_lengths_def, simplified tab_from_Cons tab_from_Nil, simplified]
lemmas tab_index_offsets = tab_from_all [OF memtext_index_offsets_def, simplified tab_from_Cons tab_from_Nil, simplified]
lemmas tab_indicies = tab_from_all [OF memtext_indicies_def, simplified tab_from_Cons tab_from_Nil, simplified]
lemmas tab_trans_targs = tab_from_all [OF memtext_trans_targs_def, simplified tab_from_Cons tab_from_Nil, simplified]
lemmas tab_trans_actions = tab_from_all [OF memtext_trans_actions_def, simplified tab_from_Cons tab_from_Nil, simplified]


lemmas tab_entries = tab_actions tab_key_offsets tab_trans_keys tab_single_lengths tab_range_lengths tab_index_offsets tab_indicies tab_trans_targs tab_trans_actions

section \<open>Transitions on given characters\<close>

lemma memtext_moves_all: "list_all (\<lambda>(s, c, t, a). memtext_move s c = (t, a)) [
    (1, 103, 80, [0]),
    (80, 101, 81, []),
    (81, 116, 82, [15]),
    (82, 32, 83, []),
    (82, 115, 88, [16]),
    (88, 32, 83, []),
    (1, 115, 104, [0]),
    (104, 101, 105, []),
    (105, 116, 4, [17]),
    (4, 32, 5, []),
    (1, 99, 16, [0]),
    (16, 97, 17, []),
    (17, 115, 18, [22]),
    (18, 32, 19, []),
    (1, 100, 44, [0]),
    (44, 101, 45, []),
    (45, 108, 62, []),
    (62, 101, 63, []),
    (63, 116, 64, []),
    (64, 101, 65, [23]),
    (65, 32, 66, []),
    (1, 118, 106, [0]),
    (106, 101, 107, []),
    (107, 114, 108, []),
    (108, 115, 109, []),
    (109, 105, 110, []),
    (110, 111, 111, []),
    (111, 110, 112, [26]),
    (112, 13, 113, []),
    (113, 10, 129, [32]),
    (129, 103, 80, [0]),
    (129, 115, 104, [0]),
    (129, 99, 16, [0]),
    (129, 100, 44, [0]),
    (129, 118, 106, [0]),
    (114, 110, 116, []),
    (116, 111, 117, []),
    (117, 114, 118, []),
    (118, 101, 119, []),
    (119, 112, 120, []),
    (120, 108, 121, []),
    (121, 121, 122, []),
    (122, 13, 13, [10]),
    (32, 110, 34, []),
    (34, 111, 35, []),
    (35, 114, 36, []),
    (36, 101, 37, []),
    (37, 112, 38, []),
    (38, 108, 39, []),
    (39, 121, 40, []),
    (40, 13, 29, [10]),
    (69, 110, 72, []),
    (72, 111, 73, []),
    (73, 114, 74, []),
    (74, 101, 75, []),
    (75, 112, 76, []),
    (76, 108, 77, []),
    (77, 121, 78, []),
    (78, 13, 68, [10]),
    (6, 32, 7, [2]),
    (84, 32, 86, [2]),
    (84, 13, 85, [2]),
    (85, 10, 129, [27]),
    (86, 13, 85, []),
    (20, 32, 21, [2]),
    (67, 13, 68, [2]),
    (67, 32, 69, [2]),
    (68, 10, 129, [30]),
    (7, 48, 8, [4]),
    (8, 32, 9, [5]),
    (124, 32, 9, [5]),
    (9, 48, 10, [6]),
    (10, 32, 11, [7]),
    (123, 32, 11, [7]),
    (12, 13, 13, [9]),
    (12, 32, 114, [9]),
    (13, 10, 14, [13]),
    (14, 13, 15, []),
    (15, 10, 129, [28]),
    (21, 48, 22, [4]),
    (22, 32, 23, [5]),
    (43, 32, 23, [5]),
    (23, 48, 24, [6]),
    (24, 32, 25, [7]),
    (42, 32, 25, [7]),
    (26, 32, 27, [9]),
    (27, 48, 28, [11]),
    (28, 13, 29, [12]),
    (28, 32, 32, [12]),
    (41, 13, 29, [12]),
    (41, 32, 32, [12]),
    (29, 10, 30, [13]),
    (30, 13, 31, []),
    (31, 10, 129, [29]),
    (7, 49, 124, [4]),
    (7, 50, 124, [4]),
    (7, 51, 124, [4]),
    (7, 52, 124, [4]),
    (7, 53, 124, [4]),
    (7, 54, 124, [4]),
    (7, 55, 124, [4]),
    (7, 56, 124, [4]),
    (7, 57, 124, [4]),
    (9, 49, 123, [6]),
    (9, 50, 123, [6]),
    (9, 51, 123, [6]),
    (9, 52, 123, [6]),
    (9, 53, 123, [6]),
    (9, 54, 123, [6]),
    (9, 55, 123, [6]),
    (9, 56, 123, [6]),
    (9, 57, 123, [6]),
    (11, 49, 12, [8]),
    (11, 50, 12, [8]),
    (11, 51, 12, [8]),
    (11, 52, 12, [8]),
    (11, 53, 12, [8]),
    (11, 54, 12, [8]),
    (11, 55, 12, [8]),
    (11, 56, 12, [8]),
    (11, 57, 12, [8]),
    (21, 49, 43, [4]),
    (21, 50, 43, [4]),
    (21, 51, 43, [4]),
    (21, 52, 43, [4]),
    (21, 53, 43, [4]),
    (21, 54, 43, [4]),
    (21, 55, 43, [4]),
    (21, 56, 43, [4]),
    (21, 57, 43, [4]),
    (23, 49, 42, [6]),
    (23, 50, 42, [6]),
    (23, 51, 42, [6]),
    (23, 52, 42, [6]),
    (23, 53, 42, [6]),
    (23, 54, 42, [6]),
    (23, 55, 42, [6]),
    (23, 56, 42, [6]),
    (23, 57, 42, [6]),
    (25, 49, 26, [8]),
    (25, 50, 26, [8]),
    (25, 51, 26, [8]),
    (25, 52, 26, [8]),
    (25, 53, 26, [8]),
    (25, 54, 26, [8]),
    (25, 55, 26, [8]),
    (25, 56, 26, [8]),
    (25, 57, 26, [8]),
    (27, 49, 41, [11]),
    (27, 50, 41, [11]),
    (27, 51, 41, [11]),
    (27, 52, 41, [11]),
    (27, 53, 41, [11]),
    (27, 54, 41, [11]),
    (27, 55, 41, [11]),
    (27, 56, 41, [11]),
    (27, 57, 41, [11]),
    (124, 48, 124, []),
    (124, 49, 124, []),
    (124, 50, 124, []),
    (124, 51, 124, []),
    (124, 52, 124, []),
    (124, 53, 124, []),
    (124, 54, 124, []),
    (124, 55, 124, []),
    (124, 56, 124, []),
    (124, 57, 124, []),
    (123, 48, 123, []),
    (123, 49, 123, []),
    (123, 50, 123, []),
    (123, 51, 123, []),
    (123, 52, 123, []),
    (123, 53, 123, []),
    (123, 54, 123, []),
    (123, 55, 123, []),
    (123, 56, 123, []),
    (123, 57, 123, []),
    (12, 48, 12, []),
    (12, 49, 12, []),
    (12, 50, 12, []),
    (12, 51, 12, []),
    (12, 52, 12, []),
    (12, 53, 12, []),
    (12, 54, 12, []),
    (12, 55, 12, []),
    (12, 56, 12, []),
    (12, 57, 12, []),
    (43, 48, 43, []),
    (43, 49, 43, []),
    (43, 50, 43, []),
    (43, 51, 43, []),
    (43, 52, 43, []),
    (43, 53, 43, []),
    (43, 54, 43, []),
    (43, 55, 43, []),
    (43, 56, 43, []),
    (43, 57, 43, []),
    (42, 48, 42, []),
    (42, 49, 42, []),
    (42, 50, 42, []),
    (42, 51, 42, []),
    (42, 52, 42, []),
    (42, 53, 42, []),
    (42, 54, 42, []),
    (42, 55, 42, []),
    (42, 56, 42, []),
    (42, 57, 42, []),
    (26, 48, 26, []),
    (26, 49, 26, []),
    (26, 50, 26, []),
    (26, 51, 26, []),
    (26, 52, 26, []),
    (26, 53, 26, []),
    (26, 54, 26, []),
    (26, 55, 26, []),
    (26, 56, 26, []),
    (26, 57, 26, []),
    (41, 48, 41, []),
    (41, 49, 41, []),
    (41, 50, 41, []),
    (41, 51, 41, []),
    (41, 52, 41, []),
    (41, 53, 41, []),
    (41, 54, 41, []),
    (41, 55, 41, []),
    (41, 56, 41, []),
    (41, 57, 41, [])]"
  by (simp add: memtext_move_def memtext_trans_def tab_entries single_search.simps range_search.simps Let_def numeral_2_eq_2 [symmetric])

lemmas memtext_moves = memtext_moves_all [simplified list.pred_inject prod.case, simplified]

section \<open>Transitions on other characters\<close>

text \<open>A search finds nothing when the character is none of the keys.\<close>

lemma single_search_none:
  "(\<And>m. lower \<le> m \<Longrightarrow> m \<le> upper \<Longrightarrow> memtext_trans_keys ! nat m \<noteq> c) \<Longrightarrow> single_search c lower upper = None"
proof (induction c lower upper rule: single_search.induct)
  case (1 c lower upper)
  show ?case
  proof (cases "upper < lower")
    case True
    then show ?thesis by (subst single_search.simps) simp
  next
    case False
    let ?mid = "lower + (upper - lower) div 2"
    have mid: "lower \<le> ?mid" "?mid \<le> upper" using False by auto
    from 1(3) [OF mid] consider "c < memtext_trans_keys ! nat ?mid" | "memtext_trans_keys ! nat ?mid < c" by linarith
    then show ?thesis
    proof cases
      case 1
      have "single_search c lower (?mid - 1) = None"
        using 1 by (intro "1.IH"(1) [OF False refl refl]) (use "1.prems" mid in auto)
      with 1 False show ?thesis by (subst single_search.simps) (simp add: Let_def)
    next
      case 2
      have "single_search c (?mid + 1) upper = None"
        using 2 by (intro "1.IH"(2) [OF False refl refl]) (use "1.prems" mid in auto)
      with 2 False show ?thesis by (subst single_search.simps) (simp add: Let_def)
    qed
  qed
qed

text \<open>The characters of a key.\<close>

definition key_char :: "u8 \<Rightarrow> bool" where
  "key_char c \<longleftrightarrow> c \<noteq> 0 \<and> c \<noteq> 10 \<and> c \<noteq> 13 \<and> c \<noteq> 32"

lemma key_char_sint: "key_char c \<Longrightarrow> sint c \<notin> {0, 10, 13, 32}"
proof
  assume "key_char c" and s: "sint c \<in> {0, 10, 13, 32}"
  have "c = word_of_int (sint c)" by simp
  then have "c \<in> word_of_int ` {0, 10, 13, 32}" using s by blast
  with \<open>key_char c\<close> show False by (auto simp: key_char_def)
qed

lemma trans_key_char:
  assumes "memtext_key_offsets ! s = k" "memtext_single_lengths ! s = 4" "memtext_range_lengths ! s = 0"
    "memtext_trans_keys ! k = 0" "memtext_trans_keys ! (k + 1) = 10" "memtext_trans_keys ! (k + 2) = 13" "memtext_trans_keys ! (k + 3) = 32"
    "key_char c"
  shows "memtext_trans s c = memtext_indicies ! (memtext_index_offsets ! s + 4)"
proof -
  have "single_search (sint c) (int k) (3 + int k) = None"
  proof (rule single_search_none)
    fix m assume "int k \<le> m" "m \<le> 3 + int k"
    then have "nat m \<in> {k, k + 1, k + 2, k + 3}" by auto
    then have "memtext_trans_keys ! nat m \<in> {0, 10, 13, 32}" using assms(4-7) by auto
    then show "memtext_trans_keys ! nat m \<noteq> sint c" using key_char_sint [OF assms(8)] by metis
  qed
  with assms(1-3) show ?thesis by (simp add: memtext_trans_def Let_def)
qed

lemma key_moves:
  assumes "key_char c"
  shows "memtext_move 5 c = (6, [1])" "memtext_move 6 c = (6, [])" "memtext_move 19 c = (20, [1])" "memtext_move 20 c = (20, [])"
    "memtext_move 66 c = (67, [1])" "memtext_move 67 c = (67, [])" "memtext_move 83 c = (84, [1])" "memtext_move 84 c = (84, [])"
    "memtext_move 86 c = (84, [3, 1])"
proof -
  have "memtext_trans 5 c = memtext_indicies ! 21" "memtext_trans 6 c = memtext_indicies ! 26"
    "memtext_trans 19 c = memtext_indicies ! 59" "memtext_trans 20 c = memtext_indicies ! 64"
    "memtext_trans 66 c = memtext_indicies ! 183" "memtext_trans 67 c = memtext_indicies ! 188"
    "memtext_trans 83 c = memtext_indicies ! 229" "memtext_trans 84 c = memtext_indicies ! 234" "memtext_trans 86 c = memtext_indicies ! 241"
    by (subst trans_key_char [OF refl _ _ _ _ _ _ assms]; simp add: tab_key_offsets tab_single_lengths tab_range_lengths tab_trans_keys tab_index_offsets)+
  then show "memtext_move 5 c = (6, [1])" "memtext_move 6 c = (6, [])" "memtext_move 19 c = (20, [1])" "memtext_move 20 c = (20, [])"
    "memtext_move 66 c = (67, [1])" "memtext_move 67 c = (67, [])" "memtext_move 83 c = (84, [1])" "memtext_move 84 c = (84, [])"
    "memtext_move 86 c = (84, [3, 1])"
    by (simp_all add: memtext_move_def tab_indicies tab_trans_targs tab_trans_actions tab_actions)
qed

lemma data_move: "memtext_move 130 c = (130, [14])"
  by (simp add: memtext_move_def memtext_trans_def Let_def tab_entries)

text \<open>Digits, by the state that reads them.\<close>

definition first_digit :: "u8 \<Rightarrow> bool" where
  "first_digit c \<longleftrightarrow> is_digit c \<and> c \<noteq> 48"

lemma digit_moves:
  assumes "is_digit c"
  shows "memtext_move 124 c = (124, [])" "memtext_move 123 c = (123, [])" "memtext_move 12 c = (12, [])"
    "memtext_move 43 c = (43, [])" "memtext_move 42 c = (42, [])" "memtext_move 26 c = (26, [])" "memtext_move 41 c = (41, [])"
  using is_digit_cases [OF assms] by (auto simp: memtext_moves)

lemma first_digit_moves:
  assumes "first_digit c"
  shows "memtext_move 7 c = (124, [4])" "memtext_move 9 c = (123, [6])" "memtext_move 11 c = (12, [8])"
    "memtext_move 21 c = (43, [4])" "memtext_move 23 c = (42, [6])" "memtext_move 25 c = (26, [8])" "memtext_move 27 c = (41, [11])"
  using is_digit_cases [of c] assms by (auto simp: memtext_moves first_digit_def)

end
