(* ===== verification/MemtextTheorems.thy ===== *)
theory MemtextTheorems
  imports MemtextMoves
begin

text \<open>
  The text parser reads the commands of the protocol: what the machine does on each part of a command,
  and on a whole command. The parts up to the last character make no callback; \<open>scan\<close> runs them.
\<close>

section \<open>Running the machine without callbacks\<close>

text \<open>
  The states inside a command, neither the error nor the final one, and the marks of the numbers: a number
  that is read at \<open>p\<close> begins before \<open>p\<close>, so that it depends only on characters that are there.
\<close>

definition inner :: "nat \<Rightarrow> bool" where
  "inner s \<longleftrightarrow> s \<noteq> memtext_error \<and> s \<noteq> memtext_first_final"

lemma inner_number [simp]: "inner 0 = False" "inner 129 = False" "s \<noteq> 0 \<Longrightarrow> s \<noteq> 129 \<Longrightarrow> inner s"
  by (simp_all add: inner_def memtext_error_def memtext_first_final_def)

definition mark_behind :: "nat \<Rightarrow> nat \<Rightarrow> memtext_parser \<Rightarrow> bool" where
  "mark_behind a p ctx \<longleftrightarrow>
     (a = 5 \<longrightarrow> unat (mt_flags ctx) < p) \<and> (a = 7 \<longrightarrow> unat (mt_exptime ctx) < p) \<and>
     (a = 9 \<longrightarrow> unat (mt_bytes ctx) < p) \<and> (a = 12 \<longrightarrow> unat (mt_cas_unique ctx) < p)"

fun no_callback :: "nat list \<Rightarrow> nat \<Rightarrow> bytes \<Rightarrow> memtext_parser \<Rightarrow> memtext_parser option" where
  "no_callback [] p data ctx = Some ctx"
| "no_callback (a # as) p data ctx =
     (if 27 \<le> a \<or> \<not> mark_behind a p ctx then None
      else case memtext_action a p data ctx of Inr (True, ctx') \<Rightarrow> no_callback as p data ctx' | _ \<Rightarrow> None)"

fun scan :: "bytes \<Rightarrow> bytes \<Rightarrow> nat \<Rightarrow> memtext_parser \<Rightarrow> memtext_parser option" where
  "scan data [] p ctx = Some ctx"
| "scan data (c # cs) p ctx =
     (let (targ, acts) = memtext_move (mt_cs ctx) c
      in case no_callback acts p data (ctx\<lparr>mt_cs := targ\<rparr>) of
           None \<Rightarrow> None
         | Some ctx' \<Rightarrow> if inner (mt_cs ctx') then scan data cs (Suc p) ctx' else None)"

lemma no_callback_run: "no_callback acts p data ctx = Some ctx' \<Longrightarrow> memtext_actions_run cb acts p data s ctx = Inr (True, data, s, ctx')"
  by (induction acts p data ctx rule: no_callback.induct) (auto split: if_splits sum.splits prod.splits bool.splits)

lemma scan_loop:
  "scan data xs p ctx = Some ctx' \<Longrightarrow> drop p data = xs @ rest \<Longrightarrow>
   memtext_loop cb (length xs + m) p data s ctx = memtext_loop cb m (p + length xs) data s ctx'"
proof (induction data xs p ctx rule: scan.induct)
  case (2 data c cs p ctx)
  obtain t acts where mv: "memtext_move (mt_cs ctx) c = (t, acts)" by fastforce
  with 2(2) obtain ctx1 where q: "no_callback acts p data (ctx\<lparr>mt_cs := t\<rparr>) = Some ctx1" "inner (mt_cs ctx1)"
    "scan data cs (Suc p) ctx1 = Some ctx'"
    by (auto split: option.splits if_splits)
  have p: "p < length data" using 2(3) by (metis append_Cons drop_all list.distinct(1) not_le)
  have c: "data ! p = c" using 2(3) hd_drop_conv_nth [OF p] by simp
  have d: "drop (Suc p) data = cs @ rest" using 2(3) by (metis append_Cons drop_Suc list.sel(3) tl_drop)
  have "memtext_loop cb (length (c # cs) + m) p data s ctx = memtext_loop cb (length cs + m) (Suc p) data s ctx1"
    using p q(2) no_callback_run [OF q(1), of cb s] by (simp add: c mv inner_def)
  also have "\<dots> = memtext_loop cb m (Suc p + length cs) data s ctx'"
    by (rule 2(1) [OF mv [symmetric] refl q(1) q(2) q(3) d])
  finally show ?case by simp
qed simp

lemma scan_append:
  "scan data (xs @ ys) p ctx = (case scan data xs p ctx of None \<Rightarrow> None | Some ctx' \<Rightarrow> scan data ys (p + length xs) ctx')"
  by (induction data xs p ctx rule: scan.induct) (auto split: option.splits prod.splits)

section \<open>Words\<close>

lemmas scan_simps = memtext_moves memtext_action_def mark_behind_def Let_def

definition at_start :: "memtext_parser \<Rightarrow> bool" where
  "at_start ctx \<longleftrightarrow> (mt_cs ctx = 1 \<or> mt_cs ctx = 129) \<and> mt_stack ctx = [] \<and> length (mt_key_pos ctx) = 256 \<and> length (mt_key_len ctx) = 256"

definition begun :: "memtext_command \<Rightarrow> nat \<Rightarrow> memtext_parser \<Rightarrow> memtext_parser" where
  "begun cmd cs ctx = ctx\<lparr>mt_cs := cs, mt_keys := 0, mt_noreply := False, mt_exptime := 0, mt_command := cmd\<rparr>"

lemma scan_words:
  assumes "at_start ctx"
  shows "scan data (ascii ''get '') p ctx = Some (begun MEMTEXT_CMD_GET 83 ctx)"
    and "scan data (ascii ''gets '') p ctx = Some (begun MEMTEXT_CMD_GETS 83 ctx)"
    and "scan data (ascii ''set '') p ctx = Some (begun MEMTEXT_CMD_SET 5 ctx)"
    and "scan data (ascii ''cas '') p ctx = Some (begun MEMTEXT_CMD_CAS 19 ctx)"
    and "scan data (ascii ''delete '') p ctx = Some (begun MEMTEXT_CMD_DELETE 66 ctx)"
    and "scan data (ascii ''version'' @ [13]) p ctx = Some (begun MEMTEXT_CMD_VERSION 113 ctx)"
  using assms by (auto simp: at_start_def ascii_def scan_simps begun_def)

lemma scan_noreply:
  "mt_cs ctx = 114 \<Longrightarrow> scan data (ascii ''noreply'' @ [13]) p ctx = Some (ctx\<lparr>mt_cs := 13, mt_noreply := True\<rparr>)"
  "mt_cs ctx = 32 \<Longrightarrow> scan data (ascii ''noreply'' @ [13]) p ctx = Some (ctx\<lparr>mt_cs := 29, mt_noreply := True\<rparr>)"
  "mt_cs ctx = 69 \<Longrightarrow> scan data (ascii ''noreply'' @ [13]) p ctx = Some (ctx\<lparr>mt_cs := 68, mt_noreply := True\<rparr>)"
  by (simp_all add: ascii_def scan_simps)

section \<open>Keys\<close>

text \<open>A key from state \<open>s0\<close>, through \<open>s1\<close>, ended by the character \<open>e\<close> into state \<open>t\<close>.\<close>

lemma scan_same:
  assumes "\<And>c. c \<in> set xs \<Longrightarrow> memtext_move s c = (s, [])" "mt_cs ctx = s" "inner s"
  shows "scan data xs p ctx = Some ctx"
  using assms
proof (induction xs arbitrary: p)
  case (Cons c xs)
  have e: "ctx\<lparr>mt_cs := s\<rparr> = ctx" using Cons.prems(2) by (cases ctx) simp
  have "memtext_move (mt_cs ctx) c = (s, [])" using Cons.prems by simp
  with Cons show ?case by (simp add: e mark_behind_def)
qed simp

definition valid_key :: "bytes \<Rightarrow> bool" where
  "valid_key key \<longleftrightarrow> key \<noteq> [] \<and> list_all key_char key"

definition marked_key :: "nat \<Rightarrow> nat \<Rightarrow> bytes \<Rightarrow> memtext_parser \<Rightarrow> memtext_parser" where
  "marked_key k p key ctx =
     ctx\<lparr>mt_key_pos := (mt_key_pos ctx)[k := word_of_nat p], mt_key_len := (mt_key_len ctx)[k := word_of_nat (length key)]\<rparr>"

lemma scan_key_chars:
  assumes key: "valid_key key" and ctx: "mt_cs ctx = s0" and k: "unat (mt_keys ctx) = k" "k < length (mt_key_pos ctx)"
    and first: "\<And>c. key_char c \<Longrightarrow> memtext_move s0 c = (s1, [1])" and more: "\<And>c. key_char c \<Longrightarrow> memtext_move s1 c = (s1, [])" and s1: "inner s1"
  shows "scan data key p ctx = Some (ctx\<lparr>mt_cs := s1, mt_key_pos := (mt_key_pos ctx)[k := word_of_nat p]\<rparr>)"
proof -
  obtain c cs where cs: "key = c # cs" "key_char c" "list_all key_char cs" using key by (cases key) (auto simp: valid_key_def)
  have "scan data cs (Suc p) (ctx\<lparr>mt_cs := s1, mt_key_pos := (mt_key_pos ctx)[k := word_of_nat p]\<rparr>) =
    Some (ctx\<lparr>mt_cs := s1, mt_key_pos := (mt_key_pos ctx)[k := word_of_nat p]\<rparr>)"
    by (rule scan_same [where s = s1]) (use cs(3) more s1 in \<open>auto simp: list_all_iff\<close>)
  then show ?thesis using cs(1,2) ctx k first s1 by (simp add: memtext_action_def mark_behind_def)
qed

lemma word_diff_nat: "(word_of_nat (p + n) :: 'a::len word) - word_of_nat p = word_of_nat n"
  by simp

lemma scan_key_end:
  assumes "mt_cs ctx = s1" "unat (mt_keys ctx) = k" "k < length (mt_key_pos ctx)" "k < length (mt_key_len ctx)"
    and "mt_key_pos ctx ! k = word_of_nat p" "memtext_move s1 e = (t, [2])" "inner t"
  shows "scan data [e] (p + length key) ctx = Some (ctx\<lparr>mt_cs := t, mt_key_len := (mt_key_len ctx)[k := ucast (word_of_nat (length key) :: u64)]\<rparr>)"
  using assms by (simp add: memtext_action_def mark_behind_def)

lemma ucast_of_nat_u32: "(ucast (word_of_nat n :: u64) :: u32) = word_of_nat n"
  by (rule bit_word_eqI) (auto simp: bit_simps)

lemma scan_key:
  assumes key: "valid_key key" and ctx: "mt_cs ctx = s0" and k: "unat (mt_keys ctx) = k" "k < length (mt_key_pos ctx)" "k < length (mt_key_len ctx)"
    and first: "\<And>c. key_char c \<Longrightarrow> memtext_move s0 c = (s1, [1])" and more: "\<And>c. key_char c \<Longrightarrow> memtext_move s1 c = (s1, [])"
    and s1: "inner s1" and last: "memtext_move s1 e = (t, [2])" "inner t"
  shows "scan data (key @ [e]) p ctx = Some ((marked_key k p key ctx)\<lparr>mt_cs := t\<rparr>)"
proof -
  let ?c1 = "ctx\<lparr>mt_cs := s1, mt_key_pos := (mt_key_pos ctx)[k := word_of_nat p]\<rparr>"
  have "scan data [e] (p + length key) ?c1 = Some (?c1\<lparr>mt_cs := t, mt_key_len := (mt_key_len ?c1)[k := ucast (word_of_nat (length key) :: u64)]\<rparr>)"
    by (rule scan_key_end [of ?c1 s1 k]) (use k last in simp_all)
  moreover have "scan data key p ctx = Some ?c1" by (rule scan_key_chars [OF key ctx k(1,2) first more s1])
  ultimately show ?thesis by (simp add: scan_append marked_key_def ucast_of_nat_u32 del: scan.simps)
qed

section \<open>Numbers\<close>

lemma set_integer_decimal:
  assumes n: "n < 2 ^ 64" and at: "take (length (decimal n)) (drop pos data) = decimal n" and p: "pos + length (decimal n) < 2 ^ 64"
    and cast: "cast 0 = 0" "n \<noteq> 0 \<Longrightarrow> cast (word_of_nat n) \<noteq> 0"
  shows "set_integer cast pos (pos + length (decimal n)) data = Inr (Some (cast (word_of_nat n)))"
proof -
  have pos: "pos < length data"
  proof (rule ccontr)
    assume "\<not> pos < length data"
    with at decimal_nonempty [of n] show False by auto
  qed
  have hd: "data ! pos = hd (decimal n)"
    using at pos by (metis decimal_nonempty hd_drop_conv_nth hd_take length_greater_0_conv)
  have len: "unat (word_of_nat (pos + length (decimal n)) - word_of_nat pos :: u64) = length (decimal n)"
    using length_decimal_u64 [OF n] unfolding word_diff_nat by (simp add: unat_of_nat take_bit_nat_eq_self_iff)
  show ?thesis
  proof (cases "n = 0")
    case True
    then show ?thesis using pos hd cast(1) by (simp add: set_integer_def decimal_zero)
  next
    case False
    then have "hd (decimal n) \<noteq> 48" using hd_decimal [of n] by simp
    then show ?thesis
      using pos hd len length_decimal_u64 [OF n] at strtoul_decimal [OF n] cast(2) [OF False] by (simp add: set_integer_def NUM_BUF_MAX_def Let_def)
  qed
qed

text \<open>The digits of a number from state \<open>s0\<close>: zero leads to \<open>z\<close>, another number to \<open>nz\<close>, with the mark \<open>m\<close> on the first.\<close>

lemma scan_digits:
  assumes ctx: "mt_cs ctx = s0" and s: "inner z" "inner nz" and m: "m < 27" "m \<notin> {5, 7, 9, 12}"
    and zero: "n = 0 \<Longrightarrow> memtext_move s0 48 = (z, [m])" and first: "\<And>c. first_digit c \<Longrightarrow> memtext_move s0 c = (nz, [m])"
    and more: "\<And>c. is_digit c \<Longrightarrow> memtext_move nz c = (nz, [])"
    and mark: "\<And>st. inner st \<Longrightarrow> memtext_action m p data (ctx\<lparr>mt_cs := st\<rparr>) = Inr (True, f (ctx\<lparr>mt_cs := st\<rparr>)) \<and> mt_cs (f (ctx\<lparr>mt_cs := st\<rparr>)) = st"
  shows "scan data (decimal n) p ctx = Some (f (ctx\<lparr>mt_cs := if n = 0 then z else nz\<rparr>))"
proof (cases "n = 0")
  case True
  then show ?thesis using ctx s m zero mark [OF s(1)] by (simp add: decimal_zero mark_behind_def)
next
  case False
  obtain c cs where d: "decimal n = c # cs" by (cases "decimal n") auto
  have c: "first_digit c" using hd_decimal [of n] False d by (simp add: first_digit_def)
  have "scan data cs (Suc p) (f (ctx\<lparr>mt_cs := nz\<rparr>)) = Some (f (ctx\<lparr>mt_cs := nz\<rparr>))"
    by (rule scan_same [where s = nz]) (use more decimal_digits [of _ n] d mark [OF s(2)] s in auto)
  with False d first [OF c] ctx m mark [OF s(2)] s show ?thesis by (simp add: mark_behind_def)
qed

lemma scan_trans: "scan data xs p ctx = Some c1 \<Longrightarrow> scan data ys (p + length xs) c1 = Some c2 \<Longrightarrow> scan data (xs @ ys) p ctx = Some c2"
  by (simp add: scan_append)

definition number_path :: "nat \<Rightarrow> nat \<Rightarrow> nat \<Rightarrow> nat \<Rightarrow> nat \<Rightarrow> nat \<Rightarrow> u8 \<Rightarrow> nat \<Rightarrow> bool" where
  "number_path s0 z nz t m a e n \<longleftrightarrow>
     inner z \<and> inner nz \<and> inner t \<and> (n = 0 \<longrightarrow> memtext_move s0 48 = (z, [m]) \<and> memtext_move z e = (t, [a])) \<and>
     (\<forall>c. first_digit c \<longrightarrow> memtext_move s0 c = (nz, [m])) \<and> (\<forall>c. is_digit c \<longrightarrow> memtext_move nz c = (nz, [])) \<and>
     memtext_move nz e = (t, [a])"

lemma number_paths:
  "number_path 7 8 124 9 4 5 32 n" "number_path 9 10 123 11 6 7 32 n" "0 < n \<Longrightarrow> number_path 11 1 12 13 8 9 13 n"
  "0 < n \<Longrightarrow> number_path 11 1 12 114 8 9 32 n"
  "number_path 21 22 43 23 4 5 32 n" "number_path 23 24 42 25 6 7 32 n" "0 < n \<Longrightarrow> number_path 25 1 26 27 8 9 32 n"
  "number_path 27 28 41 29 11 12 13 n" "number_path 27 28 41 32 11 12 32 n"
  by (simp_all add: number_path_def memtext_moves first_digit_moves digit_moves)

lemma number_end:
  assumes path: "number_path s0 z nz t m a e n" and m: "m < 27" "a < 27" "m \<notin> {5, 7, 9, 12}" and ctx: "mt_cs ctx = s0"
    and mark: "\<And>st. inner st \<Longrightarrow> memtext_action m p data (ctx\<lparr>mt_cs := st\<rparr>) = Inr (True, f (ctx\<lparr>mt_cs := st\<rparr>)) \<and> mt_cs (f (ctx\<lparr>mt_cs := st\<rparr>)) = st"
    and fin: "\<And>st. memtext_action a (p + length (decimal n)) data ((f (ctx\<lparr>mt_cs := st\<rparr>))\<lparr>mt_cs := t\<rparr>) = Inr (True, ctx')" "mt_cs ctx' = t"
      "\<And>st. mark_behind a (p + length (decimal n)) ((f (ctx\<lparr>mt_cs := st\<rparr>))\<lparr>mt_cs := t\<rparr>)"
  shows "scan data (decimal n @ [e]) p ctx = Some ctx'"
proof (rule scan_trans)
  let ?st = "if n = 0 then z else nz"
  have s: "inner z" "inner nz" "inner t" and mv: "memtext_move ?st e = (t, [a])" using path by (auto simp: number_path_def)
  show "scan data (decimal n) p ctx = Some (f (ctx\<lparr>mt_cs := ?st\<rparr>))"
    by (rule scan_digits [OF ctx s(1,2) m(1,3) _ _ _ mark]) (use path in \<open>auto simp: number_path_def\<close>)
  have "mt_cs (f (ctx\<lparr>mt_cs := ?st\<rparr>)) = ?st" using mark [of ?st] s by simp
  with mv fin(1,3) [of ?st] fin(2) m(2) s(3) show "scan data [e] (p + length (decimal n)) (f (ctx\<lparr>mt_cs := ?st\<rparr>)) = Some ctx'"
    by simp
qed

lemma u64_of_nat: "n < 2 ^ 64 \<Longrightarrow> unat (word_of_nat n :: u64) = n"
  by (simp add: unat_of_nat take_bit_nat_eq_self_iff)

lemma u32_of_nat: "n < 2 ^ 32 \<Longrightarrow> unat (word_of_nat n :: u32) = n"
  by (simp add: unat_of_nat take_bit_nat_eq_self_iff)

lemma unat_bound: "unat (w :: 'a::len word) < 2 ^ LENGTH('a)"
  by (rule unsigned_less)

lemma u64_nonzero: "n < 2 ^ 64 \<Longrightarrow> n \<noteq> 0 \<Longrightarrow> (word_of_nat n :: u64) \<noteq> 0"
  using u64_of_nat by force

lemma u32_nonzero: "n < 2 ^ 32 \<Longrightarrow> n \<noteq> 0 \<Longrightarrow> (word_of_nat n :: u32) \<noteq> 0"
  using u32_of_nat by force

text \<open>The characters \<open>xs\<close> stand at position \<open>p\<close>.\<close>

definition text_at :: "bytes \<Rightarrow> nat \<Rightarrow> bytes \<Rightarrow> bool" where
  "text_at data p xs \<longleftrightarrow> take (length xs) (drop p data) = xs"

lemma text_at_append: "text_at data p (xs @ ys) \<longleftrightarrow> text_at data p xs \<and> text_at data (p + length xs) ys"
proof -
  have t: "text_at data p zs \<longleftrightarrow> (\<exists>r. drop p data = zs @ r)" for p and zs :: bytes
    unfolding text_at_def by (metis append_eq_conv_conj append_take_drop_id)
  have d: "drop (p + length xs) data = r" if "drop p data = xs @ r" for r
    using that by (metis add.commute append_eq_conv_conj drop_drop)
  show ?thesis unfolding t using d by fastforce
qed

lemma text_at_drop: "drop p data = xs @ ys \<Longrightarrow> text_at data p xs"
  by (simp add: text_at_def)

lemma scan_flags:
  assumes "n < 2 ^ 64" "number_path s0 z nz t 4 5 e n" "mt_cs ctx = s0" "text_at data p (decimal n)" "p + length (decimal n) < 2 ^ 32"
  shows "scan data (decimal n @ [e]) p ctx = Some (ctx\<lparr>mt_flags := word_of_nat n, mt_cs := t\<rparr>)"
  by (rule number_end [OF assms(2) _ _ _ assms(3), where f = "\<lambda>c. c\<lparr>mt_flags := word_of_nat p\<rparr>"])
    (use assms(5) set_integer_decimal [OF assms(1) assms(4) [unfolded text_at_def], of id] assms(1) in \<open>auto simp: memtext_action_def set_field_def mark_behind_def u64_of_nat u64_nonzero\<close>)

lemma scan_bytes:
  assumes "n < 2 ^ 64" "number_path s0 z nz t 8 9 e n" "mt_cs ctx = s0" "text_at data p (decimal n)" "p + length (decimal n) < 2 ^ 32"
  shows "scan data (decimal n @ [e]) p ctx = Some (ctx\<lparr>mt_bytes := word_of_nat n, mt_cs := t\<rparr>)"
  by (rule number_end [OF assms(2) _ _ _ assms(3), where f = "\<lambda>c. c\<lparr>mt_bytes := word_of_nat p\<rparr>"])
    (use assms(5) set_integer_decimal [OF assms(1) assms(4) [unfolded text_at_def], of id] assms(1) in \<open>auto simp: memtext_action_def set_field_def mark_behind_def u64_of_nat u64_nonzero\<close>)

lemma scan_cas_unique:
  assumes "n < 2 ^ 64" "number_path s0 z nz t 11 12 e n" "mt_cs ctx = s0" "text_at data p (decimal n)" "p + length (decimal n) < 2 ^ 32"
  shows "scan data (decimal n @ [e]) p ctx = Some (ctx\<lparr>mt_cas_unique := word_of_nat n, mt_cs := t\<rparr>)"
  by (rule number_end [OF assms(2) _ _ _ assms(3), where f = "\<lambda>c. c\<lparr>mt_cas_unique := word_of_nat p\<rparr>"])
    (use assms(5) set_integer_decimal [OF assms(1) assms(4) [unfolded text_at_def], of id] assms(1) in \<open>auto simp: memtext_action_def set_field_def mark_behind_def u64_of_nat u64_nonzero\<close>)

lemma scan_exptime:
  assumes "n < 2 ^ 32" "number_path s0 z nz t 6 7 e n" "mt_cs ctx = s0" "text_at data p (decimal n)" "p + length (decimal n) < 2 ^ 32"
  shows "scan data (decimal n @ [e]) p ctx = Some (ctx\<lparr>mt_exptime := word_of_nat n, mt_cs := t\<rparr>)"
proof -
  have n: "n < 2 ^ 64" using assms(1) by simp
  have c: "n \<noteq> 0 \<Longrightarrow> (ucast (word_of_nat n :: u64) :: u32) \<noteq> 0" unfolding ucast_of_nat_u32 by (rule u32_nonzero [OF assms(1)])
  have p: "p + length (decimal n) < 2 ^ 64" using assms(5) by simp
  note i = set_integer_decimal [OF n assms(4) [unfolded text_at_def] p, where cast = "ucast :: u64 \<Rightarrow> u32", OF _ c, unfolded ucast_of_nat_u32]
  have "set_integer ucast p (p + length (decimal n)) data = Inr (Some (word_of_nat n :: u32))" by (rule i) simp_all
  then show ?thesis
    by (intro number_end [OF assms(2) _ _ _ assms(3), where f = "\<lambda>c. c\<lparr>mt_exptime := word_of_nat p\<rparr>"])
      (use assms(5) in \<open>auto simp: memtext_action_def set_field_def mark_behind_def u32_of_nat\<close>)
qed

section \<open>The data block\<close>

lemma scan_data:
  assumes "xs \<noteq> []" "length xs < 2 ^ 64" "mt_cs ctx = 130" "mt_data_count ctx = word_of_nat (length xs)" "mt_stack ctx = [r]" "inner r"
  shows "scan data xs p ctx =
    Some (ctx\<lparr>mt_data_count := 0, mt_data_len := ucast (word_of_nat (p + length xs) - mt_data_pos ctx), mt_cs := r, mt_stack := []\<rparr>)"
  using assms
proof (induction xs arbitrary: p ctx)
  case (Cons c xs)
  show ?case
  proof (cases "xs = []")
    case True
    with Cons.prems show ?thesis by (simp add: data_move memtext_action_def mark_behind_def)
  next
    case False
    have cnt: "mt_data_count ctx - 1 = word_of_nat (length xs)" using Cons.prems(4) by simp
    have nz: "(word_of_nat (length xs) :: u64) \<noteq> 0" using Cons.prems(2) False by (intro u64_nonzero) simp_all
    let ?c = "ctx\<lparr>mt_cs := 130, mt_data_count := word_of_nat (length xs)\<rparr>"
    have "scan data (c # xs) p ctx = scan data xs (Suc p) ?c"
      using Cons.prems cnt nz by (simp add: data_move memtext_action_def mark_behind_def Let_def)
    also have "\<dots> = Some (?c\<lparr>mt_data_count := 0, mt_data_len := ucast (word_of_nat (Suc p + length xs) - mt_data_pos ?c), mt_cs := r, mt_stack := []\<rparr>)"
      by (rule Cons.IH) (use Cons.prems False in simp_all)
    finally show ?thesis by simp
  qed
qed simp

section \<open>Commands\<close>

text \<open>The commands a client sends, and their text.\<close>

datatype text_command =
    Text_get bool "bytes list"
  | Text_set bytes u16 u32 bool bytes
  | Text_cas bytes u16 u32 bool bytes u64
  | Text_delete bytes bool
  | Text_version

definition noreply_text :: "bool \<Rightarrow> bytes" where
  "noreply_text nr = (if nr then 32 # ascii ''noreply'' else [])"

fun keys_text :: "bytes list \<Rightarrow> bytes" where
  "keys_text [] = []"
| "keys_text [k] = k"
| "keys_text (k # ks) = k @ [32] @ keys_text ks"

definition item_text :: "bytes \<Rightarrow> u16 \<Rightarrow> u32 \<Rightarrow> bytes" where
  "item_text key fl ex = (key @ [32]) @ (decimal (unat fl) @ [32]) @ (decimal (unat ex) @ [32])"

fun text_head :: "text_command \<Rightarrow> bytes" where
  "text_head (Text_get c ks) = ascii (if c then ''gets '' else ''get '') @ keys_text ks @ [13]"
| "text_head (Text_set key fl ex nr dat) =
     ascii ''set '' @ item_text key fl ex @ decimal (length dat) @ noreply_text nr @ [13]"
| "text_head (Text_cas key fl ex nr dat cas) =
     ascii ''cas '' @ item_text key fl ex @ (decimal (length dat) @ [32]) @ decimal (unat cas) @ noreply_text nr @ [13]"
| "text_head (Text_delete key nr) = ascii ''delete '' @ key @ noreply_text nr @ [13]"
| "text_head Text_version = ascii ''version'' @ [13]"

fun text_data :: "text_command \<Rightarrow> bytes" where
  "text_data (Text_set key fl ex nr dat) = [10] @ dat @ [13]"
| "text_data (Text_cas key fl ex nr dat cas) = [10] @ dat @ [13]"
| "text_data _ = []"

definition text_of :: "text_command \<Rightarrow> bytes" where
  "text_of c = (text_head c @ text_data c) @ [10]"

fun well_formed :: "text_command \<Rightarrow> bool" where
  "well_formed (Text_get c ks) \<longleftrightarrow> ks \<noteq> [] \<and> length ks \<le> 256 \<and> list_all valid_key ks"
| "well_formed (Text_set key fl ex nr dat) \<longleftrightarrow> valid_key key \<and> dat \<noteq> []"
| "well_formed (Text_cas key fl ex nr dat cas) \<longleftrightarrow> valid_key key \<and> dat \<noteq> []"
| "well_formed (Text_delete key nr) \<longleftrightarrow> valid_key key"
| "well_formed Text_version \<longleftrightarrow> True"

text \<open>The request the parser makes of a command at position \<open>p\<close>.\<close>

fun key_runs :: "nat \<Rightarrow> bytes list \<Rightarrow> (u64 \<times> u32) list" where
  "key_runs p [] = []"
| "key_runs p (k # ks) = (word_of_nat p, word_of_nat (length k)) # key_runs (p + length k + 1) ks"

fun command_of :: "text_command \<Rightarrow> memtext_command" where
  "command_of (Text_get c ks) = (if c then MEMTEXT_CMD_GETS else MEMTEXT_CMD_GET)"
| "command_of (Text_set key fl ex nr dat) = MEMTEXT_CMD_SET"
| "command_of (Text_cas key fl ex nr dat cas) = MEMTEXT_CMD_CAS"
| "command_of (Text_delete key nr) = MEMTEXT_CMD_DELETE"
| "command_of Text_version = MEMTEXT_CMD_VERSION"

fun request_at :: "nat \<Rightarrow> text_command \<Rightarrow> memtext_request" where
  "request_at p (Text_get c ks) = Rq_retrieval (key_runs (p + (if c then 5 else 4)) ks)"
| "request_at p (Text_set key fl ex nr dat) =
     Rq_storage (word_of_nat (p + 4)) (word_of_nat (length key))
       (word_of_nat (p + length (text_head (Text_set key fl ex nr dat)) + 1)) (word_of_nat (length dat)) fl ex nr"
| "request_at p (Text_cas key fl ex nr dat cas) =
     Rq_cas (word_of_nat (p + 4)) (word_of_nat (length key))
       (word_of_nat (p + length (text_head (Text_cas key fl ex nr dat cas)) + 1)) (word_of_nat (length dat)) fl ex nr cas"
| "request_at p (Text_delete key nr) = Rq_delete (word_of_nat (p + 7)) (word_of_nat (length key)) 0 nr"
| "request_at p Text_version = Rq_other"

text \<open>The parser is in front of the last character, on which it makes the request.\<close>

definition makes :: "memtext_parser \<Rightarrow> memtext_command \<Rightarrow> memtext_request \<Rightarrow> bool" where
  "makes ctx cmd req \<longleftrightarrow>
     (\<exists>a ctx'. memtext_move (mt_cs ctx) 10 = (129, [a]) \<and> 27 \<le> a \<and> memtext_request_of a (ctx\<lparr>mt_cs := 129\<rparr>) = Inr (ctx', req) \<and>
        mt_command ctx' = cmd \<and> at_start ctx' \<and> mt_cs ctx' = 129)"

subsection \<open>Version and delete\<close>

lemma begun_simps [simp]:
  "mt_cs (begun cmd s ctx) = s" "mt_keys (begun cmd s ctx) = 0" "mt_noreply (begun cmd s ctx) = False" "mt_exptime (begun cmd s ctx) = 0"
  "mt_command (begun cmd s ctx) = cmd" "mt_stack (begun cmd s ctx) = mt_stack ctx" "mt_key_pos (begun cmd s ctx) = mt_key_pos ctx"
  "mt_key_len (begun cmd s ctx) = mt_key_len ctx"
  by (simp_all add: begun_def)

lemma scan_version: "at_start ctx \<Longrightarrow> \<exists>ctx'. scan data (text_head Text_version) p ctx = Some ctx' \<and> makes ctx' (command_of Text_version) (request_at p Text_version)"
  unfolding text_head.simps
  by (auto simp: scan_words makes_def memtext_moves memtext_request_of_def at_start_def Let_def)

lemma scan_delete:
  assumes "at_start ctx" "valid_key key"
  shows "\<exists>ctx'. scan data (text_head (Text_delete key nr)) p ctx = Some ctx' \<and> makes ctx' MEMTEXT_CMD_DELETE (request_at p (Text_delete key nr))"
proof -
  let ?c = "begun MEMTEXT_CMD_DELETE 66 ctx"
  let ?k = "marked_key 0 (p + 7) key ?c"
  have w: "scan data (ascii ''delete '') p ctx = Some ?c" using assms(1) by (rule scan_words)
  have k: "scan data (key @ [e]) (p + 7) ?c = Some (?k\<lparr>mt_cs := t\<rparr>)" if "memtext_move 67 e = (t, [2])" "inner t" for e t
    by (rule scan_key [where ?s1.0 = 67]) (use assms key_moves that in \<open>simp_all add: at_start_def\<close>)
  have s: "scan data (key @ noreply_text nr @ [13]) (p + 7) ?c = Some (?k\<lparr>mt_cs := 68, mt_noreply := nr\<rparr>)"
  proof (cases nr)
    case True
    have "scan data ((key @ [32]) @ ascii ''noreply'' @ [13]) (p + 7) ?c = Some (?k\<lparr>mt_cs := 69, mt_cs := 68, mt_noreply := True\<rparr>)"
      proof (rule scan_trans [OF k [of 32 69]])
      show "scan data (ascii ''noreply'' @ [13]) (p + 7 + length (key @ [32])) (?k\<lparr>mt_cs := 69\<rparr>) = Some (?k\<lparr>mt_cs := 69, mt_cs := 68, mt_noreply := True\<rparr>)"
        by (rule scan_noreply(3)) simp
    qed (simp_all add: memtext_moves)
    with True show ?thesis by (simp add: noreply_text_def)
  next
    case False
    with k [of 13 68] show ?thesis by (simp add: noreply_text_def marked_key_def begun_def memtext_moves)
  qed
  have "scan data (text_head (Text_delete key nr)) p ctx = Some (?k\<lparr>mt_cs := 68, mt_noreply := nr\<rparr>)"
    unfolding text_head.simps by (rule scan_trans [OF w]) (use s in \<open>simp add: eval_nat_numeral\<close>)
  moreover have "makes (?k\<lparr>mt_cs := 68, mt_noreply := nr\<rparr>) MEMTEXT_CMD_DELETE (request_at p (Text_delete key nr))"
    using assms(1) by (auto simp: makes_def memtext_moves memtext_request_of_def at_start_def marked_key_def Let_def nth_list_update)
  ultimately show ?thesis by blast
qed

subsection \<open>Set and cas\<close>

lemma scan_item:
  assumes key: "valid_key key" "mt_cs ctx = s0" "mt_keys ctx = 0" "mt_key_pos ctx \<noteq> []" "mt_key_len ctx \<noteq> []"
    and moves: "\<And>c. key_char c \<Longrightarrow> memtext_move s0 c = (s1, [1])" "\<And>c. key_char c \<Longrightarrow> memtext_move s1 c = (s1, [])"
      "inner s1" "memtext_move s1 32 = (s2, [2])" "inner s2"
    and paths: "number_path s2 z nz s3 4 5 32 (unat fl)" "number_path s3 z' nz' s4 6 7 32 (unat ex)"
    and at: "text_at data p (item_text key fl ex)" "p + length (item_text key fl ex) < 2 ^ 32"
  shows "scan data (item_text key fl ex) p ctx = Some ((marked_key 0 p key ctx)\<lparr>mt_flags := ucast (fl :: u16), mt_exptime := ex, mt_cs := s4\<rparr>)"
proof -
  let ?k = "(marked_key 0 p key ctx)\<lparr>mt_cs := s2\<rparr>"
  let ?f = "?k\<lparr>mt_flags := word_of_nat (unat fl), mt_cs := s3\<rparr>"
  let ?p = "p + length (key @ [32])" and ?q = "p + length (key @ [32]) + length (decimal (unat fl) @ [32])"
  have at': "text_at data ?p (decimal (unat fl))" "text_at data ?q (decimal (unat ex))"
    "?p + length (decimal (unat fl)) < 2 ^ 32" "?q + length (decimal (unat ex)) < 2 ^ 32"
    using at unfolding item_text_def text_at_append by (simp_all add: add.assoc)
  have n: "unat fl < 2 ^ 64" "unat ex < 2 ^ 32" using unat_bound [of fl] unat_bound [of ex] by simp_all
  have k: "scan data (key @ [32]) p ctx = Some ?k"
    by (rule scan_key [where ?s1.0 = s1]) (use key moves in simp_all)
  have f: "scan data (decimal (unat fl) @ [32]) ?p ?k = Some ?f"
    by (rule scan_flags [OF n(1) paths(1) _ at'(1,3)]) simp
  have e: "scan data (decimal (unat ex) @ [32]) ?q ?f = Some (?f\<lparr>mt_exptime := word_of_nat (unat ex), mt_cs := s4\<rparr>)"
    by (rule scan_exptime [OF n(2) paths(2) _ at'(2,4)]) simp
  have "scan data (item_text key fl ex) p ctx = Some (?f\<lparr>mt_exptime := word_of_nat (unat ex), mt_cs := s4\<rparr>)"
    unfolding item_text_def by (rule scan_trans [OF k scan_trans [OF f e]])
  then show ?thesis by simp
qed

text \<open>The data block after the head of a command, from state \<open>s\<close> through \<open>t\<close> to \<open>u\<close>.\<close>

lemma scan_block:
  assumes ctx: "mt_cs ctx = s" "mt_stack ctx = []" "mt_bytes ctx = word_of_nat (length dat)"
    and dat: "dat \<noteq> []" "length dat < 2 ^ 32"
    and moves: "memtext_move s 10 = (t, [13])" "inner t" "memtext_move t 13 = (u, [])" "inner u"
  shows "scan data ([10] @ dat @ [13]) p ctx =
    Some (ctx\<lparr>mt_data_pos := word_of_nat (p + 1), mt_data_count := 0, mt_data_len := word_of_nat (length dat), mt_cs := u\<rparr>)"
proof -
  let ?c = "ctx\<lparr>mt_data_pos := word_of_nat (p + 1), mt_data_count := mt_bytes ctx, mt_stack := [t], mt_cs := 130\<rparr>"
  let ?d = "?c\<lparr>mt_data_count := 0, mt_data_len := ucast (word_of_nat (p + 1 + length dat) - mt_data_pos ?c), mt_cs := t, mt_stack := []\<rparr>"
  have b: "scan data [10] p ctx = Some ?c"
    using ctx moves by (simp add: memtext_action_def mark_behind_def memtext_en_data_def)
  have d: "scan data dat (p + 1) ?c = Some ?d" by (rule scan_data) (use ctx dat moves in simp_all)
  have e: "scan data [13] (p + 1 + length dat) ?d = Some (?d\<lparr>mt_cs := u\<rparr>)" using moves by (simp add: mark_behind_def)
  have l: "ucast (word_of_nat (p + 1 + length dat) - word_of_nat (p + 1) :: u64) = (word_of_nat (length dat) :: u32)"
    unfolding word_diff_nat by (rule ucast_of_nat_u32)
  have "scan data ([10] @ dat @ [13]) p ctx = Some (?d\<lparr>mt_cs := u\<rparr>)"
    by (rule scan_trans [OF b scan_trans]) (use d e in \<open>simp_all del: scan.simps\<close>)
  then show ?thesis using l ctx(2) by (simp del: of_nat_add of_nat_Suc)
qed

text \<open>The number before the end of the line, with or without \<open>noreply\<close>; \<open>l\<close> reads the rest of the line.\<close>

lemma scan_line_end:
  assumes num: "\<And>e t. e = 13 \<and> t = u \<or> e = 32 \<and> t = w \<Longrightarrow> scan data (xs @ [e]) p ctx = Some (f (ctx\<lparr>mt_cs := t\<rparr>))"
    and nrep: "\<And>q. scan data (ascii ''noreply'' @ [13]) q (f (ctx\<lparr>mt_cs := w\<rparr>)) = Some (f (ctx\<lparr>mt_cs := u, mt_noreply := True\<rparr>))"
    and "\<not> mt_noreply ctx"
  shows "scan data (xs @ noreply_text nr @ [13]) p ctx = Some (f (ctx\<lparr>mt_cs := u, mt_noreply := nr\<rparr>))"
proof (cases nr)
  case True
  have "scan data ((xs @ [32]) @ ascii ''noreply'' @ [13]) p ctx = Some (f (ctx\<lparr>mt_cs := u, mt_noreply := True\<rparr>))"
    by (rule scan_trans [OF num [of 32 w]]) (simp_all add: nrep)
  with True show ?thesis by (simp add: noreply_text_def)
next
  case False
  have "ctx\<lparr>mt_cs := u, mt_noreply := False\<rparr> = ctx\<lparr>mt_cs := u\<rparr>" using assms(3) by (cases ctx) simp
  with False num [of 13 u] show ?thesis by (simp add: noreply_text_def)
qed

lemma line_moves:
  "memtext_move 6 32 = (7, [2])" "memtext_move 20 32 = (21, [2])" "memtext_move 13 10 = (14, [13])" "memtext_move 14 13 = (15, [])"
  "memtext_move 29 10 = (30, [13])" "memtext_move 30 13 = (31, [])" "memtext_move 15 10 = (129, [28])" "memtext_move 31 10 = (129, [29])"
  by (simp_all add: memtext_moves)

lemma scan_set:
  assumes ctx: "at_start ctx" and wf: "valid_key key" "dat \<noteq> []"
    and at: "text_at data p (text_head (Text_set key fl ex nr dat) @ text_data (Text_set key fl ex nr dat))"
      "p + length (text_of (Text_set key fl ex nr dat)) < 2 ^ 32"
  shows "\<exists>ctx'. scan data (text_head (Text_set key fl ex nr dat) @ text_data (Text_set key fl ex nr dat)) p ctx = Some ctx' \<and>
    makes ctx' MEMTEXT_CMD_SET (request_at p (Text_set key fl ex nr dat))"
proof -
  let ?it = "item_text key fl ex" and ?n = "length dat"
  let ?p = "p + 4" and ?q = "p + 4 + length (item_text key fl ex)"
  let ?line = "decimal ?n @ noreply_text nr @ [13]"
  let ?c = "begun MEMTEXT_CMD_SET 5 ctx"
  let ?i = "(marked_key 0 ?p key ?c)\<lparr>mt_flags := ucast fl, mt_exptime := ex, mt_cs := 11\<rparr>"
  let ?l = "?i\<lparr>mt_cs := 13, mt_noreply := nr, mt_bytes := word_of_nat ?n\<rparr>"
  let ?r = "?q + length ?line"
  let ?d = "?l\<lparr>mt_data_pos := word_of_nat (?r + 1), mt_data_count := 0, mt_data_len := word_of_nat (length dat), mt_cs := 15\<rparr>"
  have len: "length (ascii ''set '') = 4" by simp
  have at': "text_at data ?p ?it" "text_at data ?q (decimal ?n)"
    using at(1) unfolding text_head.simps append_assoc text_at_append len by simp_all
  have small: "?p + length ?it < 2 ^ 32" "?q + length (decimal ?n) < 2 ^ 32" "?n < 2 ^ 32" "?n < 2 ^ 64" "0 < ?n"
    using at(2) wf(2) by (simp_all add: text_of_def)
  have w: "scan data (ascii ''set '') p ctx = Some ?c" using ctx by (rule scan_words)
  have i: "scan data ?it ?p ?c = Some ?i"
    by (rule scan_item [OF wf(1) _ _ _ _ key_moves(1,2) _ line_moves(1) _ number_paths(1,2) at'(1) small(1)])
      (use ctx in \<open>auto simp: at_start_def\<close>)
  have l: "scan data ?line ?q ?i = Some (?i\<lparr>mt_cs := 13, mt_noreply := nr, mt_bytes := word_of_nat ?n\<rparr>)"
  proof (rule scan_line_end [where w = 114])
    fix e t assume "e = (13 :: u8) \<and> t = 13 \<or> e = 32 \<and> t = (114 :: nat)"
    then have "number_path 11 1 12 t 8 9 e ?n" using small(5) number_paths(3,4) by blast
    from scan_bytes [OF small(4) this _ at'(2) small(2), of ?i]
    show "scan data (decimal ?n @ [e]) ?q ?i = Some (?i\<lparr>mt_cs := t, mt_bytes := word_of_nat ?n\<rparr>)" by simp
  next
    fix q
    show "scan data (ascii ''noreply'' @ [13]) q (?i\<lparr>mt_cs := 114, mt_bytes := word_of_nat ?n\<rparr>) =
      Some (?i\<lparr>mt_cs := 13, mt_noreply := True, mt_bytes := word_of_nat ?n\<rparr>)"
      by (subst scan_noreply(1)) simp_all
  qed (simp add: marked_key_def)
  have d: "scan data (text_data (Text_set key fl ex nr dat)) ?r ?l = Some ?d"
    unfolding text_data.simps
    by (rule scan_block [OF _ _ _ wf(2) small(3) line_moves(3) _ line_moves(4)]) (use ctx in \<open>simp_all add: at_start_def marked_key_def\<close>)
  have r: "p + length (text_head (Text_set key fl ex nr dat)) = ?r" by simp
  have h: "scan data (text_head (Text_set key fl ex nr dat)) p ctx = Some ?l"
    unfolding text_head.simps by (rule scan_trans [OF w scan_trans]) (use i l len in \<open>simp_all only: append_assoc\<close>)
  have "scan data (text_head (Text_set key fl ex nr dat) @ text_data (Text_set key fl ex nr dat)) p ctx = Some ?d"
    by (rule scan_trans [OF h]) (use d in \<open>simp only: r\<close>)
  moreover have "makes ?d MEMTEXT_CMD_SET (request_at p (Text_set key fl ex nr dat))"
    using ctx by (auto simp: makes_def line_moves memtext_request_of_def at_start_def marked_key_def Let_def nth_list_update)
  ultimately show ?thesis by blast
qed

lemma scan_cas:
  assumes ctx: "at_start ctx" and wf: "valid_key key" "dat \<noteq> []"
    and at: "text_at data p (text_head (Text_cas key fl ex nr dat cas) @ text_data (Text_cas key fl ex nr dat cas))"
      "p + length (text_of (Text_cas key fl ex nr dat cas)) < 2 ^ 32"
  shows "\<exists>ctx'. scan data (text_head (Text_cas key fl ex nr dat cas) @ text_data (Text_cas key fl ex nr dat cas)) p ctx = Some ctx' \<and>
    makes ctx' MEMTEXT_CMD_CAS (request_at p (Text_cas key fl ex nr dat cas))"
proof -
  let ?it = "item_text key fl ex" and ?n = "length dat" and ?u = "unat cas"
  let ?p = "p + 4" and ?q = "p + 4 + length (item_text key fl ex)"
  let ?s = "?q + length (decimal ?n @ [32])"
  let ?line = "decimal ?u @ noreply_text nr @ [13]"
  let ?c = "begun MEMTEXT_CMD_CAS 19 ctx"
  let ?i = "(marked_key 0 ?p key ?c)\<lparr>mt_flags := ucast fl, mt_exptime := ex, mt_cs := 25\<rparr>"
  let ?b = "?i\<lparr>mt_bytes := word_of_nat ?n, mt_cs := 27\<rparr>"
  let ?l = "?b\<lparr>mt_cs := 29, mt_noreply := nr, mt_cas_unique := word_of_nat ?u\<rparr>"
  let ?r = "?s + length ?line"
  let ?d = "?l\<lparr>mt_data_pos := word_of_nat (?r + 1), mt_data_count := 0, mt_data_len := word_of_nat (length dat), mt_cs := 31\<rparr>"
  have len: "length (ascii ''cas '') = 4" by simp
  have at': "text_at data ?p ?it" "text_at data ?q (decimal ?n)" "text_at data ?s (decimal ?u)"
    using at(1) unfolding text_head.simps append_assoc text_at_append len by (simp_all add: add.assoc)
  have small: "?p + length ?it < 2 ^ 32" "?q + length (decimal ?n) < 2 ^ 32" "?n < 2 ^ 32" "?n < 2 ^ 64" "0 < ?n"
    "?s + length (decimal ?u) < 2 ^ 32" "?u < 2 ^ 64"
    using at(2) wf(2) unat_bound [of cas] by (simp_all add: text_of_def)
  have w: "scan data (ascii ''cas '') p ctx = Some ?c" using ctx by (rule scan_words)
  have i: "scan data ?it ?p ?c = Some ?i"
    by (rule scan_item [OF wf(1) _ _ _ _ key_moves(3,4) _ line_moves(2) _ number_paths(5,6) at'(1) small(1)])
      (use ctx in \<open>auto simp: at_start_def\<close>)
  have b: "scan data (decimal ?n @ [32]) ?q ?i = Some ?b"
    by (rule scan_bytes [OF small(4) number_paths(7) [OF small(5)] _ at'(2) small(2)]) simp
  have l: "scan data ?line ?s ?b = Some ?l"
  proof (rule scan_line_end [where w = 32])
    fix e t assume "e = (13 :: u8) \<and> t = 29 \<or> e = 32 \<and> t = (32 :: nat)"
    then have "number_path 27 28 41 t 11 12 e ?u" using number_paths(8,9) by blast
    from scan_cas_unique [OF small(7) this _ at'(3) small(6), of ?b]
    show "scan data (decimal ?u @ [e]) ?s ?b = Some (?b\<lparr>mt_cs := t, mt_cas_unique := word_of_nat ?u\<rparr>)" by simp
  next
    fix q
    show "scan data (ascii ''noreply'' @ [13]) q (?b\<lparr>mt_cs := 32, mt_cas_unique := word_of_nat ?u\<rparr>) =
      Some (?b\<lparr>mt_cs := 29, mt_noreply := True, mt_cas_unique := word_of_nat ?u\<rparr>)"
      by (subst scan_noreply(2)) simp_all
  qed (simp add: marked_key_def)
  have d: "scan data (text_data (Text_cas key fl ex nr dat cas)) ?r ?l = Some ?d"
    unfolding text_data.simps
    by (rule scan_block [OF _ _ _ wf(2) small(3) line_moves(5) _ line_moves(6)]) (use ctx in \<open>simp_all add: at_start_def marked_key_def\<close>)
  have r: "p + length (text_head (Text_cas key fl ex nr dat cas)) = ?r" by simp
  have h: "scan data (text_head (Text_cas key fl ex nr dat cas)) p ctx = Some ?l"
    unfolding text_head.simps by (rule scan_trans [OF w scan_trans [OF _ scan_trans]]) (use i b l len in \<open>simp_all only: append_assoc\<close>)
  have "scan data (text_head (Text_cas key fl ex nr dat cas) @ text_data (Text_cas key fl ex nr dat cas)) p ctx = Some ?d"
    by (rule scan_trans [OF h]) (use d in \<open>simp only: r\<close>)
  moreover have "makes ?d MEMTEXT_CMD_CAS (request_at p (Text_cas key fl ex nr dat cas))"
    using ctx by (auto simp: makes_def line_moves memtext_request_of_def at_start_def marked_key_def Let_def nth_list_update)
  ultimately show ?thesis by blast
qed

subsection \<open>Get and gets\<close>

primrec marked_keys :: "nat \<Rightarrow> nat \<Rightarrow> bytes list \<Rightarrow> memtext_parser \<Rightarrow> memtext_parser" where
  "marked_keys k p [] ctx = ctx"
| "marked_keys k p (key # ks) ctx = marked_keys (Suc k) (p + length key + 1) ks (marked_key k p key ctx)"

lemma marked_keys_simps [simp]:
  "mt_cs (marked_keys k p ks ctx) = mt_cs ctx" "mt_command (marked_keys k p ks ctx) = mt_command ctx"
  "mt_stack (marked_keys k p ks ctx) = mt_stack ctx" "length (mt_key_pos (marked_keys k p ks ctx)) = length (mt_key_pos ctx)"
  "length (mt_key_len (marked_keys k p ks ctx)) = length (mt_key_len ctx)" "mt_keys (marked_keys k p ks ctx) = mt_keys ctx"
  by (induction ks arbitrary: k p ctx) (simp_all add: marked_key_def)

lemma marked_keys_update:
  "marked_keys k p ks (ctx\<lparr>mt_cs := s\<rparr>) = (marked_keys k p ks ctx)\<lparr>mt_cs := s\<rparr>"
  "marked_keys k p ks (ctx\<lparr>mt_keys := m\<rparr>) = (marked_keys k p ks ctx)\<lparr>mt_keys := m\<rparr>"
proof -
  have "marked_key k p key (ctx\<lparr>mt_cs := s\<rparr>) = (marked_key k p key ctx)\<lparr>mt_cs := s\<rparr>"
    "marked_key k p key (ctx\<lparr>mt_keys := m\<rparr>) = (marked_key k p key ctx)\<lparr>mt_keys := m\<rparr>" for k p key ctx
    by (simp_all add: marked_key_def)
  then show "marked_keys k p ks (ctx\<lparr>mt_cs := s\<rparr>) = (marked_keys k p ks ctx)\<lparr>mt_cs := s\<rparr>"
    "marked_keys k p ks (ctx\<lparr>mt_keys := m\<rparr>) = (marked_keys k p ks ctx)\<lparr>mt_keys := m\<rparr>"
    by (induction ks arbitrary: k p ctx) simp_all
qed

lemma marked_keys_runs:
  assumes "k + length ks \<le> length (mt_key_pos ctx)" "k + length ks \<le> length (mt_key_len ctx)"
  shows "zip (take (k + length ks) (mt_key_pos (marked_keys k p ks ctx))) (take (k + length ks) (mt_key_len (marked_keys k p ks ctx))) =
    zip (take k (mt_key_pos ctx)) (take k (mt_key_len ctx)) @ key_runs p ks"
  using assms
proof (induction ks arbitrary: k p ctx)
  case (Cons key ks)
  have "zip (take (Suc k) (mt_key_pos (marked_key k p key ctx))) (take (Suc k) (mt_key_len (marked_key k p key ctx))) =
    zip (take k (mt_key_pos ctx)) (take k (mt_key_len ctx)) @ [(word_of_nat p, word_of_nat (length key))]"
    using Cons.prems by (simp add: take_Suc_conv_app_nth marked_key_def)
  with Cons.IH [of "Suc k" "marked_key k p key ctx" "p + length key + 1"] Cons.prems show ?case
    by (simp add: marked_key_def)
qed simp

text \<open>A later key is read as the first one, after the count of the keys before it.\<close>

lemma scan_next_key:
  assumes "mt_cs ctx = 86" "unat (mt_keys ctx + 1) \<le> 256" "valid_key key"
  shows "scan data (key @ xs) p ctx = scan data (key @ xs) p (ctx\<lparr>mt_cs := 83, mt_keys := mt_keys ctx + 1\<rparr>)"
  using assms by (cases ctx; cases key) (simp_all add: valid_key_def key_moves memtext_action_def mark_behind_def MEMTEXT_MAX_MULTI_GET_def Let_def)

lemma scan_keys:
  assumes "mt_cs ctx = 83" "unat (mt_keys ctx) = k" "k + length ks \<le> 256" "ks \<noteq> []" "list_all valid_key ks"
    "length (mt_key_pos ctx) = 256" "length (mt_key_len ctx) = 256" "memtext_move 84 e = (t, [2])" "inner t"
  shows "scan data (keys_text ks @ [e]) p ctx =
    Some ((marked_keys k p ks ctx)\<lparr>mt_cs := t, mt_keys := word_of_nat (k + length ks - 1)\<rparr>)"
  using assms
proof (induction ks arbitrary: k p ctx rule: keys_text.induct)
  case (2 key)
  have "scan data (key @ [e]) p ctx = Some ((marked_key k p key ctx)\<lparr>mt_cs := t\<rparr>)"
    by (rule scan_key [where ?s1.0 = 84]) (use 2 key_moves in simp_all)
  moreover have "mt_keys ctx = word_of_nat k" using 2(2) by auto
  ultimately show ?case by (simp add: marked_key_def)
next
  case (3 key key' ks)
  let ?c = "(marked_key k p key ctx)\<lparr>mt_cs := 86\<rparr>" and ?q = "p + length key + 1"
  let ?n = "?c\<lparr>mt_cs := 83, mt_keys := mt_keys ctx + 1\<rparr>"
  have k: "unat (mt_keys ctx + 1) = Suc k" using 3 by (simp add: unat_word_ariths)
  have a: "scan data (key @ [32]) p ctx = Some ?c"
    by (rule scan_key [where ?s1.0 = 84]) (use 3 key_moves in \<open>simp_all add: memtext_moves\<close>)
  have n: "scan data (keys_text (key' # ks) @ [e]) ?q ?c = scan data (keys_text (key' # ks) @ [e]) ?q ?n"
  proof -
    obtain r where "keys_text (key' # ks) @ [e] = key' @ r" by (cases ks) auto
    then show ?thesis using scan_next_key [of ?c key' data r ?q] k 3 by (simp add: marked_key_def)
  qed
  have "scan data (keys_text (key' # ks) @ [e]) ?q ?n =
    Some ((marked_keys (Suc k) ?q (key' # ks) ?n)\<lparr>mt_cs := t, mt_keys := word_of_nat (Suc k + length (key' # ks) - 1)\<rparr>)"
    by (rule "3.IH") (use 3 k in \<open>simp_all add: marked_key_def\<close>)
  then have "scan data (keys_text (key' # ks) @ [e]) ?q ?n =
    Some ((marked_keys k p (key # key' # ks) ctx)\<lparr>mt_cs := t, mt_keys := word_of_nat (k + length (key # key' # ks) - 1)\<rparr>)"
    by (simp add: marked_keys_update)
  then have "scan data ((key @ [32]) @ keys_text (key' # ks) @ [e]) p ctx =
    Some ((marked_keys k p (key # key' # ks) ctx)\<lparr>mt_cs := t, mt_keys := word_of_nat (k + length (key # key' # ks) - 1)\<rparr>)"
    by (intro scan_trans [OF a]) (use n in simp)
  then show ?case by simp
qed simp

lemma scan_get:
  assumes ctx: "at_start ctx" and wf: "ks \<noteq> []" "length ks \<le> 256" "list_all valid_key ks"
  shows "\<exists>ctx'. scan data (text_head (Text_get c ks)) p ctx = Some ctx' \<and>
    makes ctx' (command_of (Text_get c ks)) (request_at p (Text_get c ks))"
proof -
  let ?cmd = "command_of (Text_get c ks)" and ?w = "ascii (if c then ''gets '' else ''get '')"
  let ?b = "begun ?cmd 83 ctx"
  let ?k = "(marked_keys 0 (p + length ?w) ks ?b)\<lparr>mt_cs := 85, mt_keys := word_of_nat (length ks - 1)\<rparr>"
  have w: "scan data ?w p ctx = Some ?b" using scan_words(1,2) [OF ctx] by simp
  have "scan data (keys_text ks @ [13]) (p + length ?w) ?b = Some ?k"
    using scan_keys [of ?b 0 ks 13 85 data "p + length ?w"] ctx wf by (simp add: at_start_def memtext_moves)
  then have "scan data (text_head (Text_get c ks)) p ctx = Some ?k"
    unfolding text_head.simps by (rule scan_trans [OF w])
  moreover have "makes ?k ?cmd (request_at p (Text_get c ks))"
  proof -
    have n: "(word_of_nat (length ks - Suc 0) :: u32) + 1 = word_of_nat (length ks)" using wf(1) by (cases ks) simp_all
    have u: "unat (word_of_nat (length ks) :: u32) = length ks" using wf(2) by (intro u32_of_nat) simp
    have l: "length ?w = (if c then 5 else 4)" by simp
    show ?thesis
      using ctx wf(2) marked_keys_runs [of 0 ks ?b "p + length ?w"] unfolding l
      by (auto simp: makes_def memtext_moves memtext_request_of_def at_start_def n u Let_def)
  qed
  ultimately show ?thesis by blast
qed

section \<open>A command\<close>

lemma scan_command:
  assumes "at_start ctx" "well_formed c" "text_at data p (text_of c)" "p + length (text_of c) < 2 ^ 32"
  shows "\<exists>ctx'. scan data (text_head c @ text_data c) p ctx = Some ctx' \<and> makes ctx' (command_of c) (request_at p c)"
proof -
  have at: "text_at data p (text_head c @ text_data c)" using assms(3) unfolding text_of_def text_at_append by simp
  show ?thesis
  proof (cases c)
    case (Text_get x ks)
    then show ?thesis using scan_get [OF assms(1)] assms(2) by simp
  next
    case (Text_set key fl ex nr dat)
    then show ?thesis using scan_set [OF assms(1)] assms(2,4) at by simp
  next
    case (Text_cas key fl ex nr dat cas)
    then show ?thesis using scan_cas [OF assms(1)] assms(2,4) at by simp
  next
    case (Text_delete key nr)
    then show ?thesis using scan_delete [OF assms(1)] assms(2) by simp
  next
    case Text_version
    then show ?thesis using scan_version [OF assms(1)] by simp
  qed
qed

end
