(* ===== verification/TextStream.thy ===== *)
theory TextStream
  imports MemtextTheorems
begin

text \<open>
  A stream of commands that arrives in pieces. Whatever the pieces are, the parser calls back once for
  every command, in order, with the parts of the command in the buffer as they were sent. A user of the
  parser is described by what it does for a command: it may write into the buffer, but not behind the command.
\<close>

section \<open>Characters that are not there yet\<close>

lemma set_integer_extend:
  assumes "pos < p" "p < length data" "length data < 2 ^ 64"
  shows "set_integer cast pos p (data @ ext) = set_integer cast pos p data"
proof -
  have w: "word_of_nat p - word_of_nat pos = (word_of_nat (p - pos) :: u64)" using assms(1) by (simp add: of_nat_diff)
  have "unat (word_of_nat p - word_of_nat pos :: u64) = p - pos" unfolding w by (rule u64_of_nat) (use assms in simp)
  then show ?thesis using assms by (simp add: set_integer_def nth_append Let_def)
qed

lemma no_callback_extend:
  assumes "p < length data" "length data < 2 ^ 64"
  shows "no_callback acts p (data @ ext) ctx = no_callback acts p data ctx"
proof (induction acts arbitrary: ctx)
  case (Cons a acts)
  have "memtext_action a p (data @ ext) ctx = memtext_action a p data ctx" if "mark_behind a p ctx"
    using that assms by (auto simp: memtext_action_def mark_behind_def set_integer_extend Let_def)
  with Cons show ?case by (auto split: sum.splits prod.splits bool.splits)
qed simp

lemma scan_extend:
  "p + length xs \<le> length data \<Longrightarrow> length data < 2 ^ 64 \<Longrightarrow> scan (data @ ext) xs p ctx = scan data xs p ctx"
  by (induction data xs p ctx rule: scan.induct) (simp_all add: no_callback_extend Let_def split: prod.splits option.splits)

lemma scan_prefix: "scan data (xs @ ys) p ctx = Some c2 \<Longrightarrow> scan data xs p ctx = Some c1 \<Longrightarrow> scan data ys (p + length xs) c1 = Some c2"
  by (simp add: scan_append)

lemma scan_inner: "scan data xs p ctx = Some ctx' \<Longrightarrow> xs \<noteq> [] \<Longrightarrow> inner (mt_cs ctx')"
proof (induction data xs p ctx rule: scan.induct)
  case (2 data c cs p ctx)
  then show ?case by (cases cs) (auto split: prod.splits option.splits if_splits)
qed simp

section \<open>The contract of a user of the parser\<close>

text \<open>
  In front of the characters \<open>t\<close> the commands \<open>cs\<close> begin, all read up to the end of \<open>t\<close>.
\<close>

definition reading :: "bytes \<Rightarrow> nat \<Rightarrow> bytes \<Rightarrow> memtext_parser \<Rightarrow> text_command list \<Rightarrow> bool" where
  "reading data p t ctx cs \<longleftrightarrow>
     (\<exists>ctx0. at_start ctx0 \<and> scan data t p ctx0 = Some ctx) \<and> (t = [] \<or> (\<exists>c cs'. cs = c # cs' \<and> length t < length (text_of c)))"

locale text_server =
  fixes cb :: "'s memtext_callback" and step :: "text_command \<Rightarrow> 's \<Rightarrow> 's"
  assumes served: "well_formed c \<Longrightarrow> text_at data p (text_of c) \<Longrightarrow> length data < 2 ^ 32 \<Longrightarrow>
    \<exists>f data'. cb (command_of c) = Some f \<and> f (request_at p c) data s = Inr (0, data', step c s) \<and>
      length data' = length data \<and> drop (p + length (text_of c)) data' = drop (p + length (text_of c)) data"
begin

text \<open>The rest \<open>x\<close> of a command whose first characters \<open>t\<close> have been read.\<close>

lemma finish_command:
  assumes ctx: "at_start ctx0" "scan data t p ctx0 = Some ctx" and c: "well_formed c" "text_of c = t @ x" "x \<noteq> []"
    and data: "drop p data = text_of c @ rest" "length data < 2 ^ 32"
  shows "\<exists>data' ctx'. at_start ctx' \<and> mt_cs ctx' = 129 \<and> length data' = length data \<and> drop (p + length (text_of c)) data' = rest \<and>
    (\<forall>m. memtext_loop cb (length x + m) (p + length t) data s ctx = memtext_loop cb m (p + length (text_of c)) data' (step c s) ctx')"
proof -
  let ?xs = "text_head c @ text_data c"
  obtain y where y: "?xs = t @ y" "x = y @ [10]"
    using c(2,3) unfolding text_of_def by (metis append_butlast_last_id append_eq_append_conv2 append_is_Nil_conv butlast_append butlast_snoc last_appendR last_snoc)
  have at: "text_at data p (text_of c)" using data(1) by (rule text_at_drop)
  have len: "p + length (text_of c) \<le> length data"
    using arg_cong [OF data(1), of length] by (cases "p \<le> length data") (auto simp: text_of_def)
  obtain ctx1 where sc: "scan data ?xs p ctx0 = Some ctx1" and mk: "makes ctx1 (command_of c) (request_at p c)"
    using scan_command [OF ctx(1) c(1) at] len data(2) by auto
  obtain a ctx2 where a: "memtext_move (mt_cs ctx1) 10 = (129, [a])" "27 \<le> a"
      "memtext_request_of a (ctx1\<lparr>mt_cs := 129\<rparr>) = Inr (ctx2, request_at p c)" "mt_command ctx2 = command_of c" "at_start ctx2" "mt_cs ctx2 = 129"
    using mk unfolding makes_def by blast
  obtain f data' where f: "cb (command_of c) = Some f" "f (request_at p c) data s = Inr (0, data', step c s)"
      "length data' = length data" "drop (p + length (text_of c)) data' = drop (p + length (text_of c)) data"
    using served [OF c(1) at data(2)] by blast
  have sy: "scan data y (p + length t) ctx = Some ctx1" using scan_prefix sc ctx(2) unfolding y(1) by blast
  have d: "drop (p + length t) data = y @ 10 # rest" "drop (p + length (text_of c)) data = rest"
    using data(1) unfolding c(2) y(2) by (metis add.commute append_eq_conv_conj append.assoc append_Cons append_Nil drop_drop)+
  let ?q = "p + length t + length y"
  have q: "drop ?q data = 10 # rest" using d(1) by (metis add.commute append_eq_conv_conj drop_drop)
  then have n: "?q < length data" "data ! ?q = 10"
    by (metis drop_all list.distinct(1) not_le) (metis q hd_drop_conv_nth drop_all list.distinct(1) list.sel(1) not_le)
  have "memtext_loop cb (length x + m) (p + length t) data s ctx = memtext_loop cb m (p + length (text_of c)) data' (step c s) ctx2" for m
  proof -
    have "memtext_loop cb (length x + m) (p + length t) data s ctx = memtext_loop cb (Suc m) ?q data s ctx1"
      using scan_loop [OF sy d(1), of cb "Suc m" s] by (simp add: y(2))
    also have "\<dots> = memtext_loop cb m (Suc ?q) data' (step c s) ctx2"
      using n a f(1,2) by (simp add: memtext_do_def memtext_error_def)
    finally show ?thesis by (simp add: c(2) y(2) add.assoc del: memtext_loop.simps)
  qed
  with a(5,6) f(3,4) d(2) show ?thesis by metis
qed

lemma advance:
  assumes "reading data p t ctx cs" "drop p data = t @ x" "p \<le> length data" "t @ x @ rest = concat (map text_of cs)" "list_all well_formed cs"
    "length data < 2 ^ 32" "p + length (t @ x @ rest) < 2 ^ 32"
  shows "\<exists>cs1 cs2 data' ctx' p'. cs = cs1 @ cs2 \<and>
    memtext_loop cb (length x) (p + length t) data s ctx = Inr (length data, data', fold step cs1 s, ctx') \<and>
    length data' = length data \<and> p' \<le> length data \<and> reading data' p' (drop p' data') ctx' cs2 \<and> drop p' data' @ rest = concat (map text_of cs2) \<and>
    (p' = length data \<longrightarrow> mt_cs ctx' = 129 \<or> x = [] \<and> ctx' = ctx)"
  using assms
proof (induction cs arbitrary: data p t x s ctx)
  case Nil
  then show ?case by (intro exI [of _ "[]"] exI [of _ data] exI [of _ ctx] exI [of _ p]) (auto simp: reading_def)
next
  case (Cons c cs)
  obtain ctx0 where c0: "at_start ctx0" "scan data t p ctx0 = Some ctx" and t: "length t < length (text_of c)"
    using Cons.prems(1) by (auto simp: reading_def text_of_def)
  have wf: "well_formed c" "list_all well_formed cs" using Cons.prems(5) by simp_all
  have len: "length data = p + length t + length x" using arg_cong [OF Cons.prems(2), of length] Cons.prems(3) by simp
  show ?case
  proof (cases "length (t @ x) < length (text_of c)")
    case True
    have "text_of c = take (length (t @ x)) (text_of c @ concat (map text_of cs)) @ drop (length (t @ x)) (text_of c)"
      using True by simp
    also have "take (length (t @ x)) (text_of c @ concat (map text_of cs)) = take (length (t @ x)) (t @ x @ rest)" using Cons.prems(4) by simp
    finally obtain r where r: "text_of c = (t @ x) @ r" by auto
    with True have "r \<noteq> []" by auto
    with r obtain r' where r': "text_head c @ text_data c = (t @ x) @ r'"
      unfolding text_of_def by (cases r rule: rev_cases) auto
    have d: "drop p (data @ rest) = text_of c @ concat (map text_of cs)" using Cons.prems(2-4) by simp
    obtain ctx1 where "scan (data @ rest) (text_head c @ text_data c) p ctx0 = Some ctx1"
      using scan_command [OF c0(1) wf(1) text_at_drop [OF d]] Cons.prems(4,7) by auto
    then obtain ctx2 where "scan (data @ rest) (t @ x) p ctx0 = Some ctx2"
      unfolding r' by (subst (asm) scan_append) (auto split: option.splits)
    then have s2: "scan data (t @ x) p ctx0 = Some ctx2" using scan_extend [of p "t @ x" data rest ctx0] len Cons.prems(6) by simp
    then have sx: "scan data x (p + length t) ctx = Some ctx2" using c0(2) by (rule scan_prefix)
    have "drop (p + length t) data = x @ []" using Cons.prems(2) by (metis add.commute append_Nil2 append_eq_conv_conj drop_drop)
    from scan_loop [OF sx this, of cb 0 s] len
    have "memtext_loop cb (length x) (p + length t) data s ctx = Inr (length data, data, s, ctx2)" by simp
    moreover have "reading data p (t @ x) ctx2 (c # cs)" using c0(1) s2 True by (auto simp: reading_def)
    moreover have "p = length data \<longrightarrow> x = [] \<and> ctx2 = ctx" using len s2 c0(2) by auto
    ultimately show ?thesis
      using Cons.prems(2-4) by (intro exI [of _ "[]"] exI [of _ "c # cs"] exI [of _ data] exI [of _ ctx2] exI [of _ p]) simp
  next
    case False
    have "text_of c = take (length (text_of c)) (t @ x)"
      using False arg_cong [OF Cons.prems(4), of "take (length (text_of c))"] by simp
    then obtain x1 x2 where x: "text_of c = t @ x1" "x = x1 @ x2" "x1 \<noteq> []"
      using t by (metis append_Nil2 append_take_drop_id nat_less_le take_all_iff take_append nle_le)
    obtain data1 ctx1 where one: "at_start ctx1" "mt_cs ctx1 = 129" "length data1 = length data" "drop (p + length (text_of c)) data1 = x2"
        "\<And>m. memtext_loop cb (length x1 + m) (p + length t) data s ctx = memtext_loop cb m (p + length (text_of c)) data1 (step c s) ctx1"
    proof -
      have "drop p data = text_of c @ x2" using Cons.prems(2) x(1,2) by simp
      then show ?thesis using finish_command [OF c0 wf(1) x(1,3) _ Cons.prems(6), of x2 s] that by blast
    qed
    let ?q = "p + length (text_of c)"
    have "\<exists>cs1 cs2 data' ctx' p'. cs = cs1 @ cs2 \<and>
      memtext_loop cb (length x2) (?q + length ([] :: bytes)) data1 (step c s) ctx1 = Inr (length data1, data', fold step cs1 (step c s), ctx') \<and>
      length data' = length data1 \<and> p' \<le> length data1 \<and> reading data' p' (drop p' data') ctx' cs2 \<and> drop p' data' @ rest = concat (map text_of cs2) \<and>
      (p' = length data1 \<longrightarrow> mt_cs ctx' = 129 \<or> x2 = [] \<and> ctx' = ctx1)"
      by (rule Cons.IH) (use one Cons.prems(4,6,7) wf(2) len x in \<open>auto simp: reading_def\<close>)
    then obtain cs1 cs2 data' ctx' p' where two: "cs = cs1 @ cs2"
        "memtext_loop cb (length x2) ?q data1 (step c s) ctx1 = Inr (length data, data', fold step cs1 (step c s), ctx')"
        "length data' = length data" "p' \<le> length data" "reading data' p' (drop p' data') ctx' cs2" "drop p' data' @ rest = concat (map text_of cs2)"
        "p' = length data \<longrightarrow> mt_cs ctx' = 129 \<or> x2 = [] \<and> ctx' = ctx1"
      using one(3) by auto
    have "memtext_loop cb (length x) (p + length t) data s ctx = Inr (length data, data', fold step (c # cs1) s, ctx')"
      using one(5) [of "length x2"] two(2) x(2) by simp
    with two one(2) show ?thesis
      by (intro exI [of _ "c # cs1"] exI [of _ cs2] exI [of _ data'] exI [of _ ctx'] exI [of _ p']) auto
  qed
qed

end

end
