(* ===== verification/MemcacheTextTheorems.thy ===== *)
theory MemcacheTextTheorems
  imports MemcacheText TextStream
begin

text \<open>
  What the text front end does with a stream of commands and with the results of the gateway.
\<close>

section \<open>The runs of a command\<close>

lemma text_at_length: "text_at data p xs \<Longrightarrow> xs \<noteq> [] \<Longrightarrow> p + length xs \<le> length data"
proof -
  assume at: "text_at data p xs" and "xs \<noteq> []"
  then have "0 < length xs" by simp
  moreover have "min (length xs) (length data - p) = length xs" using at unfolding text_at_def by (metis length_drop length_take min.commute)
  ultimately show ?thesis by linarith
qed

lemma run_of_text: "text_at data p xs \<Longrightarrow> xs \<noteq> [] \<Longrightarrow> run_of p (length xs) data = Inr xs"
  using text_at_length [of data p xs] by (simp add: run_of_def bytes_at_def text_at_def)

lemma run_of_words:
  assumes "text_at data p xs" "xs \<noteq> []" "length data < 2 ^ 32"
  shows "run_of (unat (word_of_nat p :: u64)) (unat (word_of_nat (length xs) :: u32)) data = Inr xs"
proof -
  have "p + length xs \<le> length data" by (rule text_at_length [OF assms(1,2)])
  then have "unat (word_of_nat p :: u64) = p" "unat (word_of_nat (length xs) :: u32) = length xs"
    using assms(3) by (simp_all add: u64_of_nat u32_of_nat)
  then show ?thesis using run_of_text [OF assms(1,2)] by simp
qed

lemma text_at_keys:
  "text_at data p (keys_text (k # ks)) \<Longrightarrow> text_at data p k \<and> (ks \<noteq> [] \<longrightarrow> text_at data (p + length k + 1) (keys_text ks))"
  by (cases ks) (auto simp: text_at_append dest: text_at_append [of data _ "[32]" "keys_text ks" for ks, simplified, THEN iffD1])

lemma runs_of_keys:
  "text_at data p (keys_text ks) \<Longrightarrow> list_all valid_key ks \<Longrightarrow> length data < 2 ^ 32 \<Longrightarrow> runs_of (key_runs p ks) data = Inr ks"
proof (induction ks arbitrary: p)
  case (Cons k ks)
  have "run_of (unat (word_of_nat p :: u64)) (unat (word_of_nat (length k) :: u32)) data = Inr k"
    by (rule run_of_words) (use Cons.prems text_at_keys in \<open>auto simp: valid_key_def\<close>)
  moreover have "runs_of (key_runs (p + length k + 1) ks) data = Inr ks"
    using Cons.prems text_at_keys [OF Cons.prems(1)] Cons.IH [of "p + length k + 1"] by (cases "ks = []") auto
  ultimately show ?case by simp
qed simp

lemma length_key_runs [simp]: "length (key_runs p ks) = length ks"
  by (induction ks arbitrary: p) simp_all

lemma word_lengths:
  "length (ascii (if x then ''gets '' else ''get '')) = (if x then 5 else 4)" "length (ascii ''set '') = 4" "length (ascii ''cas '') = 4"
  "length (ascii ''delete '') = 7"
  by simp_all

section \<open>What a command does\<close>

text \<open>The requests of a command, by the book: its effect on the entries and what it submits or writes.\<close>

fun text_step :: "platform \<Rightarrow> gate_config \<Rightarrow> bytes \<Rightarrow> u32 \<Rightarrow> text_command \<Rightarrow> text_state \<Rightarrow> text_state" where
  "text_step p cfg version now (Text_get c ks) (h, acts) =
     (if length ks = 1 then
        (text_entry_new (Te_get c) h, acts @ [F_get \<lparr>rg_key = hd ks, rg_user_hash = None, rg_user = length (th_entries h)\<rparr>])
      else
        (h\<lparr>th_entries := th_entries h @ map (\<lambda>i. Te_get_multi c (2 * i) (length (th_blocks h))) [0..<length ks],
           th_blocks := th_blocks h @ [\<lparr>gm_count = word_of_nat (length ks), gm_vhead = replicate (2 * length ks) None @ [Some (CRLF @ END_REPLY)]\<rparr>]\<rparr>,
         acts @ map (\<lambda>i. F_get \<lparr>rg_key = ks ! i, rg_user_hash = None, rg_user = length (th_entries h) + i\<rparr>) [0..<length ks]))"
| "text_step p cfg version now (Text_set key fl ex nr dat) (h, acts) =
     (if (\<not> gc_save_flag cfg \<and> fl \<noteq> 0) \<or> (\<not> gc_save_exptime cfg \<and> ex \<noteq> 0) then (h, acts @ [F_write [NOT_SUPPORTED_REPLY]])
      else
        (text_entry_new (if nr then Te_noreply else Te_set) h,
         acts @ [F_set \<lparr>rs_key = key, rs_user_hash = None, rs_val = put_exptime p cfg now ex (put_flags p cfg fl dat),
                        rs_operation = (if nr then GATE_OP_SET_ASYNC else GATE_OP_SET), rs_clocktime = 0, rs_user = length (th_entries h)\<rparr>]))"
| "text_step p cfg version now (Text_cas key fl ex nr dat cas) (h, acts) =
     (if (\<not> gc_save_flag cfg \<and> fl \<noteq> 0) \<or> (\<not> gc_save_exptime cfg \<and> ex \<noteq> 0) then (h, acts @ [F_write [NOT_SUPPORTED_REPLY]])
      else
        (text_entry_new Te_cas h,
         acts @ [F_set \<lparr>rs_key = key, rs_user_hash = None, rs_val = put_exptime p cfg now ex (put_flags p cfg fl dat),
                        rs_operation = GATE_OP_CAS, rs_clocktime = cas, rs_user = length (th_entries h)\<rparr>]))"
| "text_step p cfg version now (Text_delete key nr) (h, acts) =
     (text_entry_new (if nr then Te_noreply else Te_delete) h,
      acts @ [F_delete \<lparr>rd_key = key, rd_user_hash = None, rd_async = nr, rd_user = length (th_entries h)\<rparr>])"
| "text_step p cfg version now Text_version (h, acts) = (h, acts @ [F_write [VERSION_REPLY version]])"

text \<open>Flags and expiration time are written over the end of the line in front of the data.\<close>

definition item_prefix :: "platform \<Rightarrow> gate_config \<Rightarrow> u32 \<Rightarrow> u16 \<Rightarrow> u32 \<Rightarrow> bytes" where
  "item_prefix p cfg now fl ex = put_exptime p cfg now ex (put_flags p cfg fl [])"

lemma item_prefix_append: "item_prefix p cfg now fl ex @ dat = put_exptime p cfg now ex (put_flags p cfg fl dat)"
  by (simp add: item_prefix_def put_exptime_def put_flags_def)

lemma length_item_prefix: "length (item_prefix p cfg now fl ex) \<le> 6"
  by (simp add: item_prefix_def put_exptime_def put_flags_def)

lemma put_item_eq:
  assumes "6 \<le> pos" "pos \<le> length data"
  shows "put_item p cfg now fl ex pos len data =
    Inr (pos - length (item_prefix p cfg now fl ex), len + word_of_nat (length (item_prefix p cfg now fl ex)),
         take (pos - length (item_prefix p cfg now fl ex)) data @ item_prefix p cfg now fl ex @ drop pos data)"
  using assms
  by (cases "gc_save_flag cfg"; cases "gc_save_exptime cfg")
    (auto simp: put_item_def put_before_def item_prefix_def put_exptime_def put_flags_def Let_def min_def)

lemma drop_patch: "length pre \<le> pos \<Longrightarrow> pos \<le> length data \<Longrightarrow> pos \<le> m \<Longrightarrow>
    drop m (take (pos - length pre) data @ pre @ drop pos data) = drop m data"
  by (simp add: min_def)

lemma run_of_patch_before:
  assumes "run_of i n data = Inr xs" "i + n \<le> pos - length pre" "length pre \<le> pos" "pos \<le> length data"
  shows "run_of i n (take (pos - length pre) data @ pre @ drop pos data) = Inr xs"
proof -
  have "take n (drop i (take m data @ zs)) = take n (drop i data)" if "i + n \<le> m" "m \<le> length data" for m zs
    using that by (simp add: drop_take)
  from this [of "pos - length pre" "pre @ drop pos data"] assms show ?thesis by (auto simp: run_of_def bytes_at_def split: if_splits)
qed

lemma run_of_patch_at:
  assumes "run_of pos n data = Inr xs" "length pre \<le> pos" "pos \<le> length data"
  shows "run_of (pos - length pre) (length pre + n) (take (pos - length pre) data @ pre @ drop pos data) = Inr (pre @ xs)"
  using assms by (auto simp: run_of_def bytes_at_def min_def split: if_splits)

lemma set_operation_cases:
  "set_operation MEMTEXT_CMD_SET nr = Inr (if nr then GATE_OP_SET_ASYNC else GATE_OP_SET, if nr then Te_noreply else Te_set)"
  "set_operation MEMTEXT_CMD_CAS nr = Inr (GATE_OP_CAS, Te_cas)"
  by (simp_all add: set_operation_def Let_def)

text \<open>A storage command whose key, at \<open>kp\<close>, ends at least six characters before its data, at \<open>dp\<close>.\<close>

lemma request_set_served:
  assumes cmd: "cmd = MEMTEXT_CMD_SET \<or> cmd = MEMTEXT_CMD_CAS" "set_operation cmd nr = Inr (opn, en)"
    and key: "text_at data kp key" "key \<noteq> []" and dat: "text_at data dp dat" "dat \<noteq> []"
    and pos: "kp + length key + 6 \<le> dp" "length data < 2 ^ 32"
  shows "\<exists>data'. text_request_set_impl p cfg now cmd (word_of_nat kp, word_of_nat (length key)) (word_of_nat dp, word_of_nat (length dat)) fl ex nr cas data (h, acts) =
      Inr (0, data', if (\<not> gc_save_flag cfg \<and> fl \<noteq> 0) \<or> (\<not> gc_save_exptime cfg \<and> ex \<noteq> 0) then (h, acts @ [F_write [NOT_SUPPORTED_REPLY]])
        else (text_entry_new en h, acts @ [F_set \<lparr>rs_key = key, rs_user_hash = None, rs_val = put_exptime p cfg now ex (put_flags p cfg fl dat),
          rs_operation = opn, rs_clocktime = (if opn = GATE_OP_CAS then cas else 0), rs_user = length (th_entries h)\<rparr>])) \<and>
    length data' = length data \<and> (\<forall>m \<ge> dp. drop m data' = drop m data)"
proof (cases "(\<not> gc_save_flag cfg \<and> fl \<noteq> 0) \<or> (\<not> gc_save_exptime cfg \<and> ex \<noteq> 0)")
  case True
  then show ?thesis by (auto simp: text_request_set_impl_def)
next
  case False
  let ?pre = "item_prefix p cfg now fl ex"
  let ?data = "take (dp - length ?pre) data @ ?pre @ drop dp data"
  have n: "length ?pre \<le> 6" by (rule length_item_prefix)
  have dl: "dp + length dat \<le> length data" by (rule text_at_length [OF dat])
  have w: "unat (word_of_nat kp :: u64) = kp" "unat (word_of_nat dp :: u64) = dp" "unat (word_of_nat (length key) :: u32) = length key"
    using pos dl by (simp_all add: u64_of_nat u32_of_nat)
  have l: "unat (word_of_nat (length dat) + word_of_nat (length ?pre) :: u32) = length ?pre + length dat"
  proof -
    have "length dat + length ?pre < 2 ^ 32" using n dl pos by simp
    from u32_of_nat [OF this] show ?thesis by simp
  qed
  have put: "put_item p cfg now fl ex dp (word_of_nat (length dat)) data =
      Inr (dp - length ?pre, word_of_nat (length dat) + word_of_nat (length ?pre), ?data)"
    by (rule put_item_eq) (use pos dl in simp_all)
  have k: "run_of kp (length key) ?data = Inr key"
    by (rule run_of_patch_before [OF run_of_text [OF key]]) (use n pos dl in simp_all)
  have v: "run_of (dp - length ?pre) (length ?pre + length dat) ?data = Inr (?pre @ dat)"
    by (rule run_of_patch_at [OF run_of_text [OF dat]]) (use n pos dl in simp_all)
  have "length ?data = length data" using n pos dl by simp
  moreover have "\<forall>m \<ge> dp. drop m ?data = drop m data" using drop_patch [of ?pre dp data] n pos dl by simp
  ultimately show ?thesis
    using False cmd put k v by (intro exI [of _ ?data]) (auto simp: text_request_set_impl_def w l item_prefix_append)
qed

lemma command_served:
  assumes wf: "well_formed c" and at: "text_at data q (text_of c)" and small: "length data < 2 ^ 32"
  shows "\<exists>f data'. text_callbacks p cfg version now (command_of c) = Some f \<and>
    f (request_at q c) data s = Inr (0, data', text_step p cfg version now c s) \<and>
    length data' = length data \<and> drop (q + length (text_of c)) data' = drop (q + length (text_of c)) data"
proof -
  obtain h acts where s: "s = (h, acts)" by fastforce
  have cb: "text_callbacks p cfg version now (command_of c) = Some (text_request p cfg version now (command_of c))"
    by (cases c) (simp_all add: text_callbacks_def)
  have "\<exists>data'. text_request p cfg version now (command_of c) (request_at q c) data s = Inr (0, data', text_step p cfg version now c s) \<and>
    length data' = length data \<and> drop (q + length (text_of c)) data' = drop (q + length (text_of c)) data"
  proof (cases c)
    case (Text_get x ks)
    let ?q = "q + (if x then 5 else 4)"
    have "text_at data ?q (keys_text ks)"
      using at unfolding Text_get text_of_def text_head.simps append_assoc text_at_append word_lengths by blast
    then have r: "runs_of (key_runs ?q ks) data = Inr ks" using wf small Text_get by (intro runs_of_keys) simp_all
    show ?thesis
    proof (cases "length ks = 1")
      case True
      then obtain k where k: "ks = [k]" by (auto simp: length_Suc_conv)
      with r show ?thesis by (cases x) (auto simp: Text_get s text_request_def text_request_get_def text_request_get_single_def split: sum.splits)
    next
      case False
      with r show ?thesis by (cases x) (auto simp: Text_get s text_request_def text_request_get_def text_request_get_multi_def Let_def)
    qed
  next
    case (Text_set key fl ex nr dat)
    let ?d = "q + length (text_head c) + 1"
    have "text_at data (q + 4) key"
      using at unfolding Text_set text_of_def text_head.simps item_text_def append_assoc text_at_append word_lengths by blast
    moreover have "text_at data ?d dat"
      using at unfolding Text_set text_of_def text_data.simps append_assoc text_at_append by (simp del: text_head.simps)
    moreover have "q + 4 + length key + 6 \<le> ?d" by (cases "decimal (unat fl)") (simp_all add: Text_set item_text_def)
    ultimately show ?thesis
      using request_set_served [of MEMTEXT_CMD_SET nr _ _ data "q + 4" key ?d dat p cfg now fl ex 0 h acts] set_operation_cases wf small
      by (auto simp: Text_set s text_request_def valid_key_def text_of_def GATE_OP_SET_def GATE_OP_SET_ASYNC_def GATE_OP_CAS_def)
  next
    case (Text_cas key fl ex nr dat cas)
    let ?d = "q + length (text_head c) + 1"
    have "text_at data (q + 4) key"
      using at unfolding Text_cas text_of_def text_head.simps item_text_def append_assoc text_at_append word_lengths by blast
    moreover have "text_at data ?d dat"
      using at unfolding Text_cas text_of_def text_data.simps append_assoc text_at_append by (simp del: text_head.simps)
    moreover have "q + 4 + length key + 6 \<le> ?d" by (cases "decimal (unat fl)") (simp_all add: Text_cas item_text_def)
    ultimately show ?thesis
      using request_set_served [of MEMTEXT_CMD_CAS nr _ _ data "q + 4" key ?d dat p cfg now fl ex cas h acts] set_operation_cases wf small
      by (auto simp: Text_cas s text_request_def valid_key_def text_of_def)
  next
    case (Text_delete key nr)
    have "text_at data (q + 7) key"
      using at unfolding Text_delete text_of_def text_head.simps append_assoc text_at_append word_lengths by blast
    then have "run_of (unat (word_of_nat (q + 7) :: u64)) (unat (word_of_nat (length key) :: u32)) data = Inr key"
      using wf small Text_delete by (intro run_of_words) (auto simp: valid_key_def)
    then show ?thesis by (auto simp: Text_delete s text_request_def text_request_delete_def)
  next
    case Text_version
    then show ?thesis by (auto simp: s text_request_def text_request_version_def)
  qed
  with cb show ?thesis by blast
qed

interpretation tx: text_server "text_callbacks p cfg version now" "text_step p cfg version now" for p cfg version now
  by unfold_locales (rule command_served)

section \<open>Streams of commands\<close>

text \<open>The handler has read the commands in front of \<open>cs\<close>; \<open>rest\<close> is what has not come yet.\<close>

definition text_ready :: "text_handler \<Rightarrow> text_command list \<Rightarrow> bytes \<Rightarrow> bool" where
  "text_ready h cs rest \<longleftrightarrow> th_off h = length (th_buffer h) \<and>
     (\<exists>q \<le> length (th_buffer h). reading (th_buffer h) q (drop q (th_buffer h)) (th_memproto h) cs \<and>
        drop q (th_buffer h) @ rest = concat (map text_of cs) \<and> (q = length (th_buffer h) \<longrightarrow> th_buffer h = []))"

lemma reading_state: "reading data q t ctx cs \<Longrightarrow> mt_cs ctx \<noteq> memtext_error \<and> (t \<noteq> [] \<longrightarrow> mt_cs ctx \<noteq> memtext_first_final)"
proof -
  assume "reading data q t ctx cs"
  then obtain c0 where c0: "at_start c0" "scan data t q c0 = Some ctx" by (auto simp: reading_def)
  show ?thesis
  proof (cases "t = []")
    case True
    with c0 show ?thesis by (auto simp: at_start_def memtext_error_def)
  next
    case False
    with scan_inner [OF c0(2)] show ?thesis by (simp add: inner_def)
  qed
qed

lemma reading_extend: "reading data q (drop q data) ctx cs \<Longrightarrow> q \<le> length data \<Longrightarrow> length data < 2 ^ 64 \<Longrightarrow> reading (data @ ext) q (drop q data) ctx cs"
  unfolding reading_def by (auto simp: scan_extend)

lemma event_served:
  assumes ready: "text_ready h cs (bs @ rest)" and bs: "bs \<noteq> []" and wf: "list_all well_formed cs"
    and small: "length (th_buffer h) + length (bs @ rest) < 2 ^ 32"
  shows "\<exists>cs1 cs2 h1 h' acts. cs = cs1 @ cs2 \<and> text_read_event p cfg version now (Rl_bytes bs) h = (None, h', acts) \<and>
    fold (text_step p cfg version now) cs1 (h\<lparr>th_buffer := th_buffer h @ bs\<rparr>, []) = (h1, acts) \<and>
    h' = h1\<lparr>th_buffer := th_buffer h', th_off := th_off h', th_memproto := th_memproto h'\<rparr> \<and>
    text_ready h' cs2 rest \<and> length (th_buffer h') + length rest \<le> length (th_buffer h) + length (bs @ rest)"
proof -
  let ?B = "th_buffer h" and ?D = "th_buffer h @ bs" and ?cb = "text_callbacks p cfg version now"
  let ?s = "(h\<lparr>th_buffer := th_buffer h @ bs\<rparr>, [] :: front_action list)"
  obtain q where q: "q \<le> length ?B" "reading ?B q (drop q ?B) (th_memproto h) cs" "drop q ?B @ bs @ rest = concat (map text_of cs)"
    and off: "th_off h = length ?B" using ready by (auto simp: text_ready_def)
  have "reading ?D q (drop q ?B) (th_memproto h) cs" using reading_extend [OF q(2,1)] small by simp
  from tx.advance [OF this _ _ q(3) wf, of p cfg version now ?s] q(1) small
  obtain cs1 cs2 data' ctx' p' where a: "cs = cs1 @ cs2"
      "memtext_loop ?cb (length bs) (length ?B) ?D ?s (th_memproto h) = Inr (length ?D, data', fold (text_step p cfg version now) cs1 ?s, ctx')"
      "length data' = length ?D" "p' \<le> length ?D" "reading data' p' (drop p' data') ctx' cs2" "drop p' data' @ rest = concat (map text_of cs2)"
      "p' = length ?D \<longrightarrow> mt_cs ctx' = 129" using bs by auto
  obtain h1 acts where f: "fold (text_step p cfg version now) cs1 ?s = (h1, acts)" by fastforce
  have e: "memtext_execute ?cb ?D (length ?B) ?s (th_memproto h) = Inr (if mt_cs ctx' = memtext_first_final then 1 else 0, length ?D, data', (h1, acts), ctx')"
    using a(2) f bs reading_state [OF q(2)] reading_state [OF a(5)] by (auto simp: memtext_execute_def)
  show ?thesis
  proof (cases "p' = length ?D")
    case True
    let ?h = "h1\<lparr>th_buffer := [], th_off := 0, th_memproto := ctx'\<rparr>"
    have "text_read_event p cfg version now (Rl_bytes bs) h = (None, ?h, acts)"
      using e a(3,7) True off by (simp add: text_read_event_def text_parse.simps memtext_first_final_def)
    moreover have "text_ready ?h cs2 rest" using a(3,5,6) True by (auto simp: text_ready_def reading_def)
    ultimately show ?thesis using a(1) f by (intro exI [of _ cs1] exI [of _ cs2] exI [of _ h1] exI [of _ ?h] exI [of _ acts]) auto
  next
    case False
    let ?h = "h1\<lparr>th_buffer := data', th_off := length ?D, th_memproto := ctx'\<rparr>"
    have "drop p' data' \<noteq> []" using False a(3,4) by simp
    then have "text_read_event p cfg version now (Rl_bytes bs) h = (None, ?h, acts)"
      using e off reading_state [OF a(5)] by (simp add: text_read_event_def text_parse.simps)
    moreover have "text_ready ?h cs2 rest" using a(3,4,5,6) False by (auto simp: text_ready_def)
    ultimately show ?thesis using a(1,3) f by (intro exI [of _ cs1] exI [of _ cs2] exI [of _ h1] exI [of _ ?h] exI [of _ acts]) auto
  qed
qed

text \<open>Events of the connection, each with the time it is handled at; an error ends the connection.\<close>

fun text_events :: "platform \<Rightarrow> gate_config \<Rightarrow> bytes \<Rightarrow> (u32 \<times> bytes) list \<Rightarrow> text_handler \<Rightarrow> kerror option \<times> text_state" where
  "text_events p cfg version [] h = (None, h, [])"
| "text_events p cfg version ((now, bs) # evs) h =
     (case text_read_event p cfg version now (Rl_bytes bs) h of
        (Some e, h', acts) \<Rightarrow> (Some e, h', acts)
      | (None, h', acts) \<Rightarrow> (case text_events p cfg version evs h' of (err, h'', acts') \<Rightarrow> (err, h'', acts @ acts')))"

text \<open>The commands in order, each at its time.\<close>

definition text_serve :: "platform \<Rightarrow> gate_config \<Rightarrow> bytes \<Rightarrow> (u32 \<times> text_command) list \<Rightarrow> text_state \<Rightarrow> text_state" where
  "text_serve p cfg version = fold (\<lambda>(now, c). text_step p cfg version now c)"

text \<open>Two states with the same entries and vectors; the first has done the actions \<open>a\<close> before.\<close>

definition agree :: "front_action list \<Rightarrow> text_state \<Rightarrow> text_state \<Rightarrow> bool" where
  "agree a s t \<longleftrightarrow> th_entries (fst s) = th_entries (fst t) \<and> th_blocks (fst s) = th_blocks (fst t) \<and> snd s = a @ snd t"

lemma agree_step: "agree a s t \<Longrightarrow> agree a (text_step p cfg version now c s) (text_step p cfg version now c t)"
  by (cases s; cases t; cases c) (auto simp: agree_def text_entry_new_def)

lemma agree_serve: "agree a s t \<Longrightarrow> agree a (text_serve p cfg version tcs s) (text_serve p cfg version tcs t)"
  unfolding text_serve_def by (induction tcs arbitrary: s t) (simp_all add: agree_step split: prod.splits)

lemma text_serve_append: "text_serve p cfg version (xs @ ys) s = text_serve p cfg version ys (text_serve p cfg version xs s)"
  by (simp add: text_serve_def)

lemma text_serve_now: "text_serve p cfg version (map (Pair now) cs) s = fold (text_step p cfg version now) cs s"
  by (induction cs arbitrary: s) (simp_all add: text_serve_def)

lemma events_served:
  assumes "text_ready h cs (concat (map snd evs))" "list_all well_formed cs" "[] \<notin> snd ` set evs"
    "length (th_buffer h) + length (concat (map snd evs)) < 2 ^ 32"
  shows "\<exists>tcs h' acts cs'. text_events p cfg version evs h = (None, h', acts) \<and> cs = map snd tcs @ cs' \<and> fst ` set tcs \<subseteq> fst ` set evs \<and>
    agree [] (h', acts) (text_serve p cfg version tcs (h, [])) \<and> text_ready h' cs' []"
  using assms
proof (induction evs arbitrary: h cs)
  case Nil
  then show ?case by (intro exI [of _ "[]"] exI [of _ h] exI [of _ cs]) (simp add: agree_def text_serve_def)
next
  case (Cons ev evs)
  obtain now bs where ev: "ev = (now, bs)" by fastforce
  obtain cs1 cs2 h1 h' acts where e: "cs = cs1 @ cs2" "text_read_event p cfg version now (Rl_bytes bs) h = (None, h', acts)"
      "fold (text_step p cfg version now) cs1 (h\<lparr>th_buffer := th_buffer h @ bs\<rparr>, []) = (h1, acts)"
      "h' = h1\<lparr>th_buffer := th_buffer h', th_off := th_off h', th_memproto := th_memproto h'\<rparr>" "text_ready h' cs2 (concat (map snd evs))"
      "length (th_buffer h') + length (concat (map snd evs)) \<le> length (th_buffer h) + length (bs @ concat (map snd evs))"
    using event_served [of h cs bs "concat (map snd evs)" p cfg version now] Cons.prems by (auto simp: ev)
  have "list_all well_formed cs2" using Cons.prems(2) e(1) by simp
  from Cons.IH [OF e(5) this] Cons.prems(3,4) e(6) obtain tcs h2 acts2 cs' where i: "text_events p cfg version evs h' = (None, h2, acts2)"
      "cs2 = map snd tcs @ cs'" "fst ` set tcs \<subseteq> fst ` set evs" "agree [] (h2, acts2) (text_serve p cfg version tcs (h', []))" "text_ready h2 cs' []"
    by (auto simp: ev)
  let ?one = "text_serve p cfg version (map (Pair now) cs1) (h, [])"
  have one: "agree [] (h', acts) ?one"
  proof -
    have "agree [] (h1, acts) ?one"
      unfolding text_serve_now [symmetric] e(3) [symmetric] by (rule agree_serve) (simp add: agree_def)
    moreover have "th_entries h' = th_entries h1 \<and> th_blocks h' = th_blocks h1" by (subst (1 2) e(4)) simp
    ultimately show ?thesis by (simp add: agree_def)
  qed
  then have "agree acts ?one (h', [])" by (simp add: agree_def)
  from agree_serve [OF this, of p cfg version tcs] i(4)
  have "agree [] (h2, acts @ acts2) (text_serve p cfg version (map (Pair now) cs1 @ tcs) (h, []))"
    by (simp add: agree_def text_serve_append)
  moreover have "cs = map snd (map (Pair now) cs1 @ tcs) @ cs'" using e(1) i(2) by (simp add: o_def)
  moreover have "fst ` set (map (Pair now) cs1 @ tcs) \<subseteq> fst ` set (ev # evs)" using i(3) by (auto simp: ev)
  moreover have "text_events p cfg version (ev # evs) h = (None, h2, acts @ acts2)" using e(2) i(1) by (simp add: ev)
  ultimately show ?case using i(5) by blast
qed

lemma text_ready_end: "text_ready h cs [] \<Longrightarrow> cs = [] \<and> th_buffer h = [] \<and> th_off h = 0"
proof -
  assume "text_ready h cs []"
  then obtain q where q: "th_off h = length (th_buffer h)" "reading (th_buffer h) q (drop q (th_buffer h)) (th_memproto h) cs"
      "drop q (th_buffer h) = concat (map text_of cs)" "q \<le> length (th_buffer h)" "q = length (th_buffer h) \<longrightarrow> th_buffer h = []"
    unfolding text_ready_def append_Nil2 by blast
  then have "drop q (th_buffer h) = []" by (auto simp: reading_def)
  moreover from this q(3) have "cs = []" by (cases cs) (auto simp: text_of_def)
  ultimately show ?thesis using q(1,4,5) by simp
qed

lemma new_events_served:
  assumes "list_all well_formed cs" "concat (map snd evs) = concat (map text_of cs)" "[] \<notin> snd ` set evs"
    "length (concat (map text_of cs)) < 2 ^ 32" "text_events p cfg version evs text_handler_new = (err, h', acts)"
  obtains tcs where "err = None" "cs = map snd tcs" "fst ` set tcs \<subseteq> fst ` set evs"
    "agree [] (h', acts) (text_serve p cfg version tcs (text_handler_new, []))" "th_buffer h' = []" "th_off h' = 0"
proof -
  have "text_ready text_handler_new cs (concat (map snd evs))"
    unfolding text_ready_def
    by (rule conjI, simp add: text_handler_new_def, rule exI [of _ 0])
      (use assms(2) in \<open>auto simp: text_handler_new_def reading_def at_start_def memtext_init_def memtext_start_def MEMTEXT_MAX_MULTI_GET_def\<close>)
  from events_served [OF this assms(1,3), of p cfg version] assms(2,4,5) obtain tcs cs' where t: "err = None" "cs = map snd tcs @ cs'"
      "fst ` set tcs \<subseteq> fst ` set evs" "agree [] (h', acts) (text_serve p cfg version tcs (text_handler_new, []))" "text_ready h' cs' []"
    by (auto simp: text_handler_new_def)
  with text_ready_end [OF t(5)] that show thesis by simp
qed

text \<open>
  C14: The text protocol is served whatever the pieces are in which it arrives. When the bytes of a
  connection, cut anywhere into non-empty reads, are well-formed get, gets, set, cas, delete and version commands,
  no read fails, and the requests submitted to the gateway and the replies written are those of the commands,
  each once and in their order, with the keys, flags, expiration times and data as they were sent: the parser's marks and
  the writing of flags and times into the buffer never touch what is still to be read.
\<close>

theorem text_stream_served:
  assumes "list_all well_formed cs" "concat (map snd evs) = concat (map text_of cs)" "[] \<notin> snd ` set evs"
    "length (concat (map text_of cs)) < 2 ^ 32"
    "text_events p cfg version evs text_handler_new = (err, h', acts)"
  shows "\<exists>times. err = None \<and> length times = length cs \<and> set times \<subseteq> fst ` set evs \<and>
    acts = snd (text_serve p cfg version (zip times cs) (text_handler_new, [])) \<and>
    th_entries h' = th_entries (fst (text_serve p cfg version (zip times cs) (text_handler_new, []))) \<and>
    th_blocks h' = th_blocks (fst (text_serve p cfg version (zip times cs) (text_handler_new, []))) \<and>
    th_buffer h' = [] \<and> th_off h' = 0"
proof -
  from assms obtain tcs where t: "err = None" "cs = map snd tcs" "fst ` set tcs \<subseteq> fst ` set evs"
      "agree [] (h', acts) (text_serve p cfg version tcs (text_handler_new, []))" "th_buffer h' = []" "th_off h' = 0"
    by (rule new_events_served)
  then show ?thesis by (intro exI [of _ "map fst tcs"]) (auto simp: agree_def zip_map_fst_snd)
qed

definition flags_config :: gate_config where
  "flags_config = \<lparr>gc_save_flag = True, gc_save_exptime = False\<rparr>"

theorem text_stream_served_witness:
  "\<exists>h' val. text_events sample_platform flags_config (ascii ''kumofs'')
     [(7, ascii ''se''), (8, ascii ''t k 5 0 2'' @ [13, 10, 1, 2, 13, 10] @ ascii ''get '' @ ascii ''k''), (9, [13, 10])] text_handler_new =
     (None, h', [F_set \<lparr>rs_key = [107], rs_user_hash = None, rs_val = val, rs_operation = 0, rs_clocktime = 0, rs_user = 0\<rparr>,
                 F_get \<lparr>rg_key = [107], rg_user_hash = None, rg_user = 1\<rparr>]) \<and> length val = 4"
proof -
  let ?evs = "[(7, ascii ''se''), (8, ascii ''t k 5 0 2'' @ [13, 10, 1, 2, 13, 10] @ ascii ''get '' @ ascii ''k''), (9, [13, 10])] :: (u32 \<times> bytes) list"
  let ?cs = "[Text_set [107] 5 0 False [1, 2], Text_get False [[107]]]"
  obtain err h' acts where r: "text_events sample_platform flags_config (ascii ''kumofs'') ?evs text_handler_new = (err, h', acts)"
    by (metis prod_cases3)
  have "list_all well_formed ?cs" by (simp add: valid_key_def key_char_def)
  moreover have "concat (map snd ?evs) = concat (map text_of ?cs)"
    by (simp add: text_of_def item_text_def noreply_text_def ascii_def decimal.simps)
  moreover have "[] \<notin> snd ` set ?evs" by (simp add: ascii_def)
  moreover have "length (concat (map text_of ?cs)) < 2 ^ 32"
    by (simp add: text_of_def item_text_def noreply_text_def decimal.simps)
  ultimately obtain times where "err = None" "length times = length ?cs"
      and a: "acts = snd (text_serve sample_platform flags_config (ascii ''kumofs'') (zip times ?cs) (text_handler_new, []))"
    using text_stream_served [OF _ _ _ _ r] by blast
  from this(2) obtain t1 t2 where "times = [t1, t2]" by (auto simp: length_Suc_conv)
  with a \<open>err = None\<close> r show ?thesis
    by (auto simp: text_serve_def flags_config_def text_handler_new_def text_entry_new_def GATE_OP_SET_def)
qed

end
