(* ===== verification/TextReplies.thy ===== *)
theory TextReplies
  imports MemcacheTextTheorems
begin

text \<open>
  The replies of the text front end: the reply to a get is what was stored, the reply to a get of many
  keys is written once, in the order of the keys, whatever the order of the answers, and the
  lines in front of values fit into the memory that is allocated for them.
\<close>

section \<open>A stored value\<close>

text \<open>The reply to a get of one key, by the book.\<close>

definition value_text :: "bool \<Rightarrow> bytes \<Rightarrow> u16 \<Rightarrow> bytes \<Rightarrow> u64 \<Rightarrow> bytes" where
  "value_text c key fl dat ct =
     ascii ''VALUE '' @ key @ ascii '' '' @ decimal (unat fl) @ ascii '' '' @ decimal (length dat) @
     (if c then ascii '' '' @ decimal (unat ct) else []) @ CRLF @ dat @ CRLF"

lemma value_item_stored:
  assumes "gc_save_flag cfg \<or> fl = 0" "gc_save_exptime cfg \<Longrightarrow> \<not> item_expired now' (exptime_to_system now ex)"
  shows "\<exists>header. value_item p cfg now' c (Res_get key hsh (Some (put_exptime p cfg now ex (put_flags p cfg fl dat))) ct) = Some (header, dat) \<and>
    header @ dat @ CRLF = value_text c key fl dat ct"
proof -
  have zero: "ascii '' 0'' = ascii '' '' @ decimal 0" by (simp add: ascii_def decimal_zero)
  show ?thesis
    using assms by (cases "gc_save_flag cfg"; cases "gc_save_exptime cfg") (simp_all add: value_item_def value_header_def value_text_def zero)
qed

text \<open>
  C17: What is stored over the text protocol is what is read back. A set command, with or without \<open>noreply\<close> and
  cut into any pieces, makes the gateway store one value under its key; and when the gateway later finds that value and it
  has not expired since the time the command was read, the reply to a get is the line with the key, the same flags and the length, the same
  data, and the line that ends it, and to a gets it has the stamp of the value, too.
\<close>

theorem text_set_get_roundtrip:
  assumes "valid_key key" "dat \<noteq> []" "gc_save_flag cfg \<or> fl = 0" "gc_save_exptime cfg \<or> ex = 0"
    "concat (map snd evs) = text_of (Text_set key fl ex nr dat)" "[] \<notin> snd ` set evs" "length (text_of (Text_set key fl ex nr dat)) < 2 ^ 32"
    "text_events p cfg version evs text_handler_new = (err, h', acts)"
  shows "\<exists>req now. err = None \<and> acts = [F_set req] \<and> rs_key req = key \<and> now \<in> fst ` set evs \<and>
    (\<forall>now' c hsh ct h. th_valid h \<longrightarrow> (gc_save_exptime cfg \<longrightarrow> \<not> item_expired now' (exptime_to_system now ex)) \<longrightarrow>
      (\<exists>vec. text_response_get p cfg now' c (Res_get key hsh (Some (rs_val req)) ct) h = [F_write vec] \<and>
         concat vec = value_text c key fl dat ct @ END_REPLY))"
proof -
  let ?c = "Text_set key fl ex nr dat"
  have "list_all well_formed [?c]" "concat (map snd evs) = concat (map text_of [?c])" "length (concat (map text_of [?c])) < 2 ^ 32"
    using assms(1,2,5,7) by (simp_all del: text_head.simps text_data.simps)
  from new_events_served [OF this(1,2) assms(6) this(3) assms(8)]
  obtain tcs where t: "err = None" "[?c] = map snd tcs" "fst ` set tcs \<subseteq> fst ` set evs"
      "agree [] (h', acts) (text_serve p cfg version tcs (text_handler_new, []))" by metis
  from t(2) obtain now where now: "tcs = [(now, ?c)]" by (cases tcs) auto
  have "\<not> ((\<not> gc_save_flag cfg \<and> fl \<noteq> 0) \<or> (\<not> gc_save_exptime cfg \<and> ex \<noteq> 0))" using assms(3,4) by blast
  then have "snd (text_step p cfg version now ?c (text_handler_new, [])) = [F_set \<lparr>rs_key = key, rs_user_hash = None,
      rs_val = put_exptime p cfg now ex (put_flags p cfg fl dat), rs_operation = (if nr then GATE_OP_SET_ASYNC else GATE_OP_SET),
      rs_clocktime = 0, rs_user = length (th_entries text_handler_new)\<rparr>]" (is "_ = [F_set ?req]")
    by (simp only: text_step.simps if_False snd_conv append_Nil)
  moreover have "acts = snd (text_step p cfg version now ?c (text_handler_new, []))"
    using t(4) now by (simp add: agree_def text_serve_def del: text_step.simps)
  ultimately obtain req where req: "acts = [F_set req]" "rs_key req = key" "rs_val req = put_exptime p cfg now ex (put_flags p cfg fl dat)"
    using that [of ?req] by simp
  have "\<exists>vec. text_response_get p cfg now' c (Res_get key hsh (Some (rs_val req)) ct) h = [F_write vec] \<and> concat vec = value_text c key fl dat ct @ END_REPLY"
    if "th_valid h" "gc_save_exptime cfg \<longrightarrow> \<not> item_expired now' (exptime_to_system now ex)" for now' c hsh ct h
    using value_item_stored [of cfg fl now' now ex p c key hsh dat ct] assms(3) that
    by (auto simp: text_response_get_def text_send_datav_def req(3))
  moreover have "now \<in> fst ` set evs" using t(3) now by simp
  ultimately show ?thesis using t(1) req(1,2) by blast
qed

theorem text_set_get_roundtrip_witness:
  "\<exists>h' req vec. text_events sample_platform flags_config (ascii ''kumofs'')
     [(7, ascii ''set k 5 0 2''), (9, [13, 10, 1, 2, 13, 10])] text_handler_new = (None, h', [F_set req]) \<and>
   text_response_get sample_platform flags_config 20 True (Res_get [107] 77 (Some (rs_val req)) 42) text_handler_new = [F_write vec] \<and>
   concat vec = ascii ''VALUE k 5 2 42'' @ [13, 10, 1, 2, 13, 10] @ ascii ''END'' @ [13, 10]"
proof -
  let ?evs = "[(7, ascii ''set k 5 0 2''), (9, [13, 10, 1, 2, 13, 10])] :: (u32 \<times> bytes) list"
  obtain err h' acts where r: "text_events sample_platform flags_config (ascii ''kumofs'') ?evs text_handler_new = (err, h', acts)"
    by (metis prod_cases3)
  have h: "valid_key [107]" "[1, 2 :: u8] \<noteq> []" "gc_save_flag flags_config \<or> (5 :: u16) = 0" "gc_save_exptime flags_config \<or> (0 :: u32) = 0"
    by (simp_all add: valid_key_def key_char_def flags_config_def)
  have e: "concat (map snd ?evs) = text_of (Text_set [107] 5 0 False [1, 2])"
    by (simp add: text_of_def item_text_def noreply_text_def ascii_def decimal.simps)
  have l: "[] \<notin> snd ` set ?evs" "length (text_of (Text_set [107] 5 0 False [1, 2])) < 2 ^ 32"
    by (simp_all add: ascii_def text_of_def item_text_def noreply_text_def decimal.simps)
  have "\<not> gc_save_exptime flags_config" by (simp add: flags_config_def)
  with text_set_get_roundtrip [OF h e l r] obtain req where req: "err = None" "acts = [F_set req]" and get: "\<And>now' c hsh ct h. th_valid h \<Longrightarrow>
      (\<exists>vec. text_response_get sample_platform flags_config now' c (Res_get [107] hsh (Some (rs_val req)) ct) h = [F_write vec] \<and>
         concat vec = value_text c [107] 5 [1, 2] ct @ END_REPLY)"
    by blast
  have "th_valid text_handler_new" by (simp add: text_handler_new_def)
  from get [OF this, of 20 True 77 42] req r show ?thesis
    by (auto simp: value_text_def END_REPLY_def CRLF_def ascii_def decimal.simps)
qed

section \<open>The size of the header\<close>

text \<open>
  The line in front of a value fits. For every result whose value has a length of 32 bits, the characters that are
  written in front of it, with the null character \<open>sprintf\<close> adds, are at most the \<open>HEADER_SIZE\<close> of the key that was
  allocated, and for a get of many keys, where a line break comes first, at most two more.
\<close>

theorem value_header_fits:
  assumes "value_item p cfg now c (Res_get key hsh (Some stored) ct) = Some (header, val)" "length stored < 2 ^ 32"
  shows "length header + 1 \<le> HEADER_SIZE (length key) \<and> length (CRLF @ header) + 1 \<le> HEADER_SIZE (length key) + 2"
proof -
  have "length val \<le> length stored" "\<exists>fl. header = value_header c key fl (length val) ct"
    using assms(1) by (auto simp: value_item_def Let_def split: if_splits)
  then obtain fl where h: "header = value_header c key fl (length val) ct" "length (decimal (length val)) \<le> 10"
    using assms(2) length_decimal_u32 [of "length val"] by auto
  have "length (decimal (unat ct)) \<le> 20" using length_decimal_u64 unat_bound [of ct] by simp
  have "length (decimal (unat f)) \<le> 5" for f :: u16 using length_decimal_u16 unat_bound [of f] by simp
  have "length header + 1 \<le> HEADER_SIZE (length key)"
  proof -
    let ?f = "case fl of Some n \<Rightarrow> ascii '' '' @ decimal (unat n) | None \<Rightarrow> ascii '' 0''"
    let ?c = "if c then ascii '' '' @ decimal (unat ct) else []"
    have "length ?f \<le> 6" using \<open>\<And>f. length (decimal (unat f)) \<le> 5\<close> by (cases fl) simp_all
    moreover have "length ?c \<le> 21" using \<open>length (decimal (unat ct)) \<le> 20\<close> by simp
    moreover have "length header = 6 + length key + length ?f + 1 + length (decimal (length val)) + length ?c + 2"
      unfolding h(1) value_header_def CRLF_def by simp
    ultimately show ?thesis using h(2) unfolding HEADER_SIZE_def by linarith
  qed
  then show ?thesis by (simp add: CRLF_def)
qed

theorem value_header_fits_witness:
  "\<exists>header val. value_item sample_platform flags_config 20 True (Res_get [107] 77 (Some [255, 255, 1]) 18446744073709551615) = Some (header, val) \<and>
     length header + 1 \<le> HEADER_SIZE 1 \<and> length (CRLF @ header) + 1 \<le> HEADER_SIZE 1 + 2"
proof -
  obtain header val where v: "value_item sample_platform flags_config 20 True (Res_get [107] 77 (Some [255, 255, 1]) 18446744073709551615) = Some (header, val)"
    by (simp add: value_item_def flags_config_def Let_def)
  from value_header_fits [OF v] v show ?thesis by auto
qed

section \<open>A get of many keys\<close>

text \<open>The vector of a get of many keys, by the answers to its keys; \<open>None\<close> is no answer yet, or no value.\<close>

definition item_runs :: "(bytes \<times> bytes) option \<Rightarrow> bytes option list" where
  "item_runs it = (case it of None \<Rightarrow> [None, None] | Some (header, val) \<Rightarrow> [Some (CRLF @ header), Some val])"

definition vector_of :: "(bytes \<times> bytes) option list \<Rightarrow> bytes option list" where
  "vector_of its = concat (map item_runs its) @ [Some (CRLF @ END_REPLY)]"

definition item_bytes :: "(bytes \<times> bytes) option \<Rightarrow> bytes" where
  "item_bytes it = (case it of None \<Rightarrow> [] | Some (header, val) \<Rightarrow> header @ val @ CRLF)"

lemma vector_of_new: "vector_of (replicate n None) = replicate (2 * n) None @ [Some (CRLF @ END_REPLY)]"
  by (induction n) (simp_all add: vector_of_def item_runs_def)

lemma vector_of_update:
  "i < length its \<Longrightarrow> (vector_of its)[2 * i := Some (CRLF @ header), 2 * i + 1 := Some val] = vector_of (its[i := Some (header, val)])"
proof (induction its arbitrary: i)
  case (Cons it its)
  obtain a b where "item_runs it = [a, b]" by (cases it) (auto simp: item_runs_def)
  with Cons show ?case by (cases i) (auto simp: vector_of_def item_runs_def)
qed simp

lemma vector_of_Cons: "vector_of (it # its) = item_runs it @ vector_of its"
  by (simp add: vector_of_def)

lemma iov_bytes_simps [simp]: "iov_bytes None = []" "iov_bytes (Some b) = b"
  by (simp_all add: iov_bytes_def)

lemma item_bytes_simps [simp]: "item_bytes None = []" "item_bytes (Some (header, val)) = header @ val @ CRLF"
  by (simp_all add: item_bytes_def)

lemma vector_bytes: "concat (map iov_bytes (vector_of its)) = CRLF @ concat (map item_bytes its) @ END_REPLY"
  by (induction its) (auto simp: vector_of_def item_runs_def item_bytes_def split: option.splits)

lemma strip_first_bytes: "concat (map iov_bytes (strip_first (vector_of its))) = concat (map item_bytes its) @ END_REPLY"
proof (induction its)
  case Nil
  then show ?case by (simp add: vector_of_def CRLF_def)
next
  case (Cons it its)
  then show ?case
    by (cases it) (auto simp: vector_of_Cons vector_bytes item_runs_def CRLF_def)
qed

text \<open>The answers of the gateway, each with the number of the key, the time and the result.\<close>

fun text_answers :: "platform \<Rightarrow> gate_config \<Rightarrow> nat \<Rightarrow> (nat \<times> u32 \<times> gate_res) list \<Rightarrow> text_handler \<Rightarrow> text_handler \<times> front_action list" where
  "text_answers p cfg e0 [] h = (h, [])"
| "text_answers p cfg e0 ((i, now, res) # as) h =
     (case text_response p cfg now (e0 + i) res h of (h', acts) \<Rightarrow>
        case text_answers p cfg e0 as h' of (h'', acts') \<Rightarrow> (h'', acts @ acts'))"

text \<open>The items after some answers.\<close>

definition with_answers :: "platform \<Rightarrow> gate_config \<Rightarrow> bool \<Rightarrow> (nat \<times> u32 \<times> gate_res) list \<Rightarrow> (bytes \<times> bytes) option list \<Rightarrow> (bytes \<times> bytes) option list" where
  "with_answers p cfg c as its = fold (\<lambda>(i, now, res) its. its[i := value_item p cfg now c res]) as its"

text \<open>A get of \<open>n\<close> keys whose entries begin at \<open>e0\<close>, with \<open>m\<close> answers to come.\<close>

definition multi_waits :: "bool \<Rightarrow> nat \<Rightarrow> nat \<Rightarrow> nat \<Rightarrow> nat \<Rightarrow> (bytes \<times> bytes) option list \<Rightarrow> text_handler \<Rightarrow> bool" where
  "multi_waits c n e0 b m its h \<longleftrightarrow> th_valid h \<and> length its = n \<and> e0 + n \<le> length (th_entries h) \<and> b < length (th_blocks h) \<and>
     (\<forall>i < n. th_entries h ! (e0 + i) = Te_get_multi c (2 * i) b) \<and> th_blocks h ! b = \<lparr>gm_count = word_of_nat m, gm_vhead = vector_of its\<rparr>"

lemma multi_answer:
  assumes "multi_waits c n e0 b m its h" "i < n" "its ! i = None" "m < 2 ^ 32" "text_response p cfg now (e0 + i) res h = (h', acts)" "0 < m"
  shows "1 < m \<Longrightarrow> acts = [] \<and> multi_waits c n e0 b (m - 1) (its[i := value_item p cfg now c res]) h'"
    and "m = 1 \<Longrightarrow> \<exists>vec. acts = [F_write vec] \<and> concat vec = concat (map item_bytes (its[i := value_item p cfg now c res])) @ END_REPLY"
proof -
  let ?it = "value_item p cfg now c res"
  have w: "th_valid h" "e0 + i < length (th_entries h)" "th_entries h ! (e0 + i) = Te_get_multi c (2 * i) b" "b < length (th_blocks h)"
      "th_blocks h ! b = \<lparr>gm_count = word_of_nat m, gm_vhead = vector_of its\<rparr>" "i < length its"
    using assms(1,2) by (auto simp: multi_waits_def)
  have v: "(case ?it of None \<Rightarrow> vector_of its | Some (header, val) \<Rightarrow> (vector_of its)[2 * i := Some (CRLF @ header), 2 * i + 1 := Some val]) =
      vector_of (its[i := ?it])"
    using vector_of_update [OF w(6)] list_update_id [of its i] assms(3) by (auto split: option.splits)
  have count: "(word_of_nat m :: u32) - 1 = word_of_nat (m - 1)" using assms(6) by (cases m) simp_all
  have r: "text_response_get_multi p cfg now c (2 * i) b res h = (h', acts)"
    using assms(5) w by (simp add: text_response_def)
  show "acts = [] \<and> multi_waits c n e0 b (m - 1) (its[i := ?it]) h'" if "1 < m"
  proof -
    have "(word_of_nat (m - 1) :: u32) \<noteq> 0" using that assms(4) by (intro u32_nonzero) simp_all
    then show ?thesis
      using r assms(1) w(4,5) unfolding text_response_get_multi_def Let_def w(5) get_multi.simps v count
      by (auto simp: multi_waits_def)
  qed
  show "\<exists>vec. acts = [F_write vec] \<and> concat vec = concat (map item_bytes (its[i := ?it])) @ END_REPLY" if "m = 1"
    using r w(1) that strip_first_bytes [of "its[i := ?it]"] unfolding text_response_get_multi_def Let_def w(5) get_multi.simps v count
    by (auto simp: text_send_datav_def)
qed

lemma multi_prefix:
  assumes "multi_waits c n e0 b m its h" "length as < m" "m < 2 ^ 32" "distinct (map fst as)" "\<And>i. i \<in> fst ` set as \<Longrightarrow> i < n \<and> its ! i = None"
  shows "snd (text_answers p cfg e0 as h) = [] \<and>
    multi_waits c n e0 b (m - length as) (with_answers p cfg c as its) (fst (text_answers p cfg e0 as h))"
  using assms
proof (induction as arbitrary: h m its)
  case (Cons a as)
  obtain i now res where a: "a = (i, now, res)" by (metis prod_cases3)
  obtain h1 acts where r: "text_response p cfg now (e0 + i) res h = (h1, acts)" by fastforce
  have "acts = []" and w: "multi_waits c n e0 b (m - 1) (its[i := value_item p cfg now c res]) h1"
    using multi_answer(1) [OF Cons.prems(1) _ _ Cons.prems(3) r] Cons.prems(2,5) by (auto simp: a)
  moreover have "j < n \<and> its[i := value_item p cfg now c res] ! j = None" if "j \<in> fst ` set as" for j
  proof -
    have "j \<noteq> i" using Cons.prems(4) that by (auto simp: a)
    then show ?thesis using Cons.prems(5) [of j] that by simp
  qed
  ultimately show ?case
    using Cons.IH [OF w] Cons.prems(2,3,4) r by (auto simp: a with_answers_def split: prod.splits)
qed (simp add: with_answers_def)

lemma text_answers_append:
  "text_answers p cfg e0 (xs @ ys) h =
     (case text_answers p cfg e0 xs h of (h1, a1) \<Rightarrow> case text_answers p cfg e0 ys h1 of (h2, a2) \<Rightarrow> (h2, a1 @ a2))"
  by (induction xs arbitrary: h) (auto split: prod.splits)

lemma with_answers_nth:
  "distinct (map fst as) \<Longrightarrow> with_answers p cfg c as its =
     map (\<lambda>i. case map_of as i of None \<Rightarrow> its ! i | Some (now, res) \<Rightarrow> value_item p cfg now c res) [0..<length its]"
proof (induction as arbitrary: its)
  case Nil
  then show ?case by (simp add: with_answers_def map_nth)
next
  case (Cons a as)
  obtain i now res where a: "a = (i, now, res)" by (metis prod_cases3)
  have "map_of as i = None" using Cons.prems by (simp add: a map_of_eq_None_iff)
  then show ?case
    using Cons.IH [of "its[i := value_item p cfg now c res]"] Cons.prems
    by (auto simp: with_answers_def a nth_list_update split: option.splits)
qed

lemma multi_answers:
  assumes w: "multi_waits c n e0 b n its h" and n: "length as = n" "0 < n" "n < 2 ^ 32"
    and as: "distinct (map fst as)" "\<And>i. i \<in> fst ` set as \<Longrightarrow> i < n \<and> its ! i = None"
  shows "\<exists>vec. snd (text_answers p cfg e0 as h) = [F_write vec] \<and> concat vec = concat (map item_bytes (with_answers p cfg c as its)) @ END_REPLY"
proof -
  obtain bs i now res where bs: "as = bs @ [(i, now, res)]" using n(1,2) by (metis length_greater_0_conv prod_cases3 rev_exhaust)
  let ?h = "fst (text_answers p cfg e0 bs h)" and ?its = "with_answers p cfg c bs its"
  have p: "snd (text_answers p cfg e0 bs h) = []" "multi_waits c n e0 b 1 ?its ?h"
    using multi_prefix [OF w _ n(3), of bs p cfg] as n(1) by (auto simp: bs)
  have len: "length its = n" using w by (simp add: multi_waits_def)
  have i: "i < n" "its ! i = None" "map_of bs i = None" using as(2) [of i] as(1) by (simp_all add: bs map_of_eq_None_iff)
  then have i': "?its ! i = None" using as(1) len with_answers_nth [of bs p cfg c its] by (simp add: bs)
  obtain h' acts where r: "text_response p cfg now (e0 + i) res ?h = (h', acts)" by fastforce
  from multi_answer(2) [OF p(2) i(1) i' _ r] obtain vec where "acts = [F_write vec]"
      "concat vec = concat (map item_bytes (?its[i := value_item p cfg now c res])) @ END_REPLY" by auto
  moreover have "?its[i := value_item p cfg now c res] = with_answers p cfg c as its" by (simp add: with_answers_def bs)
  ultimately show ?thesis using p(1) r by (auto simp: bs text_answers_append split: prod.splits)
qed

text \<open>
  C18: The reply to a get of many keys. Its keys are asked for one by one; in whatever order the answers
  come, and at whatever times, nothing is written before the last one, and then one vector is, whose bytes are the
  lines and data of the keys that were found, in the order of the command, and the end line: the line break in front of
  every value but the first, and the vector with its holes, come out as the protocol wants.
\<close>

theorem text_multi_get_reply:
  assumes "text_step p cfg version now (Text_get c ks) (h, acts0) = (h1, acts1)" "th_valid h" "2 \<le> length ks" "length ks \<le> 256"
    "distinct (map fst as)" "set (map fst as) = {0..<length ks}"
  shows "(\<forall>k < length ks. snd (text_answers p cfg (length (th_entries h)) (take k as) h1) = []) \<and>
    (\<exists>vec. snd (text_answers p cfg (length (th_entries h)) as h1) = [F_write vec] \<and>
       concat vec = concat (map (\<lambda>i. case map_of as i of None \<Rightarrow> [] | Some (now', res) \<Rightarrow> item_bytes (value_item p cfg now' c res)) [0..<length ks]) @ END_REPLY)"
proof -
  let ?n = "length ks" and ?its = "replicate (length ks) None" and ?e0 = "length (th_entries h)" and ?b = "length (th_blocks h)"
  have w: "multi_waits c ?n ?e0 ?b ?n ?its h1"
    using assms(1-3) by (auto simp: multi_waits_def vector_of_new nth_append)
  have len: "length as = ?n" using assms(5,6) by (metis card_atLeastLessThan diff_zero distinct_card length_map)
  have n: "0 < ?n" "?n < 2 ^ 32" using assms(3) by linarith (use assms(4) in simp)
  have as: "\<And>i. i \<in> fst ` set as \<Longrightarrow> i < ?n \<and> ?its ! i = None" using assms(6) by auto
  have "snd (text_answers p cfg ?e0 (take k as) h1) = []" if "k < ?n" for k
  proof -
    have sub: "fst ` set (take k as) \<subseteq> fst ` set as" by (rule image_mono) (rule set_take_subset)
    have "\<And>i. i \<in> fst ` set (take k as) \<Longrightarrow> i < ?n \<and> ?its ! i = None" using as subsetD [OF sub] by metis
    moreover have "distinct (map fst (take k as))" using assms(5) by (metis distinct_take take_map)
    moreover have "length (take k as) < ?n" using that len by simp
    ultimately show ?thesis using multi_prefix [OF w _ n(2), of "take k as" p cfg] by blast
  qed
  moreover have "map item_bytes (with_answers p cfg c as ?its) =
      map (\<lambda>i. case map_of as i of None \<Rightarrow> [] | Some (now', res) \<Rightarrow> item_bytes (value_item p cfg now' c res)) [0..<?n]"
    by (auto simp: with_answers_nth [OF assms(5)] item_bytes_def split: option.splits)
  ultimately show ?thesis using multi_answers [OF w len n assms(5) as, of p cfg] by auto
qed

theorem text_multi_get_reply_witness:
  "\<exists>h1 acts1 vec. text_step sample_platform flags_config [] 5 (Text_get False [[97], [98]]) (text_handler_new, []) = (h1, acts1) \<and>
     snd (text_answers sample_platform flags_config 0 [(1, 6, Res_get [98] 2 (Some [0, 3, 66]) 9), (0, 7, Res_get [97] 1 None 0)] h1) = [F_write vec] \<and>
     concat vec = item_bytes (value_item sample_platform flags_config 6 False (Res_get [98] 2 (Some [0, 3, 66]) 9)) @ END_REPLY"
proof -
  let ?as = "[(1, 6, Res_get [98] 2 (Some [0, 3, 66]) 9), (0, 7, Res_get [97] 1 None 0)] :: (nat \<times> u32 \<times> gate_res) list"
  obtain h1 acts1 where st: "text_step sample_platform flags_config [] 5 (Text_get False [[97], [98]]) (text_handler_new, []) = (h1, acts1)" by fastforce
  have "th_valid text_handler_new" "2 \<le> length [[97], [98 :: u8]]" "length [[97], [98 :: u8]] \<le> 256" "distinct (map fst ?as)"
    "set (map fst ?as) = {0..<length [[97], [98 :: u8]]}" by (auto simp: text_handler_new_def)
  note r = text_multi_get_reply [OF st this]
  have "value_item sample_platform flags_config 7 False (Res_get [97] 1 None 0) = None" by (simp add: value_item_def)
  with r st show ?thesis by (auto simp: text_handler_new_def item_bytes_def)
qed

section \<open>Too many keys\<close>

lemma keys_text_split: "ks \<noteq> [] \<Longrightarrow> keys_text (ks @ k # ks') = keys_text ks @ [32] @ keys_text (k # ks')"
  by (induction ks rule: keys_text.induct) simp_all

lemma scan_stuck:
  assumes "scan (xs @ c # r) xs 0 ctx = Some ctx'" "memtext_loop cb (Suc (length r)) (length xs) (xs @ c # r) s ctx' = Inl e"
  shows "memtext_loop cb (length (xs @ c # r)) 0 (xs @ c # r) s ctx = Inl e"
  using scan_loop [OF assms(1), of "c # r" cb "Suc (length r)" s] assms(2) by (simp del: memtext_loop.simps)

text \<open>
  The parser accepts one key too many. The array of the keys has 256 places, and the count that is
  compared with 256 after it has been incremented lets the 257th key pass: on its first character the parser writes
  behind the end of the array. A get or gets with more than 256 keys, in one read on a new connection, is undefined behaviour,
  whatever the keys are.
\<close>

theorem too_many_keys_overflow:
  assumes "256 < length ks" "list_all valid_key ks"
  shows "fst (text_read_event p cfg version now (Rl_bytes (text_of (Text_get c ks))) text_handler_new) = Some Undefined_behaviour"
proof -
  define ks1 where "ks1 = take 256 ks"
  obtain k ks2 where k: "ks = ks1 @ k # ks2" using id_take_nth_drop [OF assms(1)] unfolding ks1_def by blast
  have "length ks1 = 256" using assms(1) by (simp add: ks1_def)
  moreover have "list_all valid_key ks1 \<and> valid_key k" using assms(2) unfolding k by simp
  ultimately have ks1: "ks1 \<noteq> []" "length ks1 = 256" "list_all valid_key ks1" and vk: "valid_key k" by auto
  let ?w = "ascii (if c then ''gets '' else ''get '')" and ?cmd = "command_of (Text_get c ks)"
  let ?ctx = "memtext_init" and ?b = "begun (command_of (Text_get c ks)) 83 memtext_init"
  obtain ch r where r: "keys_text (k # ks2) @ [13, 10] = ch # r" "key_char ch"
    using vk by (cases ks2; cases k) (auto simp: valid_key_def)
  let ?xs = "?w @ keys_text ks1 @ [32]"
  have whole: "text_of (Text_get c ks) = ?xs @ ch # r"
    using r(1) by (simp add: text_of_def k keys_text_split [OF ks1(1)])
  have at_start: "at_start ?ctx" by (simp add: at_start_def memtext_init_def memtext_start_def MEMTEXT_MAX_MULTI_GET_def)
  have w: "scan (?xs @ ch # r) ?w 0 ?ctx = Some ?b" using scan_words(1,2) [OF at_start] by simp
  let ?k = "(marked_keys 0 (length ?w) ks1 ?b)\<lparr>mt_cs := 86, mt_keys := word_of_nat 255\<rparr>"
  have "scan (?xs @ ch # r) (keys_text ks1 @ [32]) (0 + length ?w) ?b = Some ?k"
    using scan_keys [of ?b 0 ks1 32 86 "?xs @ ch # r" "length ?w"] at_start ks1 by (simp add: at_start_def memtext_moves)
  from scan_trans [OF w this] have sc: "scan (?xs @ ch # r) ?xs 0 ?ctx = Some ?k" .
  let ?cb = "text_callbacks p cfg version now" and ?s = "(text_handler_new\<lparr>th_buffer := ?xs @ ch # r\<rparr>, [] :: front_action list)"
  have step: "memtext_loop ?cb (Suc (length r)) (length ?xs) (?xs @ ch # r) ?s ?k = Inl Undefined_behaviour"
    using r(2) at_start by (simp add: nth_append key_moves memtext_action_def MEMTEXT_MAX_MULTI_GET_def at_start_def Let_def)
  have "memtext_loop ?cb (length (?xs @ ch # r)) 0 (?xs @ ch # r) ?s ?ctx = Inl Undefined_behaviour"
    by (rule scan_stuck [OF sc step])
  then show ?thesis
    unfolding whole
    by (simp add: text_read_event_def text_parse.simps memtext_execute_def text_handler_new_def memtext_init_def memtext_start_def memtext_error_def del: memtext_loop.simps)
qed

theorem too_many_keys_overflow_witness:
  "fst (text_read_event sample_platform flags_config [] 5 (Rl_bytes (text_of (Text_get False (replicate 257 [107])))) text_handler_new) =
   Some Undefined_behaviour"
  by (rule too_many_keys_overflow) (simp_all add: valid_key_def key_char_def list_all_iff)

end
