(* ===== verification/Tcadb.thy ===== *)
theory Tcadb
  imports Tchdb
begin

text \<open>
  The storage module on Tokyo Cabinet's abstract database (\<open>storage/tcadb.cc\<close>). As in
  \<open>Tchdb\<close> the library is a parameter with the locale \<open>tcadb_lib\<close> of what its manual
  promises. The module keeps the contract of the storage layer, but it cannot delete during an
  iteration.
\<close>

section \<open>The library\<close>

text \<open>
  \<open>tcadbforeach\<close> visits the records in the order of \<open>adbkeys\<close>, until the callback answers
  false; \<open>adbforeach_ok\<close> is whether it can iterate at all.
\<close>

record 'h adb_api =
  adbnew :: "'h option"
  adbopen :: "'h \<Rightarrow> string \<Rightarrow> bool \<times> 'h"
  adbget :: "'h \<Rightarrow> bytes \<Rightarrow> bytes option"
  adbput :: "'h \<Rightarrow> bytes \<Rightarrow> bytes \<Rightarrow> bool \<times> 'h"
  adbputproc :: "'h \<Rightarrow> bytes \<Rightarrow> bytes option \<Rightarrow> (bytes \<Rightarrow> proc_result) \<Rightarrow> bool \<times> 'h"
  adbrnum :: "'h \<Rightarrow> u64"
  adbcopy :: "'h \<Rightarrow> string \<Rightarrow> bool \<times> 'h"
  adbkeys :: "'h \<Rightarrow> bytes list"
  adbforeach_ok :: "'h \<Rightarrow> bool"
  adb_fsync :: "string \<Rightarrow> bool"
  adb_rename :: "string \<Rightarrow> string \<Rightarrow> bool"

primrec foreach_records :: "(bytes \<Rightarrow> bytes \<Rightarrow> 's \<Rightarrow> bool \<times> 's) \<Rightarrow> (bytes \<times> bytes) list \<Rightarrow> 's \<Rightarrow> 's" where
  "foreach_records iter [] s = s"
| "foreach_records iter (kv # kvs) s =
     (let (go, s') = iter (fst kv) (snd kv) s in if go then foreach_records iter kvs s' else s')"

definition adbforeach ::
    "'h adb_api \<Rightarrow> 'h \<Rightarrow> (bytes \<Rightarrow> bytes \<Rightarrow> 's \<Rightarrow> bool \<times> 's) \<Rightarrow> 's \<Rightarrow> bool \<times> 's" where
  "adbforeach api h iter s =
     (if adbforeach_ok api h
      then (True, foreach_records iter (map (\<lambda>k. (k, the (adbget api h k))) (adbkeys api h)) s)
      else (False, s))"

section \<open>The module\<close>

text \<open>The module's data: the database, and where the running iteration of the library stands.\<close>

record 'h tcadb_data =
  ad_db :: 'h
  ad_todo :: "bytes list"

definition kumo_tcadb_create :: "'h adb_api \<Rightarrow> 'h tcadb_data option" where
  "kumo_tcadb_create api = map_option (\<lambda>h. \<lparr>ad_db = h, ad_todo = []\<rparr>) (adbnew api)"

definition on_adb :: "('h \<Rightarrow> bool \<times> 'h) \<Rightarrow> 'h tcadb_data \<Rightarrow> bool \<times> 'h tcadb_data" where
  "on_adb f d = (let (r, h) = f (ad_db d) in (r, d\<lparr>ad_db := h\<rparr>))"

definition kumo_tcadb_open :: "'h adb_api \<Rightarrow> 'h tcadb_data \<Rightarrow> string \<Rightarrow> bool \<times> 'h tcadb_data" where
  "kumo_tcadb_open api d path = on_adb (\<lambda>h. let (ok, h') = adbopen api h path in if \<not> ok then (False, h') else (True, h')) d"

definition kumo_tcadb_get :: "'h adb_api \<Rightarrow> 'h tcadb_data \<Rightarrow> bytes \<Rightarrow> bytes option" where
  "kumo_tcadb_get api d key = adbget api (ad_db d) key"

text \<open>An absent key answers \<open>NULL\<close>, which is the number zero here.\<close>

definition kumo_tcadb_get_header :: "'h adb_api \<Rightarrow> 'h tcadb_data \<Rightarrow> bytes \<Rightarrow> nat \<Rightarrow> int \<times> bytes" where
  "kumo_tcadb_get_header api d key vallen =
     (case adbget api (ad_db d) key of
        None \<Rightarrow> (0, [])
      | Some val \<Rightarrow> if length val < vallen then (int (length val), val) else (int vallen, take vallen val))"

definition kumo_tcadb_set :: "'h adb_api \<Rightarrow> 'h tcadb_data \<Rightarrow> bytes \<Rightarrow> bytes \<Rightarrow> bool \<times> 'h tcadb_data" where
  "kumo_tcadb_set api d key val = on_adb (\<lambda>h. adbput api h key val) d"

definition kumo_tcadb_del_proc :: "(bytes \<Rightarrow> bool) \<Rightarrow> bytes \<Rightarrow> proc_result" where
  "kumo_tcadb_del_proc proc vbuf = (if proc vbuf then Proc_remove else Proc_keep)"

definition kumo_tcadb_del :: "'h adb_api \<Rightarrow> 'h tcadb_data \<Rightarrow> bytes \<Rightarrow> (bytes \<Rightarrow> bool) \<Rightarrow> bool \<times> 'h tcadb_data" where
  "kumo_tcadb_del api d key proc =
     on_adb (\<lambda>h. let deleted = True; (ret, h') = adbputproc api h key None (kumo_tcadb_del_proc proc)
                 in if \<not> ret then (False, h') else (deleted, h')) d"

definition kumo_tcadb_update_proc :: "bytes \<Rightarrow> (bytes \<Rightarrow> bool) \<Rightarrow> bytes \<Rightarrow> proc_result" where
  "kumo_tcadb_update_proc val proc vbuf = (if proc vbuf then Proc_put val else Proc_keep)"

definition kumo_tcadb_update ::
    "'h adb_api \<Rightarrow> 'h tcadb_data \<Rightarrow> bytes \<Rightarrow> bytes \<Rightarrow> (bytes \<Rightarrow> bool) \<Rightarrow> bool \<times> 'h tcadb_data" where
  "kumo_tcadb_update api d key val proc =
     on_adb (\<lambda>h. adbputproc api h key (Some val) (kumo_tcadb_update_proc val proc)) d"

definition kumo_tcadb_rnum :: "'h adb_api \<Rightarrow> 'h tcadb_data \<Rightarrow> u64" where
  "kumo_tcadb_rnum api d = adbrnum api (ad_db d)"

definition tcadb_sync_rename :: "'h adb_api \<Rightarrow> string \<Rightarrow> string \<Rightarrow> bool" where
  "tcadb_sync_rename api src dst = (if \<not> adb_fsync api src then False else adb_rename api src dst)"

definition kumo_tcadb_backup :: "'h adb_api \<Rightarrow> 'h tcadb_data \<Rightarrow> string \<Rightarrow> bool \<times> 'h tcadb_data" where
  "kumo_tcadb_backup api d dstpath =
     on_adb (\<lambda>h. let tmppath = dstpath @ ''.tmp''; (ok, h') = adbcopy api h tmppath
                 in if \<not> ok then (False, h') else (tcadb_sync_rename api tmppath dstpath, h')) d"

definition kumo_tcadb_error :: "'h tcadb_data \<Rightarrow> string" where
  "kumo_tcadb_error d = ''unknown error''"

text \<open>The callback of the library: it stops the iteration when the user's function fails.\<close>

definition kumo_tcadb_iter_proc ::
    "(bytes \<Rightarrow> bytes \<Rightarrow> 'u \<times> 'd \<Rightarrow> int \<times> 'u \<times> 'd) \<Rightarrow> bytes \<Rightarrow> bytes \<Rightarrow> int \<times> 'u \<times> 'd \<Rightarrow> bool \<times> int \<times> 'u \<times> 'd" where
  "kumo_tcadb_iter_proc func kbuf vbuf itctx =
     (let (err, s) = itctx; (ret, s') = func kbuf vbuf s
      in if ret < 0 then (False, ret, s') else (True, err, s'))"

definition kumo_tcadb_for_each ::
    "'h adb_api \<Rightarrow> (bytes \<Rightarrow> bytes \<Rightarrow> 'u \<times> 'h tcadb_data \<Rightarrow> int \<times> 'u \<times> 'h tcadb_data) \<Rightarrow>
     'u \<times> 'h tcadb_data \<Rightarrow> int \<times> 'u \<times> 'h tcadb_data" where
  "kumo_tcadb_for_each api func s =
     (let (ok, err, s') = adbforeach api (ad_db (snd s)) (kumo_tcadb_iter_proc func) (0, s)
      in if \<not> ok then (-1, s') else (err, s'))"

definition kumo_tcadb_iterator_del :: "'h tcadb_data \<Rightarrow> bytes \<Rightarrow> (bytes \<Rightarrow> bool) \<Rightarrow> bool \<times> 'h tcadb_data" where
  "kumo_tcadb_iterator_del d key proc = (False, d)"

definition kumo_tcadb_iterator_del_force :: "'h tcadb_data \<Rightarrow> bytes \<Rightarrow> bool \<times> 'h tcadb_data" where
  "kumo_tcadb_iterator_del_force d key = (False, d)"

text \<open>
  The table of the model has the two steps of an iteration where the code's table has
  \<open>kumo_tcadb_for_each\<close>. For this module they are the library's iteration taken apart; they translate
  no code of their own, and \<open>tcadb_for_each_is_common_loop\<close> shows that the common loop over them does what
  \<open>kumo_tcadb_for_each\<close> does.
\<close>

definition tcadb_iter_init :: "'h adb_api \<Rightarrow> 'h tcadb_data \<Rightarrow> bool \<times> 'h tcadb_data" where
  "tcadb_iter_init api d = (adbforeach_ok api (ad_db d), d\<lparr>ad_todo := adbkeys api (ad_db d)\<rparr>)"

definition tcadb_iter_next :: "'h adb_api \<Rightarrow> 'h tcadb_data \<Rightarrow> (bytes \<times> bytes) option \<times> 'h tcadb_data" where
  "tcadb_iter_next api d =
     (case ad_todo d of [] \<Rightarrow> (None, d)
      | k # ks \<Rightarrow> (map_option (\<lambda>v. (k, v)) (adbget api (ad_db d) k), d\<lparr>ad_todo := ks\<rparr>))"

definition kumo_tcadb_op :: "'h adb_api \<Rightarrow> 'h tcadb_data kumo_storage_op" where
  "kumo_tcadb_op api =
     \<lparr>op_create = kumo_tcadb_create api,
      op_open = kumo_tcadb_open api,
      op_get = kumo_tcadb_get api,
      op_get_header = kumo_tcadb_get_header api,
      op_set = kumo_tcadb_set api,
      op_del = kumo_tcadb_del api,
      op_update = kumo_tcadb_update api,
      op_rnum = kumo_tcadb_rnum api,
      op_backup = kumo_tcadb_backup api,
      op_error = kumo_tcadb_error,
      op_iter_init = tcadb_iter_init api,
      op_iter_next = tcadb_iter_next api,
      op_iterator_del = kumo_tcadb_iterator_del,
      op_iterator_del_force = kumo_tcadb_iterator_del_force\<rparr>"

section \<open>What the manual promises\<close>

locale tcadb_lib =
  fixes api :: "'h adb_api"
    and recs :: "'h \<Rightarrow> bytes \<Rightarrow> bytes option"
  assumes tcadbget_doc: "adbget api h k = recs h k"
    and tcadbput_doc: "adbput api h k v = (r, h') \<Longrightarrow> recs h' = (if r then (recs h)(k \<mapsto> v) else recs h)"
    and tcadbputproc_doc: "adbputproc api h k vbuf proc = (r, h') \<Longrightarrow>
      (if r then putproc_effect (recs h) k vbuf proc = Some (recs h') else recs h' = recs h)"
    and tcadbkeys_doc: "distinct (adbkeys api h) \<and> set (adbkeys api h) = dom (recs h)"

locale tcadb_lib_io = tcadb_lib +
  assumes tcadbput_io: "fst (adbput api h k v)"
    and tcadbputproc_io: "putproc_effect (recs h) k vbuf proc \<noteq> None \<Longrightarrow> fst (adbputproc api h k vbuf proc)"
    and tcadbforeach_io: "adbforeach_ok api h"

lemmas tcadb_defs = kumo_tcadb_op_def kumo_tcadb_get_def kumo_tcadb_get_header_def kumo_tcadb_set_def on_adb_def
  kumo_tcadb_iterator_del_def kumo_tcadb_iterator_del_force_def tcadb_iter_init_def tcadb_iter_next_def

sublocale tcadb_lib \<subseteq> adb: kumo_storage "kumo_tcadb_op api" "\<lambda>d. recs (ad_db d)" ad_todo
proof
  fix d d' k v proc r n ks
  show "op_del (kumo_tcadb_op api) d k proc = (r, d') \<Longrightarrow>
      recs (ad_db d') = (if r then (recs (ad_db d))(k := None) else recs (ad_db d)) \<and>
      (r \<longrightarrow> (\<exists>old. recs (ad_db d) k = Some old \<and> proc old))"
    using tcadbputproc_doc [of "ad_db d" k None "kumo_tcadb_del_proc proc"]
    by (fastforce simp: kumo_tcadb_op_def kumo_tcadb_del_def on_adb_def kumo_tcadb_del_proc_def putproc_effect_def Let_def
        split: prod.splits if_splits option.splits)
  show "op_update (kumo_tcadb_op api) d k v proc = (r, d') \<Longrightarrow>
      recs (ad_db d') = (if r then (recs (ad_db d))(k \<mapsto> v) else recs (ad_db d)) \<and>
      (r \<longrightarrow> (\<forall>old. recs (ad_db d) k = Some old \<longrightarrow> proc old))"
    using tcadbputproc_doc [of "ad_db d" k "Some v" "kumo_tcadb_update_proc v proc"]
    by (fastforce simp: kumo_tcadb_op_def kumo_tcadb_update_def on_adb_def kumo_tcadb_update_proc_def putproc_effect_def
        split: prod.splits if_splits option.splits)
  show "op_set (kumo_tcadb_op api) d k v = (r, d') \<Longrightarrow>
      recs (ad_db d') = (if r then (recs (ad_db d))(k \<mapsto> v) else recs (ad_db d))"
    using tcadbput_doc [of "ad_db d" k v] by (auto simp: tcadb_defs split: prod.splits)
  show "case recs (ad_db d) k of None \<Rightarrow> fst (op_get_header (kumo_tcadb_op api) d k n) \<le> 0
      | Some v \<Rightarrow> op_get_header (kumo_tcadb_op api) d k n = (int (min n (length v)), take n v)"
    using tcadbget_doc [of "ad_db d" k] by (simp add: tcadb_defs split: option.splits)
qed (use tcadbget_doc tcadbkeys_doc in \<open>auto simp: tcadb_defs\<close>)

sublocale tcadb_lib_io \<subseteq> adb_io: kumo_storage_io "kumo_tcadb_op api" "\<lambda>d. recs (ad_db d)" ad_todo
proof
  fix d k v old proc
  show "recs (ad_db d) k = Some old \<Longrightarrow> proc old \<Longrightarrow> fst (op_del (kumo_tcadb_op api) d k proc)"
    using tcadbputproc_io [of "ad_db d" k None "kumo_tcadb_del_proc proc"]
    by (simp add: kumo_tcadb_op_def kumo_tcadb_del_def on_adb_def kumo_tcadb_del_proc_def putproc_effect_def
        case_prod_beta Let_def)
  show "(\<And>old. recs (ad_db d) k = Some old \<Longrightarrow> proc old) \<Longrightarrow> fst (op_update (kumo_tcadb_op api) d k v proc)"
    using tcadbputproc_io [of "ad_db d" k "Some v" "kumo_tcadb_update_proc v proc"]
    by (simp add: kumo_tcadb_op_def kumo_tcadb_update_def on_adb_def kumo_tcadb_update_proc_def putproc_effect_def
        case_prod_beta split: option.splits)
qed (simp_all add: tcadb_defs tcadbput_io tcadbforeach_io case_prod_beta)

context tcadb_lib
begin

lemma adb_storage: "kumo_storage (kumo_tcadb_op api) (\<lambda>d. recs (ad_db d)) ad_todo"
  by (rule adb.kumo_storage_axioms)

end

context tcadb_lib_io
begin

lemma adb_contract: "kumo_storage_kv_io (kumo_tcadb_op api) (\<lambda>d. recs (ad_db d))"
  by (rule adb_io.kumo_storage_kv_io_axioms)

end

section \<open>A database in memory\<close>

definition mem_adb_api :: "mem_db adb_api" where
  "mem_adb_api =
     \<lparr>adbnew = Some \<lparr>mem_recs = [], mem_todo = []\<rparr>, adbopen = (\<lambda>h path. (True, h)),
      adbget = (\<lambda>h k. map_of (mem_recs h) k),
      adbput = (\<lambda>h k v. (True, mem_put h k v)), adbputproc = mem_putproc,
      adbrnum = (\<lambda>h. of_nat (length (mem_recs h))), adbcopy = (\<lambda>h path. (True, h)),
      adbkeys = (\<lambda>h. remdups (map fst (mem_recs h))), adbforeach_ok = (\<lambda>h. True),
      adb_fsync = (\<lambda>s. True), adb_rename = (\<lambda>s t. True)\<rparr>"

interpretation mem_adb: tcadb_lib_io mem_adb_api mem_map
proof
  fix h h' k v r vbuf proc
  show "adbputproc mem_adb_api h k vbuf proc = (r, h') \<Longrightarrow>
      (if r then putproc_effect (mem_map h) k vbuf proc = Some (mem_map h') else mem_map h' = mem_map h)"
    using mem_putproc_effect [of h k vbuf proc r h'] by (auto simp: mem_adb_api_def)
  show "putproc_effect (mem_map h) k vbuf proc \<noteq> None \<Longrightarrow> fst (adbputproc mem_adb_api h k vbuf proc)"
    using mem_putproc_effect [of h k vbuf proc "fst (mem_putproc h k vbuf proc)" "snd (mem_putproc h k vbuf proc)"]
    by (auto simp: mem_adb_api_def split: if_splits)
qed (auto simp: mem_adb_api_def mem_map_def dom_map_of_conv_image_fst [symmetric] simp flip: mem_map_def)

end
