(* ===== verification/Tcbdb.thy ===== *)
theory Tcbdb
  imports Tchdb
begin

text \<open>
  The storage module on Tokyo Cabinet's B+ tree database (\<open>storage/tcbdb.cc\<close>). The library
  is a parameter with the locale \<open>tcbdb_lib\<close> of what its manual promises. The operations on
  single records keep the contract \<open>kumo_storage_kv_io\<close>; the iteration has a loop of its own,
  on a cursor that moves when its record is deleted.
\<close>

section \<open>The library\<close>

text \<open>A cursor has a type of its own; what it points at depends on the database.\<close>

record ('h, 'c) tcbdb_api =
  tcbdbnew :: "'h option"
  tcbdbsetmutex :: "'h \<Rightarrow> bool \<times> 'h"
  tcbdbsetcache :: "'h \<Rightarrow> int \<Rightarrow> int \<Rightarrow> bool \<times> 'h"
  tcbdbsetxmsiz :: "'h \<Rightarrow> int \<Rightarrow> bool \<times> 'h"
  tcbdbopen :: "'h \<Rightarrow> string \<Rightarrow> bool \<times> 'h"
  tcbdbget :: "'h \<Rightarrow> bytes \<Rightarrow> bytes option"
  tcbdbput :: "'h \<Rightarrow> bytes \<Rightarrow> bytes \<Rightarrow> bool \<times> 'h"
  tcbdbputproc :: "'h \<Rightarrow> bytes \<Rightarrow> bytes option \<Rightarrow> (bytes \<Rightarrow> proc_result) \<Rightarrow> bool \<times> 'h"
  tcbdbrnum :: "'h \<Rightarrow> u64"
  tcbdbcopy :: "'h \<Rightarrow> string \<Rightarrow> bool \<times> 'h"
  tcbdberrmsg :: "'h \<Rightarrow> string"
  tcbdbcurnew :: "'h \<Rightarrow> 'c"
  tcbdbcurfirst :: "'h \<Rightarrow> 'c \<Rightarrow> bool \<times> 'c"
  tcbdbcurnext :: "'h \<Rightarrow> 'c \<Rightarrow> bool \<times> 'c"
  tcbdbcurrec :: "'h \<Rightarrow> 'c \<Rightarrow> (bytes \<times> bytes) option"
  tcbdbcurout :: "'h \<Rightarrow> 'c \<Rightarrow> bool \<times> 'h \<times> 'c"
  bdb_atoix :: "string \<Rightarrow> int"
  bdb_fsync :: "string \<Rightarrow> bool"
  bdb_rename :: "string \<Rightarrow> string \<Rightarrow> bool"

section \<open>Opening\<close>

text \<open>
  \<open>lcnum\<close> and \<open>ncnum\<close> share one flag; both are \<open>int32_t\<close> and start as minus one.
\<close>

record tcbdb_params =
  cnum_set :: bool
  lcnum :: int
  ncnum :: int
  bdb_xmsiz :: "int option"

function tcbdb_parse_param :: "(string \<Rightarrow> int) \<Rightarrow> string \<Rightarrow> tcbdb_params \<Rightarrow> (string \<times> tcbdb_params) option" where
  "tcbdb_parse_param atoix str ps =
     (case split_last (CHR ''#'') str of
        None \<Rightarrow> Some (str, ps)
      | Some (str', param) \<Rightarrow>
          (case split_first (CHR ''='') param of
             None \<Rightarrow> None
           | Some (key, val) \<Rightarrow>
               tcbdb_parse_param atoix str'
                 (if key = ''lcnum'' then ps\<lparr>cnum_set := True, lcnum := signed_take_bit 31 (atoix val)\<rparr>
                  else if key = ''ncnum'' then ps\<lparr>cnum_set := True, ncnum := signed_take_bit 31 (atoix val)\<rparr>
                  else if key = ''xmsiz'' then ps\<lparr>bdb_xmsiz := Some (atoix val)\<rparr>
                  else ps)))"
  by pat_completeness auto
termination
  by (relation "measure (\<lambda>(atoix, str, ps). length str)") (auto dest: split_last_shorter)

declare tcbdb_parse_param.simps [simp del]

text \<open>
  The module's data: the database and the iterator of the running \<open>for_each\<close>, its cursor and
  its mark that the callback deleted the record under the cursor.
\<close>

record ('h, 'c) tcbdb_data =
  bd_db :: 'h
  bd_cur :: 'c
  bd_deleted :: bool

definition on_bdb :: "('h \<Rightarrow> bool \<times> 'h) \<Rightarrow> ('h, 'c) tcbdb_data \<Rightarrow> bool \<times> ('h, 'c) tcbdb_data" where
  "on_bdb f d = (let (r, h) = f (bd_db d) in (r, d\<lparr>bd_db := h\<rparr>))"

definition kumo_tcbdb_create :: "('h, 'c) tcbdb_api \<Rightarrow> ('h, 'c) tcbdb_data option" where
  "kumo_tcbdb_create api =
     (case tcbdbnew api of None \<Rightarrow> None
      | Some h \<Rightarrow> (let (ok, h') = tcbdbsetmutex api h
                  in if ok then Some \<lparr>bd_db = h', bd_cur = tcbdbcurnew api h', bd_deleted = False\<rparr> else None))"

definition kumo_tcbdb_open :: "('h, 'c) tcbdb_api \<Rightarrow> ('h, 'c) tcbdb_data \<Rightarrow> string \<Rightarrow> bool \<times> ('h, 'c) tcbdb_data" where
  "kumo_tcbdb_open api d path =
     on_bdb (\<lambda>h. case tcbdb_parse_param (bdb_atoix api) path \<lparr>cnum_set = False, lcnum = -1, ncnum = -1, bdb_xmsiz = None\<rparr> of
        None \<Rightarrow> (False, h)
      | Some (path', ps) \<Rightarrow>
          (let (ok1, h1) = (if cnum_set ps then tcbdbsetcache api h (lcnum ps) (ncnum ps) else (True, h))
           in if \<not> ok1 then (False, h1)
              else let (ok2, h2) = (case bdb_xmsiz ps of None \<Rightarrow> (True, h1) | Some n \<Rightarrow> tcbdbsetxmsiz api h1 n)
                   in if \<not> ok2 then (False, h2) else tcbdbopen api h2 path')) d"

section \<open>Records\<close>

definition kumo_tcbdb_get :: "('h, 'c) tcbdb_api \<Rightarrow> ('h, 'c) tcbdb_data \<Rightarrow> bytes \<Rightarrow> bytes option" where
  "kumo_tcbdb_get api d key = tcbdbget api (bd_db d) key"

text \<open>An absent key answers \<open>NULL\<close>, which is the number zero here.\<close>

definition kumo_tcbdb_get_header :: "('h, 'c) tcbdb_api \<Rightarrow> ('h, 'c) tcbdb_data \<Rightarrow> bytes \<Rightarrow> nat \<Rightarrow> int \<times> bytes" where
  "kumo_tcbdb_get_header api d key vallen =
     (case tcbdbget api (bd_db d) key of
        None \<Rightarrow> (0, [])
      | Some val \<Rightarrow> if length val < vallen then (int (length val), val) else (int vallen, take vallen val))"

definition kumo_tcbdb_set :: "('h, 'c) tcbdb_api \<Rightarrow> ('h, 'c) tcbdb_data \<Rightarrow> bytes \<Rightarrow> bytes \<Rightarrow> bool \<times> ('h, 'c) tcbdb_data" where
  "kumo_tcbdb_set api d key val = on_bdb (\<lambda>h. tcbdbput api h key val) d"

definition kumo_tcbdb_del_proc :: "(bytes \<Rightarrow> bool) \<Rightarrow> bytes \<Rightarrow> proc_result" where
  "kumo_tcbdb_del_proc proc vbuf = (if proc vbuf then Proc_remove else Proc_keep)"

definition kumo_tcbdb_del ::
    "('h, 'c) tcbdb_api \<Rightarrow> ('h, 'c) tcbdb_data \<Rightarrow> bytes \<Rightarrow> (bytes \<Rightarrow> bool) \<Rightarrow> bool \<times> ('h, 'c) tcbdb_data" where
  "kumo_tcbdb_del api d key proc =
     on_bdb (\<lambda>h. let deleted = True; (ret, h') = tcbdbputproc api h key None (kumo_tcbdb_del_proc proc)
                 in if \<not> ret then (False, h') else (deleted, h')) d"

definition kumo_tcbdb_update_proc :: "bytes \<Rightarrow> (bytes \<Rightarrow> bool) \<Rightarrow> bytes \<Rightarrow> proc_result" where
  "kumo_tcbdb_update_proc val proc vbuf = (if proc vbuf then Proc_put val else Proc_keep)"

definition kumo_tcbdb_update ::
    "('h, 'c) tcbdb_api \<Rightarrow> ('h, 'c) tcbdb_data \<Rightarrow> bytes \<Rightarrow> bytes \<Rightarrow> (bytes \<Rightarrow> bool) \<Rightarrow> bool \<times> ('h, 'c) tcbdb_data" where
  "kumo_tcbdb_update api d key val proc =
     on_bdb (\<lambda>h. tcbdbputproc api h key (Some val) (kumo_tcbdb_update_proc val proc)) d"

definition kumo_tcbdb_rnum :: "('h, 'c) tcbdb_api \<Rightarrow> ('h, 'c) tcbdb_data \<Rightarrow> u64" where
  "kumo_tcbdb_rnum api d = tcbdbrnum api (bd_db d)"

definition tcbdb_sync_rename :: "('h, 'c) tcbdb_api \<Rightarrow> string \<Rightarrow> string \<Rightarrow> bool" where
  "tcbdb_sync_rename api src dst = (if \<not> bdb_fsync api src then False else bdb_rename api src dst)"

definition kumo_tcbdb_backup :: "('h, 'c) tcbdb_api \<Rightarrow> ('h, 'c) tcbdb_data \<Rightarrow> string \<Rightarrow> bool \<times> ('h, 'c) tcbdb_data" where
  "kumo_tcbdb_backup api d dstpath =
     on_bdb (\<lambda>h. let tmppath = dstpath @ ''.tmp''; (ok, h') = tcbdbcopy api h tmppath
                 in if \<not> ok then (False, h') else (tcbdb_sync_rename api tmppath dstpath, h')) d"

definition kumo_tcbdb_error :: "('h, 'c) tcbdb_api \<Rightarrow> ('h, 'c) tcbdb_data \<Rightarrow> string" where
  "kumo_tcbdb_error api d = tcbdberrmsg api (bd_db d)"

section \<open>Iterating\<close>

definition bdb_next :: "('h, 'c) tcbdb_api \<Rightarrow> ('h, 'c) tcbdb_data \<Rightarrow> bool \<times> ('h, 'c) tcbdb_data" where
  "bdb_next api d = (let (r, c) = tcbdbcurnext api (bd_db d) (bd_cur d) in (r, d\<lparr>bd_cur := c\<rparr>))"

text \<open>\<open>fetch\<close> throws when the cursor is on no record.\<close>

definition bdb_fetch :: "('h, 'c) tcbdb_api \<Rightarrow> ('h, 'c) tcbdb_data \<Rightarrow> (bytes \<times> bytes) result" where
  "bdb_fetch api d = (case tcbdbcurrec api (bd_db d) (bd_cur d) of None \<Rightarrow> Inl Bad_alloc | Some kv \<Rightarrow> Inr kv)"

definition bdb_reset :: "('h, 'c) tcbdb_data \<Rightarrow> ('h, 'c) tcbdb_data" where
  "bdb_reset d = d\<lparr>bd_deleted := False\<rparr>"

definition kumo_tcbdb_iterator_del_force ::
    "('h, 'c) tcbdb_api \<Rightarrow> ('h, 'c) tcbdb_data \<Rightarrow> bytes \<Rightarrow> bool \<times> ('h, 'c) tcbdb_data" where
  "kumo_tcbdb_iterator_del_force api d key =
     (let (r, h, c) = tcbdbcurout api (bd_db d) (bd_cur d)
      in if r then (True, d\<lparr>bd_db := h, bd_cur := c, bd_deleted := True\<rparr>)
         else (False, d\<lparr>bd_db := h, bd_cur := c\<rparr>))"

definition kumo_tcbdb_iterator_del ::
    "('h, 'c) tcbdb_data \<Rightarrow> bytes \<Rightarrow> (bytes \<Rightarrow> bool) \<Rightarrow> bool \<times> ('h, 'c) tcbdb_data" where
  "kumo_tcbdb_iterator_del d key proc = (False, d)"

partial_function (option) tcbdb_loop ::
    "('h, 'c) tcbdb_api \<Rightarrow> (bytes \<Rightarrow> bytes \<Rightarrow> 'u \<times> ('h, 'c) tcbdb_data \<Rightarrow> int \<times> 'u \<times> ('h, 'c) tcbdb_data) \<Rightarrow>
     'u \<times> ('h, 'c) tcbdb_data \<Rightarrow> (int \<times> 'u \<times> ('h, 'c) tcbdb_data) option" where
  "tcbdb_loop api func s =
     (case bdb_fetch api (snd s) of
        Inl e \<Rightarrow> Some (-1, s)
      | Inr (key, val) \<Rightarrow>
          let (ret, u, d) = func key val s
          in if ret < 0 then Some (ret, u, d)
             else if bd_deleted d then tcbdb_loop api func (u, bdb_reset d)
             else let (more, d') = bdb_next api d
                  in if \<not> more then Some (0, u, d') else tcbdb_loop api func (u, bdb_reset d'))"

text \<open>
  The iterator's constructor leaves \<open>deleted\<close> uninitialised; \<open>junk\<close> is what the memory held.
\<close>

definition kumo_tcbdb_for_each ::
    "('h, 'c) tcbdb_api \<Rightarrow> bool \<Rightarrow> (bytes \<Rightarrow> bytes \<Rightarrow> 'u \<times> ('h, 'c) tcbdb_data \<Rightarrow> int \<times> 'u \<times> ('h, 'c) tcbdb_data) \<Rightarrow>
     'u \<times> ('h, 'c) tcbdb_data \<Rightarrow> (int \<times> 'u \<times> ('h, 'c) tcbdb_data) option" where
  "kumo_tcbdb_for_each api junk func s =
     (let (r, c) = tcbdbcurfirst api (bd_db (snd s)) (tcbdbcurnew api (bd_db (snd s)));
          d = (snd s)\<lparr>bd_cur := c, bd_deleted := junk\<rparr>
      in if \<not> r then Some (0, fst s, d) else tcbdb_loop api func (fst s, d))"

text \<open>
  The table. Its two iteration steps start the cursor and fetch under it; the loop of this
  module is \<open>tcbdb_loop\<close>, not the common one.
\<close>

definition kumo_tcbdb_op :: "('h, 'c) tcbdb_api \<Rightarrow> ('h, 'c) tcbdb_data kumo_storage_op" where
  "kumo_tcbdb_op api =
     \<lparr>op_create = kumo_tcbdb_create api,
      op_open = kumo_tcbdb_open api,
      op_get = kumo_tcbdb_get api,
      op_get_header = kumo_tcbdb_get_header api,
      op_set = kumo_tcbdb_set api,
      op_del = kumo_tcbdb_del api,
      op_update = kumo_tcbdb_update api,
      op_rnum = kumo_tcbdb_rnum api,
      op_backup = kumo_tcbdb_backup api,
      op_error = kumo_tcbdb_error api,
      op_iter_init = (\<lambda>d. let (r, c) = tcbdbcurfirst api (bd_db d) (tcbdbcurnew api (bd_db d)) in (r, d\<lparr>bd_cur := c\<rparr>)),
      op_iter_next = (\<lambda>d. (tcbdbcurrec api (bd_db d) (bd_cur d), snd (bdb_next api d))),
      op_iterator_del = kumo_tcbdb_iterator_del,
      op_iterator_del_force = kumo_tcbdb_iterator_del_force api\<rparr>"

section \<open>What the manual promises\<close>

text \<open>
  \<open>rest h c\<close> are the keys from the cursor on, in the order of the tree; it is empty when the
  cursor is on no record. Deleting under the cursor moves it to the next record if there is one.
\<close>

locale tcbdb_lib =
  fixes api :: "('h, 'c) tcbdb_api"
    and recs :: "'h \<Rightarrow> bytes \<Rightarrow> bytes option"
    and rest :: "'h \<Rightarrow> 'c \<Rightarrow> bytes list"
  assumes tcbdbget_doc: "tcbdbget api h k = recs h k"
    and tcbdbput_doc: "tcbdbput api h k v = (r, h') \<Longrightarrow> recs h' = (if r then (recs h)(k \<mapsto> v) else recs h)"
    and tcbdbputproc_doc: "tcbdbputproc api h k vbuf proc = (r, h') \<Longrightarrow>
      (if r then putproc_effect (recs h) k vbuf proc = Some (recs h') else recs h' = recs h)"
    and tcbdbcurfirst_doc: "tcbdbcurfirst api h c = (r, c') \<Longrightarrow>
      distinct (rest h c') \<and> set (rest h c') = dom (recs h) \<and> (r \<longleftrightarrow> dom (recs h) \<noteq> {})"
    and tcbdbcurnext_doc: "rest h c = k # ks \<Longrightarrow> \<exists>c'. tcbdbcurnext api h c = (ks \<noteq> [], c') \<and> rest h c' = ks"
    and tcbdbcurrec_doc: "rest h c = k # ks \<Longrightarrow> recs h k = Some v \<Longrightarrow> tcbdbcurrec api h c = Some (k, v)"
    and tcbdbcurrec_end_doc: "rest h c = [] \<Longrightarrow> tcbdbcurrec api h c = None"

locale tcbdb_lib_io = tcbdb_lib +
  assumes tcbdbput_io: "fst (tcbdbput api h k v)"
    and tcbdbputproc_io: "putproc_effect (recs h) k vbuf proc \<noteq> None \<Longrightarrow> fst (tcbdbputproc api h k vbuf proc)"
    and tcbdbcurout_io: "rest h c = k # ks \<Longrightarrow>
      \<exists>h' c'. tcbdbcurout api h c = (True, h', c') \<and> recs h' = (recs h)(k := None) \<and> rest h' c' = ks"

lemmas tcbdb_defs = kumo_tcbdb_op_def kumo_tcbdb_get_def kumo_tcbdb_get_header_def kumo_tcbdb_set_def on_bdb_def

sublocale tcbdb_lib \<subseteq> bdb: kumo_storage_kv "kumo_tcbdb_op api" "\<lambda>d. recs (bd_db d)"
proof
  fix d d' k v proc r n
  show "op_del (kumo_tcbdb_op api) d k proc = (r, d') \<Longrightarrow>
      recs (bd_db d') = (if r then (recs (bd_db d))(k := None) else recs (bd_db d)) \<and>
      (r \<longrightarrow> (\<exists>old. recs (bd_db d) k = Some old \<and> proc old))"
    using tcbdbputproc_doc [of "bd_db d" k None "kumo_tcbdb_del_proc proc"]
    by (fastforce simp: kumo_tcbdb_op_def kumo_tcbdb_del_def on_bdb_def kumo_tcbdb_del_proc_def putproc_effect_def Let_def
        split: prod.splits if_splits option.splits)
  show "op_update (kumo_tcbdb_op api) d k v proc = (r, d') \<Longrightarrow>
      recs (bd_db d') = (if r then (recs (bd_db d))(k \<mapsto> v) else recs (bd_db d)) \<and>
      (r \<longrightarrow> (\<forall>old. recs (bd_db d) k = Some old \<longrightarrow> proc old))"
    using tcbdbputproc_doc [of "bd_db d" k "Some v" "kumo_tcbdb_update_proc v proc"]
    by (fastforce simp: kumo_tcbdb_op_def kumo_tcbdb_update_def on_bdb_def kumo_tcbdb_update_proc_def putproc_effect_def
        split: prod.splits if_splits option.splits)
  show "op_set (kumo_tcbdb_op api) d k v = (r, d') \<Longrightarrow>
      recs (bd_db d') = (if r then (recs (bd_db d))(k \<mapsto> v) else recs (bd_db d))"
    using tcbdbput_doc [of "bd_db d" k v] by (auto simp: tcbdb_defs split: prod.splits)
  show "case recs (bd_db d) k of None \<Rightarrow> fst (op_get_header (kumo_tcbdb_op api) d k n) \<le> 0
      | Some v \<Rightarrow> op_get_header (kumo_tcbdb_op api) d k n = (int (min n (length v)), take n v)"
    using tcbdbget_doc [of "bd_db d" k] by (simp add: tcbdb_defs split: option.splits)
qed (use tcbdbget_doc in \<open>simp add: tcbdb_defs\<close>)

sublocale tcbdb_lib_io \<subseteq> bdb_io: kumo_storage_kv_io "kumo_tcbdb_op api" "\<lambda>d. recs (bd_db d)"
proof
  fix d k v old proc
  show "recs (bd_db d) k = Some old \<Longrightarrow> proc old \<Longrightarrow> fst (op_del (kumo_tcbdb_op api) d k proc)"
    using tcbdbputproc_io [of "bd_db d" k None "kumo_tcbdb_del_proc proc"]
    by (simp add: kumo_tcbdb_op_def kumo_tcbdb_del_def on_bdb_def kumo_tcbdb_del_proc_def putproc_effect_def
        case_prod_beta Let_def)
  show "(\<And>old. recs (bd_db d) k = Some old \<Longrightarrow> proc old) \<Longrightarrow> fst (op_update (kumo_tcbdb_op api) d k v proc)"
    using tcbdbputproc_io [of "bd_db d" k "Some v" "kumo_tcbdb_update_proc v proc"]
    by (simp add: kumo_tcbdb_op_def kumo_tcbdb_update_def on_bdb_def kumo_tcbdb_update_proc_def putproc_effect_def
        case_prod_beta split: option.splits)
qed (simp add: tcbdb_defs tcbdbput_io case_prod_beta)

section \<open>The iteration\<close>

text \<open>A callback that records the keys it sees and deletes the records a test chooses.\<close>

definition bdb_visit ::
    "('h, 'c) tcbdb_api \<Rightarrow> (bytes \<Rightarrow> bytes \<Rightarrow> bool) \<Rightarrow> bytes \<Rightarrow> bytes \<Rightarrow>
     bytes list \<times> ('h, 'c) tcbdb_data \<Rightarrow> int \<times> bytes list \<times> ('h, 'c) tcbdb_data" where
  "bdb_visit api P key val s =
     (0, fst s @ [key], if P key val then snd (kumo_tcbdb_iterator_del_force api (snd s) key) else snd s)"

definition drop_chosen :: "(bytes \<Rightarrow> bytes \<Rightarrow> bool) \<Rightarrow> bytes set \<Rightarrow> (bytes \<Rightarrow> bytes option) \<Rightarrow> bytes \<Rightarrow> bytes option" where
  "drop_chosen P K m k = (case m k of None \<Rightarrow> None | Some v \<Rightarrow> if k \<in> K \<and> P k v then None else Some v)"

context tcbdb_lib_io
begin

lemma loop_visits:
  "rest (bd_db d) (bd_cur d) = ks \<Longrightarrow> distinct ks \<Longrightarrow> set ks \<subseteq> dom (recs (bd_db d)) \<Longrightarrow> \<not> bd_deleted d \<Longrightarrow>
   \<exists>d'. tcbdb_loop api (bdb_visit api P) (u, d) =
       Some (if ks = [] \<or> P (last ks) (the (recs (bd_db d) (last ks))) then -1 else 0, u @ ks, d') \<and>
     recs (bd_db d') = drop_chosen P (set ks) (recs (bd_db d))"
proof (induction ks arbitrary: u d)
  case Nil
  then show ?case
    by (subst tcbdb_loop.simps)
      (simp add: bdb_fetch_def tcbdbcurrec_end_doc drop_chosen_def fun_eq_iff split: option.splits)
next
  case (Cons k ks)
  obtain v where v: "recs (bd_db d) k = Some v" using Cons.prems(3) by auto
  have fetch: "bdb_fetch api d = Inr (k, v)"
    using tcbdbcurrec_doc [OF Cons.prems(1) v] by (simp add: bdb_fetch_def)
  show ?case
  proof (cases "P k v")
    case True
    obtain h c where hc: "tcbdbcurout api (bd_db d) (bd_cur d) = (True, h, c)"
        "recs h = (recs (bd_db d))(k := None)" "rest h c = ks"
      using tcbdbcurout_io [OF Cons.prems(1)] by blast
    let ?d = "bdb_reset (d\<lparr>bd_db := h, bd_cur := c, bd_deleted := True\<rparr>)"
    have eq: "tcbdb_loop api (bdb_visit api P) (u, d) = tcbdb_loop api (bdb_visit api P) (u @ [k], ?d)"
      by (subst tcbdb_loop.simps) (simp add: fetch bdb_visit_def True kumo_tcbdb_iterator_del_force_def hc(1))
    have kn: "k \<notin> set ks" using Cons.prems(2) by simp
    have sub: "set ks \<subseteq> dom (recs h)" using Cons.prems(3) kn unfolding hc(2) by auto
    obtain d' where d': "tcbdb_loop api (bdb_visit api P) (u @ [k], ?d) =
        Some (if ks = [] \<or> P (last ks) (the (recs h (last ks))) then -1 else 0, (u @ [k]) @ ks, d')"
      "recs (bd_db d') = drop_chosen P (set ks) (recs h)"
      using Cons.IH [of ?d "u @ [k]"] Cons.prems(2) sub hc(3) by (auto simp: bdb_reset_def)
    have "recs (bd_db d') = drop_chosen P (set (k # ks)) (recs (bd_db d))"
      using True v unfolding d'(2) hc(2) by (auto simp: drop_chosen_def fun_eq_iff split: option.splits)
    moreover have "ks \<noteq> [] \<Longrightarrow> recs h (last ks) = recs (bd_db d) (last ks)"
      using kn hc(2) last_in_set [of ks] by auto
    ultimately show ?thesis
      using d'(1) True v unfolding eq by (cases "ks = []") auto
  next
    case False
    obtain c where c: "tcbdbcurnext api (bd_db d) (bd_cur d) = (ks \<noteq> [], c)" "rest (bd_db d) c = ks"
      using tcbdbcurnext_doc [OF Cons.prems(1)] by blast
    let ?d = "bdb_reset (d\<lparr>bd_cur := c\<rparr>)"
    have eq: "tcbdb_loop api (bdb_visit api P) (u, d) =
        (if ks = [] then Some (0, u @ [k], d\<lparr>bd_cur := c\<rparr>) else tcbdb_loop api (bdb_visit api P) (u @ [k], ?d))"
      using Cons.prems(4) by (subst tcbdb_loop.simps) (simp add: fetch bdb_visit_def False bdb_next_def c(1))
    have same: "drop_chosen P (set (k # ks)) (recs (bd_db d)) = drop_chosen P (set ks) (recs (bd_db d))"
      using False v by (auto simp: drop_chosen_def fun_eq_iff split: option.splits)
    show ?thesis
    proof (cases "ks = []")
      case True
      then show ?thesis
        using False v unfolding eq same by (auto simp: drop_chosen_def fun_eq_iff split: option.splits)
    next
      case ne: False
      then show ?thesis
        using Cons.IH [of ?d "u @ [k]"] Cons.prems(2,3) c(2) unfolding eq same by (auto simp: bdb_reset_def)
    qed
  qed
qed

text \<open>The mark of deletion is not initialised: when it happens to be true, a record the callback keeps is fetched again.\<close>

lemma loop_first:
  assumes "rest (bd_db d) (bd_cur d) = k # ks" and "recs (bd_db d) k = Some v"
  shows "tcbdb_loop api (bdb_visit api P) (u, d) =
    tcbdb_loop api (bdb_visit api P) (if bd_deleted d \<and> \<not> P k v then u @ [k] else u, bdb_reset d)"
proof -
  have fetch: "bdb_fetch api d = Inr (k, v)" "bdb_fetch api (bdb_reset d) = Inr (k, v)"
    using tcbdbcurrec_doc [OF assms] by (simp_all add: bdb_fetch_def bdb_reset_def)
  show ?thesis
  proof (cases "P k v")
    case True
    obtain h c where hc: "tcbdbcurout api (bd_db d) (bd_cur d) = (True, h, c)"
      using tcbdbcurout_io [OF assms(1)] by blast
    have "tcbdb_loop api (bdb_visit api P) (u, e) =
        tcbdb_loop api (bdb_visit api P) (u @ [k], bdb_reset (d\<lparr>bd_db := h, bd_cur := c, bd_deleted := True\<rparr>))"
      if "e = d \<or> e = bdb_reset d" for e
      using that fetch
      by (subst tcbdb_loop.simps) (auto simp: bdb_visit_def True kumo_tcbdb_iterator_del_force_def hc bdb_reset_def)
    then show ?thesis using True by simp
  next
    case False
    show ?thesis
    proof (cases "bd_deleted d")
      case True
      then show ?thesis
        using False by (subst tcbdb_loop.simps) (simp add: fetch bdb_visit_def)
    next
      case nd: False
      then have "bdb_reset d = d" by (simp add: bdb_reset_def)
      with nd show ?thesis by simp
    qed
  qed
qed

lemma for_each_visits_tree:
  "\<exists>ks d'. distinct ks \<and> set ks = dom (recs (bd_db d)) \<and>
     kumo_tcbdb_for_each api junk (bdb_visit api P) ([], d) =
       Some (if ks \<noteq> [] \<and> P (last ks) (the (recs (bd_db d) (last ks))) then -1 else 0,
             if junk \<and> ks \<noteq> [] \<and> \<not> P (hd ks) (the (recs (bd_db d) (hd ks))) then hd ks # ks else ks, d') \<and>
     recs (bd_db d') = drop_chosen P (dom (recs (bd_db d))) (recs (bd_db d))"
proof -
  obtain r c where rc: "tcbdbcurfirst api (bd_db d) (tcbdbcurnew api (bd_db d)) = (r, c)" by fastforce
  note doc = tcbdbcurfirst_doc [OF rc]
  let ?d = "d\<lparr>bd_cur := c, bd_deleted := junk\<rparr>"
  show ?thesis
  proof (cases r)
    case True
    then have "set (rest (bd_db d) c) \<noteq> {}" using doc by simp
    then obtain k ks where ks: "rest (bd_db d) c = k # ks" by (cases "rest (bd_db d) c") auto
    have "k \<in> dom (recs (bd_db d))" using doc ks by auto
    then obtain v where v: "recs (bd_db d) k = Some v" by blast
    let ?u = "if junk \<and> \<not> P k v then [k] else []"
    obtain d' where d': "tcbdb_loop api (bdb_visit api P) (?u, bdb_reset ?d) =
        Some (if P (last (k # ks)) (the (recs (bd_db d) (last (k # ks)))) then -1 else 0, ?u @ k # ks, d')"
      "recs (bd_db d') = drop_chosen P (set (k # ks)) (recs (bd_db d))"
      using loop_visits [of "bdb_reset ?d" "k # ks" P ?u] doc ks by (auto simp: bdb_reset_def)
    have "kumo_tcbdb_for_each api junk (bdb_visit api P) ([], d) =
        Some (if P (last (k # ks)) (the (recs (bd_db d) (last (k # ks)))) then -1 else 0, ?u @ k # ks, d')"
      using loop_first [of ?d k ks v P "[]"] ks v d'(1) True by (auto simp: kumo_tcbdb_for_each_def rc)
    with d'(2) doc ks v show ?thesis by (intro exI [of _ "k # ks"] exI [of _ d']) auto
  next
    case False
    then have "recs (bd_db d) = (\<lambda>k. None)" using doc by auto
    then show ?thesis
      using False by (auto simp: kumo_tcbdb_for_each_def rc drop_chosen_def)
  qed
qed

lemma bdb_contract: "kumo_storage_kv_io (kumo_tcbdb_op api) (\<lambda>d. recs (bd_db d))"
  by (rule bdb_io.kumo_storage_kv_io_axioms)

end

section \<open>A tree in memory\<close>

text \<open>The cursor is the list of the keys from it on.\<close>

definition mem_bdb_api :: "(mem_db, bytes list) tcbdb_api" where
  "mem_bdb_api =
     \<lparr>tcbdbnew = Some \<lparr>mem_recs = [], mem_todo = []\<rparr>, tcbdbsetmutex = (\<lambda>h. (True, h)),
      tcbdbsetcache = (\<lambda>h l n. (True, h)), tcbdbsetxmsiz = (\<lambda>h n. (True, h)), tcbdbopen = (\<lambda>h path. (True, h)),
      tcbdbget = (\<lambda>h k. map_of (mem_recs h) k),
      tcbdbput = (\<lambda>h k v. (True, mem_put h k v)), tcbdbputproc = mem_putproc,
      tcbdbrnum = (\<lambda>h. of_nat (length (mem_recs h))), tcbdbcopy = (\<lambda>h path. (True, h)), tcbdberrmsg = (\<lambda>h. []),
      tcbdbcurnew = (\<lambda>h. []),
      tcbdbcurfirst = (\<lambda>h c. (mem_recs h \<noteq> [], remdups (map fst (mem_recs h)))),
      tcbdbcurnext = (\<lambda>h c. (tl c \<noteq> [], tl c)),
      tcbdbcurrec = (\<lambda>h c. case c of [] \<Rightarrow> None | k # ks \<Rightarrow> map_option (\<lambda>v. (k, v)) (map_of (mem_recs h) k)),
      tcbdbcurout = (\<lambda>h c. case c of [] \<Rightarrow> (False, h, c) | k # ks \<Rightarrow> (True, mem_out h k, ks)),
      bdb_atoix = (\<lambda>s. 0), bdb_fsync = (\<lambda>s. True), bdb_rename = (\<lambda>s t. True)\<rparr>"

interpretation mem_bdb: tcbdb_lib_io mem_bdb_api mem_map "\<lambda>h c. c"
proof
  fix h h' k v r vbuf proc c c'
  show "tcbdbputproc mem_bdb_api h k vbuf proc = (r, h') \<Longrightarrow>
      (if r then putproc_effect (mem_map h) k vbuf proc = Some (mem_map h') else mem_map h' = mem_map h)"
    using mem_putproc_effect [of h k vbuf proc r h'] by (auto simp: mem_bdb_api_def)
  show "putproc_effect (mem_map h) k vbuf proc \<noteq> None \<Longrightarrow> fst (tcbdbputproc mem_bdb_api h k vbuf proc)"
    using mem_putproc_effect [of h k vbuf proc "fst (mem_putproc h k vbuf proc)" "snd (mem_putproc h k vbuf proc)"]
    by (auto simp: mem_bdb_api_def split: if_splits)
  show "tcbdbcurfirst mem_bdb_api h c = (r, c') \<Longrightarrow>
      distinct c' \<and> set c' = dom (mem_map h) \<and> (r \<longleftrightarrow> dom (mem_map h) \<noteq> {})"
    by (force simp: mem_bdb_api_def mem_map_def dom_map_of_conv_image_fst)
qed (auto simp: mem_bdb_api_def simp flip: mem_map_def)

end
