(* ===== verification/StorageModules.thy ===== *)
theory StorageModules
  imports Tcadb Tcbdb StorageTheorems ServerReplaceTheorems
begin

text \<open>
  The properties of the storage modules on the B+ tree database and on the abstract database:
  what they keep of the contract of the storage layer, and what their iterations do.
\<close>

section \<open>The contract\<close>

text \<open>Running a reading callback over a list of records, until it fails.\<close>

primrec visit_until :: "(bytes \<Rightarrow> bytes \<Rightarrow> 'u \<Rightarrow> int \<times> 'u) \<Rightarrow> (bytes \<times> bytes) list \<Rightarrow> 'u \<Rightarrow> int \<times> 'u" where
  "visit_until g [] u = (0, u)"
| "visit_until g (kv # kvs) u =
     (let (ret, u') = g (fst kv) (snd kv) u in if ret < 0 then (ret, u') else visit_until g kvs u')"

definition lift_callback :: "(bytes \<Rightarrow> bytes \<Rightarrow> 'u \<Rightarrow> int \<times> 'u) \<Rightarrow> bytes \<Rightarrow> bytes \<Rightarrow> 'u \<times> 'd \<Rightarrow> int \<times> 'u \<times> 'd" where
  "lift_callback g k v s = (fst (g k v (fst s)), snd (g k v (fst s)), snd s)"

lemma foreach_visits:
  "foreach_records (kumo_tcadb_iter_proc (lift_callback g)) kvs (0, u, d) =
     (fst (visit_until g kvs u), snd (visit_until g kvs u), d)"
  by (induction kvs arbitrary: u) (auto simp: kumo_tcadb_iter_proc_def lift_callback_def case_prod_beta Let_def)

lemma tcadb_for_each_visits:
  assumes "tcadb_lib_io api recs"
  shows "kumo_tcadb_for_each api (lift_callback g) (u, d) =
    (let (ret, u') = visit_until g (map (\<lambda>k. (k, the (recs (ad_db d) k))) (adbkeys api (ad_db d))) u in (ret, u', d))"
proof -
  have lib: "tcadb_lib api recs" using assms by (rule tcadb_lib_io.axioms(1))
  show ?thesis
    using tcadb_lib_io.tcadbforeach_io [OF assms]
    by (simp add: kumo_tcadb_for_each_def adbforeach_def foreach_visits tcadb_lib.tcadbget_doc [OF lib] case_prod_beta Let_def)
qed

text \<open>
  C29: what the two other storage modules keep of the contract, from what the manual of the
  library promises. The operations on single records of the B+ tree module and of the
  abstract-database module (reading, writing, conditional deleting and updating) implement the
  contract of the storage layer. The iteration of the abstract-database module,
  \<open>kumo_tcadb_for_each\<close>, runs a callback that reads on every record exactly once until it fails and
  returns its failure, leaving the database as it was. (The iteration of the B+ tree module is the
  subject of the next theorem; deleting during an iteration is not supported by the
  abstract-database module: both operations refuse.)
\<close>

theorem other_modules_implement_storage:
  assumes "tcbdb_lib_io bapi brecs brest" and "tcadb_lib_io aapi arecs"
  shows "kumo_storage_kv_io (kumo_tcbdb_op bapi) (\<lambda>d. brecs (bd_db d)) \<and>
    kumo_storage_kv_io (kumo_tcadb_op aapi) (\<lambda>d. arecs (ad_db d)) \<and>
    (\<forall>d. \<exists>ks. distinct ks \<and> set ks = dom (arecs (ad_db d)) \<and>
       (\<forall>g u. kumo_tcadb_for_each aapi (lift_callback g) (u, d) =
          (let (ret, u') = visit_until g (map (\<lambda>k. (k, the (arecs (ad_db d) k))) ks) u in (ret, u', d)))) \<and>
    (\<forall>d k proc. op_iterator_del (kumo_tcadb_op aapi) d k proc = (False, d) \<and> op_iterator_del_force (kumo_tcadb_op aapi) d k = (False, d))"
proof (intro conjI)
  have lib: "tcadb_lib aapi arecs" using assms(2) by (rule tcadb_lib_io.axioms(1))
  show "kumo_storage_kv_io (kumo_tcbdb_op bapi) (\<lambda>d. brecs (bd_db d))" by (rule tcbdb_lib_io.bdb_contract [OF assms(1)])
  show "kumo_storage_kv_io (kumo_tcadb_op aapi) (\<lambda>d. arecs (ad_db d))" by (rule tcadb_lib_io.adb_contract [OF assms(2)])
  show "\<forall>d. \<exists>ks. distinct ks \<and> set ks = dom (arecs (ad_db d)) \<and>
       (\<forall>g u. kumo_tcadb_for_each aapi (lift_callback g) (u, d) =
          (let (ret, u') = visit_until g (map (\<lambda>k. (k, the (arecs (ad_db d) k))) ks) u in (ret, u', d)))"
    by (intro allI exI [of _ "adbkeys aapi (ad_db d)" for d] conjI)
      (simp_all add: tcadb_lib.tcadbkeys_doc [OF lib] tcadb_for_each_visits [OF assms(2)])
  show "\<forall>d k proc. op_iterator_del (kumo_tcadb_op aapi) d k proc = (False, d) \<and> op_iterator_del_force (kumo_tcadb_op aapi) d k = (False, d)"
    by (simp add: tcadb_defs)
qed

theorem other_modules_implement_storage_witness:
  "kumo_storage_kv_io (kumo_tcbdb_op mem_bdb_api) (\<lambda>d. mem_map (bd_db d)) \<and>
   kumo_storage_kv_io (kumo_tcadb_op mem_adb_api) (\<lambda>d. mem_map (ad_db d)) \<and>
   fst (snd (kumo_tcadb_for_each mem_adb_api (lift_callback (\<lambda>k v u. (0, u @ [(k, v)])))
      ([], \<lparr>ad_db = \<lparr>mem_recs = [([1], [10])], mem_todo = []\<rparr>, ad_todo = []\<rparr>))) = [([1], [10])]"
proof -
  note w = other_modules_implement_storage [OF mem_bdb.tcbdb_lib_io_axioms mem_adb.tcadb_lib_io_axioms]
  let ?d = "\<lparr>ad_db = \<lparr>mem_recs = [([1], [10])], mem_todo = []\<rparr>, ad_todo = []\<rparr> :: mem_db tcadb_data"
  let ?g = "\<lambda>k v u. (0 :: int, u @ [(k, v)])"
  have dom: "dom (mem_map (ad_db ?d)) = {[1]}" by (auto simp: mem_map_def split: if_splits)
  have "\<exists>ks. distinct ks \<and> set ks = dom (mem_map (ad_db ?d)) \<and>
      (\<forall>(g :: bytes \<Rightarrow> bytes \<Rightarrow> (bytes \<times> bytes) list \<Rightarrow> int \<times> (bytes \<times> bytes) list) u. kumo_tcadb_for_each mem_adb_api (lift_callback g) (u, ?d) =
        (let (ret, u') = visit_until g (map (\<lambda>k. (k, the (mem_map (ad_db ?d) k))) ks) u in (ret, u', ?d)))"
    by (rule w [THEN conjunct2, THEN conjunct2, THEN conjunct1, rule_format])
  then obtain ks where ks: "distinct ks" "set ks = {[1]}" and fe: "kumo_tcadb_for_each mem_adb_api (lift_callback ?g) ([], ?d) =
      (let (ret, u') = visit_until ?g (map (\<lambda>k. (k, the (mem_map (ad_db ?d) k))) ks) [] in (ret, u', ?d))"
    unfolding dom by (elim exE conjE) (rule that, assumption, assumption, simp only:)
  have "ks = [[1]]" using ks distinct_card [OF ks(1)] by (cases ks; cases "tl ks") auto
  then have "fst (snd (kumo_tcadb_for_each mem_adb_api (lift_callback ?g) ([], ?d))) = [([1], [10])]"
    unfolding fe by (simp add: mem_map_def)
  with w [THEN conjunct1] w [THEN conjunct2, THEN conjunct1] show ?thesis by (intro conjI)
qed

section \<open>Iterating over the tree\<close>

text \<open>
  C32: \<open>kumo_tcbdb_for_each\<close> with a callback that deletes some records, for either value of the
  iterator's mark \<open>deleted\<close>, which the code does not initialise: the iteration ends, visits every
  record of the tree, deletes exactly the chosen ones and keeps the others. Every record is visited once, except
  that the first one, when it is not deleted and the mark happens to be set, is visited twice. It reports
  success unless the last record of the tree is deleted: then the cursor is on no record, the
  next fetch throws, and the whole iteration reports failure.
\<close>

theorem tcbdb_for_each_exact:
  assumes "tcbdb_lib_io api recs rest"
  shows "\<exists>ks d'. distinct ks \<and> set ks = dom (recs (bd_db d)) \<and>
     kumo_tcbdb_for_each api junk (bdb_visit api P) ([], d) =
       Some (if ks \<noteq> [] \<and> P (last ks) (the (recs (bd_db d) (last ks))) then -1 else 0,
             if junk \<and> ks \<noteq> [] \<and> \<not> P (hd ks) (the (recs (bd_db d) (hd ks))) then hd ks # ks else ks, d') \<and>
     recs (bd_db d') = drop_chosen P (dom (recs (bd_db d))) (recs (bd_db d))"
  by (rule tcbdb_lib_io.for_each_visits_tree [OF assms])

definition sample_tree :: "(mem_db, bytes list) tcbdb_data" where
  "sample_tree = \<lparr>bd_db = \<lparr>mem_recs = [([1], [10]), ([2], [20])], mem_todo = []\<rparr>, bd_cur = [], bd_deleted = False\<rparr>"

theorem tcbdb_for_each_exact_witness:
  "(\<exists>ks d'. set ks = {[1], [2]} \<and>
     kumo_tcbdb_for_each mem_bdb_api True (bdb_visit mem_bdb_api (\<lambda>k v. True)) ([], sample_tree) = Some (-1, ks, d') \<and>
     mem_map (bd_db d') = (\<lambda>k. None)) \<and>
   (\<exists>ks d'. set ks = {[1], [2]} \<and>
     kumo_tcbdb_for_each mem_bdb_api True (bdb_visit mem_bdb_api (\<lambda>k v. False)) ([], sample_tree) = Some (0, hd ks # ks, d'))"
proof -
  have dom: "dom (mem_map (bd_db sample_tree)) = {[1], [2]}"
    by (auto simp: sample_tree_def mem_map_def split: if_splits)
  have "drop_chosen (\<lambda>k v. True) (dom (mem_map (bd_db sample_tree))) (mem_map (bd_db sample_tree)) = (\<lambda>k. None)"
    by (auto simp: drop_chosen_def fun_eq_iff split: option.splits)
  then show ?thesis
    using tcbdb_for_each_exact [OF mem_bdb.tcbdb_lib_io_axioms, of sample_tree True "\<lambda>k v. True"]
      tcbdb_for_each_exact [OF mem_bdb.tcbdb_lib_io_axioms, of sample_tree True "\<lambda>k v. False"] dom by fastforce
qed

section \<open>Iterating over the abstract database\<close>

lemma tcadb_loop_records:
  assumes lib: "tcadb_lib api recs" and "ad_todo d = ks" and "set ks \<subseteq> dom (recs (ad_db d))"
  shows "\<exists>ret u' d'. for_each_loop (kumo_tcadb_op api) (lift_callback g) (u, d) = Some (ret, u', d') \<and> ad_db d' = ad_db d \<and>
    foreach_records (kumo_tcadb_iter_proc (lift_callback g)) (map (\<lambda>k. (k, the (adbget api (ad_db d) k))) ks) (0, u, d0) = (ret, u', d0)"
  using assms(2-)
proof (induction ks arbitrary: u d)
  case Nil
  then show ?case by (subst for_each_loop.simps) (simp add: kumo_tcadb_op_def tcadb_iter_next_def)
next
  case (Cons k ks)
  obtain v where v: "recs (ad_db d) k = Some v" using Cons.prems(2) by auto
  have get: "adbget api (ad_db d) k = Some v" using tcadb_lib.tcadbget_doc [OF lib] v by simp
  let ?d = "d\<lparr>ad_todo := ks\<rparr>"
  have nxt: "op_iter_next (kumo_tcadb_op api) d = (Some (k, v), ?d)"
    using Cons.prems(1) get by (simp add: kumo_tcadb_op_def tcadb_iter_next_def)
  obtain ret u1 where g: "g k v u = (ret, u1)" by fastforce
  show ?case
  proof (cases "ret < 0")
    case True
    then show ?thesis
      by (subst for_each_loop.simps) (simp add: nxt lift_callback_def g get kumo_tcadb_iter_proc_def)
  next
    case False
    then have eq: "for_each_loop (kumo_tcadb_op api) (lift_callback g) (u, d) = for_each_loop (kumo_tcadb_op api) (lift_callback g) (u1, ?d)"
      by (subst for_each_loop.simps) (simp add: nxt lift_callback_def g)
    have eq2: "foreach_records (kumo_tcadb_iter_proc (lift_callback g)) ((k, v) # kvs) (0, u, d0) =
        foreach_records (kumo_tcadb_iter_proc (lift_callback g)) kvs (0, u1, d0)" for kvs
      using False by (simp add: kumo_tcadb_iter_proc_def [of "lift_callback g" k v] lift_callback_def [of g k v] g)
    show ?thesis
      using Cons.IH [of ?d u1] Cons.prems(2) unfolding eq by (simp add: eq2 get del: foreach_records.simps)
  qed
qed

text \<open>
  Kumo_tcadb_for_each, written with the library's own iteration and a callback that stops
  it, runs the user's function on the same records, in the same order and with the same result
  as the common iteration of the storage layer on the module's table.
\<close>

theorem tcadb_for_each_is_common_loop:
  assumes "tcadb_lib_io api recs"
  shows "\<exists>ret u' d'. kumo_for_each (kumo_tcadb_op api) (lift_callback g) (u, d) = Some (ret, u', d') \<and>
    ad_db d' = ad_db d \<and> kumo_tcadb_for_each api (lift_callback g) (u, d) = (ret, u', d)"
proof -
  have lib: "tcadb_lib api recs" using assms by (rule tcadb_lib_io.axioms(1))
  have ok: "adbforeach_ok api (ad_db d)" using tcadb_lib_io.tcadbforeach_io [OF assms] .
  have keys: "set (adbkeys api (ad_db d)) \<subseteq> dom (recs (ad_db d))"
    using tcadb_lib.tcadbkeys_doc [OF lib] by simp
  let ?d = "d\<lparr>ad_todo := adbkeys api (ad_db d)\<rparr>"
  show ?thesis
    using tcadb_loop_records [OF lib, of ?d "adbkeys api (ad_db d)" g u d] keys ok
    by (auto simp: kumo_for_each_def kumo_tcadb_for_each_def adbforeach_def kumo_tcadb_op_def tcadb_iter_init_def)
qed

theorem tcadb_for_each_is_common_loop_witness:
  "\<exists>ret u' d'. kumo_for_each (kumo_tcadb_op mem_adb_api) (lift_callback (\<lambda>k v u. (0, u @ [k])))
      ([], \<lparr>ad_db = \<lparr>mem_recs = [([1], [10])], mem_todo = []\<rparr>, ad_todo = []\<rparr>) = Some (ret, u', d') \<and>
    ad_db d' = \<lparr>mem_recs = [([1], [10])], mem_todo = []\<rparr> \<and>
    kumo_tcadb_for_each mem_adb_api (lift_callback (\<lambda>k v u. (0, u @ [k])))
      ([], \<lparr>ad_db = \<lparr>mem_recs = [([1], [10])], mem_todo = []\<rparr>, ad_todo = []\<rparr>) =
      (ret, u', \<lparr>ad_db = \<lparr>mem_recs = [([1], [10])], mem_todo = []\<rparr>, ad_todo = []\<rparr>)"
  using tcadb_for_each_is_common_loop [OF mem_adb.tcadb_lib_io_axioms, of "\<lambda>k v u. (0, u @ [k])" "[]"
      "\<lparr>ad_db = \<lparr>mem_recs = [([1], [10])], mem_todo = []\<rparr>, ad_todo = []\<rparr>"] by simp

lemma tcadb_for_each_delete:
  assumes "tcadb_lib api recs"
  shows "\<exists>err u db'. storage_for_each p (kumo_tcadb_op api) (for_each_replace_delete p (kumo_tcadb_op api) hs self) ct (None, db) =
      Some (err, u, db') \<and> recs (ad_db (m_data db')) = recs (ad_db (m_data db))"
proof -
  let ?op = "kumo_tcadb_op api" and ?m = "recs (ad_db (m_data db))"
  let ?func = "for_each_collect p ?op (before_sec ct (m_garbage_max_time db)) (for_each_replace_delete p ?op hs self)"
  have same: "snd (snd (?func k v (u, d))) = d" for k v u d
    by (simp add: for_each_collect_def for_each_replace_delete_def kumo_tcadb_op_def kumo_tcadb_iterator_del_def
        kumo_tcadb_iterator_del_force_def case_prod_beta Let_def split: sum.splits bool.splits)
  have step: "ad_todo d' = ad_todo d \<and> (\<forall>k' \<in> set (ad_todo d). recs (ad_db d') k' = recs (ad_db d) k') \<and>
      (if ret < 0 then recs (ad_db d') = ?m else recs (ad_db d') = ?m)"
    if "recs (ad_db d) = ?m" "?func k v (u, d) = (ret, u', d')" for k v u d ret u' d'
    using same [of k v u d] that by simp
  have "\<exists>ret u' d'. kumo_for_each ?op ?func (None, m_data db) = Some (ret, u', d') \<and>
    (if ret < 0 then recs (ad_db d') = ?m else \<exists>ks. distinct ks \<and> set ks = dom ?m \<and> recs (ad_db d') = ?m)"
    by (rule kumo_storage.for_each_rule [OF tcadb_lib.adb_storage [OF assms],
          where I = "\<lambda>vis u m. m = ?m" and E = "\<lambda>u m. m = ?m"]) (use step in blast)+
  then show ?thesis
    by (auto simp: storage_for_each_def split: if_splits)
qed

text \<open>
  Mod_replace on the abstract database: the deletion phase of a replacement iterates with
  iterator_del_force and iterator_del, which this module does not support; it ends but removes
  no record, however many of them the server is no longer responsible for.
\<close>

theorem tcadb_replace_delete_removes_nothing:
  assumes "tcadb_lib api recs"
  shows "\<exists>err s' acts. replace_delete p (kumo_tcadb_op api) mgr s = Some (err, s', acts) \<and>
    recs (ad_db (m_data (s_db s'))) = recs (ad_db (m_data (s_db s)))"
proof (cases "hs_empty (s_whs s)")
  case True
  then show ?thesis by (simp add: replace_delete_def Let_def case_prod_beta)
next
  case False
  obtain err u db' where
    "storage_for_each p (kumo_tcadb_op api) (for_each_replace_delete p (kumo_tcadb_op api) (s_whs s) (s_addr s))
      (clocktime_now (s_clock s)) (None, s_db s) = Some (err, u, db')"
    "recs (ad_db (m_data db')) = recs (ad_db (m_data (s_db s)))"
    using tcadb_for_each_delete [OF assms] by blast
  with False show ?thesis
    by (simp add: replace_delete_def Let_def case_prod_beta split: option.splits)
qed

definition sample_adb_server :: "mem_db tcadb_data server" where
  "sample_adb_server =
     \<lparr>s_addr = sample_addr 4, s_clock = \<lparr>m_clock = \<lparr>clock_m = 7\<rparr>, m_time = 100\<rparr>,
      s_rhs = small_ring [1, 2, 3] (ClockTime 1), s_whs = small_ring [1, 2, 3] (ClockTime 1),
      s_db = \<lparr>m_data = \<lparr>ad_db = \<lparr>mem_recs = [(replicate 8 0, sample_val 5 7)], mem_todo = []\<rparr>, ad_todo = []\<rparr>,
        m_garbage = buffer_queue_new, m_garbage_min_time = 60, m_garbage_max_time = 3600, m_garbage_mem_limit = 2048\<rparr>,
      s_manager1 = sample_addr 9, s_manager2 = address_nil, s_stream_addr = sample_addr 1,
      s_backup_basename = [], s_replicate_set_retry_num = 20, s_replicate_delete_retry_num = 20,
      s_replace_set_limit_mem = 0, s_start_time = 90, s_num_get = 0, s_num_set = 0, s_num_delete = 0,
      s_ctxs = Map.empty, s_next_ctx = 0,
      s_replace = \<lparr>m_push_waiting = 0, m_clocktime = ClockTime 0, m_mgr = address_nil\<rparr>,
      s_copying = False, s_deleting = False, s_accum_set = []\<rparr>"

theorem tcadb_replace_delete_removes_nothing_witness:
  "\<exists>err s' acts. replace_delete sample_platform (kumo_tcadb_op mem_adb_api) (sample_addr 9) sample_adb_server = Some (err, s', acts) \<and>
    mem_map (ad_db (m_data (s_db s'))) = [replicate 8 0 \<mapsto> sample_val 5 7]"
  using tcadb_replace_delete_removes_nothing [OF mem_adb.tcadb_lib_axioms, of sample_platform "sample_addr 9" sample_adb_server]
  by (simp add: sample_adb_server_def mem_map_def fun_upd_def)

end
