(* ===== verification/Output.thy ===== *)
theory Output
  imports Prelude
begin

text \<open>
  The write side of the event loop (\<open>mpsrc/wavy_output.cc\<close>, \<open>mp/wavy/output.h\<close>) over
  the one-shot notification of \<open>mpsrc/wavy_edge_epoll.h\<close>: a queue of buffers and requests
  for every file descriptor, a first attempt to write in the caller's thread, and a worker
  that goes on when the kernel reports the descriptor writable.

  A buffer is the run of bytes it points to. A request is its finalizer's argument, \<open>None\<close>
  when it has no finalizer. What the kernel answers to \<open>writev\<close> and to \<open>epoll_ctl\<close> is an
  argument of the operations.
\<close>

section \<open>The state of a file descriptor\<close>

datatype writev_errno = EAGAIN | EINTR | E_other

datatype writev_result = Wrote nat | Write_failed writev_errno

record os_answer =
  wr_answer :: writev_result
  add_fault :: bool
  mod_fault :: bool

text \<open>
  A descriptor is not registered with a worker's epoll instance, or registered and armed,
  or registered with its one shot fired.
\<close>

datatype epoll_reg = Unregistered | Armed | Fired

text \<open>
  The context of a descriptor (\<open>m_bufvec\<close>, \<open>m_reqvec\<close>), its registration with each worker,
  the workers that have it in their backlog, and what the outside has seen: the bytes the
  kernel took, the finalizers called, and whether the descriptor was shut down.
\<close>

record 'u out_fd =
  m_bufvec :: "bytes list"
  m_reqvec :: "'u option list"
  fd_reg :: "nat \<Rightarrow> epoll_reg"
  fd_backlog :: "nat \<Rightarrow> bool"
  fd_sent :: bytes
  fd_called :: "'u list"
  fd_shut :: bool

definition out_fd_new :: "'u out_fd" where
  "out_fd_new = \<lparr>m_bufvec = [], m_reqvec = [], fd_reg = (\<lambda>w. Unregistered), fd_backlog = (\<lambda>w. False),
     fd_sent = [], fd_called = [], fd_shut = False\<rparr>"

section \<open>The edge\<close>

text \<open>
  \<open>EPOLL_CTL_ADD\<close> fails for a registered descriptor and \<open>EPOLL_CTL_MOD\<close> for one that is not
  registered; both may fail for other reasons (\<open>fault\<close>). Both arm the shot.
\<close>

definition add_notify :: "bool \<Rightarrow> nat \<Rightarrow> 'u out_fd \<Rightarrow> int \<times> 'u out_fd" where
  "add_notify fault w s =
     (if fault \<or> fd_reg s w \<noteq> Unregistered then (-1, s) else (0, s\<lparr>fd_reg := (fd_reg s)(w := Armed)\<rparr>))"

definition shot_reactivate :: "bool \<Rightarrow> nat \<Rightarrow> 'u out_fd \<Rightarrow> int \<times> 'u out_fd" where
  "shot_reactivate fault w s =
     (if fault \<or> fd_reg s w = Unregistered then (-1, s) else (0, s\<lparr>fd_reg := (fd_reg s)(w := Armed)\<rparr>))"

definition shot_remove :: "nat \<Rightarrow> 'u out_fd \<Rightarrow> 'u out_fd" where
  "shot_remove w s = s\<lparr>fd_reg := (fd_reg s)(w := Unregistered)\<rparr>"

section \<open>The queue\<close>

definition MP_WAVY_WRITEV_LIMIT :: nat where "MP_WAVY_WRITEV_LIMIT = 1024"

text \<open>The finalizers of a run of requests, in order.\<close>

definition finalizers :: "'u option list \<Rightarrow> 'u list" where
  "finalizers rs = concat (map (\<lambda>r. case r of None \<Rightarrow> [] | Some u \<Rightarrow> [u]) rs)"

definition ctx_consumed :: "nat \<Rightarrow> 'u out_fd \<Rightarrow> bool \<times> 'u out_fd" where
  "ctx_consumed num s =
     (if num = 0 then (m_bufvec s = [], s)
      else let s' = s\<lparr>fd_called := fd_called s @ finalizers (take num (m_reqvec s)),
                      m_bufvec := drop num (m_bufvec s), m_reqvec := drop num (m_reqvec s)\<rparr>
           in (m_bufvec s' = [], s'))"

definition ctx_skip_zero :: "'u out_fd \<Rightarrow> bool \<times> 'u out_fd" where
  "ctx_skip_zero s = ctx_consumed (length (takeWhile (\<lambda>b. length b = 0) (m_bufvec s))) s"

definition ctx_clear :: "'u out_fd \<Rightarrow> 'u out_fd" where
  "ctx_clear s = snd (ctx_consumed (length (m_bufvec s)) s)"

definition ctx_push :: "bytes list \<Rightarrow> 'u option list \<Rightarrow> 'u out_fd \<Rightarrow> bool \<times> 'u out_fd" where
  "ctx_push bufvec reqvec s =
     (m_bufvec s = [], s\<lparr>m_bufvec := m_bufvec s @ bufvec, m_reqvec := m_reqvec s @ reqvec\<rparr>)"

text \<open>
  The loop after a successful \<open>writev\<close>: the index of the first buffer that was not taken
  whole, and the vector in which that buffer starts after the bytes taken.
\<close>

fun advance_vec :: "nat \<Rightarrow> bytes list \<Rightarrow> nat \<times> bytes list" where
  "advance_vec wl [] = (0, [])"
| "advance_vec wl (b # bs) =
     (if length b \<le> wl then let (i, bs') = advance_vec (wl - length b) bs in (Suc i, b # bs')
      else (0, drop wl b # bs))"

text \<open>The kernel takes the first \<open>n\<close> bytes of the first \<open>MP_WAVY_WRITEV_LIMIT\<close> buffers.\<close>

definition sys_writev :: "nat \<Rightarrow> 'u out_fd \<Rightarrow> 'u out_fd" where
  "sys_writev n s = s\<lparr>fd_sent := fd_sent s @ take n (concat (take MP_WAVY_WRITEV_LIMIT (m_bufvec s)))\<rparr>"

definition ctx_advance :: "nat \<Rightarrow> 'u out_fd \<Rightarrow> bool \<times> 'u out_fd" where
  "ctx_advance wl s =
     (let (i, vec) = advance_vec wl (m_bufvec s) in ctx_consumed i (s\<lparr>m_bufvec := vec\<rparr>))"

section \<open>The workers\<close>

definition sys_shutdown :: "'u out_fd \<Rightarrow> 'u out_fd" where
  "sys_shutdown s = s\<lparr>fd_shut := True\<rparr>"

definition initial_remove :: "'u out_fd \<Rightarrow> 'u out_fd" where
  "initial_remove s = sys_shutdown (ctx_clear s)"

definition failed_remove :: "nat \<Rightarrow> 'u out_fd \<Rightarrow> 'u out_fd" where
  "failed_remove w s = sys_shutdown (shot_remove w (ctx_clear s))"

definition success_remove :: "nat \<Rightarrow> 'u out_fd \<Rightarrow> 'u out_fd" where
  "success_remove w s = shot_remove w s"

definition out_watch :: "os_answer \<Rightarrow> nat \<Rightarrow> 'u out_fd \<Rightarrow> 'u out_fd" where
  "out_watch ans w s = (let (r, s') = add_notify (add_fault ans) w s in if r < 0 then failed_remove w s' else s')"

definition try_write :: "os_answer \<Rightarrow> nat \<Rightarrow> 'u out_fd \<Rightarrow> 'u out_fd" where
  "try_write ans w s0 =
     (let (empty, s) = ctx_skip_zero s0
      in if empty then success_remove w s
         else case wr_answer ans of
             Write_failed e \<Rightarrow> if e = EAGAIN \<or> e = EINTR then s else failed_remove w s
           | Wrote wl \<Rightarrow>
               if wl = 0 then failed_remove w s
               else let (empty, s') = ctx_advance wl (sys_writev wl s)
                    in if empty then success_remove w s'
                       else snd (shot_reactivate (mod_fault ans) w s'))"

definition try_write_initial :: "os_answer \<Rightarrow> 'u out_fd \<Rightarrow> bool \<times> 'u out_fd" where
  "try_write_initial ans s0 =
     (let (empty, s) = ctx_skip_zero s0
      in if empty then (True, s)
         else case wr_answer ans of
             Write_failed e \<Rightarrow> if e = EAGAIN \<or> e = EINTR then (False, s) else (True, initial_remove s)
           | Wrote wl \<Rightarrow>
               if wl = 0 then (True, initial_remove s) else ctx_advance wl (sys_writev wl s))"

definition out_writev :: "os_answer \<Rightarrow> nat \<Rightarrow> bytes list \<Rightarrow> 'u option list \<Rightarrow> 'u out_fd \<Rightarrow> 'u out_fd" where
  "out_writev ans w bufvec reqvec s0 =
     (let (watch_needed, s) = ctx_push bufvec reqvec s0
      in if watch_needed
         then let (finished, s') = try_write_initial ans s in if \<not> finished then out_watch ans w s' else s'
         else s)"

section \<open>The output object\<close>

record 'u wavy_output =
  m_fdctx :: "nat \<Rightarrow> 'u out_fd"
  m_workers :: nat

definition wavy_output_new :: "'u wavy_output" where
  "wavy_output_new = \<lparr>m_fdctx = (\<lambda>fd. out_fd_new), m_workers = 0\<rparr>"

definition output_add_thread :: "nat \<Rightarrow> 'u wavy_output \<Rightarrow> 'u wavy_output" where
  "output_add_thread num o1 = o1\<lparr>m_workers := m_workers o1 + num\<rparr>"

definition worker_for :: "nat \<Rightarrow> 'u wavy_output \<Rightarrow> nat" where
  "worker_for fd o1 = fd mod m_workers o1"

definition on_fd :: "nat \<Rightarrow> ('u out_fd \<Rightarrow> 'u out_fd) \<Rightarrow> 'u wavy_output \<Rightarrow> 'u wavy_output" where
  "on_fd fd f o1 = o1\<lparr>m_fdctx := (m_fdctx o1)(fd := f (m_fdctx o1 fd))\<rparr>"

text \<open>
  With no worker the remainder by zero is undefined, as is the request vector of an empty
  list of buffers in the two functions that put the request at its end.
\<close>

definition impl_writev ::
    "os_answer \<Rightarrow> nat \<Rightarrow> bytes list \<Rightarrow> 'u option list \<Rightarrow> 'u wavy_output \<Rightarrow> 'u wavy_output result" where
  "impl_writev ans fd bufvec reqvec o1 =
     (if m_workers o1 = 0 \<and> m_bufvec (m_fdctx o1 fd) = [] then Inl Undefined_behaviour
      else Inr (on_fd fd (out_writev ans (worker_for fd o1) bufvec reqvec) o1))"

definition output_write :: "os_answer \<Rightarrow> nat \<Rightarrow> bytes \<Rightarrow> 'u option \<Rightarrow> 'u wavy_output \<Rightarrow> 'u wavy_output result" where
  "output_write ans fd buf req o1 = impl_writev ans fd [buf] [req] o1"

definition output_writev :: "os_answer \<Rightarrow> nat \<Rightarrow> bytes list \<Rightarrow> 'u wavy_output \<Rightarrow> 'u wavy_output result" where
  "output_writev ans fd vec o1 = impl_writev ans fd vec (replicate (length vec) None) o1"

definition output_writev_req ::
    "os_answer \<Rightarrow> nat \<Rightarrow> bytes list \<Rightarrow> 'u option \<Rightarrow> 'u wavy_output \<Rightarrow> 'u wavy_output result" where
  "output_writev_req ans fd vec req o1 =
     (if vec = [] then Inl Undefined_behaviour
      else impl_writev ans fd vec (replicate (length vec - 1) None @ [req]) o1)"

definition output_free :: "'u wavy_output \<Rightarrow> 'u wavy_output" where
  "output_free o1 = o1\<lparr>m_fdctx := (\<lambda>fd. ctx_clear (m_fdctx o1 fd)), m_workers := 0\<rparr>"

section \<open>The steps of the threads\<close>

text \<open>\<open>epoll_wait\<close> of a worker returns an armed descriptor: the shot fires and it is in the backlog.\<close>

definition edge_wait :: "nat \<Rightarrow> 'u out_fd \<Rightarrow> 'u out_fd" where
  "edge_wait w s = s\<lparr>fd_reg := (fd_reg s)(w := Fired), fd_backlog := (fd_backlog s)(w := True)\<rparr>"

text \<open>The body of the loop of \<open>worker::operator()\<close> for one descriptor of the backlog.\<close>

definition worker_step :: "os_answer \<Rightarrow> nat \<Rightarrow> 'u out_fd \<Rightarrow> 'u out_fd" where
  "worker_step ans w s = try_write ans w (s\<lparr>fd_backlog := (fd_backlog s)(w := False)\<rparr>)"

text \<open>\<open>writev\<close> takes at most the bytes it was given.\<close>

definition writev_law :: "os_answer \<Rightarrow> 'u out_fd \<Rightarrow> bool" where
  "writev_law ans s \<longleftrightarrow> (case wr_answer ans of Write_failed e \<Rightarrow> True
     | Wrote n \<Rightarrow> n \<le> length (concat (take MP_WAVY_WRITEV_LIMIT (m_bufvec (snd (ctx_skip_zero s))))))"

text \<open>
  The mutex of a context makes each operation on a descriptor one step; callers and workers
  interleave between them. A step is labelled with the descriptor and what was handed in.
\<close>

type_synonym 'u out_label = "nat \<times> bytes list \<times> 'u option list"

inductive output_step :: "'u wavy_output \<Rightarrow> 'u out_label \<Rightarrow> 'u wavy_output \<Rightarrow> bool" where
  Out_add_thread: "output_step o1 (fd, [], []) (output_add_thread n o1)"
| Out_writev: "length bufs = length reqs \<Longrightarrow> writev_law ans (snd (ctx_push bufs reqs (m_fdctx o1 fd))) \<Longrightarrow>
    impl_writev ans fd bufs reqs o1 = Inr o2 \<Longrightarrow> output_step o1 (fd, bufs, reqs) o2"
| Out_wait: "fd_reg (m_fdctx o1 fd) w = Armed \<Longrightarrow> output_step o1 (fd, [], []) (on_fd fd (edge_wait w) o1)"
| Out_try_write: "fd_backlog (m_fdctx o1 fd) w \<Longrightarrow> writev_law ans (m_fdctx o1 fd) \<Longrightarrow>
    output_step o1 (fd, [], []) (on_fd fd (worker_step ans w) o1)"

inductive output_run :: "'u wavy_output \<Rightarrow> 'u out_label list \<Rightarrow> 'u wavy_output \<Rightarrow> bool" where
  Run_refl: "output_run o1 [] o1"
| Run_step: "output_run o1 tr o2 \<Longrightarrow> output_step o2 l o3 \<Longrightarrow> output_run o1 (tr @ [l]) o3"

inductive_cases output_stepE: "output_step o1 l o2"

text \<open>What a trace handed in for a descriptor.\<close>

definition given_bufs :: "nat \<Rightarrow> 'u out_label list \<Rightarrow> bytes list" where
  "given_bufs fd tr = concat (map (\<lambda>(f, b, r). if f = fd then b else []) tr)"

definition given_reqs :: "nat \<Rightarrow> 'u out_label list \<Rightarrow> 'u option list" where
  "given_reqs fd tr = concat (map (\<lambda>(f, b, r). if f = fd then r else []) tr)"

text \<open>
  A writable descriptor: the kernel reports it whenever it is armed, and each \<open>writev\<close> takes
  some number of bytes, given by a function of the buffers.
\<close>

primrec serve :: "(bytes list \<Rightarrow> nat) list \<Rightarrow> nat \<Rightarrow> 'u out_fd \<Rightarrow> 'u out_fd" where
  "serve [] w s = s"
| "serve (tk # tks) w s =
     (if fd_reg s w = Armed
      then serve tks w (worker_step
             \<lparr>wr_answer = Wrote (tk (take MP_WAVY_WRITEV_LIMIT (m_bufvec (snd (ctx_skip_zero s))))),
              add_fault = False, mod_fault = False\<rparr> w (edge_wait w s))
      else s)"

text \<open>A queue with bytes to send that no worker has in its backlog and no notification will report.\<close>

definition stalled :: "'u out_fd \<Rightarrow> bool" where
  "stalled s \<longleftrightarrow> m_bufvec s \<noteq> [] \<and> (\<forall>w. fd_reg s w \<noteq> Armed \<and> \<not> fd_backlog s w)"

end
