(* ===== verification/OutputTheorems.thy ===== *)
theory OutputTheorems
  imports Output
begin

text \<open>
  What the write side promises: bytes leave a descriptor in the order they were handed in,
  each finalizer runs once and not before its bytes were taken, a queue that is not empty is
  registered with exactly one worker, and a writable descriptor drains. An event that finds
  the socket full again leaves the queue without a notification.
\<close>

section \<open>The effect of the loops on the queue\<close>

fun drop_first :: "nat \<Rightarrow> bytes list \<Rightarrow> bytes list" where
  "drop_first j [] = []"
| "drop_first j (b # bs) = drop j b # bs"

lemma finalizers_append [simp]: "finalizers (a @ b) = finalizers a @ finalizers b"
  by (simp add: finalizers_def)

lemma finalizers_Nil [simp]: "finalizers [] = []"
  by (simp add: finalizers_def)

lemma advance_vec_length: "advance_vec wl v = (i, v') \<Longrightarrow> i \<le> length v \<and> length v' = length v"
  by (induction wl v arbitrary: i v' rule: advance_vec.induct) (auto split: if_splits prod.splits)

lemma advance_vec_concat:
  "advance_vec wl v = (i, v') \<Longrightarrow> concat (drop i v') = drop wl (concat v)"
  by (induction wl v arbitrary: i v' rule: advance_vec.induct) (auto split: if_splits prod.splits)

lemma advance_vec_shape:
  "advance_vec wl v = (i, v') \<Longrightarrow> \<exists>j. drop i v' = drop_first j (drop i v)"
  by (induction wl v arbitrary: i v' rule: advance_vec.induct) (auto split: if_splits prod.splits)

lemma drop_first_drop: "0 < i \<Longrightarrow> drop i (drop_first j v) = drop i v"
  by (cases v; cases i) auto

lemma drop_first_twice: "drop_first j (drop_first j' v) = drop_first (j' + j) v"
  by (cases v) (auto simp: drop_drop add.commute)

lemma length_drop_first [simp]: "length (drop_first j v) = length v"
  by (cases v) auto

lemma drop_first_0 [simp]: "drop_first 0 v = v"
  by (cases v) auto

section \<open>The invariant of a descriptor\<close>

text \<open>
  The queue after \<open>bs\<close> with the requests \<open>rs\<close> were handed in: the first \<open>k\<close> are finished
  and \<open>j\<close> bytes of the next are gone.
\<close>

definition queue_inv :: "bytes list \<Rightarrow> 'u option list \<Rightarrow> 'u out_fd \<Rightarrow> bool" where
  "queue_inv bs rs s \<longleftrightarrow> length bs = length rs \<and>
     (\<exists>k j. k \<le> length rs \<and> m_reqvec s = drop k rs \<and> fd_called s = finalizers (take k rs) \<and>
        m_bufvec s = drop_first j (drop k bs)) \<and>
     (\<not> fd_shut s \<longrightarrow> fd_sent s @ concat (m_bufvec s) = concat bs)"

text \<open>At most one worker watches a descriptor, and one does exactly when its queue is not empty.\<close>

definition watch_inv :: "'u out_fd \<Rightarrow> bool" where
  "watch_inv s \<longleftrightarrow> (\<forall>w. fd_backlog s w \<longrightarrow> fd_reg s w = Fired) \<and>
     (\<forall>w w'. fd_reg s w \<noteq> Unregistered \<longrightarrow> fd_reg s w' \<noteq> Unregistered \<longrightarrow> w = w') \<and>
     (m_bufvec s = [] \<longleftrightarrow> (\<forall>w. fd_reg s w = Unregistered))"

lemma ctx_consumed_simps [simp]:
  "fst (ctx_consumed n s) \<longleftrightarrow> length (m_bufvec s) \<le> n"
  "m_bufvec (snd (ctx_consumed n s)) = drop n (m_bufvec s)"
  "m_reqvec (snd (ctx_consumed n s)) = drop n (m_reqvec s)"
  "fd_called (snd (ctx_consumed n s)) = fd_called s @ finalizers (take n (m_reqvec s))"
  "fd_reg (snd (ctx_consumed n s)) = fd_reg s" "fd_backlog (snd (ctx_consumed n s)) = fd_backlog s"
  "fd_sent (snd (ctx_consumed n s)) = fd_sent s" "fd_shut (snd (ctx_consumed n s)) = fd_shut s"
  by (auto simp: ctx_consumed_def Let_def)

lemma queue_inv_consumed:
  assumes "queue_inv bs rs s" and "n \<le> length (m_bufvec s)"
    and "fd_shut s \<or> concat (take n (m_bufvec s)) = []"
  shows "queue_inv bs rs (snd (ctx_consumed n s))"
proof -
  from assms(1) obtain k j where k: "length bs = length rs" "k \<le> length rs" "m_reqvec s = drop k rs"
      "fd_called s = finalizers (take k rs)" "m_bufvec s = drop_first j (drop k bs)"
    and sent: "\<not> fd_shut s \<longrightarrow> fd_sent s @ concat (m_bufvec s) = concat bs"
    unfolding queue_inv_def by blast
  have n: "k + n \<le> length rs" using assms(2) k(1,2,5) by simp
  have f: "fd_called s @ finalizers (take n (m_reqvec s)) = finalizers (take (k + n) rs)"
    by (simp add: k(3,4) take_add)
  have "\<exists>j'. drop n (m_bufvec s) = drop_first j' (drop (k + n) bs)"
  proof (cases "n = 0")
    case False
    then show ?thesis using k(5) by (intro exI [of _ 0]) (simp add: drop_first_drop add.commute)
  qed (use k(5) in auto)
  moreover have "concat (drop n (m_bufvec s)) = concat (m_bufvec s)" if "\<not> fd_shut s"
    using assms(3) that append_take_drop_id [of n "m_bufvec s"] by (metis append_Nil concat_append)
  ultimately show ?thesis
    using k(1,3) n f sent by (auto simp: queue_inv_def add.commute)
qed

lemma concat_take_empty: "concat (take (length (takeWhile (\<lambda>b. length b = 0) v)) v) = []"
  by (induction v) (simp_all del: concat_eq_Nil_conv)

lemma skip_zero_inv:
  assumes "ctx_skip_zero s = (e, s')" and "queue_inv bs rs s"
  shows "queue_inv bs rs s'"
proof -
  let ?n = "length (takeWhile (\<lambda>b. length b = 0) (m_bufvec s))"
  have s': "s' = snd (ctx_consumed ?n s)"
    using assms(1) by (auto simp: ctx_skip_zero_def)
  show ?thesis
    unfolding s'
    by (rule queue_inv_consumed [OF assms(2) length_takeWhile_le]) (rule disjI2, rule concat_take_empty)
qed

lemma skip_zero_simps:
  assumes "ctx_skip_zero s = (e, s')"
  shows "e \<longleftrightarrow> m_bufvec s' = []" "m_bufvec s' = dropWhile (\<lambda>b. b = []) (m_bufvec s)"
    "fd_reg s' = fd_reg s" "fd_backlog s' = fd_backlog s" "fd_shut s' = fd_shut s" "fd_sent s' = fd_sent s"
proof -
  let ?n = "length (takeWhile (\<lambda>b. length b = 0) (m_bufvec s))"
  have s': "s' = snd (ctx_consumed ?n s)" and e: "e = fst (ctx_consumed ?n s)"
    using assms by (auto simp: ctx_skip_zero_def)
  show "e \<longleftrightarrow> m_bufvec s' = []" by (simp add: s' e)
  show "m_bufvec s' = dropWhile (\<lambda>b. b = []) (m_bufvec s)"
    "fd_reg s' = fd_reg s" "fd_backlog s' = fd_backlog s" "fd_shut s' = fd_shut s" "fd_sent s' = fd_sent s"
    by (simp_all add: s' e flip: dropWhile_eq_drop)
qed

lemma skip_zero_bytes:
  "ctx_skip_zero s = (e, s') \<Longrightarrow> m_bufvec s' \<noteq> [] \<Longrightarrow> 0 < length (concat (take MP_WAVY_WRITEV_LIMIT (m_bufvec s')))"
proof -
  assume "ctx_skip_zero s = (e, s')" and ne: "m_bufvec s' \<noteq> []"
  then have "m_bufvec s' = dropWhile (\<lambda>b. b = []) (m_bufvec s)" by (simp add: skip_zero_simps(2))
  then have "hd (m_bufvec s') \<noteq> []"
    using ne hd_dropWhile [of "\<lambda>b. b = []" "m_bufvec s"] by (metis dropWhile_eq_Nil_conv)
  then show ?thesis using ne by (cases "m_bufvec s'") (auto simp: MP_WAVY_WRITEV_LIMIT_def)
qed

lemma advance_simps:
  assumes "ctx_advance wl s = (e, s')"
  shows "e \<longleftrightarrow> m_bufvec s' = []" "concat (m_bufvec s') = drop wl (concat (m_bufvec s))"
    "fd_reg s' = fd_reg s" "fd_backlog s' = fd_backlog s" "fd_shut s' = fd_shut s" "fd_sent s' = fd_sent s"
proof -
  obtain i v where v: "advance_vec wl (m_bufvec s) = (i, v)" by fastforce
  have s': "s' = snd (ctx_consumed i (s\<lparr>m_bufvec := v\<rparr>))" and e: "e = fst (ctx_consumed i (s\<lparr>m_bufvec := v\<rparr>))"
    using assms by (auto simp: ctx_advance_def v)
  show "e \<longleftrightarrow> m_bufvec s' = []" "concat (m_bufvec s') = drop wl (concat (m_bufvec s))"
    "fd_reg s' = fd_reg s" "fd_backlog s' = fd_backlog s" "fd_shut s' = fd_shut s" "fd_sent s' = fd_sent s"
    by (simp_all add: s' e advance_vec_concat [OF v])
qed

text \<open>After a \<open>writev\<close> that took \<open>wl\<close> bytes, the loop leaves exactly the rest in the queue.\<close>

lemma advance_inv:
  assumes adv: "ctx_advance wl (sys_writev wl s) = (e, s')" and inv: "queue_inv bs rs s"
    and wl: "wl \<le> length (concat (take MP_WAVY_WRITEV_LIMIT (m_bufvec s)))"
  shows "queue_inv bs rs s'"
proof -
  obtain i v where v: "advance_vec wl (m_bufvec s) = (i, v)" by fastforce
  note len = advance_vec_length [OF v]
  have s': "s' = snd (ctx_consumed i ((sys_writev wl s)\<lparr>m_bufvec := v\<rparr>))"
    using adv by (simp add: ctx_advance_def sys_writev_def v)
  from inv obtain k j where k: "length bs = length rs" "k \<le> length rs" "m_reqvec s = drop k rs"
      "fd_called s = finalizers (take k rs)" "m_bufvec s = drop_first j (drop k bs)"
    and sent: "\<not> fd_shut s \<longrightarrow> fd_sent s @ concat (m_bufvec s) = concat bs"
    unfolding queue_inv_def by blast
  have "take wl (concat (take MP_WAVY_WRITEV_LIMIT (m_bufvec s))) = take wl (concat (m_bufvec s))"
    using wl append_take_drop_id [of MP_WAVY_WRITEV_LIMIT "m_bufvec s"]
    by (metis concat_append take_append diff_is_0_eq append_Nil2 take_0)
  then have b: "\<not> fd_shut s' \<longrightarrow> fd_sent s' @ concat (m_bufvec s') = concat bs"
    using sent by (simp add: s' sys_writev_def advance_vec_concat [OF v])
  obtain j' where "drop i v = drop_first j' (drop i (m_bufvec s))"
    using advance_vec_shape [OF v] by blast
  moreover have "\<exists>j1. drop i (m_bufvec s) = drop_first j1 (drop (k + i) bs)"
    using k(5) by (cases "i = 0") (auto simp: drop_first_drop add.commute intro: exI [of _ 0])
  ultimately have "\<exists>j2. drop i v = drop_first j2 (drop (k + i) bs)"
    by (auto simp: drop_first_twice)
  moreover have "k + i \<le> length rs" using len k(1,2,5) by auto
  moreover have "fd_called s' = finalizers (take (k + i) rs)" "m_reqvec s' = drop (k + i) rs" "m_bufvec s' = drop i v"
    using k(3,4) by (simp_all add: s' sys_writev_def take_add add.commute [of i k])
  ultimately show ?thesis
    using b k(1) unfolding queue_inv_def by metis
qed

lemma clear_inv: "queue_inv bs rs s \<Longrightarrow> queue_inv bs rs (sys_shutdown (ctx_clear s))"
  using queue_inv_consumed [of bs rs "s\<lparr>fd_shut := True\<rparr>" "length (m_bufvec s)"]
  by (auto simp: queue_inv_def sys_shutdown_def ctx_clear_def)

lemma queue_inv_frame:
  "m_bufvec s' = m_bufvec s \<Longrightarrow> m_reqvec s' = m_reqvec s \<Longrightarrow> fd_sent s' = fd_sent s \<Longrightarrow>
   fd_called s' = fd_called s \<Longrightarrow> fd_shut s' = fd_shut s \<Longrightarrow> queue_inv bs rs s' = queue_inv bs rs s"
  by (simp add: queue_inv_def)

lemma push_inv:
  assumes "queue_inv bs rs s" and "length bufs = length reqs"
  shows "queue_inv (bs @ bufs) (rs @ reqs) (snd (ctx_push bufs reqs s))"
proof -
  from assms(1) obtain k j where k: "length bs = length rs" "k \<le> length rs" "m_reqvec s = drop k rs"
      "fd_called s = finalizers (take k rs)" "m_bufvec s = drop_first j (drop k bs)"
    and sent: "\<not> fd_shut s \<longrightarrow> fd_sent s @ concat (m_bufvec s) = concat bs"
    unfolding queue_inv_def by blast
  have "\<exists>j'. m_bufvec s @ bufs = drop_first j' (drop k (bs @ bufs))"
  proof (cases "drop k bs")
    case Nil
    then show ?thesis using k by (intro exI [of _ 0]) simp
  next
    case (Cons b r)
    then have "k < length bs" by (metis drop_eq_Nil list.discI not_less)
    then show ?thesis using k(5) Cons by (intro exI [of _ j]) simp
  qed
  then obtain j' where "m_bufvec s @ bufs = drop_first j' (drop k (bs @ bufs))" by blast
  then have "k \<le> length (rs @ reqs) \<and> m_reqvec (snd (ctx_push bufs reqs s)) = drop k (rs @ reqs) \<and>
      fd_called (snd (ctx_push bufs reqs s)) = finalizers (take k (rs @ reqs)) \<and>
      m_bufvec (snd (ctx_push bufs reqs s)) = drop_first j' (drop k (bs @ bufs))"
    using k(1-4) by (simp add: ctx_push_def)
  moreover have "\<not> fd_shut s \<longrightarrow> fd_sent s @ concat (m_bufvec s @ bufs) = concat (bs @ bufs)"
    using sent by (simp flip: append_assoc)
  ultimately show ?thesis
    using k(1) assms(2) unfolding queue_inv_def by (auto simp: ctx_push_def)
qed

section \<open>The operations keep the invariants\<close>

lemma remove_fields [simp]:
  "m_bufvec (shot_remove w s) = m_bufvec s" "m_reqvec (shot_remove w s) = m_reqvec s"
  "fd_sent (shot_remove w s) = fd_sent s" "fd_called (shot_remove w s) = fd_called s"
  "fd_shut (shot_remove w s) = fd_shut s" "fd_backlog (shot_remove w s) = fd_backlog s"
  "fd_reg (shot_remove w s) = (fd_reg s)(w := Unregistered)"
  "m_bufvec (ctx_clear s) = []" "fd_reg (ctx_clear s) = fd_reg s" "fd_backlog (ctx_clear s) = fd_backlog s"
  "m_bufvec (sys_shutdown s) = m_bufvec s" "fd_reg (sys_shutdown s) = fd_reg s"
  "fd_backlog (sys_shutdown s) = fd_backlog s"
  "m_bufvec (sys_writev n s) = m_bufvec s" "fd_reg (sys_writev n s) = fd_reg s"
  "fd_backlog (sys_writev n s) = fd_backlog s"
  by (simp_all add: shot_remove_def ctx_clear_def sys_shutdown_def sys_writev_def)

lemma queue_inv_remove [simp]: "queue_inv bs rs (shot_remove w s) = queue_inv bs rs s"
  by (rule queue_inv_frame) simp_all

lemma failed_remove_inv: "queue_inv bs rs s \<Longrightarrow> queue_inv bs rs (failed_remove w s)"
  using clear_inv [of bs rs s] queue_inv_frame [of "failed_remove w s" "sys_shutdown (ctx_clear s)" bs rs]
  by (simp add: failed_remove_def sys_shutdown_def)

lemma reactivate_inv [simp]: "queue_inv bs rs (snd (shot_reactivate b w s)) = queue_inv bs rs s"
  by (rule queue_inv_frame) (simp_all add: shot_reactivate_def)

lemma add_notify_inv [simp]: "queue_inv bs rs (snd (add_notify b w s)) = queue_inv bs rs s"
  by (rule queue_inv_frame) (simp_all add: add_notify_def)

lemma watch_queue_inv: "queue_inv bs rs s \<Longrightarrow> queue_inv bs rs (out_watch ans w s)"
  using add_notify_inv [of bs rs "add_fault ans" w s] failed_remove_inv [of bs rs "snd (add_notify (add_fault ans) w s)" w]
  by (simp add: out_watch_def case_prod_beta)

lemma try_write_queue_inv:
  assumes "queue_inv bs rs s" and "writev_law ans s"
  shows "queue_inv bs rs (try_write ans w s)"
proof -
  obtain e s1 where s1: "ctx_skip_zero s = (e, s1)" by fastforce
  note inv = skip_zero_inv [OF s1 assms(1)]
  show ?thesis
  proof (cases "wr_answer ans")
    case (Wrote wl)
    obtain e2 s2 where s2: "ctx_advance wl (sys_writev wl s1) = (e2, s2)" by fastforce
    have "queue_inv bs rs s2"
      using assms(2) s1 Wrote by (intro advance_inv [OF s2 inv]) (simp add: writev_law_def)
    then show ?thesis
      using inv by (simp add: try_write_def s1 s2 Wrote success_remove_def failed_remove_inv)
  qed (simp add: try_write_def s1 inv success_remove_def failed_remove_inv)
qed

lemma try_write_initial_queue_inv:
  assumes "queue_inv bs rs s" and "writev_law ans s"
  shows "queue_inv bs rs (snd (try_write_initial ans s))"
proof -
  obtain e s1 where s1: "ctx_skip_zero s = (e, s1)" by fastforce
  note inv = skip_zero_inv [OF s1 assms(1)]
  show ?thesis
  proof (cases "wr_answer ans")
    case (Wrote wl)
    obtain e2 s2 where s2: "ctx_advance wl (sys_writev wl s1) = (e2, s2)" by fastforce
    have "queue_inv bs rs s2"
      using assms(2) s1 Wrote by (intro advance_inv [OF s2 inv]) (simp add: writev_law_def)
    then show ?thesis
      using inv by (simp add: try_write_initial_def s1 s2 Wrote initial_remove_def clear_inv)
  qed (simp add: try_write_initial_def s1 inv initial_remove_def clear_inv)
qed

lemma out_writev_queue_inv:
  assumes "queue_inv bs rs s" and "length bufs = length reqs"
    and "writev_law ans (snd (ctx_push bufs reqs s))"
  shows "queue_inv (bs @ bufs) (rs @ reqs) (out_writev ans w bufs reqs s)"
  using try_write_initial_queue_inv [OF push_inv [OF assms(1,2)] assms(3)] push_inv [OF assms(1,2)]
  by (auto simp: out_writev_def case_prod_beta Let_def intro: watch_queue_inv)

lemma try_write_initial_result:
  assumes "try_write_initial ans s = (r, s')"
  shows "r \<longleftrightarrow> m_bufvec s' = []" "fd_reg s' = fd_reg s" "fd_backlog s' = fd_backlog s"
proof -
  obtain e s1 where s1: "ctx_skip_zero s = (e, s1)" by fastforce
  note z = skip_zero_simps [OF s1]
  have "(r \<longleftrightarrow> m_bufvec s' = []) \<and> fd_reg s' = fd_reg s \<and> fd_backlog s' = fd_backlog s"
  proof (cases "wr_answer ans")
    case (Wrote wl)
    obtain e2 s2 where s2: "ctx_advance wl (sys_writev wl s1) = (e2, s2)" by fastforce
    show ?thesis
      using assms z(1,3,4) advance_simps(1,3,4) [OF s2]
      by (auto simp: try_write_initial_def s1 s2 Wrote initial_remove_def split: if_splits)
  qed (use assms z(1,3,4) in \<open>auto simp: try_write_initial_def s1 initial_remove_def split: if_splits\<close>)
  then show "r \<longleftrightarrow> m_bufvec s' = []" "fd_reg s' = fd_reg s" "fd_backlog s' = fd_backlog s" by simp_all
qed

lemma out_writev_watch_inv:
  assumes "watch_inv s"
  shows "watch_inv (out_writev ans w bufs reqs s)"
proof (cases "m_bufvec s = []")
  case False
  with assms show ?thesis by (auto simp: out_writev_def ctx_push_def watch_inv_def)
next
  case True
  with assms have reg: "\<And>w. fd_reg s w = Unregistered" "\<And>w. \<not> fd_backlog s w" by (auto simp: watch_inv_def)
  obtain r s1 where s1: "try_write_initial ans (snd (ctx_push bufs reqs s)) = (r, s1)" by fastforce
  note t = try_write_initial_result [OF s1]
  have s1reg: "\<And>w. fd_reg s1 w = Unregistered" "\<And>w. \<not> fd_backlog s1 w"
    using t(2,3) reg by (simp_all add: ctx_push_def)
  have eq: "out_writev ans w bufs reqs s = (if \<not> r then out_watch ans w s1 else s1)"
    using s1 True by (simp add: out_writev_def ctx_push_def)
  show ?thesis
    using s1reg t(1) unfolding eq
    by (auto simp: watch_inv_def out_watch_def add_notify_def failed_remove_def)
qed

lemma watch_inv_only:
  assumes "watch_inv s" and "fd_reg s w \<noteq> Unregistered" and "w' \<noteq> w"
  shows "fd_reg s w' = Unregistered \<and> \<not> fd_backlog s w'"
proof -
  have reg: "fd_reg s w' = Unregistered" using assms unfolding watch_inv_def by blast
  have "fd_backlog s w' \<longrightarrow> fd_reg s w' = Fired" using assms(1) unfolding watch_inv_def by blast
  with reg show ?thesis by simp
qed

text \<open>A worker handles a descriptor of its backlog: its shot has fired.\<close>

lemma try_write_watch_inv:
  assumes "watch_inv s" and "fd_backlog s w"
  shows "watch_inv (try_write ans w (s\<lparr>fd_backlog := (fd_backlog s)(w := False)\<rparr>))"
proof -
  let ?s = "s\<lparr>fd_backlog := (fd_backlog s)(w := False)\<rparr>"
  obtain e s1 where s1: "ctx_skip_zero ?s = (e, s1)" by fastforce
  note z = skip_zero_simps [OF s1]
  have w: "fd_reg s w = Fired" using assms unfolding watch_inv_def by blast
  have only: "fd_reg s w' = Unregistered" and none: "\<not> fd_backlog s w'" if "w' \<noteq> w" for w'
    using watch_inv_only [OF assms(1) _ that] w by simp_all
  have removed: "watch_inv t" if "m_bufvec t = []" "fd_reg t = (fd_reg s)(w := Unregistered)"
      "fd_backlog t = (fd_backlog s)(w := False)" for t :: "'a out_fd"
    using that only none by (auto simp: watch_inv_def)
  have kept: "watch_inv t" if "m_bufvec t \<noteq> []" "fd_reg t = (fd_reg s)(w := r)" "r \<noteq> Unregistered"
      "fd_backlog t = (fd_backlog s)(w := False)" for t :: "'a out_fd" and r
    using that only none by (auto simp: watch_inv_def)
  have same: "(fd_reg s)(w := Fired) = fd_reg s" using w by auto
  show ?thesis
  proof (cases "wr_answer ans")
    case (Wrote wl)
    obtain e2 s2 where s2: "ctx_advance wl (sys_writev wl s1) = (e2, s2)" by fastforce
    note a = advance_simps [OF s2]
    show ?thesis
      using z(1,3,4) a(1,3,4) w kept [of _ Armed] kept [of _ Fired] removed
      by (simp add: try_write_def s1 s2 Wrote success_remove_def failed_remove_def shot_reactivate_def same)
  next
    case (Write_failed er)
    show ?thesis
      using z(1,3,4) kept [of _ Fired] removed
      by (simp add: try_write_def s1 Write_failed success_remove_def failed_remove_def same)
  qed
qed

section \<open>Runs\<close>

definition fd_inv :: "bytes list \<Rightarrow> 'u option list \<Rightarrow> 'u out_fd \<Rightarrow> bool" where
  "fd_inv bs rs s \<longleftrightarrow> queue_inv bs rs s \<and> watch_inv s"

lemma fd_inv_new: "fd_inv [] [] out_fd_new"
  by (simp add: fd_inv_def queue_inv_def watch_inv_def out_fd_new_def)

lemma fd_inv_writev:
  "fd_inv bs rs s \<Longrightarrow> length bufs = length reqs \<Longrightarrow> writev_law ans (snd (ctx_push bufs reqs s)) \<Longrightarrow>
   fd_inv (bs @ bufs) (rs @ reqs) (out_writev ans w bufs reqs s)"
  by (simp add: fd_inv_def out_writev_queue_inv out_writev_watch_inv)

lemma watch_inv_wait:
  assumes "watch_inv s" and w: "fd_reg s w = Armed"
  shows "watch_inv (edge_wait w s)"
proof -
  have only: "fd_reg s w' = Unregistered" and none: "\<not> fd_backlog s w'" if "w' \<noteq> w" for w'
    using watch_inv_only [OF assms(1) _ that] w by simp_all
  have "m_bufvec s \<noteq> []" using assms unfolding watch_inv_def by force
  with only none show ?thesis
    by (simp add: watch_inv_def edge_wait_def)
qed

lemma fd_inv_wait: "fd_inv bs rs s \<Longrightarrow> fd_reg s w = Armed \<Longrightarrow> fd_inv bs rs (edge_wait w s)"
  using queue_inv_frame [of "edge_wait w s" s bs rs]
  by (simp add: fd_inv_def watch_inv_wait) (simp add: edge_wait_def)

lemma skip_zero_bufvec: "m_bufvec (snd (ctx_skip_zero s)) = dropWhile (\<lambda>b. b = []) (m_bufvec s)"
  using skip_zero_simps(2) [of s "fst (ctx_skip_zero s)" "snd (ctx_skip_zero s)"] by simp

lemma writev_law_cong: "m_bufvec s' = m_bufvec s \<Longrightarrow> writev_law ans s' = writev_law ans s"
  by (simp only: writev_law_def skip_zero_bufvec)

lemma fd_inv_step:
  "fd_inv bs rs s \<Longrightarrow> fd_backlog s w \<Longrightarrow> writev_law ans s \<Longrightarrow> fd_inv bs rs (worker_step ans w s)"
  using queue_inv_frame [of "s\<lparr>fd_backlog := (fd_backlog s)(w := False)\<rparr>" s bs rs]
    try_write_queue_inv [of bs rs "s\<lparr>fd_backlog := (fd_backlog s)(w := False)\<rparr>" ans w]
    try_write_watch_inv [of s w ans] writev_law_cong [of "s\<lparr>fd_backlog := (fd_backlog s)(w := False)\<rparr>" s ans]
  by (simp add: fd_inv_def worker_step_def)

lemma given_snoc [simp]:
  "given_bufs fd (tr @ [(f, b, r)]) = given_bufs fd tr @ (if f = fd then b else [])"
  "given_reqs fd (tr @ [(f, b, r)]) = given_reqs fd tr @ (if f = fd then r else [])"
  "given_bufs fd [] = []" "given_reqs fd [] = []"
  by (simp_all add: given_bufs_def given_reqs_def)

lemma output_step_inv:
  assumes "output_step o1 l o2" and "\<And>fd. fd_inv (given_bufs fd tr) (given_reqs fd tr) (m_fdctx o1 fd)"
  shows "fd_inv (given_bufs fd (tr @ [l])) (given_reqs fd (tr @ [l])) (m_fdctx o2 fd)"
  using assms(1)
proof cases
  case (Out_add_thread f n)
  then show ?thesis using assms(2) by (simp add: output_add_thread_def)
next
  case (Out_writev bufs reqs ans f)
  then show ?thesis using assms(2) by (auto simp: impl_writev_def on_fd_def fd_inv_writev split: if_splits)
next
  case (Out_wait f w)
  then show ?thesis using assms(2) by (simp add: on_fd_def fd_inv_wait)
next
  case (Out_try_write f w ans)
  then show ?thesis using assms(2) by (simp add: on_fd_def fd_inv_step)
qed

lemma output_run_inv:
  "output_run o1 tr o2 \<Longrightarrow> o1 = wavy_output_new \<Longrightarrow> fd_inv (given_bufs fd tr) (given_reqs fd tr) (m_fdctx o2 fd)"
proof (induction arbitrary: fd rule: output_run.induct)
  case (Run_refl o1)
  then show ?case by (simp add: wavy_output_new_def fd_inv_new)
next
  case (Run_step o1 tr o2 l o3)
  show ?case using output_step_inv [OF Run_step.hyps(2) Run_step.IH [OF Run_step.prems]] .
qed

lemma drop_first_bytes: "length (concat (drop_first j v)) \<le> length (concat v)"
  by (cases v) auto

lemma queue_inv_finished:
  assumes "queue_inv bs rs s"
  shows "\<exists>k \<le> length rs. m_reqvec s = drop k rs \<and> fd_called s = finalizers (take k rs) \<and>
    (\<not> fd_shut s \<longrightarrow> fd_sent s @ concat (m_bufvec s) = concat bs \<and> length (concat (take k bs)) \<le> length (fd_sent s))"
proof -
  from assms obtain k j where k: "k \<le> length rs" "m_reqvec s = drop k rs" "fd_called s = finalizers (take k rs)"
      "m_bufvec s = drop_first j (drop k bs)"
    and sent: "\<not> fd_shut s \<longrightarrow> fd_sent s @ concat (m_bufvec s) = concat bs"
    unfolding queue_inv_def by blast
  have "length (concat (take k bs)) \<le> length (fd_sent s)" if "\<not> fd_shut s"
  proof -
    have "length (fd_sent s) + length (concat (m_bufvec s)) = length (concat (take k bs)) + length (concat (drop k bs))"
      using sent that append_take_drop_id [of k bs] by (metis concat_append length_append)
    then show ?thesis using drop_first_bytes [of j "drop k bs"] k(4) by simp
  qed
  with k sent show ?thesis by blast
qed

section \<open>A writable descriptor drains\<close>

lemma concat_dropWhile_empty: "concat (dropWhile (\<lambda>b. b = []) v) = concat v"
  by (induction v) auto

definition writable :: "(bytes list \<Rightarrow> nat) \<Rightarrow> bool" where
  "writable tk \<longleftrightarrow> (\<forall>v. concat v \<noteq> [] \<longrightarrow> 0 < tk v \<and> tk v \<le> length (concat v))"

lemma worker_step_empty:
  assumes "m_bufvec (snd (ctx_skip_zero s)) = []" and inv: "fd_inv bs rs s" and "fd_backlog s w"
  shows "fd_inv bs rs (worker_step ans w s) \<and> m_bufvec (worker_step ans w s) = [] \<and>
    fd_shut (worker_step ans w s) = fd_shut s"
proof -
  let ?t = "s\<lparr>fd_backlog := (fd_backlog s)(w := False)\<rparr>"
  let ?a = "\<lparr>wr_answer = Write_failed EAGAIN, add_fault = False, mod_fault = False\<rparr>"
  obtain e s1 where s1: "ctx_skip_zero ?t = (e, s1)" by fastforce
  note z = skip_zero_simps [OF s1]
  have b: "m_bufvec s1 = []" using assms(1) z(2) by (simp add: skip_zero_bufvec)
  have eq: "worker_step a w s = success_remove w s1" for a
    using z(1) b by (simp add: worker_step_def try_write_def s1)
  have "fd_inv bs rs (worker_step ?a w s)"
    by (rule fd_inv_step [OF inv assms(3)]) (simp add: writev_law_def)
  then show ?thesis using b z(5) by (simp add: eq success_remove_def)
qed

lemma worker_step_bytes:
  assumes "m_bufvec (snd (ctx_skip_zero s)) \<noteq> []" and "0 < n" and "fd_reg s w \<noteq> Unregistered"
  defines "s' \<equiv> worker_step \<lparr>wr_answer = Wrote n, add_fault = False, mod_fault = False\<rparr> w s"
  shows "(m_bufvec s' = [] \<or> fd_reg s' w = Armed) \<and> concat (m_bufvec s') = drop n (concat (m_bufvec s)) \<and>
    fd_shut s' = fd_shut s"
proof -
  let ?t = "s\<lparr>fd_backlog := (fd_backlog s)(w := False)\<rparr>"
  obtain e s1 where s1: "ctx_skip_zero ?t = (e, s1)" by fastforce
  note z = skip_zero_simps [OF s1]
  obtain e2 s2 where s2: "ctx_advance n (sys_writev n s1) = (e2, s2)" by fastforce
  note a = advance_simps [OF s2]
  have "m_bufvec s1 \<noteq> []" using assms(1) z(2) by (simp add: skip_zero_bufvec)
  then have s': "s' = (if e2 then success_remove w s2 else snd (shot_reactivate False w s2))"
    using z(1) assms(2) by (simp add: s'_def worker_step_def try_write_def s1 s2)
  have c: "concat (m_bufvec s2) = drop n (concat (m_bufvec s))"
    using a(2) z(2) by (simp add: concat_dropWhile_empty)
  have r: "fd_reg s2 w \<noteq> Unregistered" using a(3) z(3) assms(3) by simp
  have h: "fd_shut s2 = fd_shut s" using a(5) z(5) by (simp add: sys_writev_def)
  show ?thesis using r h a(1) by (simp add: s' success_remove_def shot_reactivate_def flip: c)
qed

lemma serve_drains:
  "fd_inv bs rs s \<Longrightarrow> fd_reg s w = Armed \<Longrightarrow> \<forall>tk \<in> set tks. writable tk \<Longrightarrow>
   length (concat (m_bufvec s)) < length tks \<Longrightarrow>
   fd_inv bs rs (serve tks w s) \<and> m_bufvec (serve tks w s) = [] \<and> fd_shut (serve tks w s) = fd_shut s"
proof (induction tks arbitrary: s)
  case (Cons tk tks)
  let ?v = "take MP_WAVY_WRITEV_LIMIT (m_bufvec (snd (ctx_skip_zero s)))"
  let ?a = "\<lparr>wr_answer = Wrote (tk ?v), add_fault = False, mod_fault = False\<rparr>"
  let ?t = "edge_wait w s"
  let ?s = "worker_step ?a w ?t"
  have t: "fd_inv bs rs ?t" "fd_backlog ?t w" "fd_reg ?t w \<noteq> Unregistered" "m_bufvec ?t = m_bufvec s" "fd_shut ?t = fd_shut s"
    using fd_inv_wait [OF Cons.prems(1,2)] by (simp_all add: edge_wait_def)
  have sk: "m_bufvec (snd (ctx_skip_zero ?t)) = m_bufvec (snd (ctx_skip_zero s))"
    by (simp only: skip_zero_bufvec t(4))
  have rec: "serve (tk # tks) w s = serve tks w ?s" using Cons.prems(2) by simp
  have stop: "serve tks w u = u" if "fd_inv bs rs u" "m_bufvec u = []" for u
    using that by (cases tks) (auto simp: fd_inv_def watch_inv_def)
  show ?case
  proof (cases "m_bufvec (snd (ctx_skip_zero s)) = []")
    case True
    then show ?thesis
      using worker_step_empty [OF _ t(1,2), of ?a] stop [of ?s] rec sk t(5) by simp
  next
    case False
    have "concat ?v \<noteq> []"
      using skip_zero_bytes [of s "fst (ctx_skip_zero s)" "snd (ctx_skip_zero s)"] False by simp
    then have n: "0 < tk ?v" "tk ?v \<le> length (concat ?v)"
      using Cons.prems(3) by (auto simp: writable_def)
    have inv: "fd_inv bs rs ?s"
      using n(2) by (intro fd_inv_step [OF t(1,2)]) (simp add: writev_law_def sk)
    note b = worker_step_bytes [of ?t "tk ?v" w, OF _ n(1) t(3)]
    have b': "(m_bufvec ?s = [] \<or> fd_reg ?s w = Armed) \<and> concat (m_bufvec ?s) = drop (tk ?v) (concat (m_bufvec s)) \<and>
        fd_shut ?s = fd_shut s"
      using b False sk t(4,5) by simp
    show ?thesis
    proof (cases "m_bufvec ?s = []")
      case True
      then show ?thesis using stop [OF inv] inv b' rec by simp
    next
      case ne: False
      have "concat (m_bufvec s) \<noteq> []"
        using \<open>concat ?v \<noteq> []\<close> in_set_takeD by (fastforce simp: skip_zero_bufvec dest: set_dropWhileD)
      then have "length (concat (m_bufvec ?s)) < length tks"
        using b' n(1) Cons.prems(4) by (cases "concat (m_bufvec s)") auto
      then show ?thesis
        using Cons.IH [OF inv] ne b' Cons.prems(3) rec by simp
    qed
  qed
qed simp

lemma queue_inv_empty:
  assumes "queue_inv bs rs s" and "m_bufvec s = []"
  shows "fd_called s = finalizers rs \<and> m_reqvec s = [] \<and> (\<not> fd_shut s \<longrightarrow> fd_sent s = concat bs)"
proof -
  from assms obtain k j where k: "length bs = length rs" "k \<le> length rs" "m_reqvec s = drop k rs"
      "fd_called s = finalizers (take k rs)" "m_bufvec s = drop_first j (drop k bs)"
    and sent: "\<not> fd_shut s \<longrightarrow> fd_sent s @ concat (m_bufvec s) = concat bs"
    unfolding queue_inv_def by blast
  have "length (drop_first j (drop k bs)) = 0" using assms(2) k(5) by simp
  then have "k = length rs" using k(1,2) by simp
  with k sent assms(2) show ?thesis by simp
qed

section \<open>A stalled queue stays stalled\<close>

lemma stalled_step:
  assumes "output_step o1 l o2" and "stalled (m_fdctx o1 fd)"
  shows "stalled (m_fdctx o2 fd) \<and> fd_sent (m_fdctx o2 fd) = fd_sent (m_fdctx o1 fd)"
  using assms(1)
proof cases
  case (Out_writev bufs reqs ans f)
  then show ?thesis using assms(2)
    by (auto simp: impl_writev_def on_fd_def out_writev_def ctx_push_def stalled_def split: if_splits)
qed (use assms(2) in \<open>auto simp: output_add_thread_def on_fd_def stalled_def\<close>)

lemma stalled_run:
  "output_run o1 tr o2 \<Longrightarrow> stalled (m_fdctx o1 fd) \<Longrightarrow>
   stalled (m_fdctx o2 fd) \<and> fd_sent (m_fdctx o2 fd) = fd_sent (m_fdctx o1 fd)"
  by (induction rule: output_run.induct) (auto dest: stalled_step)

lemma worker_step_again:
  assumes "watch_inv s" and "fd_backlog s w" and "concat (m_bufvec s) \<noteq> []"
    and "wr_answer ans = Write_failed EAGAIN \<or> wr_answer ans = Write_failed EINTR"
  shows "stalled (worker_step ans w s)"
proof -
  let ?t = "s\<lparr>fd_backlog := (fd_backlog s)(w := False)\<rparr>"
  obtain e s1 where s1: "ctx_skip_zero ?t = (e, s1)" by fastforce
  note z = skip_zero_simps [OF s1]
  have w: "fd_reg s w = Fired" using assms(1,2) unfolding watch_inv_def by blast
  have "m_bufvec s1 \<noteq> []" using assms(3) z(2) concat_dropWhile_empty [of "m_bufvec s"] by auto
  moreover from this have "worker_step ans w s = s1"
    using assms(4) z(1) by (auto simp: worker_step_def try_write_def s1)
  moreover have "fd_reg s w' \<noteq> Armed \<and> (w' \<noteq> w \<longrightarrow> \<not> fd_backlog s w')" for w'
    using watch_inv_only [OF assms(1), of w w'] w by (cases "w' = w") auto
  ultimately show ?thesis using z(3,4) by (simp add: stalled_def)
qed

section \<open>Properties\<close>

text \<open>
  Two buffers handed in on descriptor 3, of which the first attempt to write takes one byte:
  worker 0 watches the descriptor for the rest.
\<close>

definition sample_answer :: os_answer where
  "sample_answer = \<lparr>wr_answer = Wrote 1, add_fault = False, mod_fault = False\<rparr>"

definition sample_out :: "nat wavy_output" where
  "sample_out = on_fd 3 (out_writev sample_answer 0 [[1, 2], [3]] [None, Some 7]) (output_add_thread 1 wavy_output_new)"

definition sample_trace :: "nat out_label list" where
  "sample_trace = [(0, [], []), (3, [[1, 2], [3]], [None, Some 7])]"

lemmas out_eval = out_writev_def ctx_push_def try_write_initial_def ctx_skip_zero_def ctx_consumed_def
  ctx_advance_def sys_writev_def out_watch_def add_notify_def MP_WAVY_WRITEV_LIMIT_def

lemma sample_out_fd:
  "m_fdctx sample_out 3 = \<lparr>m_bufvec = [[2], [3]], m_reqvec = [None, Some 7], fd_reg = (\<lambda>w. Unregistered)(0 := Armed),
     fd_backlog = (\<lambda>w. False), fd_sent = [1], fd_called = [], fd_shut = False\<rparr>"
  by (simp add: sample_out_def sample_answer_def on_fd_def output_add_thread_def wavy_output_new_def out_fd_new_def out_eval)

lemma sample_out_run: "output_run wavy_output_new sample_trace sample_out"
proof -
  have 1: "output_run wavy_output_new ([] @ [(0, [], [])]) (output_add_thread 1 wavy_output_new :: nat wavy_output)"
    by (rule Run_step [OF Run_refl Out_add_thread])
  have 2: "output_step (output_add_thread 1 wavy_output_new) (3, [[1, 2], [3]], [None, Some 7]) sample_out"
    by (rule Out_writev [where ans = sample_answer])
      (simp_all add: sample_out_def sample_answer_def impl_writev_def worker_for_def output_add_thread_def
        writev_law_def skip_zero_bufvec ctx_push_def wavy_output_new_def out_fd_new_def MP_WAVY_WRITEV_LIMIT_def)
  show ?thesis using Run_step [OF 1 2] by (simp add: sample_trace_def)
qed

text \<open>
  C26: \<open>output::writev\<close> and the output workers lose, repeat and reorder nothing. After every
  interleaving of callers and workers and every partial write, on a descriptor that was not shut down
  the bytes the kernel has taken followed by the bytes still in the queue are the bytes handed in, in order.
  The finalizers are called in the order their requests were handed in, each at most once, those not
  yet called being exactly those still queued; on a descriptor that was not shut down a
  finalizer is called only when all bytes of its buffers have been taken. (After a shutdown the
  finalizers of what is left are called without it. That the queue is drained at all is not
  part of this: see the two theorems that follow.)
\<close>

theorem output_in_order:
  assumes "output_run wavy_output_new tr o1"
  shows "\<exists>k \<le> length (given_reqs fd tr).
    fd_called (m_fdctx o1 fd) = finalizers (take k (given_reqs fd tr)) \<and>
    m_reqvec (m_fdctx o1 fd) = drop k (given_reqs fd tr) \<and>
    (\<not> fd_shut (m_fdctx o1 fd) \<longrightarrow>
      fd_sent (m_fdctx o1 fd) @ concat (m_bufvec (m_fdctx o1 fd)) = concat (given_bufs fd tr) \<and>
      length (concat (take k (given_bufs fd tr))) \<le> length (fd_sent (m_fdctx o1 fd)))"
  using queue_inv_finished [of "given_bufs fd tr" "given_reqs fd tr" "m_fdctx o1 fd"] output_run_inv [OF assms refl, of fd]
  unfolding fd_inv_def by blast

theorem output_in_order_witness:
  "\<exists>k \<le> length (given_reqs 3 sample_trace).
    fd_called (m_fdctx sample_out 3) = finalizers (take k (given_reqs 3 sample_trace)) \<and>
    m_reqvec (m_fdctx sample_out 3) = drop k (given_reqs 3 sample_trace) \<and>
    (\<not> fd_shut (m_fdctx sample_out 3) \<longrightarrow>
      fd_sent (m_fdctx sample_out 3) @ concat (m_bufvec (m_fdctx sample_out 3)) = concat (given_bufs 3 sample_trace) \<and>
      length (concat (take k (given_bufs 3 sample_trace))) \<le> length (fd_sent (m_fdctx sample_out 3)))"
  by (rule output_in_order [OF sample_out_run])

text \<open>
  Output::impl::worker::try_write: when the kernel reports a watched descriptor writable
  and each writev takes at least one byte, the queue is empty after at most one event per byte
  and one more; then all bytes handed in were sent in order, all finalizers were called, and no
  worker watches the descriptor.
\<close>

theorem output_drains:
  assumes "output_run wavy_output_new tr o1" and "fd_reg (m_fdctx o1 fd) w = Armed"
    and "\<not> fd_shut (m_fdctx o1 fd)" and "\<forall>tk \<in> set tks. writable tk"
    and "length (concat (m_bufvec (m_fdctx o1 fd))) < length tks"
  shows "m_bufvec (serve tks w (m_fdctx o1 fd)) = [] \<and>
    fd_sent (serve tks w (m_fdctx o1 fd)) = concat (given_bufs fd tr) \<and>
    fd_called (serve tks w (m_fdctx o1 fd)) = finalizers (given_reqs fd tr) \<and>
    (\<forall>w'. fd_reg (serve tks w (m_fdctx o1 fd)) w' = Unregistered)"
proof -
  let ?s = "serve tks w (m_fdctx o1 fd)"
  have "fd_inv (given_bufs fd tr) (given_reqs fd tr) ?s \<and> m_bufvec ?s = [] \<and> fd_shut ?s = fd_shut (m_fdctx o1 fd)"
    by (rule serve_drains [OF output_run_inv [OF assms(1) refl] assms(2,4,5)])
  then have inv: "queue_inv (given_bufs fd tr) (given_reqs fd tr) ?s" "watch_inv ?s" "m_bufvec ?s = []" "\<not> fd_shut ?s"
    using assms(3) by (simp_all add: fd_inv_def)
  show ?thesis
    using queue_inv_empty [OF inv(1,3)] inv(2-4) unfolding watch_inv_def by blast
qed

theorem output_drains_witness:
  "m_bufvec (serve [\<lambda>v. 1, \<lambda>v. 1, \<lambda>v. 1] 0 (m_fdctx sample_out 3)) = [] \<and>
    fd_sent (serve [\<lambda>v. 1, \<lambda>v. 1, \<lambda>v. 1] 0 (m_fdctx sample_out 3)) = concat (given_bufs 3 sample_trace) \<and>
    fd_called (serve [\<lambda>v. 1, \<lambda>v. 1, \<lambda>v. 1] 0 (m_fdctx sample_out 3)) = finalizers (given_reqs 3 sample_trace) \<and>
    (\<forall>w'. fd_reg (serve [\<lambda>v. 1, \<lambda>v. 1, \<lambda>v. 1] 0 (m_fdctx sample_out 3)) w' = Unregistered)"
proof -
  have wr: "writable (\<lambda>v. 1)" by (auto simp: writable_def Suc_le_eq)
  show ?thesis
    by (rule output_drains [OF sample_out_run]) (simp_all add: sample_out_fd wr del: serve.simps One_nat_def)
qed

text \<open>
  Output::impl::worker::try_write: when an event finds the socket full again or is
  interrupted (EAGAIN, EINTR), the function returns without arming the one-shot notification
  again. The queue keeps its bytes, no worker is told about the descriptor any more, later
  writes only append to the queue, and no further byte is ever sent on it.
\<close>

theorem output_stalls_after_eagain:
  assumes "output_run wavy_output_new tr o1" and "fd_backlog (m_fdctx o1 fd) w"
    and "concat (m_bufvec (m_fdctx o1 fd)) \<noteq> []"
    and "wr_answer ans = Write_failed EAGAIN \<or> wr_answer ans = Write_failed EINTR"
    and "output_run (on_fd fd (worker_step ans w) o1) tr' o2"
  shows "stalled (m_fdctx o2 fd) \<and> fd_sent (m_fdctx o2 fd) = fd_sent (worker_step ans w (m_fdctx o1 fd))"
proof -
  have "watch_inv (m_fdctx o1 fd)" using output_run_inv [OF assms(1) refl, of fd] by (simp add: fd_inv_def)
  from worker_step_again [OF this assms(2-4)] have "stalled (m_fdctx (on_fd fd (worker_step ans w) o1) fd)"
    by (simp add: on_fd_def)
  from stalled_run [OF assms(5) this] show ?thesis by (simp add: on_fd_def)
qed

theorem output_stalls_after_eagain_witness:
  "stalled (m_fdctx (on_fd 3 (worker_step \<lparr>wr_answer = Write_failed EAGAIN, add_fault = False, mod_fault = False\<rparr> 0)
      (on_fd 3 (edge_wait 0) sample_out)) 3)"
proof -
  have run: "output_run wavy_output_new (sample_trace @ [(3, [], [])]) (on_fd 3 (edge_wait 0) sample_out)"
    by (rule Run_step [OF sample_out_run Out_wait]) (simp add: sample_out_fd)
  show ?thesis
    by (rule conjunct1 [OF output_stalls_after_eagain [OF run _ _ _ Run_refl]])
      (simp_all add: on_fd_def edge_wait_def sample_out_fd)
qed

end
