(* ===== verification/EventLoop.thy ===== *)
theory EventLoop
  imports Output
begin

text \<open>
  The read side of the event loop (\<open>mpsrc/wavy_core.cc\<close>, \<open>mpsrc/wavy_core.h\<close>): the
  threads of \<open>core::impl::operator()\<close> share a queue of tasks, a backlog of readable
  descriptors and the right to poll. Each thread has a program counter; the mutex makes the
  code between a lock and the next unlock or wait one step, and the steps of the threads
  interleave.

  A poll that fails with anything but \<open>EINTR\<close> or \<open>EAGAIN\<close> throws out of the thread, which
  ends the process; such runs stop there.
\<close>

section \<open>State\<close>

text \<open>
  Where a thread is: before taking the mutex (also when woken from the condition variable),
  asleep in \<open>m_cond.wait\<close>, in a task, in \<open>m_edge.wait\<close>, in \<open>read_event\<close> of a descriptor, or
  returned.
\<close>

datatype 't core_pc = T_idle | T_wait | T_task 't | T_poll | T_handle nat | T_end

definition MP_WAVY_TASK_QUEUE_LIMIT :: nat where "MP_WAVY_TASK_QUEUE_LIMIT = 16"

text \<open>
  The fields of \<open>core::impl\<close>; \<open>co_reg\<close> is the registration of each descriptor with the edge
  and \<open>co_state\<close> its handler. The last four fields record what happened: the descriptors the
  kernel delivered, those given to their handlers, the tasks submitted and the tasks taken.
\<close>

record ('t, 'h) wavy_core =
  co_off :: nat
  co_num :: nat
  co_pollable :: bool
  co_backlog :: "nat list"
  co_state :: "nat \<Rightarrow> 'h option"
  co_reg :: "nat \<Rightarrow> epoll_reg"
  co_end :: bool
  co_tasks :: "'t list"
  co_threads :: "'t core_pc list"
  co_delivered :: "nat list"
  co_handled :: "nat list"
  co_submitted :: "'t list"
  co_taken :: "'t list"

definition core_new :: "('t, 'h) wavy_core" where
  "core_new = \<lparr>co_off = 0, co_num = 0, co_pollable = True, co_backlog = [], co_state = (\<lambda>fd. None),
     co_reg = (\<lambda>fd. Unregistered), co_end = False, co_tasks = [], co_threads = [],
     co_delivered = [], co_handled = [], co_submitted = [], co_taken = []\<rparr>"

definition set_pc :: "nat \<Rightarrow> 't core_pc \<Rightarrow> ('t, 'h) wavy_core \<Rightarrow> ('t, 'h) wavy_core" where
  "set_pc i pc s = s\<lparr>co_threads := (co_threads s)[i := pc]\<rparr>"

text \<open>
  \<open>m_cond.signal\<close> wakes a waiting thread, of the scheduler's choice \<open>j\<close>, when there is one;
  \<open>broadcast\<close> wakes all.
\<close>

definition cond_signal :: "nat \<Rightarrow> ('t, 'h) wavy_core \<Rightarrow> ('t, 'h) wavy_core" where
  "cond_signal j s = (if T_wait \<in> set (co_threads s) then set_pc j T_idle s else s)"

definition signal_ok :: "nat \<Rightarrow> ('t, 'h) wavy_core \<Rightarrow> bool" where
  "signal_ok j s \<longleftrightarrow> (T_wait \<in> set (co_threads s) \<longrightarrow> j < length (co_threads s) \<and> co_threads s ! j = T_wait)"

definition cond_broadcast :: "('t, 'h) wavy_core \<Rightarrow> ('t, 'h) wavy_core" where
  "cond_broadcast s = s\<lparr>co_threads := map (\<lambda>pc. if pc = T_wait then T_idle else pc) (co_threads s)\<rparr>"

section \<open>Operations\<close>

definition core_add_thread :: "nat \<Rightarrow> ('t, 'h) wavy_core \<Rightarrow> ('t, 'h) wavy_core" where
  "core_add_thread num s = s\<lparr>co_threads := co_threads s @ replicate num T_idle\<rparr>"

text \<open>\<open>end\<close> sets the flag before it takes the mutex to wake the threads.\<close>

definition core_end_flag :: "('t, 'h) wavy_core \<Rightarrow> ('t, 'h) wavy_core" where
  "core_end_flag s = s\<lparr>co_end := True\<rparr>"

definition core_submit :: "'t \<Rightarrow> nat \<Rightarrow> ('t, 'h) wavy_core \<Rightarrow> ('t, 'h) wavy_core" where
  "core_submit f j s = cond_signal j (s\<lparr>co_tasks := co_tasks s @ [f], co_submitted := co_submitted s @ [f]\<rparr>)"

text \<open>
  \<open>add_impl\<close>: when the descriptor cannot be made non-blocking the handler is deleted and the
  exception goes to the caller.
\<close>

definition core_add :: "bool \<Rightarrow> nat \<Rightarrow> 'h \<Rightarrow> ('t, 'h) wavy_core \<Rightarrow> ('t, 'h) wavy_core" where
  "core_add nonblock fd newh s =
     (if \<not> nonblock then s
      else s\<lparr>co_state := (co_state s)(fd \<mapsto> newh),
             co_reg := (if co_reg s fd = Unregistered then (co_reg s)(fd := Armed) else co_reg s)\<rparr>)"

text \<open>The thread takes the next descriptor of the backlog and releases the mutex.\<close>

definition core_take :: "nat \<Rightarrow> ('t, 'h) wavy_core \<Rightarrow> ('t, 'h) wavy_core" where
  "core_take i s =
     (let fd = co_backlog s ! co_off s
      in set_pc i (T_handle fd) (s\<lparr>co_off := co_off s + 1, co_handled := co_handled s @ [fd]\<rparr>))"

text \<open>From the lock at the head of the loop to the next unlock or wait.\<close>

definition core_enter :: "nat \<Rightarrow> nat \<Rightarrow> ('t, 'h) wavy_core \<Rightarrow> ('t, 'h) wavy_core" where
  "core_enter i j s =
     (if length (co_tasks s) > MP_WAVY_TASK_QUEUE_LIMIT \<or> \<not> co_pollable s then
        if co_end s then set_pc i T_end s
        else (case co_tasks s of
            [] \<Rightarrow> set_pc i T_wait s
          | ev # evs \<Rightarrow>
              let s1 = s\<lparr>co_tasks := evs, co_taken := co_taken s @ [ev]\<rparr>;
                  s2 = (if evs \<noteq> [] then cond_signal j s1 else s1)
              in set_pc i (T_task ev) s2)
      else if co_num s = co_off s then set_pc i T_poll (s\<lparr>co_pollable := False\<rparr>)
      else core_take i s)"

text \<open>
  One round of \<open>retry_poll\<close>: the thread returns when the loop is to end; otherwise the kernel
  answers with the descriptors \<open>fds\<close>, none on a timeout or an interrupted call.
\<close>

definition core_poll :: "nat \<Rightarrow> nat \<Rightarrow> nat list \<Rightarrow> ('t, 'h) wavy_core \<Rightarrow> ('t, 'h) wavy_core" where
  "core_poll i j fds s =
     (if co_end s then set_pc i T_end s
      else if fds = [] then s
      else core_take i (cond_signal j
             (s\<lparr>co_reg := (\<lambda>fd. if fd \<in> set fds then Fired else co_reg s fd),
                co_delivered := co_delivered s @ fds, co_backlog := fds,
                co_off := 0, co_num := length fds, co_pollable := True\<rparr>)))"

text \<open>\<open>epoll_wait\<close> reports descriptors that are registered and armed, each once, up to the size of the buffer.\<close>

definition MP_WAVY_EDGE_BACKLOG_SIZE :: nat where "MP_WAVY_EDGE_BACKLOG_SIZE = 256"

definition edge_wait_law :: "nat list \<Rightarrow> ('t, 'h) wavy_core \<Rightarrow> bool" where
  "edge_wait_law fds s \<longleftrightarrow> distinct fds \<and> length fds \<le> MP_WAVY_EDGE_BACKLOG_SIZE \<and> (\<forall>fd \<in> set fds. co_reg s fd = Armed)"

text \<open>The end of \<open>read_event\<close>: it returned, or it threw and the handler is dropped.\<close>

definition core_handled_event :: "nat \<Rightarrow> nat \<Rightarrow> bool \<Rightarrow> ('t, 'h) wavy_core \<Rightarrow> ('t, 'h) wavy_core" where
  "core_handled_event i fd ok s =
     set_pc i T_idle
       (if ok then s\<lparr>co_reg := (if co_reg s fd = Unregistered then co_reg s else (co_reg s)(fd := Armed))\<rparr>
        else s\<lparr>co_reg := (co_reg s)(fd := Unregistered), co_state := (co_state s)(fd := None)\<rparr>)"

section \<open>Steps\<close>

text \<open>
  A descriptor is added when the process has just opened it: it is not registered. A waiting
  thread may also wake up without a signal.
\<close>

inductive core_step :: "('t, 'h) wavy_core \<Rightarrow> ('t, 'h) wavy_core \<Rightarrow> bool" where
  Core_add_thread: "core_step s (core_add_thread n s)"
| Core_end: "core_step s (core_end_flag s)"
| Core_broadcast: "core_step s (cond_broadcast s)"
| Core_submit: "signal_ok j s \<Longrightarrow> core_step s (core_submit f j s)"
| Core_add: "co_reg s fd = Unregistered \<Longrightarrow> core_step s (core_add ok fd newh s)"
| Core_wake: "i < length (co_threads s) \<Longrightarrow> co_threads s ! i = T_wait \<Longrightarrow> core_step s (set_pc i T_idle s)"
| Core_enter: "i < length (co_threads s) \<Longrightarrow> co_threads s ! i = T_idle \<Longrightarrow> signal_ok j s \<Longrightarrow>
    core_step s (core_enter i j s)"
| Core_task: "i < length (co_threads s) \<Longrightarrow> co_threads s ! i = T_task ev \<Longrightarrow> core_step s (set_pc i T_idle s)"
| Core_poll: "i < length (co_threads s) \<Longrightarrow> co_threads s ! i = T_poll \<Longrightarrow> signal_ok j s \<Longrightarrow> edge_wait_law fds s \<Longrightarrow>
    core_step s (core_poll i j fds s)"
| Core_handle: "i < length (co_threads s) \<Longrightarrow> co_threads s ! i = T_handle fd \<Longrightarrow>
    core_step s (core_handled_event i fd ok s)"

inductive core_reach :: "('t, 'h) wavy_core \<Rightarrow> bool" where
  Reach_new: "core_reach core_new"
| Reach_step: "core_reach s \<Longrightarrow> core_step s s' \<Longrightarrow> core_reach s'"

inductive_cases core_stepE: "core_step s s'"

end
