(* ===== verification/EventLoopTheorems.thy ===== *)
theory EventLoopTheorems
  imports EventLoop
begin

text \<open>
  What the threads of the event loop keep: one thread polls at a time, a handler runs in one
  thread at a time, every delivered event is given to a handler once and in order, tasks are
  taken in the order of their submission, and no thread sleeps on a queued task unless another
  is on its way to the queue.
\<close>

section \<open>Counting threads\<close>

definition count_pc :: "('t core_pc \<Rightarrow> bool) \<Rightarrow> ('t, 'h) wavy_core \<Rightarrow> nat" where
  "count_pc P s = length (filter P (co_threads s))"

definition awake :: "'t core_pc \<Rightarrow> bool" where
  "awake pc \<longleftrightarrow> (case pc of T_idle \<Rightarrow> True | T_handle fd \<Rightarrow> True | _ \<Rightarrow> False)"

lemma filter_update:
  "i < length xs \<Longrightarrow> length (filter P (xs[i := v])) + of_bool (P (xs ! i)) = length (filter P xs) + of_bool (P v)"
proof (induction xs arbitrary: i)
  case (Cons x xs)
  then show ?case by (cases i) auto
qed simp

lemma count_set_pc:
  "i < length (co_threads s) \<Longrightarrow>
   count_pc P (set_pc i pc s) + of_bool (P (co_threads s ! i)) = count_pc P s + of_bool (P pc)"
  by (simp add: count_pc_def set_pc_def filter_update)

lemma count_pos: "0 < count_pc P s \<longleftrightarrow> (\<exists>pc \<in> set (co_threads s). P pc)"
  by (auto simp: count_pc_def filter_empty_conv)

lemma wait_in_set: "T_wait \<in> set (co_threads s) \<longleftrightarrow> 0 < count_pc ((=) T_wait) s"
  by (auto simp: count_pos)

lemma count_signal:
  "signal_ok j s \<Longrightarrow>
   count_pc P (cond_signal j s) + of_bool (T_wait \<in> set (co_threads s) \<and> P T_wait) =
   count_pc P s + of_bool (T_wait \<in> set (co_threads s) \<and> P T_idle)"
  using count_set_pc [of j s P T_idle] by (auto simp: cond_signal_def signal_ok_def)

lemma count_signal_other:
  "signal_ok j s \<Longrightarrow> \<not> P T_wait \<Longrightarrow> \<not> P T_idle \<Longrightarrow> count_pc P (cond_signal j s) = count_pc P s"
  using count_signal [of j s P] by simp

lemma count_list_distinct: "distinct xs \<Longrightarrow> count_list xs x = of_bool (x \<in> set xs)"
  by (induction xs) auto

lemma signal_threads:
  assumes "signal_ok j s" and "i < length (co_threads s)" and "co_threads s ! i \<noteq> T_wait"
  shows "co_threads (cond_signal j s) ! i = co_threads s ! i" "i < length (co_threads (cond_signal j s))"
  using assms by (auto simp: cond_signal_def signal_ok_def set_pc_def nth_list_update)

lemma core_frame [simp]:
  "co_off (set_pc i pc s) = co_off s" "co_num (set_pc i pc s) = co_num s"
  "co_pollable (set_pc i pc s) = co_pollable s" "co_backlog (set_pc i pc s) = co_backlog s"
  "co_state (set_pc i pc s) = co_state s" "co_reg (set_pc i pc s) = co_reg s" "co_end (set_pc i pc s) = co_end s"
  "co_tasks (set_pc i pc s) = co_tasks s" "co_delivered (set_pc i pc s) = co_delivered s"
  "co_handled (set_pc i pc s) = co_handled s" "co_submitted (set_pc i pc s) = co_submitted s"
  "co_taken (set_pc i pc s) = co_taken s"
  by (simp_all add: set_pc_def)

lemma signal_frame [simp]:
  "co_off (cond_signal j s) = co_off s" "co_num (cond_signal j s) = co_num s"
  "co_pollable (cond_signal j s) = co_pollable s" "co_backlog (cond_signal j s) = co_backlog s"
  "co_state (cond_signal j s) = co_state s" "co_reg (cond_signal j s) = co_reg s" "co_end (cond_signal j s) = co_end s"
  "co_tasks (cond_signal j s) = co_tasks s" "co_delivered (cond_signal j s) = co_delivered s"
  "co_handled (cond_signal j s) = co_handled s" "co_submitted (cond_signal j s) = co_submitted s"
  "co_taken (cond_signal j s) = co_taken s"
  by (simp_all add: cond_signal_def)

lemma count_cong: "co_threads s' = co_threads s \<Longrightarrow> count_pc P s' = count_pc P s"
  by (simp add: count_pc_def)

lemma signal_ok_cong: "co_threads s' = co_threads s \<Longrightarrow> signal_ok j s' = signal_ok j s"
  by (simp add: signal_ok_def)

lemma count_broadcast:
  "count_pc P (cond_broadcast s) = length (filter (\<lambda>pc. P (if pc = T_wait then T_idle else pc)) (co_threads s))"
  by (simp add: count_pc_def cond_broadcast_def filter_map comp_def)

lemma count_add_thread: "count_pc P (core_add_thread n s) = count_pc P s + (if P T_idle then n else 0)"
  by (simp add: count_pc_def core_add_thread_def)

section \<open>The invariants\<close>

text \<open>
  A descriptor whose shot has fired is in the backlog or with one thread, once; the others are
  with none.
\<close>

definition dispatch_inv :: "('t, 'h) wavy_core \<Rightarrow> bool" where
  "dispatch_inv s \<longleftrightarrow> co_off s \<le> co_num s \<and> co_num s = length (co_backlog s) \<and>
     co_handled s @ drop (co_off s) (co_backlog s) = co_delivered s \<and>
     (\<forall>fd. count_pc ((=) (T_handle fd)) s + count_list (drop (co_off s) (co_backlog s)) fd
           \<le> of_bool (co_reg s fd = Fired)) \<and>
     (\<forall>fd. co_reg s fd \<noteq> Unregistered \<longrightarrow> co_state s fd \<noteq> None)"

definition poll_inv :: "('t, 'h) wavy_core \<Rightarrow> bool" where
  "poll_inv s \<longleftrightarrow> count_pc ((=) T_poll) s \<le> of_bool (\<not> co_pollable s) \<and>
     (0 < count_pc ((=) T_poll) s \<longrightarrow> co_off s = co_num s)"

definition wake_inv :: "('t, 'h) wavy_core \<Rightarrow> bool" where
  "wake_inv s \<longleftrightarrow> (\<not> co_end s \<longrightarrow> 0 < count_pc ((=) T_wait) s \<longrightarrow>
     (if co_pollable s then 2 \<le> count_pc awake s else co_tasks s \<noteq> [] \<longrightarrow> 1 \<le> count_pc awake s))"

definition task_inv :: "('t, 'h) wavy_core \<Rightarrow> bool" where
  "task_inv s \<longleftrightarrow> co_taken s @ co_tasks s = co_submitted s"

lemma awake_simps [simp]:
  "awake T_idle" "\<not> awake T_wait" "\<not> awake (T_task ev)" "\<not> awake T_poll" "awake (T_handle fd)" "\<not> awake T_end"
  by (simp_all add: awake_def)

lemmas core_fun_defs = core_enter_def core_poll_def core_take_def core_handled_event_def core_submit_def
  core_add_def core_end_flag_def core_add_thread_def cond_broadcast_def

lemma task_inv_step: "core_step s s' \<Longrightarrow> task_inv s \<Longrightarrow> task_inv s'"
  by (erule core_stepE) (auto simp: task_inv_def core_fun_defs Let_def split: list.splits)

lemma dispatch_inv_cong:
  "co_off s' = co_off s \<Longrightarrow> co_num s' = co_num s \<Longrightarrow> co_backlog s' = co_backlog s \<Longrightarrow>
   co_handled s' = co_handled s \<Longrightarrow> co_delivered s' = co_delivered s \<Longrightarrow> co_reg s' = co_reg s \<Longrightarrow>
   co_state s' = co_state s \<Longrightarrow> (\<And>fd. count_pc ((=) (T_handle fd)) s' = count_pc ((=) (T_handle fd)) s) \<Longrightarrow>
   dispatch_inv s' = dispatch_inv s"
  by (simp add: dispatch_inv_def)

lemma dispatch_inv_set_pc:
  assumes "i < length (co_threads s)" and "\<And>fd. co_threads s ! i \<noteq> T_handle fd" and "\<And>fd. pc \<noteq> T_handle fd"
  shows "dispatch_inv (set_pc i pc s) = dispatch_inv s"
proof (rule dispatch_inv_cong)
  fix fd
  show "count_pc ((=) (T_handle fd)) (set_pc i pc s) = count_pc ((=) (T_handle fd)) s"
    using count_set_pc [OF assms(1), of "(=) (T_handle fd)" pc] assms(2) [of fd] assms(3) [of fd]
    by (auto dest: sym)
qed simp_all

lemma dispatch_inv_signal: "signal_ok j s \<Longrightarrow> dispatch_inv (cond_signal j s) = dispatch_inv s"
  by (intro dispatch_inv_cong) (simp_all add: count_signal_other)

lemma dispatch_inv_take:
  assumes inv: "dispatch_inv s" and "i < length (co_threads s)" and "\<And>fd. co_threads s ! i \<noteq> T_handle fd"
    and less: "co_off s < co_num s"
  shows "dispatch_inv (core_take i s)"
proof -
  let ?fd = "co_backlog s ! co_off s"
  let ?s = "s\<lparr>co_off := co_off s + 1, co_handled := co_handled s @ [?fd]\<rparr>"
  have len: "co_off s < length (co_backlog s)" using inv less by (simp add: dispatch_inv_def)
  have d: "drop (co_off s) (co_backlog s) = ?fd # drop (co_off s + 1) (co_backlog s)"
    using Cons_nth_drop_Suc [OF len] by simp
  have c: "count_pc ((=) (T_handle fd)) (set_pc i (T_handle ?fd) ?s) = count_pc ((=) (T_handle fd)) s + of_bool (fd = ?fd)" for fd
    using count_set_pc [of i ?s "(=) (T_handle fd)" "T_handle ?fd"] assms(2) assms(3) [of fd] count_cong [of ?s s]
    by (auto dest: sym)
  have b: "count_pc ((=) (T_handle fd)) (set_pc i (T_handle ?fd) ?s) + count_list (drop (co_off s + 1) (co_backlog s)) fd
      \<le> of_bool (co_reg s fd = Fired)" for fd
  proof -
    have "count_pc ((=) (T_handle fd)) s + count_list (drop (co_off s) (co_backlog s)) fd \<le> of_bool (co_reg s fd = Fired)"
      using inv by (simp add: dispatch_inv_def)
    then show ?thesis unfolding c d by (cases "co_reg s fd = Fired") (auto split: if_splits)
  qed
  have "co_handled s @ [?fd] @ drop (co_off s + 1) (co_backlog s) = co_delivered s"
    using inv d by (simp add: dispatch_inv_def)
  with b inv less show ?thesis
    by (simp add: core_take_def Let_def dispatch_inv_def)
qed

lemma dispatch_inv_poll:
  assumes inv: "dispatch_inv s" and "co_off s = co_num s" and law: "edge_wait_law fds s"
  shows "dispatch_inv (s\<lparr>co_reg := (\<lambda>fd. if fd \<in> set fds then Fired else co_reg s fd),
    co_delivered := co_delivered s @ fds, co_backlog := fds, co_off := 0, co_num := length fds, co_pollable := True\<rparr>)"
    (is "dispatch_inv ?s")
proof -
  have c: "count_pc P ?s = count_pc P s" for P by (rule count_cong) simp
  have none: "count_pc ((=) (T_handle fd)) s \<le> of_bool (co_reg s fd = Fired)" for fd
    using inv assms(2) unfolding dispatch_inv_def by (metis add_leD1)
  have cl: "count_list fds fd = of_bool (fd \<in> set fds)" for fd
    using law by (simp add: edge_wait_law_def count_list_distinct)
  have "count_pc ((=) (T_handle fd)) s + count_list fds fd
      \<le> of_bool ((if fd \<in> set fds then Fired else co_reg s fd) = Fired)" for fd
    using none [of fd] law by (auto simp: cl edge_wait_law_def)
  then show ?thesis
    using inv assms(2) law by (auto simp: dispatch_inv_def c edge_wait_law_def)
qed

lemma dispatch_inv_handled:
  assumes inv: "dispatch_inv s" and i: "i < length (co_threads s)" "co_threads s ! i = T_handle fd"
  shows "dispatch_inv (core_handled_event i fd ok s)"
proof -
  let ?s = "core_handled_event i fd ok s"
  let ?pend = "drop (co_off s) (co_backlog s)"
  have c: "count_pc ((=) (T_handle f)) ?s + of_bool (f = fd) = count_pc ((=) (T_handle f)) s" for f
    using count_set_pc [of i s "(=) (T_handle f)" T_idle] i
    by (auto simp: core_handled_event_def count_pc_def set_pc_def)
  have b: "count_pc ((=) (T_handle f)) s + count_list ?pend f \<le> of_bool (co_reg s f = Fired)" for f
    using inv by (simp add: dispatch_inv_def)
  have "count_pc ((=) (T_handle f)) ?s + count_list ?pend f \<le> of_bool (f \<noteq> fd \<and> co_reg s f = Fired)" for f
    using b [of f] c [of f] by (cases "f = fd"; cases "co_reg s f = Fired") simp_all
  moreover have "of_bool (f \<noteq> fd \<and> co_reg s f = Fired) \<le> (of_bool (co_reg ?s f = Fired) :: nat)" for f
    by (simp add: core_handled_event_def)
  ultimately have "count_pc ((=) (T_handle f)) ?s + count_list ?pend f \<le> of_bool (co_reg ?s f = Fired)" for f
    using le_trans by blast
  moreover have "co_off ?s = co_off s" "co_num ?s = co_num s" "co_backlog ?s = co_backlog s"
      "co_handled ?s = co_handled s" "co_delivered ?s = co_delivered s"
    by (simp_all add: core_handled_event_def)
  moreover have "co_reg ?s f \<noteq> Unregistered \<longrightarrow> co_state ?s f \<noteq> None" for f
    using inv by (simp add: dispatch_inv_def core_handled_event_def)
  ultimately show ?thesis
    using inv unfolding dispatch_inv_def by metis
qed

text \<open>The branches of the locked section, as one rule.\<close>

lemma core_enter_rule:
  assumes i: "i < length (co_threads s)" "co_threads s ! i = T_idle" and j: "signal_ok j s"
    and stop: "co_end s \<Longrightarrow> P (set_pc i T_end s)"
    and sleep: "co_tasks s = [] \<Longrightarrow> \<not> co_pollable s \<Longrightarrow> P (set_pc i T_wait s)"
    and task: "\<And>ev evs s1. co_tasks s = ev # evs \<Longrightarrow> \<not> co_pollable s \<or> MP_WAVY_TASK_QUEUE_LIMIT < length (co_tasks s) \<Longrightarrow>
      s1 = s\<lparr>co_tasks := evs, co_taken := co_taken s @ [ev]\<rparr> \<Longrightarrow> signal_ok j s1 \<Longrightarrow>
      P (set_pc i (T_task ev) (if evs \<noteq> [] then cond_signal j s1 else s1))"
    and poll: "co_pollable s \<Longrightarrow> co_num s = co_off s \<Longrightarrow> P (set_pc i T_poll (s\<lparr>co_pollable := False\<rparr>))"
    and take: "co_pollable s \<Longrightarrow> co_num s \<noteq> co_off s \<Longrightarrow> P (core_take i s)"
  shows "P (core_enter i j s)"
proof -
  have "signal_ok j (s\<lparr>co_tasks := evs, co_taken := co_taken s @ [ev]\<rparr>)" for ev evs
    using j by (simp add: signal_ok_def)
  then show ?thesis
    using assms by (auto simp: core_enter_def Let_def MP_WAVY_TASK_QUEUE_LIMIT_def split: list.splits)
qed

lemma dispatch_inv_enter:
  assumes inv: "dispatch_inv s" and i: "i < length (co_threads s)" "co_threads s ! i = T_idle" and j: "signal_ok j s"
  shows "dispatch_inv (core_enter i j s)"
proof (rule core_enter_rule [OF i j])
  fix ev evs s1
  assume s1: "s1 = s\<lparr>co_tasks := evs, co_taken := co_taken s @ [ev]\<rparr>" and ok: "signal_ok j s1"
  have e1: "dispatch_inv s1" using inv dispatch_inv_cong [of s1 s] count_cong [of s1 s] by (simp add: s1)
  have i1: "i < length (co_threads s1)" "co_threads s1 ! i = T_idle" using i by (simp_all add: s1)
  have "dispatch_inv (cond_signal j s1)" "i < length (co_threads (cond_signal j s1))" "co_threads (cond_signal j s1) ! i = T_idle"
    using dispatch_inv_signal [OF ok] e1 signal_threads [OF ok i1(1)] i1 by simp_all
  then show "dispatch_inv (set_pc i (T_task ev) (if evs \<noteq> [] then cond_signal j s1 else s1))"
    using e1 i1 by (simp add: dispatch_inv_set_pc)
next
  let ?s = "s\<lparr>co_pollable := False\<rparr>"
  have "dispatch_inv ?s" using inv dispatch_inv_cong [of ?s s] count_cong [of ?s s] by simp
  then show "dispatch_inv (set_pc i T_poll ?s)" using i by (simp add: dispatch_inv_set_pc)
next
  assume "co_num s \<noteq> co_off s"
  then have "co_off s < co_num s" using inv by (simp add: dispatch_inv_def)
  then show "dispatch_inv (core_take i s)" using inv i by (intro dispatch_inv_take) simp_all
qed (use inv i in \<open>simp_all add: dispatch_inv_set_pc\<close>)

lemma dispatch_inv_core_poll:
  assumes inv: "dispatch_inv s" "poll_inv s" and i: "i < length (co_threads s)" "co_threads s ! i = T_poll"
    and j: "signal_ok j s" and law: "edge_wait_law fds s"
  shows "dispatch_inv (core_poll i j fds s)"
proof -
  let ?t = "s\<lparr>co_reg := (\<lambda>fd. if fd \<in> set fds then Fired else co_reg s fd),
    co_delivered := co_delivered s @ fds, co_backlog := fds, co_off := 0, co_num := length fds, co_pollable := True\<rparr>"
  have "0 < count_pc ((=) T_poll) s" unfolding count_pos using i by (metis nth_mem)
  then have off: "co_off s = co_num s" using inv(2) by (simp add: poll_inv_def)
  have ok: "signal_ok j ?t" using j by (simp add: signal_ok_def)
  have t: "dispatch_inv (cond_signal j ?t)"
    using dispatch_inv_signal [OF ok] dispatch_inv_poll [OF inv(1) off law] by simp
  have it: "i < length (co_threads (cond_signal j ?t))" "co_threads (cond_signal j ?t) ! i = T_poll"
    using signal_threads [OF ok, of i] i by simp_all
  have "dispatch_inv (core_take i (cond_signal j ?t))" if "fds \<noteq> []"
    by (rule dispatch_inv_take [OF t it(1)]) (use it(2) that in simp_all)
  then show ?thesis using inv(1) i by (simp add: core_poll_def dispatch_inv_set_pc)
qed

lemma dispatch_inv_step:
  assumes "core_step s s'" and inv: "dispatch_inv s" and poll: "poll_inv s"
  shows "dispatch_inv s'"
  using assms(1)
proof cases
  case (Core_add_thread n)
  then show ?thesis using inv dispatch_inv_cong [of s' s] by (simp add: count_add_thread) (simp add: core_add_thread_def)
next
  case Core_end
  then show ?thesis using inv dispatch_inv_cong [of s' s] count_cong [of s' s] by (simp add: core_end_flag_def)
next
  case Core_broadcast
  have "count_pc ((=) (T_handle fd)) s' = count_pc ((=) (T_handle fd)) s" for fd
    unfolding Core_broadcast count_broadcast by (simp add: count_pc_def) (metis core_pc.distinct(7,15))
  then show ?thesis using inv dispatch_inv_cong [of s' s] by (simp add: Core_broadcast cond_broadcast_def)
next
  case (Core_submit j f)
  let ?t = "s\<lparr>co_tasks := co_tasks s @ [f], co_submitted := co_submitted s @ [f]\<rparr>"
  have "dispatch_inv ?t" using inv dispatch_inv_cong [of ?t s] count_cong [of ?t s] by simp
  then show ?thesis using Core_submit dispatch_inv_signal [of j ?t] signal_ok_cong [of ?t s] by (simp add: core_submit_def)
next
  case (Core_add fd ok newh)
  have "count_pc ((=) (T_handle fd)) s + count_list (drop (co_off s) (co_backlog s)) fd = 0"
    using inv Core_add(2) unfolding dispatch_inv_def by (metis epoll_reg.distinct(3) le_zero_eq of_bool_eq(1))
  with Core_add show ?thesis using inv count_cong [of s' s]
    by (auto simp: dispatch_inv_def core_add_def split: if_splits)
next
  case (Core_wake i)
  then show ?thesis using inv by (simp add: dispatch_inv_set_pc)
next
  case (Core_enter i j)
  then show ?thesis using inv by (simp add: dispatch_inv_enter)
next
  case (Core_task i ev)
  then show ?thesis using inv by (simp add: dispatch_inv_set_pc)
next
  case (Core_poll i j fds)
  then show ?thesis using inv poll by (simp add: dispatch_inv_core_poll)
next
  case (Core_handle i fd ok)
  then show ?thesis using inv by (simp add: dispatch_inv_handled)
qed

lemma poll_inv_step:
  assumes "core_step s s'" and inv: "poll_inv s"
  shows "poll_inv s'"
  using assms(1)
proof cases
  case (Core_add_thread n)
  then have "count_pc ((=) T_poll) s' = count_pc ((=) T_poll) s" by (simp add: count_add_thread)
  then show ?thesis using inv by (simp add: Core_add_thread core_add_thread_def poll_inv_def)
next
  case Core_end
  then show ?thesis using inv count_cong [of s' s] by (simp add: poll_inv_def core_end_flag_def)
next
  case Core_broadcast
  have "count_pc ((=) T_poll) s' = count_pc ((=) T_poll) s"
    unfolding Core_broadcast count_broadcast by (simp add: count_pc_def) (metis core_pc.distinct(5,13))
  then show ?thesis using inv by (simp add: Core_broadcast poll_inv_def cond_broadcast_def)
next
  case (Core_submit j f)
  let ?t = "s\<lparr>co_tasks := co_tasks s @ [f], co_submitted := co_submitted s @ [f]\<rparr>"
  have "count_pc ((=) T_poll) s' = count_pc ((=) T_poll) s"
    using Core_submit count_signal_other [of j ?t "(=) T_poll"] signal_ok_cong [of ?t s] count_cong [of ?t s]
    by (simp add: core_submit_def)
  then show ?thesis using inv by (simp add: Core_submit core_submit_def poll_inv_def)
next
  case (Core_add fd ok newh)
  then show ?thesis using inv count_cong [of s' s] by (simp add: poll_inv_def core_add_def)
next
  case (Core_wake i)
  then show ?thesis using inv count_set_pc [of i s "(=) T_poll" T_idle] by (simp add: poll_inv_def)
next
  case (Core_task i ev)
  then show ?thesis using inv count_set_pc [of i s "(=) T_poll" T_idle] by (simp add: poll_inv_def)
next
  case (Core_handle i fd ok)
  have "count_pc ((=) T_poll) s' = count_pc ((=) T_poll) s"
    using count_set_pc [of i s "(=) T_poll" T_idle] Core_handle
    by (auto simp: core_handled_event_def count_pc_def set_pc_def)
  then show ?thesis using inv by (simp add: Core_handle poll_inv_def core_handled_event_def)
next
  case (Core_enter i j)
  have "poll_inv (core_enter i j s)"
  proof (rule core_enter_rule [OF Core_enter(2-4)])
    fix ev evs s1
    assume s1: "s1 = s\<lparr>co_tasks := evs, co_taken := co_taken s @ [ev]\<rparr>" and ok: "signal_ok j s1"
    let ?s2 = "if evs \<noteq> [] then cond_signal j s1 else s1"
    have i2: "i < length (co_threads ?s2)" "co_threads ?s2 ! i = T_idle"
      using signal_threads [OF ok, of i] Core_enter(2,3) s1 by simp_all
    have "count_pc ((=) T_poll) ?s2 = count_pc ((=) T_poll) s"
      using count_signal_other [OF ok, of "(=) T_poll"] count_cong [of s1 s "(=) T_poll"]
      by (cases "evs = []") (simp_all add: s1)
    then show "poll_inv (set_pc i (T_task ev) ?s2)"
      using inv count_set_pc [OF i2(1), of "(=) T_poll" "T_task ev"] i2(2) by (simp add: poll_inv_def s1)
  next
    let ?s = "s\<lparr>co_pollable := False\<rparr>"
    assume "co_pollable s" "co_num s = co_off s"
    then show "poll_inv (set_pc i T_poll ?s)"
      using inv count_set_pc [of i ?s "(=) T_poll" T_poll] Core_enter(2,3) count_cong [of ?s s]
      by (simp add: poll_inv_def)
  next
    let ?s = "s\<lparr>co_off := co_off s + 1, co_handled := co_handled s @ [co_backlog s ! co_off s]\<rparr>"
    assume "co_pollable s"
    then show "poll_inv (core_take i s)"
      using inv count_set_pc [of i ?s "(=) T_poll" "T_handle (co_backlog s ! co_off s)"] Core_enter(2,3) count_cong [of ?s s]
      by (simp add: poll_inv_def core_take_def Let_def)
  qed (use inv Core_enter(2,3) count_set_pc [of i s "(=) T_poll" T_end] count_set_pc [of i s "(=) T_poll" T_wait] in
      \<open>simp_all add: poll_inv_def\<close>)
  then show ?thesis by (simp add: Core_enter)
next
  case (Core_poll i j fds)
  let ?t = "s\<lparr>co_reg := (\<lambda>fd. if fd \<in> set fds then Fired else co_reg s fd),
    co_delivered := co_delivered s @ fds, co_backlog := fds, co_off := 0, co_num := length fds, co_pollable := True\<rparr>"
  let ?t2 = "(cond_signal j ?t)\<lparr>co_off := co_off (cond_signal j ?t) + 1,
    co_handled := co_handled (cond_signal j ?t) @ [co_backlog (cond_signal j ?t) ! co_off (cond_signal j ?t)]\<rparr>"
  have one: "count_pc ((=) T_poll) s \<le> 1" using inv by (cases "co_pollable s") (auto simp: poll_inv_def)
  have ok: "signal_ok j ?t" using Core_poll(4) by (simp add: signal_ok_def)
  have it: "i < length (co_threads ?t2)" "co_threads ?t2 ! i = T_poll"
    using signal_threads [OF ok, of i] Core_poll(2,3) by simp_all
  have "count_pc ((=) T_poll) ?t2 = count_pc ((=) T_poll) s"
    using count_signal_other [OF ok, of "(=) T_poll"] count_cong [of ?t s] count_cong [of ?t2 "cond_signal j ?t"] by simp
  then have "poll_inv (core_take i (cond_signal j ?t))"
    using one count_set_pc [OF it(1), of "(=) T_poll" "T_handle (fds ! 0)"] it(2)
    by (simp add: poll_inv_def core_take_def Let_def)
  then show ?thesis
    using inv count_set_pc [of i s "(=) T_poll" T_end] Core_poll(1-3)
    by (auto simp: core_poll_def poll_inv_def split: if_splits)
qed

lemma signal_counts:
  assumes "signal_ok j s"
  shows "count_pc ((=) T_wait) (cond_signal j s) = count_pc ((=) T_wait) s - 1"
    "count_pc awake (cond_signal j s) = count_pc awake s + of_bool (0 < count_pc ((=) T_wait) s)"
  using count_signal [OF assms, of "(=) T_wait"] count_signal [OF assms, of awake]
  unfolding wait_in_set by (cases "0 < count_pc ((=) T_wait) s"; simp)+

lemma wake_inv_enter:
  assumes inv: "wake_inv s" and i: "i < length (co_threads s)" "co_threads s ! i = T_idle" and j: "signal_ok j s"
  shows "wake_inv (core_enter i j s)"
proof (rule core_enter_rule [OF i j])
  have a: "0 < count_pc awake s" unfolding count_pos using i by (metis nth_mem awake_simps(1))
  {
    fix ev evs s1
    assume ts: "co_tasks s = ev # evs" and lim: "\<not> co_pollable s \<or> MP_WAVY_TASK_QUEUE_LIMIT < length (co_tasks s)"
      and s1: "s1 = s\<lparr>co_tasks := evs, co_taken := co_taken s @ [ev]\<rparr>" and ok: "signal_ok j s1"
    let ?s2 = "if evs \<noteq> [] then cond_signal j s1 else s1"
    have i2: "i < length (co_threads ?s2)" "co_threads ?s2 ! i = T_idle"
      using signal_threads [OF ok, of i] i s1 by simp_all
    have c: "count_pc P s1 = count_pc P s" for P by (rule count_cong) (simp add: s1)
    have ne: "co_pollable s \<Longrightarrow> evs \<noteq> []" using lim ts by (auto simp: MP_WAVY_TASK_QUEUE_LIMIT_def)
    show "wake_inv (set_pc i (T_task ev) ?s2)"
      using inv a ne count_set_pc [OF i2(1), of "(=) T_wait" "T_task ev"] count_set_pc [OF i2(1), of awake "T_task ev"]
        i2(2) signal_counts [OF ok]
      by (cases "evs = []"; cases "co_pollable s") (auto simp: wake_inv_def s1 [symmetric] c ts, simp_all add: s1)
  next
    let ?s = "s\<lparr>co_pollable := False\<rparr>"
    assume "co_pollable s"
    then show "wake_inv (set_pc i T_poll ?s)"
      using inv count_set_pc [of i ?s "(=) T_wait" T_poll] count_set_pc [of i ?s awake T_poll] i count_cong [of ?s s]
      by (auto simp: wake_inv_def)
  next
    let ?s = "s\<lparr>co_off := co_off s + 1, co_handled := co_handled s @ [co_backlog s ! co_off s]\<rparr>"
    let ?h = "T_handle (co_backlog s ! co_off s)"
    show "wake_inv (core_take i s)"
      using inv count_set_pc [of i ?s "(=) T_wait" ?h] count_set_pc [of i ?s awake ?h] i count_cong [of ?s s]
      by (auto simp: wake_inv_def core_take_def Let_def)
  }
qed (simp_all add: wake_inv_def)

lemma wake_inv_step:
  assumes "core_step s s'" and inv: "wake_inv s"
  shows "wake_inv s'"
  using assms(1)
proof cases
  case (Core_add_thread n)
  then have "count_pc ((=) T_wait) s' = count_pc ((=) T_wait) s" "count_pc awake s' = count_pc awake s + n"
    by (simp_all add: count_add_thread)
  then show ?thesis using inv by (auto simp: Core_add_thread core_add_thread_def wake_inv_def)
next
  case Core_end
  then show ?thesis by (simp add: wake_inv_def core_end_flag_def)
next
  case Core_broadcast
  then have "count_pc ((=) T_wait) s' = 0" by (auto simp: count_broadcast)
  then show ?thesis by (simp add: wake_inv_def)
next
  case (Core_submit j f)
  let ?t = "s\<lparr>co_tasks := co_tasks s @ [f], co_submitted := co_submitted s @ [f]\<rparr>"
  have ok: "signal_ok j ?t" using Core_submit(2) by (simp add: signal_ok_def)
  have c: "count_pc P ?t = count_pc P s" for P by (rule count_cong) simp
  show ?thesis
    using inv signal_counts [OF ok, unfolded c] by (auto simp: Core_submit(1) core_submit_def wake_inv_def)
next
  case (Core_add fd ok newh)
  then show ?thesis using inv count_cong [of s' s] by (auto simp: wake_inv_def core_add_def)
next
  case (Core_wake i)
  then show ?thesis
    using inv count_set_pc [of i s "(=) T_wait" T_idle] count_set_pc [of i s awake T_idle] by (auto simp: wake_inv_def)
next
  case (Core_task i ev)
  then show ?thesis
    using inv count_set_pc [of i s "(=) T_wait" T_idle] count_set_pc [of i s awake T_idle] by (auto simp: wake_inv_def)
next
  case (Core_handle i fd ok)
  have "count_pc P s' = count_pc P (set_pc i T_idle s)" for P
    using Core_handle by (simp add: core_handled_event_def count_pc_def set_pc_def)
  then show ?thesis
    using inv count_set_pc [of i s "(=) T_wait" T_idle] count_set_pc [of i s awake T_idle] Core_handle
    by (auto simp: wake_inv_def core_handled_event_def)
next
  case (Core_enter i j)
  then show ?thesis using inv by (simp add: wake_inv_enter)
next
  case (Core_poll i j fds)
  let ?t = "s\<lparr>co_reg := (\<lambda>fd. if fd \<in> set fds then Fired else co_reg s fd),
    co_delivered := co_delivered s @ fds, co_backlog := fds, co_off := 0, co_num := length fds, co_pollable := True\<rparr>"
  let ?u = "core_take i (cond_signal j ?t)"
  let ?h = "T_handle (fds ! 0)"
  have ok: "signal_ok j ?t" using Core_poll(4) by (simp add: signal_ok_def)
  have it: "i < length (co_threads (cond_signal j ?t))" "co_threads (cond_signal j ?t) ! i = T_poll"
    using signal_threads [OF ok, of i] Core_poll(2,3) by simp_all
  have c: "count_pc P ?t = count_pc P s" for P by (rule count_cong) simp
  have "count_pc P ?u = count_pc P (set_pc i ?h (cond_signal j ?t))" for P
    by (rule count_cong) (simp add: core_take_def Let_def set_pc_def)
  then have "wake_inv ?u"
    using count_set_pc [OF it(1), of "(=) T_wait" ?h] count_set_pc [OF it(1), of awake ?h] it(2)
      signal_counts [OF ok, unfolded c]
    by (auto simp: wake_inv_def core_take_def Let_def split: if_splits)
  then show ?thesis using inv Core_poll(1) by (auto simp: core_poll_def wake_inv_def)
qed

definition core_inv :: "('t, 'h) wavy_core \<Rightarrow> bool" where
  "core_inv s \<longleftrightarrow> dispatch_inv s \<and> poll_inv s \<and> wake_inv s \<and> task_inv s"

lemma core_reach_inv: "core_reach s \<Longrightarrow> core_inv s"
proof (induction rule: core_reach.induct)
  case Reach_new
  show ?case
    by (simp add: core_inv_def dispatch_inv_def poll_inv_def wake_inv_def task_inv_def core_new_def count_pc_def)
next
  case (Reach_step s s')
  then show ?case
    unfolding core_inv_def using dispatch_inv_step poll_inv_step wake_inv_step task_inv_step by blast
qed

lemma filter_unique:
  "length (filter P xs) \<le> 1 \<Longrightarrow> i < length xs \<Longrightarrow> j < length xs \<Longrightarrow> P (xs ! i) \<Longrightarrow> P (xs ! j) \<Longrightarrow> i = j"
proof (induction xs arbitrary: i j)
  case (Cons x xs)
  have none: "\<not> P (xs ! k)" if "P x" "k < length xs" for k
    using Cons.prems(1) that by (auto simp: filter_empty_conv)
  show ?case
    using Cons none by (cases i; cases j) (auto split: if_splits)
qed simp

section \<open>One thread alone\<close>

definition starve_inv :: "('t, 'h) wavy_core \<Rightarrow> bool" where
  "starve_inv s \<longleftrightarrow> (co_threads s = [] \<longrightarrow> co_pollable s) \<and>
     (length (co_threads s) \<le> 1 \<longrightarrow> length (co_submitted s) \<le> MP_WAVY_TASK_QUEUE_LIMIT \<longrightarrow> co_taken s = [] \<and>
       (\<forall>pc \<in> set (co_threads s). pc \<noteq> T_wait \<and> (\<forall>t. pc \<noteq> T_task t) \<and> (awake pc \<longrightarrow> co_pollable s)))"

lemma one_thread:
  "length xs \<le> 1 \<Longrightarrow> i < length xs \<Longrightarrow> xs ! i = x \<Longrightarrow> xs = [x] \<and> i = 0"
  by (cases xs; cases i) auto

lemma starve_inv_step:
  assumes "core_step s s'" and inv: "starve_inv s" and task: "task_inv s"
  shows "starve_inv s'"
proof -
  have "length (co_tasks s) \<le> length (co_submitted s)"
    using task by (metis task_inv_def length_append le_add2)
  then have few: "length (co_submitted s) \<le> MP_WAVY_TASK_QUEUE_LIMIT \<Longrightarrow> \<not> MP_WAVY_TASK_QUEUE_LIMIT < length (co_tasks s)"
    by simp
  show ?thesis
    using assms(1)
  proof cases
    case (Core_add_thread n)
    then show ?thesis using inv by (cases "co_threads s") (auto simp: starve_inv_def core_add_thread_def)
  next
    case (Core_submit j f)
    then show ?thesis using inv by (auto simp: starve_inv_def core_submit_def cond_signal_def signal_ok_def set_pc_def)
  next
    case (Core_enter i j)
    show ?thesis
    proof (cases "length (co_threads s) \<le> 1 \<and> length (co_submitted s) \<le> MP_WAVY_TASK_QUEUE_LIMIT")
      case True
      then show ?thesis
        using inv few Core_enter one_thread [of "co_threads s" i T_idle]
        by (auto simp: starve_inv_def core_enter_def core_take_def Let_def set_pc_def)
    next
      case False
      then show ?thesis
        using Core_enter
        by (auto simp: starve_inv_def core_enter_def core_take_def Let_def set_pc_def cond_signal_def split: list.splits)
    qed
  next
    case (Core_poll i j fds)
    then show ?thesis
      using inv one_thread [of "co_threads s" i T_poll]
      by (auto simp: starve_inv_def core_poll_def core_take_def Let_def set_pc_def cond_signal_def)
  next
    case (Core_handle i fd ok)
    then show ?thesis
      using inv one_thread [of "co_threads s" i "T_handle fd"]
      by (auto simp: starve_inv_def core_handled_event_def set_pc_def)
  next
    case (Core_wake i)
    then show ?thesis
      using inv one_thread [of "co_threads s" i T_wait] by (auto simp: starve_inv_def set_pc_def)
  next
    case (Core_task i ev)
    then show ?thesis
      using inv one_thread [of "co_threads s" i "T_task ev"] by (auto simp: starve_inv_def set_pc_def)
  qed (use inv in \<open>auto simp: starve_inv_def core_end_flag_def cond_broadcast_def core_add_def\<close>)
qed

lemma core_reach_starve: "core_reach s \<Longrightarrow> starve_inv s"
proof (induction rule: core_reach.induct)
  case Reach_new
  show ?case by (simp add: starve_inv_def core_new_def)
next
  case (Reach_step s s')
  then show ?case using starve_inv_step core_reach_inv unfolding core_inv_def by blast
qed

section \<open>Properties\<close>

text \<open>
  Three threads and a descriptor: the first thread polls, the others fall asleep and a
  submitted task wakes one of them; then the kernel delivers the descriptor.
\<close>

definition sample_core1 :: "(nat, unit) wavy_core" where
  "sample_core1 = core_submit 7 1 (core_enter 2 1 (core_enter 1 0 (core_enter 0 0 (core_add True 5 () (core_add_thread 3 core_new)))))"

definition sample_core2 :: "(nat, unit) wavy_core" where
  "sample_core2 = core_poll 0 2 [5] sample_core1"

lemmas core_eval = core_fun_defs core_new_def set_pc_def cond_signal_def signal_ok_def Let_def
  MP_WAVY_TASK_QUEUE_LIMIT_def numeral_3_eq_3 numeral_2_eq_2

lemma sample_core1_eq:
  "sample_core1 = \<lparr>co_off = 0, co_num = 0, co_pollable = False, co_backlog = [], co_state = [5 \<mapsto> ()],
     co_reg = (\<lambda>fd. Unregistered)(5 := Armed), co_end = False, co_tasks = [7],
     co_threads = [T_poll, T_idle, T_wait], co_delivered = [], co_handled = [], co_submitted = [7], co_taken = []\<rparr>"
  by (simp add: sample_core1_def core_eval)

lemma sample_core1_reach: "core_reach sample_core1"
proof -
  let ?s1 = "core_add_thread 3 core_new :: (nat, unit) wavy_core"
  let ?s2 = "core_add True 5 () ?s1"
  let ?s3 = "core_enter 0 0 ?s2"
  let ?s4 = "core_enter 1 0 ?s3"
  let ?s5 = "core_enter 2 1 ?s4"
  have 1: "core_reach ?s1" by (rule Reach_step [OF Reach_new Core_add_thread])
  have 2: "core_reach ?s2" by (rule Reach_step [OF 1 Core_add]) (simp add: core_eval)
  have 3: "core_reach ?s3" by (rule Reach_step [OF 2 Core_enter]) (simp_all add: core_eval)
  have 4: "core_reach ?s4" by (rule Reach_step [OF 3 Core_enter]) (simp_all add: core_eval)
  have 5: "core_reach ?s5" by (rule Reach_step [OF 4 Core_enter]) (simp_all add: core_eval)
  show ?thesis unfolding sample_core1_def by (rule Reach_step [OF 5 Core_submit]) (simp add: core_eval)
qed

lemma sample_core2_eq:
  "co_threads sample_core2 = [T_handle 5, T_idle, T_idle]" "co_handled sample_core2 = [5]"
  "co_delivered sample_core2 = [5]" "co_backlog sample_core2 = [5]" "co_off sample_core2 = 1"
  by (simp_all add: sample_core2_def sample_core1_eq core_poll_def core_take_def Let_def set_pc_def cond_signal_def numeral_2_eq_2)

lemma sample_core2_reach: "core_reach sample_core2"
  unfolding sample_core2_def
  by (rule Reach_step [OF sample_core1_reach Core_poll])
    (simp_all add: sample_core1_eq signal_ok_def edge_wait_law_def MP_WAVY_EDGE_BACKLOG_SIZE_def numeral_2_eq_2)

text \<open>
  C27: core::impl::operator(): for every interleaving of the threads, a handler's read_event
  runs in one thread at a time and its handler is there, at most one thread polls and it does
  so only when the backlog has been given out, and the descriptors given to handlers followed
  by those in the backlog are exactly the descriptors the kernel delivered, in order; tasks
  leave the queue in the order of their submission.
\<close>

theorem core_events_dispatched_once:
  assumes "core_reach s"
  shows "(\<forall>i j fd. i < length (co_threads s) \<and> j < length (co_threads s) \<and>
      co_threads s ! i = T_handle fd \<and> co_threads s ! j = T_handle fd \<longrightarrow> i = j) \<and>
    (\<forall>fd. T_handle fd \<in> set (co_threads s) \<longrightarrow> co_state s fd \<noteq> None \<and> co_reg s fd = Fired) \<and>
    (\<forall>i j. i < length (co_threads s) \<and> j < length (co_threads s) \<and>
      co_threads s ! i = T_poll \<and> co_threads s ! j = T_poll \<longrightarrow> i = j) \<and>
    (T_poll \<in> set (co_threads s) \<longrightarrow> co_off s = co_num s) \<and>
    co_handled s @ drop (co_off s) (co_backlog s) = co_delivered s \<and>
    co_taken s @ co_tasks s = co_submitted s"
proof -
  have inv: "dispatch_inv s" "poll_inv s" "task_inv s" using core_reach_inv [OF assms] by (simp_all add: core_inv_def)
  have h: "count_pc ((=) (T_handle fd)) s \<le> of_bool (co_reg s fd = Fired)" for fd
    using inv(1) unfolding dispatch_inv_def by (metis add_leD1)
  have h1: "length (filter ((=) (T_handle fd)) (co_threads s)) \<le> 1" for fd
    using h [of fd] by (cases "co_reg s fd = Fired") (auto simp: count_pc_def)
  have p: "length (filter ((=) T_poll) (co_threads s)) \<le> 1"
    using inv(2) by (cases "co_pollable s") (auto simp: poll_inv_def count_pc_def)
  have fired: "co_reg s fd = Fired" if "T_handle fd \<in> set (co_threads s)" for fd
  proof -
    have "0 < count_pc ((=) (T_handle fd)) s" using that by (auto simp: count_pos)
    then show ?thesis using h [of fd] by (cases "co_reg s fd = Fired") auto
  qed
  have hand: "co_state s fd \<noteq> None" if "T_handle fd \<in> set (co_threads s)" for fd
    using fired [OF that] inv(1) unfolding dispatch_inv_def by (metis epoll_reg.distinct(3))
  have off: "co_off s = co_num s" if "T_poll \<in> set (co_threads s)"
  proof -
    have "0 < count_pc ((=) T_poll) s" using that by (auto simp: count_pos)
    then show ?thesis using inv(2) by (simp add: poll_inv_def)
  qed
  have u1: "i = j" if "i < length (co_threads s)" "j < length (co_threads s)"
      "co_threads s ! i = T_handle fd" "co_threads s ! j = T_handle fd" for i j fd
    by (rule filter_unique [OF h1 [of fd] that(1,2)]) (simp_all add: that(3,4))
  have u2: "i = j" if "i < length (co_threads s)" "j < length (co_threads s)"
      "co_threads s ! i = T_poll" "co_threads s ! j = T_poll" for i j
    by (rule filter_unique [OF p that(1,2)]) (simp_all add: that(3,4))
  have "co_handled s @ drop (co_off s) (co_backlog s) = co_delivered s" "co_taken s @ co_tasks s = co_submitted s"
    using inv(1,3) by (simp_all add: dispatch_inv_def task_inv_def)
  with fired hand off u1 u2 show ?thesis by blast
qed

theorem core_events_dispatched_once_witness:
  "core_reach sample_core2 \<and> co_threads sample_core2 = [T_handle 5, T_idle, T_idle] \<and> co_state sample_core2 5 \<noteq> None \<and>
    co_handled sample_core2 @ drop (co_off sample_core2) (co_backlog sample_core2) = co_delivered sample_core2"
  using core_events_dispatched_once [OF sample_core2_reach] sample_core2_reach sample_core2_eq(1) by simp

text \<open>
  C28: core::impl::operator() and submit_impl: no wakeup is lost. While the loop is not ending,
  whenever a task is queued and some thread sleeps on the condition variable, another thread is
  before the lock or in a handler, and so on its way to the queue.
\<close>

theorem core_no_lost_wakeup:
  assumes "core_reach s" and "\<not> co_end s" and "co_tasks s \<noteq> []" and "T_wait \<in> set (co_threads s)"
  shows "\<exists>pc \<in> set (co_threads s). pc = T_idle \<or> (\<exists>fd. pc = T_handle fd)"
proof -
  have "wake_inv s" using core_reach_inv [OF assms(1)] by (simp add: core_inv_def)
  then have "0 < count_pc awake s"
    using assms(2-4) unfolding wait_in_set by (auto simp: wake_inv_def split: if_splits)
  then obtain pc where pc: "pc \<in> set (co_threads s)" "awake pc" by (auto simp: count_pos)
  have "pc = T_idle \<or> (\<exists>fd. pc = T_handle fd)" using pc(2) by (cases pc) simp_all
  with pc(1) show ?thesis by blast
qed

theorem core_no_lost_wakeup_witness:
  "co_tasks sample_core1 = [7] \<and> T_wait \<in> set (co_threads sample_core1) \<and>
   (\<exists>pc \<in> set (co_threads sample_core1). pc = T_idle \<or> (\<exists>fd. pc = T_handle fd))"
  using core_no_lost_wakeup [OF sample_core1_reach] by (simp add: sample_core1_eq)

text \<open>
  Core::impl::operator(): a loop with a single thread never takes a task while at most
  MP_WAVY_TASK_QUEUE_LIMIT tasks were submitted: the thread runs tasks only when the queue is
  longer than the limit or another thread is polling.
\<close>

theorem core_single_thread_runs_no_task:
  assumes "core_reach s" and "length (co_threads s) \<le> 1"
    and "length (co_submitted s) \<le> MP_WAVY_TASK_QUEUE_LIMIT"
  shows "co_taken s = [] \<and> co_tasks s = co_submitted s"
  using core_reach_starve [OF assms(1)] core_reach_inv [OF assms(1)] assms(2,3)
  by (simp add: starve_inv_def core_inv_def task_inv_def)

theorem core_single_thread_runs_no_task_witness:
  "co_tasks (core_enter 0 0 (core_submit 7 0 (core_add_thread 1 core_new)) :: (nat, unit) wavy_core) = [7]"
proof -
  let ?s1 = "core_add_thread 1 core_new :: (nat, unit) wavy_core"
  let ?s2 = "core_submit 7 0 ?s1"
  have 1: "core_reach ?s1" by (rule Reach_step [OF Reach_new Core_add_thread])
  have 2: "core_reach ?s2" by (rule Reach_step [OF 1 Core_submit]) (simp add: core_eval)
  have 3: "core_reach (core_enter 0 0 ?s2)" by (rule Reach_step [OF 2 Core_enter]) (simp_all add: core_eval)
  have "co_tasks (core_enter 0 0 ?s2) = co_submitted (core_enter 0 0 ?s2)"
    using core_single_thread_runs_no_task [OF 3] by (simp add: core_eval)
  then show ?thesis by (simp add: core_eval)
qed

end
