(* ===== verification/Connection.thy ===== *)
theory Connection
  imports Cluster Output
begin

text \<open>
  Connections of the RPC layer: messages as tuples and their types (\<open>rpc/protocol.h\<close>), the loop
  that reads objects from a socket and processes them (\<open>rpc/connection.h\<close>), the transports of a
  session (\<open>rpc/transport_impl.h\<close>) and of the cluster with the state of their connection
  (\<open>rpc/cluster.cc\<close>), the two kinds of responders, and the buffer that messages are packed into
  (\<open>rpc/vrefbuffer.h\<close>).

  MessagePack is a parameter: it packs a tuple of fields, unpacks an object from the front of a
  buffer when it is complete, and converts an object to a tuple of given types.
\<close>

section \<open>MessagePack\<close>

datatype 'o mp_field = F_u8 u8 | F_u16 u16 | F_u32 u32 | F_raw bytes | F_obj 'o

datatype mp_kind = K_u8 | K_u16 | K_u32 | K_raw | K_obj

fun kind_of :: "'o mp_field \<Rightarrow> mp_kind" where
  "kind_of (F_u8 n) = K_u8"
| "kind_of (F_u16 n) = K_u16"
| "kind_of (F_u32 n) = K_u32"
| "kind_of (F_raw b) = K_raw"
| "kind_of (F_obj x) = K_obj"

text \<open>
  \<open>unpacker::execute\<close> on the bytes of its buffer: more are needed, an object and how many bytes
  it took, or an exception. \<open>mp_value\<close> is what a callback sees of an object.
\<close>

datatype 'o mp_unpacked = Unpack_more | Unpacked 'o nat | Unpack_error

record 'o msgpack_api =
  mp_pack :: "'o mp_field list \<Rightarrow> bytes"
  mp_unpack :: "bytes \<Rightarrow> 'o mp_unpacked"
  mp_tuple :: "'o \<Rightarrow> mp_kind list \<Rightarrow> 'o mp_field list option"
  mp_value :: "'o \<Rightarrow> rvalue"
  mp_nil :: 'o

section \<open>Messages\<close>

definition method_protocol :: "u32 \<Rightarrow> u16" where
  "method_protocol m = ucast (m AND 0xffff)"

definition method_version :: "u32 \<Rightarrow> u16" where
  "method_version m = ucast (drop_bit 16 m)"

definition method_make :: "u16 \<Rightarrow> u16 \<Rightarrow> u32" where
  "method_make protocol version = push_bit 16 (ucast version) OR ucast protocol"

definition MESSAGE_REQUEST :: u16 where "MESSAGE_REQUEST = 0"
definition MESSAGE_RESPONSE :: u16 where "MESSAGE_RESPONSE = 1"
definition CLUSTER_INIT :: u16 where "CLUSTER_INIT = 2"

datatype 'o rpc_msg = Rpc_request u32 u32 'o | Rpc_response u32 'o 'o | Rpc_init bytes u8

text \<open>A request has identifier, method and parameter, a response identifier, error and result.\<close>

fun rpc_fields :: "'o rpc_msg \<Rightarrow> 'o mp_field list" where
  "rpc_fields (Rpc_request msgid method param) = [F_u16 MESSAGE_REQUEST, F_u32 msgid, F_u32 method, F_obj param]"
| "rpc_fields (Rpc_response msgid res err) = [F_u16 MESSAGE_RESPONSE, F_u32 msgid, F_obj err, F_obj res]"
| "rpc_fields (Rpc_init addr r) = [F_u16 CLUSTER_INIT, F_raw addr, F_u8 r]"

definition rpc_pack :: "'o msgpack_api \<Rightarrow> 'o rpc_msg \<Rightarrow> bytes" where
  "rpc_pack api m = mp_pack api (rpc_fields m)"

text \<open>The conversions to \<open>rpc_message\<close>, \<open>rpc_request\<close>, \<open>rpc_response\<close> and \<open>rpc_initmsg\<close>.\<close>

definition convert_message :: "'o msgpack_api \<Rightarrow> 'o \<Rightarrow> u16 result" where
  "convert_message api msg = (case mp_tuple api msg [K_u16] of Some [F_u16 t] \<Rightarrow> Inr t | _ \<Rightarrow> Inl Type_error)"

definition convert_request :: "'o msgpack_api \<Rightarrow> 'o \<Rightarrow> (u32 \<times> u32 \<times> 'o) result" where
  "convert_request api msg =
     (case mp_tuple api msg [K_u16, K_u32, K_u32, K_obj] of
        Some [F_u16 t, F_u32 msgid, F_u32 method, F_obj param] \<Rightarrow> Inr (msgid, method, param)
      | _ \<Rightarrow> Inl Type_error)"

definition convert_response :: "'o msgpack_api \<Rightarrow> 'o \<Rightarrow> (u32 \<times> 'o \<times> 'o) result" where
  "convert_response api msg =
     (case mp_tuple api msg [K_u16, K_u32, K_obj, K_obj] of
        Some [F_u16 t, F_u32 msgid, F_obj err, F_obj res] \<Rightarrow> Inr (msgid, res, err)
      | _ \<Rightarrow> Inl Type_error)"

definition convert_initmsg :: "'o msgpack_api \<Rightarrow> 'o \<Rightarrow> (bytes \<times> u8) result" where
  "convert_initmsg api msg =
     (case mp_tuple api msg [K_u16, K_raw, K_u8] of
        Some [F_u16 t, F_raw addr, F_u8 r] \<Rightarrow> Inr (addr, r)
      | _ \<Rightarrow> Inl Type_error)"

section \<open>Reading\<close>

text \<open>
  \<open>connection::read_event\<close>: the answer of \<open>read\<close>, and the loop over the objects that are complete.
  A message is processed by a function on a state, which may throw. An unpacker that gives an
  object without taking bytes would loop for ever; it is not what the library does.
\<close>

datatype read_answer = Read_bytes bytes | Read_eof | Read_again | Read_failed

definition connection_closed_error :: kerror where
  "connection_closed_error = Runtime_error ''connection closed''"

definition connection_broken_error :: kerror where
  "connection_broken_error = Runtime_error ''connection broken''"

function execute_loop ::
    "'o msgpack_api \<Rightarrow> ('o \<Rightarrow> 's \<Rightarrow> kerror option \<times> 's) \<Rightarrow> bytes \<Rightarrow> 's \<Rightarrow> kerror option \<times> bytes \<times> 's" where
  "execute_loop api submit buf s =
     (case mp_unpack api buf of
        Unpack_more \<Rightarrow> (None, buf, s)
      | Unpack_error \<Rightarrow> (Some (Runtime_error ''unpack error''), buf, s)
      | Unpacked msg n \<Rightarrow>
          if n = 0 \<or> buf = [] then (Some Undefined_behaviour, buf, s)
          else (case submit msg s of
                  (Some e, s') \<Rightarrow> (Some e, drop n buf, s')
                | (None, s') \<Rightarrow> execute_loop api submit (drop n buf) s'))"
  by pat_completeness auto
termination
  by (relation "measure (\<lambda>(api, submit, buf, s). length buf)") auto

declare execute_loop.simps [simp del]

definition read_event ::
    "'o msgpack_api \<Rightarrow> ('o \<Rightarrow> 's \<Rightarrow> kerror option \<times> 's) \<Rightarrow> read_answer \<Rightarrow> bytes \<Rightarrow> 's \<Rightarrow> kerror option \<times> bytes \<times> 's" where
  "read_event api submit ans buf s =
     (case ans of
        Read_eof \<Rightarrow> (Some connection_closed_error, buf, s)
      | Read_again \<Rightarrow> (None, buf, s)
      | Read_failed \<Rightarrow> (Some connection_broken_error, buf, s)
      | Read_bytes bs \<Rightarrow> execute_loop api submit (buf @ bs) s)"

text \<open>\<open>process_message\<close> with what the class does with requests and responses.\<close>

definition process_message ::
    "'o msgpack_api \<Rightarrow> (u32 \<Rightarrow> 'o \<Rightarrow> u32 \<Rightarrow> 's \<Rightarrow> kerror option \<times> 's) \<Rightarrow> ('o \<Rightarrow> 'o \<Rightarrow> u32 \<Rightarrow> 's \<Rightarrow> kerror option \<times> 's) \<Rightarrow>
     'o \<Rightarrow> 's \<Rightarrow> kerror option \<times> 's" where
  "process_message api request response msg s =
     (case convert_message api msg of
        Inl e \<Rightarrow> (Some e, s)
      | Inr t \<Rightarrow>
          if t = MESSAGE_REQUEST then
            (case convert_request api msg of Inl e \<Rightarrow> (Some e, s) | Inr (msgid, method, param) \<Rightarrow> request method param msgid s)
          else
            (case convert_response api msg of Inl e \<Rightarrow> (Some e, s) | Inr (msgid, res, err) \<Rightarrow> response res err msgid s))"

section \<open>Transports\<close>

text \<open>
  What a connection makes happen: actions of the cluster, and requests handed to the handlers of
  clients or of nodes with the identifier their responder has.
\<close>

datatype ('cb, 'o) conn_action =
    Cl "'cb cluster_action"
  | Subsystem_dispatch nat u32 u32 'o
  | Cluster_dispatch nat u32 u32 'o

type_synonym ('cb, 'o) conn_state = "'cb cluster \<times> ('cb, 'o) conn_action list"

definition did :: "'cb cluster_out \<Rightarrow> ('cb, 'o) conn_action list \<Rightarrow> ('cb, 'o) conn_state" where
  "did out acts = (fst out, acts @ map Cl (snd out))"

text \<open>\<open>basic_transport::process_response\<close>: it uses the session without looking whether there is one.\<close>

definition transport_response ::
    "'o msgpack_api \<Rightarrow> nat \<Rightarrow> 'o \<Rightarrow> 'o \<Rightarrow> u32 \<Rightarrow> ('cb, 'o) conn_state \<Rightarrow> kerror option \<times> ('cb, 'o) conn_state" where
  "transport_response api t res err msgid s =
     (let (cl, acts) = s; f = process_response msgid (mp_value api res) (mp_value api err)
      in case Option.bind (cl_transports cl t) t_session of
           None \<Rightarrow> (Some Undefined_behaviour, s)
         | Some (Ref_node i) \<Rightarrow> (None, did (on_session i f cl) acts)
         | Some (Ref_peer i) \<Rightarrow>
             (case cl_peer_sessions cl i of
                None \<Rightarrow> (Some Undefined_behaviour, s)
              | Some ss \<Rightarrow> (let (ss', a) = f ss
                           in (None, did (cl\<lparr>cl_peer_sessions := (cl_peer_sessions cl)(i \<mapsto> ss')\<rparr>, map (Peer_action i) a) acts))))"

text \<open>
  \<open>subsys_state\<close> and \<open>cluster_state\<close>: the session of the transport is cast to a client or to a
  node; the cast is wrong when the session is of the other kind.
\<close>

definition subsys_request :: "nat \<Rightarrow> u32 \<Rightarrow> 'o \<Rightarrow> u32 \<Rightarrow> ('cb, 'o) conn_state \<Rightarrow> kerror option \<times> ('cb, 'o) conn_state" where
  "subsys_request t method param msgid s =
     (case Option.bind (cl_transports (fst s) t) t_session of
        Some (Ref_peer i) \<Rightarrow> (None, fst s, snd s @ [Subsystem_dispatch i msgid method param])
      | _ \<Rightarrow> (Some Undefined_behaviour, s))"

definition cluster_request :: "nat \<Rightarrow> u32 \<Rightarrow> 'o \<Rightarrow> u32 \<Rightarrow> ('cb, 'o) conn_state \<Rightarrow> kerror option \<times> ('cb, 'o) conn_state" where
  "cluster_request t method param msgid s =
     (case Option.bind (cl_transports (fst s) t) t_session of
        Some (Ref_node i) \<Rightarrow> (None, fst s, snd s @ [Cluster_dispatch i msgid method param])
      | _ \<Rightarrow> (Some Undefined_behaviour, s))"

definition subsys_state :: "'o msgpack_api \<Rightarrow> nat \<Rightarrow> 'o \<Rightarrow> ('cb, 'o) conn_state \<Rightarrow> kerror option \<times> ('cb, 'o) conn_state" where
  "subsys_state api t = process_message api (subsys_request t) (transport_response api t)"

definition cluster_state :: "'o msgpack_api \<Rightarrow> nat \<Rightarrow> 'o \<Rightarrow> ('cb, 'o) conn_state \<Rightarrow> kerror option \<times> ('cb, 'o) conn_state" where
  "cluster_state api t = process_message api (cluster_request t) (transport_response api t)"

text \<open>
  The first message: an introduction, or the first message of a client, which is processed again. The
  address of an introduction is converted in any case, by the trace in front of its use.
\<close>

definition transport_init_message ::
    "'o msgpack_api \<Rightarrow> nat \<Rightarrow> 'o \<Rightarrow> ('cb, 'o) conn_state \<Rightarrow> kerror option \<times> ('cb, 'o) conn_state" where
  "transport_init_message api t msg s =
     (case convert_message api msg of
        Inl e \<Rightarrow> (Some e, s)
      | Inr ty \<Rightarrow>
          if ty \<noteq> CLUSTER_INIT then
            (case init_message t None (fst s) of
               (Some e, out) \<Rightarrow> (Some e, did out (snd s))
             | (None, out) \<Rightarrow> subsys_state api t msg (did out (snd s)))
          else
            (case convert_initmsg api msg of
               Inl e \<Rightarrow> (Some e, s)
             | Inr (raw, r) \<Rightarrow>
                 (case address_of_dump raw of
                    Inl e \<Rightarrow> (Some e, s)
                  | Inr addr \<Rightarrow> (let (e, out) = init_message t (Some (addr, r)) (fst s) in (e, did out (snd s))))))"

definition submit_message :: "'o msgpack_api \<Rightarrow> nat \<Rightarrow> 'o \<Rightarrow> ('cb, 'o) conn_state \<Rightarrow> kerror option \<times> ('cb, 'o) conn_state" where
  "submit_message api t msg s =
     (case cl_transports (fst s) t of
        None \<Rightarrow> (Some Undefined_behaviour, s)
      | Some tr \<Rightarrow>
          (case t_process_state tr of
             Not_initialised \<Rightarrow> transport_init_message api t msg s
           | Subsys_state \<Rightarrow> subsys_state api t msg s
           | Cluster_state \<Rightarrow> cluster_state api t msg s))"

text \<open>
  A read event of a transport, with the buffers of the unpackers by transport. An exception leaves
  \<open>read_event\<close>, and the event loop drops the handler: the transport is closed.
\<close>

definition transport_read_event ::
    "'o msgpack_api \<Rightarrow> nat \<Rightarrow> read_answer \<Rightarrow> (nat \<Rightarrow> bytes) \<times> ('cb, 'o) conn_state \<Rightarrow> (nat \<Rightarrow> bytes) \<times> ('cb, 'o) conn_state" where
  "transport_read_event api t ans bs =
     (let (e, buf, s) = read_event api (submit_message api t) ans (fst bs t) (snd bs)
      in ((fst bs)(t := buf),
          case e of None \<Rightarrow> s | Some _ \<Rightarrow> did (transport_closed t (fst s)) (snd s)))"

section \<open>Answers and requests on the wire\<close>

text \<open>\<open>weak_responder::call\<close>: the transport to write to and the bytes.\<close>

definition weak_responder_call ::
    "'o msgpack_api \<Rightarrow> ('cb, 'm) session option \<Rightarrow> u32 \<Rightarrow> 'o \<Rightarrow> 'o \<Rightarrow> (nat \<times> bytes) result" where
  "weak_responder_call api ss msgid res err =
     (let buf = rpc_pack api (Rpc_response msgid res err)
      in case ss of
           None \<Rightarrow> Inl (Runtime_error ''lost session'')
         | Some s \<Rightarrow> (case send_data s of Inl e \<Rightarrow> Inl e | Inr t \<Rightarrow> Inr (t, buf)))"

definition weak_responder_result where
  "weak_responder_result api ss msgid res = weak_responder_call api ss msgid res (mp_nil api)"

definition weak_responder_error where
  "weak_responder_error api ss msgid err = weak_responder_call api ss msgid (mp_nil api) err"

definition weak_responder_null where
  "weak_responder_null api ss msgid = weak_responder_call api ss msgid (mp_nil api) (mp_nil api)"

text \<open>\<open>responder::call\<close> writes to the descriptor itself.\<close>

definition responder_call ::
    "'o msgpack_api \<Rightarrow> os_answer \<Rightarrow> nat \<Rightarrow> u32 \<Rightarrow> 'o \<Rightarrow> 'o \<Rightarrow> 'u \<Rightarrow> 'u wavy_output \<Rightarrow> 'u wavy_output result" where
  "responder_call api ans fd msgid res err req o1 = output_write ans fd (rpc_pack api (Rpc_response msgid res err)) (Some req) o1"

text \<open>\<open>basic_transport::send_data\<close> and \<open>send_datav\<close>.\<close>

definition transport_send_data :: "os_answer \<Rightarrow> nat \<Rightarrow> bytes \<Rightarrow> 'u \<Rightarrow> 'u wavy_output \<Rightarrow> 'u wavy_output result" where
  "transport_send_data ans fd buf req o1 = output_write ans fd buf (Some req) o1"

definition transport_send_datav :: "os_answer \<Rightarrow> nat \<Rightarrow> bytes list \<Rightarrow> 'u \<Rightarrow> 'u wavy_output \<Rightarrow> 'u wavy_output result" where
  "transport_send_datav ans fd vec req o1 = output_writev_req ans fd vec (Some req) o1"

text \<open>
  \<open>vrefbuffer\<close>: pieces with their addresses. A short write is copied to memory of the zone, at the
  address \<open>m\<close>, and joins the last piece when it comes right behind it.
\<close>

type_synonym vrefbuffer = "(nat \<times> bytes) list"

definition VREFBUFFER_REF_SIZE :: nat where "VREFBUFFER_REF_SIZE = 32"

definition append_ref :: "nat \<Rightarrow> bytes \<Rightarrow> vrefbuffer \<Rightarrow> vrefbuffer" where
  "append_ref base buf v = v @ [(base, buf)]"

definition append_copy :: "nat \<Rightarrow> bytes \<Rightarrow> vrefbuffer \<Rightarrow> vrefbuffer" where
  "append_copy m buf v =
     (if v \<noteq> [] \<and> fst (last v) + length (snd (last v)) = m
      then butlast v @ [(fst (last v), snd (last v) @ buf)]
      else append_ref m buf v)"

definition vrefbuffer_write :: "nat \<Rightarrow> nat \<Rightarrow> bytes \<Rightarrow> vrefbuffer \<Rightarrow> vrefbuffer" where
  "vrefbuffer_write base m buf v = (if VREFBUFFER_REF_SIZE < length buf then append_ref base buf v else append_copy m buf v)"

definition vrefbuffer_vector :: "vrefbuffer \<Rightarrow> bytes list" where
  "vrefbuffer_vector v = map snd v"

end
