(* ===== verification/ConnectionTheorems.thy ===== *)
theory ConnectionTheorems
  imports Connection ClusterTheorems "HOL-Library.Sublist"
begin

text \<open>
  What the connections promise: a stream of packed messages, cut anywhere into reads, is processed
  message by message; the session behind a transport is of the kind the state of its connection
  expects; and a request reaches the handler with its identifier, method and parameter.
\<close>

section \<open>Streams of messages\<close>

primrec process_all :: "('m \<Rightarrow> 's \<Rightarrow> kerror option \<times> 's) \<Rightarrow> 'm list \<Rightarrow> 's \<Rightarrow> kerror option \<times> 's" where
  "process_all f [] s = (None, s)"
| "process_all f (m # ms) s = (case f m s of (Some e, s') \<Rightarrow> (Some e, s') | (None, s') \<Rightarrow> process_all f ms s')"

lemma process_all_append:
  "process_all f (xs @ ys) s = (case process_all f xs s of (Some e, s') \<Rightarrow> (Some e, s') | (None, s') \<Rightarrow> process_all f ys s')"
  by (induction xs arbitrary: s) (auto split: prod.splits option.splits)

text \<open>The reads of a connection, until one of them throws.\<close>

primrec read_all ::
    "'o msgpack_api \<Rightarrow> ('o \<Rightarrow> 's \<Rightarrow> kerror option \<times> 's) \<Rightarrow> bytes list \<Rightarrow> bytes \<Rightarrow> 's \<Rightarrow> kerror option \<times> bytes \<times> 's" where
  "read_all api submit [] buf s = (None, buf, s)"
| "read_all api submit (bs # rs) buf s =
     (case read_event api submit (Read_bytes bs) buf s of
        (Some e, b, s') \<Rightarrow> (Some e, b, s')
      | (None, b, s') \<Rightarrow> read_all api submit rs b s')"

text \<open>The lengths MessagePack can write.\<close>

definition packable :: "'o mp_field list \<Rightarrow> bool" where
  "packable fs \<longleftrightarrow> list_all (\<lambda>f. case f of F_raw b \<Rightarrow> length b < 2 ^ 32 | _ \<Rightarrow> True) fs"

text \<open>
  What the format promises: packed tuples are self-delimiting, an incomplete one is recognised as
  such, and an object made of a tuple converts to the types of its first elements.
\<close>

locale msgpack_lib =
  fixes api :: "'o msgpack_api"
    and arr :: "'o mp_field list \<Rightarrow> 'o"
  assumes unpack_packed: "packable fs \<Longrightarrow> mp_unpack api (mp_pack api fs @ rest) = Unpacked (arr fs) (length (mp_pack api fs))"
    and pack_not_empty: "mp_pack api fs \<noteq> []"
    and unpack_part: "packable fs \<Longrightarrow> strict_prefix b (mp_pack api fs) \<Longrightarrow> mp_unpack api b = Unpack_more"
    and tuple_first: "packable fs \<Longrightarrow> n \<le> length fs \<Longrightarrow> mp_tuple api (arr fs) (map kind_of (take n fs)) = Some (take n fs)"
begin

lemma execute_message:
  "packable (rpc_fields m) \<Longrightarrow> execute_loop api submit (rpc_pack api m @ rest) s =
     (case submit (arr (rpc_fields m)) s of
        (Some e, s') \<Rightarrow> (Some e, rest, s')
      | (None, s') \<Rightarrow> execute_loop api submit rest s')"
  unfolding rpc_pack_def by (subst execute_loop.simps) (simp add: unpack_packed pack_not_empty split: prod.split option.split)

lemma execute_messages:
  assumes "list_all (\<lambda>m. packable (rpc_fields m)) ms" and "mp_unpack api part = Unpack_more"
  shows "\<exists>buf. execute_loop api submit (concat (map (rpc_pack api) ms) @ part) s =
    (let (e, s') = process_all (\<lambda>m. submit (arr (rpc_fields m))) ms s in (e, buf, s')) \<and>
    (fst (process_all (\<lambda>m. submit (arr (rpc_fields m))) ms s) = None \<longrightarrow> buf = part)"
  using assms(1)
proof (induction ms arbitrary: s)
  case Nil
  then show ?case using assms(2) by (subst execute_loop.simps) simp
next
  case (Cons m ms)
  obtain e s1 where f: "submit (arr (rpc_fields m)) s = (e, s1)" by fastforce
  from Cons(2) have p: "packable (rpc_fields m)" by simp
  from Cons(1) [of s1] Cons(2) show ?case
    by (cases e) (simp_all add: execute_message [OF p] f)
qed

text \<open>The beginning of a stream: whole messages, and a part of the next.\<close>

lemma stream_prefix:
  "prefix x (concat (map (rpc_pack api) ms)) \<Longrightarrow> list_all (\<lambda>m. packable (rpc_fields m)) ms \<Longrightarrow>
   \<exists>k part. k \<le> length ms \<and> x = concat (map (rpc_pack api) (take k ms)) @ part \<and> mp_unpack api part = Unpack_more \<and>
     prefix part (concat (map (rpc_pack api) (drop k ms)))"
proof (induction ms arbitrary: x)
  case Nil
  have "mp_unpack api [] = Unpack_more"
    using unpack_part [of "[]" "[]"] pack_not_empty [of "[]"] by (simp add: packable_def strict_prefix_def)
  then show ?case using Nil by simp
next
  case (Cons m ms)
  let ?p = "rpc_pack api m"
  show ?case
  proof (cases "strict_prefix x ?p")
    case True
    then have "mp_unpack api x = Unpack_more" using Cons(3) unpack_part [of "rpc_fields m" x] by (simp add: rpc_pack_def)
    with Cons(2) show ?thesis by (intro exI [of _ 0] exI [of _ x]) simp
  next
    case False
    with Cons(2) obtain y where y: "x = ?p @ y" "prefix y (concat (map (rpc_pack api) ms))"
      by (auto simp: prefix_append strict_prefix_def)
    with Cons(1) [OF y(2)] Cons(3) obtain k part where "k \<le> length ms" "y = concat (map (rpc_pack api) (take k ms)) @ part"
        "mp_unpack api part = Unpack_more" "prefix part (concat (map (rpc_pack api) (drop k ms)))" by auto
    with y(1) show ?thesis by (intro exI [of _ "Suc k"] exI [of _ part]) simp
  qed
qed

lemma read_stream:
  assumes "buf @ concat reads = concat (map (rpc_pack api) ms)" and "list_all (\<lambda>m. packable (rpc_fields m)) ms"
    and "mp_unpack api buf = Unpack_more"
  shows "\<exists>b. read_all api submit reads buf s =
      (let (e, s') = process_all (\<lambda>m. submit (arr (rpc_fields m))) ms s in (e, b, s')) \<and>
    (fst (process_all (\<lambda>m. submit (arr (rpc_fields m))) ms s) = None \<longrightarrow> b = [])"
  using assms
proof (induction reads arbitrary: buf ms s)
  case Nil
  have "ms = []"
  proof (rule ccontr)
    assume "ms \<noteq> []"
    then obtain m ms' where ms: "ms = m # ms'" by (cases ms) auto
    with Nil(1) have "buf = rpc_pack api m @ concat (map (rpc_pack api) ms')" by simp
    with Nil(2,3) show False using unpack_packed [of "rpc_fields m"] by (simp add: ms rpc_pack_def)
  qed
  with Nil(1) show ?case by simp
next
  case (Cons bs reads)
  have "prefix (buf @ bs) (concat (map (rpc_pack api) ms))" using Cons(2) by (simp add: prefix_def) (metis append.assoc)
  from stream_prefix [OF this Cons(3)] obtain k part where k: "k \<le> length ms"
      "buf @ bs = concat (map (rpc_pack api) (take k ms)) @ part" "mp_unpack api part = Unpack_more" by blast
  let ?f = "\<lambda>m. submit (arr (rpc_fields m))"
  have split: "ms = take k ms @ drop k ms" by simp
  have all: "list_all (\<lambda>m. packable (rpc_fields m)) (take k ms)" "list_all (\<lambda>m. packable (rpc_fields m)) (drop k ms)"
    using Cons(3) by (auto simp: list_all_iff dest: in_set_takeD in_set_dropD)
  obtain e s1 where pa: "process_all ?f (take k ms) s = (e, s1)" by fastforce
  from execute_messages [OF all(1) k(3), of submit s] pa obtain b where
    ex: "execute_loop api submit (buf @ bs) s = (e, b, s1)" "e = None \<longrightarrow> b = part" by (auto simp: k(2))
  have all_ms: "process_all ?f ms s = (case e of Some e \<Rightarrow> (Some e, s1) | None \<Rightarrow> process_all ?f (drop k ms) s1)"
    using process_all_append [of ?f "take k ms" "drop k ms" s] pa by simp
  show ?case
  proof (cases e)
    case None
    have "concat (map (rpc_pack api) ms) = concat (map (rpc_pack api) (take k ms)) @ concat (map (rpc_pack api) (drop k ms))"
      by (metis split concat_append map_append)
    then have "part @ concat reads = concat (map (rpc_pack api) (drop k ms))"
      using Cons(2) k(2) by simp (metis append.assoc same_append_eq)
    from Cons(1) [OF this all(2) k(3), of s1] ex None all_ms show ?thesis by (simp add: read_event_def)
  next
    case (Some x)
    with ex all_ms show ?thesis by (simp add: read_event_def)
  qed
qed

text \<open>What the conversions give of the objects of messages.\<close>

lemma convert_of_message:
  "convert_message api (arr (rpc_fields (Rpc_request msgid meth param))) = Inr MESSAGE_REQUEST"
  "convert_message api (arr (rpc_fields (Rpc_response msgid res err))) = Inr MESSAGE_RESPONSE"
  "length raw < 2 ^ 32 \<Longrightarrow> convert_message api (arr (rpc_fields (Rpc_init raw r))) = Inr CLUSTER_INIT"
  "convert_request api (arr (rpc_fields (Rpc_request msgid meth param))) = Inr (msgid, meth, param)"
  "convert_response api (arr (rpc_fields (Rpc_response msgid res err))) = Inr (msgid, res, err)"
  "length raw < 2 ^ 32 \<Longrightarrow> convert_initmsg api (arr (rpc_fields (Rpc_init raw r))) = Inr (raw, r)"
  using tuple_first [of "rpc_fields (Rpc_request msgid meth param)" 1] tuple_first [of "rpc_fields (Rpc_request msgid meth param)" 4]
    tuple_first [of "rpc_fields (Rpc_response msgid res err)" 1] tuple_first [of "rpc_fields (Rpc_response msgid res err)" 4]
    tuple_first [of "rpc_fields (Rpc_init raw r)" 1] tuple_first [of "rpc_fields (Rpc_init raw r)" 3]
  by (simp_all add: packable_def convert_message_def convert_request_def convert_response_def convert_initmsg_def)

end

section \<open>Requests reach their handlers\<close>

type_synonym 'o wire_request = "u32 \<times> u32 \<times> 'o"

definition wire_requests :: "'o wire_request list \<Rightarrow> 'o rpc_msg list" where
  "wire_requests rs = map (\<lambda>(msgid, meth, param). Rpc_request msgid meth param) rs"

definition node_transport :: "nat \<Rightarrow> nat \<Rightarrow> 'cb cluster \<Rightarrow> bool" where
  "node_transport t i cl \<longleftrightarrow> (\<exists>tr. cl_transports cl t = Some tr \<and> t_process_state tr = Cluster_state \<and> t_session tr = Some (Ref_node i))"

definition peer_transport :: "nat \<Rightarrow> nat \<Rightarrow> 'cb cluster \<Rightarrow> bool" where
  "peer_transport t i cl \<longleftrightarrow> (\<exists>tr. cl_transports cl t = Some tr \<and> t_process_state tr = Subsys_state \<and> t_session tr = Some (Ref_peer i))"

context msgpack_lib
begin

lemma submit_request:
  "node_transport t i cl \<Longrightarrow> submit_message api t (arr (rpc_fields (Rpc_request msgid meth param))) (cl, acts) =
     (None, cl, acts @ [Cluster_dispatch i msgid meth param])"
  "peer_transport t i cl \<Longrightarrow> submit_message api t (arr (rpc_fields (Rpc_request msgid meth param))) (cl, acts) =
     (None, cl, acts @ [Subsystem_dispatch i msgid meth param])"
  by (auto simp: node_transport_def peer_transport_def submit_message_def cluster_state_def subsys_state_def process_message_def
      convert_of_message cluster_request_def subsys_request_def simp del: rpc_fields.simps)

lemma process_requests:
  "node_transport t i cl \<Longrightarrow> process_all (\<lambda>m. submit_message api t (arr (rpc_fields m))) (wire_requests rs) (cl, acts) =
     (None, cl, acts @ map (\<lambda>(msgid, meth, param). Cluster_dispatch i msgid meth param) rs)"
  "peer_transport t i cl \<Longrightarrow> process_all (\<lambda>m. submit_message api t (arr (rpc_fields m))) (wire_requests rs) (cl, acts) =
     (None, cl, acts @ map (\<lambda>(msgid, meth, param). Subsystem_dispatch i msgid meth param) rs)"
  by (induction rs arbitrary: acts) (auto simp: wire_requests_def submit_request simp del: rpc_fields.simps)

lemma unpack_nothing: "mp_unpack api [] = Unpack_more"
  using unpack_part [of "[]" "[]"] pack_not_empty [of "[]"] by (simp add: packable_def strict_prefix_def)

lemma requests_packable: "list_all (\<lambda>m. packable (rpc_fields m)) (wire_requests rs)"
  by (auto simp: wire_requests_def list_all_iff packable_def)

text \<open>The first message of a client makes a session for it, and is processed again.\<close>

lemma first_request:
  assumes "cl_transports cl t = Some \<lparr>t_session = None, t_process_state = Not_initialised\<rparr>"
  shows "\<exists>cl'. peer_transport t (cl_next_peer cl) cl' \<and> (\<forall>acts. submit_message api t (arr (rpc_fields (Rpc_request msgid meth param))) (cl, acts) =
    (None, cl', acts @ [Subsystem_dispatch (cl_next_peer cl) msgid meth param]))"
proof -
  obtain cl1 where ini: "init_message t None cl = (None, cl1, [])" and pt: "peer_transport t (cl_next_peer cl) cl1"
    using assms by (auto simp: init_message_def init_subsys_def add_peer_session_def rebind_def bind_session_def
        set_process_state_def peer_transport_def Let_def)
  have ty: "MESSAGE_REQUEST \<noteq> CLUSTER_INIT" by (simp add: MESSAGE_REQUEST_def CLUSTER_INIT_def)
  from pt have "subsys_state api t (arr (rpc_fields (Rpc_request msgid meth param))) (cl1, acts) =
      (None, cl1, acts @ [Subsystem_dispatch (cl_next_peer cl) msgid meth param])" for acts
    by (auto simp: peer_transport_def subsys_state_def process_message_def convert_of_message subsys_request_def simp del: rpc_fields.simps)
  with ini pt ty assms show ?thesis
    by (intro exI [of _ cl1]) (simp add: submit_message_def transport_init_message_def convert_of_message did_def del: rpc_fields.simps)
qed

end

text \<open>
  C24: requests over a connection. The bytes of packed requests, received in any pieces, reach the
  handlers of the process: from a node each request is dispatched once, in order, with its message
  identifier, its method and its parameter, to the handler of the node; from a new connection that
  does not introduce itself, to the handler of clients, with one session for the connection. No
  byte is left over and no exception is thrown.
\<close>

theorem requests_reach_handlers:
  assumes "msgpack_lib api arr" and "concat reads = concat (map (rpc_pack api) (wire_requests rs))"
  shows "(node_transport t i cl \<longrightarrow> read_all api (submit_message api t) reads [] (cl, acts) =
      (None, [], cl, acts @ map (\<lambda>(msgid, meth, param). Cluster_dispatch i msgid meth param) rs)) \<and>
    (cl_transports cl t = Some \<lparr>t_session = None, t_process_state = Not_initialised\<rparr> \<longrightarrow>
     (\<exists>cl'. read_all api (submit_message api t) reads [] (cl, acts) =
      (None, [], cl', acts @ map (\<lambda>(msgid, meth, param). Subsystem_dispatch (cl_next_peer cl) msgid meth param) rs)))"
proof (intro conjI impI)
  note read = msgpack_lib.read_stream [OF assms(1), of "[]" reads "wire_requests rs" "submit_message api t" "(cl, acts)"]
  have hyp: "[] @ concat reads = concat (map (rpc_pack api) (wire_requests rs))" using assms(2) by simp
  note read = read [OF hyp msgpack_lib.requests_packable [OF assms(1)] msgpack_lib.unpack_nothing [OF assms(1)]]
  {
    assume "node_transport t i cl"
    from read msgpack_lib.process_requests(1) [OF assms(1) this]
    show "read_all api (submit_message api t) reads [] (cl, acts) =
        (None, [], cl, acts @ map (\<lambda>(msgid, meth, param). Cluster_dispatch i msgid meth param) rs)" by auto
  next
    assume new: "cl_transports cl t = Some \<lparr>t_session = None, t_process_state = Not_initialised\<rparr>"
    show "\<exists>cl'. read_all api (submit_message api t) reads [] (cl, acts) =
        (None, [], cl', acts @ map (\<lambda>(msgid, meth, param). Subsystem_dispatch (cl_next_peer cl) msgid meth param) rs)"
    proof (cases rs)
      case Nil
      with read show ?thesis by (auto simp: wire_requests_def)
    next
      case (Cons r rs')
      obtain msgid meth param where r: "r = (msgid, meth, param)" by (cases r) auto
      from msgpack_lib.first_request [OF assms(1) new, of msgid meth param] obtain cl' where
        cl': "peer_transport t (cl_next_peer cl) cl'"
          "\<And>acts. submit_message api t (arr (rpc_fields (Rpc_request msgid meth param))) (cl, acts) =
             (None, cl', acts @ [Subsystem_dispatch (cl_next_peer cl) msgid meth param])" by blast
      have "process_all (\<lambda>m. submit_message api t (arr (rpc_fields m))) (wire_requests rs) (cl, acts) =
          (None, cl', acts @ map (\<lambda>(msgid, meth, param). Subsystem_dispatch (cl_next_peer cl) msgid meth param) rs)"
        using msgpack_lib.process_requests(2) [OF assms(1) cl'(1), of rs'] cl'(2)
        by (simp add: Cons r wire_requests_def del: rpc_fields.simps)
      with read show ?thesis by auto
    qed
  }
qed

section \<open>A small format\<close>

text \<open>
  A format that keeps the laws: a tuple is a run of fields and a 9, a field a tag and a run of
  bytes, each behind a 1, that a 0 ends. Objects are their own encoding.
\<close>

definition enc_bytes :: "bytes \<Rightarrow> bytes" where
  "enc_bytes bs = concat (map (\<lambda>b. [1, b]) bs) @ [0]"

fun enc_field :: "bytes mp_field \<Rightarrow> bytes" where
  "enc_field (F_u8 n) = 2 # enc_bytes [n]"
| "enc_field (F_u16 n) = 3 # enc_bytes (store_word Big 2 n)"
| "enc_field (F_u32 n) = 4 # enc_bytes (store_word Big 4 n)"
| "enc_field (F_raw b) = 5 # enc_bytes b"
| "enc_field (F_obj x) = 6 # enc_bytes x"

definition enc_tuple :: "bytes mp_field list \<Rightarrow> bytes" where
  "enc_tuple fs = concat (map enc_field fs) @ [9]"

text \<open>How many bytes the first tuple takes, when it is complete; in front of a field, and in its bytes.\<close>

fun scan_fields :: "bytes \<Rightarrow> nat option" and scan_bytes :: "bytes \<Rightarrow> nat option" where
  "scan_fields [] = None"
| "scan_fields (x # xs) = (if x = 9 then Some 1 else map_option Suc (scan_bytes xs))"
| "scan_bytes [] = None"
| "scan_bytes (x # xs) =
     (if x = 1 then (case xs of [] \<Rightarrow> None | b # ys \<Rightarrow> map_option (\<lambda>n. n + 2) (scan_bytes ys)) else map_option Suc (scan_fields xs))"

fun dec_bytes :: "bytes \<Rightarrow> bytes \<times> bytes" where
  "dec_bytes (x # xs) = (if x = 1 \<and> xs \<noteq> [] then (let (p, r) = dec_bytes (tl xs) in (hd xs # p, r)) else ([], xs))"
| "dec_bytes [] = ([], [])"

definition dec_field :: "u8 \<Rightarrow> bytes \<Rightarrow> bytes mp_field" where
  "dec_field tag p =
     (if tag = 2 then F_u8 (hd p) else if tag = 3 then F_u16 (load_word Big p) else if tag = 4 then F_u32 (load_word Big p)
      else if tag = 5 then F_raw p else F_obj p)"

fun dec_fields :: "nat \<Rightarrow> bytes \<Rightarrow> bytes mp_field list" where
  "dec_fields (Suc n) (x # xs) = (if x = 9 then [] else let (p, r) = dec_bytes xs in dec_field x p # dec_fields n r)"
| "dec_fields n xs = []"

definition small_api :: "bytes msgpack_api" where
  "small_api = \<lparr>mp_pack = enc_tuple,
     mp_unpack = (\<lambda>b. case scan_fields b of None \<Rightarrow> Unpack_more | Some n \<Rightarrow> Unpacked (take n b) n),
     mp_tuple = (\<lambda>obj ks. let fs = take (length ks) (dec_fields (length obj) obj) in if map kind_of fs = ks then Some fs else None),
     mp_value = V_raw, mp_nil = []\<rparr>"

lemma scan_bytes_enc: "scan_bytes (enc_bytes bs @ r) = map_option (\<lambda>n. n + length (enc_bytes bs)) (scan_fields r)"
  by (induction bs) (auto simp: enc_bytes_def map_option_case split: option.splits)

lemma enc_field_scan: "scan_fields (enc_field f @ r) = map_option (\<lambda>n. n + length (enc_field f)) (scan_fields r)"
  by (cases f) (auto simp: scan_bytes_enc map_option_case split: option.splits)

lemma scan_tuple: "scan_fields (enc_tuple fs @ r) = Some (length (enc_tuple fs))"
  by (induction fs) (auto simp: enc_tuple_def enc_field_scan)

lemma scan_grows:
  "scan_fields b = Some n \<Longrightarrow> n \<le> length b \<and> scan_fields (b @ r) = Some n"
  "scan_bytes b = Some n \<Longrightarrow> n \<le> length b \<and> scan_bytes (b @ r) = Some n"
  by (induction b and b arbitrary: n and n rule: scan_fields_scan_bytes.induct)
    (auto split: if_splits list.splits)

lemma dec_bytes_enc: "dec_bytes (enc_bytes bs @ r) = (bs, r)"
  by (induction bs) (auto simp: enc_bytes_def)

lemma u32_load_store: "load_word bo (store_word bo 4 w) = (w :: u32)"
  by (rule load_store_word) simp

lemma dec_field_enc: "\<exists>tag p. enc_field f = tag # enc_bytes p \<and> tag \<noteq> 9 \<and> dec_field tag p = f"
  by (cases f) (auto simp: dec_field_def intro: u32_load_store)

lemma dec_fields_enc: "length fs < n \<Longrightarrow> dec_fields n (enc_tuple fs) = fs"
proof (induction fs arbitrary: n)
  case Nil
  then show ?case by (cases n) (auto simp: enc_tuple_def)
next
  case (Cons f fs)
  obtain tag p where f: "enc_field f = tag # enc_bytes p" "tag \<noteq> 9" "dec_field tag p = f" using dec_field_enc by blast
  from Cons obtain m where "n = Suc m" "length fs < m" by (cases n) auto
  with Cons.IH [of m] f show ?case by (simp add: enc_tuple_def dec_bytes_enc)
qed

lemma enc_tuple_long: "length fs < length (enc_tuple fs)"
proof -
  have "length fs \<le> length (concat (map enc_field fs))"
  proof (induction fs)
    case (Cons f fs)
    then show ?case using dec_field_enc [of f] by auto
  qed simp
  then show ?thesis by (simp add: enc_tuple_def)
qed

interpretation small: msgpack_lib small_api enc_tuple
proof
  fix fs :: "bytes mp_field list" and b rest and n :: nat
  show "mp_unpack small_api (mp_pack small_api fs @ rest) = Unpacked (enc_tuple fs) (length (mp_pack small_api fs))"
    by (simp add: small_api_def scan_tuple)
  show "mp_pack small_api fs \<noteq> []" by (simp add: small_api_def enc_tuple_def)
  show "strict_prefix b (mp_pack small_api fs) \<Longrightarrow> mp_unpack small_api b = Unpack_more"
  proof -
    assume "strict_prefix b (mp_pack small_api fs)"
    then obtain r where r: "enc_tuple fs = b @ r" "r \<noteq> []" by (auto simp: small_api_def strict_prefix_def prefix_def)
    have "scan_fields b = None"
    proof (cases "scan_fields b")
      case (Some m)
      from scan_grows(1) [OF this, of r] r scan_tuple [of fs "[]"] show ?thesis by simp
    qed
    then show ?thesis by (simp add: small_api_def)
  qed
  show "n \<le> length fs \<Longrightarrow> mp_tuple small_api (enc_tuple fs) (map kind_of (take n fs)) = Some (take n fs)"
    by (simp add: small_api_def dec_fields_enc enc_tuple_long min_def)
qed

text \<open>A process with a connection to a node, and one with a connection that has just been accepted.\<close>

definition two_connections :: "nat cluster" where
  "two_connections = (cluster_new ROLE_SERVER (Address [1, 2, 3, 4, 5, 6, 0, 0]) 4)
     \<lparr>cl_nodes := [0 \<mapsto> node_new], cl_next := 1,
      cl_transports := [5 \<mapsto> \<lparr>t_session = Some (Ref_node 0), t_process_state = Cluster_state\<rparr>,
                        6 \<mapsto> \<lparr>t_session = None, t_process_state = Not_initialised\<rparr>]\<rparr>"

theorem requests_reach_handlers_witness:
  "read_all small_api (submit_message small_api 5)
     [take 7 (concat (map (rpc_pack small_api) (wire_requests [(1, 7, [8]), (2, 9, [])]))),
      drop 7 (concat (map (rpc_pack small_api) (wire_requests [(1, 7, [8]), (2, 9, [])])))] [] (two_connections, []) =
   (None, [], two_connections, [Cluster_dispatch 0 1 7 [8], Cluster_dispatch 0 2 9 []])"
proof -
  have "node_transport 5 0 two_connections" by (simp add: node_transport_def two_connections_def)
  with requests_reach_handlers [OF small.msgpack_lib_axioms,
      of "[take 7 (concat (map (rpc_pack small_api) (wire_requests [(1, 7, [8]), (2, 9, [])]))),
           drop 7 (concat (map (rpc_pack small_api) (wire_requests [(1, 7, [8]), (2, 9, [])])))]" "[(1, 7, [8]), (2, 9, [])]" 5 0 two_connections "[]"]
  show ?thesis by simp
qed

section \<open>A call and its answer\<close>

context msgpack_lib
begin

lemma submit_response:
  assumes "node_transport t i cl" and "cl_nodes cl i = Some n" and "table_ok (m_cbtable (n_session n))"
    and "table_lookup (m_cbtable (n_session n)) msgid = Some e"
  shows "\<exists>cl' n'. submit_message api t (arr (rpc_fields (Rpc_response msgid res err))) (cl, acts) =
      (None, cl', acts @ [Cl (Node_action i (Run_callback msgid (m_callback e) (mp_value api res) (mp_value api err)))]) \<and>
    cl_nodes cl' i = Some n' \<and> table_lookup (m_cbtable (n_session n')) msgid = None"
proof -
  obtain r tab where out: "callback_table_out msgid (m_cbtable (n_session n)) = (r, tab)" by fastforce
  from cbt.out_law [OF assms(3) this] assms(4) have r: "r = Some e" "table_lookup tab msgid = None" by simp_all
  have ty: "MESSAGE_RESPONSE \<noteq> MESSAGE_REQUEST" by (simp add: MESSAGE_REQUEST_def MESSAGE_RESPONSE_def)
  let ?n = "n\<lparr>n_session := (n_session n)\<lparr>m_cbtable := tab\<rparr>\<rparr>"
  have "on_session i (process_response msgid (mp_value api res) (mp_value api err)) cl =
      (put_node i ?n cl, [Node_action i (Run_callback msgid (m_callback e) (mp_value api res) (mp_value api err))])"
    using assms(2) r by (simp add: on_session_def process_response_def out)
  then have "submit_message api t (arr (rpc_fields (Rpc_response msgid res err))) (cl, acts) =
      (None, put_node i ?n cl, acts @ [Cl (Node_action i (Run_callback msgid (m_callback e) (mp_value api res) (mp_value api err)))])"
    using assms(1) ty
    by (auto simp: node_transport_def submit_message_def cluster_state_def process_message_def convert_of_message
        transport_response_def did_def Let_def simp del: rpc_fields.simps)
  then show ?thesis using r(2) by (intro exI [of _ "put_node i ?n cl"] exI [of _ ?n]) (simp add: put_node_def)
qed

lemma read_one:
  assumes "packable (rpc_fields m)" and "submit (arr (rpc_fields m)) s = (None, s')"
  shows "read_all api submit [rpc_pack api m] [] s = (None, [], s')"
  using read_stream [of "[]" "[rpc_pack api m]" "[m]" submit s] assms unpack_nothing by auto

end

text \<open>
  C25: a call over the wire. The request a session sends for a call reaches the handler of the other
  process with the identifier of the call; whatever the handler's responder answers, the bytes it
  gives run the callback of the call, and of no other, with the result and the error of the
  answer, and the call is over.
\<close>

theorem call_over_the_wire:
  assumes "msgpack_lib api arr" and "node_transport t i cl" and "cl_nodes cl i = Some n" and "table_ok (m_cbtable (n_session n))"
    and "session_call m cb steps (n_session n) = (s1, [Send t msgid m])"
    and "node_transport t' j cl'" and "weak_responder_call api (Some ss) msgid res err = Inr (t'', answer)"
  shows "read_all api (submit_message api t') [rpc_pack api (Rpc_request msgid meth param)] [] (cl', acts) =
      (None, [], cl', acts @ [Cluster_dispatch j msgid meth param]) \<and>
    (\<exists>cl2 n2. read_all api (submit_message api t) [answer] [] (put_node i (n\<lparr>n_session := s1\<rparr>) cl, []) =
        (None, [], cl2, [Cl (Node_action i (Run_callback msgid cb (mp_value api res) (mp_value api err)))]) \<and>
      cl_nodes cl2 i = Some n2 \<and> table_lookup (m_cbtable (n_session n2)) msgid = None)"
proof
  have p: "packable (rpc_fields (Rpc_request msgid meth param))" by (simp add: packable_def)
  have "submit_message api t' (arr (rpc_fields (Rpc_request msgid meth param))) (cl', acts) =
      (None, cl', acts @ [Cluster_dispatch j msgid meth param])"
    using msgpack_lib.submit_request(1) [OF assms(1,6), of msgid meth param acts] by simp
  with msgpack_lib.read_one [where submit = "submit_message api t'" and s = "(cl', acts)", OF assms(1) p]
  show "read_all api (submit_message api t') [rpc_pack api (Rpc_request msgid meth param)] [] (cl', acts) =
      (None, [], cl', acts @ [Cluster_dispatch j msgid meth param])" by simp
next
  let ?n = "n\<lparr>n_session := s1\<rparr>" and ?e = "\<lparr>m_timeout_steps = steps, m_callback = cb\<rparr>"
  have s1: "msgid = m_msgid_rr (n_session n) + 1" "m_cbtable s1 = callback_table_insert msgid ?e (m_cbtable (n_session n))"
    using assms(5) by (auto simp: session_call_def register_call_def Let_def split: if_splits)
  with cbt.put_law [OF assms(4), of msgid ?e] have tab: "table_ok (m_cbtable (n_session ?n))"
      "table_lookup (m_cbtable (n_session ?n)) msgid = Some ?e" by simp_all
  have nt: "node_transport t i (put_node i ?n cl)" "cl_nodes (put_node i ?n cl) i = Some ?n"
    using assms(2) by (simp_all add: node_transport_def put_node_def)
  have ans: "answer = rpc_pack api (Rpc_response msgid res err)" and p: "packable (rpc_fields (Rpc_response msgid res err))"
    using assms(7) by (auto simp: weak_responder_call_def packable_def split: sum.splits)
  from msgpack_lib.submit_response [OF assms(1) nt tab, of res err "[]"] obtain cl2 n2 where
    "submit_message api t (arr (rpc_fields (Rpc_response msgid res err))) (put_node i ?n cl, []) =
      (None, cl2, [Cl (Node_action i (Run_callback msgid cb (mp_value api res) (mp_value api err)))])"
    "cl_nodes cl2 i = Some n2" "table_lookup (m_cbtable (n_session n2)) msgid = None" by auto
  with msgpack_lib.read_one [where submit = "submit_message api t" and s = "(put_node i ?n cl, [])", OF assms(1) p] ans
  show "\<exists>cl2 n2. read_all api (submit_message api t) [answer] [] (put_node i ?n cl, []) =
        (None, [], cl2, [Cl (Node_action i (Run_callback msgid cb (mp_value api res) (mp_value api err)))]) \<and>
      cl_nodes cl2 i = Some n2 \<and> table_lookup (m_cbtable (n_session n2)) msgid = None" by blast
qed

theorem call_over_the_wire_witness:
  "\<exists>cl2. read_all small_api (submit_message small_api 5) [rpc_pack small_api (Rpc_response 1 [7] [])] []
     (put_node 0 (node_new\<lparr>n_session := fst (session_call (To_server (S_Get \<lparr>dk_hash = 7, dk_key = [1]\<rparr>)) 44 10 (session_new\<lparr>m_binds := [5]\<rparr>))\<rparr>)
        two_connections, []) =
     (None, [], cl2, [Cl (Node_action 0 (Run_callback 1 44 (V_raw [7]) (V_raw [])))])"
proof -
  let ?s = "session_new\<lparr>m_binds := [5]\<rparr> :: (nat, request) session" and ?m = "To_server (S_Get \<lparr>dk_hash = 7, dk_key = [1]\<rparr>)"
  let ?cl = "put_node 0 (node_new\<lparr>n_session := ?s\<rparr>) two_connections"
  have nt: "node_transport 5 0 ?cl" "node_transport 5 0 two_connections" "cl_nodes ?cl 0 = Some (node_new\<lparr>n_session := ?s\<rparr>)"
    by (simp_all add: node_transport_def two_connections_def put_node_def)
  have tab: "table_ok (m_cbtable (n_session (node_new\<lparr>n_session := ?s\<rparr>)))" by (simp add: session_new_def cbt.new_law)
  have call: "session_call ?m 44 10 (n_session (node_new\<lparr>n_session := ?s\<rparr>)) = (fst (session_call ?m 44 10 ?s), [Send 5 1 ?m])"
    by (simp add: session_call_def register_call_def Let_def session_new_def balance_def)
  have wr: "weak_responder_call small_api (Some ?s) 1 [7] [] = Inr (5, rpc_pack small_api (Rpc_response 1 [7] []))"
    by (simp add: weak_responder_call_def send_data_def balance_def session_new_def)
  have again: "put_node 0 (node_new\<lparr>n_session := ?s, n_session := x\<rparr>) ?cl = put_node 0 (node_new\<lparr>n_session := x\<rparr>) two_connections" for x
    by (simp add: put_node_def)
  have raws: "mp_value small_api b = V_raw b" for b by (simp add: small_api_def)
  from call_over_the_wire [OF small.msgpack_lib_axioms nt(1,3) tab call nt(2) wr, THEN conjunct2]
  show ?thesis unfolding again raws by blast
qed

text \<open>The buffer messages are packed into holds what was written to it, copied or referred to.\<close>

lemma vrefbuffer_contents: "concat (vrefbuffer_vector (vrefbuffer_write base m buf v)) = concat (vrefbuffer_vector v) @ buf"
  by (cases v rule: rev_cases) (auto simp: vrefbuffer_write_def append_copy_def append_ref_def vrefbuffer_vector_def)

section \<open>The kind of session behind a transport\<close>

text \<open>
  A connection that is past its first message has a session, of a client or of a node as its state
  says, and the session is there.
\<close>

definition transport_typed :: "'cb cluster \<Rightarrow> rpc_transport \<Rightarrow> bool" where
  "transport_typed cl tr \<longleftrightarrow>
     (case t_process_state tr of
        Not_initialised \<Rightarrow> (case t_session tr of None \<Rightarrow> True | Some (Ref_node i) \<Rightarrow> cl_nodes cl i \<noteq> None | Some (Ref_peer i) \<Rightarrow> False)
      | Subsys_state \<Rightarrow> (\<exists>i. t_session tr = Some (Ref_peer i) \<and> cl_peer_sessions cl i \<noteq> None)
      | Cluster_state \<Rightarrow> (\<exists>i. t_session tr = Some (Ref_node i) \<and> cl_nodes cl i \<noteq> None))"

definition transports_typed :: "'cb cluster \<Rightarrow> bool" where
  "transports_typed cl \<longleftrightarrow> (\<forall>t tr. cl_transports cl t = Some tr \<longrightarrow> transport_typed cl tr)"

text \<open>Operations that lose no session, and those that keep the transports too.\<close>

definition sessions_kept :: "'cb cluster \<Rightarrow> 'cb cluster \<Rightarrow> bool" where
  "sessions_kept cl cl' \<longleftrightarrow> (\<forall>i. cl_nodes cl i \<noteq> None \<longrightarrow> cl_nodes cl' i \<noteq> None) \<and>
     (\<forall>i. cl_peer_sessions cl i \<noteq> None \<longrightarrow> cl_peer_sessions cl' i \<noteq> None)"

definition transports_kept :: "'cb cluster \<Rightarrow> 'cb cluster \<Rightarrow> bool" where
  "transports_kept cl cl' \<longleftrightarrow> sessions_kept cl cl' \<and> cl_transports cl' = cl_transports cl"

lemma kept_refl [simp]: "sessions_kept cl cl" "transports_kept cl cl"
  by (simp_all add: sessions_kept_def transports_kept_def)

lemma kept_trans:
  "sessions_kept cl cl1 \<Longrightarrow> sessions_kept cl1 cl2 \<Longrightarrow> sessions_kept cl cl2"
  "transports_kept cl cl1 \<Longrightarrow> transports_kept cl1 cl2 \<Longrightarrow> transports_kept cl cl2"
  by (simp_all add: sessions_kept_def transports_kept_def)

lemma transport_typed_kept: "transport_typed cl tr \<Longrightarrow> sessions_kept cl cl' \<Longrightarrow> transport_typed cl' tr"
  by (fastforce simp: transport_typed_def sessions_kept_def split: process_state.splits option.splits session_ref.splits)

lemma transports_typed_kept: "transports_typed cl \<Longrightarrow> transports_kept cl cl' \<Longrightarrow> transports_typed cl'"
  by (auto simp: transports_typed_def transports_kept_def intro: transport_typed_kept)

text \<open>A transport is set: the others stay typed.\<close>

lemma transports_typed_set:
  assumes "transports_typed cl" and "sessions_kept cl cl'" and "cl_transports cl' = (cl_transports cl)(t \<mapsto> tr)" and "transport_typed cl' tr"
  shows "transports_typed cl'"
  using assms transport_typed_kept [OF _ assms(2)] by (auto simp: transports_typed_def)

named_theorems keeps "operations that keep the transports"

lemma put_node_keeps [keeps]: "transports_kept cl (put_node i n cl)"
  by (simp add: transports_kept_def sessions_kept_def put_node_def)

lemma on_session_keeps [keeps]: "transports_kept cl (fst (on_session i f cl))"
  using put_node_keeps by (auto simp: on_session_def case_prod_beta split: option.splits)

lemma async_connect_keeps [keeps]: "transports_kept cl (fst (snd (async_connect a i cl)))"
  using put_node_keeps by (auto simp: async_connect_def split: option.splits)

lemma get_session_impl_keeps [keeps]: "transports_kept cl (fst (snd (get_session_impl c a cl)))"
proof -
  let ?cl = "cl\<lparr>cl_sessions := sessions_insert a (cl_next cl) (filter (\<lambda>x. fst x \<noteq> a) (cl_sessions cl)),
    cl_nodes := (cl_nodes cl)(cl_next cl \<mapsto> node_new), cl_next := Suc (cl_next cl)\<rparr>"
  have "transports_kept cl ?cl" by (simp add: transports_kept_def sessions_kept_def)
  from kept_trans(2) [OF this async_connect_keeps [of ?cl a "cl_next cl"]] this show ?thesis
    by (auto simp: get_session_impl_def Let_def case_prod_beta split: option.splits)
qed

lemma get_node_keeps [keeps]: "transports_kept cl (fst (snd (get_node a cl)))"
  using get_session_impl_keeps [of cl True a] kept_trans(2) [OF get_session_impl_keeps [of cl True a] put_node_keeps]
  by (auto simp: get_node_def get_session_def case_prod_beta split: option.splits)

lemma transport_lost_keeps [keeps]: "transports_kept cl (fst (transport_lost i cl))"
  using on_session_keeps [of cl i] async_connect_keeps [of cl _ i]
  by (auto simp: transport_lost_def client_transport_lost_def case_prod_beta split: option.splits)

lemma transport_lost_notify_keeps [keeps]: "transports_kept cl (fst (transport_lost_notify r cl))"
proof (cases r)
  case (Ref_peer i)
  then show ?thesis by (auto simp: transport_lost_notify_def peer_lost_notify_def transports_kept_def sessions_kept_def case_prod_beta split: option.splits)
qed (simp add: transport_lost_notify_def transport_lost_keeps)

lemma bind_session_keeps [keeps]: "transports_kept cl (fst (bind_session r t cl))"
proof (cases r)
  case (Ref_peer i)
  then show ?thesis by (auto simp: bind_session_def transports_kept_def sessions_kept_def split: option.splits)
qed (simp add: bind_session_def on_session_keeps)

lemma introduce_keeps [keeps]: "transports_kept cl (fst (introduce i a r cl))"
  using put_node_keeps by (auto simp: introduce_def case_prod_beta split: option.splits)

lemma step_timeout_keeps [keeps]: "transports_kept cl (snd (peers_step_timeout (snd (cluster_step_timeout cl))))"
  by (simp add: transports_kept_def sessions_kept_def peers_step_timeout_def cluster_step_timeout_def Let_def)

section \<open>Connections keep the kinds\<close>

lemma transport_accepted_typed: "transports_typed cl \<Longrightarrow> transports_typed (fst (transport_accepted t cl))"
  by (rule transports_typed_set [of cl _ t "\<lparr>t_session = None, t_process_state = Not_initialised\<rparr>"])
    (simp_all add: transport_accepted_def sessions_kept_def transport_typed_def)

lemma transport_connected_typed:
  assumes "transports_typed cl" and "cl_nodes cl i \<noteq> None"
  shows "transports_typed (fst (transport_connected t i cl))"
proof -
  let ?tr = "\<lparr>t_session = Some (Ref_node i), t_process_state = Not_initialised\<rparr>"
  let ?cl = "cl\<lparr>cl_transports := (cl_transports cl)(t \<mapsto> ?tr)\<rparr>"
  have "transports_typed ?cl"
    by (rule transports_typed_set [OF assms(1), of _ t ?tr]) (use assms(2) in \<open>simp_all add: sessions_kept_def transport_typed_def\<close>)
  from transports_typed_kept [OF this bind_session_keeps] show ?thesis by (simp add: transport_connected_def Let_def case_prod_beta)
qed

lemma connect_callback_typed:
  assumes "transports_typed cl" and "cl_nodes cl i \<noteq> None"
  shows "transports_typed (fst (connect_callback a i fd cl))"
  using transport_connected_typed [OF assms] transports_typed_kept [OF assms(1) transport_lost_keeps]
    transports_typed_kept [OF assms(1) async_connect_keeps] assms(1)
  by (auto simp: connect_callback_def split: option.splits)

lemma transport_closed_typed:
  assumes "transports_typed cl"
  shows "transports_typed (fst (transport_closed t cl))"
proof -
  let ?cl = "cl\<lparr>cl_transports := (cl_transports cl)(t := None)\<rparr>"
  have cl: "transports_typed ?cl"
    using assms transport_typed_kept [of cl _ ?cl] by (auto simp: transports_typed_def sessions_kept_def split: if_splits)
  have "transports_kept ?cl (?cl\<lparr>cl_peer_sessions := (cl_peer_sessions ?cl)(i \<mapsto> s)\<rparr>)" for i s
    by (simp add: transports_kept_def sessions_kept_def)
  from transports_typed_kept [OF cl this] transports_typed_kept [OF cl on_session_keeps] cl assms show ?thesis
    by (auto simp: transport_closed_def Let_def case_prod_beta split: option.splits session_ref.splits)
qed

lemma create_session_node: "cl_nodes (fst (snd (create_session a cl))) (fst (create_session a cl)) \<noteq> None"
proof (cases "find_session a cl")
  case None
  then show ?thesis by (simp add: create_session_def get_session_impl_def Let_def)
next
  case (Some i)
  then have "session_is_active (cl_nodes cl i)" by (auto simp: find_session_def find_Some_iff)
  with Some show ?thesis by (auto simp: create_session_def get_session_impl_def session_is_active_def split: option.splits)
qed

text \<open>A transport gets its session and its state.\<close>

lemma settle_transport:
  assumes "transports_typed cl" and "sessions_kept cl cl1" and "cl_transports cl1 = cl_transports cl"
    and "transports_kept (fst (rebind r t tr cl1)) cl2"
    and "ps = Subsys_state \<and> r = Ref_peer i \<and> cl_peer_sessions cl1 i \<noteq> None \<or> ps = Cluster_state \<and> r = Ref_node i \<and> cl_nodes cl1 i \<noteq> None"
  shows "transports_typed (set_process_state t ps cl2) \<and> cl_transports (set_process_state t ps cl2) t \<noteq> None"
proof -
  let ?tr = "tr\<lparr>t_session := Some r\<rparr>" and ?cl = "set_process_state t ps cl2"
  let ?cl1 = "cl1\<lparr>cl_transports := (cl_transports cl1)(t \<mapsto> ?tr)\<rparr>"
  have k: "transports_kept ?cl1 cl2" using kept_trans(2) [OF bind_session_keeps assms(4) [unfolded rebind_def]] .
  then have tr: "cl_transports ?cl = (cl_transports cl)(t \<mapsto> ?tr\<lparr>t_process_state := ps\<rparr>)"
    using assms(3) by (auto simp: transports_kept_def set_process_state_def)
  have "sessions_kept cl1 ?cl" using k by (simp add: transports_kept_def sessions_kept_def set_process_state_def)
  then have kept: "sessions_kept cl ?cl" and typed: "transport_typed ?cl (?tr\<lparr>t_process_state := ps\<rparr>)"
    using assms(2,5) by (auto simp: sessions_kept_def transport_typed_def)
  from transports_typed_set [OF assms(1) kept tr typed] tr show ?thesis by simp
qed

lemma init_subsys_typed:
  assumes "transports_typed cl" and "cl_transports cl t = Some tr" and "init_subsys t tr cl = (e, out)"
  shows "e \<noteq> Some Undefined_behaviour \<and> transports_typed (fst out) \<and> cl_transports (fst out) t \<noteq> None"
proof (cases "t_session tr")
  case None
  obtain i cl1 where new: "add_peer_session cl = (i, cl1)" by fastforce
  then have cl1: "sessions_kept cl cl1" "cl_transports cl1 = cl_transports cl" "cl_peer_sessions cl1 i \<noteq> None"
    by (auto simp: add_peer_session_def Let_def sessions_kept_def)
  have "fst out = set_process_state t Subsys_state (fst (rebind (Ref_peer i) t tr cl1))" "e = None"
    using assms(3) None new by (auto simp: init_subsys_def case_prod_beta)
  with settle_transport [OF assms(1) cl1(1,2) kept_refl(2), where ps = Subsys_state and i = i] cl1(3) show ?thesis by auto
qed (use assms in \<open>auto simp: init_subsys_def\<close>)

lemma init_cluster_typed:
  assumes "transports_typed cl" and "cl_transports cl t = Some tr" and "t_process_state tr = Not_initialised"
    and "init_cluster t tr a r cl = (e, out)"
  shows "e \<noteq> Some Undefined_behaviour \<and> transports_typed (fst out) \<and> cl_transports (fst out) t \<noteq> None"
proof -
  have typed: "transport_typed cl tr" using assms(1,2) by (simp add: transports_typed_def)
  show ?thesis
  proof (cases "t_session tr")
    case None
    obtain i cl1 a1 where new: "create_session a cl = (i, cl1, a1)" by (cases "create_session a cl") auto
    have cl1: "sessions_kept cl cl1" "cl_transports cl1 = cl_transports cl" "cl_nodes cl1 i \<noteq> None"
      using get_session_impl_keeps [of cl False a] create_session_node [of a cl] new
      by (auto simp: create_session_def transports_kept_def)
    show ?thesis
    proof (cases "connectable a")
      case True
      have "fst out = set_process_state t Cluster_state (fst (introduce i a r (fst (rebind (Ref_node i) t tr cl1))))" "e = None"
        using assms(4) None new True by (auto simp: init_cluster_def case_prod_beta)
      with settle_transport [OF assms(1) cl1(1,2) introduce_keeps, where ps = Cluster_state and i = i] cl1(3) show ?thesis by auto
    qed (use assms None in \<open>auto simp: init_cluster_def\<close>)
  next
    case (Some ref)
    with typed assms(3) obtain i where i: "ref = Ref_node i" "cl_nodes cl i \<noteq> None"
      by (cases ref) (auto simp: transport_typed_def)
    let ?cl = "fst (introduce i a r cl)"
    have k: "transports_kept cl ?cl" by (rule introduce_keeps)
    have out: "fst out = set_process_state t Cluster_state ?cl" "e = None"
      using assms(4) Some i by (auto simp: init_cluster_def case_prod_beta)
    have "cl_transports (fst out) = (cl_transports cl)(t \<mapsto> tr\<lparr>t_process_state := Cluster_state\<rparr>)" "sessions_kept cl (fst out)"
      using k assms(2) by (auto simp: out set_process_state_def transports_kept_def sessions_kept_def)
    moreover from this(2) have "transport_typed (fst out) (tr\<lparr>t_process_state := Cluster_state\<rparr>)"
      using i Some by (auto simp: transport_typed_def sessions_kept_def)
    ultimately show ?thesis using transports_typed_set [OF assms(1)] out(2) by auto
  qed
qed

lemma transport_response_typed:
  assumes "transports_typed (fst s)" and "cl_transports (fst s) t = Some tr" and "t_process_state tr \<noteq> Not_initialised"
    and "transport_response api t res err msgid s = (e, s')"
  shows "e \<noteq> Some Undefined_behaviour \<and> transports_typed (fst s') \<and> cl_transports (fst s') t \<noteq> None"
proof -
  obtain cl acts where s: "s = (cl, acts)" by fastforce
  have "transport_typed cl tr" using assms(1,2) by (simp add: transports_typed_def s)
  then consider i where "t_session tr = Some (Ref_node i)" | i ss where "t_session tr = Some (Ref_peer i)" "cl_peer_sessions cl i = Some ss"
    using assms(3) by (auto simp: transport_typed_def split: process_state.splits)
  then show ?thesis
  proof cases
    case (1 i)
    with assms(2,4) have "e = None" "fst s' = fst (on_session i (process_response msgid (mp_value api res) (mp_value api err)) cl)"
      by (auto simp: transport_response_def s did_def Let_def)
    with on_session_keeps [of cl i] transports_typed_kept assms(1,2) show ?thesis by (auto simp: s transports_kept_def)
  next
    case (2 i ss)
    with assms(2,4) obtain ss' where "e = None" "fst s' = cl\<lparr>cl_peer_sessions := (cl_peer_sessions cl)(i \<mapsto> ss')\<rparr>"
      by (auto simp: transport_response_def s did_def case_prod_beta Let_def)
    moreover have "transports_kept cl (cl\<lparr>cl_peer_sessions := (cl_peer_sessions cl)(i \<mapsto> ss')\<rparr>)"
      by (simp add: transports_kept_def sessions_kept_def)
    from transports_typed_kept [OF _ this] have "transports_typed (cl\<lparr>cl_peer_sessions := (cl_peer_sessions cl)(i \<mapsto> ss')\<rparr>)"
      using assms(1) by (simp add: s)
    ultimately show ?thesis using assms(2) by (simp add: s)
  qed
qed

lemma convert_errors:
  "convert_message api msg = Inl e \<Longrightarrow> e = Type_error"
  "convert_request api msg = Inl e \<Longrightarrow> e = Type_error"
  "convert_response api msg = Inl e \<Longrightarrow> e = Type_error"
  "convert_initmsg api msg = Inl e \<Longrightarrow> e = Type_error"
  by (auto simp: convert_message_def convert_request_def convert_response_def convert_initmsg_def
      split: option.splits list.splits mp_field.splits)

definition typed_at :: "nat \<Rightarrow> 'cb cluster \<Rightarrow> bool" where
  "typed_at t cl \<longleftrightarrow> transports_typed cl \<and> cl_transports cl t \<noteq> None"

lemma process_message_keeps:
  assumes "process_message api request response msg s = (e, s')" and "Q (Some Type_error) s"
    and "\<And>meth param msgid e s'. request meth param msgid s = (e, s') \<Longrightarrow> Q e s'"
    and "\<And>res err msgid e s'. response res err msgid s = (e, s') \<Longrightarrow> Q e s'"
  shows "Q e s'"
  using assms by (auto simp: process_message_def split: sum.splits if_splits prod.splits dest!: convert_errors)

lemma state_message_typed:
  assumes "transports_typed (fst s)" and "cl_transports (fst s) t = Some tr"
  shows "t_process_state tr = Subsys_state \<Longrightarrow> subsys_state api t msg s = (e, s') \<Longrightarrow> e \<noteq> Some Undefined_behaviour \<and> typed_at t (fst s')"
    and "t_process_state tr = Cluster_state \<Longrightarrow> cluster_state api t msg s = (e, s') \<Longrightarrow> e \<noteq> Some Undefined_behaviour \<and> typed_at t (fst s')"
proof -
  have typed: "transport_typed (fst s) tr" using assms by (simp add: transports_typed_def)
  have resp: "e \<noteq> Some Undefined_behaviour \<and> typed_at t (fst s')"
    if "t_process_state tr \<noteq> Not_initialised" "transport_response api t res err msgid s = (e, s')" for res err msgid e s'
    using transport_response_typed [OF assms that] by (simp add: typed_at_def)
  show "t_process_state tr = Subsys_state \<Longrightarrow> subsys_state api t msg s = (e, s') \<Longrightarrow> e \<noteq> Some Undefined_behaviour \<and> typed_at t (fst s')"
    unfolding subsys_state_def
    by (erule process_message_keeps) (use assms typed resp in \<open>auto simp: subsys_request_def transport_typed_def typed_at_def\<close>)
  show "t_process_state tr = Cluster_state \<Longrightarrow> cluster_state api t msg s = (e, s') \<Longrightarrow> e \<noteq> Some Undefined_behaviour \<and> typed_at t (fst s')"
    unfolding cluster_state_def
    by (erule process_message_keeps) (use assms typed resp in \<open>auto simp: cluster_request_def transport_typed_def typed_at_def\<close>)
qed

lemma init_subsys_state:
  "init_subsys t tr cl = (None, out) \<Longrightarrow> cl_transports (fst out) t \<noteq> None \<Longrightarrow>
   \<exists>tr'. cl_transports (fst out) t = Some tr' \<and> t_process_state tr' = Subsys_state"
  by (auto simp: init_subsys_def case_prod_beta set_process_state_def split: if_splits)

lemma submit_message_typed:
  assumes "typed_at t (fst s)" and "submit_message api t msg s = (e, s')"
  shows "e \<noteq> Some Undefined_behaviour \<and> typed_at t (fst s')"
proof -
  obtain cl acts where s: "s = (cl, acts)" by fastforce
  obtain tr where tr: "cl_transports cl t = Some tr" and typed: "transports_typed cl" using assms(1) by (auto simp: typed_at_def s)
  show ?thesis
  proof (cases "t_process_state tr")
    case Not_initialised
    then have ini: "transport_init_message api t msg s = (e, s')" using assms(2) tr by (simp add: submit_message_def s)
    show ?thesis
    proof (cases "convert_message api msg")
      case (Inr ty)
      show ?thesis
      proof (cases "ty = CLUSTER_INIT")
        case False
        obtain e1 out where io: "init_subsys t tr cl = (e1, out)" by (metis surj_pair)
        note ok = init_subsys_typed [OF typed tr io]
        show ?thesis
        proof (cases e1)
          case None
          with ini Inr False io tr have ss: "subsys_state api t msg (did out acts) = (e, s')"
            by (simp add: transport_init_message_def s init_message_def)
          from init_subsys_state [OF io [unfolded None]] ok obtain tr' where
            "cl_transports (fst out) t = Some tr'" "t_process_state tr' = Subsys_state" by blast
          with state_message_typed(1) [of "did out acts" t tr' api msg e s'] ss ok show ?thesis by (simp add: did_def)
        next
          case (Some x)
          with ini Inr False io tr ok show ?thesis
            by (auto simp: transport_init_message_def s init_message_def did_def typed_at_def)
        qed
      next
        case True
        show ?thesis
        proof (cases "convert_initmsg api msg")
          case Inl: (Inl x)
          with ini Inr True assms(1) show ?thesis by (auto simp: transport_init_message_def s dest!: convert_errors)
        next
          case conv: (Inr rr)
          obtain raw r where rr: "rr = (raw, r)" by fastforce
          show ?thesis
          proof (cases "address_of_dump raw")
            case (Inl x)
            with ini Inr True conv rr assms(1) show ?thesis
              by (auto simp: transport_init_message_def s address_of_dump_def split: if_splits)
          next
            case addr: (Inr a)
            obtain e1 out where io: "init_cluster t tr a r cl = (e1, out)" by (metis surj_pair)
            with ini Inr True conv rr addr tr have "e = e1" "s' = did out acts"
              by (auto simp: transport_init_message_def s init_message_def)
            with init_cluster_typed [OF typed tr Not_initialised io] show ?thesis by (simp add: did_def typed_at_def)
          qed
        qed
      qed
    qed (use ini assms(1) in \<open>auto simp: transport_init_message_def s dest!: convert_errors\<close>)
  next
    case Subsys_state
    with state_message_typed(1) [of s t tr] typed tr assms(2) show ?thesis by (auto simp: submit_message_def s)
  next
    case Cluster_state
    with state_message_typed(2) [of s t tr] typed tr assms(2) show ?thesis by (auto simp: submit_message_def s)
  qed
qed

lemma execute_loop_keeps:
  assumes "\<And>msg s e s'. P s \<Longrightarrow> submit msg s = (e, s') \<Longrightarrow> e \<noteq> Some Undefined_behaviour \<and> P s'"
    and "\<And>bs msg n. mp_unpack api bs = Unpacked msg n \<Longrightarrow> 0 < n \<and> n \<le> length bs"
    and "P s" and "execute_loop api submit buf s = (e, b, s')"
  shows "e \<noteq> Some Undefined_behaviour \<and> P s'"
  using assms(3,4)
proof (induction buf arbitrary: s rule: length_induct)
  case (1 buf)
  show ?case
  proof (cases "mp_unpack api buf")
    case (Unpacked msg n)
    with assms(2) have n: "0 < n" "n \<le> length buf" "buf \<noteq> []" by fastforce+
    obtain e1 s1 where sub: "submit msg s = (e1, s1)" by fastforce
    with assms(1) 1(2) have ok: "e1 \<noteq> Some Undefined_behaviour" "P s1" by blast+
    show ?thesis
    proof (cases e1)
      case None
      with 1(3) Unpacked n sub have "execute_loop api submit (drop n buf) s1 = (e, b, s')" by (simp add: execute_loop.simps [of api submit buf])
      with "1.IH" [rule_format, of "drop n buf" s1] n ok(2) show ?thesis by simp
    next
      case (Some x)
      with 1(3) Unpacked n sub ok show ?thesis by (simp add: execute_loop.simps [of api submit buf])
    qed
  qed (use 1 in \<open>auto simp: execute_loop.simps [of api submit buf]\<close>)
qed

lemma read_event_keeps:
  assumes "\<And>msg s e s'. P s \<Longrightarrow> submit msg s = (e, s') \<Longrightarrow> e \<noteq> Some Undefined_behaviour \<and> P s'"
    and "\<And>bs msg n. mp_unpack api bs = Unpacked msg n \<Longrightarrow> 0 < n \<and> n \<le> length bs"
    and "P s" and "read_event api submit ans buf s = (e, b, s')"
  shows "e \<noteq> Some Undefined_behaviour \<and> P s'"
proof (cases ans)
  case (Read_bytes bs)
  then have ex: "execute_loop api submit (buf @ bs) s = (e, b, s')" using assms(4) by (simp add: read_event_def)
  show ?thesis by (rule execute_loop_keeps [of P submit api s "buf @ bs"]) (fact assms ex)+
qed (use assms(3,4) in \<open>auto simp: read_event_def connection_closed_error_def connection_broken_error_def\<close>)

lemma read_event_typed:
  assumes "\<And>bs msg n. mp_unpack api bs = Unpacked msg n \<Longrightarrow> 0 < n \<and> n \<le> length bs"
    and "typed_at t (fst s)" and "read_event api (submit_message api t) ans buf s = (e, b, s')"
  shows "e \<noteq> Some Undefined_behaviour \<and> typed_at t (fst s')"
proof (rule read_event_keeps [of "\<lambda>s. typed_at t (fst s)", OF _ assms])
  show "e \<noteq> Some Undefined_behaviour \<and> typed_at t (fst s')"
    if "typed_at t (fst s)" "submit_message api t msg s = (e, s')" for msg s e s'
    using that by (rule submit_message_typed)
qed

section \<open>Runs with connections\<close>

text \<open>
  The events of a cluster, where first messages come from the bytes that are read: a connection is
  made for a node that is there, and a session goes when no transport holds it.
\<close>

fun conn_env :: "'cb cluster_event \<Rightarrow> 'cb cluster \<Rightarrow> bool" where
  "conn_env (CE_init t msg) cl = False"
| "conn_env (CE_connected a i fd) cl = (cl_nodes cl i \<noteq> None)"
| "conn_env (CE_destroyed i) cl = (\<forall>t tr. cl_transports cl t = Some tr \<longrightarrow> t_session tr \<noteq> Some (Ref_node i))"
| "conn_env ev cl = True"

text \<open>The unpacker of a new transport is empty.\<close>

fun new_unpacker :: "'cb cluster_event \<Rightarrow> (nat \<Rightarrow> bytes) \<Rightarrow> nat \<Rightarrow> bytes" where
  "new_unpacker (CE_accepted t) b = b(t := [])"
| "new_unpacker (CE_connected a i (Some t)) b = b(t := [])"
| "new_unpacker ev b = b"

inductive conn_reach :: "'o msgpack_api \<Rightarrow> (nat \<Rightarrow> bytes) \<Rightarrow> 'cb cluster \<Rightarrow> bool" for api where
  conn_start: "conn_reach api (\<lambda>t. []) (cluster_new r addr limit)"
| conn_event: "conn_reach api b cl \<Longrightarrow> conn_env ev cl \<Longrightarrow> conn_reach api (new_unpacker ev b) (fst (cluster_apply ev cl))"
| conn_read: "conn_reach api b cl \<Longrightarrow> cl_transports cl t \<noteq> None \<Longrightarrow>
    transport_read_event api t ans (b, cl, []) = (b', cl', acts) \<Longrightarrow> conn_reach api b' cl'"

lemma cluster_apply_typed:
  assumes "transports_typed cl" and "conn_env ev cl"
  shows "transports_typed (fst (cluster_apply ev cl))"
proof (cases ev)
  case (CE_destroyed i)
  let ?cl = "fst (on_session i session_destroy cl)\<lparr>cl_nodes := (cl_nodes cl)(i := None)\<rparr>"
  have k: "transports_kept cl (fst (on_session i session_destroy cl))" by (rule on_session_keeps)
  have "transport_typed ?cl tr" if "cl_transports cl t = Some tr" for t tr
  proof -
    have "transport_typed cl tr" "t_session tr \<noteq> Some (Ref_node i)" using assms that CE_destroyed by (auto simp: transports_typed_def)
    with k show ?thesis
      by (auto simp: transport_typed_def transports_kept_def sessions_kept_def split: process_state.splits option.splits session_ref.splits)
  qed
  with k CE_destroyed show ?thesis by (auto simp: transports_typed_def transports_kept_def)
qed (use assms in \<open>auto intro: transports_typed_kept keeps connect_callback_typed transport_accepted_typed transport_closed_typed\<close>)

lemma conn_reach_typed:
  assumes "conn_reach api b cl" and "\<And>bs msg n. mp_unpack api bs = Unpacked msg n \<Longrightarrow> 0 < n \<and> n \<le> length bs"
  shows "transports_typed cl"
  using assms(1)
proof (induction rule: conn_reach.induct)
  case (conn_start r addr limit)
  show ?case by (simp add: transports_typed_def cluster_new_def)
next
  case (conn_event b cl ev)
  then show ?case by (simp add: cluster_apply_typed)
next
  case (conn_read b cl t ans b' cl' acts)
  obtain e buf s where re: "read_event api (submit_message api t) ans (b t) (cl, []) = (e, buf, s)"
    by (metis prod_cases3)
  have "typed_at t (fst s)"
    using read_event_typed [OF assms(2) _ re] conn_read(2,4) by (simp add: typed_at_def)
  then have "transports_typed (fst s)" by (simp add: typed_at_def)
  moreover have "cl' = (case e of None \<Rightarrow> fst s | Some _ \<Rightarrow> fst (transport_closed t (fst s)))"
    using conn_read(3) re by (auto simp: transport_read_event_def did_def split: option.splits)
  ultimately show ?case using transport_closed_typed by (auto split: option.splits)
qed

text \<open>
  C35: the casts of the connections are right. In every reachable state of a process the session
  behind a connection of a client is a client's, the session behind a connection of a node is a
  node's, both are there, and a connection in its first state has none or that of the node it was
  made for; so whatever bytes arrive on an open connection, in any state, reading them never
  follows a null or a wrongly cast session.
\<close>

theorem connection_sessions_typed:
  assumes "conn_reach api b cl" and "\<And>bs msg n. mp_unpack api bs = Unpacked msg n \<Longrightarrow> 0 < n \<and> n \<le> length bs"
    and "cl_transports cl t = Some tr"
  shows "(t_process_state tr = Subsys_state \<longrightarrow> (\<exists>i. t_session tr = Some (Ref_peer i) \<and> cl_peer_sessions cl i \<noteq> None)) \<and>
    (t_process_state tr = Cluster_state \<longrightarrow> (\<exists>i. t_session tr = Some (Ref_node i) \<and> cl_nodes cl i \<noteq> None)) \<and>
    (t_process_state tr = Not_initialised \<longrightarrow> t_session tr = None \<or> (\<exists>i. t_session tr = Some (Ref_node i) \<and> cl_nodes cl i \<noteq> None)) \<and>
    fst (read_event api (submit_message api t) ans (b t) (cl, [])) \<noteq> Some Undefined_behaviour"
proof -
  have typed: "transports_typed cl" using conn_reach_typed [OF assms(1,2)] .
  then have tt: "transport_typed cl tr" using assms(3) by (simp add: transports_typed_def)
  obtain e buf s where re: "read_event api (submit_message api t) ans (b t) (cl, []) = (e, buf, s)"
    by (metis prod_cases3)
  have "e \<noteq> Some Undefined_behaviour"
    using read_event_typed [OF assms(2) _ re] typed assms(3) by (simp add: typed_at_def)
  with tt re show ?thesis by (auto simp: transport_typed_def split: option.splits session_ref.splits)
qed

lemma small_unpack: "mp_unpack small_api bs = Unpacked msg n \<Longrightarrow> 0 < n \<and> n \<le> length bs"
proof -
  have "scan_fields bs = Some n \<Longrightarrow> 0 < n" by (cases bs) (auto split: if_splits)
  moreover assume "mp_unpack small_api bs = Unpacked msg n"
  then have "scan_fields bs = Some n" by (auto simp: small_api_def split: option.splits)
  ultimately show ?thesis using scan_grows(1) by simp
qed

theorem connection_sessions_typed_witness:
  "fst (read_event small_api (submit_message small_api 6) (Read_bytes [9, 9, 9]) [] (fst (transport_accepted 6
      (cluster_new ROLE_SERVER (Address [1, 2, 3, 4, 5, 6, 0, 0]) 4 :: nat cluster)), [])) \<noteq> Some Undefined_behaviour"
proof -
  let ?cl = "cluster_new ROLE_SERVER (Address [1, 2, 3, 4, 5, 6, 0, 0]) 4 :: nat cluster"
  have r: "conn_reach small_api ((\<lambda>t. [])(6 := [])) (fst (transport_accepted 6 ?cl))"
    using conn_event [OF conn_start, of "CE_accepted 6"] by simp
  have "cl_transports (fst (transport_accepted 6 ?cl)) 6 = Some \<lparr>t_session = None, t_process_state = Not_initialised\<rparr>"
    by (simp add: transport_accepted_def)
  from connection_sessions_typed [OF r small_unpack this, where ans = "Read_bytes [9, 9, 9]"] show ?thesis by simp
qed

end
