(* ===== verification/Kazuhiki.thy ===== *)
theory Kazuhiki
  imports Address Tchdb "HOL-Library.Char_ord"
begin

text \<open>
  The parser of command lines (\<open>kazuhiki/kazuhiki.cc\<close>, \<open>kazuhiki.h\<close>). An option has a parse
  function that writes to variables; the variables of a process are a state \<open>'st\<close>, and the parse
  function takes the arguments that follow the option. \<open>getaddrinfo\<close> is a parameter.
\<close>

section \<open>Errors\<close>

text \<open>
  \<open>invalid_argument_real\<close> with its message, \<open>unknown_argument\<close>, other runtime errors, and
  undefined behaviour.
\<close>

datatype arg_error = Invalid_argument string | Unknown_argument string | Arg_runtime string | Arg_undefined

type_synonym 'a arg_result = "arg_error + 'a"

text \<open>\<open>parser::raise\<close> formats into a buffer of 256 bytes.\<close>

definition arg_raise :: "string \<Rightarrow> 'a arg_result" where
  "arg_raise msg = Inl (Invalid_argument (take 255 msg))"

definition arg_setkey :: "string \<Rightarrow> arg_error \<Rightarrow> arg_error" where
  "arg_setkey k e = (case e of Invalid_argument msg \<Rightarrow> Invalid_argument (''argument error `'' @ k @ [CHR 0x27] @ '': '' @ msg) | _ \<Rightarrow> e)"

section \<open>Commands\<close>

text \<open>
  \<open>acceptable\<close>: the parse function gives how many of the following arguments it has used.
\<close>

type_synonym 'st arg_parse = "string list \<Rightarrow> 'st \<Rightarrow> (nat \<times> 'st) arg_result"

record 'st acceptable =
  ac_parse :: "'st arg_parse"
  ac_required :: bool

text \<open>
  An entry of the map. The short and the long name of an option share the boolean behind
  \<open>shared_required\<close>, which is the number of a cell here; \<open>optional\<close>, a pointer to a variable, is
  the function that assigns the variable.
\<close>

record 'st arg_entry =
  shared_required :: nat
  optional_flag :: "(bool \<Rightarrow> 'st \<Rightarrow> 'st) option"
  en_ac :: "'st acceptable"

record 'st command =
  cmd_map :: "(string \<times> 'st arg_entry) list"
  cmd_required :: "nat \<Rightarrow> bool"
  cmd_next :: nat

definition command_new :: "'st command" where
  "command_new = \<lparr>cmd_map = [], cmd_required = (\<lambda>i. False), cmd_next = 0\<rparr>"

text \<open>\<open>std::map\<close>: pairs in the order of their keys, an assignment replaces.\<close>

fun map_assign :: "string \<Rightarrow> 'v \<Rightarrow> (string \<times> 'v) list \<Rightarrow> (string \<times> 'v) list" where
  "map_assign k v [] = [(k, v)]"
| "map_assign k v ((k', v') # m) =
     (if k < k' then (k, v) # (k', v') # m
      else if k = k' then (k, v) # m
      else (k', v') # map_assign k v m)"

definition set_flag :: "(bool \<Rightarrow> 'st \<Rightarrow> 'st) option \<Rightarrow> bool \<Rightarrow> 'st \<Rightarrow> 'st" where
  "set_flag flg b st = (case flg of None \<Rightarrow> st | Some put \<Rightarrow> put b st)"

definition command_on ::
    "string \<Rightarrow> string \<Rightarrow> (bool \<Rightarrow> 'st \<Rightarrow> 'st) option \<Rightarrow> 'st acceptable \<Rightarrow> 'st command \<times> 'st \<Rightarrow> 'st command \<times> 'st" where
  "command_on short_name long_name optional ac cs =
     (let (cmd, st) = cs; e = \<lparr>shared_required = cmd_next cmd, optional_flag = optional, en_ac = ac\<rparr>
      in (cmd\<lparr>cmd_map := map_assign long_name e (map_assign short_name e (cmd_map cmd)),
              cmd_required := (cmd_required cmd)(cmd_next cmd := ac_required ac),
              cmd_next := cmd_next cmd + 1\<rparr>, set_flag optional False st))"

text \<open>The option was given: it is not missing any more, and its flag is set.\<close>

definition mark_given :: "'st arg_entry \<Rightarrow> 'st command \<Rightarrow> 'st command" where
  "mark_given e cmd = cmd\<lparr>cmd_required := (cmd_required cmd)(shared_required e := False)\<rparr>"

text \<open>
  The loop of \<open>parse_real\<close>. The parse method either steps over the option and its arguments or
  cuts them out of \<open>argv\<close>, where more arguments than there are would move a negative number of
  pointers; the fail method steps over an unknown argument or throws.
\<close>

datatype parse_method = Parse_through | Parse_break
datatype fail_method = Fail_through | Fail_exception

function parse_loop ::
    "parse_method \<Rightarrow> fail_method \<Rightarrow> string list \<Rightarrow> nat \<Rightarrow> 'st command \<times> 'st \<Rightarrow> (string list \<times> 'st command \<times> 'st) arg_result" where
  "parse_loop pm fm argv i cs =
     (if length argv \<le> i then Inr (argv, cs)
      else case map_of (cmd_map (fst cs)) (argv ! i) of
          None \<Rightarrow> (case fm of Fail_through \<Rightarrow> parse_loop pm fm argv (i + 1) cs
                    | Fail_exception \<Rightarrow> Inl (Unknown_argument (''unexpected argument: '' @ argv ! i)))
        | Some e \<Rightarrow>
            (case ac_parse (en_ac e) (drop (i + 1) argv) (snd cs) of
               Inl err \<Rightarrow> Inl (arg_setkey (argv ! i) err)
             | Inr (s, st) \<Rightarrow>
                 (let cs' = (mark_given e (fst cs), set_flag (optional_flag e) True st)
                  in case pm of
                    Parse_through \<Rightarrow> parse_loop pm fm argv (i + (s + 1)) cs'
                  | Parse_break \<Rightarrow>
                      if length argv < i + (s + 1) then Inl Arg_undefined
                      else parse_loop pm fm (take i argv @ drop (i + (s + 1)) argv) i cs')))"
  by pat_completeness auto
termination
  by (relation "measure (\<lambda>(pm, fm, argv, i, cs). length argv - i)") auto

declare parse_loop.simps [simp del]

text \<open>
  The options that are missing, from the last name of the map to the first; the flag two names
  share is cleared when the first of them is reported.
\<close>

fun missing_options :: "(string \<times> 'st arg_entry) list \<Rightarrow> (nat \<Rightarrow> bool) \<Rightarrow> string list \<times> (nat \<Rightarrow> bool)" where
  "missing_options [] req = ([], req)"
| "missing_options ((k, e) # m) req =
     (if req (shared_required e) \<and> optional_flag e = None
      then let (ks, req') = missing_options m (req(shared_required e := False)) in (k # ks, req')
      else missing_options m req)"

fun join_names :: "string list \<Rightarrow> string" where
  "join_names [] = []"
| "join_names [k] = k"
| "join_names (k # ks) = k @ '', '' @ join_names ks"

definition parse_real ::
    "parse_method \<Rightarrow> fail_method \<Rightarrow> string list \<Rightarrow> 'st command \<times> 'st \<Rightarrow> (string list \<times> 'st command \<times> 'st) arg_result" where
  "parse_real pm fm argv cs =
     (case parse_loop pm fm argv 0 cs of
        Inl err \<Rightarrow> Inl err
      | Inr (argv', cmd, st) \<Rightarrow>
          (case missing_options (rev (cmd_map cmd)) (cmd_required cmd) of
             ([], req) \<Rightarrow> Inr (argv', cmd\<lparr>cmd_required := req\<rparr>, st)
           | (k # ks, req) \<Rightarrow> Inl (Invalid_argument (''required but not set: '' @ join_names (k # ks)))))"

definition kz_parse :: "string list \<Rightarrow> 'st command \<times> 'st \<Rightarrow> (string list \<times> 'st command \<times> 'st) arg_result" where
  "kz_parse = parse_real Parse_through Fail_through"

definition break_parse :: "string list \<Rightarrow> 'st command \<times> 'st \<Rightarrow> (string list \<times> 'st command \<times> 'st) arg_result" where
  "break_parse = parse_real Parse_break Fail_through"

definition kz_order :: "string list \<Rightarrow> 'st command \<times> 'st \<Rightarrow> (string list \<times> 'st command \<times> 'st) arg_result" where
  "kz_order = parse_real Parse_through Fail_exception"

definition break_order :: "string list \<Rightarrow> 'st command \<times> 'st \<Rightarrow> (string list \<times> 'st command \<times> 'st) arg_result" where
  "break_order = parse_real Parse_break Fail_exception"

section \<open>Types of arguments\<close>

definition parse_boolean :: "string list \<Rightarrow> nat \<times> bool" where
  "parse_boolean argv =
     (case argv of [] \<Rightarrow> (0, True)
      | a # _ \<Rightarrow> if a = ''true'' \<or> a = ''yes'' \<or> a = ''on'' then (1, True)
                else if a = ''false'' \<or> a = ''no'' \<or> a = ''off'' then (1, False)
                else (0, True))"

definition parse_string :: "string list \<Rightarrow> (nat \<times> string) arg_result" where
  "parse_string argv = (case argv of [] \<Rightarrow> arg_raise ''string is required.'' | a # _ \<Rightarrow> Inr (1, a))"

definition parse_numeric :: "(string \<Rightarrow> 'n option) \<Rightarrow> string \<Rightarrow> string list \<Rightarrow> (nat \<times> 'n) arg_result" where
  "parse_numeric num tname argv =
     (case argv of [] \<Rightarrow> arg_raise ''numeric value is required.''
      | a # _ \<Rightarrow> (case num a of None \<Rightarrow> arg_raise (tname @ '' is expected: '' @ a) | Some n \<Rightarrow> Inr (1, n)))"

text \<open>
  \<open>convert::numeric\<close> at an unsigned integer: white space, a sign, decimal digits up to the end; a
  value that does not fit fails, and a minus sign negates modulo the width.
\<close>

definition is_space :: "char \<Rightarrow> bool" where
  "is_space c \<longleftrightarrow> c \<in> {CHR '' '', CHR 0x09, CHR 0x0A, CHR 0x0B, CHR 0x0C, CHR 0x0D}"

definition digits_value :: "string \<Rightarrow> int" where
  "digits_value ds = foldl (\<lambda>n c. n * 10 + (of_char c - 48)) 0 ds"

definition is_decimal_digit :: "char \<Rightarrow> bool" where
  "is_decimal_digit c \<longleftrightarrow> 48 \<le> (of_char c :: int) \<and> (of_char c :: int) \<le> 57"

definition numeric_word :: "string \<Rightarrow> 'w::len word option" where
  "numeric_word str =
     (let body = dropWhile is_space str;
          neg = (body \<noteq> [] \<and> hd body = CHR ''-'');
          ds = (if body \<noteq> [] \<and> (hd body = CHR ''-'' \<or> hd body = CHR ''+'') then tl body else body)
      in if ds = [] \<or> \<not> list_all is_decimal_digit ds \<or> 2 ^ LENGTH('w) \<le> digits_value ds then None
         else Some (if neg then - word_of_int (digits_value ds) else word_of_int (digits_value ds)))"

section \<open>Network addresses\<close>

text \<open>
  An entry of the list \<open>getaddrinfo\<close> gives: its family and its \<open>sockaddr\<close> as bytes, of which
  \<open>ai_addrlen\<close> is the number. The resolver's first argument is whether IPv6 is wanted too; an
  error is the text of \<open>gai_strerror\<close>.
\<close>

datatype ai_family = AF_INET | AF_INET6 | AF_other

record addrinfo =
  ai_family :: ai_family
  ai_addr :: bytes

type_synonym resolver = "bool \<Rightarrow> string \<Rightarrow> string + addrinfo list"

text \<open>\<open>parse_network_base<sockaddr_in, UseIPv6>\<close>: the variable it writes to, and its port.\<close>

record net_arg =
  m_dst :: sockaddr_in
  m_port :: u16

definition sockaddr_zero :: sockaddr_in where
  "sockaddr_zero = \<lparr>sin_port = [0, 0], sin_addr = [0, 0, 0, 0]\<rparr>"

definition resolve_port :: "string option \<Rightarrow> u16 \<Rightarrow> u16 arg_result" where
  "resolve_port pstr p =
     (case pstr of
        Some s \<Rightarrow> (case numeric_word s of None \<Rightarrow> arg_raise (''invalid port number: '' @ s) | Some n \<Rightarrow> Inr n)
      | None \<Rightarrow> if p = 0 then arg_raise ''port number is required.'' else Inr p)"

text \<open>
  The address found is copied with the larger of its length and the size of \<open>sockaddr_in\<close>, 16:
  a longer address is written behind the variable, of a shorter one more is read than there is.
\<close>

definition resolve_addr :: "resolver \<Rightarrow> bool \<Rightarrow> string \<Rightarrow> string option \<Rightarrow> net_arg \<Rightarrow> net_arg arg_result" where
  "resolve_addr gai v6 host pstr na =
     (case resolve_port pstr (m_port na) of
        Inl e \<Rightarrow> Inl e
      | Inr p \<Rightarrow>
          (case gai v6 host of
             Inl err \<Rightarrow> arg_raise (''can'' @ [CHR 0x27] @ ''t resolve host name ('' @ err @ ''): '' @ host)
           | Inr res \<Rightarrow>
               (case find (\<lambda>rp. ai_family rp = AF_INET \<or> v6 \<and> ai_family rp = AF_INET6) res of
                  None \<Rightarrow> arg_raise (''can'' @ [CHR 0x27] @ ''t resolve host name (no suitable family): '' @ host)
                | Some rp \<Rightarrow>
                    if length (ai_addr rp) \<noteq> 16 then Inl Arg_undefined
                    else Inr \<lparr>m_dst = \<lparr>sin_port = store_word Big 2 p, sin_addr = take 4 (drop 4 (ai_addr rp))\<rparr>, m_port = p\<rparr>)))"

definition addr_any :: "u16 \<Rightarrow> sockaddr_in" where
  "addr_any p = \<lparr>sin_port = store_word Big 2 p, sin_addr = [0, 0, 0, 0]\<rparr>"

definition addr_any_port :: "string \<Rightarrow> net_arg \<Rightarrow> net_arg arg_result" where
  "addr_any_port pstr na =
     (case resolve_port (Some pstr) (m_port na) of Inl e \<Rightarrow> Inl e | Inr p \<Rightarrow> Inr \<lparr>m_dst = addr_any p, m_port = p\<rparr>)"

definition parse_connectable :: "resolver \<Rightarrow> string list \<Rightarrow> net_arg \<Rightarrow> net_arg arg_result" where
  "parse_connectable gai argv na =
     (case argv of [] \<Rightarrow> arg_raise ''network address is required.''
      | str # _ \<Rightarrow>
          (case split_last (CHR '':'') str of
             Some (host, pstr) \<Rightarrow> resolve_addr gai False host (Some pstr) na
           | None \<Rightarrow> resolve_addr gai False str None na))"

definition parse_listenable :: "resolver \<Rightarrow> string list \<Rightarrow> net_arg \<Rightarrow> net_arg arg_result" where
  "parse_listenable gai argv na =
     (case argv of [] \<Rightarrow> arg_raise ''network address is required.''
      | str # _ \<Rightarrow>
          (case split_last (CHR '':'') str of
             Some (host, pstr) \<Rightarrow>
               if CHR '':'' \<in> set host then
                 if last host = CHR '']'' \<and> hd str = CHR ''['' then
                   resolve_addr gai True (take (length host - 2) (drop 1 str)) (Some pstr) na
                 else resolve_addr gai True str None na
               else if host = [] then addr_any_port pstr na
               else resolve_addr gai True host (Some pstr) na
           | None \<Rightarrow>
               (case (numeric_word str :: u16 option) of
                  Some _ \<Rightarrow> addr_any_port str na
                | None \<Rightarrow> resolve_addr gai True str None na)))"

section \<open>The types of options\<close>

text \<open>
  The functions of \<open>kazuhiki::type\<close> give the acceptable and initialise the variable. A variable
  is the pair of functions that read and assign it.
\<close>

type_synonym 'st arg_type = "'st \<Rightarrow> 'st acceptable \<times> 'st"

definition type_boolean :: "(bool \<Rightarrow> 'st \<Rightarrow> 'st) \<Rightarrow> 'st arg_type" where
  "type_boolean put st =
     (\<lparr>ac_parse = (\<lambda>argv st. let (s, b) = parse_boolean argv in Inr (s, put b st)), ac_required = False\<rparr>, put False st)"

definition parse_into :: "(string list \<Rightarrow> (nat \<times> 'v) arg_result) \<Rightarrow> ('v \<Rightarrow> 'st \<Rightarrow> 'st) \<Rightarrow> 'st arg_parse" where
  "parse_into parse put argv st = (case parse argv of Inl e \<Rightarrow> Inl e | Inr (s, v) \<Rightarrow> Inr (s, put v st))"

definition type_string :: "(string \<Rightarrow> 'st \<Rightarrow> 'st) \<Rightarrow> 'st arg_type" where
  "type_string put st = (\<lparr>ac_parse = parse_into parse_string put, ac_required = True\<rparr>, st)"

definition type_string_default :: "(string \<Rightarrow> 'st \<Rightarrow> 'st) \<Rightarrow> string \<Rightarrow> 'st arg_type" where
  "type_string_default put d st = (\<lparr>ac_parse = parse_into parse_string put, ac_required = False\<rparr>, put d st)"

definition type_numeric_default ::
    "(string \<Rightarrow> 'n option) \<Rightarrow> string \<Rightarrow> ('n \<Rightarrow> 'st \<Rightarrow> 'st) \<Rightarrow> ('st \<Rightarrow> 'n) \<Rightarrow> 'st arg_type" where
  "type_numeric_default num tname put d st =
     (\<lparr>ac_parse = parse_into (parse_numeric num tname) put, ac_required = False\<rparr>, put (d st) st)"

definition parse_object :: "(string list \<Rightarrow> net_arg \<Rightarrow> net_arg arg_result) \<Rightarrow> ('st \<Rightarrow> net_arg) \<Rightarrow> (net_arg \<Rightarrow> 'st \<Rightarrow> 'st) \<Rightarrow> 'st arg_parse" where
  "parse_object parse get put argv st = (case parse argv (get st) of Inl e \<Rightarrow> Inl e | Inr na \<Rightarrow> Inr (1, put na st))"

definition type_connectable :: "resolver \<Rightarrow> ('st \<Rightarrow> net_arg) \<Rightarrow> (net_arg \<Rightarrow> 'st \<Rightarrow> 'st) \<Rightarrow> u16 \<Rightarrow> 'st arg_type" where
  "type_connectable gai get put d_port st =
     (\<lparr>ac_parse = parse_object (parse_connectable gai) get put, ac_required = True\<rparr>,
      put \<lparr>m_dst = sockaddr_zero, m_port = d_port\<rparr> st)"

definition type_listenable :: "resolver \<Rightarrow> ('st \<Rightarrow> net_arg) \<Rightarrow> (net_arg \<Rightarrow> 'st \<Rightarrow> 'st) \<Rightarrow> u16 \<Rightarrow> 'st arg_type" where
  "type_listenable gai get put d_port st =
     (\<lparr>ac_parse = parse_object (parse_listenable gai) get put, ac_required = False\<rparr>,
      put \<lparr>m_dst = addr_any d_port, m_port = d_port\<rparr> st)"

definition kz_on :: "string \<Rightarrow> string \<Rightarrow> 'st arg_type \<Rightarrow> 'st command \<times> 'st \<Rightarrow> 'st command \<times> 'st" where
  "kz_on short_name long_name ty cs = (let (ac, st) = ty (snd cs) in command_on short_name long_name None ac (fst cs, st))"

definition kz_on_optional ::
    "string \<Rightarrow> string \<Rightarrow> (bool \<Rightarrow> 'st \<Rightarrow> 'st) \<Rightarrow> 'st arg_type \<Rightarrow> 'st command \<times> 'st \<Rightarrow> 'st command \<times> 'st" where
  "kz_on_optional short_name long_name optional ty cs =
     (let (ac, st) = ty (snd cs) in command_on short_name long_name (Some optional) ac (fst cs, st))"

end
