(* ===== verification/Boot.thy ===== *)
theory Boot
  imports Kazuhiki ServerNetwork Manager Gateway
begin

text \<open>
  How a process starts: the options of \<open>logic/boot.*\<close> and of the three \<open>main.cc\<close>, what is made of
  them, and the first state of a server, a manager and a gateway (\<open>init.h\<close>). Floating-point
  numbers are a type with the operations the code uses, so that what is shown holds for any
  arithmetic; sockets are parameters. Logging, daemons and threads are left out.

  A constructor leaves the variables it does not name as they are, so a new object is made of an
  arbitrary one.
\<close>

section \<open>Parameters\<close>

record 'f float_api =
  fl_read :: "string \<Rightarrow> 'f option"
  fl_const :: "nat \<Rightarrow> 'f"
  fl_usec :: "'f \<Rightarrow> u64"
  fl_msec :: "'f \<Rightarrow> u32"

record sock_api =
  sk_socket :: int
  sk_setsockopt :: "int \<Rightarrow> int"
  sk_bind :: "int \<Rightarrow> sockaddr_in \<Rightarrow> int"
  sk_listen :: "int \<Rightarrow> int"
  sk_nonblock :: "int \<Rightarrow> bool"
  sk_error :: string

definition listen_tcp :: "sock_api \<Rightarrow> address \<Rightarrow> int arg_result" where
  "listen_tcp sk addr =
     (let lsock = sk_socket sk
      in if lsock < 0 then Inl (Arg_runtime ''socket failed'')
         else if sk_setsockopt sk lsock < 0 then Inl (Arg_runtime ''setsockopt failed'')
         else if sk_bind sk lsock (getaddr addr) < 0 then Inl (Arg_runtime ''bind failed'')
         else if sk_listen sk lsock < 0 then Inl (Arg_runtime ''listen failed'')
         else if \<not> sk_nonblock sk lsock then Inl (Arg_runtime (''failed to set nonblock flag: '' @ sk_error sk))
         else Inr lsock)"

section \<open>The options of every process\<close>

record 'f rpc_args =
  verbose :: bool
  logfile_set :: bool
  logfile :: string
  logpack_path_set :: bool
  logpack_path :: string
  pidfile_set :: bool
  pidfile :: string
  prog :: "string option"
  keepalive_interval :: 'f
  keepalive_interval_usec :: u64
  clock_interval :: 'f
  clock_interval_usec :: u64
  connect_timeout_sec :: 'f
  connect_timeout_msec :: u32
  connect_retry_limit :: u16
  wthreads :: u16
  rthreads :: u16

definition rpc_args_new :: "'f float_api \<Rightarrow> ('f, 'm) rpc_args_scheme \<Rightarrow> ('f, 'm) rpc_args_scheme" where
  "rpc_args_new fl a =
     a\<lparr>logfile := [], logpack_path := [], pidfile := [], keepalive_interval := fl_const fl 2, clock_interval := fl_const fl 2,
       connect_timeout_sec := fl_const fl 10, connect_retry_limit := 4, wthreads := 2, rthreads := 8\<rparr>"

definition set_basic_args ::
    "'f float_api \<Rightarrow> ('f, 'm) rpc_args_scheme command \<times> ('f, 'm) rpc_args_scheme \<Rightarrow>
     ('f, 'm) rpc_args_scheme command \<times> ('f, 'm) rpc_args_scheme" where
  "set_basic_args fl = fold (\<lambda>f. f)
     [kz_on ''-v'' ''--verbose'' (type_boolean (\<lambda>b. verbose_update (\<lambda>_. b))),
      kz_on_optional ''-o'' ''--log'' (\<lambda>b. logfile_set_update (\<lambda>_. b)) (type_string (\<lambda>s. logfile_update (\<lambda>_. s))),
      kz_on_optional ''-g'' ''--binary-log'' (\<lambda>b. logpack_path_set_update (\<lambda>_. b)) (type_string (\<lambda>s. logpack_path_update (\<lambda>_. s))),
      kz_on_optional ''-d'' ''--daemon'' (\<lambda>b. pidfile_set_update (\<lambda>_. b)) (type_string (\<lambda>s. pidfile_update (\<lambda>_. s))),
      kz_on ''-k'' ''--keepalive-interval'' (type_numeric_default numeric_word ''unsigned long''
        (\<lambda>n. keepalive_interval_usec_update (\<lambda>_. n)) keepalive_interval_usec),
      kz_on ''-Ci'' ''--clock-interval'' (type_numeric_default (fl_read fl) ''double'' (\<lambda>n. clock_interval_update (\<lambda>_. n)) clock_interval),
      kz_on ''-Ys'' ''--connect-timeout'' (type_numeric_default (fl_read fl) ''double''
        (\<lambda>n. connect_timeout_sec_update (\<lambda>_. n)) connect_timeout_sec),
      kz_on ''-Yn'' ''--connect-retry-limit'' (type_numeric_default numeric_word ''unsigned short''
        (\<lambda>n. connect_retry_limit_update (\<lambda>_. n)) connect_retry_limit),
      kz_on ''-TW'' ''--write-threads'' (type_numeric_default numeric_word ''unsigned short'' (\<lambda>n. wthreads_update (\<lambda>_. n)) wthreads),
      kz_on ''-TR'' ''--read-threads'' (type_numeric_default numeric_word ''unsigned short'' (\<lambda>n. rthreads_update (\<lambda>_. n)) rthreads)]"

definition rpc_args_convert :: "'f float_api \<Rightarrow> ('f, 'm) rpc_args_scheme \<Rightarrow> ('f, 'm) rpc_args_scheme" where
  "rpc_args_convert fl a =
     a\<lparr>keepalive_interval_usec := fl_usec fl (keepalive_interval a),
       clock_interval_usec := fl_usec fl (clock_interval a),
       connect_timeout_msec := fl_msec fl (connect_timeout_sec a)\<rparr>"

text \<open>
  \<open>rpc_args::parse\<close>, which calls the virtual \<open>convert\<close>. An error is caught: the usage is shown,
  the message printed, and the process exits.
\<close>

definition rpc_args_parse ::
    "(('f, 'm) rpc_args_scheme \<Rightarrow> ('f, 'm) rpc_args_scheme arg_result) \<Rightarrow> string list \<Rightarrow>
     ('f, 'm) rpc_args_scheme command \<times> ('f, 'm) rpc_args_scheme \<Rightarrow> ('f, 'm) rpc_args_scheme arg_result" where
  "rpc_args_parse convert argv cs =
     (case break_order (tl argv) (fst cs, (snd cs)\<lparr>prog := (case argv of [] \<Rightarrow> None | a # _ \<Rightarrow> Some a)\<rparr>) of
        Inl e \<Rightarrow> Inl e
      | Inr (rest, cmd, a) \<Rightarrow> convert a)"

record 'f cluster_args = "'f rpc_args" +
  cluster_addr_in :: net_arg
  cluster_addr :: address
  cluster_lsock :: int

definition listen_any :: "net_arg \<Rightarrow> net_arg" where
  "listen_any na = na\<lparr>m_dst := (m_dst na)\<lparr>sin_addr := [0, 0, 0, 0]\<rparr>\<rparr>"

definition cluster_args_convert ::
    "'f float_api \<Rightarrow> sock_api \<Rightarrow> ('f, 'm) cluster_args_scheme \<Rightarrow> ('f, 'm) cluster_args_scheme arg_result" where
  "cluster_args_convert fl sk a =
     (let a1 = a\<lparr>cluster_addr := address_of_sockaddr (m_dst (cluster_addr_in a)), cluster_addr_in := listen_any (cluster_addr_in a)\<rparr>
      in case listen_tcp sk (address_of_sockaddr (m_dst (cluster_addr_in a1))) of
           Inl e \<Rightarrow> Inl e
         | Inr lsock \<Rightarrow> Inr (rpc_args_convert fl (a1\<lparr>cluster_lsock := lsock\<rparr>)))"

section \<open>Servers\<close>

definition MANAGER_DEFAULT_PORT :: u16 where "MANAGER_DEFAULT_PORT = 19700"
definition SERVER_DEFAULT_PORT :: u16 where "SERVER_DEFAULT_PORT = 19800"
definition SERVER_STREAM_DEFAULT_PORT :: u16 where "SERVER_STREAM_DEFAULT_PORT = 19900"

record 'f server_args = "'f cluster_args" +
  dbpath :: string
  manager1_in :: net_arg
  manager2_in :: net_arg
  manager2_set :: bool
  manager1 :: address
  manager2 :: address
  stream_port :: u16
  stream_addr :: address
  stream_lsock :: int
  offer_tmpdir :: string
  db_backup_basename :: string
  replicate_set_retry_num :: u16
  replicate_delete_retry_num :: u16
  replace_set_limit_mem :: u16
  garbage_min_time_sec :: u32
  garbage_max_time_sec :: u32
  garbage_mem_limit_kb :: u64

definition server_args_convert :: "'f float_api \<Rightarrow> sock_api \<Rightarrow> 'f server_args \<Rightarrow> 'f server_args arg_result" where
  "server_args_convert fl sk a0 =
     (case cluster_args_convert fl sk a0 of
        Inl e \<Rightarrow> Inl e
      | Inr a \<Rightarrow>
          (let saddr = set_port (stream_port a) (cluster_addr a)
           in case listen_tcp sk saddr of
                Inl e \<Rightarrow> Inl e
              | Inr slsock \<Rightarrow>
                  (let a1 = a\<lparr>stream_addr := saddr, stream_lsock := slsock, manager1 := address_of_sockaddr (m_dst (manager1_in a))\<rparr>;
                       a2 = (if manager2_set a1 then a1\<lparr>manager2 := address_of_sockaddr (m_dst (manager2_in a1))\<rparr> else a1)
                   in if manager2_set a2 \<and> address_eq (manager2 a2) (manager1 a2)
                      then Inl (Arg_runtime ''-m and -p must be different'')
                      else let a3 = a2\<lparr>db_backup_basename := dbpath a2 @ ''-''\<rparr>
                           in Inr (if garbage_min_time_sec a3 > garbage_max_time_sec a3
                                   then a3\<lparr>garbage_min_time_sec := garbage_max_time_sec a3\<rparr> else a3))))"

text \<open>The default constructor of an address gives the nil address, of a string the empty one.\<close>

definition server_args_new :: "'f float_api \<Rightarrow> 'f server_args \<Rightarrow> 'f server_args" where
  "server_args_new fl a =
     (rpc_args_new fl a)\<lparr>cluster_addr := address_nil, cluster_lsock := -1, dbpath := [], manager1 := address_nil, manager2 := address_nil,
       stream_port := SERVER_STREAM_DEFAULT_PORT, stream_addr := address_nil, offer_tmpdir := [], db_backup_basename := [],
       replicate_set_retry_num := 20, replicate_delete_retry_num := 20, replace_set_limit_mem := 0,
       garbage_min_time_sec := 60, garbage_max_time_sec := 60 * 60, garbage_mem_limit_kb := 2 * 1024,
       clock_interval := fl_const fl 8\<rparr>"

definition server_options :: "'f float_api \<Rightarrow> resolver \<Rightarrow> 'f server_args \<Rightarrow> 'f server_args command \<times> 'f server_args" where
  "server_options fl gai a = fold (\<lambda>f. f)
     [kz_on ''-l'' ''--listen'' (type_connectable gai cluster_addr_in (\<lambda>na. cluster_addr_in_update (\<lambda>_. na)) SERVER_DEFAULT_PORT),
      kz_on ''-L'' ''--stream-listen'' (type_numeric_default numeric_word ''unsigned short'' (\<lambda>n. stream_port_update (\<lambda>_. n)) stream_port),
      kz_on ''-f'' ''--offer-tmp'' (type_string_default (\<lambda>s. offer_tmpdir_update (\<lambda>_. s)) ''/tmp''),
      kz_on ''-s'' ''--store'' (type_string (\<lambda>s. dbpath_update (\<lambda>_. s))),
      kz_on ''-m'' ''--manager1'' (type_connectable gai manager1_in (\<lambda>na. manager1_in_update (\<lambda>_. na)) MANAGER_DEFAULT_PORT),
      kz_on_optional ''-p'' ''--manager2'' (\<lambda>b. manager2_set_update (\<lambda>_. b))
        (type_connectable gai manager2_in (\<lambda>na. manager2_in_update (\<lambda>_. na)) MANAGER_DEFAULT_PORT),
      kz_on ''-S'' ''--replicate-set-retry'' (type_numeric_default numeric_word ''unsigned short''
        (\<lambda>n. replicate_set_retry_num_update (\<lambda>_. n)) replicate_set_retry_num),
      kz_on ''-D'' ''--replicate-delete-retry'' (type_numeric_default numeric_word ''unsigned short''
        (\<lambda>n. replicate_delete_retry_num_update (\<lambda>_. n)) replicate_delete_retry_num),
      kz_on ''-M'' ''--replace-memory-limit'' (type_numeric_default numeric_word ''unsigned short''
        (\<lambda>n. replace_set_limit_mem_update (\<lambda>_. n)) replace_set_limit_mem),
      kz_on ''-gN'' ''--garbage-min-time'' (type_numeric_default numeric_word ''unsigned int''
        (\<lambda>n. garbage_min_time_sec_update (\<lambda>_. n)) garbage_min_time_sec),
      kz_on ''-gX'' ''--garbage-max-time'' (type_numeric_default numeric_word ''unsigned int''
        (\<lambda>n. garbage_max_time_sec_update (\<lambda>_. n)) garbage_max_time_sec),
      kz_on ''-gS'' ''--garbage-mem-limit'' (type_numeric_default numeric_word ''unsigned long''
        (\<lambda>n. garbage_mem_limit_kb_update (\<lambda>_. n)) garbage_mem_limit_kb)]
     (set_basic_args fl (command_new, server_args_new fl a))"

definition server_args_of :: "'f float_api \<Rightarrow> resolver \<Rightarrow> sock_api \<Rightarrow> 'f server_args \<Rightarrow> string list \<Rightarrow> 'f server_args arg_result" where
  "server_args_of fl gai sk a0 argv = rpc_args_parse (server_args_convert fl sk) argv (server_options fl gai a0)"

text \<open>The constructors of \<open>resource\<close> and \<open>framework\<close>; the time is read once by each.\<close>

definition server_new :: "u64 \<Rightarrow> u64 \<Rightarrow> 'f server_args \<Rightarrow> 'd storage \<Rightarrow> 'd server" where
  "server_new now now' a db =
     \<lparr>s_addr = cluster_addr a, s_clock = \<lparr>m_clock = \<lparr>clock_m = 0\<rparr>, m_time = ucast now'\<rparr>,
      s_rhs = hashspace_new (ClockTime 0), s_whs = hashspace_new (ClockTime 0), s_db = db,
      s_manager1 = manager1 a, s_manager2 = manager2 a, s_stream_addr = stream_addr a,
      s_backup_basename = db_backup_basename a, s_replicate_set_retry_num = replicate_set_retry_num a,
      s_replicate_delete_retry_num = replicate_delete_retry_num a, s_replace_set_limit_mem = replace_set_limit_mem a,
      s_start_time = now, s_num_get = 0, s_num_set = 0, s_num_delete = 0,
      s_ctxs = Map.empty, s_next_ctx = 0,
      s_replace = \<lparr>m_push_waiting = 0, m_clocktime = ClockTime 0, m_mgr = address_nil\<rparr>,
      s_copying = False, s_deleting = False, s_accum_set = []\<rparr>"

datatype start_error = Bad_arguments arg_error | Start_failed kerror

definition server_main ::
    "'f float_api \<Rightarrow> resolver \<Rightarrow> sock_api \<Rightarrow> 'd kumo_storage_op \<Rightarrow> u64 \<Rightarrow> u64 \<Rightarrow> 'f server_args \<Rightarrow> string list \<Rightarrow> start_error + 'd server" where
  "server_main fl gai sk op now now' a0 argv =
     (case server_args_of fl gai sk a0 argv of
        Inl e \<Rightarrow> Inl (Bad_arguments e)
      | Inr a \<Rightarrow>
          (case storage_open op (dbpath a) (garbage_min_time_sec a) (garbage_max_time_sec a) (garbage_mem_limit_kb a * 1024) of
             Inl e \<Rightarrow> Inl (Start_failed e)
           | Inr db \<Rightarrow> Inr (server_new now now' a db)))"

section \<open>Managers\<close>

record 'f manager_args = "'f cluster_args" +
  replace_delay_seconds :: u16
  auto_replace :: bool
  partner_set :: bool
  partner_in :: net_arg
  partner :: address

definition manager_args_convert :: "'f float_api \<Rightarrow> sock_api \<Rightarrow> 'f manager_args \<Rightarrow> 'f manager_args arg_result" where
  "manager_args_convert fl sk a0 =
     (case cluster_args_convert fl sk a0 of
        Inl e \<Rightarrow> Inl e
      | Inr a \<Rightarrow> Inr (a\<lparr>partner := address_of_sockaddr (m_dst (partner_in a))\<rparr>))"

definition manager_args_new :: "'f float_api \<Rightarrow> 'f manager_args \<Rightarrow> 'f manager_args" where
  "manager_args_new fl a =
     (rpc_args_new fl a)\<lparr>cluster_addr := address_nil, cluster_lsock := -1, replace_delay_seconds := 4, partner := address_nil\<rparr>"

definition manager_options :: "'f float_api \<Rightarrow> resolver \<Rightarrow> 'f manager_args \<Rightarrow> 'f manager_args command \<times> 'f manager_args" where
  "manager_options fl gai a = fold (\<lambda>f. f)
     [kz_on ''-l'' ''--listen'' (type_connectable gai cluster_addr_in (\<lambda>na. cluster_addr_in_update (\<lambda>_. na)) MANAGER_DEFAULT_PORT),
      kz_on_optional ''-p'' ''--partner'' (\<lambda>b. partner_set_update (\<lambda>_. b))
        (type_connectable gai partner_in (\<lambda>na. partner_in_update (\<lambda>_. na)) MANAGER_DEFAULT_PORT),
      kz_on ''-a'' ''--auto-replace'' (type_boolean (\<lambda>b. auto_replace_update (\<lambda>_. b))),
      kz_on ''-Rs'' ''--replace-delay'' (type_numeric_default numeric_word ''unsigned short''
        (\<lambda>n. replace_delay_seconds_update (\<lambda>_. n)) replace_delay_seconds)]
     (set_basic_args fl (command_new, manager_args_new fl a))"

definition manager_args_of :: "'f float_api \<Rightarrow> resolver \<Rightarrow> sock_api \<Rightarrow> 'f manager_args \<Rightarrow> string list \<Rightarrow> 'f manager_args arg_result" where
  "manager_args_of fl gai sk a0 argv = rpc_args_parse (manager_args_convert fl sk) argv (manager_options fl gai a0)"

definition manager_main ::
    "'f float_api \<Rightarrow> resolver \<Rightarrow> sock_api \<Rightarrow> u64 \<Rightarrow> 'f manager_args \<Rightarrow> string list \<Rightarrow> start_error + manager" where
  "manager_main fl gai sk now a0 argv =
     (case manager_args_of fl gai sk a0 argv of
        Inl e \<Rightarrow> Inl (Bad_arguments e)
      | Inr a \<Rightarrow>
          Inr (manager_new (cluster_addr a) (partner a) (auto_replace a) (replace_delay_seconds a)
            \<lparr>m_clock = \<lparr>clock_m = 0\<rparr>, m_time = ucast now\<rparr>
            \<lparr>cl_self_id = ROLE_MANAGER, cl_self_addr = cluster_addr a, cl_connect_retry_limit = connect_retry_limit a,
             cl_sessions = [], cl_nodes = Map.empty, cl_next = 0, cl_peers = [], cl_peer_sessions = Map.empty,
             cl_next_peer = 0, cl_transports = Map.empty\<rparr>))"

section \<open>Gateways\<close>

definition MEMTEXT_DEFAULT_PORT :: u16 where "MEMTEXT_DEFAULT_PORT = 11411"
definition MEMPROTO_DEFAULT_PORT :: u16 where "MEMPROTO_DEFAULT_PORT = 11511"
definition CLOUDY_DEFAULT_PORT :: u16 where "CLOUDY_DEFAULT_PORT = 11611"

record 'f gateway_args = "'f rpc_args" +
  gw_manager1_in :: net_arg
  gw_manager2_in :: net_arg
  gw_manager2_set :: bool
  gw_manager1 :: address
  gw_manager2 :: address
  get_retry_num :: u16
  set_retry_num :: u16
  delete_retry_num :: u16
  renew_threshold :: u16
  async_replicate_set :: bool
  async_replicate_delete :: bool
  local_cache :: string
  mctext_set :: bool
  mctext_addr_in :: net_arg
  mctext_lsock :: int
  mcbin_set :: bool
  mcbin_addr_in :: net_arg
  mcbin_lsock :: int
  cloudy_set :: bool
  cloudy_addr_in :: net_arg
  cloudy_lsock :: int
  mc_save_flag :: bool
  mc_save_exptime :: bool
  key_prefix :: string

definition listen_when :: "sock_api \<Rightarrow> bool \<Rightarrow> net_arg \<Rightarrow> (int \<Rightarrow> 'a \<Rightarrow> 'a) \<Rightarrow> 'a \<Rightarrow> 'a arg_result" where
  "listen_when sk b na put a =
     (if \<not> b then Inr a
      else case listen_tcp sk (address_of_sockaddr (m_dst na)) of Inl e \<Rightarrow> Inl e | Inr lsock \<Rightarrow> Inr (put lsock a))"

definition gateway_args_convert :: "'f float_api \<Rightarrow> sock_api \<Rightarrow> 'f gateway_args \<Rightarrow> 'f gateway_args arg_result" where
  "gateway_args_convert fl sk a0 =
     (let a = rpc_args_convert fl a0;
          a1 = a\<lparr>gw_manager1 := address_of_sockaddr (m_dst (gw_manager1_in a)), gw_manager2 := address_of_sockaddr (m_dst (gw_manager2_in a))\<rparr>
      in if \<not> mctext_set a1 \<and> \<not> mcbin_set a1 \<and> \<not> cloudy_set a1 then Inl (Arg_runtime ''-t, -b or -c is required'')
         else case listen_when sk (mctext_set a1) (mctext_addr_in a1) (\<lambda>s. mctext_lsock_update (\<lambda>_. s)) a1 of
             Inl e \<Rightarrow> Inl e
           | Inr a2 \<Rightarrow>
               (case listen_when sk (mcbin_set a2) (mcbin_addr_in a2) (\<lambda>s. mcbin_lsock_update (\<lambda>_. s)) a2 of
                  Inl e \<Rightarrow> Inl e
                | Inr a3 \<Rightarrow> listen_when sk (cloudy_set a3) (cloudy_addr_in a3) (\<lambda>s. cloudy_lsock_update (\<lambda>_. s)) a3))"

definition gateway_args_new :: "'f float_api \<Rightarrow> 'f gateway_args \<Rightarrow> 'f gateway_args" where
  "gateway_args_new fl a =
     (rpc_args_new fl a)\<lparr>gw_manager1 := address_nil, gw_manager2 := address_nil, local_cache := [], key_prefix := [],
       get_retry_num := 5, set_retry_num := 20, delete_retry_num := 20, renew_threshold := 4\<rparr>"

definition gateway_options :: "'f float_api \<Rightarrow> resolver \<Rightarrow> 'f gateway_args \<Rightarrow> 'f gateway_args command \<times> 'f gateway_args" where
  "gateway_options fl gai a = fold (\<lambda>f. f)
     [kz_on ''-m'' ''--manager1'' (type_connectable gai gw_manager1_in (\<lambda>na. gw_manager1_in_update (\<lambda>_. na)) MANAGER_DEFAULT_PORT),
      kz_on_optional ''-p'' ''--manager2'' (\<lambda>b. gw_manager2_set_update (\<lambda>_. b))
        (type_connectable gai gw_manager2_in (\<lambda>na. gw_manager2_in_update (\<lambda>_. na)) MANAGER_DEFAULT_PORT),
      kz_on ''-lc'' ''--local-cache'' (type_string_default (\<lambda>s. local_cache_update (\<lambda>_. s)) []),
      kz_on_optional ''-t'' ''--memproto-text'' (\<lambda>b. mctext_set_update (\<lambda>_. b))
        (type_listenable gai mctext_addr_in (\<lambda>na. mctext_addr_in_update (\<lambda>_. na)) MEMTEXT_DEFAULT_PORT),
      kz_on_optional ''-b'' ''--memproto-binary'' (\<lambda>b. mcbin_set_update (\<lambda>_. b))
        (type_listenable gai mcbin_addr_in (\<lambda>na. mcbin_addr_in_update (\<lambda>_. na)) MEMPROTO_DEFAULT_PORT),
      kz_on_optional ''-c'' ''--cloudy'' (\<lambda>b. cloudy_set_update (\<lambda>_. b))
        (type_listenable gai cloudy_addr_in (\<lambda>na. cloudy_addr_in_update (\<lambda>_. na)) CLOUDY_DEFAULT_PORT),
      kz_on ''-F'' ''--memproto-save-flag'' (type_boolean (\<lambda>b. mc_save_flag_update (\<lambda>_. b))),
      kz_on ''-E'' ''--memproto-save-expire'' (type_boolean (\<lambda>b. mc_save_exptime_update (\<lambda>_. b))),
      kz_on ''-G'' ''--get-retry'' (type_numeric_default numeric_word ''unsigned short'' (\<lambda>n. get_retry_num_update (\<lambda>_. n)) get_retry_num),
      kz_on ''-S'' ''--set-retry'' (type_numeric_default numeric_word ''unsigned short'' (\<lambda>n. set_retry_num_update (\<lambda>_. n)) set_retry_num),
      kz_on ''-D'' ''--delete-retry'' (type_numeric_default numeric_word ''unsigned short''
        (\<lambda>n. delete_retry_num_update (\<lambda>_. n)) delete_retry_num),
      kz_on ''-rn'' ''--renew-threshold'' (type_numeric_default numeric_word ''unsigned short''
        (\<lambda>n. renew_threshold_update (\<lambda>_. n)) renew_threshold),
      kz_on ''-As'' ''--async-replicate-set'' (type_boolean (\<lambda>b. async_replicate_set_update (\<lambda>_. b))),
      kz_on ''-Ad'' ''--async-replicate-delete'' (type_boolean (\<lambda>b. async_replicate_delete_update (\<lambda>_. b))),
      kz_on ''-k'' ''--key-prefix'' (type_string_default (\<lambda>s. key_prefix_update (\<lambda>_. s)) [])]
     (set_basic_args fl (command_new, gateway_args_new fl a))"

definition gateway_args_of :: "'f float_api \<Rightarrow> resolver \<Rightarrow> sock_api \<Rightarrow> 'f gateway_args \<Rightarrow> string list \<Rightarrow> 'f gateway_args arg_result" where
  "gateway_args_of fl gai sk a0 argv = rpc_args_parse (gateway_args_convert fl sk) argv (gateway_options fl gai a0)"

text \<open>\<open>mod_cache_t::init\<close> with the library's \<open>tcadbnew\<close> and \<open>tcadbopen\<close>, and the constructors.\<close>

definition cache_init :: "'c option \<Rightarrow> ('c \<Rightarrow> string \<Rightarrow> bool \<times> 'c) \<Rightarrow> string \<Rightarrow> 'c result" where
  "cache_init dbnew dbopen nam =
     (case dbnew of
        None \<Rightarrow> Inl Bad_alloc
      | Some db \<Rightarrow> (case dbopen db nam of (True, db') \<Rightarrow> Inr db' | (False, db') \<Rightarrow> Inl (Runtime_error ''failed to open local cache db'')))"

definition gateway_new :: "'f gateway_args \<Rightarrow> 'c option \<Rightarrow> 'c gateway" where
  "gateway_new a cache =
     \<lparr>g_rhs = hashspace_new (ClockTime 0), g_whs = hashspace_new (ClockTime 0), g_manager1 = gw_manager1 a, g_manager2 = gw_manager2 a,
      g_async_replicate_delete = async_replicate_delete a, g_get_retry_num = get_retry_num a, g_set_retry_num = set_retry_num a,
      g_delete_retry_num = delete_retry_num a, g_renew_threshold = renew_threshold a, g_error_count = 0,
      g_key_prefix = map of_char (key_prefix a), g_cache = cache, g_retries = Map.empty, g_next_retry = 0, g_do_after = []\<rparr>"

definition gateway_main ::
    "'f float_api \<Rightarrow> resolver \<Rightarrow> sock_api \<Rightarrow> 'c option \<Rightarrow> ('c \<Rightarrow> string \<Rightarrow> bool \<times> 'c) \<Rightarrow> 'f gateway_args \<Rightarrow> string list \<Rightarrow>
     start_error + 'c gateway" where
  "gateway_main fl gai sk dbnew dbopen a0 argv =
     (case gateway_args_of fl gai sk a0 argv of
        Inl e \<Rightarrow> Inl (Bad_arguments e)
      | Inr a \<Rightarrow>
          if local_cache a = [] then Inr (gateway_new a None)
          else (case cache_init dbnew dbopen (local_cache a) of
                  Inl e \<Rightarrow> Inl (Start_failed e)
                | Inr db \<Rightarrow> Inr (gateway_new a (Some db))))"

end
