(* ===== verification/KazuhikiTheorems.thy ===== *)
theory KazuhikiTheorems
  imports Kazuhiki
begin

text \<open>
  What the parser of command lines promises: the two ways to walk \<open>argv\<close> agree, an accepted
  command line names every option that must be given, and variables that no option writes to keep
  their values.
\<close>

section \<open>The map\<close>

lemma map_of_map_assign [simp]: "map_of (map_assign k v m) = (map_of m)(k \<mapsto> v)"
  by (induction k v m rule: map_assign.induct) (auto simp: fun_eq_iff)

lemma set_map_assign: "set (map_assign k v m) \<subseteq> insert (k, v) (set m)"
  by (induction k v m rule: map_assign.induct) auto

lemma map_assign_sorted [intro]: "sorted (map fst m) \<Longrightarrow> distinct (map fst m) \<Longrightarrow>
    sorted (map fst (map_assign k v m)) \<and> distinct (map fst (map_assign k v m))"
proof (induction k v m rule: map_assign.induct)
  case (2 k v k' v' m)
  have sub: "fst ` set (map_assign k v m) \<subseteq> insert k (fst ` set m)" using set_map_assign [of k v m] by force
  then have "\<forall>kv \<in> set (map_assign k v m). \<not> k < k' \<longrightarrow> k' \<le> fst kv" if "\<forall>kv \<in> set m. k' \<le> fst kv" using that by fastforce
  then show ?case using 2 sub by auto
qed simp

section \<open>The loop\<close>

text \<open>
  A run of the loop that ends well, as rules: the arguments are used up, an unknown argument is
  stepped over, or an option has been parsed.
\<close>

inductive arg_run ::
    "parse_method \<Rightarrow> fail_method \<Rightarrow> string list \<Rightarrow> nat \<Rightarrow> 'st command \<times> 'st \<Rightarrow> string list \<times> 'st command \<times> 'st \<Rightarrow> bool"
  for pm fm where
  Run_end: "length argv \<le> i \<Longrightarrow> arg_run pm fm argv i cs (argv, cs)"
| Run_unknown: "i < length argv \<Longrightarrow> map_of (cmd_map (fst cs)) (argv ! i) = None \<Longrightarrow> fm = Fail_through \<Longrightarrow>
    arg_run pm fm argv (i + 1) cs r \<Longrightarrow> arg_run pm fm argv i cs r"
| Run_known: "i < length argv \<Longrightarrow> map_of (cmd_map (fst cs)) (argv ! i) = Some e \<Longrightarrow>
    ac_parse (en_ac e) (drop (i + 1) argv) (snd cs) = Inr (s, st) \<Longrightarrow>
    (argv', i') = (case pm of Parse_through \<Rightarrow> (argv, i + (s + 1)) | Parse_break \<Rightarrow> (take i argv @ drop (i + (s + 1)) argv, i)) \<Longrightarrow>
    (pm = Parse_break \<Longrightarrow> i + (s + 1) \<le> length argv) \<Longrightarrow>
    arg_run pm fm argv' i' (mark_given e (fst cs), set_flag (optional_flag e) True st) r \<Longrightarrow>
    arg_run pm fm argv i cs r"

lemma parse_loop_run: "parse_loop pm fm argv i cs = Inr r \<Longrightarrow> arg_run pm fm argv i cs r"
proof (induction pm fm argv i cs rule: parse_loop.induct)
  case (1 pm fm argv i cs)
  consider "length argv \<le> i" | "i < length argv" "map_of (cmd_map (fst cs)) (argv ! i) = None"
    | e where "i < length argv" "map_of (cmd_map (fst cs)) (argv ! i) = Some e" by fastforce
  then show ?case
  proof cases
    case 1
    with \<open>parse_loop pm fm argv i cs = Inr r\<close> show ?thesis by (auto simp: parse_loop.simps [of _ fm argv i] intro: Run_end)
  next
    case 2
    with \<open>parse_loop pm fm argv i cs = Inr r\<close> have "fm = Fail_through" "parse_loop pm fm argv (i + 1) cs = Inr r"
      by (auto simp: parse_loop.simps [of _ fm argv i] split: fail_method.splits)
    with 2 "1.IH"(1) show ?thesis by (auto intro: Run_unknown)
  next
    case (3 e)
    with \<open>parse_loop pm fm argv i cs = Inr r\<close>
    obtain s st where ps: "ac_parse (en_ac e) (drop (i + 1) argv) (snd cs) = Inr (s, st)"
      by (auto simp: parse_loop.simps [of _ fm argv i] split: sum.splits)
    note known = Run_known [OF 3 ps, where pm = pm]
    show ?thesis
    proof (cases pm)
      case Parse_through
      then show ?thesis using 3 ps \<open>parse_loop pm fm argv i cs = Inr r\<close> "1.IH"(2) [OF _ 3(2) ps refl refl Parse_through]
        by (intro known) (auto simp: parse_loop.simps [of _ fm argv i] Let_def)
    next
      case Parse_break
      then show ?thesis using 3 ps \<open>parse_loop pm fm argv i cs = Inr r\<close> "1.IH"(3) [OF _ 3(2) ps refl refl Parse_break]
        by (intro known) (auto simp: parse_loop.simps [of _ fm argv i] Let_def split: if_splits)
    qed
  qed
qed

lemma mark_given_map [simp]: "cmd_map (mark_given e c) = cmd_map c"
  by (simp add: mark_given_def)

text \<open>What every parse function and every flag keeps, the loop keeps; the map does not change.\<close>

definition entry_keeps :: "('st \<Rightarrow> bool) \<Rightarrow> 'st arg_entry \<Rightarrow> bool" where
  "entry_keeps P e \<longleftrightarrow> (\<forall>argv st s st'. P st \<longrightarrow> ac_parse (en_ac e) argv st = Inr (s, st') \<longrightarrow> P (set_flag (optional_flag e) True st'))"

lemma arg_run_map: "arg_run pm fm argv i cs r \<Longrightarrow> cmd_map (fst (snd r)) = cmd_map (fst cs)"
  by (induction rule: arg_run.induct) simp_all

lemma arg_run_keeps:
  assumes "arg_run pm fm argv i cs r" and "P (snd cs)"
    and "\<And>k e. map_of (cmd_map (fst cs)) k = Some e \<Longrightarrow> entry_keeps P e"
  shows "P (snd (snd r))"
  using assms by (induction rule: arg_run.induct) (simp_all add: entry_keeps_def)

text \<open>An option that was demanded and is not any more has been named on the command line.\<close>

lemma arg_run_given:
  assumes "arg_run pm fm argv i cs r" and "cmd_required (fst cs) c" and "\<not> cmd_required (fst (snd r)) c"
  shows "\<exists>k e. map_of (cmd_map (fst cs)) k = Some e \<and> shared_required e = c \<and> k \<in> set argv"
  using assms
proof (induction rule: arg_run.induct)
  case (Run_known i argv cs e s st argv' i' r)
  have "set argv' \<subseteq> set argv"
    using Run_known(4) by (auto split: parse_method.splits dest: in_set_takeD in_set_dropD)
  with Run_known show ?case
  proof (cases "shared_required e = c")
    case True
    with Run_known(1,2) show ?thesis by (intro exI [of _ "argv ! i"]) auto
  qed (auto simp: mark_given_def)
qed simp_all

lemma missing_options_none:
  "missing_options m req = ([], req') \<Longrightarrow> (k, e) \<in> set m \<Longrightarrow> optional_flag e = None \<Longrightarrow> \<not> req (shared_required e)"
  by (induction m req rule: missing_options.induct) (auto split: if_splits prod.splits)

lemma missing_options_same: "missing_options m req = ([], req') \<Longrightarrow> req' = req"
  by (induction m req rule: missing_options.induct) (auto split: if_splits prod.splits)

section \<open>Options of the library's types\<close>

text \<open>
  A type of options that keeps \<open>P\<close>: initialising the variable and parsing an argument do, and the
  parse function uses no more arguments than there are.
\<close>

definition type_keeps :: "('st \<Rightarrow> bool) \<Rightarrow> 'st arg_type \<Rightarrow> bool" where
  "type_keeps P ty \<longleftrightarrow> (\<forall>st. (P st \<longrightarrow> P (snd (ty st))) \<and>
     (\<forall>argv st1 s st2. ac_parse (fst (ty st)) argv st1 = Inr (s, st2) \<longrightarrow> s \<le> length argv \<and> (P st1 \<longrightarrow> P st2)))"

definition entry_uses :: "'st arg_entry \<Rightarrow> bool" where
  "entry_uses e \<longleftrightarrow> (\<forall>argv st s st'. ac_parse (en_ac e) argv st = Inr (s, st') \<longrightarrow> s \<le> length argv)"

definition options_keep :: "('st \<Rightarrow> bool) \<Rightarrow> 'st command \<times> 'st \<Rightarrow> bool" where
  "options_keep P cs \<longleftrightarrow> P (snd cs) \<and> (\<forall>k e. map_of (cmd_map (fst cs)) k = Some e \<longrightarrow> entry_keeps P e \<and> entry_uses e)"

named_theorems option_intros "declared options keep what they do not write to"

lemma arg_raise_fails [simp]: "arg_raise msg \<noteq> Inr x"
  by (simp add: arg_raise_def)

lemma type_boolean_keeps [option_intros]: "(\<And>b st. P st \<Longrightarrow> P (put b st)) \<Longrightarrow> type_keeps P (type_boolean put)"
  by (auto simp: type_keeps_def type_boolean_def parse_boolean_def split: list.splits)

lemma type_string_keeps [option_intros]: "(\<And>v st. P st \<Longrightarrow> P (put v st)) \<Longrightarrow> type_keeps P (type_string put)"
  by (auto simp: type_keeps_def type_string_def parse_into_def parse_string_def split: list.splits sum.splits)

lemma type_string_default_keeps [option_intros]: "(\<And>v st. P st \<Longrightarrow> P (put v st)) \<Longrightarrow> type_keeps P (type_string_default put d)"
  by (auto simp: type_keeps_def type_string_default_def parse_into_def parse_string_def split: list.splits sum.splits)

lemma type_numeric_keeps [option_intros]:
  "(\<And>v st. P st \<Longrightarrow> P (put v st)) \<Longrightarrow> type_keeps P (type_numeric_default num tname put d)"
  by (auto simp: type_keeps_def type_numeric_default_def parse_into_def parse_numeric_def split: list.splits sum.splits option.splits)

lemma type_connectable_keeps [option_intros]:
  "(\<And>v st. P st \<Longrightarrow> P (put v st)) \<Longrightarrow> type_keeps P (type_connectable gai get put d_port)"
  by (auto simp: type_keeps_def type_connectable_def parse_object_def parse_connectable_def split: list.splits sum.splits)

lemma type_listenable_keeps [option_intros]:
  "(\<And>v st. P st \<Longrightarrow> P (put v st)) \<Longrightarrow> type_keeps P (type_listenable gai get put d_port)"
  by (auto simp: type_keeps_def type_listenable_def parse_object_def parse_listenable_def split: list.splits sum.splits)

lemma options_keep_new [option_intros]: "P st \<Longrightarrow> options_keep P (command_new, st)"
  by (simp add: options_keep_def command_new_def)

lemma command_on_keeps:
  assumes "options_keep P (cmd, st0)" and "type_keeps P ty" and "ty st0 = (ac, st)"
    and flg: "\<And>b st. P st \<Longrightarrow> P (set_flag flg b st)"
  shows "options_keep P (command_on a b flg ac (cmd, st))"
proof -
  have P: "P st" "\<And>argv st1 s st2. ac_parse ac argv st1 = Inr (s, st2) \<Longrightarrow> s \<le> length argv \<and> (P st1 \<longrightarrow> P st2)"
    using assms(1-3) by (auto simp: type_keeps_def options_keep_def dest!: spec [of _ st0])
  have "entry_keeps P \<lparr>shared_required = n, optional_flag = flg, en_ac = ac\<rparr> \<and> entry_uses \<lparr>shared_required = n, optional_flag = flg, en_ac = ac\<rparr>" for n
    using P(2) flg by (fastforce simp: entry_keeps_def entry_uses_def)
  with assms(1) P(1) flg show ?thesis by (auto simp: options_keep_def command_on_def Let_def)
qed

lemma kz_on_keeps [option_intros]: "type_keeps P ty \<Longrightarrow> options_keep P cs \<Longrightarrow> options_keep P (kz_on a b ty cs)"
  using command_on_keeps [of P "fst cs" "snd cs" ty _ _ None]
  by (auto simp: kz_on_def set_flag_def split: prod.splits)

lemma kz_on_optional_keeps [option_intros]:
  "type_keeps P ty \<Longrightarrow> (\<And>b st. P st \<Longrightarrow> P (put b st)) \<Longrightarrow> options_keep P cs \<Longrightarrow> options_keep P (kz_on_optional a b put ty cs)"
  using command_on_keeps [of P "fst cs" "snd cs" ty _ _ "Some put"]
  by (auto simp: kz_on_optional_def set_flag_def split: prod.splits)

lemma parse_real_keeps:
  assumes "parse_real pm fm argv cs = Inr (rest, cmd, st)" and "options_keep P cs"
  shows "P st"
proof -
  obtain cmd' where "parse_loop pm fm argv 0 cs = Inr (rest, cmd', st)"
    using assms(1) by (auto simp: parse_real_def split: sum.splits prod.splits list.splits)
  from arg_run_keeps [OF parse_loop_run [OF this], of P] assms(2) show ?thesis by (auto simp: options_keep_def)
qed

text \<open>
  An option with the names \<open>N\<close> is demanded: one of its names is still in the map, and no other
  name shares its cell.
\<close>

definition demanded :: "'st command \<Rightarrow> string set \<Rightarrow> bool" where
  "demanded cmd N \<longleftrightarrow> (\<exists>c < cmd_next cmd. cmd_required cmd c \<and>
     (\<exists>k e. map_of (cmd_map cmd) k = Some e \<and> shared_required e = c \<and> optional_flag e = None) \<and>
     (\<forall>k e. map_of (cmd_map cmd) k = Some e \<longrightarrow> shared_required e = c \<longrightarrow> k \<in> N))"

definition cells_ok :: "'st command \<Rightarrow> bool" where
  "cells_ok cmd \<longleftrightarrow> (\<forall>k e. map_of (cmd_map cmd) k = Some e \<longrightarrow> shared_required e < cmd_next cmd)"

lemma cells_ok_new [option_intros]: "cells_ok (fst (command_new, st))"
  by (simp add: cells_ok_def command_new_def)

lemma cells_ok_on [option_intros]:
  "cells_ok (fst cs) \<Longrightarrow> cells_ok (fst (kz_on a b ty cs))"
  "cells_ok (fst cs) \<Longrightarrow> cells_ok (fst (kz_on_optional a b put ty cs))"
  by (auto simp: cells_ok_def kz_on_def kz_on_optional_def command_on_def Let_def less_Suc_eq split: prod.splits)

lemma demanded_new:
  assumes "cells_ok (fst cs)" and "ac_required (fst (ty (snd cs)))"
  shows "demanded (fst (kz_on a b ty cs)) {a, b}"
proof -
  obtain ac st where ty: "ty (snd cs) = (ac, st)" by fastforce
  let ?cmd = "fst (kz_on a b ty cs)"
  have "\<And>k e. map_of (cmd_map (fst cs)) k = Some e \<Longrightarrow> shared_required e \<noteq> cmd_next (fst cs)" using assms(1) by (fastforce simp: cells_ok_def)
  then have "\<forall>k e. map_of (cmd_map ?cmd) k = Some e \<longrightarrow> shared_required e = cmd_next (fst cs) \<longrightarrow> k \<in> {a, b}"
    by (auto simp: kz_on_def command_on_def ty Let_def)
  moreover have "\<exists>e. map_of (cmd_map ?cmd) b = Some e \<and> shared_required e = cmd_next (fst cs) \<and> optional_flag e = None"
    by (simp add: kz_on_def command_on_def ty Let_def)
  moreover have "cmd_next (fst cs) < cmd_next ?cmd" "cmd_required ?cmd (cmd_next (fst cs))"
    using assms(2) by (simp_all add: kz_on_def command_on_def ty Let_def)
  ultimately show ?thesis unfolding demanded_def by blast
qed

lemma demanded_command_on:
  assumes "demanded cmd N" and "a \<notin> N" and "b \<notin> N"
  shows "demanded (fst (command_on a b flg ac (cmd, st))) N"
proof -
  obtain c k e where c: "c < cmd_next cmd" "cmd_required cmd c" "map_of (cmd_map cmd) k = Some e" "shared_required e = c"
      "optional_flag e = None" "\<And>k e. map_of (cmd_map cmd) k = Some e \<Longrightarrow> shared_required e = c \<Longrightarrow> k \<in> N"
    using assms(1) unfolding demanded_def by blast
  let ?cmd = "fst (command_on a b flg ac (cmd, st))"
  have "k \<noteq> a" "k \<noteq> b" using c assms by auto
  then have "map_of (cmd_map ?cmd) k = Some e" using c(3) by (simp add: command_on_def Let_def)
  moreover have "\<forall>k e. map_of (cmd_map ?cmd) k = Some e \<longrightarrow> shared_required e = c \<longrightarrow> k \<in> N"
    using c(1,6) by (auto simp: command_on_def Let_def)
  moreover have "c < cmd_next ?cmd" "cmd_required ?cmd c" using c(1,2) by (simp_all add: command_on_def Let_def)
  ultimately show ?thesis using c(4,5) unfolding demanded_def by blast
qed

lemma demanded_on:
  "a \<notin> N \<Longrightarrow> b \<notin> N \<Longrightarrow> demanded (fst cs) N \<Longrightarrow> demanded (fst (kz_on a b ty cs)) N"
  "a \<notin> N \<Longrightarrow> b \<notin> N \<Longrightarrow> demanded (fst cs) N \<Longrightarrow> demanded (fst (kz_on_optional a b put ty cs)) N"
  by (auto simp: kz_on_def kz_on_optional_def demanded_command_on split: prod.splits)

text \<open>An accepted command line has one of the names of every demanded option.\<close>

lemma demanded_given:
  assumes "parse_real pm fm argv cs = Inr r" and "demanded (fst cs) N"
  shows "\<exists>k \<in> N. k \<in> set argv"
proof -
  obtain rest cmd st req where lp: "parse_loop pm fm argv 0 cs = Inr (rest, cmd, st)"
      and ms: "missing_options (rev (cmd_map cmd)) (cmd_required cmd) = ([], req)"
    using assms(1) by (auto simp: parse_real_def split: sum.splits prod.splits list.splits)
  note run = parse_loop_run [OF lp]
  obtain c k e where c: "cmd_required (fst cs) c" "map_of (cmd_map (fst cs)) k = Some e" "shared_required e = c"
      "optional_flag e = None" "\<And>k e. map_of (cmd_map (fst cs)) k = Some e \<Longrightarrow> shared_required e = c \<Longrightarrow> k \<in> N"
    using assms(2) unfolding demanded_def by blast
  have "(k, e) \<in> set (rev (cmd_map cmd))" using arg_run_map [OF run] map_of_SomeD [OF c(2)] by simp
  from missing_options_none [OF ms this c(4)] c(3) have "\<not> cmd_required (fst (snd (rest, cmd, st))) c" by simp
  from arg_run_given [OF run c(1) this] c(5) show ?thesis by blast
qed

lemma missing_options_empty:
  "(\<And>k e. (k, e) \<in> set m \<Longrightarrow> optional_flag e = None \<Longrightarrow> \<not> req (shared_required e)) \<Longrightarrow> missing_options m req = ([], req)"
  by (induction m req rule: missing_options.induct) auto

lemma break_step:
  assumes "map_of (cmd_map cmd) k = Some e" and "ac_parse (en_ac e) args st = Inr (s, st')" and "s \<le> length args"
  shows "parse_loop Parse_break fm (k # args) 0 (cmd, st) =
    parse_loop Parse_break fm (drop s args) 0 (mark_given e cmd, set_flag (optional_flag e) True st')"
  using assms by (subst parse_loop.simps) simp

text \<open>The cells of the options that must be given are among \<open>C\<close>.\<close>

definition demands_only :: "nat set \<Rightarrow> 'st command \<Rightarrow> bool" where
  "demands_only C cmd \<longleftrightarrow> (\<forall>k e. (k, e) \<in> set (cmd_map cmd) \<longrightarrow> shared_required e < cmd_next cmd \<and>
     (optional_flag e = None \<longrightarrow> cmd_required cmd (shared_required e) \<longrightarrow> shared_required e \<in> C))"

lemma demands_only_new [option_intros]: "demands_only C (fst (command_new, st))"
  by (simp add: demands_only_def command_new_def)

lemma demands_only_command_on:
  assumes "demands_only C cmd" and "flg = None \<Longrightarrow> ac_required ac \<Longrightarrow> cmd_next cmd \<in> C"
  shows "demands_only C (fst (command_on a b flg ac (cmd, st)))"
proof -
  let ?e = "\<lparr>shared_required = cmd_next cmd, optional_flag = flg, en_ac = ac\<rparr>"
  have "set (map_assign b ?e (map_assign a ?e (cmd_map cmd))) \<subseteq> {(a, ?e), (b, ?e)} \<union> set (cmd_map cmd)"
    using set_map_assign [of b ?e "map_assign a ?e (cmd_map cmd)"] set_map_assign [of a ?e "cmd_map cmd"] by blast
  with assms show ?thesis unfolding demands_only_def by (fastforce simp: command_on_def Let_def)
qed

lemma demands_only_on [option_intros]:
  "demands_only C (fst cs) \<Longrightarrow> \<not> ac_required (fst (ty (snd cs))) \<or> cmd_next (fst cs) \<in> C \<Longrightarrow> demands_only C (fst (kz_on a b ty cs))"
  "demands_only C (fst cs) \<Longrightarrow> demands_only C (fst (kz_on_optional a b put ty cs))"
  by (auto simp: kz_on_def kz_on_optional_def split: prod.splits intro!: demands_only_command_on)

lemma cmd_next_on [simp]:
  "cmd_next (fst (kz_on a b ty cs)) = Suc (cmd_next (fst cs))"
  "cmd_next (fst (kz_on_optional a b put ty cs)) = Suc (cmd_next (fst cs))"
  by (simp_all add: kz_on_def kz_on_optional_def command_on_def Let_def split: prod.splits)

text \<open>Declared options, by name.\<close>

lemma map_of_kz_on:
  "map_of (cmd_map (fst (kz_on a b ty cs))) =
     (let e = \<lparr>shared_required = cmd_next (fst cs), optional_flag = None, en_ac = fst (ty (snd cs))\<rparr>
      in (map_of (cmd_map (fst cs)))(a \<mapsto> e, b \<mapsto> e))"
  "map_of (cmd_map (fst (kz_on_optional a b put ty cs))) =
     (let e = \<lparr>shared_required = cmd_next (fst cs), optional_flag = Some put, en_ac = fst (ty (snd cs))\<rparr>
      in (map_of (cmd_map (fst cs)))(a \<mapsto> e, b \<mapsto> e))"
  by (simp_all add: kz_on_def kz_on_optional_def command_on_def Let_def split: prod.splits)

lemma snd_kz_on:
  "snd (kz_on a b ty cs) = snd (ty (snd cs))"
  "snd (kz_on_optional a b put ty cs) = put False (snd (ty (snd cs)))"
  by (simp_all add: kz_on_def kz_on_optional_def command_on_def Let_def set_flag_def split: prod.splits)

lemma fst_types:
  "fst (type_string put st) = \<lparr>ac_parse = parse_into parse_string put, ac_required = True\<rparr>"
  "fst (type_string_default put d st) = \<lparr>ac_parse = parse_into parse_string put, ac_required = False\<rparr>"
  "fst (type_connectable gai get put' d_port st) = \<lparr>ac_parse = parse_object (parse_connectable gai) get put', ac_required = True\<rparr>"
  by (simp_all add: type_string_def type_string_default_def type_connectable_def)

lemma snd_types:
  "snd (type_boolean putb st) = putb False st"
  "snd (type_string put st) = st"
  "snd (type_string_default put d st) = put d st"
  "snd (type_numeric_default num tname putn dn st) = putn (dn st) st"
  "snd (type_connectable gai get put' d_port st) = put' \<lparr>m_dst = sockaddr_zero, m_port = d_port\<rparr> st"
  "snd (type_listenable gai get put' d_port st) = put' \<lparr>m_dst = addr_any d_port, m_port = d_port\<rparr> st"
  by (simp_all add: type_boolean_def type_string_def type_string_default_def type_numeric_default_def type_connectable_def type_listenable_def)

lemmas option_values = map_of_kz_on snd_kz_on fst_types snd_types Let_def

section \<open>The two ways to walk the arguments\<close>

definition forget_argv :: "(string list \<times> 'a) arg_result \<Rightarrow> (string list \<times> 'a) arg_result" where
  "forget_argv r = (case r of Inl e \<Rightarrow> Inl e | Inr (argv, x) \<Rightarrow> Inr ([], x))"

lemma break_loop_is_through:
  assumes "\<And>k e. map_of (cmd_map (fst cs)) k = Some e \<Longrightarrow> entry_uses e" and "i \<le> length argv"
  shows "parse_loop Parse_break Fail_exception (drop i argv) 0 cs = forget_argv (parse_loop Parse_through Fail_exception argv i cs)"
  using assms
proof (induction Parse_through Fail_exception argv i cs rule: parse_loop.induct)
  case (1 argv i cs)
  consider "length argv \<le> i" | "i < length argv" "map_of (cmd_map (fst cs)) (argv ! i) = None"
    | e where "i < length argv" "map_of (cmd_map (fst cs)) (argv ! i) = Some e" by fastforce
  then show ?case
  proof cases
    case (3 e)
    show ?thesis
    proof (cases "ac_parse (en_ac e) (drop (i + 1) argv) (snd cs)")
      case (Inr b)
      obtain s st where ps: "ac_parse (en_ac e) (drop (i + 1) argv) (snd cs) = Inr (s, st)" using Inr by (cases b) simp
      let ?cs = "(mark_given e (fst cs), set_flag (optional_flag e) True st)"
      have s: "i + (s + 1) \<le> length argv" using "1.prems"(1) [OF 3(2)] ps 3(1) unfolding entry_uses_def by fastforce
      have "parse_loop Parse_break Fail_exception (drop (i + (s + 1)) argv) 0 ?cs =
          forget_argv (parse_loop Parse_through Fail_exception argv (i + (s + 1)) ?cs)"
        using "1.hyps"(2) [OF _ 3(2) ps refl refl refl] 3(1) s "1.prems"(1) by simp
      moreover have "\<not> length argv - i < Suc s" using s by simp
      ultimately show ?thesis using 3 ps s
        by (simp add: parse_loop.simps [of _ Fail_exception "drop i argv"] parse_loop.simps [of Parse_through Fail_exception argv i] add.commute)
    qed (use 3 in \<open>simp add: parse_loop.simps [of _ Fail_exception "drop i argv"] parse_loop.simps [of Parse_through Fail_exception argv i] forget_argv_def\<close>)
  qed (simp_all add: parse_loop.simps [of _ Fail_exception "[]"] parse_loop.simps [of _ Fail_exception "drop i argv"] parse_loop.simps [of Parse_through Fail_exception argv i] forget_argv_def)
qed

text \<open>
  C40: cutting the arguments out of \<open>argv\<close> while parsing and stepping over them are the same for
  the commands that refuse unknown arguments: \<open>break_order\<close> gives the variables, the flags and the
  errors of \<open>order\<close>, and leaves no argument.
\<close>

theorem break_order_is_order:
  assumes "\<And>k e. map_of (cmd_map (fst cs)) k = Some e \<Longrightarrow> entry_uses e"
  shows "break_order argv cs = forget_argv (kz_order argv cs)"
  using break_loop_is_through [of cs 0 argv] assms
  by (auto simp: break_order_def kz_order_def parse_real_def forget_argv_def split: sum.splits prod.splits list.splits)

end
