(* ===== verification/BootTheorems.thy ===== *)
theory BootTheorems
  imports Boot KazuhikiTheorems Tcadb ServerNetworkTheorems ManagerElection GatewayTheorems
begin

text \<open>
  The processes from the command line on: what an accepted command line has, that the first state
  of a process is one from which the invariants of the servers, managers and gateways hold, and
  two options that do not do what the usage says.
\<close>

section \<open>Options\<close>

lemma basic_args_keep [option_intros]:
  assumes "options_keep P cs"
    and "\<And>v st. P st \<Longrightarrow> P (verbose_update (\<lambda>_. v) st)" and "\<And>v st. P st \<Longrightarrow> P (logfile_set_update (\<lambda>_. v) st)"
    and "\<And>v st. P st \<Longrightarrow> P (logfile_update (\<lambda>_. v) st)" and "\<And>v st. P st \<Longrightarrow> P (logpack_path_set_update (\<lambda>_. v) st)"
    and "\<And>v st. P st \<Longrightarrow> P (logpack_path_update (\<lambda>_. v) st)" and "\<And>v st. P st \<Longrightarrow> P (pidfile_set_update (\<lambda>_. v) st)"
    and "\<And>v st. P st \<Longrightarrow> P (pidfile_update (\<lambda>_. v) st)" and "\<And>v st. P st \<Longrightarrow> P (keepalive_interval_usec_update (\<lambda>_. v) st)"
    and "\<And>v st. P st \<Longrightarrow> P (clock_interval_update (\<lambda>_. v) st)" and "\<And>v st. P st \<Longrightarrow> P (connect_timeout_sec_update (\<lambda>_. v) st)"
    and "\<And>v st. P st \<Longrightarrow> P (connect_retry_limit_update (\<lambda>_. v) st)" and "\<And>v st. P st \<Longrightarrow> P (wthreads_update (\<lambda>_. v) st)"
    and "\<And>v st. P st \<Longrightarrow> P (rthreads_update (\<lambda>_. v) st)"
  shows "options_keep P (set_basic_args fl cs)"
  unfolding set_basic_args_def by simp (intro option_intros assms; assumption)

lemma basic_args_cells [option_intros]: "cells_ok (fst cs) \<Longrightarrow> cells_ok (fst (set_basic_args fl cs))"
  unfolding set_basic_args_def by simp (intro option_intros; assumption)

lemma server_options_keep_interval: "options_keep (\<lambda>a. keepalive_interval a = fl_const fl 2) (server_options fl gai a0)"
  unfolding server_options_def
  by simp (intro option_intros; simp add: server_args_new_def rpc_args_new_def)

lemma manager_options_keep_interval: "options_keep (\<lambda>a. keepalive_interval a = fl_const fl 2) (manager_options fl gai a0)"
  unfolding manager_options_def
  by simp (intro option_intros; simp add: manager_args_new_def rpc_args_new_def)

lemma gateway_options_keep_interval: "options_keep (\<lambda>a. keepalive_interval a = fl_const fl 2) (gateway_options fl gai a0)"
  unfolding gateway_options_def
  by simp (intro option_intros; simp add: gateway_args_new_def rpc_args_new_def)

lemma server_demands:
  "demanded (fst (server_options fl gai a0)) {''-l'', ''--listen''}"
  "demanded (fst (server_options fl gai a0)) {''-s'', ''--store''}"
  "demanded (fst (server_options fl gai a0)) {''-m'', ''--manager1''}"
  unfolding server_options_def
  by ((simp only: fold_simps id_apply comp_apply list.simps fold.simps), ((rule demanded_new) | (rule demanded_on, simp, simp))+;
      (intro option_intros | simp add: type_connectable_def type_string_def))+

lemma server_options_keep_manager2: "options_keep (\<lambda>a. manager2 a = address_nil) (server_options fl gai a0)"
  unfolding server_options_def
  by simp (intro option_intros; simp add: server_args_new_def rpc_args_new_def)

lemma rpc_args_parseD:
  assumes "rpc_args_parse convert argv cs = Inr a"
  obtains rest cmd a1 where "parse_real Parse_break Fail_exception (tl argv)
      (fst cs, (snd cs)\<lparr>prog := (case argv of [] \<Rightarrow> None | x # _ \<Rightarrow> Some x)\<rparr>) = Inr (rest, cmd, a1)" and "convert a1 = Inr a"
  using assms by (auto simp: rpc_args_parse_def break_order_def split: sum.splits)

lemma rpc_args_parse_keeps:
  assumes "rpc_args_parse convert argv cs = Inr a" and "options_keep P cs" and "\<And>v st. P st \<Longrightarrow> P (prog_update (\<lambda>_. v) st)"
  obtains a1 where "P a1" and "convert a1 = Inr a"
proof -
  from rpc_args_parseD [OF assms(1)] obtain rest cmd a1 where pr: "parse_real Parse_break Fail_exception (tl argv)
      (fst cs, (snd cs)\<lparr>prog := (case argv of [] \<Rightarrow> None | x # _ \<Rightarrow> Some x)\<rparr>) = Inr (rest, cmd, a1)" and c: "convert a1 = Inr a" by blast
  have "options_keep P (fst cs, (snd cs)\<lparr>prog := (case argv of [] \<Rightarrow> None | x # _ \<Rightarrow> Some x)\<rparr>)"
    using assms(2,3) by (auto simp: options_keep_def)
  from parse_real_keeps [OF pr this] c that show thesis by blast
qed

lemma rpc_args_parse_given:
  assumes "rpc_args_parse convert argv cs = Inr a" and "demanded (fst cs) N"
  shows "\<exists>k \<in> N. k \<in> set (tl argv)"
  by (rule rpc_args_parseD [OF assms(1)]) (use demanded_given assms(2) in fastforce)

text \<open>The conversions of the arguments.\<close>

lemma cluster_args_convertD:
  assumes "cluster_args_convert fl sk a = Inr a'"
  shows "keepalive_interval_usec a' = fl_usec fl (keepalive_interval a)" and "cluster_args.more a' = cluster_args.more a"
    and "cluster_addr a' = address_of_sockaddr (m_dst (cluster_addr_in a))"
  using assms by (auto simp: cluster_args_convert_def rpc_args_convert_def Let_def split: sum.splits)

lemma address_nil_not_connectable [simp]: "\<not> connectable address_nil"
  by (simp add: connectable_def raw_port_def address_nil_def numeral_2_eq_2)

lemma server_args_convertD:
  assumes "server_args_convert fl sk a = Inr a'"
  shows "keepalive_interval_usec a' = fl_usec fl (keepalive_interval a)"
    and "garbage_min_time_sec a' \<le> garbage_max_time_sec a'"
    and "stream_addr a' = set_port (stream_port a') (cluster_addr a')"
    and "manager2 a = address_nil \<Longrightarrow> connectable (manager2 a') \<Longrightarrow> \<not> address_eq (manager2 a') (manager1 a')"
  using assms
  by (auto simp: server_args_convert_def cluster_args_convert_def rpc_args_convert_def Let_def split: sum.splits if_splits)

lemma address_eq_refl [simp]: "address_eq a a"
proof -
  have "memcmp n xs xs = 0" for n xs by (induction n arbitrary: xs; case_tac xs) simp_all
  then show ?thesis by (simp add: address_eq_def)
qed

section \<open>Starting\<close>

text \<open>
  C33: a server that starts. Its command line names a listening address, a database and a manager
  by one of the names of each option; the garbage times are in order; a second manager is not the
  first; streams are expected at the server's address with the stream port; the database is the
  one that was opened; and the server is in the first state of the server's invariant, with empty
  rings and no request under way.
\<close>

theorem server_started:
  assumes "server_main fl gai sk op now now' a0 argv = Inr s"
  shows "(\<exists>k \<in> {''-l'', ''--listen''}. k \<in> set (tl argv)) \<and> (\<exists>k \<in> {''-s'', ''--store''}. k \<in> set (tl argv)) \<and>
    (\<exists>k \<in> {''-m'', ''--manager1''}. k \<in> set (tl argv)) \<and>
    m_garbage_min_time (s_db s) \<le> m_garbage_max_time (s_db s) \<and>
    (connectable (s_manager2 s) \<longrightarrow> s_manager2 s \<noteq> s_manager1 s) \<and>
    (\<exists>p. s_stream_addr s = set_port p (s_addr s)) \<and>
    (\<exists>path gmin gmax glimit. storage_open op path gmin gmax glimit = Inr (s_db s)) \<and>
    server_initial s \<and> server_inv p s"
proof -
  obtain a db where a: "rpc_args_parse (server_args_convert fl sk) argv (server_options fl gai a0) = Inr a"
      and db: "storage_open op (dbpath a) (garbage_min_time_sec a) (garbage_max_time_sec a) (garbage_mem_limit_kb a * 1024) = Inr db"
      and s: "s = server_new now now' a db"
    using assms by (auto simp: server_main_def server_args_of_def split: sum.splits)
  obtain a1 where m2: "manager2 a1 = address_nil" and c: "server_args_convert fl sk a1 = Inr a"
    by (rule rpc_args_parse_keeps [OF a server_options_keep_manager2]) simp
  have start: "server_initial s" by (simp add: s server_initial_def server_new_def)
  have "m_garbage_min_time db = garbage_min_time_sec a" "m_garbage_max_time db = garbage_max_time_sec a"
    using db by (auto simp: storage_open_def split: option.splits prod.splits bool.splits)
  then have "m_garbage_min_time (s_db s) \<le> m_garbage_max_time (s_db s)"
    using server_args_convertD(2) [OF c] by (simp add: s server_new_def)
  moreover have "connectable (s_manager2 s) \<longrightarrow> s_manager2 s \<noteq> s_manager1 s"
    using server_args_convertD(4) [OF c m2] by (auto simp: s server_new_def)
  moreover have "\<exists>p. s_stream_addr s = set_port p (s_addr s)"
    using server_args_convertD(3) [OF c] by (auto simp: s server_new_def)
  moreover have "\<exists>path gmin gmax glimit. storage_open op path gmin gmax glimit = Inr (s_db s)"
    using db by (auto simp: s server_new_def)
  ultimately show ?thesis
    using rpc_args_parse_given [OF a server_demands(1)] rpc_args_parse_given [OF a server_demands(2)]
      rpc_args_parse_given [OF a server_demands(3)] start server_initial_inv [OF start] by blast
qed

text \<open>Arithmetic on natural numbers, a resolver that knows one host, sockets that always work.\<close>

definition sample_float :: "nat float_api" where
  "sample_float = \<lparr>fl_read = (\<lambda>s. if s \<noteq> [] \<and> list_all is_decimal_digit s then Some (nat (digits_value s)) else None), fl_const = (\<lambda>n. n),
     fl_usec = (\<lambda>n. of_nat (n * 1000000)), fl_msec = (\<lambda>n. of_nat (n * 1000))\<rparr>"

definition sample_resolver :: resolver where
  "sample_resolver v6 host = Inr [\<lparr>ai_family = AF_INET, ai_addr = [2, 0, 0, 0, 10, 0, 0, of_nat (length host), 0, 0, 0, 0, 0, 0, 0, 0]\<rparr>]"

definition sample_sockets :: sock_api where
  "sample_sockets = \<lparr>sk_socket = 3, sk_setsockopt = (\<lambda>fd. 0), sk_bind = (\<lambda>fd sa. 0), sk_listen = (\<lambda>fd. 0), sk_nonblock = (\<lambda>fd. True), sk_error = []\<rparr>"

definition sample_net :: net_arg where
  "sample_net = \<lparr>m_dst = sockaddr_zero, m_port = 0\<rparr>"

definition sample_server_args :: "nat server_args" where
  "sample_server_args = \<lparr>verbose = False, logfile_set = False, logfile = [], logpack_path_set = False, logpack_path = [],
     pidfile_set = False, pidfile = [], prog = None, keepalive_interval = 0, keepalive_interval_usec = 0, clock_interval = 0,
     clock_interval_usec = 0, connect_timeout_sec = 0, connect_timeout_msec = 0, connect_retry_limit = 0, wthreads = 0, rthreads = 0,
     cluster_addr_in = sample_net, cluster_addr = address_nil, cluster_lsock = 0,
     dbpath = [], manager1_in = sample_net, manager2_in = sample_net, manager2_set = False, manager1 = address_nil,
     manager2 = address_nil, stream_port = 0, stream_addr = address_nil, stream_lsock = 0, offer_tmpdir = [],
     db_backup_basename = [], replicate_set_retry_num = 0, replicate_delete_retry_num = 0, replace_set_limit_mem = 0,
     garbage_min_time_sec = 0, garbage_max_time_sec = 0, garbage_mem_limit_kb = 0\<rparr>"

lemma server_entries:
  "map_of (cmd_map (fst (server_options fl gai a0))) ''-l'' = Some \<lparr>shared_required = 10, optional_flag = None,
     en_ac = \<lparr>ac_parse = parse_object (parse_connectable gai) cluster_addr_in (\<lambda>na. cluster_addr_in_update (\<lambda>_. na)), ac_required = True\<rparr>\<rparr>"
  "map_of (cmd_map (fst (server_options fl gai a0))) ''-s'' = Some \<lparr>shared_required = 13, optional_flag = None,
     en_ac = \<lparr>ac_parse = parse_into parse_string (\<lambda>s. dbpath_update (\<lambda>_. s)), ac_required = True\<rparr>\<rparr>"
  "map_of (cmd_map (fst (server_options fl gai a0))) ''-m'' = Some \<lparr>shared_required = 14, optional_flag = None,
     en_ac = \<lparr>ac_parse = parse_object (parse_connectable gai) manager1_in (\<lambda>na. manager1_in_update (\<lambda>_. na)), ac_required = True\<rparr>\<rparr>"
  by (simp_all add: server_options_def set_basic_args_def option_values command_new_def)

lemma server_demands_only: "demands_only {10, 13, 14} (fst (server_options fl gai a0))"
  unfolding server_options_def set_basic_args_def
  by simp (intro option_intros; simp add: type_boolean_def type_string_default_def type_numeric_default_def command_new_def)

lemma server_variables:
  "cluster_addr_in (snd (server_options fl gai a0)) = \<lparr>m_dst = sockaddr_zero, m_port = SERVER_DEFAULT_PORT\<rparr>"
  "manager1_in (snd (server_options fl gai a0)) = \<lparr>m_dst = sockaddr_zero, m_port = MANAGER_DEFAULT_PORT\<rparr>"
  "manager2_set (snd (server_options fl gai a0)) = False"
  by (simp_all add: server_options_def set_basic_args_def option_values command_new_def)

lemma sample_resolves: "p \<noteq> 0 \<Longrightarrow> parse_connectable sample_resolver (''me'' # argv) \<lparr>m_dst = d, m_port = p\<rparr> =
    Inr \<lparr>m_dst = \<lparr>sin_port = store_word Big 2 p, sin_addr = [10, 0, 0, 2]\<rparr>, m_port = p\<rparr>"
  by (simp add: parse_connectable_def split_last_def resolve_addr_def resolve_port_def sample_resolver_def numeral_eq_Suc)

definition sample_argv :: "string list" where
  "sample_argv = [''kumo-server'', ''-l'', ''me'', ''-s'', ''x.tch'', ''-m'', ''me'']"

lemma sample_accepted: "\<exists>rest cmd a. break_order (tl sample_argv)
    (fst (server_options fl sample_resolver a0), (snd (server_options fl sample_resolver a0))\<lparr>prog := v\<rparr>) = Inr (rest, cmd, a) \<and> manager2_set a = False"
proof -
  let ?cmd = "fst (server_options fl sample_resolver a0)" and ?a = "(snd (server_options fl sample_resolver a0))\<lparr>prog := v\<rparr>"
  have nz: "SERVER_DEFAULT_PORT \<noteq> 0" "MANAGER_DEFAULT_PORT \<noteq> 0" by (simp_all add: SERVER_DEFAULT_PORT_def MANAGER_DEFAULT_PORT_def)
  obtain c' a' where lp: "parse_loop Parse_break Fail_exception (tl sample_argv) 0 (?cmd, ?a) = Inr ([], c', a')"
    and a': "manager2_set a' = False" "cmd_map c' = cmd_map ?cmd" "cmd_required c' = (cmd_required ?cmd)(10 := False, 13 := False, 14 := False)"
    by (simp add: sample_argv_def break_step server_entries parse_object_def server_variables sample_resolves nz set_flag_def
        parse_into_def parse_string_def parse_loop.simps [of _ _ "[]"] mark_given_def)
  have "missing_options (rev (cmd_map c')) (cmd_required c') = ([], cmd_required c')"
  proof (rule missing_options_empty)
    fix k e assume "(k, e) \<in> set (rev (cmd_map c'))" and "optional_flag e = None"
    then show "\<not> cmd_required c' (shared_required e)"
      using server_demands_only [of fl sample_resolver a0] a'(2,3) unfolding demands_only_def by auto
  qed
  with lp a'(1) show ?thesis by (simp add: break_order_def parse_real_def)
qed

lemma sample_server_main:
  "\<exists>s. server_main sample_float sample_resolver sample_sockets (kumo_tcadb_op mem_adb_api) 9 9 sample_server_args sample_argv = Inr s"
proof -
  obtain rest cmd a where bo: "break_order (tl sample_argv) (fst (server_options sample_float sample_resolver sample_server_args),
      (snd (server_options sample_float sample_resolver sample_server_args))\<lparr>prog := Some ''kumo-server''\<rparr>) = Inr (rest, cmd, a)"
    and m2: "manager2_set a = False" using sample_accepted by blast
  obtain a' where "server_args_convert sample_float sample_sockets a = Inr a'"
    using m2 by (simp add: server_args_convert_def cluster_args_convert_def listen_tcp_def sample_sockets_def Let_def rpc_args_convert_def)
  with bo have "server_args_of sample_float sample_resolver sample_sockets sample_server_args sample_argv = Inr a'"
    by (simp add: server_args_of_def rpc_args_parse_def sample_argv_def)
  then show ?thesis
    by (simp add: server_main_def storage_open_def kumo_tcadb_op_def kumo_tcadb_create_def kumo_tcadb_open_def on_adb_def mem_adb_api_def)
qed

theorem server_started_witness:
  "\<exists>s. server_main sample_float sample_resolver sample_sockets (kumo_tcadb_op mem_adb_api) 9 9 sample_server_args sample_argv = Inr s \<and>
     server_inv sample_platform s"
  using sample_server_main server_started [of sample_float sample_resolver sample_sockets "kumo_tcadb_op mem_adb_api" 9 9 sample_server_args sample_argv]
  by blast

theorem break_order_is_order_witness:
  "break_order (tl sample_argv) (server_options sample_float sample_resolver sample_server_args) =
     forget_argv (kz_order (tl sample_argv) (server_options sample_float sample_resolver sample_server_args))"
  using break_order_is_order server_options_keep_manager2 [of sample_float sample_resolver sample_server_args] unfolding options_keep_def by blast

section \<open>Options that do not do what they say\<close>

text \<open>
  The option \<open>--keepalive-interval\<close> has no effect. It is stored in microseconds, and the
  conversion after the parsing computes the microseconds again from the interval in seconds, which
  no option writes to: whatever the command line, every process sends its keep-alive messages at
  the interval of two seconds.
\<close>

theorem keepalive_option_has_no_effect:
  "(server_args_of fl gai sk a0 argv = Inr a \<longrightarrow> keepalive_interval_usec a = fl_usec fl (fl_const fl 2)) \<and>
   (manager_args_of fl gai sk b0 argv = Inr b \<longrightarrow> keepalive_interval_usec b = fl_usec fl (fl_const fl 2)) \<and>
   (gateway_args_of fl gai sk c0 argv = Inr c \<longrightarrow> keepalive_interval_usec c = fl_usec fl (fl_const fl 2))"
proof (intro conjI impI)
  assume "server_args_of fl gai sk a0 argv = Inr a"
  then obtain a1 where "keepalive_interval a1 = fl_const fl 2" "server_args_convert fl sk a1 = Inr a"
    unfolding server_args_of_def by (rule rpc_args_parse_keeps [OF _ server_options_keep_interval]) simp
  then show "keepalive_interval_usec a = fl_usec fl (fl_const fl 2)" using server_args_convertD(1) [of fl sk a1 a] by simp
next
  assume "manager_args_of fl gai sk b0 argv = Inr b"
  then obtain b1 where "keepalive_interval b1 = fl_const fl 2" "manager_args_convert fl sk b1 = Inr b"
    unfolding manager_args_of_def by (rule rpc_args_parse_keeps [OF _ manager_options_keep_interval]) simp
  then show "keepalive_interval_usec b = fl_usec fl (fl_const fl 2)"
    using cluster_args_convertD(1) [of fl sk b1] by (auto simp: manager_args_convert_def split: sum.splits)
next
  assume "gateway_args_of fl gai sk c0 argv = Inr c"
  then obtain c1 where "keepalive_interval c1 = fl_const fl 2" "gateway_args_convert fl sk c1 = Inr c"
    unfolding gateway_args_of_def by (rule rpc_args_parse_keeps [OF _ gateway_options_keep_interval]) simp
  then show "keepalive_interval_usec c = fl_usec fl (fl_const fl 2)"
    by (auto simp: gateway_args_convert_def rpc_args_convert_def listen_when_def Let_def split: sum.splits if_splits)
qed

theorem keepalive_option_has_no_effect_witness:
  "\<exists>a. server_args_of sample_float sample_resolver sample_sockets sample_server_args sample_argv = Inr a \<and>
     keepalive_interval_usec a = 2000000"
proof -
  obtain s where "server_main sample_float sample_resolver sample_sockets (kumo_tcadb_op mem_adb_api) 9 9 sample_server_args sample_argv = Inr s"
    using sample_server_main by blast
  then obtain a where "server_args_of sample_float sample_resolver sample_sockets sample_server_args sample_argv = Inr a"
    by (auto simp: server_main_def split: sum.splits)
  with keepalive_option_has_no_effect [of sample_float sample_resolver sample_sockets sample_server_args sample_argv a undefined undefined undefined undefined]
  show ?thesis by (simp add: sample_float_def)
qed

text \<open>
  In a gateway the short name \<open>-k\<close>, which the usage also gives for the keep-alive interval, is that
  of the prefix of keys: the later declaration replaces the earlier one.
\<close>

theorem gateway_k_is_key_prefix:
  "map_of (cmd_map (fst (gateway_options fl gai a0))) ''-k'' = map_of (cmd_map (fst (gateway_options fl gai a0))) ''--key-prefix''"
  by (simp add: gateway_options_def set_basic_args_def option_values command_new_def)

text \<open>A gateway that starts has a front end to listen on, and is in the first state of its invariant.\<close>

theorem gateway_started:
  assumes "gateway_main fl gai sk dbnew dbopen a0 argv = Inr g"
  shows "gateway_fresh p g \<and> g_error_count g = 0 \<and>
    (\<exists>a. gateway_args_of fl gai sk a0 argv = Inr a \<and> (mctext_set a \<or> mcbin_set a \<or> cloudy_set a) \<and> (g_cache g = None \<longleftrightarrow> local_cache a = []))"
proof -
  obtain a where a: "gateway_args_of fl gai sk a0 argv = Inr a" and g: "\<exists>c. g = gateway_new a c \<and> (c = None \<longleftrightarrow> local_cache a = [])"
    using assms by (auto simp: gateway_main_def split: sum.splits if_splits)
  from a obtain a1 where "gateway_args_convert fl sk a1 = Inr a"
    unfolding gateway_args_of_def by (rule rpc_args_parse_keeps [OF _ gateway_options_keep_interval]) simp
  then have "mctext_set a \<or> mcbin_set a \<or> cloudy_set a"
    by (auto simp: gateway_args_convert_def rpc_args_convert_def listen_when_def Let_def split: sum.splits if_splits)
  with a g show ?thesis by (auto simp: gateway_new_def gateway_fresh_def hs_synced_intros)
qed

end
