(* ===== verification/Spec2Isabelle.thy ===== *)
theory Spec2Isabelle
  imports StorageTheorems ServerNetworkTheorems SessionTheorems ManagerElection GatewayTheorems StreamBuffer BinaryFrames Cloudy TextReplies StorageModules OutputTheorems EventLoopTheorems ConnectionTheorems BootTheorems
begin

text \<open>
  kumofs is a distributed key-value store. Applications talk memcached's protocols to a
  \<^emph>\<open>gateway\<close>; gateways send reads and writes to \<^emph>\<open>servers\<close>, which keep the records in a local
  database and copy every write to the other servers of its key; one or two \<^emph>\<open>managers\<close> watch
  which servers are alive, own the two consistent-hashing rings (one for reading, one for
  writing) and drive the replacement of records when the writing ring has changed. This
  development models the program's own logic, from \<open>src/src\<close>, and proves what makes it correct.

  \<^bold>\<open>The theories\<close>, in the order in which they build on each other:

  \<^item> \<open>Prelude\<close>: machine words and byte orders, results and errors, lists, and the collections
    \<open>wf_intros\<close> of the invariants' introduction rules. \<open>platform\<close> holds what the build and the
    host decide (byte order, the \<open>__LITTLE_ENDIAN__\<close> macro) and the digest function SHA-1.
  \<^item> \<open>Clock\<close> (\<open>logic/clock.h\<close>, \<open>clock_logic.h\<close>): the 32-bit logical clock with its wrap-around
    order, stamps (\<open>ClockTime\<close>), and the lock-free update as a step relation.
  \<^item> \<open>Address\<close> (\<open>rpc/address.*\<close>): addresses as bytes, their order and round trips.
  \<^item> \<open>HashSpace\<close> (\<open>logic/hash.*\<close>): the ring, its virtual nodes, the walk \<open>EACH_ASSIGN\<close>; the ring
    holds exactly the points of its servers after any operations, the walk gives the first
    three nodes clockwise, and joining, leaving and failing move only the keys they must.
  \<^item> \<open>Storage\<close>, \<open>Tchdb\<close>, \<open>StorageTheorems\<close> (\<open>storage/\<close>): the record layout, the conditional
    operations, deletion with its garbage queue, iteration, and the module on Tokyo Cabinet's
    hash database. The contract of a storage module is the locale \<open>kumo_storage_kv\<close> for single
    records and its extension \<open>kumo_storage\<close> for the iteration, each with a variant (\<open>_io\<close>) for a database whose
    operations do not fail; they are interpreted on the Tokyo Cabinet module. Replicas converge, deleted keys stay deleted.
  \<^item> \<open>Tcbdb\<close>, \<open>Tcadb\<close>, \<open>StorageModules\<close> (\<open>storage/tcbdb.cc\<close>, \<open>storage/tcadb.cc\<close>): the modules on the B+ tree and on
    the abstract database, which give further interpretations of the contract for single records; their own iterations
    are described exactly: that of the abstract database visits every record but deletes nothing, that of the B+ tree
    starts with an uninitialised mark, which may make it visit the first record twice, and may report failure at its end.
  \<^item> \<open>Protocol\<close> (\<open>logic/msgtype.h\<close>, \<open>*.proto.h\<close>): messages and the wire form of keys and values.
  \<^item> \<open>ServerStore\<close>, \<open>ServerReplace\<close>, \<open>ServerNetwork\<close> and their \<open>Theorems\<close>
    (\<open>logic/server/\<close>): a server's handlers and tasks as functions from a state to an error,
    a state and a list of actions, and a server as a step relation; which replicas a write
    goes to, when it is answered, who copies and who deletes a record in a replacement, and
    the invariant of every reachable state.
  \<^item> \<open>Session\<close>, \<open>Cluster\<close> and their \<open>Theorems\<close> (\<open>rpc/\<close>, \<open>logic/wavy_server.cc\<close>): calls with
    their callbacks and timeouts, sessions by address, introductions, delayed functions.
    The table of callbacks is the locale \<open>callback_store\<close>, interpreted on the partitioned table.
  \<^item> \<open>Output\<close>, \<open>OutputTheorems\<close> (\<open>mpsrc/wavy_output.cc\<close>, \<open>wavy_edge_epoll.h\<close>): the queues of unsent bytes per
    descriptor, callers and output threads as a step relation; bytes leave in order, finalizers run at most once and in order, and
    where the queue is not drained.
  \<^item> \<open>EventLoop\<close>, \<open>EventLoopTheorems\<close> (\<open>mpsrc/wavy_core.cc\<close>): the threads of the loop, each with its position in the
    code, interleaved between the points where they take and release the lock; an event is given to one thread, no wakeup is lost.
  \<^item> \<open>Connection\<close>, \<open>ConnectionTheorems\<close> (\<open>rpc/protocol.h\<close>, \<open>connection.h\<close>, \<open>transport_impl.h\<close>, \<open>cluster.cc\<close>,
    \<open>weak_responder_impl.h\<close>, \<open>responder_impl.h\<close>, \<open>vrefbuffer.h\<close>): messages from bytes to handlers and callbacks,
    and back. What is relied on of MessagePack is the locale \<open>msgpack_lib\<close>, interpreted on a small encoding.
  \<^item> \<open>Manager\<close>, \<open>ManagerTheorems\<close>, \<open>ManagerElection\<close> (\<open>logic/manager/\<close>): the rings' owner,
    the replacement as a refinement of an abstract machine of phases, and the election.
  \<^item> \<open>Gateway\<close>, \<open>GatewayTheorems\<close> (\<open>logic/gateway/\<close>, \<open>gate/interface.h\<close>): routing, retries and
    the cache; every request is answered once.
  \<^item> \<open>StreamBuffer\<close> (\<open>mp/stream_buffer*.h\<close>): the buffer of a connection, blocks with reference counts on an
    explicit heap; it is a queue of bytes, and what requests have taken references to stays.
  \<^item> \<open>Memproto\<close>, \<open>FrontEnd\<close>, \<open>MemcacheBinary\<close>, \<open>BinaryFrames\<close>, \<open>Cloudy\<close> (\<open>gate/memproto/memproto.*\<close>,
    \<open>gate/memcache_binary.cc\<close>, \<open>gate/cloudy.cc\<close>): the binary protocol, from frames to requests of the
    gateway and back. The queue that keeps replies in order is the locale \<open>ordered_replies\<close> of \<open>OrderedReplies\<close>, interpreted
    on the response queue; values survive being stored and read.
  \<^item> \<open>Decimal\<close>, \<open>Memtext\<close>, \<open>MemtextMoves\<close>, \<open>MemtextTheorems\<close>, \<open>TextStream\<close> (\<open>gate/memproto/memtext.*\<close>): the
    parser of the text protocol as the tables and actions of its state machine. The entries of the tables that commands
    use are rules; on them rest the parts of commands, whole commands, and streams of commands in pieces. What the parser
    wants of its user is the locale \<open>text_server\<close>.
  \<^item> \<open>MemcacheText\<close>, \<open>MemcacheTextTheorems\<close>, \<open>TextReplies\<close> (\<open>gate/memcache_text.cc\<close>): the text protocol's handler, which
    interprets \<open>text_server\<close>, the reply to a stored value and to a get of many keys.
  \<^item> \<open>Kazuhiki\<close>, \<open>Boot\<close> and their \<open>Theorems\<close> (\<open>kazuhiki/\<close>, \<open>logic/boot.*\<close>, the \<open>main.cc\<close> and \<open>init.h\<close> of the three
    processes): the parser of options, the options of a process and what is made of them; a server that starts
    is in the first state of the server's invariant.
  \<^item> this theory: the composition of gateway, server and storage for a read and for a write.

  \<^bold>\<open>State and operations.\<close> Each process is a record with the fields of the code's \<open>resource\<close>
  and module classes; a handler is a function that gives the exception that leaves it (if
  one does), the new state and the actions it has taken: answers, calls with their callback
  and timeout, submitted tasks. Objects behind shared pointers (nodes, sessions, retry
  objects, replication contexts) are numbers that are looked up in a store; a weak pointer is
  a number that may have no object any more. A handler is one atomic step, as the mutexes of
  the code make it; the clock, whose update is lock-free, is modelled step by step.

  The handlers of connections have the buffer as a list of bytes, which is what \<open>StreamBuffer\<close> shows it to be, and give
  the requests they submit and the bytes they write. The parser of the text protocol keeps positions in the buffer and its callbacks
  write into the buffer, as the code does; positions and numbers have the widths of the code, and the theorems on
  streams are for less than \<open>2 ^ 32\<close> bytes between two moments at which everything has been read, where the 32-bit
  mark of the expiration time is exact. Characters are signed in the search of the parser's tables, as on x86.

  \<^bold>\<open>Parameters.\<close> Code outside \<open>src/\<close> is an argument: the functions of Tokyo Cabinet
  (\<open>tchdb_api\<close>, \<open>tcadb_api\<close>, \<open>tcbdb_api\<close>, \<open>adb_api\<close>), MessagePack (\<open>msgpack_api\<close>), SHA-1, the size a compressed stream
  reports, process id, time and version (also in the text protocol), the limit of descriptors and \<open>setsockopt\<close>, what the kernel answers to reads, writes and
  polls, \<open>getaddrinfo\<close>, the calls on listening sockets, and the arithmetic of floating-point options. What is relied on is stated as hypotheses, and concrete instances (a database
  as an association list, a digest function) show that they can hold.

  \<^bold>\<open>Loops and fuel.\<close> The walk around the ring, the collector and the iterations are total
  functions with termination proofs, so no fuel is involved; so are the loops over arguments, over
  the objects in a buffer and over the pieces of a vector. Waiting for the other threads of
  a replacement is a parameter that may not return.

  \<^bold>\<open>Not modelled\<close>: failing allocations in general; timers, accepting and connecting threads and the wrappers of
  system calls (the rest of \<open>mpsrc/\<close> and \<open>mp/\<close>), beyond the events they deliver, and the edges of systems other than
  Linux; compression of streams; the lifetimes of zones; logging; daemons and the start of threads;
  the IPv6 build; the storage module \<open>luxio.cc\<close>, whose table of operations no longer
  matches the interface; the offline tool \<open>mergedb\<close> and the scripts under \<open>command/\<close>. In the gateway,
  the fields of a result other than \<open>error\<close> have no value when an error is reported.
\<close>

section \<open>Requests from end to end\<close>

lemma coordinator_accepts_chosen:
  assumes "each_assign hs h = Inr ns" and "\<not> hs_empty hs"
  shows "check_coordinator_assign (m_addr (chosen 0 ns)) hs h = Inr ()"
  using assms by (auto simp: check_coordinator_assign_def chosen_def split: option.splits)

lemma replicator_accepts_chosen:
  assumes "each_assign hs h = Inr ns" and "\<not> hs_empty hs" and "n \<in> set (drop k ns)" and "m_active n"
  shows "check_replicator_assign (m_addr (chosen k ns)) hs h = Inr ()"
proof -
  have "m_active (chosen k ns)" "chosen k ns \<in> set ns"
    using chosen_active [OF assms(3,4)] by (auto dest: in_set_dropD)
  with assms(1,2) show ?thesis by (auto simp: check_replicator_assign_def)
qed

lemma seed_not_empty: "\<not> seed_empty sd \<Longrightarrow> \<not> hs_empty (hashspace_of_seed p sd)"
  by (simp add: seed_empty_def hs_empty_def hashspace_of_seed_def rehash_ring)

text \<open>What the application is told of the bytes a server holds for its key.\<close>

definition read_result :: "platform \<Rightarrow> 'c gateway \<Rightarrow> dbkey \<Rightarrow> bytes option \<Rightarrow> gate_res" where
  "read_result p g key stored =
     (case stored of
        None \<Rightarrow> Res_get (dbkey_remove_prefix key g) (dk_hash key) None 0
      | Some raw \<Rightarrow>
          if length raw < 10 then Res_get_error
          else Res_get (dbkey_remove_prefix key g) (dk_hash key) (Some (drop 10 raw)) (ct_get (clocktime_of p raw)))"


text \<open>What a plain write of the gateway is for the server that unpacks it, and what the server stores.\<close>

lemma set_value_unpacked:
  "\<exists>v. dbvalue_unpack p (dbvalue_pack p (dbvalue_new val 0 (ClockTime 0))) = Inr v \<and> dbvalue_ok p v \<and> dv_val v = val"
  using dbvalue_unpack_pack [of p "dbvalue_new val 0 (ClockTime 0)"] by (auto simp: dbvalue_new_def)

lemma drop_raw_set_clocktime: "dbvalue_ok p v \<Longrightarrow> drop 10 (dbvalue_raw (raw_set_clocktime p ct v)) = dv_val v"
  using dbvalue_ok_set_clocktime [of p v ct] by (simp add: dbvalue_raw_def dbvalue_ok_def raw_set_clocktime_def)

lemma set_refused:
  assumes "ring_ok (s_whs s)" "ring_ok (s_rhs s)" "\<not> hs_empty (s_rhs s)"
    and "check_coordinator_assign (s_addr s) (s_whs s) (dk_hash key) = Inr ()"
    and "fst (rpc_Set p op rid OP_SET key val s) \<noteq> None"
  shows "calc_replicators (s_addr s) (s_whs s) (s_rhs s) (dk_hash key) = Inl Undefined_behaviour \<or>
    fst (storage_set op (s_db s) (dbkey_raw p key) (dbvalue_raw (raw_set_clocktime p (fst (clock_incr_clocktime (s_clock s))) val))) \<noteq> None"
proof (cases "calc_replicators (s_addr s) (s_whs s) (s_rhs s) (dk_hash key)")
  case (Inl e)
  with assms(3,4) show ?thesis by (auto simp: calc_replicators_ok [OF assms(1,2)] Let_def split: if_splits)
next
  case (Inr r)
  with assms(5) show ?thesis
    by (cases r) (auto simp: rpc_Set_def OP_SET_def OP_CAS_def OP_SET_ASYNC_def case_prod_beta Let_def set_replicate_eq)
qed

text \<open>The only answers of a write whose copies are all settled and none of which was given up.\<close>

definition server_answers :: "server_action list \<Rightarrow> server_action list" where
  "server_answers acts = filter (\<lambda>a. \<exists>r x. a = Respond r x) acts"

lemma set_run_answers:
  assumes "set_run cid s0 acts0 es s1 {#} acts" and "run_inv cid rid ct (copies cid acts0) [] s0 (copies cid acts0) acts0"
    and "size (copies cid acts0) < 2 ^ 32" and "Respond rid V_nil \<notin> set acts"
  shows "server_answers acts = [Respond rid (V_u64 (ct_get ct))]"
proof -
  let ?stamp = "Respond rid (V_u64 (ct_get ct)) :: server_action"
  from set_run_inv [OF assms(1-3)] obtain f where f: "0 < f \<longleftrightarrow> Respond rid V_nil \<in> set acts"
    and one: "length (filter (\<lambda>a. a = ?stamp) acts) = (if size ({#} :: (bool \<times> address) multiset) + f = 0 then 1 else 0)"
    and only: "\<forall>r x. Respond r x \<in> set acts \<longrightarrow> r = rid \<and> (x = V_nil \<or> x = V_u64 (ct_get ct))"
    unfolding run_inv_def by (elim exE conjE) (rule that)
  have "f = 0" using f assms(4) by simp
  then have "length (filter (\<lambda>a. a = ?stamp) acts) = 1" unfolding one by simp
  moreover have "filter (\<lambda>a. \<exists>r x. a = Respond r x) acts = filter (\<lambda>a. a = ?stamp) acts"
  proof (rule filter_cong [OF refl])
    fix a assume a: "a \<in> set acts"
    show "(\<exists>r x. a = Respond r x) \<longleftrightarrow> a = ?stamp"
    proof
      assume "\<exists>r x. a = Respond r x"
      then obtain r x where r: "a = Respond r x" by blast
      then have "r = rid" "x = V_nil \<or> x = V_u64 (ct_get ct)" using only a by simp_all
      with r a assms(4) show "a = ?stamp" by auto
    qed simp
  qed
  ultimately have "length (server_answers acts) = 1" "set (server_answers acts) \<subseteq> {?stamp}"
    unfolding server_answers_def by auto
  then show ?thesis by (cases "server_answers acts") auto
qed

text \<open>
  C10: a plain write from end to end. The gateway and the server it chooses have the writing ring
  the manager sent; the server has a reading ring. The gateway sends one request to that
  server, which unpacks the key and the value sent. The server is the coordinator of the key and refuses the
  write only if the choice of the replicas overruns its array or its database fails. When it accepts,
  it stores the value with a fresh stamp, so that a read there finds it, and sends copies to exactly
  the replicas of both rings; when all copies have been replied to and none is given up,
  it has answered the gateway exactly once, with the stamp; and the application is told
  success, with its own key and value and this stamp.
\<close>

theorem write_end_to_end:
  fixes g :: "'c gateway" and s :: "'d server"
  assumes "kumo_storage_kv op recs"
    and "g_whs g = hashspace_of_seed p ws" and "s_whs s = hashspace_of_seed p ws" and "\<not> seed_empty ws"
    and "s_rhs s = hashspace_of_seed p rs" and "\<not> seed_empty rs"
    and "each_assign (hashspace_of_seed p ws) (dk_hash (dbkey_with_prefix p (rs_key req) (rs_user_hash req) g)) = Inr ns"
    and "rs_operation req = OP_SET" and "gw_Set p req g = (g1, acts)" and "s_addr s = m_addr (chosen 0 ns)"
  shows "\<exists>key sent val stamp. key = dbkey_with_prefix p (rs_key req) (rs_user_hash req) g \<and>
    stamp = fst (clock_incr_clocktime (s_clock s)) \<and>
    acts = [G_Call (s_addr s) (To_server (S_Set OP_SET key sent)) (Cb_retry (g_next_retry g)) 10] \<and>
    dbkey_unpack p (dbkey_pack p key) = Inr key \<and> dbvalue_unpack p (dbvalue_pack p sent) = Inr val \<and>
    (\<forall>e s1 sacts. subsystem_dispatch p op env rid (S_Set OP_SET key val) s = (e, s1, sacts) \<longrightarrow>
      (e \<noteq> None \<longrightarrow> calc_replicators (s_addr s) (s_whs s) (s_rhs s) (dk_hash key) = Inl Undefined_behaviour \<or>
         fst (storage_set op (s_db s) (dbkey_raw p key) (dbvalue_raw (raw_set_clocktime p stamp val))) \<noteq> None) \<and>
      (e = None \<longrightarrow>
         (\<exists>raw. storage_get op (s_db s1) (dbkey_raw p key) = Some raw \<and> drop 10 raw = rs_val req \<and> clocktime_of p raw = stamp) \<and>
         replica_calls sacts = replica_targets s (dk_hash key) \<and>
         (\<forall>es s2 cacts. set_run (s_next_ctx s) s1 sacts es s2 {#} cacts \<longrightarrow> Respond rid V_nil \<notin> set cacts \<longrightarrow>
            server_answers cacts = [Respond rid (V_u64 (ct_get stamp))]))) \<and>
    snd (res_retry p api (g_next_retry g) (V_u64 (ct_get stamp)) V_nil g1) =
      [Callback (rs_user req) (Res_set (rs_key req) (dk_hash key) (rs_val req) (ct_get stamp) True)]"
proof -
  define key where "key = dbkey_with_prefix p (rs_key req) (rs_user_hash req) g"
  define sent where "sent = dbvalue_new (rs_val req) 0 (ClockTime 0)"
  define stamp where "stamp = fst (clock_incr_clocktime (s_clock s))"
  let ?i = "g_next_retry g"
  let ?rt = "\<lparr>rt_limit = 0, rt_param = S_Set OP_SET key sent, rt_callback = B_Set (rs_user req)\<rparr>"
  let ?g = "g\<lparr>g_retries := (g_retries g)(?i \<mapsto> ?rt), g_next_retry := Suc ?i\<rparr>"
  obtain val where val: "dbvalue_unpack p (dbvalue_pack p sent) = Inr val" "dbvalue_ok p val" "dv_val val = rs_val req"
    using set_value_unpacked [of p "rs_val req"] by (auto simp: sent_def)
  note ne = seed_not_empty [OF assms(4), of p] and ner = seed_not_empty [OF assms(6), of p]
  have rings: "ring_ok (s_whs s)" "ring_ok (s_rhs s)" "\<not> hs_empty (s_rhs s)"
    using ring_ok_not_empty [OF hs_synced_intros(2)] ne ner assms(3,5) by simp_all
  have "server_for HS_WRITE (dk_hash key) 0 ?g = (Inr (s_addr s), ?g, [])"
    using server_for_assigned [of HS_WRITE ?g "dk_hash key" ns 0] assms(2,7,10) ne by (simp add: ring_of_def key_def)
  moreover have "rs_operation req \<noteq> GATE_OP_CAS" by (simp add: assms(8) OP_SET_def GATE_OP_CAS_def)
  ultimately have call: "g1 = ?g" "acts = [G_Call (s_addr s) (To_server (S_Set OP_SET key sent)) (Cb_retry ?i) 10]"
    using assms(8,9) by (simp_all add: gw_Set_def new_call_def retry_call_def submit_catch_def key_def [symmetric] sent_def [symmetric] Let_def)
  have coord: "check_coordinator_assign (s_addr s) (s_whs s) (dk_hash key) = Inr ()"
    using coordinator_accepts_chosen [of "s_whs s" "dk_hash key" ns] assms(3,7,10) ne by (simp add: key_def)
  have answer: "snd (res_retry p api ?i (V_u64 (ct_get stamp)) V_nil g1) =
      [Callback (rs_user req) (Res_set (rs_key req) (dk_hash key) (rs_val req) (ct_get stamp) True)]"
    by (simp add: call(1) res_retry_def res_Set_def gateway_catch_def sent_def dbvalue_new_def)
      (simp add: key_def dbkey_remove_prefix_def dbkey_with_prefix_def Let_def)
  have server: "(e \<noteq> None \<longrightarrow> calc_replicators (s_addr s) (s_whs s) (s_rhs s) (dk_hash key) = Inl Undefined_behaviour \<or>
         fst (storage_set op (s_db s) (dbkey_raw p key) (dbvalue_raw (raw_set_clocktime p stamp val))) \<noteq> None) \<and>
      (e = None \<longrightarrow>
         (\<exists>raw. storage_get op (s_db s1) (dbkey_raw p key) = Some raw \<and> drop 10 raw = rs_val req \<and> clocktime_of p raw = stamp) \<and>
         replica_calls sacts = replica_targets s (dk_hash key) \<and>
         (\<forall>es s2 cacts. set_run (s_next_ctx s) s1 sacts es s2 {#} cacts \<longrightarrow> Respond rid V_nil \<notin> set cacts \<longrightarrow>
            server_answers cacts = [Respond rid (V_u64 (ct_get stamp))]))"
    if disp: "subsystem_dispatch p op env rid (S_Set OP_SET key val) s = (e, s1, sacts)" for e s1 sacts
  proof (intro conjI impI)
    obtain e' s' acts' where rpc: "rpc_Set p op rid OP_SET key val s = (e', s', acts')" by (metis prod_cases3)
    have e: "e' = e" "e = None \<Longrightarrow> s' = s1 \<and> acts' = sacts"
      using disp rpc by (auto simp: subsystem_dispatch_def with_catch_def split: option.splits)
    show "calc_replicators (s_addr s) (s_whs s) (s_rhs s) (dk_hash key) = Inl Undefined_behaviour \<or>
         fst (storage_set op (s_db s) (dbkey_raw p key) (dbvalue_raw (raw_set_clocktime p stamp val))) \<noteq> None" if "e \<noteq> None"
      using set_refused [OF rings coord, of p op rid val] rpc e(1) that by (simp add: stamp_def)
    assume ok: "e = None"
    with e rpc have rpc': "rpc_Set p op rid OP_SET key val s = (None, s1, sacts)" by simp
    note res = rpc_Set_result [OF assms(1) rings(1,2) val(2) rpc'] and cp = rpc_Set_copies [OF rings(1,2) rpc']
    show "\<exists>raw. storage_get op (s_db s1) (dbkey_raw p key) = Some raw \<and> drop 10 raw = rs_val req \<and> clocktime_of p raw = stamp"
      using res drop_raw_set_clocktime [OF val(2)] val(3) by (auto simp: stamp_def)
    show "replica_calls sacts = replica_targets s (dk_hash key)" using res by blast
    show "\<forall>es s2 cacts. set_run (s_next_ctx s) s1 sacts es s2 {#} cacts \<longrightarrow> Respond rid V_nil \<notin> set cacts \<longrightarrow>
        server_answers cacts = [Respond rid (V_u64 (ct_get stamp))]"
      using set_run_answers [OF _ cp(3,2)] unfolding stamp_def by blast
  qed
  show ?thesis
    using call(2) answer server val(1) dbkey_unpack_pack [of p key]
    by (intro exI [of _ key] exI [of _ sent] exI [of _ val] exI [of _ stamp] conjI) (auto simp: key_def stamp_def)
qed

text \<open>A seed with two servers, and a gateway and a server that have taken it for both rings.\<close>

definition two_seed :: seed where
  "two_seed = seed_of sample_ring"

definition seeded_gateway :: "'c gateway" where
  "seeded_gateway = sample_gateway\<lparr>g_whs := hashspace_of_seed sample_platform two_seed,
     g_rhs := hashspace_of_seed sample_platform two_seed\<rparr>"

lemma two_seed_assign:
  "\<exists>ns n. each_assign (hashspace_of_seed sample_platform two_seed) h = Inr ns \<and> n \<in> set ns \<and> m_active n"
proof -
  have nodes: "m_nodes (hashspace_of_seed sample_platform two_seed) = m_nodes sample_ring"
    by (simp add: two_seed_def seed_of_def hashspace_of_seed_def rehash_ring)
  have synced: "hs_synced sample_platform (hashspace_of_seed sample_platform two_seed)" by (rule hs_synced_intros)
  have "\<not> hs_empty (hashspace_of_seed sample_platform two_seed)" by (simp add: hs_empty_def nodes sample_ring_nodes)
  from assigned_some [OF synced this] obtain ns where ns: "each_assign (hashspace_of_seed sample_platform two_seed) h = Inr ns" "ns \<noteq> []"
    by blast
  then have "set ns \<subseteq> set (m_nodes sample_ring)"
    using each_assign_synced [OF synced, of h] set_assigned [of sample_platform "m_nodes sample_ring" h]
    by (auto simp: nodes sample_ring_nodes)
  then have "\<forall>n \<in> set ns. m_active n" by (auto simp: sample_ring_nodes)
  with ns show ?thesis using hd_in_set [of ns] by blast
qed


definition sample_env :: os_env where
  "sample_env = \<lparr>os_pid = 1, os_now = 100, os_version = ''0.4'', os_rlimit = Some 1024, os_setsockopt = (\<lambda>i on. True)\<rparr>"

definition sample_set_req :: req_set where
  "sample_set_req = \<lparr>rs_key = [1], rs_user_hash = Some 7, rs_val = [2], rs_operation = OP_SET, rs_clocktime = 0, rs_user = 4\<rparr>"

theorem write_end_to_end_witness:
  "\<exists>s s1 sent val sacts raw.
     snd (gw_Set sample_platform sample_set_req (seeded_gateway :: (bytes \<Rightarrow> bytes option) gateway)) =
       [G_Call (s_addr s) (To_server (S_Set OP_SET \<lparr>dk_hash = 7, dk_key = [1]\<rparr> sent)) (Cb_retry 0) 10] \<and>
     subsystem_dispatch sample_platform (kumo_tchdb_op mem_api) sample_env 3 (S_Set OP_SET \<lparr>dk_hash = 7, dk_key = [1]\<rparr> val) s = (None, s1, sacts) \<and>
     replica_calls sacts = replica_targets s 7 \<and>
     storage_get (kumo_tchdb_op mem_api) (s_db s1) (dbkey_raw sample_platform \<lparr>dk_hash = 7, dk_key = [1]\<rparr>) = Some raw \<and> drop 10 raw = [2]"
proof -
  let ?g = "seeded_gateway :: (bytes \<Rightarrow> bytes option) gateway" and ?key = "\<lparr>dk_hash = 7, dk_key = [1]\<rparr>"
  let ?ring = "hashspace_of_seed sample_platform two_seed" and ?op = "kumo_tchdb_op mem_api"
  obtain ns n where ns: "each_assign ?ring 7 = Inr ns" "n \<in> set ns" "m_active n" using two_seed_assign by blast
  obtain g1 acts where out: "gw_Set sample_platform sample_set_req ?g = (g1, acts)" by fastforce
  let ?s = "sample_server\<lparr>s_addr := m_addr (chosen 0 ns), s_whs := ?ring, s_rhs := ?ring\<rparr>"
  have key: "dbkey_with_prefix sample_platform (rs_key sample_set_req) (rs_user_hash sample_set_req) ?g = ?key"
    by (simp add: dbkey_with_prefix_def seeded_gateway_def sample_gateway_def sample_set_req_def)
  have hyp: "g_whs ?g = ?ring" "s_whs ?s = ?ring" "\<not> seed_empty two_seed" "s_rhs ?s = ?ring" "s_addr ?s = m_addr (chosen 0 ns)"
    "rs_operation sample_set_req = OP_SET"
    by (simp_all add: seeded_gateway_def two_seed_def seed_of_def seed_empty_def sample_ring_nodes sample_set_req_def)
  have asg: "each_assign ?ring (dk_hash (dbkey_with_prefix sample_platform (rs_key sample_set_req) (rs_user_hash sample_set_req) ?g)) = Inr ns"
    unfolding key using ns(1) by simp
  from write_end_to_end [OF mem_storage_kv hyp(1-4) hyp(3) asg hyp(6) out hyp(5), where env = sample_env and rid = 3 and api = map_cache]
  obtain key sent val stamp where k: "key = dbkey_with_prefix sample_platform (rs_key sample_set_req) (rs_user_hash sample_set_req) ?g"
    and call: "acts = [G_Call (s_addr ?s) (To_server (S_Set OP_SET key sent)) (Cb_retry (g_next_retry ?g)) 10]"
    and server: "\<forall>e s1 sacts. subsystem_dispatch sample_platform ?op sample_env 3 (S_Set OP_SET key val) ?s = (e, s1, sacts) \<longrightarrow>
      (e \<noteq> None \<longrightarrow> calc_replicators (s_addr ?s) (s_whs ?s) (s_rhs ?s) (dk_hash key) = Inl Undefined_behaviour \<or>
         fst (storage_set ?op (s_db ?s) (dbkey_raw sample_platform key) (dbvalue_raw (raw_set_clocktime sample_platform stamp val))) \<noteq> None) \<and>
      (e = None \<longrightarrow>
         (\<exists>raw. storage_get ?op (s_db s1) (dbkey_raw sample_platform key) = Some raw \<and> drop 10 raw = rs_val sample_set_req \<and>
            clocktime_of sample_platform raw = stamp) \<and>
         replica_calls sacts = replica_targets ?s (dk_hash key) \<and>
         (\<forall>es s2 cacts. set_run (s_next_ctx ?s) s1 sacts es s2 {#} cacts \<longrightarrow> Respond 3 V_nil \<notin> set cacts \<longrightarrow>
            server_answers cacts = [Respond 3 (V_u64 (ct_get stamp))]))"
    by (elim exE conjE) (rule that)
  note key_eq = k [unfolded key]
  obtain e s1 sacts where disp: "subsystem_dispatch sample_platform ?op sample_env 3 (S_Set OP_SET key val) ?s = (e, s1, sacts)"
    by (metis prod_cases3)
  have ring: "ring_ok ?ring"
    using ring_ok_not_empty [OF hs_synced_intros(2)] seed_not_empty [OF hyp(3)] by blast
  have "calc_replicators a ?ring ?ring h \<noteq> Inl Undefined_behaviour" for a h
    using each_assign_ok [OF ring, of h] by (auto simp: calc_replicators_ok [OF ring ring] check_coordinator_assign_def Let_def
        split: sum.splits option.splits if_splits)
  moreover have "fst (storage_set ?op st k v) = None" for st k v
    by (simp add: storage_set_def kumo_tchdb_op_def kumo_tchdb_set_def mem_api_def case_prod_beta)
  ultimately have none: "e = None" using server [rule_format, OF disp] by auto
  have g0: "g_next_retry ?g = 0" by (simp add: seeded_gateway_def sample_gateway_def)
  from server [rule_format, OF disp] none obtain raw where
    "storage_get ?op (s_db s1) (dbkey_raw sample_platform ?key) = Some raw" "drop 10 raw = [2]" "replica_calls sacts = replica_targets ?s 7"
    by (auto simp: sample_set_req_def key_eq)
  with call g0 out disp none key_eq show ?thesis
    by (intro exI [of _ ?s] exI [of _ s1] exI [of _ sent] exI [of _ val] exI [of _ sacts] exI [of _ raw]) simp
qed

end
